(* ===== verification/Prelude.thy ===== *)
theory Prelude
  imports Main "HOL-Library.Word"
begin

text \<open>
  The vocabulary the component theories share: names for the machine integers of the code
  (\<open>uint8_t\<close> to \<open>uint64_t\<close>; \<open>size_t\<close> is 64 bits wide), byte strings, the little-endian
  encoding of numbers, the result type of the C routines, decimal printing
  (\<open>std::to_string\<close>, \<open>operator<<\<close> on integers) and the few generic lemmas on lists, maps
  and words the components need.

  A C routine of the bundled compression library reads memory it was given a length for.
  A read past that length is the value \<open>Fault\<close>, so that "no byte outside the buffer is
  read" is a theorem about the model and not an assumption; an error code returned by the
  routine is \<open>Err\<close>, a result is \<open>Ok\<close>.
\<close>

type_synonym u8 = "8 word"
type_synonym u16 = "16 word"
type_synonym u32 = "32 word"
type_synonym u64 = "64 word"
type_synonym bytes = "8 word list"

named_theorems crun_simps \<open>evaluation of the result type of the C routines\<close>

section \<open>Results of the C routines\<close>

datatype ('e, 'a) cres = Fault | Err 'e | Ok 'a

fun cbind :: "('e, 'a) cres \<Rightarrow> ('a \<Rightarrow> ('e, 'b) cres) \<Rightarrow> ('e, 'b) cres" where
  "cbind Fault f = Fault"
| "cbind (Err e) f = Err e"
| "cbind (Ok a) f = f a"

definition check_that :: "bool \<Rightarrow> 'e \<Rightarrow> ('e, 'a) cres \<Rightarrow> ('e, 'a) cres" where
  "check_that bad e k = (if bad then Err e else k)"

lemma cbind_eq_Ok [crun_simps]: "cbind m f = Ok b \<longleftrightarrow> (\<exists>a. m = Ok a \<and> f a = Ok b)"
  by (cases m) auto

lemma cbind_eq_Fault [crun_simps]: "cbind m f = Fault \<longleftrightarrow> m = Fault \<or> (\<exists>a. m = Ok a \<and> f a = Fault)"
  by (cases m) auto

lemma cbind_eq_Err [crun_simps]:
  "cbind m f = Err e \<longleftrightarrow> m = Err e \<or> (\<exists>a. m = Ok a \<and> f a = Err e)"
  by (cases m) auto

lemma check_that_simps [crun_simps, simp]:
  "check_that True e k = Err e" "check_that False e k = k"
  by (simp_all add: check_that_def)

lemma check_that_eq_Ok [crun_simps]: "check_that b e k = Ok a \<longleftrightarrow> \<not> b \<and> k = Ok a"
  by (simp add: check_that_def)

lemma check_that_eq_Fault [crun_simps]: "check_that b e k = Fault \<longleftrightarrow> \<not> b \<and> k = Fault"
  by (simp add: check_that_def)

section \<open>Little-endian numbers in byte strings\<close>

primrec le_nat :: "bytes \<Rightarrow> nat" where
  "le_nat [] = 0"
| "le_nat (b # bs) = unat b + 256 * le_nat bs"

primrec le_bytes :: "nat \<Rightarrow> nat \<Rightarrow> bytes" where
  "le_bytes 0 v = []"
| "le_bytes (Suc n) v = of_nat (v mod 256) # le_bytes n (v div 256)"

lemma length_le_bytes [simp]: "length (le_bytes n v) = n"
  by (induction n arbitrary: v) auto

lemma unat_byte_of_mod [simp]: "unat (of_nat (v mod 256) :: u8) = v mod 256"
  by (simp add: unat_of_nat)

lemma unat_byte_lt [simp]: "unat (b :: u8) < 256"
  using unsigned_less [of b, where ?'a = nat] by simp

lemma le_nat_bytes: "le_nat (le_bytes n v) = v mod 256 ^ n"
  by (induction n arbitrary: v) (simp_all add: mod_mult2_eq)

lemma le_nat_less: "le_nat bs < 256 ^ length bs"
proof (induction bs)
  case Nil
  show ?case by simp
next
  case (Cons b bs)
  have "unat b + 256 * le_nat bs < 256 + 256 * le_nat bs"
    using unat_byte_lt [of b] by linarith
  also have "\<dots> = 256 * Suc (le_nat bs)" by simp
  also have "\<dots> \<le> 256 * 256 ^ length bs"
    using Cons.IH by (simp only: mult_le_mono2 Suc_leI)
  finally show ?case by simp
qed

lemma le_bytes_nat: "le_bytes (length bs) (le_nat bs) = bs"
proof (induction bs)
  case Nil
  show ?case by simp
next
  case (Cons b bs)
  have "(unat b + 256 * le_nat bs) mod 256 = unat b"
    by simp
  moreover have "(unat b + 256 * le_nat bs) div 256 = le_nat bs"
    using unat_byte_lt [of b] by linarith
  ultimately show ?case
    using Cons.IH by (simp del: of_nat_add)
qed

text \<open>Reading \<open>n\<close> bytes at offset \<open>pos\<close> of a buffer; \<open>Fault\<close> past its end.\<close>

definition rd :: "bytes \<Rightarrow> nat \<Rightarrow> nat \<Rightarrow> ('e, nat) cres" where
  "rd src pos n = (if pos + n \<le> length src then Ok (le_nat (take n (drop pos src))) else Fault)"

lemma rd_Ok: "rd src pos n = Ok v \<longleftrightarrow> pos + n \<le> length src \<and> v = le_nat (take n (drop pos src))"
  by (auto simp: rd_def)

lemma rd_not_Err [simp]: "rd src pos n \<noteq> Err e"
  by (simp add: rd_def)

lemma rd_Fault_iff [simp]: "rd src pos n = Fault \<longleftrightarrow> length src < pos + n"
  by (auto simp: rd_def)

lemma rd_less: "rd src pos n = Ok v \<Longrightarrow> v < 256 ^ n"
proof -
  assume "rd src pos n = Ok v"
  then have "length (take n (drop pos src)) = n" and "v = le_nat (take n (drop pos src))"
    by (auto simp: rd_Ok)
  then show ?thesis
    using le_nat_less [of "take n (drop pos src)"] by simp
qed

lemma rd_le_bytes:
  assumes "length pre = pos"
  shows "rd (pre @ le_bytes n v @ post) pos n = Ok (v mod 256 ^ n)"
  using assms by (simp add: rd_Ok le_nat_bytes)

lemma rd_byte:
  assumes "length pre = pos"
  shows "rd (pre @ b # post) pos 1 = Ok (unat b)"
  using assms by (simp add: rd_Ok)

section \<open>Text of numbers\<close>

text \<open>\<open>std::to_string\<close> on an unsigned and on a signed integer.\<close>

fun nat_str :: "nat \<Rightarrow> string" where
  "nat_str n = (if n < 10 then [char_of (48 + n)] else nat_str (n div 10) @ [char_of (48 + n mod 10)])"

declare nat_str.simps [simp del]

definition int_str :: "int \<Rightarrow> string" where
  "int_str i = (if i < 0 then CHR ''-'' # nat_str (nat (- i)) else nat_str (nat i))"

definition digit_val :: "char \<Rightarrow> nat" where
  "digit_val c = of_char c - 48"

definition is_digit :: "char \<Rightarrow> bool" where
  "is_digit c \<longleftrightarrow> 48 \<le> (of_char c :: nat) \<and> (of_char c :: nat) < 58"

lemma digit_char: "d < 10 \<Longrightarrow> is_digit (char_of (48 + d)) \<and> digit_val (char_of (48 + d)) = d"
  by (simp add: is_digit_def digit_val_def)

fun read_digits :: "nat \<Rightarrow> string \<Rightarrow> nat" where
  "read_digits acc [] = acc"
| "read_digits acc (c # cs) = (if is_digit c then read_digits (10 * acc + digit_val c) cs else acc)"

lemma read_digits_append:
  "list_all is_digit xs \<Longrightarrow> read_digits acc (xs @ ys) = read_digits (read_digits acc xs) ys"
  by (induction acc xs rule: read_digits.induct) auto

lemma nat_str_digits: "list_all is_digit (nat_str n)"
proof (induction n rule: nat_str.induct)
  case (1 n)
  then show ?case
    by (cases "n < 10") (subst nat_str.simps, simp add: digit_char)+
qed

lemma read_nat_str: "read_digits 0 (nat_str n) = n"
proof (induction n rule: nat_str.induct)
  case (1 n)
  show ?case
  proof (cases "n < 10")
    case True
    then show ?thesis by (subst nat_str.simps) (simp add: digit_char)
  next
    case False
    then show ?thesis
      using 1 digit_char [of "n mod 10"]
      by (subst nat_str.simps) (simp add: read_digits_append nat_str_digits)
  qed
qed

lemma nat_str_inject: "nat_str m = nat_str n \<longleftrightarrow> m = n"
  by (metis read_nat_str)

lemma nat_str_nonempty [simp]: "nat_str n \<noteq> []"
  by (subst nat_str.simps) simp

section \<open>Text as bytes\<close>

definition bytes_of_string :: "string \<Rightarrow> bytes" where
  "bytes_of_string s = map (\<lambda>c. of_nat (of_char c)) s"

definition string_of_bytes :: "bytes \<Rightarrow> string" where
  "string_of_bytes bs = map (\<lambda>b. char_of (unat b)) bs"

lemma of_char_less [simp]: "(of_char c :: nat) < 256"
  using of_char_eq_iff by (cases c) (simp add: of_char_def)

lemma string_of_bytes_of_string [simp]: "string_of_bytes (bytes_of_string s) = s"
proof -
  have "char_of (unat (of_nat (of_char c) :: u8)) = c" for c :: char
    using of_char_less [of c] by (simp add: unat_of_nat)
  then show ?thesis
    by (simp add: string_of_bytes_def bytes_of_string_def comp_def)
qed

lemma bytes_of_string_of_bytes: "bytes_of_string (string_of_bytes bs) = bs"
  by (simp add: bytes_of_string_def string_of_bytes_def comp_def)

lemma length_bytes_of_string [simp]: "length (bytes_of_string s) = length s"
  by (simp add: bytes_of_string_def)

lemma length_string_of_bytes [simp]: "length (string_of_bytes s) = length s"
  by (simp add: string_of_bytes_def)

section \<open>C strings and lookups\<close>

definition NUL :: char where "NUL = CHR 0x00"

text \<open>What is read from a message through a C string; \<open>None\<close> when it has no terminating zero, where the read
  runs past the message.\<close>

definition c_string :: "string \<Rightarrow> string option" where
  "c_string data = (if NUL \<in> set data then Some (takeWhile (\<lambda>c. c \<noteq> NUL) data) else None)"

lemma c_string_append: "NUL \<notin> set t \<Longrightarrow> c_string (t @ NUL # rest) = Some t"
  unfolding c_string_def by (induction t) auto

lemma c_string_terminated: "NUL \<notin> set t \<Longrightarrow> c_string (t @ [NUL]) = Some t"
  by (rule c_string_append)

text \<open>A variable that \<open>Get\<close> leaves alone when the key is missing.\<close>

definition got :: "'a option \<Rightarrow> 'a \<Rightarrow> 'a" where
  "got found old = (case found of Some v \<Rightarrow> v | None \<Rightarrow> old)"

lemma got_simps [simp]: "got None old = old" "got (Some v) old = v"
  by (simp_all add: got_def)

section \<open>Text separated by commas\<close>

fun join_comma :: "string list \<Rightarrow> string" where
  "join_comma [] = []"
| "join_comma [x] = x"
| "join_comma (x # y # xs) = x @ '','' @ join_comma (y # xs)"

lemma join_comma_snoc: "xs \<noteq> [] \<Longrightarrow> join_comma (xs @ [x]) = join_comma xs @ '','' @ x"
  by (induction xs rule: join_comma.induct) auto

section \<open>Generic facts\<close>

lemma find_unique:
  "\<lbrakk>x \<in> set xs; \<And>y. y \<in> set xs \<Longrightarrow> P y \<longleftrightarrow> y = x\<rbrakk> \<Longrightarrow> find P xs = Some x"
  by (induction xs) auto

lemma unat_plus_less:
  fixes a b :: u64
  shows "unat a + unat b < 2 ^ 64 \<Longrightarrow> unat (a + b) = unat a + unat b"
  by (simp add: unat_word_ariths)

lemma unat_drop_bit_u64:
  fixes a :: u64
  shows "unat (drop_bit k a) = unat a div 2 ^ k"
  by (subst unat_drop_bit_eq) (rule drop_bit_eq_div)

end
