(* ===== verification/Zstd_Errors.thy ===== *)
theory Zstd_Errors
  imports Prelude
begin

text \<open>
  Error codes of the bundled compression library and the worst-case size of a compressed
  message. The framework decides with \<open>ZSTD_compressBound\<close> and \<open>ZSTD_isError\<close> whether a log or
  monitoring message fits a datagram, and by how much it grows the pending batch.
\<close>

section \<open>Error codes\<close>

datatype ZSTD_ErrorCode =
    no_error | GENERIC | prefix_unknown | version_unsupported | frameParameter_unsupported
  | frameParameter_windowTooLarge | corruption_detected | checksum_wrong | literals_headerWrong
  | dictionary_corrupted | dictionary_wrong | dictionaryCreation_failed | parameter_unsupported
  | parameter_combination_unsupported | parameter_outOfBound | tableLog_tooLarge
  | maxSymbolValue_tooLarge | maxSymbolValue_tooSmall | cannotProduce_uncompressedBlock
  | stabilityCondition_notRespected | stage_wrong | init_missing | memory_allocation
  | workSpace_tooSmall | dstSize_tooSmall | srcSize_wrong | dstBuffer_null
  | noForwardProgress_destFull | noForwardProgress_inputEmpty | frameIndex_tooLarge | seekableIO
  | dstBuffer_wrong | srcBuffer_wrong | sequenceProducer_failed | externalSequences_invalid | maxCode

text \<open>The enumeration's numbers.\<close>

primrec error_number :: "ZSTD_ErrorCode \<Rightarrow> nat" where
  "error_number no_error = 0"
| "error_number GENERIC = 1"
| "error_number prefix_unknown = 10"
| "error_number version_unsupported = 12"
| "error_number frameParameter_unsupported = 14"
| "error_number frameParameter_windowTooLarge = 16"
| "error_number corruption_detected = 20"
| "error_number checksum_wrong = 22"
| "error_number literals_headerWrong = 24"
| "error_number dictionary_corrupted = 30"
| "error_number dictionary_wrong = 32"
| "error_number dictionaryCreation_failed = 34"
| "error_number parameter_unsupported = 40"
| "error_number parameter_combination_unsupported = 41"
| "error_number parameter_outOfBound = 42"
| "error_number tableLog_tooLarge = 44"
| "error_number maxSymbolValue_tooLarge = 46"
| "error_number maxSymbolValue_tooSmall = 48"
| "error_number cannotProduce_uncompressedBlock = 49"
| "error_number stabilityCondition_notRespected = 50"
| "error_number stage_wrong = 60"
| "error_number init_missing = 62"
| "error_number memory_allocation = 64"
| "error_number workSpace_tooSmall = 66"
| "error_number dstSize_tooSmall = 70"
| "error_number srcSize_wrong = 72"
| "error_number dstBuffer_null = 74"
| "error_number noForwardProgress_destFull = 80"
| "error_number noForwardProgress_inputEmpty = 82"
| "error_number frameIndex_tooLarge = 100"
| "error_number seekableIO = 102"
| "error_number dstBuffer_wrong = 104"
| "error_number srcBuffer_wrong = 105"
| "error_number sequenceProducer_failed = 106"
| "error_number externalSequences_invalid = 107"
| "error_number maxCode = 120"

text \<open>\<open>ZSTD_ERROR(name)\<close>: the negated number, as a \<open>size_t\<close>.\<close>

definition ZSTD_ERROR :: "ZSTD_ErrorCode \<Rightarrow> u64" where
  "ZSTD_ERROR c = - of_nat (error_number c)"

definition ERR_isError :: "u64 \<Rightarrow> bool" where
  "ERR_isError code \<longleftrightarrow> code > ZSTD_ERROR maxCode"

definition ERR_getErrorCode :: "u64 \<Rightarrow> nat" where
  "ERR_getErrorCode code = (if \<not> ERR_isError code then 0 else unat (0 - code))"

definition ZSTD_isError :: "u64 \<Rightarrow> bool" where
  "ZSTD_isError code = ERR_isError code"

text \<open>The text of an error; \<open>maxCode\<close> and every number that is not a code have none of their own.\<close>

definition notErrorCode :: string where
  "notErrorCode = ''Unspecified error code''"

primrec error_text :: "ZSTD_ErrorCode \<Rightarrow> string" where
  "error_text no_error = ''No error detected''"
| "error_text GENERIC = ''Error (generic)''"
| "error_text prefix_unknown = ''Unknown frame descriptor''"
| "error_text version_unsupported = ''Version not supported''"
| "error_text frameParameter_unsupported = ''Unsupported frame parameter''"
| "error_text frameParameter_windowTooLarge = ''Frame requires too much memory for decoding''"
| "error_text corruption_detected = ''Data corruption detected''"
| "error_text checksum_wrong = ''Restored data doesn't match checksum''"
| "error_text literals_headerWrong =
     ''Header of Literals' block doesn't respect format specification''"
| "error_text parameter_unsupported = ''Unsupported parameter''"
| "error_text parameter_combination_unsupported = ''Unsupported combination of parameters''"
| "error_text parameter_outOfBound = ''Parameter is out of bound''"
| "error_text init_missing = ''Context should be init first''"
| "error_text memory_allocation = ''Allocation error : not enough memory''"
| "error_text workSpace_tooSmall = ''workSpace buffer is not large enough''"
| "error_text stage_wrong = ''Operation not authorized at current processing stage''"
| "error_text tableLog_tooLarge = ''tableLog requires too much memory : unsupported''"
| "error_text maxSymbolValue_tooLarge = ''Unsupported max Symbol Value : too large''"
| "error_text maxSymbolValue_tooSmall = ''Specified maxSymbolValue is too small''"
| "error_text cannotProduce_uncompressedBlock = ''This mode cannot generate an uncompressed block''"
| "error_text stabilityCondition_notRespected = ''pledged buffer stability condition is not respected''"
| "error_text dictionary_corrupted = ''Dictionary is corrupted''"
| "error_text dictionary_wrong = ''Dictionary mismatch''"
| "error_text dictionaryCreation_failed = ''Cannot create Dictionary from provided samples''"
| "error_text dstSize_tooSmall = ''Destination buffer is too small''"
| "error_text srcSize_wrong = ''Src size is incorrect''"
| "error_text dstBuffer_null = ''Operation on NULL destination buffer''"
| "error_text noForwardProgress_destFull =
     ''Operation made no progress over multiple calls, due to output buffer being full''"
| "error_text noForwardProgress_inputEmpty =
     ''Operation made no progress over multiple calls, due to input being empty''"
| "error_text frameIndex_tooLarge = ''Frame index is too large''"
| "error_text seekableIO = ''An I/O error occurred when reading/seeking''"
| "error_text dstBuffer_wrong = ''Destination buffer is wrong''"
| "error_text srcBuffer_wrong = ''Source buffer is wrong''"
| "error_text sequenceProducer_failed = ''Block-level external sequence producer returned an error code''"
| "error_text externalSequences_invalid = ''External sequences are not valid''"
| "error_text maxCode = notErrorCode"

definition all_error_codes :: "ZSTD_ErrorCode list" where
  "all_error_codes = [no_error, GENERIC, prefix_unknown, version_unsupported,
     frameParameter_unsupported, frameParameter_windowTooLarge, corruption_detected,
     checksum_wrong, literals_headerWrong, dictionary_corrupted, dictionary_wrong,
     dictionaryCreation_failed, parameter_unsupported, parameter_combination_unsupported,
     parameter_outOfBound, tableLog_tooLarge, maxSymbolValue_tooLarge, maxSymbolValue_tooSmall,
     cannotProduce_uncompressedBlock, stabilityCondition_notRespected, stage_wrong, init_missing,
     memory_allocation, workSpace_tooSmall, dstSize_tooSmall, srcSize_wrong, dstBuffer_null,
     noForwardProgress_destFull, noForwardProgress_inputEmpty, frameIndex_tooLarge, seekableIO,
     dstBuffer_wrong, srcBuffer_wrong, sequenceProducer_failed, externalSequences_invalid, maxCode]"

definition ERR_getErrorString :: "nat \<Rightarrow> string" where
  "ERR_getErrorString code =
     (case find (\<lambda>c. error_number c = code) all_error_codes of
        Some c \<Rightarrow> error_text c | None \<Rightarrow> notErrorCode)"

definition ERR_getErrorName :: "u64 \<Rightarrow> string" where
  "ERR_getErrorName code = ERR_getErrorString (ERR_getErrorCode code)"

definition ZSTD_getErrorName :: "u64 \<Rightarrow> string" where
  "ZSTD_getErrorName code = ERR_getErrorName code"

lemma error_number_le: "error_number c \<le> 120"
  by (cases c) simp_all

lemma error_number_inject: "error_number a = error_number b \<longleftrightarrow> a = b"
  by (cases a; cases b; simp)

lemma all_error_codes_complete: "c \<in> set all_error_codes"
  by (cases c) (simp_all add: all_error_codes_def)

lemma unat_uminus_u64:
  fixes x :: u64
  assumes "x \<noteq> 0"
  shows "unat (- x) = 2 ^ 64 - unat x"
proof -
  let ?M = "2 ^ 64 :: nat"
  have "unat (- x + x) = (unat (- x) + unat x) mod 2 ^ LENGTH(64)"
    by (rule unat_word_ariths)
  then have dvd: "?M dvd unat (- x) + unat x"
    by (simp add: dvd_eq_mod_eq_0)
  have "unat (- x) < ?M" and "unat x < ?M"
    using unsigned_less [of "- x", where ?'a = nat] unsigned_less [of x, where ?'a = nat]
    by simp_all
  moreover have "0 < unat x"
    using assms by (simp add: unat_gt_0)
  ultimately have "unat (- x) + unat x < 2 * ?M" and "0 < unat (- x) + unat x"
    by simp_all
  moreover obtain k where k: "unat (- x) + unat x = ?M * k"
    using dvd by (rule dvdE)
  ultimately have "?M * k < ?M * 2" and "0 < k"
    by (simp_all only: mult.commute [of 2] nat_0_less_mult_iff)
  then have "k = 1" by simp
  with k have "unat (- x) + unat x = ?M" by simp
  then show ?thesis by simp
qed

lemma unat_error_number: "unat (of_nat (error_number c) :: u64) = error_number c"
  using error_number_le [of c] by (simp add: unat_of_nat)

lemma unat_ZSTD_ERROR:
  "unat (ZSTD_ERROR c) = (if c = no_error then 0 else 2 ^ 64 - error_number c)"
proof (cases "c = no_error")
  case True
  then show ?thesis by (simp add: ZSTD_ERROR_def)
next
  case False
  then have "0 < error_number c"
    using error_number_inject [of c no_error] by simp
  then have "(of_nat (error_number c) :: u64) \<noteq> 0"
    using unat_error_number [of c] by (metis unat_0 less_irrefl)
  then show ?thesis
    using False by (simp add: ZSTD_ERROR_def unat_uminus_u64 unat_error_number)
qed

lemma ERR_isError_iff: "ERR_isError code \<longleftrightarrow> 2 ^ 64 - 120 < unat code"
  by (simp add: ERR_isError_def word_less_nat_alt unat_ZSTD_ERROR)

lemma ZSTD_isError_iff: "ZSTD_isError code \<longleftrightarrow> 2 ^ 64 - 120 < unat code"
  by (simp add: ZSTD_isError_def ERR_isError_iff)

text \<open>every error the library can return is told apart from a size by \<open>ZSTD_isError\<close>, its number
  is recovered by \<open>ERR_getErrorCode\<close>, and \<open>ZSTD_getErrorName\<close> gives the text of that very error;
  \<open>no_error\<close> and \<open>maxCode\<close> are the two codes that are not errors.\<close>
lemma error_code_roundtrip:
  "ZSTD_isError (ZSTD_ERROR c) = (c \<noteq> no_error \<and> c \<noteq> maxCode)
   \<and> ERR_getErrorCode (ZSTD_ERROR c) = (if c = maxCode then 0 else error_number c)
   \<and> ZSTD_getErrorName (ZSTD_ERROR c) = error_text (if c = maxCode then no_error else c)"
proof -
  have err: "ZSTD_isError (ZSTD_ERROR c) = (c \<noteq> no_error \<and> c \<noteq> maxCode)"
    by (cases c) (simp_all add: ZSTD_isError_iff unat_ZSTD_ERROR)
  have code: "ERR_getErrorCode (ZSTD_ERROR c) = (if c = maxCode then 0 else error_number c)"
    using err by (auto simp: ERR_getErrorCode_def ZSTD_isError_def ZSTD_ERROR_def
        unat_error_number)
  have find: "find (\<lambda>d. error_number d = error_number e) all_error_codes = Some e" for e
    using all_error_codes_complete [of e]
    by (rule find_unique) (simp add: error_number_inject)
  show ?thesis
    using err code find [of c] find [of no_error]
    by (simp add: ZSTD_getErrorName_def ERR_getErrorName_def ERR_getErrorString_def)
qed

section \<open>Worst-case compressed size\<close>

definition ZSTD_MAX_INPUT_SIZE :: u64 where
  "ZSTD_MAX_INPUT_SIZE = 0xFF00FF00FF00FF00"

definition ZSTD_COMPRESSBOUND :: "u64 \<Rightarrow> u64" where
  "ZSTD_COMPRESSBOUND srcSize =
     (if srcSize \<ge> ZSTD_MAX_INPUT_SIZE then 0
      else srcSize + drop_bit 8 srcSize
           + (if srcSize < 131072 then drop_bit 11 (131072 - srcSize) else 0))"

definition ZSTD_compressBound :: "u64 \<Rightarrow> u64" where
  "ZSTD_compressBound srcSize =
     (let r = ZSTD_COMPRESSBOUND srcSize in
      if r = 0 then ZSTD_ERROR srcSize_wrong else r)"

text \<open>The same size over the natural numbers: the message, one byte in 256, and a margin of 64 to 0
  bytes for messages below 128 KB.\<close>

definition bound_nat :: "nat \<Rightarrow> nat" where
  "bound_nat n = n + n div 256 + (if n < 131072 then (131072 - n) div 2048 else 0)"

lemma bound_nat_ge: "n \<le> bound_nat n"
  by (simp add: bound_nat_def)

lemma bound_nat_pos: "0 < bound_nat n"
  by (cases "n = 0") (simp_all add: bound_nat_def)

lemma bound_nat_mono_le: "bound_nat n \<le> n + n div 256 + 64"
proof -
  have "(131072 - n) div 2048 \<le> 131072 div 2048"
    by (rule div_le_mono) simp
  then show ?thesis by (simp add: bound_nat_def)
qed

lemma unat_COMPRESSBOUND:
  assumes "srcSize < ZSTD_MAX_INPUT_SIZE"
  shows "unat (ZSTD_COMPRESSBOUND srcSize) = bound_nat (unat srcSize)"
proof -
  let ?n = "unat srcSize"
  have n: "?n < 0xFF00FF00FF00FF00"
    using assms by (simp add: ZSTD_MAX_INPUT_SIZE_def word_less_nat_alt)
  have lt: "srcSize < 131072 \<longleftrightarrow> ?n < 131072"
    by (simp add: word_less_nat_alt)
  have sub: "unat (131072 - srcSize) = 131072 - ?n" if "?n < 131072"
    using that by (subst unat_sub) (simp_all add: word_le_nat_alt)
  have margin: "unat (if srcSize < 131072 then drop_bit 11 (131072 - srcSize) else 0)
      = (if ?n < 131072 then (131072 - ?n) div 2048 else 0)"
    using lt sub by (simp add: unat_drop_bit_u64)
  have sum: "unat (srcSize + drop_bit 8 srcSize) = ?n + ?n div 256"
    using n by (simp add: unat_word_ariths unsigned_drop_bit_eq drop_bit_eq_div)
  have "unat (srcSize + drop_bit 8 srcSize)
      + unat (if srcSize < 131072 then drop_bit 11 (131072 - srcSize) else 0) < 2 ^ 64"
    unfolding sum margin using n by (cases "?n < 131072") simp_all
  note total = unat_plus_less [OF this]
  have "ZSTD_COMPRESSBOUND srcSize = srcSize + drop_bit 8 srcSize
      + (if srcSize < 131072 then drop_bit 11 (131072 - srcSize) else 0)"
    using assms unfolding ZSTD_COMPRESSBOUND_def by (simp only: not_le [symmetric] if_False)
  then show ?thesis
    by (simp only: total sum margin bound_nat_def)
qed

text \<open>for every message the library can compress, \<open>ZSTD_compressBound\<close> does not wrap: it is the
  exact size \<open>bound_nat\<close>, at least the message and at most a 256th and 64 bytes more.\<close>
lemma compressBound_exact:
  assumes "srcSize < ZSTD_MAX_INPUT_SIZE"
  shows "unat (ZSTD_compressBound srcSize) = bound_nat (unat srcSize)
    \<and> unat srcSize \<le> unat (ZSTD_compressBound srcSize)
    \<and> unat (ZSTD_compressBound srcSize) \<le> unat srcSize + unat srcSize div 256 + 64"
proof -
  have "unat (ZSTD_COMPRESSBOUND srcSize) = bound_nat (unat srcSize)"
    by (rule unat_COMPRESSBOUND [OF assms])
  moreover from this have "ZSTD_COMPRESSBOUND srcSize \<noteq> 0"
    using bound_nat_pos [of "unat srcSize"] by (metis unat_0 less_irrefl)
  ultimately show ?thesis
    using bound_nat_ge bound_nat_mono_le by (simp add: ZSTD_compressBound_def)
qed

lemma compressBound_exact_witness:
  "unat (ZSTD_compressBound 100) = 163 \<and> (100 :: u64) < ZSTD_MAX_INPUT_SIZE"
  using compressBound_exact [of 100] by (simp add: ZSTD_MAX_INPUT_SIZE_def bound_nat_def)

end
