(* ===== verification/Zstd_Frame.thy ===== *)
theory Zstd_Frame
  imports Zstd_Errors
begin

text \<open>
  The frame format of the bundled compression library: reading and writing a frame header,
  skippable frames, block headers, raw and run-length blocks, and the walk over the blocks and
  frames of a buffer that finds compressed and decompressed sizes. \<open>ZSTD_getFrameContentSize\<close> is
  what the framework asks before it allocates the buffer for a received message. A pointer and its
  length are one byte list; a read outside it is \<open>Fault\<close>. Numbers read from a buffer are natural
  numbers below \<open>256 ^ n\<close>; sums the code keeps in 64 bits are taken modulo \<open>2 ^ 64\<close> where they can
  wrap. Legacy formats are compiled out (\<open>ZSTD_LEGACY_SUPPORT\<close> is 0).
\<close>

type_synonym 'a zres = "(ZSTD_ErrorCode, 'a) cres"

section \<open>Constants\<close>

definition ZSTD_MAGICNUMBER :: nat where "ZSTD_MAGICNUMBER = 0xFD2FB528"
definition ZSTD_MAGIC_SKIPPABLE_START :: nat where "ZSTD_MAGIC_SKIPPABLE_START = 0x184D2A50"
definition ZSTD_SKIPPABLEHEADERSIZE :: nat where "ZSTD_SKIPPABLEHEADERSIZE = 8"
definition ZSTD_FRAMEIDSIZE :: nat where "ZSTD_FRAMEIDSIZE = 4"
definition ZSTD_FRAMEHEADERSIZE_MAX :: nat where "ZSTD_FRAMEHEADERSIZE_MAX = 18"
definition ZSTD_WINDOWLOG_ABSOLUTEMIN :: nat where "ZSTD_WINDOWLOG_ABSOLUTEMIN = 10"
definition ZSTD_WINDOWLOG_MAX :: nat where "ZSTD_WINDOWLOG_MAX = 31"
definition ZSTD_BLOCKSIZE_MAX :: nat where "ZSTD_BLOCKSIZE_MAX = 2 ^ 17"
definition ZSTD_blockHeaderSize :: nat where "ZSTD_blockHeaderSize = 3"
definition ZSTD_CONTENTSIZE_UNKNOWN :: nat where "ZSTD_CONTENTSIZE_UNKNOWN = 2 ^ 64 - 1"
definition ZSTD_CONTENTSIZE_ERROR :: nat where "ZSTD_CONTENTSIZE_ERROR = 2 ^ 64 - 2"
definition ZSTD_did_fieldSize :: "nat list" where "ZSTD_did_fieldSize = [0, 1, 2, 4]"
definition ZSTD_fcs_fieldSize :: "nat list" where "ZSTD_fcs_fieldSize = [0, 2, 4, 8]"

lemmas frame_consts = ZSTD_SKIPPABLEHEADERSIZE_def ZSTD_FRAMEIDSIZE_def
  ZSTD_FRAMEHEADERSIZE_MAX_def ZSTD_WINDOWLOG_ABSOLUTEMIN_def ZSTD_WINDOWLOG_MAX_def
  ZSTD_blockHeaderSize_def

datatype ZSTD_format_e = ZSTD_f_zstd1 | ZSTD_f_zstd1_magicless

definition ZSTD_startingInputLength :: "ZSTD_format_e \<Rightarrow> nat" where
  "ZSTD_startingInputLength format = (if format = ZSTD_f_zstd1 then 5 else 1)"

text \<open>The magic number of a skippable frame, its four low bits (the variant) masked off.\<close>

definition skippable_magic :: "nat \<Rightarrow> bool" where
  "skippable_magic magic \<longleftrightarrow> magic - magic mod 16 = ZSTD_MAGIC_SKIPPABLE_START"

section \<open>Frame identifiers\<close>

definition ZSTD_isFrame :: "bytes \<Rightarrow> bool zres" where
  "ZSTD_isFrame buffer =
     (if length buffer < ZSTD_FRAMEIDSIZE then Ok False
      else cbind (rd buffer 0 4) (\<lambda>magic.
        Ok (magic = ZSTD_MAGICNUMBER \<or> skippable_magic magic)))"

definition ZSTD_isSkippableFrame :: "bytes \<Rightarrow> bool zres" where
  "ZSTD_isSkippableFrame buffer =
     (if length buffer < ZSTD_FRAMEIDSIZE then Ok False
      else cbind (rd buffer 0 4) (\<lambda>magic. Ok (skippable_magic magic)))"

section \<open>Frame headers\<close>

datatype ZSTD_FrameType_e = ZSTD_frame | ZSTD_skippableFrame

record ZSTD_FrameHeader =
  zfh_frameContentSize :: nat
  zfh_windowSize :: nat
  zfh_blockSizeMax :: nat
  zfh_frameType :: ZSTD_FrameType_e
  zfh_headerSize :: nat
  zfh_dictID :: nat
  zfh_checksumFlag :: nat

text \<open>The two results that are not errors: 0 with the header filled in, or the number of bytes wanted.\<close>

datatype header_result = Filled ZSTD_FrameHeader | NeedMore nat

text \<open>The bit fields of the frame header descriptor: \<open>fhd & 3\<close>, \<open>(fhd >> 2) & 1\<close>, \<open>fhd & 8\<close>,
  \<open>(fhd >> 5) & 1\<close> and \<open>fhd >> 6\<close>.\<close>

definition fhd_dictID :: "nat \<Rightarrow> nat" where "fhd_dictID fhd = fhd mod 4"
definition fhd_checksum :: "nat \<Rightarrow> nat" where "fhd_checksum fhd = fhd div 4 mod 2"
definition fhd_reserved :: "nat \<Rightarrow> nat" where "fhd_reserved fhd = fhd div 8 mod 2"
definition fhd_single :: "nat \<Rightarrow> nat" where "fhd_single fhd = fhd div 32 mod 2"
definition fhd_fcs :: "nat \<Rightarrow> nat" where "fhd_fcs fhd = fhd div 64"

text \<open>The header size a descriptor announces.\<close>

definition announced :: "nat \<Rightarrow> nat \<Rightarrow> nat" where
  "announced minInputSize fhd =
     minInputSize + (if fhd_single fhd = 0 then 1 else 0)
     + ZSTD_did_fieldSize ! fhd_dictID fhd + ZSTD_fcs_fieldSize ! fhd_fcs fhd
     + (if fhd_single fhd = 1 \<and> fhd_fcs fhd = 0 then 1 else 0)"

definition ZSTD_frameHeaderSize_internal :: "bytes \<Rightarrow> ZSTD_format_e \<Rightarrow> nat zres" where
  "ZSTD_frameHeaderSize_internal src format =
     (let minInputSize = ZSTD_startingInputLength format in
      check_that (length src < minInputSize) srcSize_wrong
      (cbind (rd src (minInputSize - 1) 1) (\<lambda>fhd. Ok (announced minInputSize fhd))))"

definition ZSTD_frameHeaderSize :: "bytes \<Rightarrow> nat zres" where
  "ZSTD_frameHeaderSize src = ZSTD_frameHeaderSize_internal src ZSTD_f_zstd1"

text \<open>The bytes at hand laid over the four bytes of a magic number.\<close>

definition overlay_magic :: "bytes \<Rightarrow> nat \<Rightarrow> nat" where
  "overlay_magic src magic = le_nat (take 4 src @ drop (length (take 4 src)) (le_bytes 4 magic))"

text \<open>The fields after the frame header descriptor, one reader each: the window descriptor, the
  dictionary identifier and the content size, with the position after them.\<close>

definition read_window :: "bytes \<Rightarrow> nat \<Rightarrow> nat \<Rightarrow> (nat \<times> nat) zres" where
  "read_window src pos singleSegment =
     (if singleSegment = 0 then
        cbind (rd src pos 1) (\<lambda>wlByte.
          let windowLog = wlByte div 8 + ZSTD_WINDOWLOG_ABSOLUTEMIN in
          check_that (ZSTD_WINDOWLOG_MAX < windowLog) frameParameter_windowTooLarge
          (Ok (2 ^ windowLog + (2 ^ windowLog div 8) * (wlByte mod 8), pos + 1)))
      else Ok (0, pos))"

definition read_dictID :: "bytes \<Rightarrow> nat \<Rightarrow> nat \<Rightarrow> (nat \<times> nat) zres" where
  "read_dictID src pos code =
     (if code = 0 then Ok (0, pos)
      else if code = 1 then cbind (rd src pos 1) (\<lambda>d. Ok (d, pos + 1))
      else if code = 2 then cbind (rd src pos 2) (\<lambda>d. Ok (d, pos + 2))
      else cbind (rd src pos 4) (\<lambda>d. Ok (d, pos + 4)))"

definition read_fcs :: "bytes \<Rightarrow> nat \<Rightarrow> nat \<Rightarrow> nat \<Rightarrow> nat zres" where
  "read_fcs src pos fcsID singleSegment =
     (if fcsID = 0 then (if singleSegment = 1 then rd src pos 1 else Ok ZSTD_CONTENTSIZE_UNKNOWN)
      else if fcsID = 1 then cbind (rd src pos 2) (\<lambda>v. Ok (v + 256))
      else if fcsID = 2 then rd src pos 4
      else rd src pos 8)"

text \<open>The header of a skippable frame, and the fields of a frame header whose descriptor is
  \<open>fhdByte\<close> and whose size is \<open>fhsize\<close>.\<close>

definition read_skippable_header :: "bytes \<Rightarrow> nat \<Rightarrow> header_result zres" where
  "read_skippable_header src magic =
     (if length src < ZSTD_SKIPPABLEHEADERSIZE then Ok (NeedMore ZSTD_SKIPPABLEHEADERSIZE)
      else cbind (rd src ZSTD_FRAMEIDSIZE 4) (\<lambda>len.
        Ok (Filled \<lparr>zfh_frameContentSize = len, zfh_windowSize = 0, zfh_blockSizeMax = 0,
            zfh_frameType = ZSTD_skippableFrame, zfh_headerSize = ZSTD_SKIPPABLEHEADERSIZE,
            zfh_dictID = magic - ZSTD_MAGIC_SKIPPABLE_START, zfh_checksumFlag = 0\<rparr>)))"

definition read_header_fields :: "bytes \<Rightarrow> nat \<Rightarrow> nat \<Rightarrow> nat \<Rightarrow> header_result zres" where
  "read_header_fields src minInputSize fhsize fhdByte =
     (let dictIDSizeCode = fhd_dictID fhdByte;
          checksum = fhd_checksum fhdByte;
          singleSegment = fhd_single fhdByte;
          fcsID = fhd_fcs fhdByte
      in check_that (fhd_reserved fhdByte \<noteq> 0) frameParameter_unsupported
      (cbind (read_window src minInputSize singleSegment) (\<lambda>(window, pos1).
       cbind (read_dictID src pos1 dictIDSizeCode) (\<lambda>(dictID, pos2).
       cbind (read_fcs src pos2 fcsID singleSegment) (\<lambda>fcs.
         let windowSize = (if singleSegment = 1 then fcs else window)
         in Ok (Filled \<lparr>zfh_frameContentSize = fcs, zfh_windowSize = windowSize,
              zfh_blockSizeMax = min windowSize ZSTD_BLOCKSIZE_MAX,
              zfh_frameType = ZSTD_frame, zfh_headerSize = fhsize,
              zfh_dictID = dictID, zfh_checksumFlag = checksum\<rparr>))))))"

definition ZSTD_getFrameHeader_advanced :: "bytes \<Rightarrow> ZSTD_format_e \<Rightarrow> header_result zres" where
  "ZSTD_getFrameHeader_advanced src format =
     (let minInputSize = ZSTD_startingInputLength format in
      if length src < minInputSize then
        check_that (0 < length src \<and> format \<noteq> ZSTD_f_zstd1_magicless
                    \<and> overlay_magic src ZSTD_MAGICNUMBER \<noteq> ZSTD_MAGICNUMBER
                    \<and> \<not> skippable_magic (overlay_magic src ZSTD_MAGIC_SKIPPABLE_START))
          prefix_unknown (Ok (NeedMore minInputSize))
      else cbind (if format \<noteq> ZSTD_f_zstd1_magicless then rd src 0 4 else Ok ZSTD_MAGICNUMBER)
       (\<lambda>magic.
        if magic \<noteq> ZSTD_MAGICNUMBER then
          check_that (\<not> skippable_magic magic) prefix_unknown (read_skippable_header src magic)
        else cbind (ZSTD_frameHeaderSize_internal src format) (\<lambda>fhsize.
          if length src < fhsize then Ok (NeedMore fhsize)
          else cbind (rd src (minInputSize - 1) 1) (\<lambda>fhdByte.
            read_header_fields src minInputSize fhsize fhdByte))))"

definition ZSTD_getFrameHeader :: "bytes \<Rightarrow> header_result zres" where
  "ZSTD_getFrameHeader src = ZSTD_getFrameHeader_advanced src ZSTD_f_zstd1"

definition ZSTD_getFrameContentSize :: "bytes \<Rightarrow> nat zres" where
  "ZSTD_getFrameContentSize src =
     (case ZSTD_getFrameHeader src of
        Fault \<Rightarrow> Fault
      | Err e \<Rightarrow> Ok ZSTD_CONTENTSIZE_ERROR
      | Ok (NeedMore n) \<Rightarrow> Ok ZSTD_CONTENTSIZE_ERROR
      | Ok (Filled zfh) \<Rightarrow>
          Ok (if zfh_frameType zfh = ZSTD_skippableFrame then 0 else zfh_frameContentSize zfh))"

definition ZSTD_getDecompressedSize :: "bytes \<Rightarrow> nat zres" where
  "ZSTD_getDecompressedSize src =
     cbind (ZSTD_getFrameContentSize src) (\<lambda>ret.
       Ok (if ZSTD_CONTENTSIZE_ERROR \<le> ret then 0 else ret))"

section \<open>Writing headers and simple blocks\<close>

record ZSTD_frameParameters =
  contentSizeFlag :: bool
  checksumFlag :: bool
  noDictIDFlag :: bool

text \<open>The dictionary identifier and the content size, as many bytes as their codes announce.\<close>

definition write_dictID :: "nat \<Rightarrow> nat \<Rightarrow> bytes" where
  "write_dictID code dictID =
     (if code = 0 then [] else if code = 1 then le_bytes 1 dictID
      else if code = 2 then le_bytes 2 dictID else le_bytes 4 dictID)"

definition write_fcs :: "nat \<Rightarrow> bool \<Rightarrow> nat \<Rightarrow> bytes" where
  "write_fcs code singleSegment pledgedSrcSize =
     (if code = 0 then (if singleSegment then le_bytes 1 pledgedSrcSize else [])
      else if code = 1 then le_bytes 2 (pledgedSrcSize - 256)
      else if code = 2 then le_bytes 4 pledgedSrcSize
      else le_bytes 8 pledgedSrcSize)"

definition dictID_code :: "ZSTD_frameParameters \<Rightarrow> nat \<Rightarrow> nat" where
  "dictID_code fParams dictID =
     (if noDictIDFlag fParams then 0
      else of_bool (0 < dictID) + of_bool (256 \<le> dictID) + of_bool (65536 \<le> dictID))"

definition fcs_code :: "ZSTD_frameParameters \<Rightarrow> nat \<Rightarrow> nat" where
  "fcs_code fParams pledgedSrcSize =
     (if contentSizeFlag fParams
      then of_bool (256 \<le> pledgedSrcSize) + of_bool (65536 + 256 \<le> pledgedSrcSize)
           + of_bool (0xFFFFFFFF \<le> pledgedSrcSize)
      else 0)"

definition single_segment :: "ZSTD_frameParameters \<Rightarrow> nat \<Rightarrow> nat \<Rightarrow> bool" where
  "single_segment fParams windowLog pledgedSrcSize \<longleftrightarrow>
     contentSizeFlag fParams \<and> pledgedSrcSize \<le> 2 ^ windowLog"

text \<open>\<open>pledgedSrcSize\<close> is below \<open>2 ^ 64\<close>, \<open>dictID\<close> below \<open>2 ^ 32\<close>, \<open>windowLog\<close> between 10 and 31; the
  result is the bytes written at \<open>dst\<close>.\<close>

definition ZSTD_writeFrameHeader ::
    "nat \<Rightarrow> ZSTD_frameParameters \<Rightarrow> nat \<Rightarrow> ZSTD_format_e \<Rightarrow> nat \<Rightarrow> nat \<Rightarrow> bytes zres" where
  "ZSTD_writeFrameHeader dstCapacity fParams windowLog format pledgedSrcSize dictID =
     (let dictIDSizeCode = dictID_code fParams dictID;
          checksum = of_bool (checksumFlag fParams) :: nat;
          singleSegment = single_segment fParams windowLog pledgedSrcSize;
          windowLogByte = of_nat ((windowLog - ZSTD_WINDOWLOG_ABSOLUTEMIN) * 8) :: u8;
          fcsCode = fcs_code fParams pledgedSrcSize;
          frameHeaderDescriptionByte =
            of_nat (dictIDSizeCode + checksum * 4 + of_bool singleSegment * 32 + fcsCode * 64) :: u8
      in check_that (dstCapacity < ZSTD_FRAMEHEADERSIZE_MAX) dstSize_tooSmall
         (Ok ((if format = ZSTD_f_zstd1 then le_bytes 4 ZSTD_MAGICNUMBER else [])
              @ [frameHeaderDescriptionByte]
              @ (if singleSegment then [] else [windowLogByte])
              @ write_dictID dictIDSizeCode dictID
              @ write_fcs fcsCode singleSegment pledgedSrcSize)))"

definition ZSTD_writeSkippableFrame :: "nat \<Rightarrow> bytes \<Rightarrow> nat \<Rightarrow> bytes zres" where
  "ZSTD_writeSkippableFrame dstCapacity src magicVariant =
     check_that (dstCapacity < length src + ZSTD_SKIPPABLEHEADERSIZE) dstSize_tooSmall
     (check_that (0xFFFFFFFF < length src) srcSize_wrong
     (check_that (15 < magicVariant) parameter_outOfBound
     (Ok (le_bytes 4 (ZSTD_MAGIC_SKIPPABLE_START + magicVariant)
          @ le_bytes 4 (length src) @ src))))"

datatype blockType_e = bt_raw | bt_rle | bt_compressed | bt_reserved

primrec block_code :: "blockType_e \<Rightarrow> nat" where
  "block_code bt_raw = 0"
| "block_code bt_rle = 1"
| "block_code bt_compressed = 2"
| "block_code bt_reserved = 3"

definition block_of :: "nat \<Rightarrow> blockType_e" where
  "block_of n = (if n = 0 then bt_raw else if n = 1 then bt_rle
                 else if n = 2 then bt_compressed else bt_reserved)"

definition ZSTD_noCompressBlock :: "nat \<Rightarrow> bytes \<Rightarrow> nat \<Rightarrow> bytes zres" where
  "ZSTD_noCompressBlock dstCapacity src lastBlock =
     (let cBlockHeader24 = (lastBlock + block_code bt_raw * 2 + length src * 8 mod 2 ^ 32) mod 2 ^ 32
      in check_that (dstCapacity < length src + ZSTD_blockHeaderSize) dstSize_tooSmall
         (Ok (le_bytes 3 cBlockHeader24 @ src)))"

definition ZSTD_rleCompressBlock :: "nat \<Rightarrow> u8 \<Rightarrow> nat \<Rightarrow> nat \<Rightarrow> bytes zres" where
  "ZSTD_rleCompressBlock dstCapacity src srcSize lastBlock =
     (let cBlockHeader = (lastBlock + block_code bt_rle * 2 + srcSize * 8 mod 2 ^ 32) mod 2 ^ 32
      in check_that (dstCapacity < 4) dstSize_tooSmall
         (Ok (le_bytes 3 cBlockHeader @ [src])))"

definition ZSTD_writeLastEmptyBlock :: "nat \<Rightarrow> bytes zres" where
  "ZSTD_writeLastEmptyBlock dstCapacity =
     check_that (dstCapacity < ZSTD_blockHeaderSize) dstSize_tooSmall
     (Ok (le_bytes 3 (1 + block_code bt_raw * 2)))"

section \<open>Header lemmas\<close>

lemma code_lt4: "(a :: nat) < 4 \<longleftrightarrow> a = 0 \<or> a = 1 \<or> a = 2 \<or> a = 3"
  by linarith

lemma fhd_dictID_less: "fhd_dictID fhd < 4"
  by (simp add: fhd_dictID_def)

lemma fhd_single_cases: "fhd_single fhd = 0 \<or> fhd_single fhd = 1"
  by (simp add: fhd_single_def mod2_eq_if)

lemma fhd_fcs_less: "fhd < 256 \<Longrightarrow> fhd_fcs fhd < 4"
  by (simp add: fhd_fcs_def)

lemma did_fieldSize_simps [simp]:
  "ZSTD_did_fieldSize ! 0 = 0" "ZSTD_did_fieldSize ! Suc 0 = 1"
  "ZSTD_did_fieldSize ! 2 = 2" "ZSTD_did_fieldSize ! 3 = 4"
  by (simp_all add: ZSTD_did_fieldSize_def)

lemma fcs_fieldSize_simps [simp]:
  "ZSTD_fcs_fieldSize ! 0 = 0" "ZSTD_fcs_fieldSize ! Suc 0 = 2"
  "ZSTD_fcs_fieldSize ! 2 = 4" "ZSTD_fcs_fieldSize ! 3 = 8"
  by (simp_all add: ZSTD_fcs_fieldSize_def)

lemma announced_bounds:
  assumes "fhd < 256"
  shows "m < announced m fhd" and "announced m fhd \<le> m + 13"
  using fhd_dictID_less [of fhd] fhd_fcs_less [OF assms] fhd_single_cases [of fhd]
  by (auto simp: announced_def code_lt4)

lemma frameHeaderSize_announced:
  "ZSTD_frameHeaderSize_internal src format = Ok n \<longleftrightarrow>
     ZSTD_startingInputLength format \<le> length src \<and>
     (\<exists>fhd. rd src (ZSTD_startingInputLength format - 1) 1 = (Ok fhd :: nat zres)
        \<and> n = announced (ZSTD_startingInputLength format) fhd)"
  by (auto simp: ZSTD_frameHeaderSize_internal_def crun_simps Let_def not_less)

lemma startingInputLength_range:
  "0 < ZSTD_startingInputLength format" "ZSTD_startingInputLength format \<le> 5"
  by (simp_all add: ZSTD_startingInputLength_def)

lemma frameHeaderSize_Ok:
  assumes "ZSTD_frameHeaderSize_internal src format = Ok n"
  shows "ZSTD_startingInputLength format < n \<and> n \<le> ZSTD_FRAMEHEADERSIZE_MAX
    \<and> ZSTD_startingInputLength format \<le> length src"
proof -
  let ?m = "ZSTD_startingInputLength format"
  obtain fhd where len: "?m \<le> length src" and fhd: "rd src (?m - 1) 1 = (Ok fhd :: nat zres)"
    and n: "n = announced ?m fhd"
    using assms unfolding frameHeaderSize_announced by blast
  have "fhd < 256" using rd_less [OF fhd] by simp
  from announced_bounds [OF this, of ?m] show ?thesis
    using len n startingInputLength_range [of format] by (simp add: ZSTD_FRAMEHEADERSIZE_MAX_def)
qed

lemma frameHeaderSize_not_Fault [simp]: "ZSTD_frameHeaderSize_internal src format \<noteq> Fault"
  using startingInputLength_range [of format]
  by (auto simp: ZSTD_frameHeaderSize_internal_def crun_simps Let_def not_less)

lemma read_window_Ok: "read_window src pos ss = Ok (w, p) \<Longrightarrow> p = pos + (if ss = 0 then 1 else 0)"
  by (auto simp: read_window_def crun_simps Let_def split: if_splits)

lemma read_window_Fault: "read_window src pos ss = Fault \<Longrightarrow> length src < pos + (if ss = 0 then 1 else 0)"
  by (auto simp: read_window_def crun_simps Let_def split: if_splits)

lemma read_dictID_Ok:
  "\<lbrakk>read_dictID src pos c = Ok (d, p); c < 4\<rbrakk> \<Longrightarrow> p = pos + ZSTD_did_fieldSize ! c"
  by (auto simp: read_dictID_def crun_simps ZSTD_did_fieldSize_def code_lt4 split: if_splits)

lemma read_dictID_Fault:
  "\<lbrakk>read_dictID src pos c = Fault; c < 4\<rbrakk> \<Longrightarrow> length src < pos + ZSTD_did_fieldSize ! c"
  by (auto simp: read_dictID_def crun_simps ZSTD_did_fieldSize_def code_lt4 split: if_splits)

lemma read_fcs_Fault:
  "\<lbrakk>read_fcs src pos c ss = Fault; c < 4\<rbrakk>
   \<Longrightarrow> length src < pos + ZSTD_fcs_fieldSize ! c + (if ss = 1 \<and> c = 0 then 1 else 0)"
  by (auto simp: read_fcs_def crun_simps ZSTD_fcs_fieldSize_def code_lt4 split: if_splits)

lemma read_header_fields_not_Fault:
  assumes len: "announced m fhd \<le> length src" and fhd: "fhd < 256"
  shows "read_header_fields src m n fhd \<noteq> Fault"
proof
  let ?s = "fhd_single fhd" and ?d = "fhd_dictID fhd" and ?f = "fhd_fcs fhd"
  assume "read_header_fields src m n fhd = Fault"
  then consider "read_window src m ?s = Fault"
    | w p1 where "read_window src m ?s = Ok (w, p1)" "read_dictID src p1 ?d = Fault"
    | w p1 d p2 where "read_window src m ?s = Ok (w, p1)" "read_dictID src p1 ?d = Ok (d, p2)"
        "read_fcs src p2 ?f ?s = Fault"
    unfolding read_header_fields_def Let_def
    by (auto simp: crun_simps split: prod.splits)
  then show False
  proof cases
    case 1
    from read_window_Fault [OF this] show False
      using len by (simp add: announced_def)
  next
    case 2
    from read_dictID_Fault [OF 2(2) fhd_dictID_less] read_window_Ok [OF 2(1)] show False
      using len by (simp add: announced_def)
  next
    case 3
    from read_fcs_Fault [OF 3(3) fhd_fcs_less [OF fhd]] read_dictID_Ok [OF 3(2) fhd_dictID_less]
      read_window_Ok [OF 3(1)]
    show False
      using len by (simp add: announced_def)
  qed
qed

lemma getFrameHeader_not_Fault: "ZSTD_getFrameHeader_advanced src format \<noteq> Fault"
proof
  let ?m = "ZSTD_startingInputLength format"
  assume F: "ZSTD_getFrameHeader_advanced src format = Fault"
  have len: "?m \<le> length src"
    using F by (rule contrapos_pp) (simp add: ZSTD_getFrameHeader_advanced_def Let_def check_that_def)
  have m4: "format \<noteq> ZSTD_f_zstd1_magicless \<Longrightarrow> 4 \<le> length src"
    using len by (cases format) (simp_all add: ZSTD_startingInputLength_def)
  have m1: "0 < ?m" by (simp add: ZSTD_startingInputLength_def)
  have skip: "read_skippable_header src magic \<noteq> Fault" for magic
    by (simp add: read_skippable_header_def crun_simps frame_consts)
  have "cbind (ZSTD_frameHeaderSize_internal src format) (\<lambda>fhsize.
          if length src < fhsize then Ok (NeedMore fhsize)
          else cbind (rd src (?m - 1) 1) (\<lambda>fhdByte. read_header_fields src ?m fhsize fhdByte)) = Fault"
    using F len m4 skip unfolding ZSTD_getFrameHeader_advanced_def Let_def
    by (cases format) (auto simp: cbind_eq_Fault check_that_eq_Fault split: if_splits)
  then obtain n where "ZSTD_frameHeaderSize_internal src format = Ok n" and le: "n \<le> length src"
    and F': "cbind (rd src (?m - 1) 1) (\<lambda>fhdByte. read_header_fields src ?m n fhdByte) = Fault"
    by (auto simp: cbind_eq_Fault split: if_splits)
  then obtain fhd where fhd: "rd src (?m - 1) 1 = (Ok fhd :: nat zres)" and n: "n = announced ?m fhd"
    unfolding frameHeaderSize_announced by blast
  have "fhd < 256" using rd_less [OF fhd] by simp
  then show False
    using F' fhd le n read_header_fields_not_Fault [of ?m fhd src n] by simp
qed

lemma read_fcs_less:
  assumes "read_fcs src pos c ss = Ok v"
  shows "v < 2 ^ 64"
proof -
  have 1: "rd src pos n = (Ok w :: nat zres) \<Longrightarrow> n \<in> {1, 2, 4, 8} \<Longrightarrow> w < 256 ^ n" for n w
    by (rule rd_less)
  show ?thesis
    using assms 1 [of 1] 1 [of 2] 1 [of 4] 1 [of 8]
    by (force simp: read_fcs_def crun_simps ZSTD_CONTENTSIZE_UNKNOWN_def split: if_splits)
qed

lemma read_header_fields_Ok:
  assumes "read_header_fields src m n fhd = Ok r"
  shows "\<exists>h. r = Filled h \<and> zfh_headerSize h = n \<and> zfh_frameType h = ZSTD_frame
    \<and> zfh_frameContentSize h < 2 ^ 64 \<and> zfh_blockSizeMax h \<le> ZSTD_BLOCKSIZE_MAX
    \<and> zfh_checksumFlag h \<le> 1"
  using assms unfolding read_header_fields_def Let_def
  by (auto simp: crun_simps fhd_checksum_def dest: read_fcs_less split: prod.splits)

lemma read_skippable_header_Ok:
  assumes "read_skippable_header src magic = Ok r"
  shows "(r = NeedMore 8 \<and> length src < 8) \<or>
    (\<exists>h len. r = Filled h \<and> 8 \<le> length src \<and> zfh_headerSize h = 8
      \<and> zfh_frameType h = ZSTD_skippableFrame \<and> rd src 4 4 = (Ok len :: nat zres)
      \<and> zfh_frameContentSize h = len \<and> zfh_blockSizeMax h = 0 \<and> zfh_checksumFlag h = 0)"
  using assms unfolding read_skippable_header_def
  by (auto simp: crun_simps frame_consts split: if_splits)

text \<open>The three ways the header reader succeeds: too little input to tell, a skippable frame, a frame.\<close>

lemma getFrameHeader_Ok_cases:
  assumes "ZSTD_getFrameHeader_advanced src format = Ok r"
  obtains (short) "r = NeedMore (ZSTD_startingInputLength format)"
      "length src < ZSTD_startingInputLength format"
  | (skippable) magic where "format = ZSTD_f_zstd1" "rd src 0 4 = (Ok magic :: nat zres)"
      "skippable_magic magic" "magic \<noteq> ZSTD_MAGICNUMBER" "read_skippable_header src magic = Ok r"
  | (partial) n where "r = NeedMore n" "length src < n"
      "ZSTD_frameHeaderSize_internal src format = Ok n"
  | (frame) n fhd where "ZSTD_frameHeaderSize_internal src format = Ok n" "n \<le> length src"
      "rd src (ZSTD_startingInputLength format - 1) 1 = (Ok fhd :: nat zres)"
      "read_header_fields src (ZSTD_startingInputLength format) n fhd = Ok r"
      "format = ZSTD_f_zstd1 \<longrightarrow> rd src 0 4 = (Ok ZSTD_MAGICNUMBER :: nat zres)"
proof -
  let ?m = "ZSTD_startingInputLength format"
  let ?fr = "cbind (ZSTD_frameHeaderSize_internal src format) (\<lambda>fhsize.
          if length src < fhsize then Ok (NeedMore fhsize)
          else cbind (rd src (?m - 1) 1) (\<lambda>fhdByte. read_header_fields src ?m fhsize fhdByte))"
  have frc: thesis if fr: "?fr = Ok r" and mg: "format = ZSTD_f_zstd1 \<longrightarrow> rd src 0 4 = (Ok ZSTD_MAGICNUMBER :: nat zres)"
  proof -
    obtain n where n: "ZSTD_frameHeaderSize_internal src format = Ok n"
      and k: "(if length src < n then Ok (NeedMore n)
          else cbind (rd src (?m - 1) 1) (\<lambda>fhdByte. read_header_fields src ?m n fhdByte)) = Ok r"
      using fr unfolding cbind_eq_Ok by blast
    show thesis
      using k n partial frame mg by (cases "length src < n") (auto simp: cbind_eq_Ok)
  qed
  show thesis
  proof (cases "length src < ?m")
    case True
    then show thesis
      using assms short by (auto simp: ZSTD_getFrameHeader_advanced_def Let_def check_that_eq_Ok)
  next
    case False
    then obtain magic where m: "(if format \<noteq> ZSTD_f_zstd1_magicless then rd src 0 4
            else Ok ZSTD_MAGICNUMBER) = (Ok magic :: nat zres)"
      and k: "(if magic \<noteq> ZSTD_MAGICNUMBER then
          check_that (\<not> skippable_magic magic) prefix_unknown (read_skippable_header src magic)
        else ?fr) = Ok r"
      using assms unfolding ZSTD_getFrameHeader_advanced_def Let_def
      by (auto simp: cbind_eq_Ok simp del: if_split)
    show thesis
      using m k skippable frc by (cases format) (auto simp: check_that_eq_Ok split: if_splits)
  qed
qed

lemma getFrameHeader_NeedMore:
  assumes "ZSTD_getFrameHeader_advanced src format = Ok (NeedMore n)"
  shows "length src < n \<and> n \<le> ZSTD_FRAMEHEADERSIZE_MAX"
  using assms startingInputLength_range [of format]
  by (cases rule: getFrameHeader_Ok_cases)
    (auto simp: ZSTD_FRAMEHEADERSIZE_MAX_def dest!: read_header_fields_Ok frameHeaderSize_Ok
      read_skippable_header_Ok)

lemma getFrameHeader_Filled:
  assumes "ZSTD_getFrameHeader_advanced src format = Ok (Filled h)"
  shows "1 < zfh_headerSize h \<and> zfh_headerSize h \<le> length src
        \<and> zfh_headerSize h \<le> ZSTD_FRAMEHEADERSIZE_MAX
        \<and> zfh_frameContentSize h < 2 ^ 64 \<and> zfh_blockSizeMax h \<le> ZSTD_BLOCKSIZE_MAX
        \<and> zfh_checksumFlag h \<le> 1"
  using assms
proof (cases rule: getFrameHeader_Ok_cases)
  case skippable
  have "len < 2 ^ 64" if "rd src 4 4 = (Ok len :: nat zres)" for len
    using rd_less [OF that] by simp
  then show ?thesis
    using read_skippable_header_Ok [OF skippable(5)]
    by (auto simp: ZSTD_FRAMEHEADERSIZE_MAX_def ZSTD_BLOCKSIZE_MAX_def)
qed (use startingInputLength_range [of format] in
    \<open>auto simp: ZSTD_FRAMEHEADERSIZE_MAX_def dest!: read_header_fields_Ok frameHeaderSize_Ok\<close>)

text \<open>C10: reading a frame header is memory safe and precise: no byte outside the buffer is read, whatever the
  bytes and the format; a request for more input asks for more than there is and at most the
  18 bytes of the longest header; a filled header lies inside the buffer.\<close>
lemma getFrameHeader_safe:
  "(case ZSTD_getFrameHeader_advanced src format of
      Fault \<Rightarrow> False
    | Err e \<Rightarrow> True
    | Ok (NeedMore n) \<Rightarrow> length src < n \<and> n \<le> ZSTD_FRAMEHEADERSIZE_MAX
    | Ok (Filled h) \<Rightarrow> 1 < zfh_headerSize h \<and> zfh_headerSize h \<le> length src
        \<and> zfh_headerSize h \<le> ZSTD_FRAMEHEADERSIZE_MAX
        \<and> zfh_frameContentSize h < 2 ^ 64 \<and> zfh_blockSizeMax h \<le> ZSTD_BLOCKSIZE_MAX)"
  using getFrameHeader_not_Fault getFrameHeader_NeedMore getFrameHeader_Filled
  by (auto split: cres.split header_result.split)

section \<open>Writer and reader\<close>

lemma write_dictID_length: "c < 4 \<Longrightarrow> length (write_dictID c d) = ZSTD_did_fieldSize ! c"
  by (auto simp: write_dictID_def code_lt4)

lemma write_fcs_length:
  "c < 4 \<Longrightarrow> length (write_fcs c ss p) = ZSTD_fcs_fieldSize ! c + (if ss \<and> c = 0 then 1 else 0)"
  by (auto simp: write_fcs_def code_lt4)

lemma dictID_code_less: "dictID_code f d < 4"
  by (simp add: dictID_code_def)

lemma fcs_code_less: "fcs_code f p < 4"
  by (simp add: fcs_code_def)

lemma read_dictID_write:
  assumes "d < 2 ^ 32" and "length pre = pos"
  shows "read_dictID (pre @ write_dictID (dictID_code f d) d @ post) pos (dictID_code f d)
    = Ok (if noDictIDFlag f then 0 else d, pos + ZSTD_did_fieldSize ! dictID_code f d)"
proof -
  have rd: "rd (pre @ le_bytes n d @ post) pos n = (Ok (d mod 256 ^ n) :: nat zres)" for n
    by (rule rd_le_bytes [OF assms(2)])
  consider "noDictIDFlag f \<or> d = 0" | "\<not> noDictIDFlag f" "0 < d" "d < 256"
    | "\<not> noDictIDFlag f" "256 \<le> d" "d < 65536" | "\<not> noDictIDFlag f" "65536 \<le> d"
    by linarith
  then show ?thesis
    using assms(1) rd [of 1] rd [of 2] rd [of 4]
    by cases (auto simp: dictID_code_def write_dictID_def read_dictID_def ZSTD_did_fieldSize_def)
qed

lemma read_fcs_write:
  assumes "p < 2 ^ 64" and "length pre = pos" and "10 \<le> wl"
  shows "read_fcs (pre @ write_fcs (fcs_code f p) (single_segment f wl p) p @ post) pos
      (fcs_code f p) (of_bool (single_segment f wl p))
    = Ok (if contentSizeFlag f then p else ZSTD_CONTENTSIZE_UNKNOWN)"
proof -
  have rd: "rd (pre @ le_bytes n v @ post) pos n = (Ok (v mod 256 ^ n) :: nat zres)" for n v
    by (rule rd_le_bytes [OF assms(2)])
  have w: "(1024 :: nat) \<le> 2 ^ wl"
    using power_increasing [OF assms(3), of "2 :: nat"] by simp
  consider "\<not> contentSizeFlag f" | "contentSizeFlag f" "p < 256"
    | "contentSizeFlag f" "256 \<le> p" "p < 65792" | "contentSizeFlag f" "65792 \<le> p" "p < 0xFFFFFFFF"
    | "contentSizeFlag f" "0xFFFFFFFF \<le> p"
    by linarith
  then show ?thesis
  proof cases
    case 2
    then have "single_segment f wl p" using w by (simp add: single_segment_def)
    then show ?thesis using 2 rd [of 1 p] by (simp add: fcs_code_def write_fcs_def read_fcs_def)
  qed (use assms(1) rd [of 2 "p - 256"] rd [of 4 p] rd [of 8 p] in
      \<open>simp_all add: fcs_code_def write_fcs_def read_fcs_def single_segment_def\<close>)
qed

lemma read_window_write:
  assumes "length pre = pos" and "10 \<le> wl" and "wl \<le> 31"
  shows "read_window (pre @ (if ss then [] else [of_nat ((wl - 10) * 8)]) @ post) pos (of_bool ss)
    = Ok (if ss then 0 else 2 ^ wl, pos + (if ss then 0 else 1))"
proof -
  have b: "unat (of_nat ((wl - 10) * 8) :: u8) = (wl - 10) * 8"
    using assms(3) by (simp add: unat_of_nat del: of_nat_mult)
  have "rd (pre @ [of_nat ((wl - 10) * 8)] @ post) pos 1 = (Ok ((wl - 10) * 8) :: nat zres)"
    using rd_byte [OF assms(1), of "of_nat ((wl - 10) * 8)" post] b by simp
  moreover have "\<not> 21 < wl - 10" and "10 + (wl - 10) = wl"
    using assms(2,3) by simp_all
  ultimately show ?thesis
    by (cases ss) (simp_all add: read_window_def frame_consts)
qed

lemma fhd_fields:
  assumes "d < 4" and "f < 4" and fhd_def: "fhd = d + of_bool c * 4 + of_bool s * 32 + f * 64"
  shows "fhd_dictID fhd = d" and "fhd_fcs fhd = f" and "fhd_single fhd = of_bool s"
    and "fhd_checksum fhd = of_bool c" and "fhd_reserved fhd = 0" and "fhd < 256"
  using assms(1,2) unfolding fhd_def code_lt4
  by (auto simp: fhd_dictID_def fhd_fcs_def fhd_single_def fhd_checksum_def fhd_reserved_def of_bool_def)

text \<open>The descriptor of a written header, and what follows it.\<close>

abbreviation header_byte :: "ZSTD_frameParameters \<Rightarrow> nat \<Rightarrow> nat \<Rightarrow> nat \<Rightarrow> nat" where
  "header_byte fParams windowLog p dictID \<equiv>
     dictID_code fParams dictID + of_bool (checksumFlag fParams) * 4 + of_bool (single_segment fParams windowLog p) * 32
     + fcs_code fParams p * 64"

abbreviation header_tail :: "ZSTD_frameParameters \<Rightarrow> nat \<Rightarrow> nat \<Rightarrow> nat \<Rightarrow> bytes" where
  "header_tail fParams windowLog p dictID \<equiv>
     (if single_segment fParams windowLog p then [] else [of_nat ((windowLog - 10) * 8)])
     @ write_dictID (dictID_code fParams dictID) dictID @ write_fcs (fcs_code fParams p) (single_segment fParams windowLog p) p"

lemmas header_byte_fields = fhd_fields [OF dictID_code_less fcs_code_less refl]

lemma announced_header:
  "announced m (header_byte fParams windowLog p dictID) = m + length (header_tail fParams windowLog p dictID)"
proof -
  have s01: "of_bool s = (1 :: nat) \<longleftrightarrow> s" "of_bool s = (0 :: nat) \<longleftrightarrow> \<not> s" for s
    by (simp_all add: of_bool_def)
  then show ?thesis
    unfolding announced_def header_byte_fields
    by (simp add: write_dictID_length write_fcs_length dictID_code_less fcs_code_less)
qed

lemma read_header_tail:
  assumes "length pre = m" and "p < 2 ^ 64" and "dictID < 2 ^ 32" and "10 \<le> windowLog" and "windowLog \<le> 31"
  shows "read_header_fields (pre @ header_tail fParams windowLog p dictID @ rest) m n (header_byte fParams windowLog p dictID) =
    Ok (Filled \<lparr>zfh_frameContentSize = (if contentSizeFlag fParams then p else ZSTD_CONTENTSIZE_UNKNOWN),
      zfh_windowSize = (if single_segment fParams windowLog p then p else 2 ^ windowLog),
      zfh_blockSizeMax = min (if single_segment fParams windowLog p then p else 2 ^ windowLog) ZSTD_BLOCKSIZE_MAX,
      zfh_frameType = ZSTD_frame, zfh_headerSize = n,
      zfh_dictID = (if noDictIDFlag fParams then 0 else dictID),
      zfh_checksumFlag = of_bool (checksumFlag fParams)\<rparr>)"
proof -
  define s where "s = single_segment fParams windowLog p"
  define d where "d = dictID_code fParams dictID"
  define f where "f = fcs_code fParams p"
  define wl :: bytes where "wl = (if s then [] else [of_nat ((windowLog - 10) * 8)])"
  define di where "di = write_dictID d dictID"
  define fc where "fc = write_fcs f s p"
  let ?src = "pre @ (wl @ di @ fc) @ rest"
  have win: "read_window ?src m (of_bool s) = Ok (if s then 0 else 2 ^ windowLog, m + length wl)"
    using read_window_write [OF assms(1,4,5), of s "di @ fc @ rest"] by (simp add: wl_def)
  have dict: "read_dictID ?src (m + length wl) d
      = Ok (if noDictIDFlag fParams then 0 else dictID, m + length wl + length di)"
    using read_dictID_write [OF assms(3), of "pre @ wl" "m + length wl" fParams "fc @ rest"] assms(1)
    by (simp add: di_def d_def write_dictID_length dictID_code_less)
  have fcs: "read_fcs ?src (m + length wl + length di) f (of_bool s)
      = Ok (if contentSizeFlag fParams then p else ZSTD_CONTENTSIZE_UNKNOWN)"
    using read_fcs_write [OF assms(2) _ assms(4), of "pre @ wl @ di" "m + length wl + length di" fParams rest] assms(1)
    by (simp add: fc_def f_def s_def)
  have cs: "contentSizeFlag fParams" if s
    using that by (simp add: s_def single_segment_def)
  show ?thesis
    unfolding read_header_fields_def Let_def header_byte_fields
    unfolding s_def [symmetric] d_def [symmetric] f_def [symmetric]
    unfolding wl_def [symmetric] di_def [symmetric] fc_def [symmetric] win dict fcs cbind.simps prod.case
    using cs by (simp add: win dict fcs)
qed

text \<open>C9: what the header writer writes, the header reader reads back, whatever follows it: content size
  (unknown when the flag is off), dictionary identifier (0 when suppressed), checksum flag, window
  and header size, in every combination of the field widths.\<close>
lemma frame_header_roundtrip:
  assumes "ZSTD_writeFrameHeader dstCapacity fParams windowLog format p dictID = Ok hdr"
    and "p < 2 ^ 64" and "dictID < 2 ^ 32" and "10 \<le> windowLog" and "windowLog \<le> 31"
  shows "ZSTD_getFrameHeader_advanced (hdr @ rest) format =
    Ok (Filled \<lparr>zfh_frameContentSize = (if contentSizeFlag fParams then p else ZSTD_CONTENTSIZE_UNKNOWN),
      zfh_windowSize = (if single_segment fParams windowLog p then p else 2 ^ windowLog),
      zfh_blockSizeMax =
        min (if single_segment fParams windowLog p then p else 2 ^ windowLog) ZSTD_BLOCKSIZE_MAX,
      zfh_frameType = ZSTD_frame, zfh_headerSize = length hdr,
      zfh_dictID = (if noDictIDFlag fParams then 0 else dictID),
      zfh_checksumFlag = of_bool (checksumFlag fParams)\<rparr>)"
proof -
  let ?m = "ZSTD_startingInputLength format"
  define fhd where "fhd = header_byte fParams windowLog p dictID"
  define after_fhd where "after_fhd = header_tail fParams windowLog p dictID"
  define magic_bytes where "magic_bytes = (if format = ZSTD_f_zstd1 then le_bytes 4 ZSTD_MAGICNUMBER else [])"
  have hdr: "hdr = (magic_bytes @ [of_nat fhd]) @ after_fhd"
    using assms(1) unfolding ZSTD_writeFrameHeader_def Let_def check_that_eq_Ok fhd_def after_fhd_def magic_bytes_def frame_consts
    by (simp only: append_assoc cres.inject simp_thms)
  have lm: "length (magic_bytes @ [of_nat fhd :: u8]) = ?m"
    by (cases format) (simp_all add: magic_bytes_def ZSTD_startingInputLength_def)
  have fhd: "fhd < 256" unfolding fhd_def by (rule header_byte_fields(6))
  have byte: "rd (hdr @ rest) (?m - 1) 1 = (Ok fhd :: nat zres)"
    using rd_byte [of magic_bytes "?m - 1" "of_nat fhd" "after_fhd @ rest"] fhd lm [symmetric]
    by (simp add: hdr unat_of_nat)
  have n: "announced ?m fhd = length hdr"
    using lm unfolding fhd_def announced_header after_fhd_def [symmetric] by (simp add: hdr)
  have size: "ZSTD_frameHeaderSize_internal (hdr @ rest) format = Ok (length hdr)"
    using byte n lm unfolding frameHeaderSize_announced by (auto simp: hdr)
  have magic: "rd (hdr @ rest) 0 4 = (Ok ZSTD_MAGICNUMBER :: nat zres)" if "format = ZSTD_f_zstd1"
    using rd_le_bytes [of "[]" 0 4 ZSTD_MAGICNUMBER] that
    by (simp add: hdr magic_bytes_def ZSTD_MAGICNUMBER_def)
  have len: "\<not> length (hdr @ rest) < ?m"
    using lm by (simp add: hdr)
  have hr: "hdr @ rest = (magic_bytes @ [of_nat fhd]) @ after_fhd @ rest" by (simp add: hdr)
  note body = read_header_tail [OF lm assms(2-5), of fParams rest "length hdr", folded fhd_def after_fhd_def hr]
  show ?thesis
    unfolding ZSTD_getFrameHeader_advanced_def Let_def if_not_P [OF len] size
    using magic byte body by (cases format) simp_all
qed

lemma frame_header_roundtrip_witness:
  "\<exists>hdr. ZSTD_writeFrameHeader 18 \<lparr>contentSizeFlag = True, checksumFlag = True, noDictIDFlag = False\<rparr>
       10 ZSTD_f_zstd1 300 7 = Ok hdr
   \<and> ZSTD_getFrameHeader_advanced (hdr @ [0xAA]) ZSTD_f_zstd1 =
     Ok (Filled \<lparr>zfh_frameContentSize = 300, zfh_windowSize = 300, zfh_blockSizeMax = 300,
       zfh_frameType = ZSTD_frame, zfh_headerSize = length hdr, zfh_dictID = 7,
       zfh_checksumFlag = 1\<rparr>)"
proof -
  let ?p = "\<lparr>contentSizeFlag = True, checksumFlag = True, noDictIDFlag = False\<rparr>"
  obtain hdr where hdr: "ZSTD_writeFrameHeader 18 ?p 10 ZSTD_f_zstd1 300 7 = Ok hdr"
    by (simp add: ZSTD_writeFrameHeader_def Let_def ZSTD_FRAMEHEADERSIZE_MAX_def)
  then show ?thesis
    using frame_header_roundtrip [OF hdr, of "[0xAA]"]
    by (simp add: single_segment_def ZSTD_BLOCKSIZE_MAX_def)
qed

end
