(* ===== verification/Zstd_Walk.thy ===== *)
theory Zstd_Walk
  imports Zstd_Frame
begin

text \<open>
  Walking over frames: block headers, the blocks of a frame, skippable frames, and the loops over
  the frames of a buffer that compute its decompressed size, its bound and the in-place margin.
  A pointer that advances is the suffix of the buffer that is left. Each loop consumes at least
  one byte per turn, so each is a total function; the lemmas say that none reads past the end.
\<close>

section \<open>Block headers and the blocks of a frame\<close>

record blockProperties_t =
  bp_blockType :: blockType_e
  bp_lastBlock :: nat
  bp_origSize :: nat

definition ZSTD_getcBlockSize :: "bytes \<Rightarrow> (nat \<times> blockProperties_t) zres" where
  "ZSTD_getcBlockSize src =
     check_that (length src < ZSTD_blockHeaderSize) srcSize_wrong
     (cbind (rd src 0 3) (\<lambda>cBlockHeader.
       let cSize = cBlockHeader div 8;
           bp = \<lparr>bp_blockType = block_of (cBlockHeader div 2 mod 4),
                 bp_lastBlock = cBlockHeader mod 2, bp_origSize = cSize\<rparr>
       in if bp_blockType bp = bt_rle then Ok (1, bp)
          else check_that (bp_blockType bp = bt_reserved) corruption_detected (Ok (cSize, bp))))"

text \<open>The loop over the blocks: the bytes left after the last one, and how many there were.\<close>

function walk_blocks :: "bytes \<Rightarrow> nat \<Rightarrow> (bytes \<times> nat) zres" where
  "walk_blocks ip nbBlocks =
     (case ZSTD_getcBlockSize ip of
        Fault \<Rightarrow> Fault
      | Err e \<Rightarrow> Err e
      | Ok (cBlockSize, bp) \<Rightarrow>
          if length ip < ZSTD_blockHeaderSize + cBlockSize then Err srcSize_wrong
          else let ip' = drop (ZSTD_blockHeaderSize + cBlockSize) ip
               in if bp_lastBlock bp \<noteq> 0 then Ok (ip', nbBlocks + 1)
                  else walk_blocks ip' (nbBlocks + 1))"
  by pat_completeness auto
termination
  by (relation "measure (\<lambda>(ip, nbBlocks). length ip)") (auto simp: ZSTD_blockHeaderSize_def)

declare walk_blocks.simps [simp del]

definition readSkippableFrameSize :: "bytes \<Rightarrow> nat zres" where
  "readSkippableFrameSize src =
     check_that (length src < ZSTD_SKIPPABLEHEADERSIZE) srcSize_wrong
     (cbind (rd src ZSTD_FRAMEIDSIZE 4) (\<lambda>sizeU32.
       check_that ((sizeU32 + ZSTD_SKIPPABLEHEADERSIZE) mod 2 ^ 32 < sizeU32)
         frameParameter_unsupported
       (let skippableSize = ZSTD_SKIPPABLEHEADERSIZE + sizeU32
        in check_that (length src < skippableSize) srcSize_wrong (Ok skippableSize))))"

text \<open>The bytes written at \<open>dst\<close> and the magic variant.\<close>

definition ZSTD_readSkippableFrame :: "nat \<Rightarrow> bytes \<Rightarrow> (bytes \<times> nat) zres" where
  "ZSTD_readSkippableFrame dstCapacity src =
     check_that (length src < ZSTD_SKIPPABLEHEADERSIZE) srcSize_wrong
     (cbind (rd src 0 4) (\<lambda>magicNumber.
      cbind (case readSkippableFrameSize src of
               Fault \<Rightarrow> Fault | Err e \<Rightarrow> Ok (unat (ZSTD_ERROR e)) | Ok n \<Rightarrow> Ok n)
        (\<lambda>skippableFrameSize.
      cbind (ZSTD_isSkippableFrame src) (\<lambda>isSkippable.
        let skippableContentSize = (skippableFrameSize + 2 ^ 64 - ZSTD_SKIPPABLEHEADERSIZE) mod 2 ^ 64
        in check_that (\<not> isSkippable) frameParameter_unsupported
          (check_that (skippableFrameSize < ZSTD_SKIPPABLEHEADERSIZE
                       \<or> length src < skippableFrameSize) srcSize_wrong
          (check_that (dstCapacity < skippableContentSize) dstSize_tooSmall
          (Ok (take skippableContentSize (drop ZSTD_SKIPPABLEHEADERSIZE src),
               magicNumber - ZSTD_MAGIC_SKIPPABLE_START))))))))"

record ZSTD_frameSizeInfo =
  fsi_nbBlocks :: nat
  fsi_compressedSize :: nat
  fsi_decompressedBound :: nat

text \<open>The error case of the structure (\<open>ZSTD_errorFrameSizeInfo\<close>) is \<open>Err\<close>.\<close>

definition starts_skippable :: "bytes \<Rightarrow> bool zres" where
  "starts_skippable src =
     (if length src < ZSTD_SKIPPABLEHEADERSIZE then Ok False
      else cbind (rd src 0 4) (\<lambda>magic. Ok (skippable_magic magic)))"

text \<open>The blocks and the checksum of a frame whose header has been read.\<close>

definition frame_size_info :: "bytes \<Rightarrow> ZSTD_FrameHeader \<Rightarrow> ZSTD_frameSizeInfo zres" where
  "frame_size_info src zfh =
     cbind (walk_blocks (drop (zfh_headerSize zfh) src) 0) (\<lambda>(ip, nbBlocks).
       check_that (zfh_checksumFlag zfh \<noteq> 0 \<and> length ip < 4) srcSize_wrong
       (let left = (if zfh_checksumFlag zfh \<noteq> 0 then length ip - 4 else length ip)
        in Ok \<lparr>fsi_nbBlocks = nbBlocks, fsi_compressedSize = length src - left,
             fsi_decompressedBound =
               (if zfh_frameContentSize zfh \<noteq> ZSTD_CONTENTSIZE_UNKNOWN
                then zfh_frameContentSize zfh
                else nbBlocks * zfh_blockSizeMax zfh mod 2 ^ 64)\<rparr>))"

definition ZSTD_findFrameSizeInfo :: "bytes \<Rightarrow> ZSTD_format_e \<Rightarrow> ZSTD_frameSizeInfo zres" where
  "ZSTD_findFrameSizeInfo src format =
     cbind (if format = ZSTD_f_zstd1 then starts_skippable src else Ok False) (\<lambda>skippable.
     if skippable then
       cbind (readSkippableFrameSize src) (\<lambda>n.
         Ok \<lparr>fsi_nbBlocks = 0, fsi_compressedSize = n, fsi_decompressedBound = 0\<rparr>)
     else
       cbind (ZSTD_getFrameHeader_advanced src format) (\<lambda>ret.
         case ret of NeedMore n \<Rightarrow> Err srcSize_wrong | Filled zfh \<Rightarrow> frame_size_info src zfh))"

definition ZSTD_findFrameCompressedSize_advanced :: "bytes \<Rightarrow> ZSTD_format_e \<Rightarrow> nat zres" where
  "ZSTD_findFrameCompressedSize_advanced src format =
     cbind (ZSTD_findFrameSizeInfo src format) (\<lambda>info. Ok (fsi_compressedSize info))"

definition ZSTD_findFrameCompressedSize :: "bytes \<Rightarrow> nat zres" where
  "ZSTD_findFrameCompressedSize src = ZSTD_findFrameCompressedSize_advanced src ZSTD_f_zstd1"

section \<open>Lemmas on the walk\<close>

lemma getcBlockSize_not_Fault [simp]: "ZSTD_getcBlockSize src \<noteq> Fault"
  by (auto simp: ZSTD_getcBlockSize_def crun_simps Let_def ZSTD_blockHeaderSize_def split: if_splits)

lemma walk_blocks_not_Fault: "walk_blocks ip nb \<noteq> Fault"
proof (induction ip nb rule: walk_blocks.induct)
  case (1 ip nb)
  then show ?case
    by (subst walk_blocks.simps) (auto simp: Let_def split: cres.split)
qed

lemma walk_blocks_Ok:
  "walk_blocks ip nb = Ok (ip', nb') \<Longrightarrow>
     \<exists>k. 3 \<le> k \<and> k \<le> length ip \<and> ip' = drop k ip \<and> nb < nb' \<and> 3 * (nb' - nb) \<le> k"
proof (induction ip nb rule: walk_blocks.induct)
  case (1 ip nb)
  obtain c bp where g: "ZSTD_getcBlockSize ip = Ok (c, bp)" and le: "3 + c \<le> length ip"
    and k: "(if bp_lastBlock bp \<noteq> 0 then Ok (drop (3 + c) ip, nb + 1)
             else walk_blocks (drop (3 + c) ip) (nb + 1)) = Ok (ip', nb')"
    using "1.prems" by (subst (asm) walk_blocks.simps)
      (auto simp: Let_def ZSTD_blockHeaderSize_def not_less split: cres.splits if_splits)
  show ?case
  proof (cases "bp_lastBlock bp \<noteq> 0")
    case True
    then show ?thesis using k le by (intro exI [of _ "3 + c"]) auto
  next
    case False
    then obtain k' where "3 \<le> k'" "k' \<le> length (drop (3 + c) ip)" "ip' = drop k' (drop (3 + c) ip)"
      "nb + 1 < nb'" "3 * (nb' - (nb + 1)) \<le> k'"
      using k "1.IH" [OF g refl] le by (auto simp: ZSTD_blockHeaderSize_def not_less)
    then show ?thesis
      using le by (intro exI [of _ "3 + c + k'"]) (auto simp: add.commute)
  qed
qed

lemma readSkippableFrameSize_Ok:
  "readSkippableFrameSize src = Ok n \<Longrightarrow> 8 \<le> n \<and> n \<le> length src"
  by (auto simp: readSkippableFrameSize_def crun_simps Let_def frame_consts not_less)

lemma readSkippableFrameSize_not_Fault [simp]: "readSkippableFrameSize src \<noteq> Fault"
  by (auto simp: readSkippableFrameSize_def crun_simps Let_def frame_consts)

lemma starts_skippable_not_Fault [simp]: "starts_skippable src \<noteq> Fault" "starts_skippable src \<noteq> Err e"
  by (auto simp: starts_skippable_def crun_simps frame_consts)

lemma frame_size_info_Ok:
  assumes "frame_size_info src zfh = Ok info"
    and h: "ZSTD_getFrameHeader_advanced src format = Ok (Filled zfh)"
  shows "1 < fsi_compressedSize info \<and> fsi_compressedSize info \<le> length src
    \<and> fsi_decompressedBound info < 2 ^ 64 \<and> 3 * fsi_nbBlocks info \<le> fsi_compressedSize info"
proof -
  obtain ip nb where w: "walk_blocks (drop (zfh_headerSize zfh) src) 0 = Ok (ip, nb)"
    and info: "info = \<lparr>fsi_nbBlocks = nb, fsi_compressedSize =
        length src - (if zfh_checksumFlag zfh \<noteq> 0 then length ip - 4 else length ip),
      fsi_decompressedBound = (if zfh_frameContentSize zfh \<noteq> ZSTD_CONTENTSIZE_UNKNOWN
        then zfh_frameContentSize zfh else nb * zfh_blockSizeMax zfh mod 2 ^ 64)\<rparr>"
    using assms(1) unfolding frame_size_info_def cbind_eq_Ok Let_def
    by (auto simp: check_that_eq_Ok simp del: if_split)
  define left where "left = (if zfh_checksumFlag zfh \<noteq> 0 then length ip - 4 else length ip)"
  from walk_blocks_Ok [OF w] obtain j where j: "3 \<le> j" "j \<le> length src - zfh_headerSize zfh"
    "ip = drop (zfh_headerSize zfh + j) src" "3 * nb \<le> j"
    by (auto simp: add.commute)
  note h = getFrameHeader_Filled [OF h]
  have "left \<le> length ip" by (simp add: left_def)
  then have "zfh_headerSize zfh + j \<le> length src - left"
    using j h by simp
  then show ?thesis
    using j h unfolding info left_def [symmetric] by auto
qed

lemma findFrameSizeInfo_Ok:
  assumes "ZSTD_findFrameSizeInfo src format = Ok info"
  shows "1 < fsi_compressedSize info \<and> fsi_compressedSize info \<le> length src
    \<and> fsi_decompressedBound info < 2 ^ 64 \<and> 3 * fsi_nbBlocks info \<le> fsi_compressedSize info"
proof -
  obtain sk where k: "(if sk then
       cbind (readSkippableFrameSize src) (\<lambda>n.
         Ok \<lparr>fsi_nbBlocks = 0, fsi_compressedSize = n, fsi_decompressedBound = 0\<rparr>)
     else
       cbind (ZSTD_getFrameHeader_advanced src format) (\<lambda>ret.
         case ret of NeedMore n \<Rightarrow> Err srcSize_wrong | Filled zfh \<Rightarrow> frame_size_info src zfh)) = Ok info"
    using assms unfolding ZSTD_findFrameSizeInfo_def cbind_eq_Ok by blast
  show ?thesis
  proof (cases sk)
    case True
    then show ?thesis using k by (auto simp: cbind_eq_Ok dest!: readSkippableFrameSize_Ok)
  next
    case False
    then obtain ret where ret: "ZSTD_getFrameHeader_advanced src format = Ok ret"
      and c: "(case ret of NeedMore n \<Rightarrow> Err srcSize_wrong | Filled zfh \<Rightarrow> frame_size_info src zfh) = Ok info"
      using k by (auto simp only: if_False cbind_eq_Ok)
    show ?thesis
      using ret c by (cases ret) (auto dest: frame_size_info_Ok)
  qed
qed

lemma frame_size_info_not_Fault [simp]: "frame_size_info src zfh \<noteq> Fault"
  by (auto simp: frame_size_info_def cbind_eq_Fault check_that_eq_Fault Let_def walk_blocks_not_Fault)

lemma findFrameSizeInfo_not_Fault [simp]: "ZSTD_findFrameSizeInfo src format \<noteq> Fault"
  by (auto simp: ZSTD_findFrameSizeInfo_def cbind_eq_Fault getFrameHeader_not_Fault
      split: header_result.splits if_splits)

lemma findFrameCompressedSize_Ok:
  "ZSTD_findFrameCompressedSize src = Ok n \<Longrightarrow> 1 < n \<and> n \<le> length src"
  by (auto simp: ZSTD_findFrameCompressedSize_def ZSTD_findFrameCompressedSize_advanced_def
      cbind_eq_Ok dest!: findFrameSizeInfo_Ok)

lemma findFrameCompressedSize_not_Fault [simp]: "ZSTD_findFrameCompressedSize src \<noteq> Fault"
  by (auto simp: ZSTD_findFrameCompressedSize_def ZSTD_findFrameCompressedSize_advanced_def
      cbind_eq_Fault)

lemma getFrameContentSize_Ok: "\<exists>n < 2 ^ 64. ZSTD_getFrameContentSize src = Ok n"
  using getFrameHeader_not_Fault [of src ZSTD_f_zstd1] getFrameHeader_Filled [of src ZSTD_f_zstd1]
  by (auto simp: ZSTD_getFrameContentSize_def ZSTD_getFrameHeader_def ZSTD_CONTENTSIZE_ERROR_def
      split: cres.split header_result.split)

section \<open>Loops over the frames of a buffer\<close>

function findDecompressedSize_loop :: "bytes \<Rightarrow> nat \<Rightarrow> nat zres" where
  "findDecompressedSize_loop src totalDstSize =
     (if length src < ZSTD_startingInputLength ZSTD_f_zstd1 then
        Ok (if src \<noteq> [] then ZSTD_CONTENTSIZE_ERROR else totalDstSize)
      else case rd src 0 4 of
        Fault \<Rightarrow> Fault
      | Err e \<Rightarrow> Err e
      | Ok magicNumber \<Rightarrow>
          if skippable_magic magicNumber then
            (case readSkippableFrameSize src of
               Fault \<Rightarrow> Fault
             | Err e \<Rightarrow> Ok ZSTD_CONTENTSIZE_ERROR
             | Ok skippableSize \<Rightarrow> findDecompressedSize_loop (drop skippableSize src) totalDstSize)
          else
            (case ZSTD_getFrameContentSize src of
               Fault \<Rightarrow> Fault
             | Err e \<Rightarrow> Err e
             | Ok fcs \<Rightarrow>
                 if ZSTD_CONTENTSIZE_ERROR \<le> fcs then Ok fcs
                 else if (totalDstSize + fcs) mod 2 ^ 64 < totalDstSize then Ok ZSTD_CONTENTSIZE_ERROR
                 else (case ZSTD_findFrameCompressedSize src of
                         Fault \<Rightarrow> Fault
                       | Err e \<Rightarrow> Ok ZSTD_CONTENTSIZE_ERROR
                       | Ok frameSrcSize \<Rightarrow>
                           findDecompressedSize_loop (drop frameSrcSize src)
                             ((totalDstSize + fcs) mod 2 ^ 64))))"
  by pat_completeness auto
termination
  by (relation "measure (\<lambda>(src, totalDstSize). length src)")
    (auto simp: ZSTD_startingInputLength_def dest!: readSkippableFrameSize_Ok findFrameCompressedSize_Ok)

declare findDecompressedSize_loop.simps [simp del]

definition ZSTD_findDecompressedSize :: "bytes \<Rightarrow> nat zres" where
  "ZSTD_findDecompressedSize src = findDecompressedSize_loop src 0"

function decompressBound_loop :: "bytes \<Rightarrow> nat \<Rightarrow> nat zres" where
  "decompressBound_loop src bound =
     (if src = [] then Ok bound
      else case ZSTD_findFrameSizeInfo src ZSTD_f_zstd1 of
        Fault \<Rightarrow> Fault
      | Err e \<Rightarrow> Ok ZSTD_CONTENTSIZE_ERROR
      | Ok info \<Rightarrow>
          if fsi_decompressedBound info = ZSTD_CONTENTSIZE_ERROR then Ok ZSTD_CONTENTSIZE_ERROR
          else decompressBound_loop (drop (fsi_compressedSize info) src)
                 ((bound + fsi_decompressedBound info) mod 2 ^ 64))"
  by pat_completeness auto
termination
  by (relation "measure (\<lambda>(src, bound). length src)") (auto dest!: findFrameSizeInfo_Ok)

declare decompressBound_loop.simps [simp del]

definition ZSTD_decompressBound :: "bytes \<Rightarrow> nat zres" where
  "ZSTD_decompressBound src = decompressBound_loop src 0"

function decompressionMargin_loop :: "bytes \<Rightarrow> nat \<Rightarrow> nat \<Rightarrow> nat zres" where
  "decompressionMargin_loop src margin maxBlockSize =
     (if src = [] then Ok ((margin + maxBlockSize) mod 2 ^ 64)
      else case ZSTD_getFrameHeader src of
        Fault \<Rightarrow> Fault
      | Err e \<Rightarrow> Err e
      | Ok hdr \<Rightarrow>
        (case ZSTD_findFrameSizeInfo src ZSTD_f_zstd1 of
           Fault \<Rightarrow> Fault
         | Err e \<Rightarrow> Err corruption_detected
         | Ok info \<Rightarrow>
           if fsi_decompressedBound info = ZSTD_CONTENTSIZE_ERROR then Err corruption_detected
           else (case hdr of
             NeedMore n \<Rightarrow> Err corruption_detected
           | Filled zfh \<Rightarrow>
             if zfh_frameType zfh = ZSTD_frame then
               decompressionMargin_loop (drop (fsi_compressedSize info) src)
                 ((margin + zfh_headerSize zfh + (if zfh_checksumFlag zfh \<noteq> 0 then 4 else 0)
                   + 3 * fsi_nbBlocks info) mod 2 ^ 64)
                 (max maxBlockSize (zfh_blockSizeMax zfh))
             else decompressionMargin_loop (drop (fsi_compressedSize info) src)
                    ((margin + fsi_compressedSize info) mod 2 ^ 64) maxBlockSize)))"
  by pat_completeness auto
termination
  by (relation "measure (\<lambda>(src, margin, maxBlockSize). length src)") (auto dest!: findFrameSizeInfo_Ok)

declare decompressionMargin_loop.simps [simp del]

definition ZSTD_decompressionMargin :: "bytes \<Rightarrow> nat zres" where
  "ZSTD_decompressionMargin src = decompressionMargin_loop src 0 0"

lemma findDecompressedSize_loop_Ok: "\<exists>n. findDecompressedSize_loop src t = Ok n"
proof (induction src t rule: findDecompressedSize_loop.induct)
  case (1 src t)
  show ?case
    using "1.IH" getFrameContentSize_Ok [of src]
    by (subst findDecompressedSize_loop.simps)
      (auto simp: ZSTD_startingInputLength_def not_less split: cres.split)
qed

lemma decompressBound_loop_Ok: "\<exists>n. decompressBound_loop src b = Ok n"
proof (induction src b rule: decompressBound_loop.induct)
  case (1 src b)
  then show ?case
    by (subst decompressBound_loop.simps) (auto split: cres.split)
qed

lemma decompressionMargin_not_Fault: "decompressionMargin_loop src m b \<noteq> Fault"
proof (induction src m b rule: decompressionMargin_loop.induct)
  case (1 src m b)
  then show ?case
    by (subst decompressionMargin_loop.simps)
      (auto simp: ZSTD_getFrameHeader_def getFrameHeader_not_Fault split: cres.split header_result.split)
qed


end
