(* ===== verification/ZstdHelpers.thy ===== *)
theory ZstdHelpers
  imports Zstd_Walk
begin

text \<open>
  The framework's compression helpers (\<open>zstd_helpers.cpp\<close>): when a message is sent compressed,
  where the compressed bytes go, and how a received message is recognised as compressed, bounded
  and expanded. The two library calls that do the work, \<open>ZSTD_compressCCtx\<close> and
  \<open>ZSTD_decompressDCtx\<close>, are arguments of the model, \<open>None\<close> for a context that was never created;
  everything the helpers ask the library besides (\<open>ZSTD_compressBound\<close>, \<open>ZSTD_isError\<close>,
  \<open>ZSTD_getErrorName\<close>, \<open>ZSTD_getFrameContentSize\<close>) is the model of the library's own code.
  The text the helper writes to \<open>std::cerr\<close> is the second component of its result.
\<close>

text \<open>Message, capacity of the output and compression level; the returned \<open>size_t\<close> and the bytes
  stored. Compressed message and capacity; the returned \<open>size_t\<close> and the bytes stored.\<close>

type_synonym compress_fun = "string \<Rightarrow> nat \<Rightarrow> int \<Rightarrow> u64 \<times> string"
type_synonym decompress_fun = "string \<Rightarrow> nat \<Rightarrow> u64 \<times> string"

text \<open>The compression buffer: a \<open>char\<close> array, there or a null pointer, with its size; or a string the
  helper resizes.\<close>

datatype compress_target = CharBuffer bool nat | StringBuffer

definition run_compress ::
    "compress_fun option \<Rightarrow> string \<Rightarrow> nat \<Rightarrow> int \<Rightarrow> (string, string \<times> string) cres" where
  "run_compress zstd_cctx msg max_size level =
     (case zstd_cctx of
        None \<Rightarrow> Fault
      | Some ZSTD_compressCCtx \<Rightarrow>
          let (bytes_to_send, compress_buffer) = ZSTD_compressCCtx msg max_size level in
          if ZSTD_isError bytes_to_send then
            Ok (msg, ''Warning: error compressing message '' @ ZSTD_getErrorName bytes_to_send)
          else Ok (take (unat bytes_to_send) compress_buffer, []))"

definition ZstdCompress_to ::
    "compress_fun option \<Rightarrow> compress_target \<Rightarrow> string \<Rightarrow> nat \<Rightarrow> int \<Rightarrow> (string, string \<times> string) cres" where
  "ZstdCompress_to zstd_cctx target msg COMPRESS_THRESHOLD level =
     (if length msg < COMPRESS_THRESHOLD then Ok (msg, [])
      else let bytes_to_send = ZSTD_compressBound (of_nat (length msg)) in
      if ZSTD_isError bytes_to_send then
        Ok (msg, ''Warning: error calculating compressed size: '' @ ZSTD_getErrorName bytes_to_send)
      else case target of
        CharBuffer allocated max_size \<Rightarrow>
          if allocated \<and> max_size < unat bytes_to_send then
            Ok (msg, ''Warning: compressed size '' @ nat_str (unat bytes_to_send)
                     @ '' exceeds compression buffer size '' @ nat_str max_size)
          else run_compress zstd_cctx msg max_size level
      | StringBuffer \<Rightarrow> run_compress zstd_cctx msg (unat bytes_to_send) level)"

text \<open>The two wrappers: a \<open>char\<close> array buffer, and a string buffer (as the framework uses it).\<close>

definition ZstdCompress_array ::
    "compress_fun option \<Rightarrow> string \<Rightarrow> bool \<Rightarrow> nat \<Rightarrow> nat \<Rightarrow> int \<Rightarrow> (string, string \<times> string) cres" where
  "ZstdCompress_array zstd_cctx msg allocated MAX_COMPRESSED_SIZE COMPRESS_THRESHOLD level =
     ZstdCompress_to zstd_cctx (CharBuffer allocated MAX_COMPRESSED_SIZE) msg COMPRESS_THRESHOLD level"

definition ZstdCompress ::
    "compress_fun option \<Rightarrow> string \<Rightarrow> nat \<Rightarrow> int \<Rightarrow> (string, string \<times> string) cres" where
  "ZstdCompress zstd_cctx msg COMPRESS_THRESHOLD level =
     ZstdCompress_to zstd_cctx StringBuffer msg COMPRESS_THRESHOLD level"

definition DEFAULT_COMPRESS_THRESHOLD :: nat where "DEFAULT_COMPRESS_THRESHOLD = 50"
definition DEFAULT_COMPRESSION_LEVEL :: int where "DEFAULT_COMPRESSION_LEVEL = 1"
definition DEFAULT_MAX_DECOMPRESSED_SIZE :: nat where "DEFAULT_MAX_DECOMPRESSED_SIZE = 104857600"

definition ZSTD_MAGIC_BYTES :: bytes where "ZSTD_MAGIC_BYTES = [0x28, 0xB5, 0x2F, 0xFD]"

text \<open>More than the four magic bytes, and they are the first four.\<close>

definition looks_compressed :: "string \<Rightarrow> bool" where
  "looks_compressed msg \<longleftrightarrow> 4 < length msg \<and> take 4 (bytes_of_string msg) = ZSTD_MAGIC_BYTES"

text \<open>The result and what \<open>decompress_buffer\<close> holds afterwards, an error text when it is false. The
  buffer is resized to the announced size before the library fills it.\<close>

definition ZstdDecompress :: "decompress_fun option \<Rightarrow> string \<Rightarrow> nat \<Rightarrow> (string, bool \<times> string) cres" where
  "ZstdDecompress zstd_dctx msg MAX_DECOMPRESSED_SIZE =
     (if looks_compressed msg then
        (case ZSTD_getFrameContentSize (bytes_of_string msg) of
           Fault \<Rightarrow> Fault
         | Err e \<Rightarrow> Fault
         | Ok decompressed_bytes \<Rightarrow>
             if decompressed_bytes = ZSTD_CONTENTSIZE_UNKNOWN
                \<or> decompressed_bytes = ZSTD_CONTENTSIZE_ERROR then
               Ok (False, ''Received corrupt zstd message ''
                          @ ZSTD_getErrorName (of_nat decompressed_bytes))
             else if MAX_DECOMPRESSED_SIZE < decompressed_bytes then
               Ok (False, ''Compressed message with oversized payload: ''
                          @ nat_str decompressed_bytes @ '' bytes'')
             else (case zstd_dctx of
                     None \<Rightarrow> Fault
                   | Some ZSTD_decompressDCtx \<Rightarrow>
                       let (ret, out) = ZSTD_decompressDCtx msg decompressed_bytes in
                       if ZSTD_isError ret then
                         Ok (False, ''zstd error decompressing response: '' @ ZSTD_getErrorName ret)
                       else Ok (True, take decompressed_bytes
                                 (take (unat ret) out @ replicate decompressed_bytes (char_of (0 :: nat))))))
      else Ok (True, msg))"

section \<open>What the helpers guarantee\<close>

text \<open>The documented contract of the two library calls on one message: a compressor that does not fail
  stores at most the capacity, a frame that announces the content size, and the decompressor
  gives the message back from it.\<close>

definition codec_contract :: "compress_fun \<Rightarrow> decompress_fun \<Rightarrow> string \<Rightarrow> bool" where
  "codec_contract compress decompress msg \<longleftrightarrow>
     (\<forall>cap level code out. compress msg cap level = (code, out) \<longrightarrow> \<not> ZSTD_isError code \<longrightarrow>
        unat code \<le> cap \<and> unat code \<le> length out
        \<and> looks_compressed (take (unat code) out)
        \<and> ZSTD_getFrameContentSize (bytes_of_string (take (unat code) out)) = Ok (length msg)
        \<and> decompress (take (unat code) out) (length msg) = (of_nat (length msg), msg))"

lemma run_compress_sends:
  assumes "run_compress (Some c) msg cap level = Ok (sent, err)"
  shows "sent = msg \<or> (\<exists>code out. c msg cap level = (code, out) \<and> \<not> ZSTD_isError code
    \<and> sent = take (unat code) out)"
  using assms by (auto simp: run_compress_def Let_def split: prod.splits if_splits)

lemma ZstdCompress_sends:
  assumes "ZstdCompress (Some c) msg threshold level = Ok (sent, err)"
  shows "sent = msg \<or> (\<exists>cap code out. c msg cap level = (code, out) \<and> \<not> ZSTD_isError code
    \<and> sent = take (unat code) out)"
  using assms run_compress_sends [of c msg _ level sent err]
  by (auto simp: ZstdCompress_def ZstdCompress_to_def Let_def split: if_splits)

lemma run_compress_total: "\<exists>sent err. run_compress (Some c) msg cap level = Ok (sent, err)"
  by (auto simp: run_compress_def Let_def split: prod.split)

lemma ZstdCompress_total: "\<exists>sent err. ZstdCompress (Some c) msg threshold level = Ok (sent, err)"
  using run_compress_total [of c msg _ level]
  by (simp add: ZstdCompress_def ZstdCompress_to_def Let_def)

lemma length_less_u64: "length msg \<le> 104857600 \<Longrightarrow> unat (of_nat (length msg) :: u64) = length msg"
  by (simp add: unat_of_nat)

text \<open>A message of at most the decompression limit, or its compressed form, decodes to itself.\<close>

lemma sent_decodes:
  assumes c: "codec_contract compress decompress msg" and len: "length msg \<le> max_size"
    and "max_size \<le> DEFAULT_MAX_DECOMPRESSED_SIZE" and plain: "\<not> looks_compressed msg"
    and s: "sent = msg \<or> (\<exists>cap level code out. compress msg cap level = (code, out)
        \<and> \<not> ZSTD_isError code \<and> sent = take (unat code) out)"
  shows "ZstdDecompress (Some decompress) sent max_size = Ok (True, msg)"
proof (cases "sent = msg")
  case True
  then show ?thesis using plain by (simp add: ZstdDecompress_def)
next
  case False
  have l: "length msg \<le> 104857600"
    using assms(2,3) by (simp add: DEFAULT_MAX_DECOMPRESSED_SIZE_def)
  from False s c have "looks_compressed sent"
    "ZSTD_getFrameContentSize (bytes_of_string sent) = Ok (length msg)"
    "decompress sent (length msg) = (of_nat (length msg), msg)"
    unfolding codec_contract_def by blast+
  moreover have "\<not> ZSTD_isError (of_nat (length msg))"
    using l by (simp add: ZSTD_isError_iff length_less_u64)
  moreover have "length msg \<noteq> ZSTD_CONTENTSIZE_UNKNOWN" "length msg \<noteq> ZSTD_CONTENTSIZE_ERROR"
    using l by (auto simp: ZSTD_CONTENTSIZE_UNKNOWN_def ZSTD_CONTENTSIZE_ERROR_def)
  ultimately show ?thesis
    using len l by (simp add: ZstdDecompress_def length_less_u64)
qed

lemma ZstdCompress_decodes:
  assumes "codec_contract compress decompress msg"
    and "length msg \<le> max_size" and "max_size \<le> DEFAULT_MAX_DECOMPRESSED_SIZE"
    and "\<not> looks_compressed msg"
  shows "\<exists>sent err. ZstdCompress (Some compress) msg threshold level = Ok (sent, err)
    \<and> ZstdDecompress (Some decompress) sent max_size = Ok (True, msg)"
proof -
  obtain sent err where s: "ZstdCompress (Some compress) msg threshold level = Ok (sent, err)"
    using ZstdCompress_total by blast
  have "sent = msg \<or> (\<exists>cap level code out. compress msg cap level = (code, out)
      \<and> \<not> ZSTD_isError code \<and> sent = take (unat code) out)"
    using ZstdCompress_sends [OF s] by blast
  then show ?thesis using s sent_decodes [OF assms(1,2,3,4)] by blast
qed

text \<open>C12: what one side sends, the other side reads: for every message up to the decompression limit that
  does not itself begin with the four magic bytes, and every threshold and level, \<open>ZstdDecompress\<close>
  of what \<open>ZstdCompress\<close> hands to the socket is the message, whether it was compressed, too short to
  be, or the compressor failed.\<close>
lemma compress_decompress_roundtrip:
  assumes "codec_contract compress decompress msg"
    and "length msg \<le> max_size" and "max_size \<le> DEFAULT_MAX_DECOMPRESSED_SIZE"
    and "\<not> looks_compressed msg"
  shows "\<exists>sent err. ZstdCompress (Some compress) msg threshold level = Ok (sent, err)
    \<and> ZstdDecompress (Some decompress) sent max_size = Ok (True, msg)"
  using assms by (rule ZstdCompress_decodes)

text \<open>A run of 60 letters, the 10-byte frame that encodes it, and library calls that know just these.\<close>

definition demo_msg :: string where
  "demo_msg = replicate 60 (CHR ''a'')"

definition demo_frame :: string where
  "demo_frame = string_of_bytes [0x28, 0xB5, 0x2F, 0xFD, 0x20, 60, 0xE3, 1, 0, 0x61]"

definition demo_compress :: compress_fun where
  "demo_compress msg cap level =
     (if msg = demo_msg \<and> 10 \<le> cap then (10, demo_frame) else (ZSTD_ERROR dstSize_tooSmall, []))"

definition demo_decompress :: decompress_fun where
  "demo_decompress msg cap =
     (if msg = demo_frame \<and> 60 \<le> cap then (60, demo_msg) else (ZSTD_ERROR corruption_detected, []))"

lemma demo_frame_bytes:
  "bytes_of_string demo_frame = [0x28, 0xB5, 0x2F, 0xFD, 0x20, 60, 0xE3, 1, 0, 0x61]"
  unfolding demo_frame_def by (rule bytes_of_string_of_bytes)

lemma demo_frame_size: "ZSTD_getFrameContentSize (bytes_of_string demo_frame) = Ok 60"
  unfolding demo_frame_bytes
  by (simp add: ZSTD_getFrameContentSize_def ZSTD_getFrameHeader_def ZSTD_getFrameHeader_advanced_def
      ZSTD_startingInputLength_def rd_def ZSTD_MAGICNUMBER_def ZSTD_frameHeaderSize_internal_def
      announced_def fhd_single_def fhd_dictID_def fhd_fcs_def read_header_fields_def
      read_window_def read_dictID_def read_fcs_def fhd_reserved_def)

lemma demo_contract: "codec_contract demo_compress demo_decompress demo_msg"
proof -
  have "looks_compressed demo_frame"
    unfolding looks_compressed_def demo_frame_bytes ZSTD_MAGIC_BYTES_def by (simp add: demo_frame_def)
  moreover have "length demo_frame = 10" "length demo_msg = 60"
    by (simp_all add: demo_frame_def demo_msg_def)
  moreover have "ZSTD_isError (ZSTD_ERROR dstSize_tooSmall)"
    by (simp add: ZSTD_isError_iff unat_ZSTD_ERROR)
  ultimately show ?thesis
    by (simp add: codec_contract_def demo_compress_def demo_decompress_def demo_frame_size)
qed

lemma demo_msg_length: "length demo_msg = 60"
  by (simp add: demo_msg_def)

lemma demo_msg_plain: "\<not> looks_compressed demo_msg"
proof
  assume "looks_compressed demo_msg"
  then have "take 4 (bytes_of_string demo_msg) = ZSTD_MAGIC_BYTES"
    by (simp add: looks_compressed_def)
  from arg_cong [OF this, of hd] show False
    by (simp add: demo_msg_def bytes_of_string_def ZSTD_MAGIC_BYTES_def hd_take)
qed

lemma compress_decompress_roundtrip_witness:
  "\<exists>sent err. ZstdCompress (Some demo_compress) demo_msg 50 1 = Ok (sent, err)
    \<and> ZstdDecompress (Some demo_decompress) sent 1000 = Ok (True, demo_msg)"
  by (rule compress_decompress_roundtrip [OF demo_contract])
    (simp_all add: demo_msg_length demo_msg_plain DEFAULT_MAX_DECOMPRESSED_SIZE_def)

text \<open>a received message can neither crash the helper nor make it allocate without bound: with a
  decompression context it always returns, and a message it accepts expands to at most the limit
  (or is the message itself).\<close>
lemma decompress_bounded:
  "(case ZstdDecompress (Some decompress) msg max_size of
      Ok (True, buffer) \<Rightarrow> length buffer \<le> max max_size (length msg)
    | Ok (False, errmsg) \<Rightarrow> looks_compressed msg
    | _ \<Rightarrow> False)"
proof (cases "looks_compressed msg")
  case False
  then show ?thesis by (simp add: ZstdDecompress_def)
next
  case True
  obtain n where n: "ZSTD_getFrameContentSize (bytes_of_string msg) = Ok n"
    using getFrameContentSize_Ok by blast
  obtain ret out where d: "decompress msg n = (ret, out)"
    by (cases "decompress msg n")
  have "min (length out) (min n (unat ret)) + (n - min (length out) (unat ret)) = n" if "n \<le> max_size"
    by simp
  then show ?thesis
    using True n d by (simp add: ZstdDecompress_def not_less le_max_iff_disj)
qed

end
