(* ===== verification/ServicesBackend.thy ===== *)
theory ServicesBackend
  imports ZstdHelpers
begin

text \<open>
  The services backend (\<open>ServicesBackend.cpp\<close>): commands and their constructors, the multicast
  sender, and the request/response client whose calls hand a command to a background thread and
  wait for two tickets (promises), one for the sending and one for the response.

  Sockets, the ZeroMQ library, the clock and the configuration store are outside: what a call on
  them returned is an argument of the operation (\<open>poll_outcome\<close>, \<open>send_outcome\<close>, the parts received),
  a promise is the number of the call that waits for it, and the bytes handed to \<open>sendto\<close> and to
  \<open>zmq::socket_t::send\<close> are collected in the state. Log output is not modelled. A null
  dereference is recorded in \<open>bk_crashed\<close>.
\<close>

section \<open>Commands\<close>

record Command =
  cmd_command :: string
  cmd_response :: "string list"
  cmd_type :: char
  cmd_topic :: string
  cmd_success :: u32
  cmd_err :: string
  cmd_msg_id :: u32
  cmd_timeout_ms :: u32

definition Command_new :: "string \<Rightarrow> char \<Rightarrow> string \<Rightarrow> u32 \<Rightarrow> Command" where
  "Command_new command_in type_in topic_in timeout_ms_in =
     \<lparr>cmd_command = command_in, cmd_response = [], cmd_type = type_in, cmd_topic = topic_in,
      cmd_success = 0, cmd_err = [], cmd_msg_id = 0, cmd_timeout_ms = timeout_ms_in\<rparr>"

definition Command_default :: Command where
  "Command_default =
     \<lparr>cmd_command = [], cmd_response = [], cmd_type = CHR 0x00, cmd_topic = [],
      cmd_success = 0, cmd_err = [], cmd_msg_id = 0, cmd_timeout_ms = 0\<rparr>"

definition Command_copy :: "Command \<Rightarrow> Command" where
  "Command_copy c =
     \<lparr>cmd_command = cmd_command c, cmd_response = cmd_response c, cmd_type = cmd_type c,
      cmd_topic = cmd_topic c, cmd_success = cmd_success c, cmd_err = cmd_err c,
      cmd_msg_id = cmd_msg_id c, cmd_timeout_ms = cmd_timeout_ms c\<rparr>"

text \<open>Move construction and move assignment: the new command and what is left of the old one, which
  keeps its error text.\<close>

definition Command_move :: "Command \<Rightarrow> Command \<times> Command" where
  "Command_move c =
     (\<lparr>cmd_command = cmd_command c, cmd_response = cmd_response c, cmd_type = cmd_type c,
       cmd_topic = cmd_topic c, cmd_success = cmd_success c, cmd_err = cmd_err c,
       cmd_msg_id = cmd_msg_id c, cmd_timeout_ms = cmd_timeout_ms c\<rparr>,
      \<lparr>cmd_command = [], cmd_response = [], cmd_type = CHR 0x00, cmd_topic = [],
       cmd_success = 0, cmd_err = cmd_err c, cmd_msg_id = 0, cmd_timeout_ms = 0\<rparr>)"

definition Command_assign :: "Command \<Rightarrow> Command \<Rightarrow> bool \<Rightarrow> Command \<times> Command" where
  "Command_assign this c same_object = (if same_object then (this, this) else Command_move c)"

lemma Command_move_simps [simp]: "fst (Command_move c) = c" "Command_copy c = c"
  by (simp_all add: Command_move_def Command_copy_def)

section \<open>State\<close>

datatype MulticastType = Log | Monitoring

record backend =
  clt_pub_port :: int
  clt_dlr_port :: int
  clt_ID :: string
  inpoll_timeout :: u32
  command_timeout :: u32
  clt_pub_socket :: bool
  clt_dlr_socket :: bool
  monitor_socket :: bool
  pub_connected_locked :: bool
  log_socket :: int
  mon_socket :: int
  advertised :: "(string \<times> int) list"
  waiting_senders :: "(Command \<times> nat) list"
  waiting_recipients :: "u32 \<rightharpoonup> nat"
  msg_id :: u32
  write_commands_failed :: nat
  read_commands_failed :: nat
  zstd_cctx :: "compress_fun option"
  zstd_dctx :: "decompress_fun option"
  compressed_msg_buf :: bool
  compression_level :: int
  compression_threshold :: nat
  bk_datagrams :: "(MulticastType \<times> string) list"
  bk_wire :: "(char \<times> string list) list"
  bk_crashed :: bool

definition MAX_UDP_PACKET_SIZE :: nat where "MAX_UDP_PACKET_SIZE = 65507"
definition MAX_DECOMPRESSED_MSG_SIZE :: nat where "MAX_DECOMPRESSED_MSG_SIZE = 104857600"

section \<open>Multicast\<close>

text \<open>What is handed to \<open>sendto\<close>: the compressed message, or the message itself when it is short or
  cannot be compressed into the buffer.\<close>

definition encode_datagram :: "backend \<Rightarrow> string \<Rightarrow> (string, string \<times> string) cres" where
  "encode_datagram b command =
     ZstdCompress_array (zstd_cctx b) command (compressed_msg_buf b) MAX_UDP_PACKET_SIZE
       (compression_threshold b) (compression_level b)"

text \<open>\<open>sendto_ok\<close>: whether the kernel takes the datagram. The result, the error text and the state.\<close>

definition SendMulticast ::
    "(MulticastType \<Rightarrow> string \<Rightarrow> bool) \<Rightarrow> MulticastType \<Rightarrow> string \<Rightarrow> backend \<Rightarrow> bool \<times> string \<times> backend" where
  "SendMulticast sendto_ok type command b =
     (let multicast_socket = (if type = Log then log_socket b else mon_socket b) in
      if multicast_socket < 0 then (False, ''socket closed'', b)
      else case encode_datagram b command of
        Ok (out, warning) \<Rightarrow>
          if MAX_UDP_PACKET_SIZE < length out then
            (False, ''Error: message exceeds maximum bytes of '' @ nat_str MAX_UDP_PACKET_SIZE, b)
          else if \<not> sendto_ok type out then (False, ''Error sending multicast message: '', b)
          else (True, [], b\<lparr>bk_datagrams := bk_datagrams b @ [(type, out)]\<rparr>)
      | _ \<Rightarrow> (False, [], b\<lparr>bk_crashed := True\<rparr>))"

text \<open>The contract a client of the multicast sender relies on: a message that is reported as sent has
  put exactly one datagram on the wire, of its own kind and of legal size; one that is reported
  as failed has put none.\<close>

locale multicast =
  fixes send :: "MulticastType \<Rightarrow> string \<Rightarrow> 'b \<Rightarrow> bool \<times> string \<times> 'b"
    and wire :: "'b \<Rightarrow> (MulticastType \<times> string) list"
    and encoded :: "'b \<Rightarrow> string \<Rightarrow> string"
    and settings :: "'b \<Rightarrow> 's"
  assumes sent: "send t m b = (True, e, b') \<Longrightarrow>
      wire b' = wire b @ [(t, encoded b m)] \<and> length (encoded b m) \<le> 65507"
    and not_sent: "send t m b = (False, e, b') \<Longrightarrow> wire b' = wire b"
    and keeps_settings: "settings (snd (snd (send t m b))) = settings b"
begin

lemma wire_grows:
  "wire (snd (snd (send t m b))) = wire b @ (if fst (send t m b) then [(t, encoded b m)] else [])"
  using sent [of t m b] not_sent [of t m b]
  by (cases "send t m b") (auto split: if_splits)

lemma wire_prefix: "\<exists>ds. wire (snd (snd (send t m b))) = wire b @ ds \<and> (\<forall>d \<in> set ds. fst d = t)"
  unfolding wire_grows by auto

end

definition encoded_text :: "backend \<Rightarrow> string \<Rightarrow> string" where
  "encoded_text b m = (case encode_datagram b m of Ok (out, w) \<Rightarrow> out | _ \<Rightarrow> [])"

definition backend_settings :: "backend \<Rightarrow> int \<times> nat \<times> bool \<times> int \<times> int" where
  "backend_settings b = (compression_level b, compression_threshold b, compressed_msg_buf b,
     log_socket b, mon_socket b)"

interpretation bmc: multicast "SendMulticast sendto_ok" bk_datagrams encoded_text backend_settings
proof
  fix t m b e b'
  assume "SendMulticast sendto_ok t m b = (True, e, b')"
  then show "bk_datagrams b' = bk_datagrams b @ [(t, encoded_text b m)]
      \<and> length (encoded_text b m) \<le> 65507"
    by (auto simp: SendMulticast_def encoded_text_def Let_def MAX_UDP_PACKET_SIZE_def
        split: cres.splits if_splits prod.splits)
next
  fix t m b e b'
  assume "SendMulticast sendto_ok t m b = (False, e, b')"
  then show "bk_datagrams b' = bk_datagrams b"
    by (auto simp: SendMulticast_def Let_def split: cres.splits if_splits prod.splits)
next
  fix t m b
  show "backend_settings (snd (snd (SendMulticast sendto_ok t m b))) = backend_settings b"
    by (simp add: SendMulticast_def Let_def backend_settings_def split: cres.split prod.split)
qed

section \<open>Sending and receiving message parts\<close>

text \<open>What \<open>zmq::poll\<close> did: threw or failed, saw no socket, or returned with the wanted event or not. What
  one \<open>send\<close> of a part did: took it, could not, or threw.\<close>

datatype poll_outcome = PollError | PollTimeout | PollReturned bool
datatype send_outcome = PartSent | PartRefused | PartThrew

text \<open>\<open>Send\<close> of several parts, each but the last with \<open>ZMQ_SNDMORE\<close>: the outcome of the last part
  tried and the parts that went out.\<close>

fun Send :: "(nat \<Rightarrow> send_outcome) \<Rightarrow> nat \<Rightarrow> string list \<Rightarrow> send_outcome \<times> string list" where
  "Send sock i [] = (PartSent, [])"
| "Send sock i (part # rest) =
     (if sock i = PartSent then
        let (result, out) = Send sock (i + 1) rest in (result, part # out)
      else (sock i, []))"

text \<open>\<open>None\<close>: the exception of \<open>send\<close> leaves the function.\<close>

definition PollAndSend ::
    "poll_outcome \<Rightarrow> (nat \<Rightarrow> send_outcome) \<Rightarrow> string list \<Rightarrow> int option \<times> string list" where
  "PollAndSend poll sock parts =
     (case poll of
        PollError \<Rightarrow> (Some (-3), [])
      | PollTimeout \<Rightarrow> (Some (-4), [])
      | PollReturned pollout \<Rightarrow>
          if pollout then
            (case Send sock 0 parts of
               (PartSent, out) \<Rightarrow> (Some 0, out)
             | (PartRefused, out) \<Rightarrow> (Some (-1), out)
             | (PartThrew, out) \<Rightarrow> (None, out))
          else (Some (-2), []))"

text \<open>The parts the socket delivers before \<open>recv\<close> fails, each with its \<open>more\<close> flag. The parts received
  and whether the message was complete; \<open>Fault\<close> when \<open>outputs.back()\<close> is taken of no parts.\<close>

fun Receive :: "(string \<times> bool) list \<Rightarrow> string list \<Rightarrow> bool \<Rightarrow> (string, string list \<times> bool) cres" where
  "Receive [] outputs last_more = (if outputs = [] then Fault else Ok (outputs, \<not> last_more))"
| "Receive ((part, has_more) # stream) outputs last_more =
     (if has_more then Receive stream (outputs @ [part]) True else Ok (outputs @ [part], True))"

definition PollAndReceive ::
    "poll_outcome \<Rightarrow> (string \<times> bool) list \<Rightarrow> (string, int \<times> string list) cres" where
  "PollAndReceive poll stream =
     (case poll of
        PollError \<Rightarrow> Ok (-3, [])
      | PollReturned True \<Rightarrow>
          cbind (Receive stream [] False) (\<lambda>(outputs, complete).
            Ok (if complete then 0 else -1, outputs))
      | _ \<Rightarrow> Ok (-2, []))"

section \<open>The background thread\<close>

text \<open>A 32-bit message identifier as the four bytes of a message part, and read from one.\<close>

definition id_part :: "u32 \<Rightarrow> string" where
  "id_part i = string_of_bytes (le_bytes 4 (unat i))"

definition read_u32 :: "string \<Rightarrow> (string, u32) cres" where
  "read_u32 part = cbind (rd (bytes_of_string part) 0 4) (\<lambda>v. Ok (of_nat v))"

text \<open>The parts of a command on the wire: a write goes to the pub socket with the client's identity, a
  read to the dealer socket, which adds it.\<close>

definition command_parts :: "backend \<Rightarrow> Command \<Rightarrow> string list" where
  "command_parts b cmd =
     (if cmd_type cmd = CHR ''w''
      then [cmd_topic cmd, clt_ID b, id_part (cmd_msg_id cmd), cmd_command cmd]
      else [cmd_topic cmd, id_part (cmd_msg_id cmd), cmd_command cmd])"

text \<open>The state after one turn, and the ticket it redeemed with the value given to its promise.\<close>

definition SendNextCommand ::
    "poll_outcome \<Rightarrow> (nat \<Rightarrow> send_outcome) \<Rightarrow> backend \<Rightarrow> backend \<times> (nat \<times> int) option" where
  "SendNextCommand poll sock b =
     (case waiting_senders b of
        [] \<Rightarrow> (b, None)
      | (front, send_ticket) # queue \<Rightarrow>
          let cmd = fst (Command_move front);
              (sent, out) = PollAndSend poll sock (command_parts b cmd);
              ret = (case sent of Some r \<Rightarrow> r | None \<Rightarrow> 0)
          in (b\<lparr>waiting_senders := queue,
                bk_wire := (if out = [] then bk_wire b else bk_wire b @ [(cmd_type cmd, out)])\<rparr>,
              Some (send_ticket, ret)))"

text \<open>The payload parts of a response: each is expanded; on a failed command the text is the error.\<close>

fun collect_parts :: "decompress_fun option \<Rightarrow> string list \<Rightarrow> Command \<Rightarrow> (string, Command) cres" where
  "collect_parts dctx [] cmd = Ok cmd"
| "collect_parts dctx (part # parts) cmd =
     (case ZstdDecompress dctx part MAX_DECOMPRESSED_MSG_SIZE of
        Fault \<Rightarrow> Fault
      | Err e \<Rightarrow> Err e
      | Ok (decompress_ok, text) \<Rightarrow>
          if \<not> decompress_ok then Ok (cmd\<lparr>cmd_success := 0, cmd_err := text\<rparr>)
          else if cmd_success cmd \<noteq> 0 then
            collect_parts dctx parts (cmd\<lparr>cmd_response := cmd_response cmd @ [text], cmd_err := []\<rparr>)
          else collect_parts dctx parts (cmd\<lparr>cmd_err := text\<rparr>))"

text \<open>From the parts of one message to the identifier it answers and the response it carries.\<close>

definition parse_response ::
    "decompress_fun option \<Rightarrow> bool \<Rightarrow> string list \<Rightarrow> (string, u32 \<times> Command) cres" where
  "parse_response dctx incomplete response =
     (let cmd = (if incomplete \<or> length response < 2
                 then Command_default\<lparr>cmd_success := 0, cmd_err := ''Received incomplete zmq response''\<rparr>
                 else Command_default)
      in cbind (read_u32 (response ! 0)) (\<lambda>message_id_rcvd.
         cbind (if 1 < length response then
                  cbind (read_u32 (response ! 1)) (\<lambda>success. Ok (cmd\<lparr>cmd_success := success\<rparr>))
                else Ok cmd) (\<lambda>cmd.
         cbind (collect_parts dctx (drop 2 response) cmd) (\<lambda>cmd.
           Ok (message_id_rcvd, cmd)))))"

text \<open>What the receiving turn saw: an exception, or the poll and the parts on the socket. Its result, the
  state after it, and the ticket it redeemed.\<close>

datatype receive_outcome = ReceiveThrew | Received poll_outcome "(string \<times> bool) list"

definition GetNextResponse ::
    "receive_outcome \<Rightarrow> backend \<Rightarrow> (string, bool \<times> backend \<times> (nat \<times> Command) option) cres" where
  "GetNextResponse input b =
     (case input of
        ReceiveThrew \<Rightarrow> Ok (False, b, None)
      | Received poll stream \<Rightarrow>
          cbind (PollAndReceive poll stream) (\<lambda>(ret, response).
            if ret = -2 then Ok (True, b, None)
            else if ret = -3 then Ok (False, b, None)
            else if response = [] then Ok (False, b, None)
            else cbind (parse_response (zstd_dctx b) (ret = -1) response) (\<lambda>(message_id_rcvd, cmd).
              case waiting_recipients b message_id_rcvd of
                Some ticket \<Rightarrow>
                  Ok (True, b\<lparr>waiting_recipients := (waiting_recipients b)(message_id_rcvd := None)\<rparr>,
                      Some (ticket, Command_copy cmd))
              | None \<Rightarrow> Ok (False, b, None))))"

section \<open>Calls\<close>

text \<open>The check of the topic, and the command it makes; an empty topic or one of neither kind is refused
  before anything is queued.\<close>

definition to_lower :: "char \<Rightarrow> char" where
  "to_lower c = (if 65 \<le> (of_char c :: nat) \<and> (of_char c :: nat) \<le> 90
                 then char_of ((of_char c :: nat) + 32) else c)"

definition prepare_command ::
    "string \<Rightarrow> string \<Rightarrow> u32 \<Rightarrow> backend \<Rightarrow> (string, Command \<times> u32) cres" where
  "prepare_command topic command timeout_ms b =
     (let timeout = (if timeout_ms \<noteq> 0 then timeout_ms else command_timeout b) in
      if topic = [] then
        Err (''ServicesBackend::SendCommand received empty topic for command '' @ [CHR 0x27]
             @ command @ [CHR 0x27])
      else let type = to_lower (hd topic) in
      if type \<noteq> CHR ''r'' \<and> type \<noteq> CHR ''w'' then
        Err (''ServicesBackend::SendCommand received invalid topic for command '' @ [CHR 0x27] @ command
             @ [CHR 0x27] @ ''; please prefix with '' @ [CHR 0x27] @ ''r_'' @ [CHR 0x27] @ '' or ''
             @ [CHR 0x27] @ ''w_'' @ [CHR 0x27] @ '' to indicate socket type to use'')
      else cbind (encode_datagram b command) (\<lambda>(out, warning).
        Ok (Command_new out type topic timeout, timeout)))"

text \<open>\<open>DoCommand\<close> up to its first wait: a new identifier, the ticket for the response registered before
  the command is queued for sending.\<close>

definition submit_command :: "Command \<Rightarrow> nat \<Rightarrow> backend \<Rightarrow> Command \<times> backend" where
  "submit_command cmd ticket b =
     (let thismsgid = msg_id b + 1;
          cmd = cmd\<lparr>cmd_msg_id := thismsgid\<rparr>;
          recipients = (case waiting_recipients b thismsgid of
                          None \<Rightarrow> (waiting_recipients b)(thismsgid \<mapsto> ticket)
                        | Some t \<Rightarrow> waiting_recipients b)
      in (cmd, b\<lparr>msg_id := thismsgid, waiting_recipients := recipients,
                 waiting_senders := waiting_senders b @ [(Command_copy cmd, ticket)]\<rparr>))"

definition count_failure :: "Command \<Rightarrow> backend \<Rightarrow> backend" where
  "count_failure cmd b =
     (if cmd_type cmd = CHR ''w'' then b\<lparr>write_commands_failed := write_commands_failed b + 1\<rparr>
      else if cmd_type cmd = CHR ''r'' then b\<lparr>read_commands_failed := read_commands_failed b + 1\<rparr>
      else b)"

definition deregister :: "Command \<Rightarrow> backend \<Rightarrow> backend" where
  "deregister cmd b = b\<lparr>waiting_recipients := (waiting_recipients b)(cmd_msg_id cmd := None)\<rparr>"

text \<open>What the wait for the sending brought: nothing in time, a return code after some milliseconds, or the
  exception of a promise that was destroyed.\<close>

datatype send_wait = SendTimedOut | SendReported int nat | SendBroken

definition send_error :: "int \<Rightarrow> string" where
  "send_error ret =
     (if ret = -4 then ''No connection on out socket in PollAndSend!''
      else if ret = -3 then ''Error polling out socket in PollAndSend! Is socket closed?''
      else if ret = -2 then ''No listener on out socket in PollAndSend!''
      else if ret = -1 then ''Error sending in PollAndSend!''
      else [])"

datatype call_state = Finished bool Command | AwaitResponse Command nat | Thrown

definition after_send :: "nat \<Rightarrow> send_wait \<Rightarrow> Command \<Rightarrow> backend \<Rightarrow> call_state \<times> backend" where
  "after_send timeout_ms outcome cmd b =
     (let timed_out = (Finished False (cmd\<lparr>cmd_success := 0, cmd_err := ''Timed out sending command''\<rparr>),
                       deregister cmd (count_failure cmd b))
      in case outcome of
        SendTimedOut \<Rightarrow> timed_out
      | SendBroken \<Rightarrow> (Thrown, b)
      | SendReported ret send_time_ms \<Rightarrow>
          if timeout_ms < send_time_ms then timed_out
          else if ret \<noteq> 0 then
            (Finished False (cmd\<lparr>cmd_success := 0, cmd_err := send_error ret\<rparr>),
             deregister cmd (count_failure cmd b))
          else (AwaitResponse cmd (timeout_ms - send_time_ms), b))"

text \<open>What the wait for the response brought: nothing in time, the response, or an exception (a broken
  promise) with its text.\<close>

datatype response_wait = ResponseTimedOut | ResponseArrived Command | ResponseThrew string

definition after_response :: "response_wait \<Rightarrow> Command \<Rightarrow> backend \<Rightarrow> bool \<times> Command \<times> backend" where
  "after_response outcome cmd b =
     (case outcome of
        ResponseTimedOut \<Rightarrow>
          (False, cmd\<lparr>cmd_success := 0, cmd_err := ''Timed out waiting for response''\<rparr>,
           count_failure cmd b)
      | ResponseArrived response \<Rightarrow> (True, fst (Command_assign cmd response False), b)
      | ResponseThrew what \<Rightarrow> (False, cmd\<lparr>cmd_success := 0, cmd_err := what\<rparr>, b))"

text \<open>A whole call. \<open>during_send\<close> and \<open>during_response\<close> are what the other threads do to the state during
  the two waits; \<open>None\<close> is an exception.\<close>

definition DoCommand ::
    "(backend \<Rightarrow> backend) \<Rightarrow> send_wait \<Rightarrow> (backend \<Rightarrow> backend) \<Rightarrow> response_wait \<Rightarrow> nat
      \<Rightarrow> Command \<Rightarrow> nat \<Rightarrow> backend \<Rightarrow> (bool \<times> Command) option \<times> backend" where
  "DoCommand during_send sent during_response arrived ticket cmd timeout_ms b =
     (let (cmd, b) = submit_command cmd ticket b in
      case after_send timeout_ms sent cmd (during_send b) of
        (Finished ok cmd, b) \<Rightarrow> (Some (ok, cmd), b)
      | (Thrown, b) \<Rightarrow> (None, b)
      | (AwaitResponse cmd timeout_left, b) \<Rightarrow>
          let (ok, cmd, b) = after_response arrived cmd (during_response b) in (Some (ok, cmd), b))"

text \<open>The environment of one call, and the two public interfaces: success, results, error text, state.\<close>

record call_env =
  ce_during_send :: "backend \<Rightarrow> backend"
  ce_sent :: send_wait
  ce_during_response :: "backend \<Rightarrow> backend"
  ce_arrived :: response_wait
  ce_ticket :: nat

definition SendCommand_vector ::
    "call_env \<Rightarrow> string \<Rightarrow> string \<Rightarrow> u32 \<Rightarrow> backend \<Rightarrow> bool \<times> string list \<times> string \<times> backend" where
  "SendCommand_vector env topic command timeout_ms b =
     (case prepare_command topic command timeout_ms b of
        Fault \<Rightarrow> (False, [], [], b\<lparr>bk_crashed := True\<rparr>)
      | Err errmsg \<Rightarrow> (False, [], errmsg, b)
      | Ok (cmd, timeout) \<Rightarrow>
          (case DoCommand (ce_during_send env) (ce_sent env) (ce_during_response env)
                  (ce_arrived env) (ce_ticket env) cmd (unat timeout) b of
             (None, b) \<Rightarrow> (False, [], [], b)
           | (Some (ok, cmd), b) \<Rightarrow> (cmd_success cmd \<noteq> 0, cmd_response cmd, cmd_err cmd, b)))"

text \<open>The single-part interface: the caller's string (\<open>results\<close>) is set only when a part came; more than
  one part is an error.\<close>

definition SendCommand ::
    "call_env \<Rightarrow> string \<Rightarrow> string \<Rightarrow> string \<Rightarrow> u32 \<Rightarrow> backend \<Rightarrow> bool \<times> string \<times> string \<times> backend" where
  "SendCommand env topic command results timeout_ms b =
     (let (ret, resultsvec, err, b) = SendCommand_vector env topic command timeout_ms b;
          results = (if resultsvec \<noteq> [] then hd resultsvec else results)
      in if 1 < length resultsvec then
           (False, results, err @ ''. Command returned '' @ nat_str (length resultsvec) @ '' parts!'', b)
         else (ret, results, err, b))"

section \<open>What the backend guarantees\<close>

lemma ZstdCompress_to_sends:
  assumes "ZstdCompress_to (Some c) target msg threshold level = Ok (sent, err)"
  shows "sent = msg \<or> (\<exists>cap code out. c msg cap level = (code, out) \<and> \<not> ZSTD_isError code
    \<and> sent = take (unat code) out)"
  using assms run_compress_sends [of c msg _ level sent err]
  by (auto simp: ZstdCompress_to_def Let_def split: if_splits compress_target.splits)

text \<open>C5: a multicast that is reported as sent put exactly one datagram on the wire, of the kind asked for, of
  at most the 65507 bytes UDP carries, and a receiver that expands it gets the message; a
  multicast that is reported as failed put none.\<close>
theorem multicast_delivers:
  assumes "zstd_cctx b = Some compress" and "codec_contract compress decompress msg"
    and "length msg \<le> MAX_DECOMPRESSED_MSG_SIZE" and "\<not> looks_compressed msg"
  shows "(case SendMulticast sendto_ok type msg b of
      (True, err, b') \<Rightarrow> \<exists>d. bk_datagrams b' = bk_datagrams b @ [(type, d)] \<and> length d \<le> MAX_UDP_PACKET_SIZE
        \<and> ZstdDecompress (Some decompress) d MAX_DECOMPRESSED_MSG_SIZE = Ok (True, msg)
    | (False, err, b') \<Rightarrow> b' = b)"
proof -
  have dec: "ZstdDecompress (Some decompress) d MAX_DECOMPRESSED_MSG_SIZE = Ok (True, msg)"
    if "encode_datagram b msg = Ok (d, w)" for d w
  proof (rule sent_decodes [OF assms(2,3) _ assms(4)])
    show "MAX_DECOMPRESSED_MSG_SIZE \<le> DEFAULT_MAX_DECOMPRESSED_SIZE"
      by (simp add: MAX_DECOMPRESSED_MSG_SIZE_def DEFAULT_MAX_DECOMPRESSED_SIZE_def)
    show "d = msg \<or> (\<exists>cap level code out. compress msg cap level = (code, out)
        \<and> \<not> ZSTD_isError code \<and> d = take (unat code) out)"
      using ZstdCompress_to_sends that assms(1)
      unfolding encode_datagram_def ZstdCompress_array_def by metis
  qed
  have total: "\<exists>d w. encode_datagram b msg = Ok (d, w)"
    using run_compress_total [of compress msg MAX_UDP_PACKET_SIZE "compression_level b"] assms(1)
    by (auto simp: encode_datagram_def ZstdCompress_array_def ZstdCompress_to_def Let_def)
  then obtain d w where e: "encode_datagram b msg = Ok (d, w)" by blast
  show ?thesis
    using dec [OF e] e by (simp add: SendMulticast_def Let_def not_less)
qed

definition demo_backend :: backend where
  "demo_backend =
     \<lparr>clt_pub_port = 55556, clt_dlr_port = 55555, clt_ID = ''demo'' @ [CHR 0x00],
      inpoll_timeout = 500, command_timeout = 300, clt_pub_socket = True, clt_dlr_socket = True,
      monitor_socket = True, pub_connected_locked = True, log_socket = 7, mon_socket = 8,
      advertised = [(''db_write'', 55556), (''db_read'', 55555)], waiting_senders = [],
      waiting_recipients = Map.empty, msg_id = 41, write_commands_failed = 0,
      read_commands_failed = 0, zstd_cctx = Some demo_compress, zstd_dctx = Some demo_decompress,
      compressed_msg_buf = True, compression_level = 1, compression_threshold = 50,
      bk_datagrams = [], bk_wire = [], bk_crashed = False\<rparr>"

lemma demo_backend_fields:
  "zstd_cctx demo_backend = Some demo_compress" "bk_datagrams demo_backend = []"
  by (simp_all add: demo_backend_def)

lemma multicast_delivers_witness:
  "(case SendMulticast (\<lambda>_ _. True) Monitoring demo_msg demo_backend of
      (True, err, b') \<Rightarrow> \<exists>d. bk_datagrams b' = bk_datagrams demo_backend @ [(Monitoring, d)]
        \<and> length d \<le> MAX_UDP_PACKET_SIZE
        \<and> ZstdDecompress (Some demo_decompress) d MAX_DECOMPRESSED_MSG_SIZE = Ok (True, demo_msg)
    | (False, err, b') \<Rightarrow> b' = demo_backend)"
  using multicast_delivers [where b = demo_backend and compress = demo_compress
      and decompress = demo_decompress and msg = demo_msg and type = Monitoring
      and sendto_ok = "\<lambda>_ _. True"]
  by (simp add: demo_contract demo_msg_length demo_msg_plain MAX_DECOMPRESSED_MSG_SIZE_def demo_backend_fields)

text \<open>A multicast without a compression context crashes as soon as the message reaches the threshold.\<close>

lemma multicast_without_context:
  assumes "zstd_cctx b = None" and "\<not> compressed_msg_buf b" and "0 \<le> log_socket b"
    and "compression_threshold b \<le> length msg" and "length msg < 2 ^ 63"
  shows "bk_crashed (snd (snd (SendMulticast sendto_ok Log msg b)))"
proof -
  let ?n = "of_nat (length msg) :: u64"
  have n: "unat ?n = length msg"
    using assms(5) by (simp add: unat_of_nat)
  have lt: "?n < ZSTD_MAX_INPUT_SIZE"
    using assms(5) n by (simp add: word_less_nat_alt ZSTD_MAX_INPUT_SIZE_def)
  have "unat (ZSTD_COMPRESSBOUND ?n) \<le> length msg + length msg div 256 + 64"
    using unat_COMPRESSBOUND [OF lt] bound_nat_mono_le n by simp
  moreover have "unat (ZSTD_COMPRESSBOUND ?n) \<noteq> 0"
    using unat_COMPRESSBOUND [OF lt] bound_nat_pos [of "unat ?n"] by linarith
  ultimately have "\<not> ZSTD_isError (ZSTD_compressBound ?n)"
    using assms(5) by (auto simp: ZSTD_isError_iff ZSTD_compressBound_def Let_def)
  then show ?thesis
    using assms by (simp add: SendMulticast_def Let_def encode_datagram_def ZstdCompress_array_def
        ZstdCompress_to_def run_compress_def)
qed

end
