(* ===== verification/BackendProtocol.thy ===== *)
theory BackendProtocol
  imports ServicesBackend
begin

text \<open>
  The calls of \<open>ServicesBackend\<close> as a protocol: any number of client threads, each between its
  submission and its return, and the background thread that sends the queued commands one per
  turn and deals the responses out. An event is one atomic section of the code (a critical
  section under \<open>send_queue_mutex\<close>, or one turn of the background loop); events of different
  threads interleave freely. Tickets (promises) are numbered by call.
\<close>

section \<open>States and events\<close>

datatype call =
    Sending Command nat \<comment> \<open>waiting for the send ticket, milliseconds allowed\<close>
  | Waiting Command nat \<comment> \<open>waiting for the response ticket\<close>
  | Returned bool Command
  | Aborted

record net =
  n_backend :: backend
  n_next :: nat
  n_calls :: "nat \<rightharpoonup> call"
  n_send_tickets :: "nat \<rightharpoonup> int"
  n_response_tickets :: "nat \<rightharpoonup> Command"
  n_taken :: "nat list"
  n_answers :: "(u32 \<times> Command) list"

datatype event =
    Submit Command nat
  | SendTurn poll_outcome "nat \<Rightarrow> send_outcome"
  | ReceiveTurn receive_outcome
  | SendConfirmed nat nat
  | SendTimeout nat
  | ResponseDelivered nat
  | ResponseTimeout nat

text \<open>What a receiving turn decodes from the socket, before it looks for a recipient.\<close>

definition decode_input :: "backend \<Rightarrow> receive_outcome \<Rightarrow> (u32 \<times> Command) option" where
  "decode_input b input =
     (case input of
        ReceiveThrew \<Rightarrow> None
      | Received poll stream \<Rightarrow>
          (case PollAndReceive poll stream of
             Ok (ret, response) \<Rightarrow>
               if ret = -2 \<or> ret = -3 \<or> response = [] then None
               else (case parse_response (zstd_dctx b) (ret = -1) response of
                       Ok r \<Rightarrow> Some r | _ \<Rightarrow> None)
           | _ \<Rightarrow> None))"

definition finish :: "net \<Rightarrow> nat \<Rightarrow> call_state \<times> backend \<Rightarrow> net" where
  "finish n t r =
     n\<lparr>n_backend := snd r,
       n_calls := (n_calls n)(t \<mapsto> (case fst r of Finished ok cmd \<Rightarrow> Returned ok cmd
                                      | AwaitResponse cmd ms \<Rightarrow> Waiting cmd ms | Thrown \<Rightarrow> Aborted))\<rparr>"

fun net_step :: "event \<Rightarrow> net \<Rightarrow> net option" where
  "net_step (Submit cmd timeout_ms) n =
     (let (cmd, b) = submit_command cmd (n_next n) (n_backend n)
      in Some (n\<lparr>n_backend := b, n_next := n_next n + 1,
                 n_calls := (n_calls n)(n_next n \<mapsto> Sending cmd timeout_ms)\<rparr>))"
| "net_step (SendTurn poll sock) n =
     (case SendNextCommand poll sock (n_backend n) of
        (b, None) \<Rightarrow> Some (n\<lparr>n_backend := b\<rparr>)
      | (b, Some (t, ret)) \<Rightarrow>
          Some (n\<lparr>n_backend := b, n_send_tickets := (n_send_tickets n)(t \<mapsto> ret),
                  n_taken := n_taken n @ [t]\<rparr>))"
| "net_step (ReceiveTurn input) n =
     (case GetNextResponse input (n_backend n) of
        Ok (ok, b, delivered) \<Rightarrow>
          Some (n\<lparr>n_backend := b,
                  n_response_tickets := (case delivered of None \<Rightarrow> n_response_tickets n
                                         | Some (t, cmd) \<Rightarrow> (n_response_tickets n)(t \<mapsto> cmd)),
                  n_answers := n_answers n @ (case decode_input (n_backend n) input of
                                                None \<Rightarrow> [] | Some a \<Rightarrow> [a])\<rparr>)
      | _ \<Rightarrow> None)"
| "net_step (SendConfirmed t ms) n =
     (case (n_calls n t, n_send_tickets n t) of
        (Some (Sending cmd timeout_ms), Some ret) \<Rightarrow>
          Some (finish n t (after_send timeout_ms (SendReported ret ms) cmd (n_backend n)))
      | _ \<Rightarrow> None)"
| "net_step (SendTimeout t) n =
     (case n_calls n t of
        Some (Sending cmd timeout_ms) \<Rightarrow>
          Some (finish n t (after_send timeout_ms SendTimedOut cmd (n_backend n)))
      | _ \<Rightarrow> None)"
| "net_step (ResponseDelivered t) n =
     (case (n_calls n t, n_response_tickets n t) of
        (Some (Waiting cmd ms), Some response) \<Rightarrow>
          (let (ok, cmd, b) = after_response (ResponseArrived response) cmd (n_backend n)
           in Some (n\<lparr>n_backend := b, n_calls := (n_calls n)(t \<mapsto> Returned ok cmd)\<rparr>))
      | _ \<Rightarrow> None)"
| "net_step (ResponseTimeout t) n =
     (case n_calls n t of
        Some (Waiting cmd ms) \<Rightarrow>
          (let (ok, cmd, b) = after_response ResponseTimedOut cmd (n_backend n)
           in Some (n\<lparr>n_backend := b, n_calls := (n_calls n)(t \<mapsto> Returned ok cmd)\<rparr>))
      | _ \<Rightarrow> None)"

definition net_init :: "backend \<Rightarrow> net" where
  "net_init b = \<lparr>n_backend = b, n_next = 0, n_calls = Map.empty, n_send_tickets = Map.empty,
     n_response_tickets = Map.empty, n_taken = [], n_answers = []\<rparr>"

text \<open>A backend just initialised: nothing queued, nobody waiting.\<close>

definition fresh :: "backend \<Rightarrow> bool" where
  "fresh b \<longleftrightarrow> waiting_senders b = [] \<and> waiting_recipients b = Map.empty"

inductive net_reach :: "backend \<Rightarrow> net \<Rightarrow> bool" for b0 where
  start: "fresh b0 \<Longrightarrow> net_reach b0 (net_init b0)"
| step: "\<lbrakk>net_reach b0 n; net_step ev n = Some n'\<rbrakk> \<Longrightarrow> net_reach b0 n'"

section \<open>Facts about the operations\<close>

lemma GetNextResponse_cases:
  assumes "GetNextResponse input b = Ok (ok, b', d)"
  shows "(d = None \<and> b' = b) \<or> (\<exists>i t cmd. d = Some (t, cmd) \<and> decode_input b input = Some (i, cmd)
      \<and> waiting_recipients b i = Some t
      \<and> b' = b\<lparr>waiting_recipients := (waiting_recipients b)(i := None)\<rparr>)"
  using assms
  by (cases input) (auto simp: GetNextResponse_def decode_input_def cbind_eq_Ok
      split: if_splits option.splits prod.splits)

lemma SendNextCommand_cases:
  "SendNextCommand poll sock b =
     (case waiting_senders b of [] \<Rightarrow> (b, None)
      | (cmd, t) # q \<Rightarrow> (fst (SendNextCommand poll sock b), snd (SendNextCommand poll sock b)))"
  by (simp add: SendNextCommand_def split: list.split)

lemma SendNextCommand_Some:
  assumes "SendNextCommand poll sock b = (b', Some (t, ret))"
  shows "\<exists>cmd. waiting_senders b = (cmd, t) # waiting_senders b'
    \<and> waiting_recipients b' = waiting_recipients b \<and> msg_id b' = msg_id b"
  using assms by (auto simp: SendNextCommand_def Let_def split: list.splits prod.splits)

lemma SendNextCommand_None: "SendNextCommand poll sock b = (b', None) \<Longrightarrow> b' = b"
  by (auto simp: SendNextCommand_def Let_def split: list.splits prod.splits)

lemma count_failure_simps [simp]:
  "waiting_senders (count_failure cmd b) = waiting_senders b"
  "waiting_recipients (count_failure cmd b) = waiting_recipients b"
  "msg_id (count_failure cmd b) = msg_id b"
  by (simp_all add: count_failure_def)

lemma deregister_simps [simp]:
  "waiting_senders (deregister cmd b) = waiting_senders b"
  "waiting_recipients (deregister cmd b) = (waiting_recipients b)(cmd_msg_id cmd := None)"
  "msg_id (deregister cmd b) = msg_id b"
  by (simp_all add: deregister_def)

lemma after_send_backend:
  assumes "after_send timeout_ms outcome cmd b = (r, b')"
  shows "waiting_senders b' = waiting_senders b \<and> msg_id b' = msg_id b
    \<and> waiting_recipients b' \<in> {waiting_recipients b, (waiting_recipients b)(cmd_msg_id cmd := None)}"
  using assms by (auto simp: after_send_def Let_def split: send_wait.splits if_splits)

lemma after_send_command:
  "after_send timeout_ms outcome cmd b = (r, b') \<Longrightarrow>
     (case r of Finished ok c \<Rightarrow> \<not> ok \<and> cmd_msg_id c = cmd_msg_id cmd
      | AwaitResponse c ms \<Rightarrow> c = cmd | Thrown \<Rightarrow> True)"
  by (auto simp: after_send_def Let_def split: send_wait.splits if_splits)

section \<open>The invariant\<close>

text \<open>The identifier of call number \<open>t\<close>: the counter wraps at 32 bits, the number of the call does not.\<close>

definition id_of :: "backend \<Rightarrow> nat \<Rightarrow> u32" where
  "id_of b0 t = msg_id b0 + of_nat t + 1"

definition call_ok :: "backend \<Rightarrow> nat \<Rightarrow> call \<Rightarrow> bool" where
  "call_ok b0 t c =
     (case c of Sending cmd ms \<Rightarrow> cmd_msg_id cmd = id_of b0 t
      | Waiting cmd ms \<Rightarrow> cmd_msg_id cmd = id_of b0 t
      | _ \<Rightarrow> True)"

definition recipients_ok :: "backend \<Rightarrow> nat \<Rightarrow> (u32 \<rightharpoonup> nat) \<Rightarrow> bool" where
  "recipients_ok b0 k r \<longleftrightarrow> (\<forall>i t. r i = Some t \<longrightarrow> t < k \<and> i = id_of b0 t)"

definition calls_ok :: "backend \<Rightarrow> nat \<Rightarrow> (nat \<rightharpoonup> call) \<Rightarrow> bool" where
  "calls_ok b0 k cs \<longleftrightarrow> (\<forall>t c. cs t = Some c \<longrightarrow> t < k \<and> call_ok b0 t c)"

definition queue_ok :: "backend \<Rightarrow> nat \<Rightarrow> nat list \<Rightarrow> (Command \<times> nat) list \<Rightarrow> bool" where
  "queue_ok b0 k taken q \<longleftrightarrow>
     sorted_wrt (<) (taken @ map snd q) \<and> (\<forall>t \<in> set (taken @ map snd q). t < k)
     \<and> (\<forall>(cmd, t) \<in> set q. cmd_msg_id cmd = id_of b0 t)"

definition answers_ok :: "backend \<Rightarrow> (nat \<rightharpoonup> Command) \<Rightarrow> (u32 \<times> Command) list \<Rightarrow> bool" where
  "answers_ok b0 r answers \<longleftrightarrow> (\<forall>t cmd. r t = Some cmd \<longrightarrow> (id_of b0 t, cmd) \<in> set answers)"

text \<open>A call that returned a response returned one that came over the wire under its own identifier.\<close>

definition returned_ok :: "backend \<Rightarrow> (nat \<rightharpoonup> call) \<Rightarrow> (u32 \<times> Command) list \<Rightarrow> bool" where
  "returned_ok b0 cs answers \<longleftrightarrow>
     (\<forall>t cmd. cs t = Some (Returned True cmd) \<longrightarrow> (id_of b0 t, cmd) \<in> set answers)"

definition net_inv :: "backend \<Rightarrow> net \<Rightarrow> bool" where
  "net_inv b0 n \<longleftrightarrow>
     msg_id (n_backend n) = msg_id b0 + of_nat (n_next n)
     \<and> recipients_ok b0 (n_next n) (waiting_recipients (n_backend n))
     \<and> calls_ok b0 (n_next n) (n_calls n)
     \<and> queue_ok b0 (n_next n) (n_taken n) (waiting_senders (n_backend n))
     \<and> answers_ok b0 (n_response_tickets n) (n_answers n)
     \<and> returned_ok b0 (n_calls n) (n_answers n)"

lemma recipients_ok_register:
  "recipients_ok b0 k r \<Longrightarrow> recipients_ok b0 (Suc k) (r(id_of b0 k \<mapsto> k))"
  "recipients_ok b0 k r \<Longrightarrow> recipients_ok b0 (Suc k) r"
  by (auto simp: recipients_ok_def less_SucI split: if_splits)

lemma recipients_ok_remove: "recipients_ok b0 k r \<Longrightarrow> recipients_ok b0 k (r(i := None))"
  by (simp add: recipients_ok_def)

lemma calls_ok_update:
  "\<lbrakk>calls_ok b0 k cs; t < k; call_ok b0 t c\<rbrakk> \<Longrightarrow> calls_ok b0 k (cs(t \<mapsto> c))"
  by (simp add: calls_ok_def)

lemma calls_ok_Suc: "calls_ok b0 k cs \<Longrightarrow> calls_ok b0 (Suc k) cs"
  by (auto simp: calls_ok_def less_SucI)

lemma queue_ok_submit:
  assumes "queue_ok b0 k taken q" and "cmd_msg_id cmd = id_of b0 k"
  shows "queue_ok b0 (Suc k) taken (q @ [(cmd, k)])"
proof -
  have "sorted_wrt (<) ((taken @ map snd q) @ [k])"
    using assms(1) by (simp only: queue_ok_def sorted_wrt_append) auto
  then show ?thesis
    using assms by (auto simp: queue_ok_def less_SucI)
qed

lemma queue_ok_take: "queue_ok b0 k taken ((cmd, t) # q) \<Longrightarrow> queue_ok b0 k (taken @ [t]) q"
  by (simp add: queue_ok_def)

lemma answers_ok_grow: "answers_ok b0 r answers \<Longrightarrow> answers_ok b0 r (answers @ more_answers)"
  by (auto simp: answers_ok_def)

lemma answers_ok_deliver:
  "answers_ok b0 r answers \<Longrightarrow> answers_ok b0 (r(t \<mapsto> cmd)) (answers @ [(id_of b0 t, cmd)])"
  by (auto simp: answers_ok_def)

lemma returned_ok_grow: "returned_ok b0 cs answers \<Longrightarrow> returned_ok b0 cs (answers @ more_answers)"
  by (auto simp: returned_ok_def)

lemma returned_ok_update:
  "\<lbrakk>returned_ok b0 cs answers; \<And>cmd. c = Returned True cmd \<Longrightarrow> (id_of b0 t, cmd) \<in> set answers\<rbrakk>
   \<Longrightarrow> returned_ok b0 (cs(t \<mapsto> c)) answers"
  by (auto simp: returned_ok_def)

lemma returned_ok_other:
  "\<lbrakk>returned_ok b0 cs answers; \<forall>cmd. c \<noteq> Returned True cmd\<rbrakk> \<Longrightarrow> returned_ok b0 (cs(t \<mapsto> c)) answers"
  by (auto simp: returned_ok_def)

lemma net_inv_call: "\<lbrakk>net_inv b0 n; n_calls n t = Some c\<rbrakk> \<Longrightarrow> t < n_next n \<and> call_ok b0 t c"
  by (simp add: net_inv_def calls_ok_def)

lemma net_inv_init: "fresh b \<Longrightarrow> net_inv b (net_init b)"
  by (simp add: net_inv_def net_init_def fresh_def recipients_ok_def calls_ok_def queue_ok_def
      answers_ok_def returned_ok_def)

lemma net_inv_submit:
  assumes inv: "net_inv b0 n" and st: "net_step (Submit cmd timeout_ms) n = Some n'"
  shows "net_inv b0 n'"
proof -
  let ?b = "n_backend n"
  have id: "msg_id ?b + 1 = id_of b0 (n_next n)"
    using inv by (simp add: net_inv_def id_of_def)
  have r: "recipients_ok b0 (Suc (n_next n))
      (case waiting_recipients ?b (id_of b0 (n_next n)) of
         None \<Rightarrow> (waiting_recipients ?b)(id_of b0 (n_next n) \<mapsto> n_next n)
       | Some t \<Rightarrow> waiting_recipients ?b)"
    using inv recipients_ok_register by (auto simp: net_inv_def split: option.split)
  have n': "n' = n\<lparr>n_backend := ?b\<lparr>msg_id := id_of b0 (n_next n),
        waiting_recipients := (case waiting_recipients ?b (id_of b0 (n_next n)) of
          None \<Rightarrow> (waiting_recipients ?b)(id_of b0 (n_next n) \<mapsto> n_next n)
        | Some t \<Rightarrow> waiting_recipients ?b),
        waiting_senders := waiting_senders ?b @ [(cmd\<lparr>cmd_msg_id := id_of b0 (n_next n)\<rparr>, n_next n)]\<rparr>,
      n_next := n_next n + 1,
      n_calls := (n_calls n)(n_next n \<mapsto> Sending (cmd\<lparr>cmd_msg_id := id_of b0 (n_next n)\<rparr>) timeout_ms)\<rparr>"
    using st by (simp add: submit_command_def Let_def id)
  have m: "id_of b0 k = msg_id b0 + (1 + of_nat k)" for k
    by (simp add: id_of_def)
  show ?thesis
    using inv r unfolding net_inv_def n'
    by (simp add: m [symmetric] call_ok_def calls_ok_update calls_ok_Suc queue_ok_submit
        returned_ok_other)
qed

lemma net_inv_send:
  assumes inv: "net_inv b0 n" and st: "net_step (SendTurn poll sock) n = Some n'"
  shows "net_inv b0 n'"
proof -
  obtain b r where s: "SendNextCommand poll sock (n_backend n) = (b, r)"
    by (cases "SendNextCommand poll sock (n_backend n)")
  show ?thesis
  proof (cases r)
    case None
    then show ?thesis
      using inv st s SendNextCommand_None [of poll sock "n_backend n" b] by (auto simp: net_inv_def)
  next
    case (Some tr)
    obtain t ret where tr: "tr = (t, ret)" by (cases tr)
    from SendNextCommand_Some [of poll sock "n_backend n" b t ret] obtain cmd where
      "waiting_senders (n_backend n) = (cmd, t) # waiting_senders b"
      "waiting_recipients b = waiting_recipients (n_backend n)" "msg_id b = msg_id (n_backend n)"
      using s Some tr by blast
    then show ?thesis
      using inv st s Some tr by (auto simp: net_inv_def intro: queue_ok_take)
  qed
qed

lemma net_inv_receive:
  assumes inv: "net_inv b0 n" and st: "net_step (ReceiveTurn input) n = Some n'"
  shows "net_inv b0 n'"
proof -
  obtain ok b d where g: "GetNextResponse input (n_backend n) = Ok (ok, b, d)"
    using st by (auto split: cres.splits)
  from GetNextResponse_cases [OF g] show ?thesis
  proof (elim disjE exE conjE)
    assume d: "d = None" "b = n_backend n"
    have "net_inv b0 (n\<lparr>n_answers := n_answers n @ more_answers\<rparr>)" for more_answers
      using inv by (simp add: net_inv_def answers_ok_grow returned_ok_grow)
    then show ?thesis
      using st g d by auto
  next
    fix i t cmd
    assume d: "d = Some (t, cmd)" "decode_input (n_backend n) input = Some (i, cmd)"
      "waiting_recipients (n_backend n) i = Some t"
      "b = n_backend n\<lparr>waiting_recipients := (waiting_recipients (n_backend n))(i := None)\<rparr>"
    then have "i = id_of b0 t"
      using inv by (simp add: net_inv_def recipients_ok_def)
    then show ?thesis
      using inv st g d by (auto simp: net_inv_def recipients_ok_remove answers_ok_deliver
          returned_ok_grow)
  qed
qed

lemma net_inv_finish:
  assumes inv: "net_inv b0 n" and c: "n_calls n t = Some (Sending cmd ms)"
    and r: "after_send ms outcome cmd (n_backend n) = (r, b')"
  shows "net_inv b0 (finish n t (r, b'))"
proof -
  have id: "cmd_msg_id cmd = id_of b0 t" "t < n_next n"
    using net_inv_call [OF inv c] by (simp_all add: call_ok_def)
  let ?c = "case r of Finished ok cmd \<Rightarrow> Returned ok cmd
      | AwaitResponse cmd ms \<Rightarrow> Waiting cmd ms | Thrown \<Rightarrow> Aborted"
  have "call_ok b0 t ?c" and "?c \<noteq> Returned True c'" for c'
    using after_send_command [OF r] id by (cases r; simp add: call_ok_def)+
  then show ?thesis
    using inv id after_send_backend [OF r]
    by (auto simp: net_inv_def finish_def recipients_ok_remove calls_ok_update
        intro!: returned_ok_update)
qed

lemma net_inv_return:
  assumes inv: "net_inv b0 n" and c: "n_calls n t = Some (Waiting cmd ms)"
    and b: "waiting_senders b' = waiting_senders (n_backend n)" "msg_id b' = msg_id (n_backend n)"
      "waiting_recipients b' = waiting_recipients (n_backend n)"
    and a: "ok \<Longrightarrow> n_response_tickets n t = Some cmd'"
  shows "net_inv b0 (n\<lparr>n_backend := b', n_calls := (n_calls n)(t \<mapsto> Returned ok cmd')\<rparr>)"
  using inv net_inv_call [OF inv c] b a
  by (auto simp: net_inv_def calls_ok_update call_ok_def answers_ok_def intro!: returned_ok_update)

lemma net_inv_step:
  assumes inv: "net_inv b0 n" and st: "net_step ev n = Some n'"
  shows "net_inv b0 n'"
proof (cases ev)
  case (SendConfirmed t ms)
  then obtain cmd tm ret where "n_calls n t = Some (Sending cmd tm)"
    "n' = finish n t (after_send tm (SendReported ret ms) cmd (n_backend n))"
    using st by (auto split: option.splits call.splits)
  then show ?thesis
    using net_inv_finish [OF inv] by (metis surj_pair)
next
  case (SendTimeout t)
  then obtain cmd tm where "n_calls n t = Some (Sending cmd tm)"
    "n' = finish n t (after_send tm SendTimedOut cmd (n_backend n))"
    using st by (auto split: option.splits call.splits)
  then show ?thesis
    using net_inv_finish [OF inv] by (metis surj_pair)
next
  case (ResponseDelivered t)
  then show ?thesis
    using st net_inv_return [OF inv, where b' = "n_backend n"]
    by (auto simp: after_response_def Command_assign_def split: option.splits call.splits)
next
  case (ResponseTimeout t)
  then show ?thesis
    using st net_inv_return [OF inv]
    by (auto simp: after_response_def split: option.splits call.splits)
qed (use inv st net_inv_submit net_inv_send net_inv_receive in blast)+

lemma net_reach_inv: "net_reach b0 n \<Longrightarrow> net_inv b0 n"
  by (induction rule: net_reach.induct) (auto intro: net_inv_init net_inv_step)

section \<open>What the protocol guarantees\<close>

text \<open>C1: in every interleaving of client threads and background turns, a call that returns successfully
  returns a response that arrived over the wire under the identifier of that very call: no
  response is ever dealt to another caller, even when the 32-bit counter has wrapped.\<close>
theorem response_routing:
  assumes "net_reach b0 n"
  shows "\<forall>t cmd. n_calls n t = Some (Returned True cmd) \<longrightarrow> (id_of b0 t, cmd) \<in> set (n_answers n)"
  using net_reach_inv [OF assms] by (auto simp: net_inv_def returned_ok_def)


section \<open>A call that succeeds, and calls that give up\<close>

lemma read_u32_id_part [simp]: "read_u32 (id_part i) = Ok i"
proof -
  have "unat i < 256 ^ 4"
    using unsigned_less [of i, where ?'a = nat] by simp
  moreover have "rd (le_bytes 4 (unat i)) 0 4 = (Ok (unat i mod 256 ^ 4) :: (string, nat) cres)"
    using rd_le_bytes [of "[]" 0 4 "unat i" "[]"] by simp
  ultimately show ?thesis
    by (simp add: read_u32_def id_part_def bytes_of_string_of_bytes)
qed

lemma Send_all: "Send (\<lambda>_. PartSent) i parts = (PartSent, parts)"
  by (induction parts arbitrary: i) simp_all

primrec net_run :: "event list \<Rightarrow> net \<Rightarrow> net option" where
  "net_run [] n = Some n"
| "net_run (ev # evs) n = (case net_step ev n of None \<Rightarrow> None | Some n' \<Rightarrow> net_run evs n')"

lemma net_run_reach: "\<lbrakk>net_reach b0 n; net_run evs n = Some n'\<rbrakk> \<Longrightarrow> net_reach b0 n'"
  by (induction evs arbitrary: n) (auto intro: net_reach.step split: option.splits)

text \<open>The five events of a call that is answered: submission, its turn on the socket, the confirmation, a
  response of one uncompressed part under its identifier, the delivery.\<close>

definition answered_call :: "backend \<Rightarrow> Command \<Rightarrow> nat \<Rightarrow> nat \<Rightarrow> string \<Rightarrow> event list" where
  "answered_call b cmd timeout_ms ms reply =
     [Submit cmd timeout_ms, SendTurn (PollReturned True) (\<lambda>_. PartSent), SendConfirmed 0 ms,
      ReceiveTurn (Received (PollReturned True)
        [(id_part (id_of b 0), True), (id_part 1, True), (reply, False)]),
      ResponseDelivered 0]"

definition answer :: "string \<Rightarrow> Command" where
  "answer reply = Command_default\<lparr>cmd_success := 1, cmd_response := [reply]\<rparr>"

lemma parse_answer:
  "\<not> looks_compressed reply \<Longrightarrow>
     parse_response dctx False [id_part i, id_part 1, reply] = Ok (i, answer reply)"
  by (simp add: parse_response_def ZstdDecompress_def Command_default_def answer_def numeral_2_eq_2)

lemma answered_call_runs:
  assumes "fresh b" and "ms \<le> timeout_ms" and "\<not> looks_compressed reply"
  shows "\<exists>n. net_run (answered_call b cmd timeout_ms ms reply) (net_init b) = Some n
    \<and> n_calls n 0 = Some (Returned True (answer reply))
    \<and> waiting_senders (n_backend n) = [] \<and> waiting_recipients (n_backend n) = Map.empty
    \<and> bk_wire (n_backend n) = bk_wire b
        @ [(cmd_type cmd, command_parts b (cmd\<lparr>cmd_msg_id := id_of b 0\<rparr>))]
    \<and> n_answers n = [(id_of b 0, answer reply)]"
proof -
  have "command_parts b' cmd \<noteq> []" for b' cmd
    by (simp add: command_parts_def)
  then show ?thesis
    using assms parse_answer [OF assms(3), of "zstd_dctx b" "id_of b 0"]
    by (simp add: answered_call_def net_init_def fresh_def submit_command_def Let_def
        SendNextCommand_def PollAndSend_def Send_all after_send_def finish_def GetNextResponse_def
        PollAndReceive_def decode_input_def after_response_def Command_assign_def id_of_def
        command_parts_def)
qed


definition demo_query :: Command where
  "demo_query = Command_new '' select now()'' (CHR ''r'') ''R_QUERY'' 300"

lemma demo_fresh: "fresh demo_backend"
  by (simp add: fresh_def demo_backend_def)

lemma demo_reply_plain: "\<not> looks_compressed ''42''"
  by (simp add: looks_compressed_def)


lemma demo_reached:
  "\<exists>n :: net. net_reach demo_backend n \<and> n_calls n 0 = Some (Returned True (answer ''42''))
     \<and> n_answers n = [(id_of demo_backend 0, answer ''42'')]"
proof -
  obtain n where n: "net_run (answered_call demo_backend demo_query 300 20 ''42'') (net_init demo_backend) = Some n"
    "n_calls n 0 = Some (Returned True (answer ''42''))" "n_answers n = [(id_of demo_backend 0, answer ''42'')]"
    using answered_call_runs [OF demo_fresh _ demo_reply_plain, of 20 300 demo_query] by auto
  have "net_reach demo_backend n"
    by (rule net_run_reach [OF net_reach.start [OF demo_fresh] n(1)])
  with n show ?thesis by blast
qed

lemma response_routing_witness:
  "\<exists>n :: net. n_calls n 0 = Some (Returned True (answer ''42''))
     \<and> (\<forall>t cmd. n_calls n t = Some (Returned True cmd) \<longrightarrow> (id_of demo_backend t, cmd) \<in> set (n_answers n))"
  using demo_reached response_routing [of demo_backend] by blast



end
