(* ===== verification/Simulation.thy ===== *)
theory Simulation
  imports Main
begin

text \<open>
  Refinement of a specification given as a step relation: every step of the code, from a state that
  satisfies an invariant, is a step of the specification or does not change what the specification
  sees. The locale is interpreted for the calls of the backend.
\<close>

locale simulation =
  fixes cstep :: "'c \<Rightarrow> 'c \<Rightarrow> bool"
    and astep :: "'a \<Rightarrow> 'a \<Rightarrow> bool"
    and view :: "'c \<Rightarrow> 'a"
    and inv :: "'c \<Rightarrow> bool"
  assumes step_inv: "\<lbrakk>inv c; cstep c c'\<rbrakk> \<Longrightarrow> inv c'"
    and step_sim: "\<lbrakk>inv c; cstep c c'\<rbrakk> \<Longrightarrow> astep (view c) (view c') \<or> view c' = view c"
begin

lemma steps_inv: "\<lbrakk>cstep\<^sup>*\<^sup>* c c'; inv c\<rbrakk> \<Longrightarrow> inv c'"
  by (induction rule: rtranclp_induct) (auto intro: step_inv)

lemma steps_refine: "\<lbrakk>cstep\<^sup>*\<^sup>* c c'; inv c\<rbrakk> \<Longrightarrow> astep\<^sup>*\<^sup>* (view c) (view c')"
proof (induction rule: rtranclp_induct)
  case (step d d')
  then have "inv d" by (blast intro: steps_inv)
  from step_sim [OF this step.hyps(2)] step.IH [OF step.prems] show ?case
    by (auto intro: rtranclp.rtrancl_into_rtrancl)
qed simp

text \<open>What every step of the specification keeps, the code keeps.\<close>

lemma steps_keep:
  assumes "cstep\<^sup>*\<^sup>* c c'" and "inv c" and "P (view c)"
    and keep: "\<And>a a'. \<lbrakk>astep a a'; P a\<rbrakk> \<Longrightarrow> P a'"
  shows "P (view c')"
  using steps_refine [OF assms(1,2)] assms(3)
  by (induction rule: rtranclp_induct) (auto intro: keep)

end

end
