(* ===== verification/BackendRefinement.thy ===== *)
theory BackendRefinement
  imports BackendProtocol Simulation
begin

text \<open>
  What the calls of the backend promise, as a specification: a remote procedure call is pending
  until it is answered, by something that came in under its identifier, or fails, once and for all;
  commands leave in the order of the calls. The protocol (queues, tickets, maps of recipients,
  timeouts, the background thread) is shown to refine it.
\<close>

section \<open>The specification\<close>

datatype rpc_call = Pending | Answered Command | Failed

record rpc =
  rpc_next :: nat
  rpc_calls :: "nat \<rightharpoonup> rpc_call"
  rpc_queue :: "nat list"
  rpc_sent :: "nat list"
  rpc_inbox :: "(u32 \<times> Command) list"

inductive rpc_step :: "(nat \<Rightarrow> u32) \<Rightarrow> rpc \<Rightarrow> rpc \<Rightarrow> bool" for ids where
  call: "rpc_calls s (rpc_next s) = None \<Longrightarrow>
    rpc_step ids s (s\<lparr>rpc_next := rpc_next s + 1, rpc_calls := (rpc_calls s)(rpc_next s \<mapsto> Pending),
                      rpc_queue := rpc_queue s @ [rpc_next s]\<rparr>)"
| send: "rpc_queue s = t # q \<Longrightarrow> rpc_step ids s (s\<lparr>rpc_queue := q, rpc_sent := rpc_sent s @ [t]\<rparr>)"
| receive: "rpc_step ids s (s\<lparr>rpc_inbox := rpc_inbox s @ [a]\<rparr>)"
| answer: "\<lbrakk>rpc_calls s t = Some Pending; (ids t, cmd) \<in> set (rpc_inbox s)\<rbrakk> \<Longrightarrow>
    rpc_step ids s (s\<lparr>rpc_calls := (rpc_calls s)(t \<mapsto> Answered cmd)\<rparr>)"
| fail: "rpc_calls s t = Some Pending \<Longrightarrow>
    rpc_step ids s (s\<lparr>rpc_calls := (rpc_calls s)(t \<mapsto> Failed)\<rparr>)"

inductive_cases rpc_stepE: "rpc_step ids s s'"

lemma rpc_ended_step:
  "\<lbrakk>rpc_step ids s s'; rpc_calls s t = Some r; r \<noteq> Pending\<rbrakk> \<Longrightarrow> rpc_calls s' t = Some r"
  by (erule rpc_stepE) auto

lemma rpc_sent_step: "rpc_step ids s s' \<Longrightarrow> \<exists>more_sent. rpc_sent s' = rpc_sent s @ more_sent"
  by (erule rpc_stepE) auto

section \<open>The view of a protocol state\<close>

fun call_view :: "call \<Rightarrow> rpc_call" where
  "call_view (Sending cmd ms) = Pending"
| "call_view (Waiting cmd ms) = Pending"
| "call_view (Returned ok cmd) = (if ok then Answered cmd else Failed)"
| "call_view Aborted = Failed"

definition rpc_view :: "net \<Rightarrow> rpc" where
  "rpc_view n = \<lparr>rpc_next = n_next n, rpc_calls = map_option call_view \<circ> n_calls n,
     rpc_queue = map snd (waiting_senders (n_backend n)), rpc_sent = n_taken n,
     rpc_inbox = n_answers n\<rparr>"

definition net_moves :: "net \<Rightarrow> net \<Rightarrow> bool" where
  "net_moves n n' \<longleftrightarrow> (\<exists>ev. net_step ev n = Some n')"

lemma rpc_view_sels [simp]:
  "rpc_next (rpc_view n) = n_next n" "rpc_calls (rpc_view n) t = map_option call_view (n_calls n t)"
  "rpc_queue (rpc_view n) = map snd (waiting_senders (n_backend n))" "rpc_sent (rpc_view n) = n_taken n"
  "rpc_inbox (rpc_view n) = n_answers n"
  by (simp_all add: rpc_view_def)

lemma map_option_upd: "map_option f \<circ> (m(t \<mapsto> c)) = (map_option f \<circ> m)(t \<mapsto> f c)"
  by auto

section \<open>Every step refines\<close>

lemma after_response_arrived:
  "after_response (ResponseArrived r) cmd b = (ok, cmd', b') \<Longrightarrow> ok \<and> cmd' = r \<and> b' = b"
  by (auto simp: after_response_def Command_assign_def)

lemma after_response_late:
  "after_response ResponseTimedOut cmd b = (ok, cmd', b') \<Longrightarrow> \<not> ok \<and> waiting_senders b' = waiting_senders b"
  by (auto simp: after_response_def)

text \<open>The end of a call, and a step that only the waiting call sees.\<close>

lemma view_end_call:
  assumes "n_calls n t = Some c" and "call_view c = Pending"
    and "waiting_senders b' = waiting_senders (n_backend n)"
    and "call_view c' = Failed \<or> call_view c' = Pending
      \<or> (\<exists>cmd. call_view c' = Answered cmd \<and> (ids t, cmd) \<in> set (n_answers n))"
  defines "n' \<equiv> n\<lparr>n_backend := b', n_calls := (n_calls n)(t \<mapsto> c')\<rparr>"
  shows "rpc_step ids (rpc_view n) (rpc_view n') \<or> rpc_view n' = rpc_view n"
proof -
  have v: "rpc_view n' = (rpc_view n)\<lparr>rpc_calls := (rpc_calls (rpc_view n))(t \<mapsto> call_view c')\<rparr>"
    using assms(3) by (simp add: n'_def rpc_view_def map_option_upd)
  have p: "rpc_calls (rpc_view n) t = Some Pending" using assms(1,2) by simp
  show ?thesis
    using assms(4)
  proof (elim disjE exE conjE)
    assume "call_view c' = Failed"
    then show ?thesis using rpc_step.fail [OF p] v by simp
  next
    assume "call_view c' = Pending"
    then have "rpc_view n' = rpc_view n" using v p by (simp add: fun_upd_idem)
    then show ?thesis by blast
  next
    fix cmd assume "call_view c' = Answered cmd" "(ids t, cmd) \<in> set (n_answers n)"
    then show ?thesis using rpc_step.answer [OF p, of ids cmd] v by simp
  qed
qed

lemma view_finish:
  assumes "n_calls n t = Some (Sending cmd ms)"
  shows "rpc_step ids (rpc_view n) (rpc_view (finish n t (after_send ms outcome cmd (n_backend n))))
    \<or> rpc_view (finish n t (after_send ms outcome cmd (n_backend n))) = rpc_view n"
proof -
  obtain r b' where r: "after_send ms outcome cmd (n_backend n) = (r, b')"
    by (cases "after_send ms outcome cmd (n_backend n)")
  show ?thesis
    using after_send_command [OF r] after_send_backend [OF r]
    unfolding finish_def r fst_conv snd_conv
    by (intro view_end_call [OF assms]) (cases r; simp)+
qed

lemma view_submit:
  assumes "net_inv b0 n" and "net_step (Submit cmd ms) n = Some n'"
  shows "rpc_step ids (rpc_view n) (rpc_view n')"
proof -
  have "n_calls n (n_next n) = None"
    using net_inv_call [OF assms(1), of "n_next n"] by (cases "n_calls n (n_next n)") auto
  then have c: "rpc_calls (rpc_view n) (rpc_next (rpc_view n)) = None" by simp
  have "rpc_view n' = (rpc_view n)\<lparr>rpc_next := rpc_next (rpc_view n) + 1,
      rpc_calls := (rpc_calls (rpc_view n))(rpc_next (rpc_view n) \<mapsto> Pending),
      rpc_queue := rpc_queue (rpc_view n) @ [rpc_next (rpc_view n)]\<rparr>"
    using assms(2) by (auto simp: rpc_view_def submit_command_def Let_def map_option_upd)
  then show ?thesis using rpc_step.call [OF c, of ids] by simp
qed

lemma view_send:
  assumes "net_step (SendTurn poll sock) n = Some n'"
  shows "rpc_step ids (rpc_view n) (rpc_view n') \<or> rpc_view n' = rpc_view n"
proof -
  obtain b r where s: "SendNextCommand poll sock (n_backend n) = (b, r)"
    by (cases "SendNextCommand poll sock (n_backend n)")
  show ?thesis
  proof (cases r)
    case None
    then show ?thesis using assms s SendNextCommand_None [of poll sock "n_backend n" b]
      by (auto simp: rpc_view_def)
  next
    case (Some tr)
    obtain t ret where tr: "tr = (t, ret)" by (cases tr)
    obtain cmd where q: "waiting_senders (n_backend n) = (cmd, t) # waiting_senders b"
      using SendNextCommand_Some [of poll sock "n_backend n" b t ret] s Some tr by blast
    then have "rpc_queue (rpc_view n) = t # map snd (waiting_senders b)" by simp
    moreover have "rpc_view n' = (rpc_view n)\<lparr>rpc_queue := map snd (waiting_senders b),
        rpc_sent := rpc_sent (rpc_view n) @ [t]\<rparr>"
      using assms s Some tr by (auto simp: rpc_view_def)
    ultimately show ?thesis using rpc_step.send [of "rpc_view n" t _ ids] by metis
  qed
qed

lemma view_receive:
  assumes "net_step (ReceiveTurn input) n = Some n'"
  shows "rpc_step ids (rpc_view n) (rpc_view n') \<or> rpc_view n' = rpc_view n"
proof -
  obtain ok b d where g: "GetNextResponse input (n_backend n) = Ok (ok, b, d)"
    using assms by (auto split: cres.splits)
  have "waiting_senders b = waiting_senders (n_backend n)"
    using GetNextResponse_cases [OF g] by auto
  then have "rpc_view n' = (rpc_view n)\<lparr>rpc_inbox := rpc_inbox (rpc_view n)
      @ (case decode_input (n_backend n) input of None \<Rightarrow> [] | Some a \<Rightarrow> [a])\<rparr>"
    using assms g by (auto simp: rpc_view_def)
  then show ?thesis
    using rpc_step.receive [of ids "rpc_view n"] by (cases "decode_input (n_backend n) input") simp_all
qed

lemma net_moves_refines:
  assumes inv: "net_inv b0 n" and "net_moves n n'"
  shows "rpc_step (id_of b0) (rpc_view n) (rpc_view n') \<or> rpc_view n' = rpc_view n"
proof -
  obtain ev where st: "net_step ev n = Some n'" using assms(2) by (auto simp: net_moves_def)
  show ?thesis
  proof (cases ev)
    case (Submit cmd ms)
    then show ?thesis using view_submit [OF inv] st by blast
  next
    case (SendTurn poll sock)
    then show ?thesis using view_send st by blast
  next
    case (ReceiveTurn input)
    then show ?thesis using view_receive st by blast
  next
    case (SendConfirmed t ms)
    then show ?thesis using st view_finish [of n t] by (auto split: option.splits call.splits)
  next
    case (SendTimeout t)
    then show ?thesis using st view_finish [of n t] by (auto split: option.splits call.splits)
  next
    case (ResponseDelivered t)
    then obtain cmd ms r where c: "n_calls n t = Some (Waiting cmd ms)" "n_response_tickets n t = Some r"
      and n': "n' = n\<lparr>n_backend := n_backend n, n_calls := (n_calls n)(t \<mapsto> Returned True r)\<rparr>"
      using st by (auto simp: after_response_def Command_assign_def split: option.splits call.splits)
    have "(id_of b0 t, r) \<in> set (n_answers n)" using inv c(2) by (simp add: net_inv_def answers_ok_def)
    then show ?thesis unfolding n' by (intro view_end_call [OF c(1)]) auto
  next
    case (ResponseTimeout t)
    then obtain cmd ms where c: "n_calls n t = Some (Waiting cmd ms)"
      and n': "\<exists>cmd'. n' = n\<lparr>n_backend := count_failure cmd (n_backend n), n_calls := (n_calls n)(t \<mapsto> Returned False cmd')\<rparr>"
      using st by (auto simp: after_response_def split: option.splits call.splits)
    obtain cmd' where n': "n' = n\<lparr>n_backend := count_failure cmd (n_backend n), n_calls := (n_calls n)(t \<mapsto> Returned False cmd')\<rparr>"
      using n' by blast
    show ?thesis unfolding n' by (intro view_end_call [OF c]) auto
  qed
qed

lemma net_inv_moves: "\<lbrakk>net_inv b0 n; net_moves n n'\<rbrakk> \<Longrightarrow> net_inv b0 n'"
  by (auto simp: net_moves_def intro: net_inv_step)

interpretation calls: simulation net_moves "rpc_step (id_of b0)" rpc_view "net_inv b0" for b0
  by unfold_locales (auto intro: net_inv_moves dest: net_moves_refines)

lemma net_run_moves: "net_run evs n = Some n' \<Longrightarrow> net_moves\<^sup>*\<^sup>* n n'"
proof (induction evs arbitrary: n)
  case (Cons ev evs)
  then obtain m where m: "net_step ev n = Some m" "net_run evs m = Some n'"
    by (auto split: option.splits)
  then have "net_moves n m" by (auto simp: net_moves_def)
  then show ?case using Cons.IH [OF m(2)] by (rule converse_rtranclp_into_rtranclp)
qed simp



end
