(* ===== verification/BackendLifecycle.thy ===== *)
theory BackendLifecycle
  imports ServicesBackend
begin

text \<open>
  Starting, watching and stopping the services backend: \<open>Initialise\<close>, \<open>InitZMQ\<close>, \<open>InitMulticast\<close>,
  \<open>RegisterServices\<close>, \<open>Ready\<close>, \<open>CheckSocketEvents\<close>, one turn of \<open>BackgroundThread\<close> and \<open>Finalise\<close>.
  The configuration store is the argument \<open>config\<close>: what \<open>Store::Get\<close> finds under a key, if anything;
  what the operating system and ZeroMQ answered is the record \<open>startup\<close>.
\<close>

record config =
  cfg_int :: "string \<Rightarrow> int option"
  cfg_str :: "string \<Rightarrow> string option"

text \<open>\<open>Store::Get(key, variable)\<close> leaves the variable as it is when there is nothing under the key.\<close>

definition get_int :: "config \<Rightarrow> string \<Rightarrow> int \<Rightarrow> int" where
  "get_int c key old = (case cfg_int c key of Some v \<Rightarrow> v | None \<Rightarrow> old)"

definition get_str :: "config \<Rightarrow> string \<Rightarrow> string \<Rightarrow> string" where
  "get_str c key old = (case cfg_str c key of Some v \<Rightarrow> v | None \<Rightarrow> old)"

datatype socket_result = SocketReady | SocketFailed bool \<comment> \<open>whether the object had been created\<close>

record startup =
  st_pub :: socket_result
  st_dlr :: socket_result
  st_log_fd :: int
  st_mon_fd :: int
  st_linger_ok :: bool
  st_aton_ok :: "string \<Rightarrow> bool"
  st_add_port :: "string \<Rightarrow> int \<Rightarrow> bool"
  st_nanoseconds :: nat
  st_cctx :: compress_fun
  st_dctx :: decompress_fun

definition InitZMQ :: "config \<Rightarrow> startup \<Rightarrow> backend \<Rightarrow> bool \<times> backend" where
  "InitZMQ cfg env b =
     (let b = b\<lparr>clt_pub_port := get_int cfg ''clt_pub_port'' 55556,
                clt_dlr_port := get_int cfg ''clt_dlr_port'' 55555,
                inpoll_timeout := of_int (get_int cfg ''inpoll_timeout'' 500),
                command_timeout := of_int (get_int cfg ''command_timeout'' 300),
                clt_ID := get_str cfg ''service_name'' [] @ [CHR 0x00]\<rparr>
      in case st_pub env of
        SocketFailed created \<Rightarrow> (False, b\<lparr>clt_pub_socket := created\<rparr>)
      | SocketReady \<Rightarrow>
          let b = b\<lparr>clt_pub_socket := True\<rparr> in
          (case st_dlr env of
             SocketFailed created \<Rightarrow> (False, b\<lparr>clt_dlr_socket := created\<rparr>)
           | SocketReady \<Rightarrow>
               (True, b\<lparr>clt_dlr_socket := True, monitor_socket := True,
                        pub_connected_locked := True\<rparr>)))"

definition InitMulticast :: "config \<Rightarrow> startup \<Rightarrow> backend \<Rightarrow> bool \<times> backend" where
  "InitMulticast cfg env b =
     (let log_address = get_str cfg ''log_address'' ''239.192.1.2'';
          mon_address = get_str cfg ''mon_address'' ''239.192.1.3'';
          b = b\<lparr>log_socket := st_log_fd env, mon_socket := st_mon_fd env\<rparr>
      in if st_log_fd env \<le> 0 \<or> st_mon_fd env \<le> 0 then (False, b)
         else if \<not> st_linger_ok env then (False, b)
         else if \<not> (st_aton_ok env log_address \<and> st_aton_ok env mon_address) then (False, b)
         else (True, b))"

definition RegisterServices :: "startup \<Rightarrow> backend \<Rightarrow> bool \<times> backend" where
  "RegisterServices env b =
     (let first = st_add_port env ''db_write'' (clt_pub_port b);
          second = first \<and> st_add_port env ''db_read'' (clt_dlr_port b);
          ports = (if first then [(''db_write'', clt_pub_port b)] else [])
                  @ (if second then [(''db_read'', clt_dlr_port b)] else [])
      in (second, b\<lparr>advertised := ports\<rparr>))"

definition Initialise :: "config \<Rightarrow> startup \<Rightarrow> backend \<Rightarrow> bool \<times> backend" where
  "Initialise cfg env b =
     (let advertise_endpoints = get_int cfg ''advertise_endpoints'' 1;
          msg_compression = get_int cfg ''msg_compression'' 1;
          b = b\<lparr>compression_level := get_int cfg ''compression_level'' (compression_level b)\<rparr>;
          (zmq_ok, b) = InitZMQ cfg env b
      in if \<not> zmq_ok then (False, b)
         else let (multicast_ok, b) = InitMulticast cfg env b in
         if \<not> multicast_ok then (False, b)
         else let (register_ok, b) = (if advertise_endpoints \<noteq> 0 then RegisterServices env b
                                      else (True, b)) in
         if \<not> register_ok then (False, b)
         else let b = (if msg_compression \<noteq> 0
                       then b\<lparr>zstd_cctx := Some (st_cctx env), compressed_msg_buf := True,
                              zstd_dctx := Some (st_dctx env)\<rparr>
                       else b)
         in (True, b\<lparr>msg_id := of_nat (st_nanoseconds env)\<rparr>))"

text \<open>Pointers of a new object: no sockets, no contexts, nothing queued.\<close>

definition backend_new :: backend where
  "backend_new =
     \<lparr>clt_pub_port = 0, clt_dlr_port = 0, clt_ID = [], inpoll_timeout = 0, command_timeout = 0,
      clt_pub_socket = False, clt_dlr_socket = False, monitor_socket = False,
      pub_connected_locked = False, log_socket = -1, mon_socket = -1, advertised = [],
      waiting_senders = [], waiting_recipients = Map.empty, msg_id = 0,
      write_commands_failed = 0, read_commands_failed = 0, zstd_cctx = None, zstd_dctx = None,
      compressed_msg_buf = False, compression_level = 1, compression_threshold = 50,
      bk_datagrams = [], bk_wire = [], bk_crashed = False\<rparr>"

definition Finalise :: "backend \<Rightarrow> bool \<times> backend" where
  "Finalise b =
     (True, b\<lparr>advertised := [], monitor_socket := False, clt_pub_socket := False,
              clt_dlr_socket := False, log_socket := -1, mon_socket := -1,
              waiting_senders := [], waiting_recipients := Map.empty\<rparr>)"

text \<open>An event of the socket monitor: a 16-bit event and a 32-bit value in the first part, the endpoint in
  the second. A connection unlocks \<open>pub_connected_mtx\<close>; unlocking a mutex that is not locked is
  \<open>Fault\<close>, and so is an event shorter than its six bytes.\<close>

definition ZMQ_EVENT_CONNECTED :: nat where "ZMQ_EVENT_CONNECTED = 1"
definition ZMQ_EVENT_ACCEPTED :: nat where "ZMQ_EVENT_ACCEPTED = 32"
definition ZMQ_EVENT_MONITOR_STOPPED :: nat where "ZMQ_EVENT_MONITOR_STOPPED = 1024"

datatype monitor_input = MonitorThrew | NoEvent | MonitorParts bytes "bytes option"

definition CheckSocketEvents :: "int \<Rightarrow> monitor_input \<Rightarrow> backend \<Rightarrow> (string, backend) cres" where
  "CheckSocketEvents m_verbosity input b =
     (case input of
        MonitorParts tmp (Some endpoint) \<Rightarrow>
          cbind (rd tmp 0 2) (\<lambda>event_id.
          cbind (rd tmp 2 4) (\<lambda>event_val.
            if event_id = ZMQ_EVENT_CONNECTED \<or> event_id = ZMQ_EVENT_ACCEPTED then
              (if \<not> pub_connected_locked b then Fault
               else Ok (b\<lparr>pub_connected_locked := False,
                          monitor_socket := monitor_socket b \<and> 2 \<le> m_verbosity\<rparr>))
            else if event_id = ZMQ_EVENT_MONITOR_STOPPED then Ok (b\<lparr>monitor_socket := False\<rparr>)
            else Ok b))
      | _ \<Rightarrow> Ok b)"

text \<open>One turn of the background loop: the monitor while there is one, then a response, then a command.\<close>

definition background_turn ::
    "int \<Rightarrow> monitor_input \<Rightarrow> receive_outcome \<Rightarrow> poll_outcome \<Rightarrow> (nat \<Rightarrow> send_outcome) \<Rightarrow> backend
      \<Rightarrow> (string, backend \<times> (nat \<times> Command) option \<times> (nat \<times> int) option) cres" where
  "background_turn m_verbosity monitor input poll sock b =
     cbind (if monitor_socket b then CheckSocketEvents m_verbosity monitor b else Ok b) (\<lambda>b.
     cbind (GetNextResponse input b) (\<lambda>(ok, b, delivered).
       let (b, sent) = SendNextCommand poll sock b in Ok (b, delivered, sent)))"

text \<open>\<open>Ready\<close>: the dealer poll, the wait for the pub connection, then test queries until one is answered
  or less than 100 ms are left. Each attempt is the time left when it starts and its answer.\<close>

fun ready_queries :: "(nat \<times> bool) list \<Rightarrow> bool" where
  "ready_queries [] = False"
| "ready_queries ((time_left, answered) # later) =
     (if time_left \<le> 100 then False else if answered then True else ready_queries later)"

definition Ready :: "poll_outcome \<Rightarrow> bool \<Rightarrow> (nat \<times> bool) list \<Rightarrow> bool" where
  "Ready dealer_poll connected_in_time attempts =
     (if dealer_poll = PollReturned True then connected_in_time \<and> ready_queries attempts else False)"

section \<open>What starting and stopping guarantee\<close>

lemma InitZMQ_frame:
  "InitZMQ cfg env b = (ok, b') \<Longrightarrow> waiting_senders b' = waiting_senders b
     \<and> waiting_recipients b' = waiting_recipients b \<and> zstd_cctx b' = zstd_cctx b
     \<and> zstd_dctx b' = zstd_dctx b \<and> compressed_msg_buf b' = compressed_msg_buf b
     \<and> (ok \<longrightarrow> clt_pub_socket b' \<and> clt_dlr_socket b' \<and> monitor_socket b' \<and> pub_connected_locked b')"
  by (auto simp: InitZMQ_def Let_def split: socket_result.splits)

lemma InitMulticast_frame:
  "InitMulticast cfg env b = (ok, b')
     \<Longrightarrow> b' = b\<lparr>log_socket := st_log_fd env, mon_socket := st_mon_fd env\<rparr>
       \<and> (ok \<longrightarrow> 0 < st_log_fd env \<and> 0 < st_mon_fd env)"
  by (auto simp: InitMulticast_def Let_def split: if_splits)

lemma RegisterServices_frame:
  "RegisterServices env b = (ok, b') \<Longrightarrow> \<exists>ports. b' = b\<lparr>advertised := ports\<rparr>
     \<and> (ok \<longrightarrow> ports = [(''db_write'', clt_pub_port b), (''db_read'', clt_dlr_port b)])"
  by (auto simp: RegisterServices_def Let_def split: if_splits)

text \<open>an initialisation that succeeds leaves a backend that can serve: both command sockets, both
  multicast sockets and the monitor are open, nothing is queued, and the two compression contexts
  are there together or (compression switched off) absent together.\<close>
theorem initialise_serves:
  assumes "Initialise cfg env backend_new = (True, b)"
  shows "clt_pub_socket b \<and> clt_dlr_socket b \<and> monitor_socket b \<and> pub_connected_locked b
    \<and> 0 < log_socket b \<and> 0 < mon_socket b
    \<and> waiting_senders b = [] \<and> waiting_recipients b = Map.empty
    \<and> (zstd_cctx b = None \<longleftrightarrow> zstd_dctx b = None)
    \<and> (zstd_cctx b = None \<longleftrightarrow> get_int cfg ''msg_compression'' 1 = 0)
    \<and> (compressed_msg_buf b \<longleftrightarrow> zstd_cctx b \<noteq> None)"
proof -
  let ?b0 = "backend_new\<lparr>compression_level := get_int cfg ''compression_level'' (compression_level backend_new)\<rparr>"
  obtain b1 where z: "InitZMQ cfg env ?b0 = (True, b1)"
    using assms by (auto simp: Initialise_def Let_def split: prod.splits if_splits)
  obtain b2 where m: "InitMulticast cfg env b1 = (True, b2)"
    using assms z by (auto simp: Initialise_def Let_def split: prod.splits if_splits)
  obtain b3 where r: "(if get_int cfg ''advertise_endpoints'' 1 \<noteq> 0 then RegisterServices env b2 else (True, b2)) = (True, b3)"
    using assms z m by (auto simp: Initialise_def Let_def split: prod.splits if_splits)
  obtain ports where b3: "b3 = b2\<lparr>advertised := ports\<rparr>"
  proof (cases "get_int cfg ''advertise_endpoints'' 1 \<noteq> 0")
    case True
    then show thesis using r RegisterServices_frame [of env b2 True b3] that by auto
  next
    case False
    then show thesis using r that [of "advertised b2"] by auto
  qed
  obtain l mm where b2: "b2 = b1\<lparr>log_socket := l, mon_socket := mm\<rparr>" "0 < l" "0 < mm"
    using InitMulticast_frame [OF m] by blast
  have b: "b = (if get_int cfg ''msg_compression'' 1 \<noteq> 0
      then b3\<lparr>zstd_cctx := Some (st_cctx env), compressed_msg_buf := True, zstd_dctx := Some (st_dctx env)\<rparr>
      else b3)\<lparr>msg_id := of_nat (st_nanoseconds env)\<rparr>"
    using assms z m r by (auto simp: Initialise_def Let_def)
  have new: "waiting_senders ?b0 = []" "waiting_recipients ?b0 = Map.empty" "zstd_cctx ?b0 = None"
    "zstd_dctx ?b0 = None" "compressed_msg_buf ?b0 = False"
    by (simp_all add: backend_new_def)
  show ?thesis
    using InitZMQ_frame [OF z] b2(2,3) new unfolding b b3 b2(1) by auto
qed

definition demo_config :: config where
  "demo_config = \<lparr>cfg_int = (\<lambda>_. None), cfg_str = (\<lambda>k. if k = ''service_name'' then Some ''demo'' else None)\<rparr>"

definition demo_startup :: startup where
  "demo_startup = \<lparr>st_pub = SocketReady, st_dlr = SocketReady, st_log_fd = 7, st_mon_fd = 8,
     st_linger_ok = True, st_aton_ok = (\<lambda>_. True), st_add_port = (\<lambda>_ _. True),
     st_nanoseconds = 41, st_cctx = demo_compress, st_dctx = demo_decompress\<rparr>"

lemma demo_initialise: "\<exists>b. Initialise demo_config demo_startup backend_new = (True, b)"
  by (simp add: Initialise_def InitZMQ_def InitMulticast_def RegisterServices_def Let_def
      demo_config_def demo_startup_def get_int_def)

lemma initialise_serves_witness:
  "\<exists>b. Initialise demo_config demo_startup backend_new = (True, b)
     \<and> waiting_senders b = [] \<and> zstd_cctx b \<noteq> None"
proof -
  obtain b where b: "Initialise demo_config demo_startup backend_new = (True, b)"
    using demo_initialise by blast
  moreover have "get_int demo_config ''msg_compression'' 1 \<noteq> 0"
    by (simp add: get_int_def demo_config_def)
  ultimately show ?thesis using initialise_serves [OF b] by blast
qed

text \<open>after \<open>Finalise\<close> nothing more is sent: a multicast is refused as "socket closed" and leaves the
  state alone, and a background turn has no command to send and no caller to answer.\<close>
theorem finalised_is_silent:
  "SendMulticast sendto_ok type msg (snd (Finalise b)) = (False, ''socket closed'', snd (Finalise b))
   \<and> SendNextCommand poll sock (snd (Finalise b)) = (snd (Finalise b), None)
   \<and> (case GetNextResponse input (snd (Finalise b)) of
        Ok (ok, b', delivered) \<Rightarrow> b' = snd (Finalise b) \<and> delivered = None | _ \<Rightarrow> True)"
  by (auto simp: SendMulticast_def Finalise_def Let_def SendNextCommand_def GetNextResponse_def
      split: cres.splits receive_outcome.splits prod.splits if_splits option.splits dest!: cbind_eq_Ok [THEN iffD1])

end
