(* ===== verification/ServicesText.thy ===== *)
theory ServicesText
  imports Prelude
begin

text \<open>
  The text the services layer puts into its messages: \<open>Services::TimeStringFromUnixMs\<close>, which
  formats a UNIX time in milliseconds with \<open>gmtime_r\<close>, \<open>strftime\<close> and \<open>snprintf\<close>, and
  \<open>Services::JsonEscape\<close>. Both come with the reader that undoes them: a parser of the time string
  and a lexer of JSON string literals.
\<close>

section \<open>Calendar (\<open>gmtime_r\<close>)\<close>

definition leap :: "nat \<Rightarrow> bool" where
  "leap y \<longleftrightarrow> (4 dvd y \<and> \<not> 100 dvd y) \<or> 400 dvd y"

definition year_days :: "nat \<Rightarrow> nat" where
  "year_days y = (if leap y then 366 else 365)"

definition month_days :: "nat \<Rightarrow> nat \<Rightarrow> nat" where
  "month_days y m = (if m = 2 then (if leap y then 29 else 28)
                     else if m \<in> {4, 6, 9, 11} then 30 else 31)"

lemma year_days_pos [simp]: "0 < year_days y"
  by (simp add: year_days_def)

lemma month_days_pos [simp]: "0 < month_days y m"
  by (simp add: month_days_def)

text \<open>The year and the day in it, counting days from the first of January of year \<open>y\<close>.\<close>

function split_year :: "nat \<Rightarrow> nat \<Rightarrow> nat \<times> nat" where
  "split_year y d = (if d < year_days y then (y, d) else split_year (y + 1) (d - year_days y))"
  by pat_completeness auto
termination
proof (relation "measure snd")
  show "wf (measure snd)" by simp
next
  fix y d :: nat
  assume "\<not> d < year_days y"
  then show "((y + 1, d - year_days y), y, d) \<in> measure snd"
    unfolding in_measure snd_conv using year_days_pos [of y] by linarith
qed

declare split_year.simps [simp del]

fun split_month :: "nat \<Rightarrow> nat list \<Rightarrow> nat \<Rightarrow> nat \<times> nat" where
  "split_month y [] d = (12, d)"
| "split_month y (m # ms) d =
     (if d < month_days y m then (m, d) else split_month y ms (d - month_days y m))"

text \<open>Days since 1970-01-01 to year, month and day of the month, and back.\<close>

definition civil_of_days :: "nat \<Rightarrow> nat \<times> nat \<times> nat" where
  "civil_of_days days =
     (let (y, d) = split_year 1970 days;
          (m, dm) = split_month y [1..<13] d
      in (y, m, dm + 1))"

definition days_of_civil :: "nat \<Rightarrow> nat \<Rightarrow> nat \<Rightarrow> nat" where
  "days_of_civil y m d = (\<Sum>i = 1970..<y. year_days i) + (\<Sum>i = 1..<m. month_days y i) + (d - 1)"

lemma split_year_sum:
  "split_year y d = (y', d') \<Longrightarrow> y \<le> y' \<and> d' < year_days y' \<and> d = (\<Sum>i = y..<y'. year_days i) + d'"
proof (induction y d rule: split_year.induct)
  case (1 y d)
  show ?case
  proof (cases "d < year_days y")
    case True
    then show ?thesis using "1.prems" by (subst (asm) split_year.simps) simp
  next
    case False
    then have "split_year (y + 1) (d - year_days y) = (y', d')"
      using "1.prems" by (subst (asm) split_year.simps) simp
    from "1.IH" [OF False this] False show ?thesis
      by (simp add: sum.atLeast_Suc_lessThan) linarith
  qed
qed

lemma split_month_sum:
  "\<lbrakk>split_month y [k..<13] d = (m, d'); 1 \<le> k; d < (\<Sum>i = k..<13. month_days y i)\<rbrakk>
   \<Longrightarrow> k \<le> m \<and> m < 13 \<and> d' < month_days y m \<and> d = (\<Sum>i = k..<m. month_days y i) + d'"
proof (induction "13 - k" arbitrary: k d)
  case 0
  then show ?case by simp
next
  case (Suc n)
  then have k: "k < 13" by simp
  then have up: "[k..<13] = k # [Suc k..<13]" by (rule upt_conv_Cons)
  show ?case
  proof (cases "d < month_days y k")
    case True
    then show ?thesis using Suc.prems k up by simp
  next
    case False
    have "split_month y [Suc k..<13] (d - month_days y k) = (m, d')"
      using Suc.prems(1) False up by simp
    moreover have "d - month_days y k < (\<Sum>i = Suc k..<13. month_days y i)"
      using Suc.prems(3) False k by (simp add: sum.atLeast_Suc_lessThan)
    ultimately have "Suc k \<le> m \<and> m < 13 \<and> d' < month_days y m
        \<and> d - month_days y k = (\<Sum>i = Suc k..<m. month_days y i) + d'"
      using Suc.hyps by (intro Suc.hyps(1)) auto
    then show ?thesis using False by (auto simp: sum.atLeast_Suc_lessThan)
  qed
qed

lemma year_days_months: "(\<Sum>i = 1..<13. month_days y i) = year_days y"
  by (simp add: month_days_def year_days_def numeral_eq_Suc)

lemma civil_of_days_ok:
  assumes "civil_of_days days = (y, m, d)"
  shows "1970 \<le> y \<and> 1 \<le> m \<and> m \<le> 12 \<and> 1 \<le> d \<and> d \<le> month_days y m \<and> days_of_civil y m d = days"
proof -
  obtain yd where y: "split_year 1970 days = (y, yd)"
    and "split_month y [1..<13] yd = (m, d - 1)" and d: "1 \<le> d"
    using assms unfolding civil_of_days_def by (auto simp: Let_def split: prod.splits)
  note y = split_year_sum [OF y]
  have "split_month y [1..<13] yd = (m, d - 1)" by fact
  from split_month_sum [OF this] y have "1 \<le> m \<and> m < 13 \<and> d - 1 < month_days y m
      \<and> yd = (\<Sum>i = 1..<m. month_days y i) + (d - 1)"
    by (simp only: year_days_months)
  then show ?thesis
    using y d by (simp add: days_of_civil_def) linarith
qed

lemma month_days_le: "month_days y m \<le> 31"
  by (simp add: month_days_def)

section \<open>The time string\<close>

text \<open>A number below \<open>10 ^ n\<close> in \<open>n\<close> digits, and its reader.\<close>

primrec digits :: "nat \<Rightarrow> nat \<Rightarrow> string" where
  "digits 0 v = []"
| "digits (Suc n) v = digits n (v div 10) @ [char_of (48 + v mod 10)]"

definition read_fixed :: "string \<Rightarrow> nat" where
  "read_fixed s = read_digits 0 s"

lemma length_digits [simp]: "length (digits n v) = n"
  by (induction n arbitrary: v) auto

lemma digits_are_digits: "list_all is_digit (digits n v)"
  by (induction n arbitrary: v) (simp_all add: digit_char)

lemma read_digits_fixed: "read_digits acc (digits n v) = acc * 10 ^ n + v mod 10 ^ n"
proof (induction n arbitrary: v acc)
  case 0
  show ?case by simp
next
  case (Suc n)
  have "v mod 10 ^ Suc n = 10 * (v div 10 mod 10 ^ n) + v mod 10"
    by (metis mod_mult2_eq power_Suc)
  then show ?case
    using Suc digit_char [of "v mod 10"]
    by (simp add: read_digits_append digits_are_digits algebra_simps)
qed

lemma read_fixed_digits: "v < 10 ^ n \<Longrightarrow> read_fixed (digits n v) = v"
  by (simp add: read_fixed_def read_digits_fixed)

text \<open>\<open>strftime\<close> with \<open>"%F %T"\<close> into 20 bytes, followed by \<open>".%03d"\<close>; a year of five digits does not
  fit and gives the text \<open>now()\<close>. \<open>now\<close> is the system clock, read when the time stamp is 0.\<close>

definition stamp :: "nat \<Rightarrow> nat \<Rightarrow> nat \<Rightarrow> nat \<Rightarrow> nat \<Rightarrow> nat \<Rightarrow> nat \<Rightarrow> string" where
  "stamp y m d hh mm ss ms = digits 4 y @ ''-'' @ digits 2 m @ ''-'' @ digits 2 d @ '' ''
     @ digits 2 hh @ '':'' @ digits 2 mm @ '':'' @ digits 2 ss @ ''.'' @ digits 3 ms"

definition TimeStringFromUnixMs :: "u64 \<Rightarrow> u64 \<Rightarrow> string \<times> u64" where
  "TimeStringFromUnixMs now timestamp =
     (if timestamp = 1 then (''now()'', timestamp)
      else let timestamp = (if timestamp = 0 then now else timestamp);
               ms = unat timestamp mod 1000;
               sec = unat timestamp div 1000;
               (y, m, d) = civil_of_days (sec div 86400);
               tod = sec mod 86400
      in if 9999 < y then (''now()'', timestamp)
         else (stamp y m d (tod div 3600) (tod div 60 mod 60) (tod mod 60) ms, timestamp))"

definition time_text :: "u64 \<Rightarrow> u64 \<Rightarrow> string" where
  "time_text now timestamp = fst (TimeStringFromUnixMs now timestamp)"

text \<open>The reader: the milliseconds a time string stands for.\<close>

definition field :: "string \<Rightarrow> nat \<Rightarrow> nat \<Rightarrow> nat" where
  "field s pos n = read_fixed (take n (drop pos s))"

definition read_time :: "string \<Rightarrow> nat" where
  "read_time s =
     (((days_of_civil (field s 0 4) (field s 5 2) (field s 8 2) * 24 + field s 11 2) * 60
       + field s 14 2) * 60 + field s 17 2) * 1000 + field s 20 3"

lemma read_stamp:
  assumes "y < 10000" "m < 100" "d < 100" "hh < 100" "mm < 100" "ss < 100" "ms < 1000"
  shows "read_time (stamp y m d hh mm ss ms)
    = (((days_of_civil y m d * 24 + hh) * 60 + mm) * 60 + ss) * 1000 + ms"
  using assms by (simp add: read_time_def field_def stamp_def read_fixed_digits)

lemma length_stamp: "length (stamp y m d hh mm ss ms) = 23"
  by (simp add: stamp_def)

lemma tod_fields: "(tod :: nat) = (tod div 3600 * 60 + tod div 60 mod 60) * 60 + tod mod 60"
proof -
  have "tod div 3600 = tod div 60 div 60"
    by (simp add: div_mult2_eq [symmetric])
  then have "tod div 3600 * 60 + tod div 60 mod 60 = tod div 60" by simp
  then show ?thesis by simp
qed

lemma clock_fields:
  "s mod 86400 div 3600 < (100 :: nat)" "(a :: nat) mod 60 < 100" "(b :: nat) mod 1000 < 1000"
proof -
  have "s mod 86400 < 100 * 3600"
    using mod_less_divisor [of 86400 s] by linarith
  then show "s mod 86400 div 3600 < 100" by (rule less_mult_imp_div_less)
  show "a mod 60 < 100" using mod_less_divisor [of 60 a] by linarith
  show "b mod 1000 < 1000" by (rule mod_less_divisor) simp
qed

lemma clock_sum:
  "((q * 24 + t div 3600) * 60 + t div 60 mod 60) * 60 + t mod 60 = q * 86400 + (t :: nat)"
proof -
  have *: "((q * 24 + a) * 60 + b) * 60 + c = q * 86400 + ((a * 60 + b) * 60 + c)" for a b c :: nat
    by simp
  show ?thesis
    unfolding * tod_fields [of t, symmetric] by (rule refl)
qed

text \<open>the time string loses nothing: for every time stamp other than the two special values whose year
  has four digits, reading back the text gives the time stamp to the millisecond, and the text
  has the 23 characters its buffer is sized for.\<close>
lemma time_string_roundtrip:
  assumes "timestamp \<noteq> 0" and "timestamp \<noteq> 1"
    and "fst (civil_of_days (unat timestamp div 86400000)) \<le> 9999"
  shows "read_time (time_text now timestamp) = unat timestamp
    \<and> length (time_text now timestamp) = 23"
proof -
  let ?t = "unat timestamp"
  let ?sec = "?t div 1000"
  let ?tod = "?sec mod 86400"
  obtain y m d where c: "civil_of_days (?sec div 86400) = (y, m, d)"
    by (cases "civil_of_days (?sec div 86400)")
  have sd: "?sec div 86400 = ?t div 86400000"
    by (simp add: div_mult2_eq [symmetric])
  have y: "y \<le> 9999" using assms(3) c sd by simp
  then have yl: "y < 10000" by simp
  note ok = civil_of_days_ok [OF c]
  have dc: "days_of_civil y m d = ?sec div 86400" using ok by blast
  have md: "m < 100" "d < 100" using ok month_days_le [of y m] by linarith+
  have tod: "?tod div 3600 < 100" "?tod div 60 mod 60 < 100" "?tod mod 60 < 100" "?t mod 1000 < 1000"
    by (rule clock_fields)+
  have str: "time_text now timestamp =
      stamp y m d (?tod div 3600) (?tod div 60 mod 60) (?tod mod 60) (?t mod 1000)"
    using assms(1,2) c y by (simp add: time_text_def TimeStringFromUnixMs_def Let_def)
  have "read_time (time_text now timestamp) = (?sec div 86400 * 86400 + ?tod) * 1000 + ?t mod 1000"
    unfolding str read_stamp [OF yl md tod] dc clock_sum by (rule refl)
  also have "?sec div 86400 * 86400 + ?tod = ?sec" by (rule div_mult_mod_eq)
  also have "?sec * 1000 + ?t mod 1000 = ?t" by (rule div_mult_mod_eq)
  finally show ?thesis by (simp add: str length_stamp)
qed

lemma fst_civil_of_days: "fst (civil_of_days days) = fst (split_year 1970 days)"
  by (simp add: civil_of_days_def Let_def split: prod.split)

lemma time_string_roundtrip_witness:
  "read_time (time_text 0 951782400123) = 951782400123
   \<and> length (time_text 0 951782400123) = 23
   \<and> fst (civil_of_days (951782400123 div 86400000)) = 2000"
proof -
  have year: "fst (civil_of_days (951782400123 div 86400000)) = 2000"
    unfolding fst_civil_of_days by (simp add: split_year.simps year_days_def leap_def)
  then show ?thesis
    using time_string_roundtrip [of 951782400123 0] by simp
qed

section \<open>Escaping text for JSON\<close>

text \<open>\<open>std::isspace\<close> in the C locale: tab, line feed, vertical tab, form feed, carriage return, blank.\<close>

definition isspace :: "char \<Rightarrow> bool" where
  "isspace c \<longleftrightarrow> (of_char c :: nat) \<in> {9, 10, 11, 12, 13, 32}"

definition strip_trailing :: "string \<Rightarrow> string" where
  "strip_trailing s = rev (dropWhile isspace (rev s))"

definition quote_char :: char where "quote_char = CHR 0x22"
definition backslash :: char where "backslash = CHR 0x5C"
definition line_feed :: char where "line_feed = CHR 0x0A"
definition carriage_return :: char where "carriage_return = CHR 0x0D"

definition escape_char :: "char \<Rightarrow> string" where
  "escape_char a =
     (if a = quote_char \<or> a = backslash then [backslash, a]
      else if a = line_feed \<or> a = carriage_return then [backslash, CHR ''n'']
      else [a])"

definition JsonEscape :: "string \<Rightarrow> string" where
  "JsonEscape s = concat (map escape_char (strip_trailing s))"

text \<open>A JSON string literal after its opening quote: the characters it denotes and the text after the
  closing quote. Control characters may not appear in it; \<open>\u\<close> escapes are not needed here.\<close>

definition control :: "char \<Rightarrow> bool" where
  "control c \<longleftrightarrow> (of_char c :: nat) < 32"

definition unescape :: "char \<Rightarrow> char option" where
  "unescape c =
     (if c = quote_char \<or> c = backslash \<or> c = CHR ''/'' then Some c
      else if c = CHR ''n'' then Some line_feed
      else if c = CHR ''r'' then Some carriage_return
      else if c = CHR ''t'' then Some (CHR 0x09)
      else if c = CHR ''b'' then Some (CHR 0x08)
      else if c = CHR ''f'' then Some (CHR 0x0C)
      else None)"

fun json_lex :: "string \<Rightarrow> (string \<times> string) option" where
  "json_lex [] = None"
| "json_lex [c] = (if c = quote_char then Some ([], []) else None)"
| "json_lex (c # d # cs) =
     (if c = quote_char then Some ([], d # cs)
      else if c = backslash then
        (case unescape d of
           None \<Rightarrow> None
         | Some e \<Rightarrow> map_option (\<lambda>(xs, rest). (e # xs, rest)) (json_lex cs))
      else if control c then None
      else map_option (\<lambda>(xs, rest). (c # xs, rest)) (json_lex (d # cs)))"

text \<open>What the reader sees: line ends of both kinds as line feeds, and no trailing white space.\<close>

definition normal_char :: "char \<Rightarrow> char" where
  "normal_char c = (if c = carriage_return then line_feed else c)"

definition stray_control :: "char \<Rightarrow> bool" where
  "stray_control c \<longleftrightarrow> control c \<and> c \<noteq> line_feed \<and> c \<noteq> carriage_return"

lemmas char_consts = quote_char_def backslash_def line_feed_def carriage_return_def

lemma json_lex_escape_char:
  "json_lex (escape_char c @ d # cs) =
     (if stray_control c then None
      else map_option (\<lambda>(xs, rest). (normal_char c # xs, rest)) (json_lex (d # cs)))"
  by (auto simp: escape_char_def normal_char_def stray_control_def control_def unescape_def char_consts)

lemma json_lex_escaped:
  "json_lex (concat (map escape_char s) @ quote_char # rest) =
     (if list_ex stray_control s then None else Some (map normal_char s, rest))"
proof (induction s)
  case Nil
  show ?case by (cases rest) simp_all
next
  case (Cons c s)
  obtain d ds where t: "concat (map escape_char s) @ quote_char # rest = d # ds"
    by (cases "concat (map escape_char s) @ quote_char # rest") auto
  have "json_lex (concat (map escape_char (c # s)) @ quote_char # rest)
      = json_lex (escape_char c @ d # ds)"
    using t by simp
  also have "\<dots> = (if stray_control c then None
      else map_option (\<lambda>(xs, rest). (normal_char c # xs, rest)) (json_lex (d # ds)))"
    by (rule json_lex_escape_char)
  finally show ?case
    using Cons.IH t by simp
qed

text \<open>a user's message cannot break out of its JSON string: whatever it contains, a JSON lexer reads the
  escaped text up to exactly the closing quote the sender wrote and gets the message back, without
  trailing white space and with line ends as line feeds; unless it holds another control
  character, which \<open>JsonEscape\<close> lets through and strict JSON forbids.\<close>
lemma json_escape_lexes_back:
  "json_lex (JsonEscape s @ quote_char # rest) =
     (if list_ex stray_control (strip_trailing s) then None
      else Some (map normal_char (strip_trailing s), rest))"
  unfolding JsonEscape_def by (rule json_lex_escaped)

end
