(* ===== verification/ServicesBuffers.thy ===== *)
theory ServicesBuffers
  imports ServicesBackend ServicesText
begin

text \<open>
  The buffers of the services layer (\<open>Services.cpp\<close>): log messages merged when repeated, monitoring
  messages kept one per device and subject, alarms remembered for a cooldown, and the batches in
  which logs and monitoring data are multicast. The state is over the type \<open>'b\<close> of the backend; its
  multicast operation \<open>mc\<close> is an argument, and \<open>SendMulticast\<close> of the backend is one (locale
  \<open>multicast\<close>). \<open>now\<close> is the system clock in milliseconds, \<open>now_s\<close> the result of \<open>time(0)\<close>.
  An \<open>unordered_map\<close> is an association list; \<open>order\<close> is the order its iterator visits it in.
\<close>

section \<open>State\<close>

datatype LogLevel = Error | Warning | Message | Debug | Debug1 | Debug2 | Debug3

primrec level_number :: "LogLevel \<Rightarrow> nat" where
  "level_number Error = 0"
| "level_number Warning = 1"
| "level_number Message = 2"
| "level_number Debug = 3"
| "level_number Debug1 = 4"
| "level_number Debug2 = 5"
| "level_number Debug3 = 6"

record LogMsg =
  lm_message :: string
  lm_severity :: LogLevel
  lm_device :: string
  lm_timestamp :: u64
  lm_repeats :: u32

definition LogMsg_new :: "string \<Rightarrow> LogLevel \<Rightarrow> string \<Rightarrow> u64 \<Rightarrow> LogMsg" where
  "LogMsg_new message severity device timestamp =
     \<lparr>lm_message = message, lm_severity = severity, lm_device = device, lm_timestamp = timestamp,
      lm_repeats = 0\<rparr>"

record MonitoringMsg =
  mm_json_data :: string
  mm_subject :: string
  mm_device :: string
  mm_timestamp :: u64

record AlarmMsg =
  am_message :: string
  am_device :: string
  am_timestamp :: u64

record 'b services =
  sv_name :: string
  logging_buf :: "LogMsg list"
  monitoring_buf :: "(string \<times> MonitoringMsg) list"
  monitoring_msgs_sent :: "string \<rightharpoonup> u64"
  alarm_buf :: "AlarmMsg list"
  logging_batch_bytes :: u64
  monitoring_batch_bytes :: u64
  mon_merge_period_ms :: u32
  alarm_cooldown_ms :: u32
  MSS_SIZE :: u32
  sv_backend :: 'b

type_synonym 'b mc = "MulticastType \<Rightarrow> string \<Rightarrow> 'b \<Rightarrow> bool \<times> string \<times> 'b"

definition MAX_MSG_SIZE :: nat where "MAX_MSG_SIZE = MAX_UDP_PACKET_SIZE - 100"

section \<open>Batches\<close>

definition device_or_self :: "'b services \<Rightarrow> string \<Rightarrow> string" where
  "device_or_self s device = (if device = [] then sv_name s else device)"

definition stamp_or_now :: "u64 \<Rightarrow> u64 \<Rightarrow> u64" where
  "stamp_or_now now timestamp = (if timestamp \<noteq> 0 then timestamp else now)"

definition render_log :: "u64 \<Rightarrow> LogMsg \<Rightarrow> string" where
  \<open>render_log now m =
     ''{"topic":"LOGGING","time":"'' @ time_text now (lm_timestamp m)
     @ ''","device":"'' @ lm_device m
     @ ''","severity":'' @ nat_str (level_number (lm_severity m))
     @ '',"message":"'' @ JsonEscape (lm_message m)
     @ ''","repeats":'' @ nat_str (unat (lm_repeats m)) @ ''}''\<close>

definition render_monitoring :: "u64 \<Rightarrow> MonitoringMsg \<Rightarrow> string" where
  \<open>render_monitoring now m =
     ''{"topic":"MONITORING","time":"'' @ time_text now (mm_timestamp m)
     @ ''","device":"'' @ mm_device m
     @ ''","subject":"'' @ mm_subject m
     @ ''","data":'' @ mm_json_data m @ ''}''\<close>

definition log_batch :: "u64 \<Rightarrow> LogMsg list \<Rightarrow> string" where
  "log_batch now buf = join_comma (map (render_log now) buf)"

definition monitoring_batch :: "u64 \<Rightarrow> (string \<times> MonitoringMsg) list \<Rightarrow> string" where
  "monitoring_batch now buf = join_comma (map (render_monitoring now \<circ> snd) buf)"

text \<open>The two halves of \<open>BatchAndSendMulticast\<close>, and its pruning of the alarm buffer. What the send
  returned is ignored: the buffer is cleared either way.\<close>

definition flush_logging :: "'b mc \<Rightarrow> u64 \<Rightarrow> 'b services \<Rightarrow> 'b services" where
  "flush_logging mc now s =
     (let local_merge_buf = log_batch now (logging_buf s) in
      if local_merge_buf \<noteq> [] then
        s\<lparr>sv_backend := snd (snd (mc Log local_merge_buf (sv_backend s))),
          logging_buf := [], logging_batch_bytes := 0\<rparr>
      else s)"

definition flush_monitoring ::
    "'b mc \<Rightarrow> ((string \<times> MonitoringMsg) list \<Rightarrow> (string \<times> MonitoringMsg) list) \<Rightarrow> u64 \<Rightarrow> bool
      \<Rightarrow> 'b services \<Rightarrow> 'b services" where
  "flush_monitoring mc order now mon_lock s =
     (let local_merge_buf = monitoring_batch now (order (monitoring_buf s)) in
      if local_merge_buf \<noteq> [] then
        s\<lparr>sv_backend := snd (snd (mc Monitoring local_merge_buf (sv_backend s))),
          monitoring_buf := [], monitoring_batch_bytes := 0,
          monitoring_msgs_sent := (if mon_lock then Map.empty else monitoring_msgs_sent s)\<rparr>
      else s)"

definition prune_alarms :: "u64 \<Rightarrow> 'b services \<Rightarrow> 'b services" where
  "prune_alarms now_s s =
     s\<lparr>alarm_buf := filter (\<lambda>a. \<not> unat (alarm_cooldown_ms s) < unat (now_s * 1000 - am_timestamp a))
                     (alarm_buf s)\<rparr>"

definition BatchAndSendMulticast ::
    "'b mc \<Rightarrow> ((string \<times> MonitoringMsg) list \<Rightarrow> (string \<times> MonitoringMsg) list) \<Rightarrow> u64 \<Rightarrow> u64 \<Rightarrow> bool
      \<Rightarrow> 'b services \<Rightarrow> 'b services" where
  "BatchAndSendMulticast mc order now now_s mon_lock s =
     prune_alarms now_s (flush_monitoring mc order now mon_lock (flush_logging mc now s))"

section \<open>Sending logs and monitoring data\<close>

definition too_long :: "u64 \<Rightarrow> bool" where
  "too_long compressed_bytes \<longleftrightarrow> ZSTD_isError compressed_bytes \<or> MAX_MSG_SIZE < unat compressed_bytes"

definition SendLog ::
    "'b mc \<Rightarrow> ((string \<times> MonitoringMsg) list \<Rightarrow> (string \<times> MonitoringMsg) list) \<Rightarrow> u64 \<Rightarrow> u64
      \<Rightarrow> string \<Rightarrow> LogLevel \<Rightarrow> string \<Rightarrow> u64 \<Rightarrow> 'b services \<Rightarrow> bool \<times> 'b services" where
  "SendLog mc order now now_s message severity device timestamp s =
     (let name = device_or_self s device;
          ts = stamp_or_now now timestamp;
          buf = logging_buf s
      in if buf \<noteq> [] \<and> name = lm_device (last buf) \<and> message = lm_message (last buf) then
           (True, s\<lparr>logging_buf := butlast buf @ [(last buf)\<lparr>lm_repeats := lm_repeats (last buf) + 1\<rparr>]\<rparr>)
         else let compressed_bytes = ZSTD_compressBound (of_nat (length message + length name)) in
         if too_long compressed_bytes then (False, s)
         else let s = (if unat (MSS_SIZE s) < unat (compressed_bytes + logging_batch_bytes s)
                       then BatchAndSendMulticast mc order now now_s True s else s)
         in (True, s\<lparr>logging_buf := logging_buf s @ [LogMsg_new message severity name ts],
                     logging_batch_bytes := logging_batch_bytes s + compressed_bytes\<rparr>))"

text \<open>\<open>emplace\<close> inserts only when the key is absent.\<close>

definition emplace :: "'k \<Rightarrow> 'v \<Rightarrow> ('k \<times> 'v) list \<Rightarrow> ('k \<times> 'v) list" where
  "emplace k v xs = (if map_of xs k = None then xs @ [(k, v)] else xs)"

definition SendMonitoringData ::
    "'b mc \<Rightarrow> ((string \<times> MonitoringMsg) list \<Rightarrow> (string \<times> MonitoringMsg) list) \<Rightarrow> u64 \<Rightarrow> u64
      \<Rightarrow> string \<Rightarrow> string \<Rightarrow> string \<Rightarrow> u64 \<Rightarrow> 'b services \<Rightarrow> bool \<times> 'b services" where
  "SendMonitoringData mc order now now_s json_data subject device timestamp s =
     (let name = device_or_self s device;
          ts = stamp_or_now now timestamp;
          key = name @ subject
      in if (case monitoring_msgs_sent s key of None \<Rightarrow> False
             | Some sent \<Rightarrow> unat (ts - sent) < unat (mon_merge_period_ms s)) then (True, s)
         else let compressed_bytes =
                ZSTD_compressBound (of_nat (length json_data + length name + length subject)) in
         if too_long compressed_bytes then (False, s)
         else let s = (if unat (MSS_SIZE s) < unat (compressed_bytes + monitoring_batch_bytes s)
                       then BatchAndSendMulticast mc order now now_s False s else s)
         in (True, s\<lparr>monitoring_buf := emplace key
                        \<lparr>mm_json_data = json_data, mm_subject = subject, mm_device = name,
                         mm_timestamp = ts\<rparr> (monitoring_buf s),
                     monitoring_msgs_sent := (case monitoring_msgs_sent s key of
                        None \<Rightarrow> (monitoring_msgs_sent s)(key \<mapsto> ts)
                      | Some t \<Rightarrow> monitoring_msgs_sent s),
                     monitoring_batch_bytes := monitoring_batch_bytes s + compressed_bytes\<rparr>))"

text \<open>A plot is multicast at once, on the logging address.\<close>

definition SendROOTplotMulticast ::
    "'b mc \<Rightarrow> u64 \<Rightarrow> string \<Rightarrow> string \<Rightarrow> string \<Rightarrow> nat \<Rightarrow> u64 \<Rightarrow> 'b services \<Rightarrow> bool \<times> 'b services" where
  \<open>SendROOTplotMulticast mc now plot_name draw_options json_data lifetime timestamp s =
     (let cmd_string = ''{"topic":"TROOTPLOT", "time":"'' @ time_text now timestamp
            @ ''", "name":"'' @ plot_name @ ''", "draw_options":"'' @ draw_options
            @ ''", "lifetime":'' @ nat_str lifetime @ '', "data":'' @ json_data @ ''}'';
          compressed_bytes = ZSTD_compressBound (of_nat (length cmd_string))
      in if ZSTD_isError compressed_bytes \<or> MAX_UDP_PACKET_SIZE < unat compressed_bytes then (False, s)
         else let (ok, err, b) = mc Log cmd_string (sv_backend s) in (ok, s\<lparr>sv_backend := b\<rparr>))\<close>

section \<open>Alarms\<close>

definition stale :: "u32 \<Rightarrow> u64 \<Rightarrow> AlarmMsg \<Rightarrow> bool" where
  "stale cooldown timestamp a \<longleftrightarrow>
     unat cooldown < unat (if timestamp > am_timestamp a then timestamp - am_timestamp a
                           else am_timestamp a - timestamp)"

text \<open>The loop over the buffer: \<open>None\<close> when the same alarm is found, after the stale alarms before it
  have been erased; the cleaned buffer otherwise.\<close>

fun find_alarm ::
    "u32 \<Rightarrow> u64 \<Rightarrow> string \<Rightarrow> string \<Rightarrow> AlarmMsg list \<Rightarrow> bool \<times> AlarmMsg list" where
  "find_alarm cooldown timestamp device message [] = (False, [])"
| "find_alarm cooldown timestamp device message (a # as) =
     (if stale cooldown timestamp a then find_alarm cooldown timestamp device message as
      else if am_device a = device \<and> am_message a = message then (True, a # as)
      else let (found, rest) = find_alarm cooldown timestamp device message as in (found, a # rest))"

text \<open>The command channel \<open>cc\<close> is the backend's \<open>SendCommand\<close>; the alarm goes out as a command, and as a
  log message whatever became of the command.\<close>

definition SendAlarm ::
    "'b mc \<Rightarrow> (string \<Rightarrow> string \<Rightarrow> 'b \<Rightarrow> bool \<times> 'b) \<Rightarrow> u64 \<Rightarrow> string \<Rightarrow> bool \<Rightarrow> string \<Rightarrow> u64
      \<Rightarrow> 'b services \<Rightarrow> bool \<times> 'b services" where
  \<open>SendAlarm mc cc now message critical device timestamp s =
     (let name = device_or_self s device;
          (timestring, timestamp) = TimeStringFromUnixMs now timestamp;
          (found, buf) = find_alarm (alarm_cooldown_ms s) timestamp device message (alarm_buf s)
      in if found then (True, s\<lparr>alarm_buf := buf\<rparr>)
         else
           let s = s\<lparr>alarm_buf := buf @ [\<lparr>am_message = message, am_device = device,
                                           am_timestamp = timestamp\<rparr>]\<rparr>;
               cmd_string = ''{"time":"'' @ timestring @ ''","device":"'' @ name
                  @ ''","critical":'' @ nat_str (of_bool critical)
                  @ '',"description":"'' @ message @ ''"}'';
               (ok, b) = cc ''W_ALARM'' cmd_string (sv_backend s);
               log_string = ''{"topic":"LOGGING","time":"'' @ timestring @ ''","device":"'' @ name
                  @ ''","severity":0,"message":"'' @ message @ ''"}'';
               (logged, err, b) = mc Log log_string b
           in (ok, s\<lparr>sv_backend := b\<rparr>))\<close>

text \<open>One turn of \<open>BufferThread\<close>.\<close>

definition BufferThread ::
    "'b mc \<Rightarrow> ((string \<times> MonitoringMsg) list \<Rightarrow> (string \<times> MonitoringMsg) list) \<Rightarrow> u64 \<Rightarrow> u64
      \<Rightarrow> 'b services \<Rightarrow> 'b services" where
  "BufferThread mc order now now_s s = BatchAndSendMulticast mc order now now_s True s"

end
