(* ===== verification/ServicesBufferProofs.thy ===== *)
theory ServicesBufferProofs
  imports ServicesBuffers
begin

text \<open>
  What the buffers guarantee: the byte counts that decide when a batch is sent are exact and
  bounded, no accepted log message is lost or invented by merging and batching, which monitoring
  messages are kept, and which alarms are sent. The lemmas on what reaches the wire are proved once
  in the locale \<open>multicast\<close> and used for the backend through its interpretation \<open>bmc\<close>.
\<close>

section \<open>Batches and the wire\<close>

lemma render_log_nonempty [simp]: "render_log now m \<noteq> []"
  by (simp add: render_log_def)

lemma render_monitoring_nonempty [simp]: "render_monitoring now m \<noteq> []"
  by (simp add: render_monitoring_def)

lemma join_comma_empty: "(\<forall>x \<in> set xs. x \<noteq> []) \<Longrightarrow> join_comma xs = [] \<longleftrightarrow> xs = []"
  by (cases xs rule: join_comma.cases) auto

lemma log_batch_empty [simp]: "log_batch now buf = [] \<longleftrightarrow> buf = []"
  unfolding log_batch_def by (subst join_comma_empty) auto

lemma monitoring_batch_empty [simp]: "monitoring_batch now buf = [] \<longleftrightarrow> buf = []"
  unfolding monitoring_batch_def by (subst join_comma_empty) auto

definition log_datagrams :: "(MulticastType \<times> string) list \<Rightarrow> (MulticastType \<times> string) list" where
  "log_datagrams ds = filter (\<lambda>d. fst d = Log) ds"

context multicast
begin

lemma flush_logging_wire:
  "\<exists>out. wire (sv_backend (flush_logging send now s)) = wire (sv_backend s) @ out
     \<and> (out = [] \<or> logging_buf s \<noteq> [] \<and> out = [(Log, encoded (sv_backend s) (log_batch now (logging_buf s)))])"
  by (auto simp: flush_logging_def Let_def wire_grows)

lemma flush_monitoring_wire:
  "\<exists>out. wire (sv_backend (flush_monitoring send order now l s)) = wire (sv_backend s) @ out
     \<and> (\<forall>d \<in> set out. fst d = Monitoring)"
  by (auto simp: flush_monitoring_def Let_def wire_grows)

lemma batch_log_wire:
  "\<exists>out. log_datagrams (wire (sv_backend (BatchAndSendMulticast send order now now_s l s)))
       = log_datagrams (wire (sv_backend s)) @ out
     \<and> (out = [] \<or> logging_buf s \<noteq> [] \<and> out = [(Log, encoded (sv_backend s) (log_batch now (logging_buf s)))])"
proof -
  let ?s1 = "flush_logging send now s"
  obtain o1 where o1: "wire (sv_backend ?s1) = wire (sv_backend s) @ o1"
    "o1 = [] \<or> logging_buf s \<noteq> [] \<and> o1 = [(Log, encoded (sv_backend s) (log_batch now (logging_buf s)))]"
    using flush_logging_wire by blast
  obtain o2 where o2: "wire (sv_backend (flush_monitoring send order now l ?s1)) = wire (sv_backend ?s1) @ o2"
    "\<forall>d \<in> set o2. fst d = Monitoring"
    using flush_monitoring_wire by blast
  have "filter (\<lambda>d. fst d = Log) o2 = []"
    using o2(2) by (induction o2) auto
  then have "log_datagrams (wire (sv_backend (BatchAndSendMulticast send order now now_s l s)))
      = log_datagrams (wire (sv_backend s)) @ log_datagrams o1"
    using o1(1) o2(1) by (simp add: BatchAndSendMulticast_def prune_alarms_def log_datagrams_def)
  moreover have "log_datagrams o1 = o1"
    using o1(2) by (auto simp: log_datagrams_def)
  ultimately show ?thesis using o1(2) by blast
qed

end

lemma flush_monitoring_log [simp]:
  "logging_buf (flush_monitoring mc order now l s) = logging_buf s"
  "logging_batch_bytes (flush_monitoring mc order now l s) = logging_batch_bytes s"
  "MSS_SIZE (flush_monitoring mc order now l s) = MSS_SIZE s"
  "sv_name (flush_monitoring mc order now l s) = sv_name s"
  by (simp_all add: flush_monitoring_def Let_def)

lemma flush_logging_mon [simp]:
  "monitoring_buf (flush_logging mc now s) = monitoring_buf s"
  "monitoring_batch_bytes (flush_logging mc now s) = monitoring_batch_bytes s"
  "monitoring_msgs_sent (flush_logging mc now s) = monitoring_msgs_sent s"
  "MSS_SIZE (flush_logging mc now s) = MSS_SIZE s"
  "sv_name (flush_logging mc now s) = sv_name s"
  by (simp_all add: flush_logging_def Let_def)

lemma flush_logging_empties:
  "logging_buf (flush_logging mc now s) = []"
  by (simp add: flush_logging_def Let_def)

lemma batch_simps [simp]:
  "logging_buf (BatchAndSendMulticast mc order now now_s l s) = []"
  "MSS_SIZE (BatchAndSendMulticast mc order now now_s l s) = MSS_SIZE s"
  "sv_name (BatchAndSendMulticast mc order now now_s l s) = sv_name s"
  by (simp_all add: BatchAndSendMulticast_def prune_alarms_def flush_logging_empties)

lemma batch_bytes:
  "logging_batch_bytes (BatchAndSendMulticast mc order now now_s l s)
     = (if logging_buf s = [] then logging_batch_bytes s else 0)"
  by (simp add: BatchAndSendMulticast_def prune_alarms_def flush_logging_def Let_def)

section \<open>Byte counts\<close>

definition log_cost :: "LogMsg \<Rightarrow> nat" where
  "log_cost m = unat (ZSTD_compressBound (of_nat (length (lm_message m) + length (lm_device m))))"

definition monitoring_cost :: "MonitoringMsg \<Rightarrow> nat" where
  "monitoring_cost m =
     unat (ZSTD_compressBound (of_nat (length (mm_json_data m) + length (mm_device m) + length (mm_subject m))))"

definition byte_limit :: "'b services \<Rightarrow> nat" where
  "byte_limit s = max (unat (MSS_SIZE s)) MAX_MSG_SIZE"

definition log_bytes_ok :: "'b services \<Rightarrow> bool" where
  "log_bytes_ok s \<longleftrightarrow> unat (logging_batch_bytes s) = sum_list (map log_cost (logging_buf s))
     \<and> unat (logging_batch_bytes s) \<le> byte_limit s"

definition monitoring_bytes_ok :: "'b services \<Rightarrow> bool" where
  "monitoring_bytes_ok s \<longleftrightarrow>
     sum_list (map (monitoring_cost \<circ> snd) (monitoring_buf s)) \<le> unat (monitoring_batch_bytes s)
     \<and> (monitoring_buf s = [] \<longrightarrow> monitoring_batch_bytes s = 0)
     \<and> unat (monitoring_batch_bytes s) \<le> byte_limit s"

lemma byte_limit_less: "byte_limit s < 2 ^ 32"
  using unsigned_less [of "MSS_SIZE s", where ?'a = nat]
  by (simp add: byte_limit_def MAX_MSG_SIZE_def MAX_UDP_PACKET_SIZE_def)

text \<open>Adding the cost of a message that is not too long to a count within the limit does not wrap.\<close>

lemma count_grows:
  assumes "\<not> too_long c" and "unat n \<le> byte_limit s"
  shows "unat (c + n) = unat c + unat n" and "unat (n + c) = unat n + unat c"
proof -
  have "unat c \<le> MAX_MSG_SIZE" using assms(1) by (simp add: too_long_def)
  then have "unat c + unat n < 2 ^ 64"
    using assms(2) byte_limit_less [of s] by (simp add: MAX_MSG_SIZE_def MAX_UDP_PACKET_SIZE_def)
  then show "unat (c + n) = unat c + unat n" and "unat (n + c) = unat n + unat c"
    using unat_plus_less [of c n] unat_plus_less [of n c] by (simp_all add: add.commute)
qed

lemma count_stays_within:
  assumes "\<not> too_long c" and "unat n \<le> byte_limit s" and "\<not> unat (MSS_SIZE s) < unat (c + n)"
  shows "unat (n + c) \<le> byte_limit s"
  using assms(3) by (simp add: byte_limit_def add.commute)

lemma cost_within: "\<not> too_long c \<Longrightarrow> unat c \<le> byte_limit s"
  by (simp add: too_long_def byte_limit_def max.coboundedI2)

lemma byte_limit_simps [simp]:
  "byte_limit (BatchAndSendMulticast mc order now now_s l s) = byte_limit s"
  by (simp add: byte_limit_def)

lemma log_bytes_flush:
  "log_bytes_ok s \<Longrightarrow> log_bytes_ok (BatchAndSendMulticast mc order now now_s l s)
     \<and> logging_batch_bytes (BatchAndSendMulticast mc order now now_s l s) = 0"
  by (auto simp: log_bytes_ok_def batch_bytes unat_eq_0)

lemma log_cost_new [simp]:
  "log_cost (LogMsg_new message severity name ts)
     = unat (ZSTD_compressBound (of_nat (length message + length name)))"
  by (simp add: log_cost_def LogMsg_new_def)

text \<open>The three ways a call of \<open>SendLog\<close> goes.\<close>

lemma SendLog_cases:
  assumes "SendLog mc order now now_s message severity device timestamp s = (ok, s')"
  obtains (merged) "logging_buf s \<noteq> []" "ok" "lm_device (last (logging_buf s)) = device_or_self s device"
      "lm_message (last (logging_buf s)) = message"
      "s' = s\<lparr>logging_buf := butlast (logging_buf s)
                @ [(last (logging_buf s))\<lparr>lm_repeats := lm_repeats (last (logging_buf s)) + 1\<rparr>]\<rparr>"
  | (rejected) "\<not> ok" "s' = s"
      "too_long (ZSTD_compressBound (of_nat (length message + length (device_or_self s device))))"
  | (added) s1 c where "ok" "c = ZSTD_compressBound (of_nat (length message + length (device_or_self s device)))"
      "\<not> too_long c"
      "s1 = (if unat (MSS_SIZE s) < unat (c + logging_batch_bytes s)
             then BatchAndSendMulticast mc order now now_s True s else s)"
      "s' = s1\<lparr>logging_buf := logging_buf s1 @ [LogMsg_new message severity (device_or_self s device)
                 (stamp_or_now now timestamp)],
               logging_batch_bytes := logging_batch_bytes s1 + c\<rparr>"
proof -
  let ?buf = "logging_buf s" and ?name = "device_or_self s device"
  let ?same = "?buf \<noteq> [] \<and> ?name = lm_device (last ?buf) \<and> message = lm_message (last ?buf)"
  let ?c = "ZSTD_compressBound (of_nat (length message + length ?name))"
  show thesis
  proof (cases ?same)
    case True
    have "(ok, s') = (True, s\<lparr>logging_buf := butlast ?buf
        @ [(last ?buf)\<lparr>lm_repeats := lm_repeats (last ?buf) + 1\<rparr>]\<rparr>)"
      using assms unfolding SendLog_def Let_def if_P [OF True] by (rule sym)
    with True show thesis by (intro merged) simp_all
  next
    case False
    show thesis
    proof (cases "too_long ?c")
      case True
      have "(ok, s') = (False, s)"
        using assms unfolding SendLog_def Let_def if_not_P [OF False] if_P [OF True] by (rule sym)
      with True show thesis by (intro rejected) simp_all
    next
      case long: False
      let ?s1 = "if unat (MSS_SIZE s) < unat (?c + logging_batch_bytes s)
             then BatchAndSendMulticast mc order now now_s True s else s"
      have "(ok, s') = (True,
          ?s1\<lparr>logging_buf := logging_buf ?s1 @ [LogMsg_new message severity ?name (stamp_or_now now timestamp)],
               logging_batch_bytes := logging_batch_bytes ?s1 + ?c\<rparr>)"
        using assms unfolding SendLog_def Let_def if_not_P [OF False] if_not_P [OF long]
        by (rule sym)
      with long show thesis by (intro added [of ?c ?s1]) simp_all
    qed
  qed
qed

text \<open>the count that decides when a log batch is sent is exact and never wraps: after every call of
  \<open>SendLog\<close> it is again the sum of the worst-case sizes of the messages waiting, and at most the
  MTU payload or one longest message, whichever is larger.\<close>
theorem log_bytes_invariant:
  assumes "log_bytes_ok s" and "SendLog mc order now now_s message severity device timestamp s = (ok, s')"
  shows "log_bytes_ok s'"
  using assms(2)
proof (cases rule: SendLog_cases)
  case merged
  have "sum_list (map log_cost (logging_buf s')) = sum_list (map log_cost (logging_buf s))"
    using merged(1,5) by (cases "logging_buf s" rule: rev_cases) (simp_all add: log_cost_def)
  then show ?thesis
    using assms(1) merged(5) by (simp add: log_bytes_ok_def byte_limit_def)
next
  case rejected
  then show ?thesis using assms(1) by simp
next
  case (added s1 c)
  show ?thesis
  proof (cases "unat (MSS_SIZE s) < unat (c + logging_batch_bytes s)")
    case True
    then show ?thesis
      using added log_bytes_flush [OF assms(1), of mc order now now_s True] cost_within [of c s]
      by (simp add: log_bytes_ok_def byte_limit_def)
  next
    case False
    have "unat (logging_batch_bytes s) \<le> byte_limit s"
      using assms(1) by (simp add: log_bytes_ok_def)
    from count_grows [OF added(3) this] count_stays_within [OF added(3) this False] show ?thesis
      using added False assms(1) by (simp add: log_bytes_ok_def byte_limit_def)
  qed
qed

section \<open>The history of log messages\<close>

text \<open>What a list of log entries stands for: each message as often as it was sent.\<close>

definition expand :: "LogMsg list \<Rightarrow> (string \<times> string) list" where
  "expand buf = concat (map (\<lambda>m. replicate (Suc (unat (lm_repeats m))) (lm_device m, lm_message m)) buf)"

lemma expand_simps [simp]:
  "expand [] = []" "expand (xs @ ys) = expand xs @ expand ys"
  by (simp_all add: expand_def)

definition room :: "nat \<Rightarrow> LogMsg list \<Rightarrow> bool" where
  "room k buf \<longleftrightarrow> (\<forall>m \<in> set buf. unat (lm_repeats m) + k < 2 ^ 32)"

lemma room_append [simp]: "room k (xs @ ys) \<longleftrightarrow> room k xs \<and> room k ys" "room k []"
  by (auto simp: room_def)

lemma room_mono: "room (Suc k) buf \<Longrightarrow> room k buf"
  by (auto simp: room_def dest: Suc_lessD)

lemma room_new: "k < 2 ^ 32 \<Longrightarrow> room k [LogMsg_new m sv d t]"
  by (simp add: room_def LogMsg_new_def)

lemma unat_repeat:
  assumes "room (Suc k) [m]"
  shows "unat (lm_repeats m + 1) = unat (lm_repeats m) + 1"
  using assms by (simp add: room_def unat_word_ariths)

lemma expand_repeat:
  assumes "room (Suc k) [m]"
  shows "expand [m\<lparr>lm_repeats := lm_repeats m + 1\<rparr>] = expand [m] @ [(lm_device m, lm_message m)]"
  using unat_repeat [OF assms] by (simp add: expand_def replicate_append_same)

lemma room_repeat: "room (Suc k) [m] \<Longrightarrow> room k [m\<lparr>lm_repeats := lm_repeats m + 1\<rparr>]"
  using unat_repeat [of k m] by (simp add: room_def)

lemma expand_new [simp]: "expand [LogMsg_new message sv name ts] = [(name, message)]"
  by (simp add: expand_def LogMsg_new_def)

text \<open>A sequence of calls, each with its clocks, and what the calls that returned true asked for.\<close>

record log_call =
  lc_now :: u64
  lc_now_s :: u64
  lc_message :: string
  lc_severity :: LogLevel
  lc_device :: string
  lc_timestamp :: u64

fun run_logs ::
    "'b mc \<Rightarrow> ((string \<times> MonitoringMsg) list \<Rightarrow> (string \<times> MonitoringMsg) list) \<Rightarrow> log_call list
      \<Rightarrow> 'b services \<Rightarrow> (string \<times> string) list \<times> 'b services" where
  "run_logs mc order [] s = ([], s)"
| "run_logs mc order (c # cs) s =
     (let (ok, s1) = SendLog mc order (lc_now c) (lc_now_s c) (lc_message c) (lc_severity c)
                       (lc_device c) (lc_timestamp c) s;
          (accepted, s2) = run_logs mc order cs s1
      in ((if ok then [(device_or_self s (lc_device c), lc_message c)] else []) @ accepted, s2))"

text \<open>A batch and what it put on the wire: nothing, or one datagram with exactly the entries of the batch.\<close>

definition batch_wire :: "('b \<Rightarrow> string \<Rightarrow> string) \<Rightarrow> LogMsg list \<Rightarrow> (MulticastType \<times> string) list \<Rightarrow> bool" where
  "batch_wire encode batch out \<longleftrightarrow>
     out = [] \<or> (\<exists>b now. out = [(Log, encode b (log_batch now batch))])"

context multicast
begin

lemma SendLog_step:
  assumes "SendLog send order now now_s message severity device timestamp s = (ok, s')"
    and room: "room (Suc k) (logging_buf s)" and k: "k < 2 ^ 32"
  shows "\<exists>batch out. expand (batch @ logging_buf s')
        = expand (logging_buf s) @ (if ok then [(device_or_self s device, message)] else [])
     \<and> log_datagrams (wire (sv_backend s')) = log_datagrams (wire (sv_backend s)) @ out
     \<and> batch_wire encoded batch out \<and> room k (logging_buf s')"
  using assms(1)
proof (cases rule: SendLog_cases)
  case merged
  obtain pre m where buf: "logging_buf s = pre @ [m]"
    using merged(1) by (cases "logging_buf s" rule: rev_cases) auto
  then show ?thesis
    using merged room expand_repeat [of k m] room_repeat [of k m] room_mono [of k pre]
    by (intro exI [of _ "[]"]) (simp add: batch_wire_def)
next
  case rejected
  then show ?thesis
    using room room_mono [of k "logging_buf s"] by (intro exI [of _ "[]"]) (simp add: batch_wire_def)
next
  case (added s1 c)
  show ?thesis
  proof (cases "unat (MSS_SIZE s) < unat (c + logging_batch_bytes s)")
    case True
    obtain out where out: "log_datagrams (wire (sv_backend s1)) = log_datagrams (wire (sv_backend s)) @ out"
      "out = [] \<or> out = [(Log, encoded (sv_backend s) (log_batch now (logging_buf s)))]"
      using batch_log_wire [of order now now_s True s] added(4) True by auto
    then have "batch_wire encoded (logging_buf s) out"
      by (auto simp: batch_wire_def)
    then show ?thesis
      using added True out(1) room_new [OF k] by (intro exI [of _ "logging_buf s"] exI [of _ out]) simp
  next
    case False
    then show ?thesis
      using added room room_mono [of k "logging_buf s"] room_new [OF k]
      by (intro exI [of _ "[]"]) (simp add: batch_wire_def)
  qed
qed

lemma run_logs_history:
  assumes "run_logs send order cs s = (accepted, s')"
    and "room (length cs) (logging_buf s)" and "length cs < 2 ^ 32"
  shows "\<exists>batches outs. expand (concat batches @ logging_buf s') = expand (logging_buf s) @ accepted
     \<and> log_datagrams (wire (sv_backend s')) = log_datagrams (wire (sv_backend s)) @ concat outs
     \<and> list_all2 (batch_wire encoded) batches outs"
  using assms
proof (induction cs arbitrary: s accepted)
  case Nil
  then show ?case by (intro exI [of _ "[]"]) simp
next
  case (Cons c cs)
  obtain ok s1 where st: "SendLog send order (lc_now c) (lc_now_s c) (lc_message c) (lc_severity c)
      (lc_device c) (lc_timestamp c) s = (ok, s1)"
    by (cases "SendLog send order (lc_now c) (lc_now_s c) (lc_message c) (lc_severity c)
      (lc_device c) (lc_timestamp c) s")
  obtain acc where run: "run_logs send order cs s1 = (acc, s')"
    and acc: "accepted = (if ok then [(device_or_self s (lc_device c), lc_message c)] else []) @ acc"
    using Cons.prems(1) st by (auto split: prod.splits)
  from SendLog_step [OF st, of "length cs"] Cons.prems obtain batch out where
    1: "expand (batch @ logging_buf s1) = expand (logging_buf s)
        @ (if ok then [(device_or_self s (lc_device c), lc_message c)] else [])"
      "log_datagrams (wire (sv_backend s1)) = log_datagrams (wire (sv_backend s)) @ out"
      "batch_wire encoded batch out" "room (length cs) (logging_buf s1)"
    by auto
  from Cons.IH [OF run 1(4)] Cons.prems(3) obtain batches outs where
    2: "expand (concat batches @ logging_buf s') = expand (logging_buf s1) @ acc"
      "log_datagrams (wire (sv_backend s')) = log_datagrams (wire (sv_backend s1)) @ concat outs"
      "list_all2 (batch_wire encoded) batches outs"
    by auto
  show ?case
    using 1 2 acc by (intro exI [of _ "batch # batches"] exI [of _ "out # outs"]) simp
qed

end


definition demo_services :: "backend services" where
  "demo_services =
     \<lparr>sv_name = ''pmt'', logging_buf = [], monitoring_buf = [], monitoring_msgs_sent = Map.empty,
      alarm_buf = [], logging_batch_bytes = 0, monitoring_batch_bytes = 0, mon_merge_period_ms = 1000,
      alarm_cooldown_ms = 1000, MSS_SIZE = 1472, sv_backend = demo_backend\<rparr>"

definition demo_log :: "string \<Rightarrow> log_call" where
  "demo_log message = \<lparr>lc_now = 5000, lc_now_s = 5, lc_message = message, lc_severity = Message,
     lc_device = [], lc_timestamp = 0\<rparr>"

lemma short_not_too_long: "n \<le> 1000 \<Longrightarrow> \<not> too_long (ZSTD_compressBound (of_nat n))"
  and short_cost: "n \<le> 1000 \<Longrightarrow> unat (ZSTD_compressBound (of_nat n)) \<le> n + 67"
proof -
  assume n: "n \<le> 1000"
  let ?n = "of_nat n :: u64"
  have u: "unat ?n = n" using n by (simp add: unat_of_nat)
  have lt: "?n < ZSTD_MAX_INPUT_SIZE"
    using n u by (simp add: word_less_nat_alt ZSTD_MAX_INPUT_SIZE_def)
  have pos: "ZSTD_COMPRESSBOUND ?n \<noteq> 0"
    using unat_COMPRESSBOUND [OF lt] bound_nat_pos [of "unat ?n"] by (metis unat_0 less_irrefl)
  have le: "unat (ZSTD_compressBound ?n) \<le> n + n div 256 + 64"
    using unat_COMPRESSBOUND [OF lt] bound_nat_mono_le [of n] u pos by (simp add: ZSTD_compressBound_def)
  moreover have "n div 256 \<le> 3" using n div_le_mono [of n 1000 256] by simp
  ultimately show "unat (ZSTD_compressBound ?n) \<le> n + 67" by linarith
  then show "\<not> too_long (ZSTD_compressBound ?n)"
    using n by (simp add: too_long_def ZSTD_isError_iff MAX_MSG_SIZE_def MAX_UDP_PACKET_SIZE_def)
qed

lemma demo_first_log:
  "SendLog mc order 5000 5 ''hello'' Message [] 0 demo_services =
     (True, demo_services\<lparr>logging_buf := [LogMsg_new ''hello'' Message ''pmt'' 5000],
        logging_batch_bytes := ZSTD_compressBound 8\<rparr>)"
  using short_not_too_long [of 8] short_cost [of 8]
  by (simp add: SendLog_def Let_def demo_services_def device_or_self_def stamp_or_now_def)


lemma log_bytes_invariant_witness:
  "\<exists>s'. SendLog (SendMulticast (\<lambda>_ _. True)) id 5000 5 ''hello'' Message [] 0 demo_services = (True, s')
     \<and> log_bytes_ok s'"
proof -
  have "log_bytes_ok demo_services" by (simp add: log_bytes_ok_def demo_services_def)
  from log_bytes_invariant [OF this demo_first_log [of "SendMulticast (\<lambda>_ _. True)" id]]
  show ?thesis using demo_first_log [of "SendMulticast (\<lambda>_ _. True)" id] by blast
qed

section \<open>Monitoring messages\<close>

definition permutes :: "('a list \<Rightarrow> 'a list) \<Rightarrow> bool" where
  "permutes order \<longleftrightarrow> (\<forall>xs. set (order xs) = set xs \<and> length (order xs) = length xs)"

lemma permutes_empty [simp]: "permutes order \<Longrightarrow> order xs = [] \<longleftrightarrow> xs = []"
  unfolding permutes_def by (metis length_0_conv)

lemma batch_monitoring:
  assumes "permutes order"
  shows "monitoring_buf (BatchAndSendMulticast mc order now now_s l s) = []"
    and "monitoring_batch_bytes (BatchAndSendMulticast mc order now now_s l s)
      = (if monitoring_buf s = [] then monitoring_batch_bytes s else 0)"
    and "monitoring_msgs_sent (BatchAndSendMulticast mc order now now_s False s) = monitoring_msgs_sent s"
  using assms by (simp_all add: BatchAndSendMulticast_def prune_alarms_def flush_monitoring_def Let_def)

definition new_monitoring :: "u64 \<Rightarrow> string \<Rightarrow> string \<Rightarrow> string \<Rightarrow> u64 \<Rightarrow> 'b services \<Rightarrow> MonitoringMsg" where
  "new_monitoring now json_data subject device timestamp s =
     \<lparr>mm_json_data = json_data, mm_subject = subject, mm_device = device_or_self s device,
      mm_timestamp = stamp_or_now now timestamp\<rparr>"

text \<open>The two ways a call of \<open>SendMonitoringData\<close> goes: nothing changes, or the message is offered to the
  buffer, flushed first or not.\<close>

lemma SendMonitoringData_cases:
  assumes "SendMonitoringData mc order now now_s json_data subject device timestamp s = (ok, s')"
  obtains (unchanged) "s' = s"
  | (offered) s1 c key where "ok" "key = device_or_self s device @ subject"
      "c = ZSTD_compressBound (of_nat (length json_data + length (device_or_self s device) + length subject))"
      "\<not> too_long c"
      "s1 = (if unat (MSS_SIZE s) < unat (c + monitoring_batch_bytes s)
             then BatchAndSendMulticast mc order now now_s False s else s)"
      "s' = s1\<lparr>monitoring_buf := emplace key (new_monitoring now json_data subject device timestamp s)
                 (monitoring_buf s1),
               monitoring_msgs_sent := (case monitoring_msgs_sent s1 key of
                  None \<Rightarrow> (monitoring_msgs_sent s1)(key \<mapsto> stamp_or_now now timestamp)
                | Some t \<Rightarrow> monitoring_msgs_sent s1),
               monitoring_batch_bytes := monitoring_batch_bytes s1 + c\<rparr>"
proof -
  let ?name = "device_or_self s device"
  let ?key = "?name @ subject"
  let ?c = "ZSTD_compressBound (of_nat (length json_data + length ?name + length subject))"
  let ?recent = "case monitoring_msgs_sent s ?key of None \<Rightarrow> False
     | Some sent \<Rightarrow> unat (stamp_or_now now timestamp - sent) < unat (mon_merge_period_ms s)"
  let ?s1 = "if unat (MSS_SIZE s) < unat (?c + monitoring_batch_bytes s)
             then BatchAndSendMulticast mc order now now_s False s else s"
  show thesis
  proof (cases "?recent \<or> too_long ?c")
    case True
    then have "s' = s"
      using assms unfolding SendMonitoringData_def Let_def by (cases ?recent) (simp_all split: if_splits)
    then show thesis by (rule unchanged)
  next
    case False
    then have r: "\<not> ?recent" and l: "\<not> too_long ?c" by blast+
    have "(ok, s') = (True, ?s1\<lparr>monitoring_buf := emplace ?key
                \<lparr>mm_json_data = json_data, mm_subject = subject, mm_device = ?name,
                 mm_timestamp = stamp_or_now now timestamp\<rparr> (monitoring_buf ?s1),
               monitoring_msgs_sent := (case monitoring_msgs_sent ?s1 ?key of
                  None \<Rightarrow> (monitoring_msgs_sent ?s1)(?key \<mapsto> stamp_or_now now timestamp)
                | Some t \<Rightarrow> monitoring_msgs_sent ?s1),
               monitoring_batch_bytes := monitoring_batch_bytes ?s1 + ?c\<rparr>)"
      using assms unfolding SendMonitoringData_def Let_def if_not_P [OF r] if_not_P [OF l] by (rule sym)
    with l show thesis
      by (intro offered [of ?key ?c ?s1]) (simp_all add: new_monitoring_def)
  qed
qed

text \<open>the monitoring buffer holds one message per device and subject, and the first one wins: a call either
  leaves the buffer as it is, or adds its message under a key that was not there, to the buffer or
  to the empty buffer a flush left.\<close>
theorem monitoring_keeps_first:
  assumes "permutes order" and "distinct (map fst (monitoring_buf s))"
    and "SendMonitoringData mc order now now_s json_data subject device timestamp s = (ok, s')"
  shows "distinct (map fst (monitoring_buf s'))
    \<and> (monitoring_buf s' = monitoring_buf s
       \<or> (\<exists>base. (base = monitoring_buf s \<or> base = [])
            \<and> map_of base (device_or_self s device @ subject) = None
            \<and> monitoring_buf s' = base @ [(device_or_self s device @ subject,
                 new_monitoring now json_data subject device timestamp s)]))"
  using assms(3)
proof (cases rule: SendMonitoringData_cases)
  case unchanged
  then show ?thesis using assms(2) by simp
next
  case (offered s1 c key)
  show ?thesis
  proof (cases "unat (MSS_SIZE s) < unat (c + monitoring_batch_bytes s)")
    case True
    then show ?thesis
      using offered by (simp add: emplace_def batch_monitoring(1) [OF assms(1)])
  next
    case False
    then show ?thesis
      using offered assms(2) by (auto simp: emplace_def map_of_eq_None_iff)
  qed
qed

text \<open>the byte count of the monitoring batch never wraps, never falls below what is waiting, and stays
  within the MTU payload or one longest message.\<close>
theorem monitoring_bytes_invariant:
  assumes "permutes order" and "monitoring_bytes_ok s"
    and "SendMonitoringData mc order now now_s json_data subject device timestamp s = (ok, s')"
  shows "monitoring_bytes_ok s'"
  using assms(3)
proof (cases rule: SendMonitoringData_cases)
  case unchanged
  then show ?thesis using assms(2) by simp
next
  case (offered s1 c key)
  let ?m = "new_monitoring now json_data subject device timestamp s"
  have cost: "monitoring_cost ?m = unat c"
    by (simp add: monitoring_cost_def new_monitoring_def offered(3))
  have grow: "sum_list (map (monitoring_cost \<circ> snd) (emplace key ?m buf))
      \<le> sum_list (map (monitoring_cost \<circ> snd) buf) + unat c" for buf
    by (simp add: emplace_def cost)
  have le: "unat (monitoring_batch_bytes s) \<le> byte_limit s"
    and sum: "sum_list (map (monitoring_cost \<circ> snd) (monitoring_buf s)) \<le> unat (monitoring_batch_bytes s)"
    using assms(2) by (simp_all add: monitoring_bytes_ok_def)
  have nonempty: "emplace key ?m buf \<noteq> []" for buf
    by (auto simp: emplace_def)
  show ?thesis
  proof (cases "unat (MSS_SIZE s) < unat (c + monitoring_batch_bytes s)")
    case True
    have "monitoring_batch_bytes s1 = 0" and "monitoring_buf s1 = []" and "MSS_SIZE s1 = MSS_SIZE s"
      using True offered(5) assms(2) by (simp_all add: batch_monitoring [OF assms(1)] monitoring_bytes_ok_def)
    then show ?thesis
      using offered(6) cost_within [OF offered(4), of s] grow [of "[]"] nonempty
      by (simp add: monitoring_bytes_ok_def byte_limit_def)
  next
    case False
    then have s1: "s1 = s" using offered(5) by simp
    show ?thesis
      using offered(6) s1 sum grow [of "monitoring_buf s"] nonempty
        count_grows(2) [OF offered(4) le] count_stays_within [OF offered(4) le False]
      by (simp add: monitoring_bytes_ok_def byte_limit_def)
  qed
qed

text \<open>a second message for a device and subject that is still waiting is dropped although the call
  reports success, even when the merge period is over: only the byte count grows.\<close>
theorem monitoring_second_dropped:
  assumes "map_of (monitoring_buf s) (device_or_self s device @ subject) = Some first"
    and "monitoring_msgs_sent s (device_or_self s device @ subject) = Some t0"
    and "c = ZSTD_compressBound (of_nat (length json_data + length (device_or_self s device) + length subject))"
    and "\<not> too_long c" and "unat (c + monitoring_batch_bytes s) \<le> unat (MSS_SIZE s)"
    and "unat (mon_merge_period_ms s) \<le> unat (stamp_or_now now timestamp - t0)"
  shows "SendMonitoringData mc order now now_s json_data subject device timestamp s =
    (True, s\<lparr>monitoring_batch_bytes := monitoring_batch_bytes s + c\<rparr>)"
proof -
  have no_flush: "\<not> unat (MSS_SIZE s) < unat (c + monitoring_batch_bytes s)"
    using assms(5) by simp
  show ?thesis
    unfolding SendMonitoringData_def Let_def assms(3) [symmetric] assms(2) option.case
      if_not_P [OF assms(6) [THEN leD]] if_not_P [OF assms(4)] if_not_P [OF no_flush]
    by (simp add: emplace_def assms(1))
qed

section \<open>Alarms\<close>

lemma find_alarm_found:
  assumes "a \<in> set buf" and "\<not> stale cooldown t a"
  shows "fst (find_alarm cooldown t (am_device a) (am_message a) buf)"
  using assms(1)
proof (induction buf)
  case Nil
  then show ?case by simp
next
  case (Cons b buf)
  show ?case
  proof (cases "a = b")
    case True
    then show ?thesis using assms(2) by simp
  next
    case False
    then show ?thesis
      using Cons by (cases "find_alarm cooldown t (am_device a) (am_message a) buf") simp
  qed
qed

text \<open>an alarm is sent once: after a call that sent it, a second call for the same device and message
  within the cooldown, whatever its severity flag, returns true and touches neither the command
  channel nor the multicast.\<close>
theorem alarm_sent_once:
  assumes "SendAlarm mc cc now message critical device timestamp s = (ok, s1)"
    and "\<not> fst (find_alarm (alarm_cooldown_ms s) (snd (TimeStringFromUnixMs now timestamp)) device message (alarm_buf s))"
    and "\<not> stale (alarm_cooldown_ms s) (snd (TimeStringFromUnixMs now' timestamp'))
           \<lparr>am_message = message, am_device = device, am_timestamp = snd (TimeStringFromUnixMs now timestamp)\<rparr>"
  shows "\<exists>s2. SendAlarm mc cc now' message critical' device timestamp' s1 = (True, s2)
    \<and> sv_backend s2 = sv_backend s1"
proof -
  let ?a = "\<lparr>am_message = message, am_device = device,
    am_timestamp = snd (TimeStringFromUnixMs now timestamp)\<rparr>"
  have s1: "?a \<in> set (alarm_buf s1)" "alarm_cooldown_ms s1 = alarm_cooldown_ms s"
    using assms(1,2) by (auto simp: SendAlarm_def Let_def split: prod.splits if_splits)
  have "fst (find_alarm (alarm_cooldown_ms s1) (snd (TimeStringFromUnixMs now' timestamp')) device message
      (alarm_buf s1))"
    using find_alarm_found [OF s1(1) assms(3)] s1(2) by simp
  then show ?thesis
    by (auto simp: SendAlarm_def Let_def split: prod.splits)
qed

text \<open>the pruning that runs with every batch forgets an alarm in the very second it was raised: the clock it
  compares with has no milliseconds, so the unsigned difference wraps around.\<close>
theorem prune_forgets_fresh_alarm:
  assumes "unat (am_timestamp a) < 2 ^ 62" and "unat now_s = unat (am_timestamp a) div 1000"
    and "unat (am_timestamp a) mod 1000 \<noteq> 0"
  shows "a \<notin> set (alarm_buf (prune_alarms now_s s))"
proof -
  let ?t = "am_timestamp a"
  have mul: "unat (now_s * 1000) = unat ?t div 1000 * 1000"
    using assms(1,2) by (simp add: unat_word_ariths)
  have lt: "unat (now_s * 1000) < unat ?t"
    using mul assms(3) div_mult_mod_eq [of "unat ?t" 1000] by linarith
  have "unat (now_s * 1000 - ?t) = 2 ^ 64 + unat (now_s * 1000) - unat ?t"
    using lt by (simp add: unat_sub_if')
  moreover have "unat (alarm_cooldown_ms s) < 2 ^ 32"
    using unsigned_less [of "alarm_cooldown_ms s", where ?'a = nat] by simp
  ultimately have "unat (alarm_cooldown_ms s) < unat (now_s * 1000 - ?t)"
    using assms(1) by simp
  then show ?thesis by (simp add: prune_alarms_def)
qed

section \<open>Instances\<close>

lemma permutes_id: "permutes id"
  by (simp add: permutes_def)

definition demo_monitoring :: "backend services" where
  "demo_monitoring = demo_services\<lparr>
     monitoring_buf := [(''pmtrates'', \<lparr>mm_json_data = ''1'', mm_subject = ''rates'', mm_device = ''pmt'',
       mm_timestamp = 5000\<rparr>)],
     monitoring_msgs_sent := [''pmtrates'' \<mapsto> 5000], monitoring_batch_bytes := ZSTD_compressBound 9\<rparr>"

lemma demo_first_monitoring:
  "SendMonitoringData mc order 5000 5 ''1'' ''rates'' [] 0 demo_services = (True, demo_monitoring)"
  using short_not_too_long [of 9] short_cost [of 9]
  by (simp add: SendMonitoringData_def Let_def demo_services_def device_or_self_def stamp_or_now_def
      emplace_def demo_monitoring_def)

lemma monitoring_keeps_first_witness:
  "SendMonitoringData (SendMulticast (\<lambda>_ _. True)) id 5000 5 ''1'' ''rates'' [] 0 demo_services
     = (True, demo_monitoring) \<and> distinct (map fst (monitoring_buf demo_monitoring))"
proof -
  have "distinct (map fst (monitoring_buf demo_services))" by (simp add: demo_services_def)
  from monitoring_keeps_first [OF permutes_id this demo_first_monitoring] demo_first_monitoring
  show ?thesis by blast
qed

lemma monitoring_bytes_invariant_witness:
  "SendMonitoringData (SendMulticast (\<lambda>_ _. True)) id 5000 5 ''1'' ''rates'' [] 0 demo_services
     = (True, demo_monitoring) \<and> monitoring_bytes_ok demo_monitoring"
proof -
  have "monitoring_bytes_ok demo_services" by (simp add: demo_services_def monitoring_bytes_ok_def)
  from monitoring_bytes_invariant [OF permutes_id this demo_first_monitoring] demo_first_monitoring
  show ?thesis by blast
qed

lemma monitoring_second_dropped_witness:
  "SendMonitoringData (SendMulticast (\<lambda>_ _. True)) id 7000 7 ''2'' ''rates'' [] 0 demo_monitoring
     = (True, demo_monitoring\<lparr>monitoring_batch_bytes := ZSTD_compressBound 9 + ZSTD_compressBound 9\<rparr>)"
proof -
  have c: "unat (ZSTD_compressBound 9) \<le> 76" using short_cost [of 9] by simp
  have "unat (ZSTD_compressBound 9 + ZSTD_compressBound 9) = unat (ZSTD_compressBound 9) + unat (ZSTD_compressBound 9)"
    using c by (intro unat_plus_less) simp
  then show ?thesis
    using c short_not_too_long [of 9]
    by (subst monitoring_second_dropped [where first = "\<lparr>mm_json_data = ''1'', mm_subject = ''rates'',
          mm_device = ''pmt'', mm_timestamp = 5000\<rparr>" and ?t0.0 = 5000 and c = "ZSTD_compressBound 9"])
      (simp_all add: demo_monitoring_def demo_services_def device_or_self_def stamp_or_now_def)
qed

definition mute_command :: "string \<Rightarrow> string \<Rightarrow> backend \<Rightarrow> bool \<times> backend" where
  "mute_command topic command b = (True, b)"

lemma mute_alarm_ok:
  "fst (SendAlarm mc mute_command now message critical device timestamp s)"
  by (simp add: SendAlarm_def Let_def mute_command_def split: prod.split)

lemma alarm_sent_once_witness:
  "\<exists>s1 s2. SendAlarm (SendMulticast (\<lambda>_ _. True)) mute_command 5000 ''HV trip'' True [] 0 demo_services = (True, s1)
     \<and> SendAlarm (SendMulticast (\<lambda>_ _. True)) mute_command 5400 ''HV trip'' False [] 0 s1 = (True, s2)
     \<and> sv_backend s2 = sv_backend s1"
proof -
  obtain s1 where s1: "SendAlarm (SendMulticast (\<lambda>_ _. True)) mute_command 5000 ''HV trip'' True [] 0 demo_services = (True, s1)"
    by (cases "SendAlarm (SendMulticast (\<lambda>_ _. True)) mute_command 5000 ''HV trip'' True [] 0 demo_services")
      (use mute_alarm_ok [of "SendMulticast (\<lambda>_ _. True)" 5000 "''HV trip''" True "[]" 0 demo_services] in simp)
  have t: "snd (TimeStringFromUnixMs now 0) = now" for now
    by (simp add: TimeStringFromUnixMs_def Let_def split: prod.split)
  have "\<not> fst (find_alarm (alarm_cooldown_ms demo_services) (snd (TimeStringFromUnixMs 5000 0)) []
      ''HV trip'' (alarm_buf demo_services))"
    by (simp add: demo_services_def)
  moreover have "\<not> stale (alarm_cooldown_ms demo_services) (snd (TimeStringFromUnixMs 5400 0))
      \<lparr>am_message = ''HV trip'', am_device = [], am_timestamp = snd (TimeStringFromUnixMs 5000 0)\<rparr>"
    by (simp add: stale_def demo_services_def t)
  ultimately show ?thesis
    using alarm_sent_once [OF s1] s1 by blast
qed

lemma prune_forgets_fresh_alarm_witness:
  "\<lparr>am_message = ''HV trip'', am_device = [], am_timestamp = 5400\<rparr>
     \<notin> set (alarm_buf (prune_alarms 5 (demo_services
          \<lparr>alarm_buf := [\<lparr>am_message = ''HV trip'', am_device = [], am_timestamp = 5400\<rparr>]\<rparr>)))"
  by (rule prune_forgets_fresh_alarm) simp_all

end
