(* ===== verification/ServicesLocks.thy ===== *)
theory ServicesLocks
  imports Prelude
begin

text \<open>
  The mutexes of the services layer and the order each operation takes them in. An operation is the
  list of its lock and unlock actions in program order, the nested call of \<open>BatchAndSendMulticast\<close>
  included: assigning a locked \<open>unique_lock\<close> locks the new mutex before it releases the old one,
  assigning a deferred one releases the old one first. Threads interleave action by action.
\<close>

datatype mutex = logging_buf_mtx | monitoring_buf_mtx | alarm_buf_mtx

datatype action = Lock mutex | Unlock mutex

definition batch_actions :: "bool \<Rightarrow> bool \<Rightarrow> action list" where
  "batch_actions log_lock mon_lock =
     (if log_lock then [Lock logging_buf_mtx] else [])
     @ (if log_lock then [Unlock logging_buf_mtx] else [])
     @ (if mon_lock then [Lock monitoring_buf_mtx] else [])
     @ [Lock alarm_buf_mtx]
     @ (if mon_lock then [Unlock monitoring_buf_mtx] else [])
     @ [Unlock alarm_buf_mtx]"

text \<open>\<open>SendLog\<close> and \<open>SendMonitoringData\<close>, flushing or not; \<open>SendAlarm\<close>; one turn of \<open>BufferThread\<close>.\<close>

definition SendLog_actions :: "bool \<Rightarrow> action list" where
  "SendLog_actions flush =
     [Lock logging_buf_mtx] @ (if flush then batch_actions False True else []) @ [Unlock logging_buf_mtx]"

definition SendMonitoringData_actions :: "bool \<Rightarrow> action list" where
  "SendMonitoringData_actions flush =
     [Lock monitoring_buf_mtx] @ (if flush then batch_actions True False else [])
     @ [Unlock monitoring_buf_mtx]"

definition SendAlarm_actions :: "action list" where
  "SendAlarm_actions = [Lock alarm_buf_mtx, Unlock alarm_buf_mtx]"

definition BufferThread_actions :: "action list" where
  "BufferThread_actions = batch_actions True True"

section \<open>Interleaving\<close>

text \<open>The state: who holds each mutex, and what each thread has left to do.\<close>

record locks =
  lk_owner :: "mutex \<Rightarrow> nat option"
  lk_left :: "action list list"

definition lock_step :: "nat \<Rightarrow> locks \<Rightarrow> locks option" where
  "lock_step i s =
     (if length (lk_left s) \<le> i then None
      else case lk_left s ! i of
        [] \<Rightarrow> None
      | Lock m # rest \<Rightarrow>
          if lk_owner s m = None
          then Some (s\<lparr>lk_owner := (lk_owner s)(m := Some i), lk_left := (lk_left s)[i := rest]\<rparr>)
          else None
      | Unlock m # rest \<Rightarrow>
          Some (s\<lparr>lk_owner := (lk_owner s)(m := None), lk_left := (lk_left s)[i := rest]\<rparr>))"

definition locks_init :: "action list list \<Rightarrow> locks" where
  "locks_init programs = \<lparr>lk_owner = (\<lambda>_. None), lk_left = programs\<rparr>"

inductive lock_reach :: "action list list \<Rightarrow> locks \<Rightarrow> bool" for ps where
  start: "lock_reach ps (locks_init ps)"
| step: "\<lbrakk>lock_reach ps s; lock_step i s = Some s'\<rbrakk> \<Longrightarrow> lock_reach ps s'"

definition stuck :: "locks \<Rightarrow> bool" where
  "stuck s \<longleftrightarrow> (\<forall>i < length (lk_left s). lock_step i s = None) \<and> (\<exists>p \<in> set (lk_left s). p \<noteq> [])"

section \<open>Deadlock\<close>

text \<open>C3: two threads of the program can block each other for ever: one inside \<open>SendLog\<close> and one inside
  \<open>SendMonitoringData\<close>, each about to flush, take the two buffer mutexes in opposite order, and a
  state is reachable in which neither can go on.\<close>
theorem flush_deadlock:
  "\<exists>s. lock_reach [SendLog_actions True, SendMonitoringData_actions True] s \<and> stuck s"
proof -
  let ?ps = "[SendLog_actions True, SendMonitoringData_actions True]"
  obtain s1 where s1: "lock_step 0 (locks_init ?ps) = Some s1"
    by (simp add: lock_step_def locks_init_def SendLog_actions_def)
  obtain s2 where s2: "lock_step 1 s1 = Some s2"
    using s1 by (auto simp: lock_step_def locks_init_def SendLog_actions_def SendMonitoringData_actions_def)
  have r: "lock_reach ?ps s2"
    by (rule lock_reach.step [OF lock_reach.step [OF lock_reach.start s1] s2])
  have "stuck s2"
    using s1 s2
    by (auto simp: lock_step_def locks_init_def SendLog_actions_def SendMonitoringData_actions_def
        batch_actions_def stuck_def less_Suc_eq numeral_2_eq_2)
  then show ?thesis using r by blast
qed

section \<open>Progress without monitoring flushes\<close>

primrec rank :: "mutex \<Rightarrow> nat" where
  "rank logging_buf_mtx = 0"
| "rank monitoring_buf_mtx = 1"
| "rank alarm_buf_mtx = 2"

lemma rank_inject: "rank a = rank b \<longleftrightarrow> a = b"
  by (cases a; cases b) simp_all

text \<open>A program that takes mutexes in increasing rank, releases what it holds and ends holding none;
  \<open>held\<close> are the mutexes held where it starts.\<close>

fun ordered :: "mutex list \<Rightarrow> action list \<Rightarrow> bool" where
  "ordered held [] \<longleftrightarrow> held = []"
| "ordered held (Lock m # rest) \<longleftrightarrow> (\<forall>h \<in> set held. rank h < rank m) \<and> ordered (m # held) rest"
| "ordered held (Unlock m # rest) \<longleftrightarrow> m \<in> set held \<and> ordered (removeAll m held) rest"

definition lock_inv :: "locks \<Rightarrow> bool" where
  "lock_inv s \<longleftrightarrow> (\<exists>held. length held = length (lk_left s)
     \<and> (\<forall>i < length (lk_left s). ordered (held ! i) (lk_left s ! i))
     \<and> (\<forall>m i. lk_owner s m = Some i \<longleftrightarrow> i < length (lk_left s) \<and> m \<in> set (held ! i)))"

lemma lock_inv_init: "list_all (ordered []) ps \<Longrightarrow> lock_inv (locks_init ps)"
  by (auto simp: lock_inv_def locks_init_def list_all_length intro!: exI [of _ "replicate (length ps) []"])

lemma lock_inv_step:
  assumes "lock_inv s" and st: "lock_step i s = Some s'"
  shows "lock_inv s'"
proof -
  obtain held where len: "length held = length (lk_left s)"
    and ord: "\<forall>j < length (lk_left s). ordered (held ! j) (lk_left s ! j)"
    and own: "\<forall>m j. lk_owner s m = Some j \<longleftrightarrow> j < length (lk_left s) \<and> m \<in> set (held ! j)"
    using assms(1) unfolding lock_inv_def by blast
  have i: "i < length (lk_left s)" and ne: "lk_left s ! i \<noteq> []"
    using st by (auto simp: lock_step_def split: if_splits list.splits)
  then obtain a rest where p: "lk_left s ! i = a # rest" by (cases "lk_left s ! i") auto
  show ?thesis
  proof (cases a)
    case (Lock m)
    have free: "lk_owner s m = None"
      and s': "s' = s\<lparr>lk_owner := (lk_owner s)(m := Some i), lk_left := (lk_left s)[i := rest]\<rparr>"
      using st p Lock i by (auto simp: lock_step_def split: if_splits)
    have o: "ordered (m # held ! i) rest" using ord i p Lock by auto
    have unheld: "m \<notin> set (held ! j)" if "j < length (lk_left s)" for j
      using own free that by (metis option.distinct(1))
    show ?thesis
      unfolding lock_inv_def s'
      using len ord own i o unheld
      by (intro exI [of _ "held[i := m # held ! i]"]) (auto simp: nth_list_update)
  next
    case (Unlock m)
    have s': "s' = s\<lparr>lk_owner := (lk_owner s)(m := None), lk_left := (lk_left s)[i := rest]\<rparr>"
      using st p Unlock i by (auto simp: lock_step_def)
    have o: "m \<in> set (held ! i)" "ordered (removeAll m (held ! i)) rest" using ord i p Unlock by auto
    have sole: "m \<notin> set (held ! j)" if "j < length (lk_left s)" "j \<noteq> i" for j
      using own [rule_format, of m j] own [rule_format, of m i] o(1) i that by auto
    have own': "((lk_owner s)(m := None)) m' = Some j \<longleftrightarrow>
        j < length (lk_left s) \<and> m' \<in> set (held[i := removeAll m (held ! i)] ! j)" for m' j
    proof (cases "m' = m")
      case True
      then show ?thesis
        using sole [of j] len i by (cases "j = i") auto
    next
      case False
      then show ?thesis
        using own [rule_format, of m' j] len i by (cases "j = i") auto
    qed
    have ord': "ordered (held[i := removeAll m (held ! i)] ! j) ((lk_left s)[i := rest] ! j)"
      if "j < length (lk_left s)" for j
      using ord o(2) len i that by (cases "j = i") auto
    show ?thesis
      unfolding lock_inv_def s'
      using len own' ord' by (intro exI [of _ "held[i := removeAll m (held ! i)]"]) simp
  qed
qed

lemma lock_reach_inv: "\<lbrakk>lock_reach ps s; list_all (ordered []) ps\<rbrakk> \<Longrightarrow> lock_inv s"
  by (induction rule: lock_reach.induct) (auto intro: lock_inv_init lock_inv_step)

text \<open>Among the threads that are not done, the one that waits for the mutex of highest rank can move.\<close>

lemma lock_inv_not_stuck:
  assumes "lock_inv s"
  shows "\<not> stuck s"
proof
  assume st: "stuck s"
  obtain held where len: "length held = length (lk_left s)"
    and ord: "\<forall>j < length (lk_left s). ordered (held ! j) (lk_left s ! j)"
    and own: "\<forall>m j. lk_owner s m = Some j \<longleftrightarrow> j < length (lk_left s) \<and> m \<in> set (held ! j)"
    using assms unfolding lock_inv_def by blast
  let ?live = "{i. i < length (lk_left s) \<and> lk_left s ! i \<noteq> []}"
  have waits: "\<exists>m rest j. lk_left s ! i = Lock m # rest \<and> lk_owner s m = Some j" if "i \<in> ?live" for i
  proof -
    have "lock_step i s = None" using st that by (simp add: stuck_def)
    then show ?thesis
      using that by (auto simp: lock_step_def split: list.splits action.splits if_splits)
  qed
  define want where "want i = (case lk_left s ! i of Lock m # _ \<Rightarrow> rank m | _ \<Rightarrow> 0)" for i
  have "?live \<noteq> {}"
    using st by (auto simp: stuck_def in_set_conv_nth)
  moreover have "finite ?live" by simp
  ultimately obtain i where i: "i \<in> ?live" and top: "\<forall>k \<in> ?live. want k \<le> want i"
    using finite_imageI [of ?live want] Max_in [of "want ` ?live"] Max_ge [of "want ` ?live"]
    by (metis (no_types, lifting) imageE image_eqI image_is_empty)
  obtain m rest j where p: "lk_left s ! i = Lock m # rest" and o: "lk_owner s m = Some j"
    using waits [OF i] by blast
  have j: "j < length (lk_left s)" "m \<in> set (held ! j)" using own o by blast+
  have "lk_left s ! j \<noteq> []"
  proof
    assume "lk_left s ! j = []"
    then have "held ! j = []" using ord j(1) by force
    then show False using j(2) by simp
  qed
  then have jl: "j \<in> ?live" using j(1) by simp
  then obtain m' rest' where p': "lk_left s ! j = Lock m' # rest'" using waits by blast
  have "rank m < rank m'"
    using ord j p' by auto
  moreover have "want j = rank m'" "want i = rank m" using p p' by (simp_all add: want_def)
  ultimately show False using top jl by force
qed

text \<open>C4: the deadlock needs a flushing \<open>SendMonitoringData\<close>: any number of threads inside \<open>SendLog\<close>
  (flushing or not), \<open>SendAlarm\<close>, the buffer thread, and \<open>SendMonitoringData\<close> calls that do not
  flush can never all be blocked.\<close>
theorem no_deadlock_without_monitoring_flush:
  assumes "set programs \<subseteq> {SendLog_actions True, SendLog_actions False,
      SendMonitoringData_actions False, SendAlarm_actions, BufferThread_actions}"
    and "lock_reach programs s"
  shows "\<not> stuck s"
proof -
  have "ordered [] p" if "p \<in> set programs" for p
    using that assms(1)
    by (auto simp: SendLog_actions_def SendMonitoringData_actions_def SendAlarm_actions_def
        BufferThread_actions_def batch_actions_def)
  then have "list_all (ordered []) programs" by (simp add: list_all_iff)
  from lock_inv_not_stuck [OF lock_reach_inv [OF assms(2) this]] show ?thesis .
qed

lemma no_deadlock_without_monitoring_flush_witness:
  "\<not> stuck (locks_init [SendLog_actions True, SendMonitoringData_actions False, BufferThread_actions])"
  by (rule no_deadlock_without_monitoring_flush [OF _ lock_reach.start]) simp

end
