(* ===== verification/ServicesQueries.thy ===== *)
theory ServicesQueries
  imports ServicesBuffers
begin

text \<open>
  The commands of the services layer (\<open>Services.cpp\<close>): what is stored in the database
  (\<open>SendCalibrationData\<close>, \<open>SendDeviceConfig\<close>, \<open>SendBaseConfig\<close>, \<open>SendRunModeConfig\<close>, \<open>SendROOTplot\<close>,
  \<open>SendPlotlyPlot\<close>), generic queries (\<open>SQLQuery\<close>) and what is read back (\<open>GetCalibrationData\<close> to
  \<open>GetPlotlyPlot\<close>). The command channel is an argument; the contract the clients rely on is the
  locale \<open>command_channel\<close>, and \<open>SendCommand\<close> of the backend provides it. A parsed JSON object (the
  library class \<open>Store\<close>) is an argument \<open>store\<close>. An out parameter is an argument and a result;
  a pointer that may be null is an \<open>option\<close>.
\<close>

section \<open>Numbers in responses\<close>

text \<open>\<open>std::stoull\<close>: white space, a sign, digits; \<open>None\<close> is one of its two exceptions. A minus sign
  negates modulo \<open>2 ^ 64\<close>.\<close>

definition strip_leading :: "string \<Rightarrow> string" where
  "strip_leading s = dropWhile isspace s"

definition read_magnitude :: "string \<Rightarrow> nat option" where
  "read_magnitude s =
     (if s = [] \<or> \<not> is_digit (hd s) then None
      else if 2 ^ 64 \<le> read_digits 0 s then None else Some (read_digits 0 s))"

definition stoull :: "string \<Rightarrow> u64 option" where
  "stoull s =
     (case strip_leading s of
        [] \<Rightarrow> None
      | c # cs \<Rightarrow>
          if c = CHR ''-'' then map_option (\<lambda>n. - of_nat n) (read_magnitude cs)
          else if c = CHR ''+'' then map_option of_nat (read_magnitude cs)
          else map_option of_nat (read_magnitude (c # cs)))"

text \<open>The assignment of the 64-bit number to an \<open>int\<close>.\<close>

definition to_int :: "u64 \<Rightarrow> int" where
  "to_int v = sint (ucast v :: 32 word)"

section \<open>Writing\<close>

type_synonym 'b cc = "string \<Rightarrow> string \<Rightarrow> string \<Rightarrow> u32 \<Rightarrow> 'b \<Rightarrow> bool \<times> string \<times> string \<times> 'b"

definition read_version :: "string \<Rightarrow> int option \<Rightarrow> bool \<times> int option" where
  "read_version response version =
     (case version of
        None \<Rightarrow> (True, None)
      | Some old \<Rightarrow> (case stoull response of
                       Some v \<Rightarrow> (True, Some (to_int v))
                     | None \<Rightarrow> (False, Some old)))"

text \<open>The part all writers share: the command, the check of the response, the version in it.\<close>

definition send_versioned ::
    "'b cc \<Rightarrow> string \<Rightarrow> string \<Rightarrow> int option \<Rightarrow> u32 \<Rightarrow> 'b services \<Rightarrow> bool \<times> int option \<times> 'b services" where
  "send_versioned cc topic cmd_string version timeout s =
     (let (ok, response, err, b) = cc topic cmd_string [] timeout (sv_backend s);
          s = s\<lparr>sv_backend := b\<rparr>
      in if \<not> ok then (False, version, s)
         else if response = [] then (False, version, s)
         else let (ok, version) = read_version response version in (ok, version, s))"

definition SendCalibrationData ::
    "'b cc \<Rightarrow> u64 \<Rightarrow> string \<Rightarrow> string \<Rightarrow> string \<Rightarrow> u64 \<Rightarrow> int option \<Rightarrow> u32 \<Rightarrow> 'b services
      \<Rightarrow> bool \<times> int option \<times> 'b services" where
  \<open>SendCalibrationData cc now json_data description name timestamp version timeout s =
     (let c_name = device_or_self s name;
          cmd_string = ''{ "time":"'' @ time_text now timestamp @ ''"''
            @ '', "name":"'' @ c_name @ ''"''
            @ '', "description":"'' @ description @ ''"''
            @ '', "data":'' @ json_data @ '' }''
      in send_versioned cc ''W_CALIBRATION'' cmd_string version timeout s)\<close>

definition no_version :: "int option \<Rightarrow> int option" where
  "no_version version = map_option (\<lambda>_. -1) version"

definition SendDeviceConfig ::
    "'b cc \<Rightarrow> u64 \<Rightarrow> string \<Rightarrow> string \<Rightarrow> string \<Rightarrow> string \<Rightarrow> u64 \<Rightarrow> int option \<Rightarrow> u32 \<Rightarrow> 'b services
      \<Rightarrow> bool \<times> int option \<times> 'b services" where
  \<open>SendDeviceConfig cc now json_data author description device timestamp version timeout s =
     (let version = no_version version;
          name = device_or_self s device;
          cmd_string = ''{ "time":"'' @ time_text now timestamp @ ''"''
            @ '', "device":"'' @ name @ ''"''
            @ '', "author":"'' @ author @ ''"''
            @ '', "description":"'' @ description @ ''"''
            @ '', "data":'' @ json_data @ '' }''
      in send_versioned cc ''W_DEVCONFIG'' cmd_string version timeout s)\<close>

definition SendBaseConfig ::
    "'b cc \<Rightarrow> u64 \<Rightarrow> string \<Rightarrow> string \<Rightarrow> string \<Rightarrow> string \<Rightarrow> u64 \<Rightarrow> int option \<Rightarrow> u32 \<Rightarrow> 'b services
      \<Rightarrow> bool \<times> int option \<times> 'b services" where
  \<open>SendBaseConfig cc now json_data name author description timestamp version timeout s =
     (let version = no_version version;
          cmd_string = ''{ "time":"'' @ time_text now timestamp @ ''"''
            @ '', "name":"'' @ name @ ''"''
            @ '', "author":"'' @ author @ ''"''
            @ '', "description":"'' @ description @ ''"''
            @ '', "data":'' @ json_data @ '' }''
      in send_versioned cc ''W_BASECONFIG'' cmd_string version timeout s)\<close>

definition SendRunModeConfig ::
    "'b cc \<Rightarrow> u64 \<Rightarrow> string \<Rightarrow> string \<Rightarrow> string \<Rightarrow> string \<Rightarrow> u64 \<Rightarrow> int option \<Rightarrow> u32 \<Rightarrow> 'b services
      \<Rightarrow> bool \<times> int option \<times> 'b services" where
  \<open>SendRunModeConfig cc now json_data name author description timestamp version timeout s =
     (let version = no_version version;
          cmd_string = ''{ "time":"'' @ time_text now timestamp @ ''"''
            @ '', "name":"'' @ name @ ''"''
            @ '', "author":"'' @ author @ ''"''
            @ '', "description":"'' @ description @ ''"''
            @ '', "data":'' @ json_data @ '' }''
      in send_versioned cc ''W_RUNMODECONFIG'' cmd_string version timeout s)\<close>

definition SendROOTplot ::
    "'b cc \<Rightarrow> u64 \<Rightarrow> string \<Rightarrow> string \<Rightarrow> string \<Rightarrow> int option \<Rightarrow> u64 \<Rightarrow> u32 \<Rightarrow> u32 \<Rightarrow> 'b services
      \<Rightarrow> bool \<times> int option \<times> 'b services" where
  \<open>SendROOTplot cc now plot_name draw_options json_data version timestamp lifetime timeout s =
     (let cmd_string = ''{ "time":"'' @ time_text now timestamp @ ''"''
            @ '', "name":"'' @ plot_name @ ''"''
            @ '', "draw_options":"'' @ draw_options @ ''"''
            @ '', "lifetime":'' @ nat_str (unat lifetime)
            @ '', "data":'' @ json_data @ '' }''
      in send_versioned cc ''W_TROOTPLOT'' cmd_string version timeout s)\<close>

definition SendPlotlyPlot_traces ::
    "'b cc \<Rightarrow> u64 \<Rightarrow> string \<Rightarrow> string list \<Rightarrow> string \<Rightarrow> int option \<Rightarrow> u64 \<Rightarrow> u32 \<Rightarrow> u32 \<Rightarrow> 'b services
      \<Rightarrow> bool \<times> int option \<times> 'b services" where
  \<open>SendPlotlyPlot_traces cc now name traces layout version timestamp lifetime timeout s =
     (let ss = ''{   "name":"'' @ name
            @ ''", "time":"'' @ time_text now timestamp
            @ ''", "lifetime":'' @ nat_str (unat lifetime)
            @ '',   "layout":'' @ layout
            @ '',   "data":['' @ join_comma traces @ '']}''
      in send_versioned cc ''W_PLOTLYPLOT'' ss version timeout s)\<close>

definition SendPlotlyPlot ::
    "'b cc \<Rightarrow> u64 \<Rightarrow> string \<Rightarrow> string \<Rightarrow> string \<Rightarrow> int option \<Rightarrow> u64 \<Rightarrow> u32 \<Rightarrow> u32 \<Rightarrow> 'b services
      \<Rightarrow> bool \<times> int option \<times> 'b services" where
  "SendPlotlyPlot cc now name trace layout version timestamp lifetime timeout s =
     SendPlotlyPlot_traces cc now name [trace] layout version timestamp lifetime timeout s"

section \<open>Generic queries\<close>

type_synonym 'b ccv = "string \<Rightarrow> string \<Rightarrow> u32 \<Rightarrow> 'b \<Rightarrow> bool \<times> string list \<times> string \<times> 'b"

text \<open>On failure the one row is the error text (\<open>resize(1)\<close>, then \<open>front()\<close> is assigned).\<close>

definition SQLQuery_rows ::
    "'b ccv \<Rightarrow> string \<Rightarrow> u32 \<Rightarrow> 'b services \<Rightarrow> bool \<times> string list \<times> 'b services" where
  "SQLQuery_rows ccv query timeout s =
     (let (ok, responses, err, b) = ccv ''W_QUERY'' query timeout (sv_backend s);
          s = s\<lparr>sv_backend := b\<rparr>
      in if \<not> ok then (False, [err], s) else (True, responses, s))"

definition SQLQuery_row ::
    "'b ccv \<Rightarrow> string \<Rightarrow> u32 \<Rightarrow> 'b services \<Rightarrow> bool \<times> string \<times> 'b services" where
  "SQLQuery_row ccv query timeout s =
     (let (ok, responses, s) = SQLQuery_rows ccv query timeout s
      in (ok, if length responses \<noteq> 0 then hd responses else [], s))"

definition SQLQuery :: "'b ccv \<Rightarrow> string \<Rightarrow> u32 \<Rightarrow> 'b services \<Rightarrow> bool \<times> 'b services" where
  "SQLQuery ccv query timeout s =
     (let (ok, tmp, s) = SQLQuery_row ccv query timeout s in (ok, s))"

section \<open>Reading\<close>

text \<open>What \<open>Store::Get\<close> finds under a key of a parsed response.\<close>

record store =
  get_text :: "string \<Rightarrow> string option"
  get_number :: "string \<Rightarrow> int option"

type_synonym json_parser = "string \<Rightarrow> store"

definition apostrophe :: char where "apostrophe = CHR 0x27"

definition quoted :: "string \<Rightarrow> string" where
  "quoted s = apostrophe # s @ [apostrophe]"

definition latest_or :: "int \<Rightarrow> string \<Rightarrow> string" where
  "latest_or version condition =
     (if version < 0 then '' ORDER BY version DESC LIMIT 1'' else condition @ int_str version)"

text \<open>The part the readers share: the command, and the text of the two failures before the response is
  parsed; \<open>Inl\<close> is the error text that becomes the result.\<close>

definition fetch ::
    "'b cc \<Rightarrow> string \<Rightarrow> string \<Rightarrow> string \<Rightarrow> u32 \<Rightarrow> 'b services \<Rightarrow> (string + string) \<times> 'b services" where
  "fetch cc topic cmd_string not_found timeout s =
     (let (ok, response, err, b) = cc topic cmd_string [] timeout (sv_backend s);
          s = s\<lparr>sv_backend := b\<rparr>
      in if \<not> ok then (Inl err, s)
         else if response = [] then (Inl not_found, s)
         else (Inr response, s))"

definition calibration_query :: "string \<Rightarrow> int \<Rightarrow> string" where
  "calibration_query name version =
     ''SELECT json_build_object('data', data, 'version', version) FROM calibration WHERE ''
     @ (if version < 0 then ''name='' @ quoted name @ '' ORDER BY version DESC LIMIT 1''
        else ''device='' @ quoted name @ '' AND version='' @ int_str version)"

definition GetCalibrationData ::
    "json_parser \<Rightarrow> 'b cc \<Rightarrow> int \<Rightarrow> string \<Rightarrow> u32 \<Rightarrow> 'b services
      \<Rightarrow> bool \<times> string \<times> int \<times> 'b services" where
  "GetCalibrationData json cc version device timeout s =
     (let name = device_or_self s device in
      case fetch cc ''R_CALIBRATION'' (calibration_query name version)
             (''GetCalibrationData error: data for device '' @ name @ '' version '' @ int_str version
              @ '' not found'') timeout s of
        (Inl err, s) \<Rightarrow> (False, err, version, s)
      | (Inr response, s) \<Rightarrow>
          let tmp = json response;
              json_data = got (get_text tmp ''data'') response
          in case (get_text tmp ''data'', get_number tmp ''version'') of
               (Some _, Some v) \<Rightarrow> (True, json_data, v, s)
             | _ \<Rightarrow> (False, ''GetCalibrationData error: invalid response: '' @ quoted json_data, version, s))"

text \<open>The overload for a caller who does not want the version back.\<close>

definition GetCalibrationData_value ::
    "json_parser \<Rightarrow> 'b cc \<Rightarrow> int \<Rightarrow> string \<Rightarrow> u32 \<Rightarrow> 'b services \<Rightarrow> bool \<times> string \<times> 'b services" where
  "GetCalibrationData_value json cc version device timeout s =
     (let (ok, json_data, v, s) = GetCalibrationData json cc version device timeout s
      in (ok, json_data, s))"

text \<open>The end of the readers that want only the data.\<close>

definition data_only ::
    "json_parser \<Rightarrow> string \<Rightarrow> (string + string) \<times> 'b services \<Rightarrow> bool \<times> string \<times> 'b services" where
  "data_only json function fetched =
     (case fetched of
        (Inl err, s) \<Rightarrow> (False, err, s)
      | (Inr response, s) \<Rightarrow>
          (case get_text (json response) ''data'' of
             Some data \<Rightarrow> (True, data, s)
           | None \<Rightarrow> (False, function @ '' error: invalid response: '' @ quoted response, s)))"

definition GetDeviceConfig ::
    "json_parser \<Rightarrow> 'b cc \<Rightarrow> int \<Rightarrow> string \<Rightarrow> u32 \<Rightarrow> 'b services \<Rightarrow> bool \<times> string \<times> 'b services" where
  "GetDeviceConfig json cc version device timeout s =
     (let name = device_or_self s device in
      data_only json ''GetDeviceConfig''
        (fetch cc ''R_DEVCONFIG''
           (''SELECT json_build_object('data', data) FROM device_config WHERE device='' @ quoted name
            @ latest_or version '' AND version='')
           (''GetDeviceConfig error: config for device '' @ name @ '' version '' @ int_str version
            @ '' not found'') timeout s))"

definition GetRunConfig ::
    "json_parser \<Rightarrow> 'b cc \<Rightarrow> int \<Rightarrow> int \<Rightarrow> u32 \<Rightarrow> 'b services \<Rightarrow> bool \<times> string \<times> 'b services" where
  "GetRunConfig json cc base_config_id runmode_config_id timeout s =
     data_only json ''GetRunConfig''
       (fetch cc ''R_RUNCONFIG''
          (''SELECT json_build_object('data', base.data || runmode.data) FROM ( SELECT data FROM base_config WHERE config_id=''
           @ int_str base_config_id @ '') base CROSS JOIN (SELECT data FROM runmode_config WHERE config_id=''
           @ int_str runmode_config_id @ '') runmode'')
          (''GetRunConfig error: no config matching base config '' @ int_str base_config_id
           @ '', runmode config '' @ int_str runmode_config_id) timeout s)"

definition GetRunModeConfig ::
    "json_parser \<Rightarrow> 'b cc \<Rightarrow> string \<Rightarrow> int \<Rightarrow> u32 \<Rightarrow> 'b services \<Rightarrow> bool \<times> string \<times> 'b services" where
  "GetRunModeConfig json cc name version timeout s =
     data_only json ''GetRunConfig''
       (fetch cc ''R_RUNCONFIG''
          (''SELECT json_build_object('data', data, 'version', version) FROM runmode_config WHERE name='' @ quoted name
           @ latest_or version '' AND version='')
          (''GetRunConfig error: config '' @ name @ '' version '' @ int_str version @ '' not found'')
          timeout s)"

text \<open>The end of the readers of a device's part of a run configuration: the version is assigned as soon as
  it is found, even when the data is missing.\<close>

definition version_and_data ::
    "store \<Rightarrow> string \<Rightarrow> int option \<Rightarrow> 'b services \<Rightarrow> bool \<times> string \<times> int option \<times> 'b services" where
  "version_and_data tmp response version s =
     (case get_number tmp ''version'' of
        None \<Rightarrow> (False, ''GetRunDeviceConfig error: invalid response: '' @ quoted response, version, s)
      | Some v \<Rightarrow>
          let version = map_option (\<lambda>_. v) version in
          (case get_text tmp ''data'' of
             None \<Rightarrow> (False, ''GetRunDeviceConfig error: invalid response: '' @ quoted response, version, s)
           | Some data \<Rightarrow> (True, data, version, s)))"

definition GetRunDeviceConfig ::
    "json_parser \<Rightarrow> 'b cc \<Rightarrow> int \<Rightarrow> int \<Rightarrow> string \<Rightarrow> int option \<Rightarrow> u32 \<Rightarrow> 'b services
      \<Rightarrow> bool \<times> string \<times> int option \<times> 'b services" where
  "GetRunDeviceConfig json cc base_config_id runmode_config_id device version timeout s =
     (let name = device_or_self s device in
      case fetch cc ''R_RUNDEVICECONFIG''
             (''WITH base AS ( SELECT data FROM base_config WHERE config_id='' @ int_str base_config_id @ ''), ''
              @ ''  runmode AS ( SELECT data FROM runmode_config WHERE config_id='' @ int_str runmode_config_id @ '') ''
              @ ''SELECT json_build_object('version', version, 'data', data) FROM device_config WHERE device=''
              @ quoted name @ '' ''
              @ ''AND version=(SELECT ((base.data || runmode.data)->'' @ quoted name
              @ '')::integer FROM base CROSS JOIN runmode)'')
             (''GetRunDeviceConfig error: config '' @ name @ '' for base config '' @ int_str base_config_id
              @ '' and runmode config '' @ int_str runmode_config_id @ '' not found'') timeout s of
        (Inl err, s) \<Rightarrow> (False, err, version, s)
      | (Inr response, s) \<Rightarrow> version_and_data (json response) response version s)"

definition GetCachedDeviceConfig ::
    "json_parser \<Rightarrow> 'b cc \<Rightarrow> int \<Rightarrow> int \<Rightarrow> string \<Rightarrow> int option \<Rightarrow> u32 \<Rightarrow> 'b services
      \<Rightarrow> bool \<times> string \<times> int option \<times> 'b services" where
  "GetCachedDeviceConfig json cc base_config_id runmode_config_id device version timeout s =
     (let name = device_or_self s device in
      case fetch cc ''R_KACHEDDEVICECONFIG'' name
             (''GetCachedDeviceConfig error: config for device '' @ name @ '' not found'') timeout s of
        (Inl err, s) \<Rightarrow> (False, err, version, s)
      | (Inr response, s) \<Rightarrow>
          let tmp = json response;
              base = got (get_number tmp ''base_config_id'') (-1);
              runmode = got (get_number tmp ''runmode_config_id'') (-1)
          in if base \<noteq> base_config_id \<or> runmode \<noteq> runmode_config_id then
               (False, ''GetCachedDeviceConfig returned unexpected configuration ids: {'' @ int_str base
                  @ '','' @ int_str runmode @ ''}, expected {'' @ int_str base_config_id @ '',''
                  @ int_str runmode_config_id @ ''}'', version, s)
             else version_and_data tmp response version s)"

text \<open>The plots: the caller's two texts and version, each assigned as soon as it is found; the first of them
  takes the error text.\<close>

definition plot_fields ::
    "store \<Rightarrow> string \<Rightarrow> string \<Rightarrow> string \<Rightarrow> string \<Rightarrow> int \<Rightarrow> string \<Rightarrow> 'b services
      \<Rightarrow> bool \<times> string \<times> string \<times> int \<times> 'b services" where
  "plot_fields plot second_key function response second version first s =
     (let ok = (get_text plot ''data'' \<noteq> None);
          first = got (get_text plot ''data'') first;
          second = (if ok then got (get_text plot second_key) second else second);
          ok = (ok \<and> get_text plot second_key \<noteq> None);
          version = (if ok then got (get_number plot ''version'') version else version);
          ok = (ok \<and> get_number plot ''version'' \<noteq> None)
      in if ok then (True, first, second, version, s)
         else (False, function @ '' error: invalid response: '' @ quoted response, second, version, s))"

definition GetROOTplot ::
    "json_parser \<Rightarrow> 'b cc \<Rightarrow> string \<Rightarrow> string \<Rightarrow> string \<Rightarrow> int \<Rightarrow> u32 \<Rightarrow> 'b services
      \<Rightarrow> bool \<times> string \<times> string \<times> int \<times> 'b services" where
  "GetROOTplot json cc plot_name draw_options json_data version timeout s =
     (case fetch cc ''R_TROOTPLOT''
             (''SELECT json_build_object('version', version, 'data', data, 'draw_options', draw_options) FROM rootplots WHERE name=''
              @ quoted plot_name @ latest_or version '' AND version='')
             (''GetROOTplot error: ROOTplot '' @ plot_name @ '' version '' @ int_str version @ '' not found'')
             timeout s of
        (Inl err, s) \<Rightarrow> (False, err, draw_options, version, s)
      | (Inr response, s) \<Rightarrow>
          plot_fields (json response) ''draw_options'' ''GetROOTplot'' response draw_options version json_data s)"

definition GetPlotlyPlot ::
    "json_parser \<Rightarrow> 'b cc \<Rightarrow> string \<Rightarrow> string \<Rightarrow> string \<Rightarrow> int \<Rightarrow> u32 \<Rightarrow> 'b services
      \<Rightarrow> bool \<times> string \<times> string \<times> int \<times> 'b services" where
  "GetPlotlyPlot json cc name trace layout version timeout s =
     (case fetch cc ''R_PLOTLYPLOT''
             (''SELECT json_build_object('version', version, 'data', data, 'layout', layout) FROM plotlyplots WHERE name=''
              @ quoted name @ latest_or version '' AND version='')
             (''GetPlotlyPlot error: PlotlyPlot '' @ name @ '' version '' @ int_str version @ '' not found'')
             timeout s of
        (Inl err, s) \<Rightarrow> (False, err, layout, version, s)
      | (Inr response, s) \<Rightarrow>
          plot_fields (json response) ''layout'' ''GetPlotlyPlot'' response layout version trace s)"

section \<open>Version numbers\<close>

lemma nat_str_first: "\<exists>c cs. nat_str n = c # cs \<and> is_digit c"
proof -
  obtain c cs where "nat_str n = c # cs" by (meson nat_str_nonempty neq_Nil_conv)
  then show ?thesis using nat_str_digits [of n] by auto
qed

lemma digit_plain: "is_digit c \<Longrightarrow> \<not> isspace c \<and> c \<noteq> CHR ''-'' \<and> c \<noteq> CHR ''+''"
  by (auto simp: is_digit_def isspace_def)

lemma stoull_nat_str: "n < 2 ^ 64 \<Longrightarrow> stoull (nat_str n) = Some (of_nat n)"
proof -
  assume n: "n < 2 ^ 64"
  obtain c cs where s: "nat_str n = c # cs" and d: "is_digit c" using nat_str_first by blast
  have "read_magnitude (c # cs) = Some n"
    using d n read_nat_str [of n] s by (simp add: read_magnitude_def)
  then show ?thesis
    using digit_plain [OF d] by (simp add: stoull_def strip_leading_def s)
qed

lemma to_int_small:
  assumes "n < 2 ^ 31"
  shows "to_int (of_nat n) = int n"
proof -
  have "(ucast (of_nat n :: u64) :: 32 word) = of_nat n"
    using assms by (simp add: unsigned_of_nat take_bit_nat_eq_self)
  moreover have "sint (of_nat n :: 32 word) = int n"
    using assms by (simp add: sint_uint uint_nat unat_of_nat signed_take_bit_int_eq_self)
  ultimately show ?thesis by (simp add: to_int_def)
qed

lemma read_version_nat_str: "n < 2 ^ 31 \<Longrightarrow> read_version (nat_str n) (Some old) = (True, Some (int n))"
  by (simp add: read_version_def stoull_nat_str to_int_small)

section \<open>The command channel\<close>

definition valid_topic :: "string \<Rightarrow> bool" where
  "valid_topic topic \<longleftrightarrow> topic \<noteq> [] \<and> to_lower (hd topic) \<in> {CHR ''r'', CHR ''w''}"

text \<open>The contract: a call that succeeds was answered, with no row, which leaves the caller's string alone, or
  with one, which replaces it; a call on a channel that \<open>serves\<close> a row succeeds with it; a topic of
  neither kind is refused and changes nothing.\<close>

locale command_channel =
  fixes send :: "string \<Rightarrow> string \<Rightarrow> string \<Rightarrow> u32 \<Rightarrow> 'b \<Rightarrow> bool \<times> string \<times> string \<times> 'b"
    and answered :: "string option \<Rightarrow> bool"
    and serves :: "'b \<Rightarrow> string \<Rightarrow> bool"
  assumes success: "send topic command results timeout b = (True, results', err, b') \<Longrightarrow>
      answered None \<and> results' = results \<or> answered (Some results')"
    and served: "\<lbrakk>valid_topic topic; serves b row\<rbrakk> \<Longrightarrow>
      \<exists>err b'. send topic command results timeout b = (True, row, err, b')"
    and refused: "\<not> valid_topic topic \<Longrightarrow>
      \<exists>err. send topic command results timeout b = (False, results, err, b)"
begin

lemma fetch_answered:
  assumes "fetch send topic cmd not_found timeout s = (Inr response, s')"
  shows "answered (Some response) \<and> response \<noteq> []"
  using assms success [of topic cmd "[]" timeout "sv_backend s"]
  by (auto simp: fetch_def Let_def split: prod.splits if_splits)

lemma fetch_served:
  assumes "valid_topic topic" and "serves (sv_backend s) row" and "row \<noteq> []"
  shows "\<exists>b'. fetch send topic cmd not_found timeout s = (Inr row, s\<lparr>sv_backend := b'\<rparr>)"
  using served [OF assms(1,2), of cmd "[]" timeout] assms(3) by (auto simp: fetch_def Let_def)

lemma send_versioned_answered:
  assumes "send_versioned send topic cmd (Some old) timeout s = (True, version, s')"
  shows "\<exists>response v. answered (Some response) \<and> stoull response = Some v \<and> version = Some (to_int v)"
  using assms success [of topic cmd "[]" timeout "sv_backend s"]
  by (auto simp: send_versioned_def read_version_def Let_def split: prod.splits if_splits option.splits)

lemma send_versioned_served:
  assumes "valid_topic topic" and "serves (sv_backend s) (nat_str n)" and "n < 2 ^ 31"
  shows "\<exists>b'. send_versioned send topic cmd (Some old) timeout s
    = (True, Some (int n), s\<lparr>sv_backend := b'\<rparr>)"
  using served [OF assms(1,2), of cmd "[]" timeout] assms(3)
  by (auto simp: send_versioned_def read_version_nat_str Let_def)

end

definition row_answered :: "call_env \<Rightarrow> string option \<Rightarrow> bool" where
  "row_answered env row \<longleftrightarrow>
     (case ce_arrived env of
        ResponseArrived c \<Rightarrow> cmd_success c \<noteq> 0
          \<and> cmd_response c = (case row of None \<Rightarrow> [] | Some r \<Rightarrow> [r])
      | _ \<Rightarrow> False)"

definition row_served :: "call_env \<Rightarrow> backend \<Rightarrow> string \<Rightarrow> bool" where
  "row_served env b row \<longleftrightarrow>
     row_answered env (Some row) \<and> ce_sent env = SendReported 0 0 \<and> zstd_cctx b \<noteq> None"

lemma DoCommand_succeeds:
  assumes "DoCommand ds sent dr arrived ticket cmd ms b = (Some (ok, cmd'), b')"
    and "cmd_success cmd' \<noteq> 0"
  shows "arrived = ResponseArrived cmd'"
  using assms
  by (auto simp: DoCommand_def after_send_def after_response_def Command_assign_def Let_def
      split: prod.splits call_state.splits response_wait.splits send_wait.splits if_splits)

lemma SendCommand_vector_succeeds:
  assumes "SendCommand_vector env topic command timeout b = (True, rows, err, b')"
  shows "\<exists>c. ce_arrived env = ResponseArrived c \<and> cmd_success c \<noteq> 0 \<and> rows = cmd_response c"
  using assms DoCommand_succeeds
  by (fastforce simp: SendCommand_vector_def split: cres.splits prod.splits option.splits)

lemma encode_datagram_total:
  "zstd_cctx b \<noteq> None \<Longrightarrow> \<exists>d w. encode_datagram b msg = Ok (d, w)"
  using run_compress_total [of "the (zstd_cctx b)" msg MAX_UDP_PACKET_SIZE "compression_level b"]
  by (auto simp: encode_datagram_def ZstdCompress_array_def ZstdCompress_to_def Let_def)

lemma SendCommand_vector_served:
  assumes "valid_topic topic" and "row_served env b row"
  shows "\<exists>err b'. SendCommand_vector env topic command timeout b = (True, [row], err, b')"
proof -
  obtain d w where d: "encode_datagram b command = Ok (d, w)"
    using assms(2) encode_datagram_total unfolding row_served_def by blast
  obtain c where c: "ce_arrived env = ResponseArrived c" "cmd_success c \<noteq> 0" "cmd_response c = [row]"
    using assms(2) by (auto simp: row_served_def row_answered_def split: response_wait.splits)
  obtain cmd ms where p: "prepare_command topic command timeout b = Ok (cmd, ms)"
    using assms(1) d by (auto simp: prepare_command_def valid_topic_def Let_def)
  show ?thesis
    using c p assms(2)
    by (simp add: SendCommand_vector_def row_served_def DoCommand_def after_send_def after_response_def
        Command_assign_def Let_def split: prod.split)
qed

lemma SendCommand_vector_refused:
  "\<not> valid_topic topic \<Longrightarrow> \<exists>err. SendCommand_vector env topic command timeout b = (False, [], err, b)"
  by (auto simp: SendCommand_vector_def prepare_command_def valid_topic_def Let_def)

interpretation bcc: command_channel "SendCommand env" "row_answered env" "row_served env"
proof
  fix topic command results timeout b results' err b'
  assume "SendCommand env topic command results timeout b = (True, results', err, b')"
  then obtain rows err' where v: "SendCommand_vector env topic command timeout b = (True, rows, err', b')"
    and r: "length rows \<le> 1" "results' = (if rows \<noteq> [] then hd rows else results)"
    by (auto simp: SendCommand_def Let_def split: prod.splits if_splits)
  then show "row_answered env None \<and> results' = results \<or> row_answered env (Some results')"
    using SendCommand_vector_succeeds [OF v] by (cases rows) (auto simp: row_answered_def)
next
  fix topic b row command results timeout
  assume "valid_topic topic" "row_served env b row"
  then show "\<exists>err b'. SendCommand env topic command results timeout b = (True, row, err, b')"
    using SendCommand_vector_served [of topic env b row command timeout]
    by (auto simp: SendCommand_def Let_def)
next
  fix topic command results timeout b
  assume "\<not> valid_topic topic"
  then show "\<exists>err. SendCommand env topic command results timeout b = (False, results, err, b)"
    using SendCommand_vector_refused [of topic env command timeout b]
    by (auto simp: SendCommand_def Let_def)
qed

section \<open>What the callers get\<close>

lemma topics_valid:
  "valid_topic ''W_CALIBRATION''" "valid_topic ''W_DEVCONFIG''" "valid_topic ''W_BASECONFIG''"
  "valid_topic ''W_RUNMODECONFIG''" "valid_topic ''W_TROOTPLOT''" "valid_topic ''W_PLOTLYPLOT''"
  "valid_topic ''R_CALIBRATION''" "valid_topic ''R_DEVCONFIG''" "valid_topic ''R_RUNCONFIG''"
  "valid_topic ''R_RUNDEVICECONFIG''" "valid_topic ''R_KACHEDDEVICECONFIG''"
  by (simp_all add: valid_topic_def to_lower_def char_of_def bit_0)

text \<open>every writer hands back the version the database gave to its entry: when the channel answers with a
  version number below \<open>2 ^ 31\<close>, the call succeeds, the version is that number, and nothing but the
  backend has changed.\<close>
theorem stored_version_returned:
  assumes "row_served env (sv_backend s) (nat_str n)" and "n < 2 ^ 31"
  shows "(\<exists>b. SendCalibrationData (SendCommand env) now data description device ts (Some old) ms s
           = (True, Some (int n), s\<lparr>sv_backend := b\<rparr>))
    \<and> (\<exists>b. SendDeviceConfig (SendCommand env) now data author description device ts (Some old) ms s
           = (True, Some (int n), s\<lparr>sv_backend := b\<rparr>))
    \<and> (\<exists>b. SendBaseConfig (SendCommand env) now data name author description ts (Some old) ms s
           = (True, Some (int n), s\<lparr>sv_backend := b\<rparr>))
    \<and> (\<exists>b. SendRunModeConfig (SendCommand env) now data name author description ts (Some old) ms s
           = (True, Some (int n), s\<lparr>sv_backend := b\<rparr>))
    \<and> (\<exists>b. SendROOTplot (SendCommand env) now name options data (Some old) ts lifetime ms s
           = (True, Some (int n), s\<lparr>sv_backend := b\<rparr>))
    \<and> (\<exists>b. SendPlotlyPlot (SendCommand env) now name trace layout (Some old) ts lifetime ms s
           = (True, Some (int n), s\<lparr>sv_backend := b\<rparr>))"
  using bcc.send_versioned_served [OF _ assms] topics_valid
  by (simp add: SendCalibrationData_def SendDeviceConfig_def SendBaseConfig_def
      SendRunModeConfig_def SendROOTplot_def SendPlotlyPlot_def SendPlotlyPlot_traces_def
      no_version_def Let_def)

definition demo_env :: "string \<Rightarrow> call_env" where
  "demo_env row =
     \<lparr>ce_during_send = id, ce_sent = SendReported 0 0, ce_during_response = id,
      ce_arrived = ResponseArrived (Command_default\<lparr>cmd_success := 1, cmd_response := [row]\<rparr>),
      ce_ticket = 0\<rparr>"

lemma demo_env_serves: "row_served (demo_env row) demo_backend row"
  by (simp add: row_served_def row_answered_def demo_env_def demo_backend_def)

definition demo_service :: "backend services" where
  "demo_service =
     \<lparr>sv_name = ''demo'', logging_buf = [], monitoring_buf = [], monitoring_msgs_sent = Map.empty,
      alarm_buf = [], logging_batch_bytes = 0, monitoring_batch_bytes = 0,
      mon_merge_period_ms = 1000, alarm_cooldown_ms = 1000, MSS_SIZE = 1472,
      sv_backend = demo_backend\<rparr>"

lemma demo_service_backend [simp]: "sv_backend demo_service = demo_backend"
  by (simp add: demo_service_def)

lemma stored_version_returned_witness:
  "\<exists>b. SendDeviceConfig (SendCommand (demo_env (nat_str 17))) 1 ''{}'' ''me'' ''first'' [] 0 (Some 0) 0 demo_service
     = (True, Some 17, demo_service\<lparr>sv_backend := b\<rparr>)"
  using stored_version_returned [of "demo_env (nat_str 17)" demo_service 17] demo_env_serves
  by simp

lemma version_and_data_True:
  "version_and_data tmp row (Some old) s = (True, data, version, s')
     \<Longrightarrow> \<exists>v. get_number tmp ''version'' = Some v \<and> version = Some v \<and> get_text tmp ''data'' = Some data"
  by (simp add: version_and_data_def Let_def split: option.splits)

lemma GetCached_True:
  assumes "GetCachedDeviceConfig json cc base runmode device version ms s = (True, data, version', s')"
  obtains row s1 where "fetch cc ''R_KACHEDDEVICECONFIG'' (device_or_self s device)
       (''GetCachedDeviceConfig error: config for device '' @ device_or_self s device @ '' not found'') ms s
       = (Inr row, s1)"
    and "got (get_number (json row) ''base_config_id'') (-1) = base"
    and "got (get_number (json row) ''runmode_config_id'') (-1) = runmode"
    and "version_and_data (json row) row version s1 = (True, data, version', s')"
  using assms by (auto simp: GetCachedDeviceConfig_def Let_def split: prod.splits sum.splits if_splits)

text \<open>a cached configuration is handed out only when the database answered with a row whose two
  identifiers are the ones asked for, and then it is the data of that row, with its version.\<close>
theorem cached_config_is_the_one_asked_for:
  assumes "GetCachedDeviceConfig json (SendCommand env) base runmode device (Some old) ms s
    = (True, data, version, s')"
  shows "\<exists>row v. row_answered env (Some row) \<and> get_text (json row) ''data'' = Some data
    \<and> got (get_number (json row) ''base_config_id'') (-1) = base
    \<and> got (get_number (json row) ''runmode_config_id'') (-1) = runmode
    \<and> get_number (json row) ''version'' = Some v \<and> version = Some v"
proof -
  obtain row s1 where "fetch (SendCommand env) ''R_KACHEDDEVICECONFIG'' (device_or_self s device)
       (''GetCachedDeviceConfig error: config for device '' @ device_or_self s device @ '' not found'') ms s
       = (Inr row, s1)"
    and *: "got (get_number (json row) ''base_config_id'') (-1) = base"
    "got (get_number (json row) ''runmode_config_id'') (-1) = runmode"
    "version_and_data (json row) row (Some old) s1 = (True, data, version, s')"
    by (rule GetCached_True [OF assms])
  then have "row_answered env (Some row)" using bcc.fetch_answered by blast
  then show ?thesis using * version_and_data_True [OF *(3)] by blast
qed

text \<open>A parser for the example: what \<open>Store\<close> finds in a row.\<close>

definition demo_json :: json_parser where
  "demo_json row = \<lparr>get_text = (\<lambda>k. if k = ''data'' then Some ''{\"gain\":3}'' else None),
     get_number = (\<lambda>k. if k = ''version'' then Some 5 else if k = ''base_config_id'' then Some 12
        else if k = ''runmode_config_id'' then Some 4 else None)\<rparr>"

lemma cached_config_is_the_one_asked_for_witness:
  "\<exists>s'. GetCachedDeviceConfig demo_json (SendCommand (demo_env ''{}'')) 12 4 [] (Some 0) 0 demo_service
     = (True, ''{\"gain\":3}'', Some 5, s')
   \<and> (\<exists>row v. row_answered (demo_env ''{}'') (Some row)
        \<and> get_text (demo_json row) ''data'' = Some ''{\"gain\":3}''
        \<and> got (get_number (demo_json row) ''base_config_id'') (-1) = 12
        \<and> got (get_number (demo_json row) ''runmode_config_id'') (-1) = 4
        \<and> get_number (demo_json row) ''version'' = Some v \<and> Some (5 :: int) = Some v)"
proof -
  let ?env = "demo_env ''{}''" and ?t = "''R_KACHEDDEVICECONFIG''"
  have "valid_topic ?t" "row_served ?env (sv_backend demo_service) ''{}''"
    using topics_valid demo_env_serves [of "''{}''"] by simp_all
  from bcc.fetch_served [OF this]
  obtain b where "fetch (SendCommand ?env) ?t ''demo''
      (''GetCachedDeviceConfig error: config for device '' @ ''demo'' @ '' not found'') 0 demo_service
      = (Inr ''{}'', demo_service\<lparr>sv_backend := b\<rparr>)"
    by blast
  then have r: "GetCachedDeviceConfig demo_json (SendCommand ?env) 12 4 [] (Some 0) 0 demo_service
      = (True, ''{\"gain\":3}'', Some 5, demo_service\<lparr>sv_backend := b\<rparr>)"
    by (simp add: GetCachedDeviceConfig_def device_or_self_def demo_service_def demo_json_def got_def
        version_and_data_def)
  show ?thesis using r cached_config_is_the_one_asked_for [OF r] by blast
qed

text \<open>A version number at or beyond \<open>2 ^ 31\<close> is not handed back as it is: the 64-bit number is cut to an
  \<open>int\<close>.\<close>

lemma large_version_cut: "to_int 4294967297 = 1" "to_int 2147483648 = - 2147483648"
  by (simp_all add: to_int_def)

end
