(* ===== verification/SlowControlElement.thy ===== *)
theory SlowControlElement
  imports Prelude
begin

text \<open>
  One slow control (\<open>SlowControlElement.h\<close>, \<open>SlowControlElement.cpp\<close>): a named button, variable, list
  of options, command or read-only information, with a value, limits, and the functions called when it
  is changed or read. The key-value class \<open>Store\<close> comes from another repository: its operations are
  the record \<open>store_ops\<close>, an argument, and what the code relies on is \<open>store_laws\<close>. A change or read
  function is a value of type \<open>'f\<close>; \<open>run f text w\<close> is what calling it does to the world \<open>w\<close> and
  what it returns, \<open>None\<close> for an exception.
\<close>

section \<open>The key-value store\<close>

text \<open>\<open>'o\<close> is a store, \<open>'d\<close> the numbers of type \<open>double\<close>. \<open>so_read_num\<close> and \<open>so_show_num\<close> are the stream
  operators on them; \<open>so_items\<close> is the range of the iterators, \<open>so_parse\<close> a new store filled by
  \<open>JsonParser\<close>; the \<open>default\<close> operations are the form of \<open>Get\<close> that returns its result.\<close>

record ('o, 'd) store_ops =
  so_empty :: 'o
  so_parse :: "string \<Rightarrow> 'o"
  so_items :: "'o \<Rightarrow> (string \<times> string) list"
  so_has :: "string \<Rightarrow> 'o \<Rightarrow> bool"
  so_set_text :: "string \<Rightarrow> string \<Rightarrow> 'o \<Rightarrow> 'o"
  so_get_text :: "string \<Rightarrow> 'o \<Rightarrow> string option"
  so_text_default :: "string \<Rightarrow> 'o \<Rightarrow> string"
  so_set_num :: "string \<Rightarrow> 'd \<Rightarrow> 'o \<Rightarrow> 'o"
  so_get_num :: "string \<Rightarrow> 'o \<Rightarrow> 'd option"
  so_num_default :: "string \<Rightarrow> 'o \<Rightarrow> 'd"
  so_set_int :: "string \<Rightarrow> int \<Rightarrow> 'o \<Rightarrow> 'o"
  so_get_int :: "string \<Rightarrow> 'o \<Rightarrow> int option"
  so_destring :: "string \<Rightarrow> 'o \<Rightarrow> 'o"
  so_write :: "'o \<Rightarrow> string"
  so_read_num :: "string \<Rightarrow> 'd"
  so_show_num :: "'d \<Rightarrow> string"

text \<open>\<open>Get\<close> finds what \<open>Set\<close> put under the key, \<open>Destring\<close> only changes how it is printed, and other
  keys are left alone.\<close>

definition store_laws :: "('o, 'd) store_ops \<Rightarrow> bool" where
  "store_laws so \<longleftrightarrow>
     (\<forall>k v o1. so_get_text so k (so_set_text so k v o1) = Some v \<and> so_has so k (so_set_text so k v o1))
     \<and> (\<forall>k v o1. so_get_num so k (so_set_num so k v o1) = Some v)
     \<and> (\<forall>k v o1. so_get_int so k (so_set_int so k v o1) = Some v)
     \<and> (\<forall>k j v o1. k \<noteq> j \<longrightarrow> so_get_num so k (so_set_num so j v o1) = so_get_num so k o1)
     \<and> (\<forall>k j o1. so_get_text so k (so_destring so j o1) = so_get_text so k o1)
     \<and> (\<forall>k. so_get_text so k (so_empty so) = None)"

lemma store_lawsD:
  assumes "store_laws so"
  shows "so_get_text so k (so_set_text so k t o1) = Some t" "so_has so k (so_set_text so k t o1)"
    "so_get_num so k (so_set_num so k v o1) = Some v"
    "so_get_int so k (so_set_int so k i o1) = Some i"
    "k \<noteq> j \<Longrightarrow> so_get_num so k (so_set_num so j v o1) = so_get_num so k o1"
    "so_get_text so k (so_destring so j o1) = so_get_text so k o1"
    "so_get_text so k (so_empty so) = None"
  using assms unfolding store_laws_def by simp_all

section \<open>State\<close>

datatype SlowControlElementType = BUTTON | VARIABLE | OPTIONS | COMMAND | INFO

record ('o, 'f) element =
  el_name :: string
  el_type :: SlowControlElementType
  el_options :: 'o
  num_options :: nat
  el_change :: "'f option"
  el_read :: "'f option"
  el_lockable :: bool
  el_hidden :: bool

definition SlowControlElement_new ::
    "('o, 'd) store_ops \<Rightarrow> string \<Rightarrow> SlowControlElementType \<Rightarrow> 'f option \<Rightarrow> 'f option \<Rightarrow> bool \<Rightarrow> bool
      \<Rightarrow> ('o, 'f) element" where
  "SlowControlElement_new so name type change_function read_function lockable hidden =
     \<lparr>el_name = name, el_type = type, el_options = so_empty so, num_options = 0,
      el_change = change_function, el_read = read_function, el_lockable = lockable,
      el_hidden = hidden\<rparr>"

definition IsName :: "('o, 'f) element \<Rightarrow> string \<Rightarrow> bool" where
  "IsName el name \<longleftrightarrow> el_name el = name"

section \<open>Limits and choices\<close>

definition SetLimit :: "('o, 'd) store_ops \<Rightarrow> string \<Rightarrow> 'd \<Rightarrow> ('o, 'f) element \<Rightarrow> bool \<times> ('o, 'f) element" where
  "SetLimit so which value el =
     (if el_type el = VARIABLE then (True, el\<lparr>el_options := so_set_num so which value (el_options el)\<rparr>)
      else (False, el))"

definition SetMin :: "('o, 'd) store_ops \<Rightarrow> 'd \<Rightarrow> ('o, 'f) element \<Rightarrow> bool \<times> ('o, 'f) element" where
  "SetMin so value el = SetLimit so ''min'' value el"

definition SetMax :: "('o, 'd) store_ops \<Rightarrow> 'd \<Rightarrow> ('o, 'f) element \<Rightarrow> bool \<times> ('o, 'f) element" where
  "SetMax so value el = SetLimit so ''max'' value el"

definition SetStep :: "('o, 'd) store_ops \<Rightarrow> 'd \<Rightarrow> ('o, 'f) element \<Rightarrow> bool \<times> ('o, 'f) element" where
  "SetStep so value el = SetLimit so ''step'' value el"

text \<open>A bracketed list kept as text: the closing bracket is cut off and the new item put before another.\<close>

definition append_item :: "string option \<Rightarrow> string \<Rightarrow> string" where
  "append_item current item =
     (case current of
        None \<Rightarrow> ''['' @ item @ '']''
      | Some text \<Rightarrow> take (length text - 1) text @ '','' @ item @ '']'')"

definition AddOption :: "('o, 'd) store_ops \<Rightarrow> string \<Rightarrow> ('o, 'f) element \<Rightarrow> bool \<times> ('o, 'f) element" where
  \<open>AddOption so value el =
     (if el_type el = OPTIONS then
        let current = append_item (so_get_text so ''options'' (el_options el)) (''"'' @ value @ ''"'') in
        (True, el\<lparr>num_options := num_options el + 1,
                  el_options := so_destring so ''options'' (so_set_text so ''options'' current (el_options el))\<rparr>)
      else (False, el))\<close>

definition AddCommand :: "('o, 'd) store_ops \<Rightarrow> string \<Rightarrow> ('o, 'f) element \<Rightarrow> bool \<times> ('o, 'f) element" where
  "AddCommand so value el =
     (if el_type el = COMMAND then
        let current = append_item (so_get_text so ''commands'' (el_options el)) value in
        (True, el\<lparr>num_options := num_options el + 1,
                  el_options := so_destring so ''commands'' (so_set_text so ''commands'' current (el_options el))\<rparr>)
      else (False, el))"

definition SetDefault :: "('o, 'd) store_ops \<Rightarrow> string \<Rightarrow> ('o, 'f) element \<Rightarrow> bool \<times> ('o, 'f) element" where
  "SetDefault so value el =
     (if el_type el \<noteq> COMMAND then (False, el)
      else (True, el\<lparr>el_options := so_set_text so ''default'' value (el_options el)\<rparr>))"

section \<open>Values\<close>

type_synonym ('f, 'w) run = "'f \<Rightarrow> string \<Rightarrow> 'w \<Rightarrow> string option \<times> 'w"

text \<open>Calling the change function, if there is one; only whether it threw matters.\<close>

definition run_change :: "('f, 'w) run \<Rightarrow> 'f option \<Rightarrow> string \<Rightarrow> 'w \<Rightarrow> bool \<times> 'w" where
  "run_change run f text w =
     (case f of None \<Rightarrow> (True, w) | Some g \<Rightarrow> let (r, w) = run g text w in (r \<noteq> None, w))"

definition clamp :: "'d :: linorder option \<Rightarrow> 'd option \<Rightarrow> 'd \<Rightarrow> 'd" where
  "clamp lo hi value =
     (let value = (case lo of Some m \<Rightarrow> if value < m then m else value | None \<Rightarrow> value)
      in case hi of Some m \<Rightarrow> if m < value then m else value | None \<Rightarrow> value)"

text \<open>The template \<open>SetValue\<close> at type \<open>double\<close> and at type \<open>int\<close>; the latter is used on elements that are
  not variables.\<close>

definition SetValue_num ::
    "('o, 'd :: linorder) store_ops \<Rightarrow> ('f, 'w) run \<Rightarrow> 'd \<Rightarrow> ('o, 'f) element \<Rightarrow> 'w
      \<Rightarrow> bool \<times> ('o, 'f) element \<times> 'w" where
  "SetValue_num so run value el w =
     (let value = (if el_type el = VARIABLE
                   then clamp (so_get_num so ''min'' (el_options el)) (so_get_num so ''max'' (el_options el)) value
                   else value);
          (ok, w) = run_change run (el_change el) (so_show_num so value) w
      in if \<not> ok then (False, el, w)
         else (True, el\<lparr>el_options := so_set_num so ''value'' value (el_options el)\<rparr>, w))"

definition SetValue_int ::
    "('o, 'd) store_ops \<Rightarrow> ('f, 'w) run \<Rightarrow> int \<Rightarrow> ('o, 'f) element \<Rightarrow> 'w
      \<Rightarrow> bool \<times> ('o, 'f) element \<times> 'w" where
  "SetValue_int so run value el w =
     (let (ok, w) = run_change run (el_change el) (int_str value) w
      in if \<not> ok then (False, el, w)
         else (True, el\<lparr>el_options := so_set_int so ''value'' value (el_options el)\<rparr>, w))"

definition sanitise_char :: "char \<Rightarrow> char" where
  "sanitise_char c =
     (if c = CHR '','' then CHR ''.'' else if c = CHR ''{'' then CHR ''['' else if c = CHR ''}'' then CHR '']''
      else if c = CHR 0x22 then CHR 0x27 else c)"

definition SetValue ::
    "('o, 'd :: linorder) store_ops \<Rightarrow> ('f, 'w) run \<Rightarrow> string \<Rightarrow> ('o, 'f) element \<Rightarrow> 'w
      \<Rightarrow> bool \<times> ('o, 'f) element \<times> 'w" where
  "SetValue so run value el w =
     (if el_type el = VARIABLE then SetValue_num so run (so_read_num so value) el w
      else let (ok, w) = run_change run (el_change el) value w
      in if \<not> ok then (False, el, w)
         else let value = (if el_type el = INFO then map sanitise_char value else value)
         in (True, el\<lparr>el_options := so_set_text so ''value'' value (el_options el)\<rparr>, w))"

text \<open>The refresh of the value by the read function; \<open>None\<close> when it threw.\<close>

definition refresh ::
    "('o, 'd) store_ops \<Rightarrow> ('f, 'w) run \<Rightarrow> ('o, 'f) element \<Rightarrow> 'w \<Rightarrow> ('o, 'f) element option \<times> 'w" where
  "refresh so run el w =
     (case el_read el of
        None \<Rightarrow> (Some el, w)
      | Some f \<Rightarrow>
          let (r, w) = run f [] w in
          (map_option (\<lambda>text. el\<lparr>el_options := so_set_text so ''value'' text (el_options el)\<rparr>) r, w))"

definition GetValue ::
    "('o, 'd) store_ops \<Rightarrow> ('f, 'w) run \<Rightarrow> string \<Rightarrow> ('o, 'f) element \<Rightarrow> 'w
      \<Rightarrow> bool \<times> string \<times> ('o, 'f) element \<times> 'w" where
  "GetValue so run value el w =
     (case refresh so run el w of
        (None, w) \<Rightarrow> (False, value, el, w)
      | (Some el, w) \<Rightarrow>
          if \<not> so_has so ''value'' (el_options el) then (False, value, el, w)
          else (True, case so_get_text so ''value'' (el_options el) of Some v \<Rightarrow> v | None \<Rightarrow> value, el, w))"

text \<open>The template at type \<open>int\<close>; the variable it returns is not initialised when nothing is found (\<open>None\<close>).\<close>

definition GetValue_int ::
    "('o, 'd) store_ops \<Rightarrow> ('f, 'w) run \<Rightarrow> ('o, 'f) element \<Rightarrow> 'w \<Rightarrow> int option \<times> ('o, 'f) element \<times> 'w" where
  "GetValue_int so run el w =
     (case refresh so run el w of
        (None, w) \<Rightarrow> (None, el, w)
      | (Some el, w) \<Rightarrow> (so_get_int so ''value'' (el_options el), el, w))"

section \<open>Text\<close>

primrec type_name :: "SlowControlElementType \<Rightarrow> string" where
  "type_name VARIABLE = ''VARIABLE''"
| "type_name BUTTON = ''BUTTON''"
| "type_name OPTIONS = ''OPTIONS''"
| "type_name COMMAND = ''COMMAND''"
| "type_name INFO = ''INFO''"

definition Print ::
    "('o, 'd) store_ops \<Rightarrow> ('f, 'w) run \<Rightarrow> ('o, 'f) element \<Rightarrow> 'w \<Rightarrow> string \<times> ('o, 'f) element \<times> 'w" where
  \<open>Print so run el w =
     (let (r, w) = refresh so run el w;
          el = (case r of Some e \<Rightarrow> e | None \<Rightarrow> el)
      in (''{"name":"'' @ el_name el @ ''","type":"'' @ type_name (el_type el) @ ''"''
          @ concat (map (\<lambda>(k, v). '',"'' @ k @ ''":'' @ v) (so_items so (el_options el))) @ ''}'', el, w))\<close>

text \<open>The items of a bracketed list, the text after its first character: each ends at a comma or a closing
  bracket.\<close>

fun list_items :: "string \<Rightarrow> string \<Rightarrow> string list" where
  "list_items item [] = []"
| "list_items item (c # cs) =
     (if c = CHR '']'' \<or> c = CHR '','' then item # list_items [] cs else list_items (item @ [c]) cs)"

definition SetVariable ::
    "('o, 'd :: linorder) store_ops \<Rightarrow> ('f, 'w) run \<Rightarrow> 'o \<Rightarrow> ('o, 'f) element \<Rightarrow> 'w \<Rightarrow> ('o, 'f) element \<times> 'w" where
  "SetVariable so run tmp el w =
     (let el = snd (SetMin so (so_num_default so ''min'' tmp) (el\<lparr>el_type := VARIABLE\<rparr>));
          el = snd (SetMax so (so_num_default so ''max'' tmp) el);
          el = snd (SetStep so (so_num_default so ''step'' tmp) el)
      in snd (SetValue_num so run (so_num_default so ''value'' tmp) el w))"

definition type_is :: "string \<Rightarrow> string \<Rightarrow> string \<Rightarrow> bool" where
  "type_is type upper lower \<longleftrightarrow> type = upper \<or> type = lower"

definition JsonParser ::
    "('o, 'd :: linorder) store_ops \<Rightarrow> ('f, 'w) run \<Rightarrow> string \<Rightarrow> ('o, 'f) element \<Rightarrow> 'w
      \<Rightarrow> bool \<times> ('o, 'f) element \<times> 'w" where
  "JsonParser so run json el w =
     (let tmp = so_parse so json;
          type = so_text_default so ''type'' tmp
      in if type_is type ''BUTTON'' ''button'' then (True, el\<lparr>el_type := BUTTON\<rparr>, w)
         else if type_is type ''VARIABLE'' ''variable'' then (True, SetVariable so run tmp el w)
         else if type_is type ''OPTIONS'' ''options'' then
           let (ok, el, w) = SetValue so run (so_text_default so ''value'' tmp) (el\<lparr>el_type := OPTIONS\<rparr>) w;
               options = (case so_get_text so ''options'' tmp of Some t \<Rightarrow> t | None \<Rightarrow> [])
           in (True, fold (\<lambda>item el. snd (AddOption so item el)) (list_items [] (drop 1 options)) el, w)
         else if type_is type ''COMMAND'' ''command'' then
           let commands = (case so_get_text so ''commands'' tmp of Some t \<Rightarrow> t | None \<Rightarrow> []);
               el = snd (SetDefault so (so_text_default so ''default'' tmp) (el\<lparr>el_type := COMMAND\<rparr>))
           in (True, fold (\<lambda>item el. snd (AddCommand so item el)) (list_items [] (drop 1 commands)) el, w)
         else if type_is type ''INFO'' ''info'' then
           let (ok, el, w) = SetValue so run (so_text_default so ''value'' tmp) (el\<lparr>el_type := INFO\<rparr>) w
           in (True, el, w)
         else (False, el, w))"

section \<open>What the element keeps\<close>

lemma clamp_both:
  "clamp (Some lo) (Some hi) v = (if v < lo then (if hi < lo then hi else lo) else if hi < v then hi else v)"
  by (simp add: clamp_def)

lemma SetValue_num_cases:
  assumes "SetValue_num so run v el w = (ok, el', w')"
  shows "if ok then el' = el\<lparr>el_options := so_set_num so ''value''
       (if el_type el = VARIABLE
        then clamp (so_get_num so ''min'' (el_options el)) (so_get_num so ''max'' (el_options el)) v
        else v) (el_options el)\<rparr>
     else el' = el"
  using assms by (auto simp: SetValue_num_def Let_def split: prod.splits if_splits)


lemma list_items_plain:
  "\<forall>c \<in> set item. c \<noteq> CHR '']'' \<and> c \<noteq> CHR '','' \<Longrightarrow>
     list_items acc (item @ rest) = list_items (acc @ item) rest"
  by (induction item arbitrary: acc) auto

definition plain_item :: "string \<Rightarrow> bool" where
  "plain_item item \<longleftrightarrow> (\<forall>c \<in> set item. c \<noteq> CHR '']'' \<and> c \<noteq> CHR '','')"

lemma list_items_join:
  "\<lbrakk>items \<noteq> []; \<forall>i \<in> set items. plain_item i\<rbrakk> \<Longrightarrow> list_items [] (join_comma items @ '']'') = items"
proof (induction items rule: join_comma.induct)
  case 1
  then show ?case by simp
next
  case (2 x)
  then show ?case using list_items_plain [of x "[]" "'']''"] by (simp add: plain_item_def)
next
  case (3 x y xs)
  then show ?case
    using list_items_plain [of x "[]" "'','' @ join_comma (y # xs) @ '']''"] by (simp add: plain_item_def)
qed

definition add_commands :: "('o, 'd) store_ops \<Rightarrow> string list \<Rightarrow> ('o, 'f) element \<Rightarrow> ('o, 'f) element" where
  "add_commands so items el = fold (\<lambda>item el. snd (AddCommand so item el)) items el"

lemma append_item_text:
  "append_item (Some (''['' @ join_comma items @ '']'')) item = ''['' @ join_comma items @ '','' @ item @ '']''"
  by (simp add: append_item_def)

lemma add_commands_text:
  assumes "store_laws so" and "el_type el = COMMAND" and "so_get_text so ''commands'' (el_options el) = None"
  shows "el_type (add_commands so items el) = COMMAND
    \<and> num_options (add_commands so items el) = num_options el + length items
    \<and> so_get_text so ''commands'' (el_options (add_commands so items el))
      = (if items = [] then None else Some (''['' @ join_comma items @ '']''))"
proof (induction items rule: rev_induct)
  case Nil
  then show ?case using assms by (simp add: add_commands_def)
next
  case (snoc x xs)
  let ?e = "add_commands so xs el"
  have "add_commands so (xs @ [x]) el = snd (AddCommand so x ?e)"
    by (simp add: add_commands_def)
  moreover have "append_item (so_get_text so ''commands'' (el_options ?e)) x
      = ''['' @ join_comma (xs @ [x]) @ '']''"
    using snoc append_item_text [of xs x]
    by (cases "xs = []") (simp add: append_item_def, simp add: join_comma_snoc)
  ultimately show ?case
    using snoc by (simp add: AddCommand_def Let_def store_lawsD [OF assms(1)])
qed

text \<open>the commands of a control survive being written and read back: after adding any commands without
  comma or closing bracket, the items the parser finds in the text are those commands, in order,
  and the counter counts them.\<close>
theorem commands_roundtrip:
  assumes "store_laws so" and "el_type el = COMMAND" and "so_get_text so ''commands'' (el_options el) = None"
    and "\<forall>i \<in> set items. plain_item i" and "items \<noteq> []"
  shows "\<exists>text. so_get_text so ''commands'' (el_options (add_commands so items el)) = Some text
    \<and> list_items [] (drop 1 text) = items
    \<and> num_options (add_commands so items el) = num_options el + length items"
  using add_commands_text [OF assms(1-3), of items] list_items_join [OF assms(5,4)] assms(5) by simp

section \<open>A store for the examples\<close>

datatype demo_entry = DText string | DNum int | DInt int

definition demo_store :: "(string \<Rightarrow> demo_entry option, int) store_ops" where
  "demo_store =
     \<lparr>so_empty = (\<lambda>_. None),
      so_parse = (\<lambda>text. (\<lambda>_. None)),
      so_items = (\<lambda>m. []),
      so_has = (\<lambda>k m. m k \<noteq> None),
      so_set_text = (\<lambda>k v m. m(k := Some (DText v))),
      so_get_text = (\<lambda>k m. case m k of Some (DText v) \<Rightarrow> Some v | _ \<Rightarrow> None),
      so_text_default = (\<lambda>k m. case m k of Some (DText v) \<Rightarrow> v | _ \<Rightarrow> []),
      so_set_num = (\<lambda>k v m. m(k := Some (DNum v))),
      so_get_num = (\<lambda>k m. case m k of Some (DNum v) \<Rightarrow> Some v | _ \<Rightarrow> None),
      so_num_default = (\<lambda>k m. case m k of Some (DNum v) \<Rightarrow> v | _ \<Rightarrow> 0),
      so_set_int = (\<lambda>k v m. m(k := Some (DInt v))),
      so_get_int = (\<lambda>k m. case m k of Some (DInt v) \<Rightarrow> Some v | _ \<Rightarrow> None),
      so_destring = (\<lambda>k m. m),
      so_write = (\<lambda>m. []),
      so_read_num = (\<lambda>text. int (read_digits 0 text)),
      so_show_num = int_str\<rparr>"

lemma demo_store_laws: "store_laws demo_store"
  by (auto simp: store_laws_def demo_store_def)

definition demo_variable :: "(string \<Rightarrow> demo_entry option, nat) element" where
  "demo_variable =
     (SlowControlElement_new demo_store ''gain'' VARIABLE None None True False)
       \<lparr>el_options := [''min'' \<mapsto> DNum 2, ''max'' \<mapsto> DNum 9]\<rparr>"


lemma commands_roundtrip_witness:
  "\<exists>text. so_get_text demo_store ''commands''
       (el_options (add_commands demo_store [''start'', ''stop'']
          (SlowControlElement_new demo_store ''run'' COMMAND None None True False :: (_, nat) element))) = Some text
     \<and> list_items [] (drop 1 text) = [''start'', ''stop'']"
proof -
  let ?el = "SlowControlElement_new demo_store ''run'' COMMAND None None True False :: (_, nat) element"
  have "el_type ?el = COMMAND" "so_get_text demo_store ''commands'' (el_options ?el) = None"
    by (simp_all add: SlowControlElement_new_def demo_store_def)
  moreover have "\<forall>i \<in> set [''start'', ''stop'']. plain_item i" by (simp add: plain_item_def)
  ultimately show ?thesis
    using commands_roundtrip [OF demo_store_laws, of ?el "[''start'', ''stop'']"] by auto
qed

end
