(* ===== verification/OrderedMap.thy ===== *)
theory OrderedMap
  imports Prelude "HOL-Library.List_Lexorder" "HOL-Library.Char_ord"
begin

text \<open>
  \<open>std::map<std::string, T>\<close> as the code uses it: an association list in the order of the keys, which
  is the order of its iterators. What its clients rely on is the locale \<open>dictionary\<close>.
\<close>

type_synonym 'v omap = "(string \<times> 'v) list"

definition om_lookup :: "string \<Rightarrow> 'v omap \<Rightarrow> 'v option" where
  "om_lookup k m = map_of m k"

fun om_insert :: "string \<Rightarrow> 'v \<Rightarrow> 'v omap \<Rightarrow> 'v omap" where
  "om_insert k v [] = [(k, v)]"
| "om_insert k v ((j, u) # m) =
     (if k < j then (k, v) # (j, u) # m else if k = j then (k, v) # m else (j, u) # om_insert k v m)"

definition om_delete :: "string \<Rightarrow> 'v omap \<Rightarrow> 'v omap" where
  "om_delete k m = filter (\<lambda>(j, u). j \<noteq> k) m"

definition om_wf :: "'v omap \<Rightarrow> bool" where
  "om_wf m \<longleftrightarrow> sorted_wrt (<) (map fst m)"

locale dictionary =
  fixes lookup :: "string \<Rightarrow> 'm \<Rightarrow> 'v option"
    and insert :: "string \<Rightarrow> 'v \<Rightarrow> 'm \<Rightarrow> 'm"
    and delete :: "string \<Rightarrow> 'm \<Rightarrow> 'm"
    and empty :: 'm
    and wf :: "'m \<Rightarrow> bool"
  assumes lookup_empty: "lookup k empty = None"
    and lookup_insert: "wf m \<Longrightarrow> lookup k (insert j v m) = (if k = j then Some v else lookup k m)"
    and lookup_delete: "wf m \<Longrightarrow> lookup k (delete j m) = (if k = j then None else lookup k m)"
    and wf_empty: "wf empty"
    and wf_insert: "wf m \<Longrightarrow> wf (insert k v m)"
    and wf_delete: "wf m \<Longrightarrow> wf (delete k m)"
begin

text \<open>An element invariant that also looks at the key.\<close>

definition all_entries :: "(string \<Rightarrow> 'v \<Rightarrow> bool) \<Rightarrow> 'm \<Rightarrow> bool" where
  "all_entries P m \<longleftrightarrow> (\<forall>k v. lookup k m = Some v \<longrightarrow> P k v)"

lemma all_entries_empty: "all_entries P empty"
  by (simp add: all_entries_def lookup_empty)

lemma all_entries_insert: "\<lbrakk>wf m; all_entries P m; P k v\<rbrakk> \<Longrightarrow> all_entries P (insert k v m)"
  by (simp add: all_entries_def lookup_insert)

lemma all_entries_delete: "\<lbrakk>wf m; all_entries P m\<rbrakk> \<Longrightarrow> all_entries P (delete k m)"
  by (simp add: all_entries_def lookup_delete)

lemma insert_delete_lookup: "\<lbrakk>wf m; lookup k m = None\<rbrakk> \<Longrightarrow> lookup j (delete k (insert k v m)) = lookup j m"
  by (simp add: lookup_delete lookup_insert wf_insert)

end

lemma om_insert_keys: "set (map fst (om_insert k v m)) = insert k (set (map fst m))"
  by (induction k v m rule: om_insert.induct) auto

lemma om_wf_insert: "om_wf m \<Longrightarrow> om_wf (om_insert k v m)"
  unfolding om_wf_def
proof (induction k v m rule: om_insert.induct)
  case (2 k v j u m)
  then show ?case
    using om_insert_keys [of k v m] by (auto dest: less_trans)
qed simp

lemma om_wf_delete: "om_wf m \<Longrightarrow> om_wf (om_delete k m)"
  unfolding om_wf_def om_delete_def by (induction m) auto

lemma om_lookup_insert: "om_wf m \<Longrightarrow> om_lookup k (om_insert j v m) = (if k = j then Some v else om_lookup k m)"
  unfolding om_wf_def om_lookup_def
  by (induction j v m rule: om_insert.induct) auto

lemma om_lookup_delete: "om_lookup k (om_delete j m) = (if k = j then None else om_lookup k m)"
  unfolding om_lookup_def om_delete_def by (induction m) auto

interpretation om: dictionary om_lookup om_insert om_delete "[]" om_wf
  by unfold_locales
    (simp_all add: om_lookup_insert om_lookup_delete om_wf_insert om_wf_delete, simp_all add: om_lookup_def om_wf_def)

lemma om_keys_distinct: "om_wf m \<Longrightarrow> distinct (map fst m)"
  unfolding om_wf_def by (induction m) auto

lemma om_in_set: "om_wf m \<Longrightarrow> (k, v) \<in> set m \<longleftrightarrow> om_lookup k m = Some v"
  unfolding om_lookup_def by (simp add: om_keys_distinct)

end
