(* ===== verification/SlowControlCollection.thy ===== *)
theory SlowControlCollection
  imports SlowControlElement OrderedMap ZstdHelpers
begin

text \<open>
  The slow controls of a device (\<open>SlowControlCollection.h\<close>, \<open>SlowControlCollection.cpp\<close>): the map from
  names to elements, the state flags, starting and stopping, and one turn of the receiver thread,
  which answers slow control requests and dispatches alerts. Functions given by the user are values
  of type \<open>'f\<close> (slow controls) and \<open>'g\<close> (alerts); the record \<open>scc_env\<close> says what calling them does to
  the collection and to the world \<open>'w\<close> around it, and holds the other arguments: the store, the
  compressor, and what sockets and the service discovery answered. A null dereference or a use after
  free is recorded in \<open>scc_crashed\<close>. Log messages are not modelled.
\<close>

section \<open>State\<close>

datatype ConfigState = Unconfigured | LoadStart | LoadEnd | LoadFail | ChangeStart | ChangeEnd | ChangeFail

primrec config_number :: "ConfigState \<Rightarrow> int" where
  "config_number Unconfigured = 0"
| "config_number LoadStart = 1"
| "config_number LoadEnd = 2"
| "config_number LoadFail = 3"
| "config_number ChangeStart = 4"
| "config_number ChangeEnd = 5"
| "config_number ChangeFail = 6"

datatype State = Active | StateWarning | StateError

primrec state_bit :: "State \<Rightarrow> nat" where
  "state_bit Active = 0"
| "state_bit StateWarning = 1"
| "state_bit StateError = 2"

record ('o, 'f, 'g, 'w) scc =
  SC_vars :: "('o, 'f) element omap"
  m_alert_functions :: "'g omap"
  scc_args :: bool \<comment> \<open>\<open>args\<close> is not null\<close>
  scc_util :: bool \<comment> \<open>\<open>m_util\<close> is not null\<close>
  m_thread :: bool
  m_new_service :: bool
  m_alerts_receive :: bool
  m_alerts_send :: bool
  m_testing :: bool
  m_state :: u32
  scc_pub :: bool
  pub_locked :: bool
  scc_ports :: "string \<rightharpoonup> int" \<comment> \<open>what the service discovery was told to broadcast\<close>
  scc_replies :: "string list"
  scc_alerts :: "string list list"
  scc_crashed :: bool
  scc_world :: 'w

record ('o, 'd, 'f, 'g, 'w) scc_env =
  se_store :: "('o, 'd) store_ops"
  se_run :: "('f, ('o, 'f, 'g, 'w) scc) run"
  se_alert :: "'g \<Rightarrow> string \<Rightarrow> string option \<Rightarrow> ('o, 'f, 'g, 'w) scc \<Rightarrow> bool option \<times> ('o, 'f, 'g, 'w) scc"
  se_clear_state :: 'f
  se_port_ok :: "string \<Rightarrow> bool"
  se_bind_ok :: "string \<Rightarrow> bool"
  se_monitor_ok :: bool
  se_send_ok :: "nat \<Rightarrow> bool"
  se_cctx :: "compress_fun option"
  se_dctx :: "decompress_fun option"

section \<open>The map of elements\<close>

definition Add ::
    "('o, 'd) store_ops \<Rightarrow> string \<Rightarrow> SlowControlElementType \<Rightarrow> 'f option \<Rightarrow> 'f option \<Rightarrow> bool \<Rightarrow> bool
      \<Rightarrow> ('o, 'f, 'g, 'w) scc \<Rightarrow> bool \<times> ('o, 'f, 'g, 'w) scc" where
  "Add so name type change_function read_function testing_lock hidden s =
     (if om_lookup name (SC_vars s) \<noteq> None then (False, s)
      else (True, s\<lparr>SC_vars := om_insert name
              (SlowControlElement_new so name type change_function read_function testing_lock hidden)
              (SC_vars s)\<rparr>))"

definition Remove :: "string \<Rightarrow> ('o, 'f, 'g, 'w) scc \<Rightarrow> bool \<times> ('o, 'f, 'g, 'w) scc" where
  "Remove name s =
     (if om_lookup name (SC_vars s) \<noteq> None then (True, s\<lparr>SC_vars := om_delete name (SC_vars s)\<rparr>)
      else (False, s))"

definition Clear :: "('o, 'f, 'g, 'w) scc \<Rightarrow> ('o, 'f, 'g, 'w) scc" where
  "Clear s = s\<lparr>SC_vars := []\<rparr>"

text \<open>A call on the element under a key: on a null pointer when there is none; when a function it called has
  removed the element meanwhile, its object is gone.\<close>

definition on_element ::
    "string \<Rightarrow> (('o, 'f) element \<Rightarrow> ('o, 'f, 'g, 'w) scc \<Rightarrow> 'a \<times> ('o, 'f) element \<times> ('o, 'f, 'g, 'w) scc) \<Rightarrow> 'a
      \<Rightarrow> ('o, 'f, 'g, 'w) scc \<Rightarrow> 'a \<times> ('o, 'f, 'g, 'w) scc" where
  "on_element key act none s =
     (case om_lookup key (SC_vars s) of
        None \<Rightarrow> (none, s\<lparr>scc_crashed := True\<rparr>)
      | Some el \<Rightarrow>
          let (r, el, s) = act el s in
          if om_lookup key (SC_vars s) = None then (r, s\<lparr>scc_crashed := True\<rparr>)
          else (r, s\<lparr>SC_vars := om_insert key el (SC_vars s)\<rparr>))"

definition set_int ::
    "('o, 'd, 'f, 'g, 'w) scc_env \<Rightarrow> string \<Rightarrow> int \<Rightarrow> ('o, 'f, 'g, 'w) scc \<Rightarrow> ('o, 'f, 'g, 'w) scc" where
  "set_int env key v s = snd (on_element key (SetValue_int (se_store env) (se_run env) v) False s)"

definition set_text ::
    "('o, 'd :: linorder, 'f, 'g, 'w) scc_env \<Rightarrow> string \<Rightarrow> string \<Rightarrow> ('o, 'f, 'g, 'w) scc
      \<Rightarrow> bool \<times> ('o, 'f, 'g, 'w) scc" where
  "set_text env key v s = on_element key (SetValue (se_store env) (se_run env) v) False s"

definition get_text_value ::
    "('o, 'd, 'f, 'g, 'w) scc_env \<Rightarrow> string \<Rightarrow> string \<Rightarrow> ('o, 'f, 'g, 'w) scc
      \<Rightarrow> (bool \<times> string) \<times> ('o, 'f, 'g, 'w) scc" where
  "get_text_value env key v s =
     on_element key (\<lambda>el s. let (ok, v, el, s) = GetValue (se_store env) (se_run env) v el s in ((ok, v), el, s))
       (False, v) s"

definition Print_names :: "('o, 'f, 'g, 'w) scc \<Rightarrow> string" where
  "Print_names s = concat (case map fst (SC_vars s) of [] \<Rightarrow> []
                           | k # ks \<Rightarrow> k # map (\<lambda>j. '', '' @ j) ks)"

text \<open>The elements that are not hidden, in the order of their names.\<close>

fun print_elements ::
    "('o, 'd, 'f, 'g, 'w) scc_env \<Rightarrow> string list \<Rightarrow> bool \<Rightarrow> ('o, 'f, 'g, 'w) scc \<Rightarrow> string \<times> ('o, 'f, 'g, 'w) scc" where
  "print_elements env [] first s = ([], s)"
| "print_elements env (k # ks) first s =
     (case om_lookup k (SC_vars s) of
        None \<Rightarrow> ([], s\<lparr>scc_crashed := True\<rparr>)
      | Some el \<Rightarrow>
          if el_hidden el then print_elements env ks first s
          else let (text, s) = on_element k (Print (se_store env) (se_run env)) [] s;
                   (rest, s) = print_elements env ks False s
               in ((if first then [] else '', '') @ text @ rest, s))"

definition PrintJSON ::
    "('o, 'd, 'f, 'g, 'w) scc_env \<Rightarrow> ('o, 'f, 'g, 'w) scc \<Rightarrow> string \<times> ('o, 'f, 'g, 'w) scc" where
  "PrintJSON env s =
     (let (text, s) = print_elements env (map fst (SC_vars s)) True s in (''['' @ text @ '']'', s))"

section \<open>The state flags\<close>

definition AddPort ::
    "('o, 'd, 'f, 'g, 'w) scc_env \<Rightarrow> string \<Rightarrow> int \<Rightarrow> ('o, 'f, 'g, 'w) scc \<Rightarrow> bool \<times> ('o, 'f, 'g, 'w) scc" where
  "AddPort env name port s =
     (if \<not> scc_util s then (False, s\<lparr>scc_crashed := True\<rparr>)
      else if se_port_ok env name then (True, s\<lparr>scc_ports := (scc_ports s)(name \<mapsto> port)\<rparr>)
      else (False, s))"

definition RemovePort ::
    "('o, 'd, 'f, 'g, 'w) scc_env \<Rightarrow> string \<Rightarrow> ('o, 'f, 'g, 'w) scc \<Rightarrow> ('o, 'f, 'g, 'w) scc" where
  "RemovePort env name s =
     (if se_port_ok env name then s\<lparr>scc_ports := (scc_ports s)(name := None)\<rparr> else s)"

text \<open>A changed state goes to the broadcast and to the slow control \<open>State\<close>.\<close>

definition publish_state ::
    "('o, 'd, 'f, 'g, 'w) scc_env \<Rightarrow> ('o, 'f, 'g, 'w) scc \<Rightarrow> ('o, 'f, 'g, 'w) scc" where
  "publish_state env s =
     (let s = snd (AddPort env ''State'' (sint (m_state s)) s) in set_int env ''State'' (sint (m_state s)) s)"

definition SetFlag ::
    "('o, 'd, 'f, 'g, 'w) scc_env \<Rightarrow> State \<Rightarrow> bool \<Rightarrow> ('o, 'f, 'g, 'w) scc \<Rightarrow> ('o, 'f, 'g, 'w) scc" where
  "SetFlag env flag on s =
     (let mask = push_bit (state_bit flag) 1 in
      publish_state env (s\<lparr>m_state := (if on then or (m_state s) mask else and (m_state s) (not mask))\<rparr>))"

definition SetActive ::
    "('o, 'd, 'f, 'g, 'w) scc_env \<Rightarrow> bool \<Rightarrow> ('o, 'f, 'g, 'w) scc \<Rightarrow> ('o, 'f, 'g, 'w) scc" where
  "SetActive env active s = SetFlag env Active active s"

definition SetError ::
    "('o, 'd, 'f, 'g, 'w) scc_env \<Rightarrow> bool \<Rightarrow> ('o, 'f, 'g, 'w) scc \<Rightarrow> ('o, 'f, 'g, 'w) scc" where
  "SetError env error s = SetFlag env StateError error s"

definition SetWarning ::
    "('o, 'd, 'f, 'g, 'w) scc_env \<Rightarrow> bool \<Rightarrow> ('o, 'f, 'g, 'w) scc \<Rightarrow> ('o, 'f, 'g, 'w) scc" where
  "SetWarning env warn s = SetFlag env StateWarning warn s"

definition ClearState ::
    "('o, 'd, 'f, 'g, 'w) scc_env \<Rightarrow> ('o, 'f, 'g, 'w) scc \<Rightarrow> ('o, 'f, 'g, 'w) scc" where
  "ClearState env s =
     (let mask = or (push_bit (state_bit StateWarning) 1) (push_bit (state_bit StateError) 1)
      in publish_state env (s\<lparr>m_state := and (m_state s) (not mask)\<rparr>))"

definition SetTesting :: "bool \<Rightarrow> ('o, 'f, 'g, 'w) scc \<Rightarrow> ('o, 'f, 'g, 'w) scc" where
  "SetTesting testing s = s\<lparr>m_testing := testing\<rparr>"

definition TestingEnable :: "('o, 'f, 'g, 'w) scc \<Rightarrow> ('o, 'f, 'g, 'w) scc" where
  "TestingEnable s = s\<lparr>m_testing := True\<rparr>"

definition TestingDisable :: "('o, 'f, 'g, 'w) scc \<Rightarrow> ('o, 'f, 'g, 'w) scc" where
  "TestingDisable s = s\<lparr>m_testing := False\<rparr>"

section \<open>Requests\<close>

text \<open>\<open>Update\<close>: whether it succeeded, the reply, and whether the reply is JSON.\<close>

definition Update ::
    "('o, 'd :: linorder, 'f, 'g, 'w) scc_env \<Rightarrow> string \<Rightarrow> string \<Rightarrow> ('o, 'f, 'g, 'w) scc
      \<Rightarrow> bool \<times> string \<times> bool \<times> ('o, 'f, 'g, 'w) scc" where
  "Update env key value s =
     (if key = ''?'' then
        if value = ''JSON'' then let (reply, s) = PrintJSON env s in (True, reply, True, s)
        else (True, Print_names s, False, s)
      else case om_lookup key (SC_vars s) of
        None \<Rightarrow> (False, ''error: '' @ key, False, s)
      | Some el \<Rightarrow>
          if el_type el = INFO then
            let ((ok, text), s) = get_text_value env key value s in
            if \<not> ok then (False, ''Error getting value from key: '' @ key, False, s)
            else (True, text, False, s)
          else
            let value = (if el_type el = BUTTON then ''1'' else value) in
            if value \<noteq> [] then
              if \<not> m_testing s \<or> (m_testing s \<and> \<not> el_lockable el) then
                let (ok, s) = set_text env key value s in
                if \<not> ok then (False, '' Error setting '' @ key @ '' to value: '' @ value, False, s)
                else (True, value, False, s)
              else (True, key @ '' locked'', False, s)
            else
              let ((ok, reply), s) = get_text_value env key key s in
              if \<not> ok then (False, ''Error getting value from key: '' @ key, False, s)
              else (True, reply, False, s))"

section \<open>Starting and stopping\<close>

text \<open>The constructor; the two alert flags are not initialised, so they are arguments.\<close>

definition SlowControlCollection_new ::
    "('o, 'd, 'f, 'g, 'w) scc_env \<Rightarrow> bool \<Rightarrow> bool \<Rightarrow> 'w \<Rightarrow> ('o, 'f, 'g, 'w) scc" where
  "SlowControlCollection_new env alerts_receive alerts_send w =
     (let s = \<lparr>SC_vars = [], m_alert_functions = [], scc_args = False, scc_util = False,
               m_thread = False, m_new_service = False, m_alerts_receive = alerts_receive,
               m_alerts_send = alerts_send, m_testing = False, m_state = 0, scc_pub = False,
               pub_locked = False, scc_ports = Map.empty, scc_replies = [], scc_alerts = [],
               scc_crashed = False, scc_world = w\<rparr>;
          s = snd (Add (se_store env) ''Config'' INFO None None False False s);
          s = set_int env ''Config'' 0 s;
          s = snd (Add (se_store env) ''NewConfig'' INFO None None False False s)
      in set_int env ''NewConfig'' 0 s)"

definition Stop ::
    "('o, 'd, 'f, 'g, 'w) scc_env \<Rightarrow> ('o, 'f, 'g, 'w) scc \<Rightarrow> ('o, 'f, 'g, 'w) scc" where
  "Stop env s =
     (if \<not> scc_args s then s
      else let s = s\<lparr>m_thread := False, scc_args := False, scc_pub := False\<rparr>;
               s = (if m_new_service s then RemovePort env ''sc'' s else s);
               s = (if m_alerts_receive s then RemovePort env ''alertr'' s else s);
               s = (if m_alerts_send s then RemovePort env ''alerts'' s else s)
      in Clear (s\<lparr>m_new_service := False, m_alerts_receive := False, m_alerts_send := False,
                  scc_util := False\<rparr>))"

text \<open>The three sockets of \<open>Init\<close>. \<open>None\<close> as a result is an exception of \<open>bind\<close>; \<open>Some False\<close> a failed
  registration, after which the error flag is set.\<close>

definition fail_init ::
    "('o, 'd, 'f, 'g, 'w) scc_env \<Rightarrow> ('o, 'f, 'g, 'w) scc \<Rightarrow> bool option \<times> ('o, 'f, 'g, 'w) scc" where
  "fail_init env s = (Some False, SetError env True (s\<lparr>scc_args := False\<rparr>))"

definition init_alert_sender ::
    "('o, 'd, 'f, 'g, 'w) scc_env \<Rightarrow> int \<Rightarrow> ('o, 'f, 'g, 'w) scc \<Rightarrow> bool option \<times> ('o, 'f, 'g, 'w) scc" where
  "init_alert_sender env alert_send_port s =
     (if \<not> m_alerts_send s then (Some True, s)
      else let s = s\<lparr>scc_pub := True\<rparr> in
      if \<not> se_bind_ok env ''alerts'' then (None, s)
      else let (ok, s) = AddPort env ''alerts'' alert_send_port s in
      if \<not> ok then fail_init env (s\<lparr>scc_pub := False, m_alerts_send := False\<rparr>)
      else if m_thread s then
        let s = (if se_monitor_ok env then s else SetError env True s) in (Some True, s\<lparr>pub_locked := True\<rparr>)
      else (Some True, s))"

definition init_alert_receiver ::
    "('o, 'd, 'f, 'g, 'w) scc_env \<Rightarrow> int \<Rightarrow> ('o, 'f, 'g, 'w) scc \<Rightarrow> bool option \<times> ('o, 'f, 'g, 'w) scc" where
  "init_alert_receiver env alert_receive_port s =
     (if \<not> m_alerts_receive s then (Some True, s)
      else if \<not> se_bind_ok env ''alertr'' then (None, s)
      else let (ok, s) = AddPort env ''alertr'' alert_receive_port s in
      if \<not> ok then fail_init env (s\<lparr>m_alerts_receive := False\<rparr>) else (Some True, s))"

definition init_controls ::
    "('o, 'd :: linorder, 'f, 'g, 'w) scc_env \<Rightarrow> ('o, 'f, 'g, 'w) scc \<Rightarrow> ('o, 'f, 'g, 'w) scc" where
  "init_controls env s =
     (let so = se_store env;
          s = snd (Add so ''Status'' INFO None None False False s);
          s = snd (Add so ''?'' BUTTON None None False True s);
          s = snd (set_text env ''Status'' ''N/A'' s);
          s = snd (Add so ''Config'' INFO None None False False s);
          s = set_int env ''Config'' (config_number Unconfigured) s;
          s = snd (Add so ''State'' INFO None None False False s);
          s = set_int env ''State'' 0 s;
          s = snd (Add so ''ClearState'' BUTTON (Some (se_clear_state env)) None False False s)
      in snd (AddPort env ''State'' 0 s))"

definition Init ::
    "('o, 'd :: linorder, 'f, 'g, 'w) scc_env \<Rightarrow> int \<Rightarrow> bool \<Rightarrow> int \<Rightarrow> bool \<Rightarrow> int \<Rightarrow> bool
      \<Rightarrow> ('o, 'f, 'g, 'w) scc \<Rightarrow> bool option \<times> ('o, 'f, 'g, 'w) scc" where
  "Init env sc_port new_service alert_receive_port alerts_receive alert_send_port alerts_send s =
     (if scc_args s then (Some False, s)
      else let s = s\<lparr>scc_util := True, m_new_service := new_service, m_alerts_receive := alerts_receive,
                     m_alerts_send := alerts_send, scc_args := True\<rparr>
      in case init_alert_sender env alert_send_port s of
        (Some True, s) \<Rightarrow>
          (case init_alert_receiver env alert_receive_port s of
             (Some True, s) \<Rightarrow>
               if \<not> se_bind_ok env ''sc'' then (None, s)
               else let (ok, s) = (if new_service then AddPort env ''sc'' sc_port s else (True, s)) in
               if \<not> ok then fail_init env s else (Some True, init_controls env s)
           | failed \<Rightarrow> failed)
      | failed \<Rightarrow> failed)"

text \<open>The result of \<open>Init\<close> is not looked at: after a failed one \<open>args\<close> is null.\<close>

definition InitThreadedReceiver ::
    "('o, 'd :: linorder, 'f, 'g, 'w) scc_env \<Rightarrow> int \<Rightarrow> bool \<Rightarrow> int \<Rightarrow> bool \<Rightarrow> int \<Rightarrow> bool
      \<Rightarrow> ('o, 'f, 'g, 'w) scc \<Rightarrow> bool option \<times> ('o, 'f, 'g, 'w) scc" where
  "InitThreadedReceiver env port new_service alert_receive_port alert_receive alert_send_port alert_send s =
     (if scc_args s then (Some False, s)
      else case Init env port new_service alert_receive_port alert_receive alert_send_port alert_send
                  (s\<lparr>m_thread := True\<rparr>) of
        (None, s) \<Rightarrow> (None, s)
      | (Some ok, s) \<Rightarrow> (Some True, if scc_args s then s else s\<lparr>scc_crashed := True\<rparr>))"

section \<open>Alerts\<close>

definition AlertSubscribe :: "string \<Rightarrow> 'g option \<Rightarrow> ('o, 'f, 'g, 'w) scc \<Rightarrow> bool \<times> ('o, 'f, 'g, 'w) scc" where
  "AlertSubscribe alert function s =
     (case function of
        None \<Rightarrow> (False, s)
      | Some g \<Rightarrow>
          if \<not> m_alerts_receive s then (False, s)
          else (True, s\<lparr>m_alert_functions := om_insert alert g (m_alert_functions s)\<rparr>))"

text \<open>An alert is the name with its terminating zero and, when there is a payload, the payload as a second,
  possibly compressed part.\<close>

definition AlertSend ::
    "('o, 'd, 'f, 'g, 'w) scc_env \<Rightarrow> string \<Rightarrow> string \<Rightarrow> ('o, 'f, 'g, 'w) scc \<Rightarrow> bool \<times> ('o, 'f, 'g, 'w) scc" where
  "AlertSend env alert payload s =
     (if \<not> m_alerts_send s then (False, s)
      else if \<not> scc_pub s then (False, s\<lparr>scc_crashed := True\<rparr>)
      else let message = alert @ [NUL] in
      if payload = [] then
        (if se_send_ok env 0 then (True, s\<lparr>scc_alerts := scc_alerts s @ [[message]]\<rparr>) else (False, s))
      else if \<not> se_send_ok env 0 then (False, s)
      else case ZstdCompress (se_cctx env) payload DEFAULT_COMPRESS_THRESHOLD DEFAULT_COMPRESSION_LEVEL of
        Ok (output, warning) \<Rightarrow>
          if se_send_ok env 1 then (True, s\<lparr>scc_alerts := scc_alerts s @ [[message, output]]\<rparr>) else (False, s)
      | _ \<Rightarrow> (False, s\<lparr>scc_crashed := True\<rparr>))"

text \<open>Calling a subscribed function; an exception counts as an error.\<close>

definition call_alert ::
    "('o, 'd, 'f, 'g, 'w) scc_env \<Rightarrow> 'g \<Rightarrow> string \<Rightarrow> string option \<Rightarrow> ('o, 'f, 'g, 'w) scc
      \<Rightarrow> bool \<times> ('o, 'f, 'g, 'w) scc" where
  "call_alert env g name payload s =
     (case se_alert env g name payload s of (Some ok, s) \<Rightarrow> (\<not> ok, s) | (None, s) \<Rightarrow> (True, s))"

definition get_int_value ::
    "('o, 'd, 'f, 'g, 'w) scc_env \<Rightarrow> string \<Rightarrow> ('o, 'f, 'g, 'w) scc \<Rightarrow> int option \<times> ('o, 'f, 'g, 'w) scc" where
  "get_int_value env key s = on_element key (GetValue_int (se_store env) (se_run env)) None s"

text \<open>The function subscribed to this alert, with the bookkeeping of the configuration state around it.\<close>

definition dispatch_named ::
    "('o, 'd, 'f, 'g, 'w) scc_env \<Rightarrow> string \<Rightarrow> string option \<Rightarrow> ('o, 'f, 'g, 'w) scc
      \<Rightarrow> bool \<times> ('o, 'f, 'g, 'w) scc" where
  "dispatch_named env name payload s =
     (case om_lookup name (m_alert_functions s) of
        None \<Rightarrow> (False, s)
      | Some g \<Rightarrow>
          let (error, s) = call_alert env g name payload s;
              s = (case payload of
                     Some data \<Rightarrow>
                       if name = ''LoadConfig'' then
                         set_int env ''Config'' (config_number (if error then LoadFail else LoadEnd)) s
                       else s
                   | None \<Rightarrow>
                       if name = ''ChangeConfig'' then
                         set_int env ''NewConfig'' 0
                           (set_int env ''Config'' (config_number (if error then ChangeFail else ChangeEnd)) s)
                       else s)
          in (error, if error then SetError env True s else s))"

definition dispatch_any ::
    "('o, 'd, 'f, 'g, 'w) scc_env \<Rightarrow> string \<Rightarrow> string option \<Rightarrow> ('o, 'f, 'g, 'w) scc \<Rightarrow> ('o, 'f, 'g, 'w) scc" where
  "dispatch_any env name payload s =
     (case om_lookup ''*'' (m_alert_functions s) of
        None \<Rightarrow> s
      | Some g \<Rightarrow>
          let (error, s) = call_alert env g name payload s in if error then SetError env True s else s)"

definition handle_alert ::
    "('o, 'd, 'f, 'g, 'w) scc_env \<Rightarrow> string \<Rightarrow> string option \<Rightarrow> ('o, 'f, 'g, 'w) scc \<Rightarrow> ('o, 'f, 'g, 'w) scc" where
  "handle_alert env name payload s =
     (let run = (\<lambda>s. dispatch_any env name payload (snd (dispatch_named env name payload s))) in
      if name = ''LoadConfig'' then run (set_int env ''Config'' (config_number LoadStart) s)
      else if name = ''ChangeConfig'' then
        let (new_config, s) = get_int_value env ''NewConfig'' s in
        if new_config = Some 0 then s
        else run (set_int env ''Config'' (config_number ChangeStart) s)
      else run s)"

text \<open>The parts received; \<open>None\<close> in place of a part: \<open>recv\<close> failed. Parts after the second are dropped.\<close>

definition receive_alert ::
    "('o, 'd, 'f, 'g, 'w) scc_env \<Rightarrow> string option list \<Rightarrow> ('o, 'f, 'g, 'w) scc \<Rightarrow> ('o, 'f, 'g, 'w) scc" where
  "receive_alert env parts s =
     (case parts of
        [] \<Rightarrow> s
      | None # _ \<Rightarrow> SetError env True s
      | Some first # later \<Rightarrow>
          (case c_string first of
             None \<Rightarrow> s\<lparr>scc_crashed := True\<rparr>
           | Some name \<Rightarrow>
               (case later of
                  [] \<Rightarrow> handle_alert env name None s
                | None # _ \<Rightarrow> SetError env True s
                | Some data # _ \<Rightarrow>
                    (case ZstdDecompress (se_dctx env) data DEFAULT_MAX_DECOMPRESSED_SIZE of
                       Ok (True, payload) \<Rightarrow> handle_alert env name (c_string (payload @ [NUL])) s
                     | Ok (False, _) \<Rightarrow> s
                     | _ \<Rightarrow> s\<lparr>scc_crashed := True\<rparr>))))"

section \<open>One turn of the receiver thread\<close>

text \<open>A request: malformed, or the sender's identity and the message.\<close>

datatype request = Malformed | Request string

definition MAX_DECOMPRESSED_SIZE :: nat where "MAX_DECOMPRESSED_SIZE = 104857600"

definition reply_text :: "('o, 'd) store_ops \<Rightarrow> string \<Rightarrow> bool \<Rightarrow> string" where
  "reply_text so reply strip =
     (let rr = so_set_text so ''msg_value'' reply (so_set_text so ''msg_type'' ''Command Reply'' (so_empty so))
      in so_write so (if strip then so_destring so ''msg_value'' rr else rr))"

text \<open>Whether the turn goes on to the alerts, and the state.\<close>

definition handle_request ::
    "('o, 'd :: linorder, 'f, 'g, 'w) scc_env \<Rightarrow> request \<Rightarrow> ('o, 'f, 'g, 'w) scc
      \<Rightarrow> bool \<times> ('o, 'f, 'g, 'w) scc" where
  "handle_request env input s =
     (case input of
        Malformed \<Rightarrow> (False, s)
      | Request message \<Rightarrow>
          (case ZstdDecompress (se_dctx env) message MAX_DECOMPRESSED_SIZE of
             Ok (True, payload) \<Rightarrow>
               let so = se_store env; tmp = so_parse so payload in
               if \<not> so_has so ''msg_value'' tmp then (False, s)
               else
                 let key = so_text_default so ''msg_value'' tmp;
                     value = (case so_get_text so ''var1'' tmp of Some v \<Rightarrow> v | None \<Rightarrow> []);
                     (ok, reply, strip, s) = Update env key value s;
                     s = (if ok then s else SetWarning env True s)
                 in (case ZstdCompress (se_cctx env) (reply_text so reply strip)
                            DEFAULT_COMPRESS_THRESHOLD DEFAULT_COMPRESSION_LEVEL of
                       Ok (output, warning) \<Rightarrow>
                         if se_send_ok env 0 \<and> se_send_ok env 1 \<and> se_send_ok env 2
                         then (True, s\<lparr>scc_replies := scc_replies s @ [output]\<rparr>) else (False, s)
                     | _ \<Rightarrow> (False, s\<lparr>scc_crashed := True\<rparr>))
           | Ok (False, _) \<Rightarrow> (False, s)
           | _ \<Rightarrow> (False, s\<lparr>scc_crashed := True\<rparr>)))"

definition Thread ::
    "('o, 'd :: linorder, 'f, 'g, 'w) scc_env \<Rightarrow> request option \<Rightarrow> string option list \<Rightarrow> ('o, 'f, 'g, 'w) scc
      \<Rightarrow> ('o, 'f, 'g, 'w) scc" where
  "Thread env input alert s =
     (let (go_on, s) = (case input of None \<Rightarrow> (True, s) | Some r \<Rightarrow> handle_request env r s)
      in if go_on \<and> m_alerts_receive s then receive_alert env alert s else s)"

text \<open>One turn called directly, without a thread.\<close>

definition ListenForData ::
    "('o, 'd :: linorder, 'f, 'g, 'w) scc_env \<Rightarrow> request option \<Rightarrow> string option list \<Rightarrow> ('o, 'f, 'g, 'w) scc
      \<Rightarrow> bool \<times> ('o, 'f, 'g, 'w) scc" where
  "ListenForData env input alert s =
     (if \<not> scc_args s then (True, s\<lparr>scc_crashed := True\<rparr>) else (True, Thread env input alert s))"

section \<open>Controls from a JSON description\<close>

text \<open>The objects of an array: from the last opening brace (or the start) to each closing one.\<close>

fun array_objects :: "string \<Rightarrow> string \<Rightarrow> string list" where
  "array_objects cur [] = []"
| "array_objects cur (c # cs) =
     (let cur = (if c = CHR ''{'' then [c] else cur @ [c]) in
      if c = CHR ''}'' then cur # array_objects cur cs else array_objects cur cs)"

text \<open>The top-level objects of an array, by counting braces.\<close>

fun array_elements :: "string \<Rightarrow> int \<Rightarrow> string \<Rightarrow> string list" where
  "array_elements cur bracket_counter [] = []"
| "array_elements cur bracket_counter (c # cs) =
     (let cur = (if c = CHR ''{'' \<and> bracket_counter = 0 then [c] else cur @ [c]) in
      if c = CHR ''{'' then array_elements cur (bracket_counter + 1) cs
      else if c = CHR ''}'' \<and> bracket_counter = 1 then cur # array_elements cur 0 cs
      else if c = CHR ''}'' then array_elements cur (bracket_counter - 1) cs
      else array_elements cur bracket_counter cs)"

definition scope :: "string \<Rightarrow> string" where
  "scope header = (if header \<noteq> [] then header @ ''::'' else header)"

text \<open>The recursive calls an item makes, each a text and its header.\<close>

definition nested :: "string \<Rightarrow> string \<Rightarrow> string \<Rightarrow> (string \<times> string) list" where
  "nested header key text =
     (if key = ''SCObject'' \<or> key = ''SCArray'' \<or> text = [] then []
      else if hd text = CHR ''{'' then [(text, header @ key)]
      else if hd text = CHR ''['' then
        map (\<lambda>(i, part). (part, header @ key @ ''::'' @ nat_str i))
          (enumerate 0 (array_elements [hd text] 0 (tl text)))
      else [])"

text \<open>The entries an item makes itself.\<close>

definition own_entries :: "('o, 'd) store_ops \<Rightarrow> string \<Rightarrow> string \<Rightarrow> string \<Rightarrow> (string \<times> string) list" where
  "own_entries so header key text =
     (let entry = (\<lambda>t. (header @ so_text_default so ''name'' (so_parse so t), t)) in
      if key = ''SCObject'' then [entry text]
      else if key = ''SCArray'' then map entry (array_objects (take 1 text) (drop 1 text))
      else [])"

definition put_entries :: "(string \<times> string) list \<Rightarrow> string omap \<Rightarrow> string omap" where
  "put_entries es out = fold (\<lambda>(k, v). om_insert k v) es out"

text \<open>The depth of the recursion is bounded by \<open>fuel\<close>; \<open>None\<close> when it is used up.\<close>

primrec Unpack ::
    "nat \<Rightarrow> ('o, 'd) store_ops \<Rightarrow> string \<Rightarrow> string \<Rightarrow> string omap \<Rightarrow> string omap option" where
  "Unpack 0 so text header out = None"
| "Unpack (Suc fuel) so text header out =
     fold (\<lambda>(key, value) acc.
         fold (\<lambda>(t, h) acc. Option.bind acc (Unpack fuel so t h)) (nested (scope header) key value)
           (map_option (put_entries (own_entries so (scope header) key value)) acc))
       (so_items so (so_parse so text)) (Some out)"

definition JsonParser_all ::
    "('o, 'd :: linorder, 'f, 'g, 'w) scc_env \<Rightarrow> nat \<Rightarrow> string \<Rightarrow> ('o, 'f, 'g, 'w) scc
      \<Rightarrow> ('o, 'f, 'g, 'w) scc option" where
  "JsonParser_all env fuel json s =
     map_option (\<lambda>out. fold (\<lambda>(name, text) s.
         snd (on_element name (JsonParser (se_store env) (se_run env) text) False
           (snd (Add (se_store env) name VARIABLE None None True False s)))) out s)
       (Unpack fuel (se_store env) json [] [])"

end
