(* ===== verification/SlowControlProofs.thy ===== *)
theory SlowControlProofs
  imports SlowControlCollection
begin

text \<open>
  What the slow control collection guarantees: its map is well formed after every operation, the three
  views of the state flags agree, locked controls are left alone, the configuration state follows
  the alerts, an alert survives the way over the wire, starting makes the standard controls, and
  the recursion over nested descriptions ends.
\<close>

section \<open>Invariants of a collection\<close>

text \<open>What the change of a value leaves alone in an element.\<close>

definition same_kind :: "('o, 'f) element \<Rightarrow> ('o, 'f) element \<Rightarrow> bool" where
  "same_kind a b \<longleftrightarrow> el_name a = el_name b \<and> el_type a = el_type b \<and> el_change a = el_change b
     \<and> el_read a = el_read b \<and> el_lockable a = el_lockable b \<and> el_hidden a = el_hidden b"

lemma same_kind_options [simp]: "same_kind (el\<lparr>el_options := o1\<rparr>) el" "same_kind el el"
  by (simp_all add: same_kind_def)

text \<open>The functions the user registered keep a property of the collection.\<close>

definition callbacks_keep :: "('o, 'd, 'f, 'g, 'w) scc_env \<Rightarrow> (('o, 'f, 'g, 'w) scc \<Rightarrow> bool) \<Rightarrow> bool" where
  "callbacks_keep env P \<longleftrightarrow> (\<forall>f t s. P s \<longrightarrow> P (snd (se_run env f t s)))
     \<and> (\<forall>g n p s. P s \<longrightarrow> P (snd (se_alert env g n p s)))"

lemma callbacks_keepD:
  assumes "callbacks_keep env P" and "P s"
  shows "P (snd (se_run env f t s))" "P (snd (se_alert env g n p s))"
  using assms by (simp_all add: callbacks_keep_def)

text \<open>A property of the map of elements that survives the change of a value and the functions of the user
  survives everything a running collection does.\<close>

locale scc_invariant =
  fixes env :: "('o, 'd :: linorder, 'f, 'g, 'w) scc_env"
    and P :: "('o, 'f, 'g, 'w) scc \<Rightarrow> bool"
  assumes of_map: "SC_vars s = SC_vars s' \<Longrightarrow> P s = P s'"
    and of_element: "\<lbrakk>P s; P s'; om_lookup k (SC_vars s) = Some el; om_lookup k (SC_vars s') \<noteq> None; same_kind el' el\<rbrakk>
      \<Longrightarrow> P (s'\<lparr>SC_vars := om_insert k el' (SC_vars s')\<rparr>)"
    and of_run: "P s \<Longrightarrow> P (snd (se_run env f t s))"
    and of_alert: "P s \<Longrightarrow> P (snd (se_alert env g n p s))"
begin

lemma fields:
  "P (s\<lparr>m_alert_functions := a\<rparr>) = P s" "P (s\<lparr>scc_args := b\<rparr>) = P s" "P (s\<lparr>scc_util := b\<rparr>) = P s"
  "P (s\<lparr>m_thread := b\<rparr>) = P s" "P (s\<lparr>m_new_service := b\<rparr>) = P s" "P (s\<lparr>m_alerts_receive := b\<rparr>) = P s"
  "P (s\<lparr>m_alerts_send := b\<rparr>) = P s" "P (s\<lparr>m_testing := b\<rparr>) = P s" "P (s\<lparr>m_state := w\<rparr>) = P s"
  "P (s\<lparr>scc_pub := b\<rparr>) = P s" "P (s\<lparr>pub_locked := b\<rparr>) = P s" "P (s\<lparr>scc_ports := ps\<rparr>) = P s"
  "P (s\<lparr>scc_replies := rs\<rparr>) = P s" "P (s\<lparr>scc_alerts := as\<rparr>) = P s" "P (s\<lparr>scc_crashed := b\<rparr>) = P s"
  by (rule of_map, simp)+

text \<open>An action on an element that keeps its kind, and whose functions keep the property.\<close>

definition keeps :: "(('o, 'f) element \<Rightarrow> ('o, 'f, 'g, 'w) scc \<Rightarrow> 'a \<times> ('o, 'f) element \<times> ('o, 'f, 'g, 'w) scc) \<Rightarrow> bool" where
  "keeps act \<longleftrightarrow> (\<forall>el s. P s \<longrightarrow> same_kind (fst (snd (act el s))) el \<and> P (snd (snd (act el s))))"

lemma on_element:
  assumes "keeps act" and "P s"
  shows "P (snd (on_element key act none s))"
proof (cases "om_lookup key (SC_vars s)")
  case None
  then show ?thesis using assms(2) by (simp add: on_element_def fields)
next
  case (Some el)
  obtain r el' s' where a: "act el s = (r, el', s')" by (cases "act el s")
  then have "same_kind el' el" "P s'"
    using assms unfolding keeps_def by (metis fst_conv snd_conv)+
  then show ?thesis
    using Some a of_element [OF assms(2) _ Some] by (simp add: on_element_def Let_def fields)
qed

lemma run_change: "P s \<Longrightarrow> P (snd (run_change (se_run env) f t s))"
  using of_run by (simp add: run_change_def split_beta split: option.split)

lemma SetValue_num: "keeps (SetValue_num so (se_run env) v)"
  using run_change by (auto simp: keeps_def SetValue_num_def split_beta Let_def)

lemma SetValue_int: "keeps (SetValue_int so (se_run env) v)"
  using run_change by (auto simp: keeps_def SetValue_int_def split_beta Let_def)

lemma SetValue: "keeps (SetValue so (se_run env) v)"
  using SetValue_num [of so "so_read_num so v"] run_change
  by (auto simp: keeps_def SetValue_def split_beta Let_def)

lemma refresh:
  assumes "P s"
  shows "P (snd (refresh so (se_run env) el s))"
    and "fst (refresh so (se_run env) el s) = Some el' \<Longrightarrow> same_kind el' el"
  using assms of_run by (auto simp: refresh_def split_beta split: option.splits)

lemma refresh_cases:
  assumes "P s"
  obtains (fails) s' where "refresh so (se_run env) el s = (None, s')" "P s'"
    | (reads) el' s' where "refresh so (se_run env) el s = (Some el', s')" "same_kind el' el" "P s'"
  using refresh [OF assms, of so el] by (cases "refresh so (se_run env) el s") (cases "fst (refresh so (se_run env) el s)"; force)

lemma GetValue: "keeps (\<lambda>el s. let (ok, v, el, s) = GetValue so (se_run env) v el s in ((ok, v), el, s))"
  unfolding keeps_def
proof (intro allI impI)
  fix el s assume "P s"
  then show "same_kind (fst (snd (let (ok, v, el, s) = GetValue so (se_run env) v el s in ((ok, v), el, s)))) el
      \<and> P (snd (snd (let (ok, v, el, s) = GetValue so (se_run env) v el s in ((ok, v), el, s))))"
    by (cases rule: refresh_cases [of s so el]) (simp_all add: GetValue_def Let_def)
qed

lemma GetValue_int: "keeps (GetValue_int so (se_run env))"
  unfolding keeps_def
proof (intro allI impI)
  fix el s assume "P s"
  then show "same_kind (fst (snd (GetValue_int so (se_run env) el s))) el \<and> P (snd (snd (GetValue_int so (se_run env) el s)))"
    by (cases rule: refresh_cases [of s so el]) (simp_all add: GetValue_int_def)
qed

lemma Print: "keeps (Print so (se_run env))"
  unfolding keeps_def
proof (intro allI impI)
  fix el s assume "P s"
  then show "same_kind (fst (snd (Print so (se_run env) el s))) el \<and> P (snd (snd (Print so (se_run env) el s)))"
    by (cases rule: refresh_cases [of s so el]) (simp_all add: Print_def Let_def)
qed

lemma set_int: "P s \<Longrightarrow> P (set_int env k v s)"
  by (simp add: set_int_def on_element SetValue_int)

lemma set_text: "P s \<Longrightarrow> P (snd (set_text env k v s))"
  by (simp add: set_text_def on_element SetValue)

lemma get_text_value: "P s \<Longrightarrow> P (snd (get_text_value env k v s))"
  unfolding get_text_value_def by (rule on_element [OF GetValue])

lemma get_int_value: "P s \<Longrightarrow> P (snd (get_int_value env k s))"
  by (simp add: get_int_value_def on_element GetValue_int)

lemma print_elements: "P s \<Longrightarrow> P (snd (print_elements env ks first s))"
proof (induction ks arbitrary: first s)
  case (Cons k ks)
  have "P (snd (on_element k (Print (se_store env) (se_run env)) [] s))"
    using Cons.prems by (simp add: on_element Print)
  then show ?case using Cons by (auto simp: fields split_beta split: option.split)
qed simp

lemma AddPort: "P s \<Longrightarrow> P (snd (AddPort env name port s))"
  by (simp add: AddPort_def fields)

lemma RemovePort: "P s \<Longrightarrow> P (RemovePort env name s)"
  by (simp add: RemovePort_def fields)

lemma publish_state: "P s \<Longrightarrow> P (publish_state env s)"
  by (simp add: publish_state_def Let_def set_int AddPort)

lemma SetFlag: "P s \<Longrightarrow> P (SetFlag env flag on s)"
  by (simp add: SetFlag_def Let_def publish_state fields)

lemma ClearState: "P s \<Longrightarrow> P (ClearState env s)"
  by (simp add: ClearState_def Let_def publish_state fields)

lemma flags: "P s \<Longrightarrow> P (SetActive env b s)" "P s \<Longrightarrow> P (SetError env b s)" "P s \<Longrightarrow> P (SetWarning env b s)"
  by (simp_all add: SetActive_def SetError_def SetWarning_def SetFlag)

lemma SetTesting: "P s \<Longrightarrow> P (SetTesting b s)"
  by (simp add: SetTesting_def fields)

lemma AlertSubscribe: "P s \<Longrightarrow> P (snd (AlertSubscribe name g s))"
  by (simp add: AlertSubscribe_def fields split: option.split)

lemmas value_ops = set_int set_text get_text_value get_int_value flags ClearState fields

lemma AlertSend: "P s \<Longrightarrow> P (snd (AlertSend env name payload s))"
  by (auto simp: AlertSend_def Let_def fields split: cres.split)

lemma Update: "P s \<Longrightarrow> P (snd (snd (snd (Update env key value s))))"
  by (simp add: Update_def PrintJSON_def split_beta Let_def set_text get_text_value print_elements split: option.split)

lemma call_alert: "P s \<Longrightarrow> P (snd (call_alert env g n p s))"
  using of_alert [of s g n p] by (auto simp: call_alert_def split: prod.split option.split)

lemma dispatch: "P s \<Longrightarrow> P (snd (dispatch_named env n p s))" "P s \<Longrightarrow> P (dispatch_any env n p s)"
  by (auto simp: dispatch_named_def dispatch_any_def split_beta Let_def value_ops call_alert
      split: option.split)

lemma handle_alert: "P s \<Longrightarrow> P (handle_alert env n p s)"
  by (simp add: handle_alert_def split_beta Let_def value_ops dispatch)

lemma receive_alert: "P s \<Longrightarrow> P (receive_alert env parts s)"
  by (auto simp: receive_alert_def handle_alert value_ops split: list.split option.split cres.split bool.split)

lemma handle_request: "P s \<Longrightarrow> P (snd (handle_request env input s))"
  by (auto simp: handle_request_def Let_def split_beta Update value_ops
      split: request.split cres.split bool.split)

lemma Thread: "P s \<Longrightarrow> P (Thread env input alert s)"
  by (auto simp: Thread_def Let_def split_beta handle_request receive_alert split: option.split)

end

text \<open>A property that also survives new and removed elements survives start and stop.\<close>

locale scc_map_invariant = scc_invariant +
  assumes Add: "P s \<Longrightarrow> P (snd (Add (se_store env) name type c r l h s))"
    and Remove: "P s \<Longrightarrow> P (snd (Remove name s))"
    and empty: "SC_vars s = [] \<Longrightarrow> P s"
begin

lemma Clear: "P (Clear s)"
  by (rule empty) (simp add: Clear_def)

lemma new: "P (SlowControlCollection_new env r sd w)"
  unfolding SlowControlCollection_new_def Let_def by (intro set_int Add empty) simp_all

lemma fail_init: "P s \<Longrightarrow> P (snd (fail_init env s))"
  by (simp add: fail_init_def flags fields)

lemma init_alert_sender: "P s \<Longrightarrow> P (snd (init_alert_sender env port s))"
  by (auto simp: init_alert_sender_def Let_def split_beta AddPort fail_init flags fields)

lemma init_alert_receiver: "P s \<Longrightarrow> P (snd (init_alert_receiver env port s))"
  by (auto simp: init_alert_receiver_def Let_def split_beta AddPort fail_init fields)

lemma init_controls: "P s \<Longrightarrow> P (init_controls env s)"
  by (simp add: init_controls_def Let_def set_int set_text AddPort Add)

lemma Init:
  assumes "P s"
  shows "P (snd (Init env p n rp r sp sd s))"
proof -
  let ?s = "s\<lparr>scc_util := True, m_new_service := n, m_alerts_receive := r, m_alerts_send := sd, scc_args := True\<rparr>"
  obtain ra s1 where a: "init_alert_sender env sp ?s = (ra, s1)" by (cases "init_alert_sender env sp ?s")
  obtain rb s2 where b: "init_alert_receiver env rp s1 = (rb, s2)" by (cases "init_alert_receiver env rp s1")
  have w1: "P s1" using init_alert_sender [of ?s sp] assms a by (simp add: fields)
  have w2: "P s2" using init_alert_receiver [OF w1, of rp] b by simp
  show ?thesis
    using assms a b w1 w2
    by (auto simp: Init_def Let_def split_beta AddPort fail_init init_controls split: option.split bool.split)
qed

lemma InitThreadedReceiver:
  assumes "P s"
  shows "P (snd (InitThreadedReceiver env p n rp r sp sd s))"
proof -
  obtain ok s1 where i: "Init env p n rp r sp sd (s\<lparr>m_thread := True\<rparr>) = (ok, s1)"
    by (cases "Init env p n rp r sp sd (s\<lparr>m_thread := True\<rparr>)")
  then have "P s1" using Init [of "s\<lparr>m_thread := True\<rparr>" p n rp r sp sd] assms by (simp add: fields)
  then show ?thesis using assms i by (auto simp: InitThreadedReceiver_def fields split: option.split)
qed

lemma Stop: "P s \<Longrightarrow> P (Stop env s)"
  by (simp add: Stop_def Let_def Clear)

end

section \<open>Well-formed collections\<close>

definition named :: "string \<Rightarrow> ('o, 'f) element \<Rightarrow> bool" where
  "named k el \<longleftrightarrow> el_name el = k"

definition scc_wf :: "('o, 'f, 'g, 'w) scc \<Rightarrow> bool" where
  "scc_wf s \<longleftrightarrow> om_wf (SC_vars s) \<and> om.all_entries named (SC_vars s)"

lemma scc_wf_insert: "\<lbrakk>scc_wf s; el_name el = k\<rbrakk> \<Longrightarrow> scc_wf (s\<lparr>SC_vars := om_insert k el (SC_vars s)\<rparr>)"
  by (simp add: scc_wf_def om_wf_insert om.all_entries_insert named_def)

lemma scc_wf_delete: "scc_wf s \<Longrightarrow> scc_wf (s\<lparr>SC_vars := om_delete k (SC_vars s)\<rparr>)"
  by (simp add: scc_wf_def om_wf_delete om.all_entries_delete)

lemma scc_wf_named: "\<lbrakk>scc_wf s; om_lookup k (SC_vars s) = Some el\<rbrakk> \<Longrightarrow> el_name el = k"
  by (simp add: scc_wf_def om.all_entries_def named_def)

text \<open>Where the functions of the user keep a collection well formed, everything else does.\<close>

interpretation wf: scc_map_invariant env "\<lambda>s. callbacks_keep env scc_wf \<longrightarrow> scc_wf s" for env
proof unfold_locales
  fix s s' :: "('o, 'f, 'g, 'w) scc" and k el el'
  assume "callbacks_keep env scc_wf \<longrightarrow> scc_wf s" "callbacks_keep env scc_wf \<longrightarrow> scc_wf s'"
    "om_lookup k (SC_vars s) = Some el" "same_kind el' el"
  then show "callbacks_keep env scc_wf \<longrightarrow> scc_wf (s'\<lparr>SC_vars := om_insert k el' (SC_vars s')\<rparr>)"
    by (auto intro: scc_wf_insert dest: scc_wf_named simp: same_kind_def)
qed (simp_all add: callbacks_keepD Add_def Remove_def scc_wf_insert scc_wf_delete SlowControlElement_new_def,
    simp_all add: scc_wf_def om.wf_empty om.all_entries_empty)

text \<open>Any use of a collection: the calls of its user and the turns of its thread, in any order.\<close>

inductive scc_reach ::
    "('o, 'd :: linorder, 'f, 'g, 'w) scc_env \<Rightarrow> ('o, 'f, 'g, 'w) scc \<Rightarrow> bool" for env where
  new: "scc_reach env (SlowControlCollection_new env r sd w)"
| add: "scc_reach env s \<Longrightarrow> scc_reach env (snd (Add (se_store env) name type c read l h s))"
| remove: "scc_reach env s \<Longrightarrow> scc_reach env (snd (Remove name s))"
| clear: "scc_reach env s \<Longrightarrow> scc_reach env (Clear s)"
| init: "scc_reach env s \<Longrightarrow> scc_reach env (snd (Init env p n rp ar sp sd s))"
| init_threaded: "scc_reach env s \<Longrightarrow> scc_reach env (snd (InitThreadedReceiver env p n rp ar sp sd s))"
| stop: "scc_reach env s \<Longrightarrow> scc_reach env (Stop env s)"
| flag: "scc_reach env s \<Longrightarrow> scc_reach env (SetFlag env flag on s)"
| clear_state: "scc_reach env s \<Longrightarrow> scc_reach env (ClearState env s)"
| testing: "scc_reach env s \<Longrightarrow> scc_reach env (SetTesting b s)"
| subscribe: "scc_reach env s \<Longrightarrow> scc_reach env (snd (AlertSubscribe name g s))"
| alert: "scc_reach env s \<Longrightarrow> scc_reach env (snd (AlertSend env name payload s))"
| set_number: "scc_reach env s \<Longrightarrow> scc_reach env (set_int env key v s)"
| set_string: "scc_reach env s \<Longrightarrow> scc_reach env (snd (set_text env key text s))"
| turn: "scc_reach env s \<Longrightarrow> scc_reach env (Thread env input parts s)"

lemma scc_reach_wf:
  assumes "scc_reach env s" and "callbacks_keep env scc_wf"
  shows "scc_wf s"
proof -
  have "callbacks_keep env scc_wf \<longrightarrow> scc_wf s"
    using assms(1)
    by induction (rule wf.new wf.Clear
        | rule wf.Add wf.Remove wf.Init wf.InitThreadedReceiver wf.Stop wf.SetFlag wf.ClearState wf.SetTesting
            wf.AlertSubscribe wf.AlertSend wf.set_int wf.set_text wf.Thread, assumption)+
  then show ?thesis using assms(2) by blast
qed


section \<open>The types of the controls\<close>

text \<open>What a control is, apart from its value; the list of them, in the order of the names.\<close>

definition kind_of :: "string \<times> ('o, 'f) element
    \<Rightarrow> string \<times> SlowControlElementType \<times> 'f option \<times> 'f option \<times> bool \<times> bool" where
  "kind_of = (\<lambda>(k, el). (k, el_type el, el_change el, el_read el, el_lockable el, el_hidden el))"

lemma fst_kind_of [simp]: "fst (kind_of p) = fst p"
  by (simp add: kind_of_def split_beta)

definition kinds ::
    "('o, 'f, 'g, 'w) scc \<Rightarrow> (string \<times> SlowControlElementType \<times> 'f option \<times> 'f option \<times> bool \<times> bool) list" where
  "kinds s = map kind_of (SC_vars s)"

definition has_kinds ::
    "(string \<times> SlowControlElementType \<times> 'f option \<times> 'f option \<times> bool \<times> bool) list
      \<Rightarrow> ('o, 'f, 'g, 'w) scc \<Rightarrow> bool" where
  "has_kinds ks s \<longleftrightarrow> scc_wf s \<and> kinds s = ks"

lemma om_insert_map:
  "\<lbrakk>om_wf m; om_lookup k m = Some u; f (k, v) = f (k, u)\<rbrakk> \<Longrightarrow> map f (om_insert k v m) = map f m"
  unfolding om_wf_def om_lookup_def
proof (induction k v m rule: om_insert.induct)
  case (2 k v j w m)
  show ?case
  proof (cases "k < j")
    case True
    then have "\<forall>x \<in> set (map fst m). k < x" using 2(2) by (auto dest: less_trans)
    then have "map_of m k = None" by (auto simp: map_of_eq_None_iff)
    then show ?thesis using 2(3) True by (auto split: if_splits)
  qed (use 2 in auto)
qed simp

lemma same_kinds_lookup:
  assumes "map kind_of m = map kind_of m'" and "om_lookup k m = Some el"
  shows "\<exists>el'. om_lookup k m' = Some el' \<and> kind_of (k, el') = kind_of (k, el)"
proof -
  have "map_of m k = Some el" using assms(2) by (simp add: om_lookup_def)
  then show ?thesis
    using assms(1) unfolding om_lookup_def
  proof (induction m arbitrary: m')
    case (Cons p m)
    then obtain q n where m': "m' = q # n" "kind_of p = kind_of q" "map kind_of m = map kind_of n" by auto
    then show ?case
      using Cons.prems(1) Cons.IH [of n] by (cases p; cases q) (auto simp: kind_of_def split: if_splits)
  qed simp
qed

interpretation typed: scc_invariant env "\<lambda>s. callbacks_keep env (has_kinds ks) \<longrightarrow> has_kinds ks s"
  for env :: "('o, 'd :: linorder, 'f, 'g, 'w) scc_env" and ks
proof unfold_locales
  fix s s' :: "('o, 'f, 'g, 'w) scc" and k el el'
  assume *: "callbacks_keep env (has_kinds ks) \<longrightarrow> has_kinds ks s" "callbacks_keep env (has_kinds ks) \<longrightarrow> has_kinds ks s'"
    "om_lookup k (SC_vars s) = Some el" "same_kind el' el"
  show "callbacks_keep env (has_kinds ks) \<longrightarrow> has_kinds ks (s'\<lparr>SC_vars := om_insert k el' (SC_vars s')\<rparr>)"
  proof
    assume "callbacks_keep env (has_kinds ks)"
    then have k: "has_kinds ks s" "has_kinds ks s'" using * by blast+
    then have "map kind_of (SC_vars s) = map kind_of (SC_vars s')" by (simp add: has_kinds_def kinds_def)
    from same_kinds_lookup [OF this *(3)] obtain u where
      u: "om_lookup k (SC_vars s') = Some u" "kind_of (k, u) = kind_of (k, el)" by blast
    have "kind_of (k, el') = kind_of (k, u)" using *(4) u(2) by (simp add: kind_of_def same_kind_def)
    moreover have "el_name el' = k"
      using *(4) k(1) scc_wf_named [OF _ *(3)] by (simp add: same_kind_def has_kinds_def)
    moreover have "om_wf (SC_vars s')" "scc_wf s'" "kinds s' = ks"
      using k(2) by (simp_all add: has_kinds_def scc_wf_def)
    ultimately show "has_kinds ks (s'\<lparr>SC_vars := om_insert k el' (SC_vars s')\<rparr>)"
      using u(1) by (simp add: has_kinds_def kinds_def scc_wf_insert om_insert_map)
  qed
qed (simp_all add: callbacks_keepD, simp add: has_kinds_def kinds_def scc_wf_def)

text \<open>A collection that is running: turns of its thread, and the calls of its user other than adding and
  removing controls, start and stop.\<close>

inductive scc_serve ::
    "('o, 'd :: linorder, 'f, 'g, 'w) scc_env \<Rightarrow> ('o, 'f, 'g, 'w) scc \<Rightarrow> ('o, 'f, 'g, 'w) scc \<Rightarrow> bool" for env where
  turn: "scc_serve env s (Thread env input parts s)"
| flag: "scc_serve env s (SetFlag env flag on s)"
| clear_state: "scc_serve env s (ClearState env s)"
| testing: "scc_serve env s (SetTesting b s)"
| subscribe: "scc_serve env s (snd (AlertSubscribe name g s))"
| alert: "scc_serve env s (snd (AlertSend env name payload s))"
| set_number: "scc_serve env s (set_int env key v s)"
| set_string: "scc_serve env s (snd (set_text env key text s))"

inductive_cases scc_serveE: "scc_serve env s s'"

lemma scc_serve_kinds:
  assumes "scc_serve env s s'" and "callbacks_keep env (has_kinds ks) \<longrightarrow> has_kinds ks s"
  shows "callbacks_keep env (has_kinds ks) \<longrightarrow> has_kinds ks s'"
  using assms(1)
  by (rule scc_serveE) (simp_all only:, (rule typed.Thread typed.SetFlag typed.ClearState typed.SetTesting
      typed.AlertSubscribe typed.AlertSend typed.set_int typed.set_text, rule assms(2))+)

text \<open>every control keeps its type: however long a collection serves requests and alerts, and whatever text
  comes in, the controls are the same as before, each with the type, the functions, the lock and the
  visibility it was added with; only values change. The functions of the user are assumed to keep
  the controls too.\<close>
theorem controls_keep_their_type:
  assumes "(scc_serve env)\<^sup>*\<^sup>* s s'" and "scc_wf s" and "callbacks_keep env (has_kinds (kinds s))"
  shows "map fst (SC_vars s') = map fst (SC_vars s)
    \<and> (\<forall>key el. om_lookup key (SC_vars s) = Some el
        \<longrightarrow> (\<exists>el'. om_lookup key (SC_vars s') = Some el' \<and> same_kind el' el))"
proof -
  let ?P = "\<lambda>t. callbacks_keep env (has_kinds (kinds s)) \<longrightarrow> has_kinds (kinds s) t"
  have "?P s'" using assms(1)
  proof (induction rule: rtranclp_induct)
    case base
    then show ?case using assms(2) by (simp add: has_kinds_def)
  next
    case (step t u)
    show ?case by (rule scc_serve_kinds [OF step.hyps(2) step.IH])
  qed
  then have k: "scc_wf s'" "map kind_of (SC_vars s) = map kind_of (SC_vars s')"
    using assms(3) by (simp_all add: has_kinds_def kinds_def)
  have "map fst (SC_vars s') = map fst (SC_vars s)"
    using arg_cong [OF k(2), of "map fst"] by (simp add: comp_def)
  moreover have "\<exists>el'. om_lookup key (SC_vars s') = Some el' \<and> same_kind el' el"
    if l: "om_lookup key (SC_vars s) = Some el" for key el
  proof -
    obtain el' where el': "om_lookup key (SC_vars s') = Some el'" "kind_of (key, el') = kind_of (key, el)"
      using same_kinds_lookup [OF k(2) l] by blast
    then have "same_kind el' el"
      using scc_wf_named [OF assms(2) l] scc_wf_named [OF k(1) el'(1)] by (simp add: kind_of_def same_kind_def)
    with el'(1) show ?thesis by blast
  qed
  ultimately show ?thesis by blast
qed

section \<open>Values of plain controls\<close>

text \<open>A control without a change function, and the number it shows.\<close>

definition plain_at :: "string \<Rightarrow> ('o, 'f, 'g, 'w) scc \<Rightarrow> bool" where
  "plain_at k s \<longleftrightarrow> (\<exists>el. om_lookup k (SC_vars s) = Some el \<and> el_change el = None)"

definition shown :: "('o, 'd) store_ops \<Rightarrow> string \<Rightarrow> ('o, 'f, 'g, 'w) scc \<Rightarrow> int option" where
  "shown so k s = (case om_lookup k (SC_vars s) of
     None \<Rightarrow> None | Some el \<Rightarrow> so_get_int so ''value'' (el_options el))"

lemma set_int_plain:
  assumes "om_lookup k (SC_vars s) = Some el" and "el_change el = None"
  shows "set_int env k v s = s\<lparr>SC_vars := om_insert k
     (el\<lparr>el_options := so_set_int (se_store env) ''value'' v (el_options el)\<rparr>) (SC_vars s)\<rparr>"
  using assms by (simp add: set_int_def on_element_def SetValue_int_def run_change_def Let_def)

lemma set_int_shown:
  assumes "store_laws (se_store env)" and "om_wf (SC_vars s)" and "plain_at k s"
  shows "shown (se_store env) k (set_int env k v s) = Some v"
    and "plain_at j (set_int env k v s) = plain_at j s"
    and "j \<noteq> k \<Longrightarrow> shown (se_store env) j (set_int env k v s) = shown (se_store env) j s"
    and "om_wf (SC_vars (set_int env k v s))"
    and "scc_crashed (set_int env k v s) = scc_crashed s"
    and "m_state (set_int env k v s) = m_state s" and "scc_ports (set_int env k v s) = scc_ports s"
    and "m_alert_functions (set_int env k v s) = m_alert_functions s"
proof -
  obtain el where el: "om_lookup k (SC_vars s) = Some el" "el_change el = None"
    using assms(3) unfolding plain_at_def by blast
  note eq = set_int_plain [OF el, of env v]
  show "shown (se_store env) k (set_int env k v s) = Some v"
    and "plain_at j (set_int env k v s) = plain_at j s"
    and "j \<noteq> k \<Longrightarrow> shown (se_store env) j (set_int env k v s) = shown (se_store env) j s"
    and "om_wf (SC_vars (set_int env k v s))"
    and "scc_crashed (set_int env k v s) = scc_crashed s"
    and "m_state (set_int env k v s) = m_state s" and "scc_ports (set_int env k v s) = scc_ports s"
    and "m_alert_functions (set_int env k v s) = m_alert_functions s"
    unfolding eq using el assms(2)
    by (auto simp: shown_def plain_at_def om.lookup_insert om.wf_insert store_lawsD [OF assms(1)])
qed

section \<open>The state flags\<close>

lemma bit_mask_word: "n < 32 \<Longrightarrow> bit (push_bit n 1 :: u32) i \<longleftrightarrow> i = n"
  by (simp add: bit_exp_iff) auto

lemma state_bit_less: "state_bit f < 32"
  by (cases f) simp_all

lemma bit_flag_on: "bit (or x (push_bit (state_bit f) 1) :: u32) i \<longleftrightarrow> i = state_bit f \<or> bit x i"
  unfolding bit_or_iff bit_mask_word [OF state_bit_less] by blast

lemma bit_flag_off: "bit (and x (not (push_bit (state_bit f) 1)) :: u32) i \<longleftrightarrow> i \<noteq> state_bit f \<and> bit x i"
  unfolding bit_and_iff bit_not_iff bit_mask_word [OF state_bit_less]
  using bit_imp_possible_bit [of x i] by blast

lemma bit_flags_cleared:
  "bit (and x (not (or (push_bit (state_bit f) 1) (push_bit (state_bit g) 1))) :: u32) i
     \<longleftrightarrow> i \<noteq> state_bit f \<and> i \<noteq> state_bit g \<and> bit x i"
  unfolding bit_and_iff bit_not_iff bit_or_iff bit_mask_word [OF state_bit_less]
  using bit_imp_possible_bit [of x i] by blast

lemma publish_state_shown:
  assumes "store_laws (se_store env)" and "om_wf (SC_vars s)" and "plain_at ''State'' s"
    and "scc_util s" and "se_port_ok env ''State''"
  shows "scc_ports (publish_state env s) ''State'' = Some (sint (m_state s))"
    and "shown (se_store env) ''State'' (publish_state env s) = Some (sint (m_state s))"
    and "m_state (publish_state env s) = m_state s"
    and "scc_crashed (publish_state env s) = scc_crashed s"
proof -
  let ?s = "s\<lparr>scc_ports := (scc_ports s)(''State'' \<mapsto> sint (m_state s))\<rparr>"
  have p: "publish_state env s = set_int env ''State'' (sint (m_state s)) ?s"
    using assms(4,5) by (simp add: publish_state_def AddPort_def Let_def)
  have "om_wf (SC_vars ?s)" "plain_at ''State'' ?s"
    using assms(2,3) by (simp_all add: plain_at_def)
  note * = set_int_shown [OF assms(1) this]
  show "scc_ports (publish_state env s) ''State'' = Some (sint (m_state s))"
    and "shown (se_store env) ''State'' (publish_state env s) = Some (sint (m_state s))"
    and "m_state (publish_state env s) = m_state s"
    and "scc_crashed (publish_state env s) = scc_crashed s"
    unfolding p by (simp_all add: *)
qed

text \<open>the three views of the device state agree: setting or clearing a flag changes exactly its bit, clearing
  the state clears the warning and the error bit and no other, and afterwards the number that is
  broadcast and the number the slow control \<open>State\<close> shows are both the new state.\<close>
theorem state_views_agree:
  assumes "store_laws (se_store env)" and "om_wf (SC_vars s)" and "plain_at ''State'' s"
    and "scc_util s" and "se_port_ok env ''State''"
    and "s' = SetFlag env flag on s \<or> s' = ClearState env s"
  shows "(s' = SetFlag env flag on s \<longrightarrow> (\<forall>i. bit (m_state s') i = (if i = state_bit flag then on else bit (m_state s) i)))
    \<and> (s' = ClearState env s \<longrightarrow> (\<forall>i. bit (m_state s') i =
         (i \<noteq> state_bit StateWarning \<and> i \<noteq> state_bit StateError \<and> bit (m_state s) i)))
    \<and> scc_ports s' ''State'' = Some (sint (m_state s'))
    \<and> shown (se_store env) ''State'' s' = Some (sint (m_state s'))
    \<and> scc_crashed s' = scc_crashed s"
proof -
  have pub: "scc_ports (publish_state env (s\<lparr>m_state := w\<rparr>)) ''State'' = Some (sint w)"
    "shown (se_store env) ''State'' (publish_state env (s\<lparr>m_state := w\<rparr>)) = Some (sint w)"
    "m_state (publish_state env (s\<lparr>m_state := w\<rparr>)) = w"
    "scc_crashed (publish_state env (s\<lparr>m_state := w\<rparr>)) = scc_crashed s" for w
    using publish_state_shown [of env "s\<lparr>m_state := w\<rparr>"] assms(1-5) by (simp_all add: plain_at_def)
  have "\<exists>w. s' = publish_state env (s\<lparr>m_state := w\<rparr>)"
    using assms(6) by (auto simp: SetFlag_def ClearState_def Let_def)
  then have views: "scc_ports s' ''State'' = Some (sint (m_state s'))"
    "shown (se_store env) ''State'' s' = Some (sint (m_state s'))" "scc_crashed s' = scc_crashed s"
    by (auto simp: pub)
  have flag: "bit (m_state (SetFlag env flag on s)) i = (if i = state_bit flag then on else bit (m_state s) i)" for i
    unfolding SetFlag_def Let_def pub by (cases on) (simp_all only: if_True if_False bit_flag_on bit_flag_off, auto)
  have clear: "bit (m_state (ClearState env s)) i =
      (i \<noteq> state_bit StateWarning \<and> i \<noteq> state_bit StateError \<and> bit (m_state s) i)" for i
    unfolding ClearState_def Let_def pub by (rule bit_flags_cleared)
  show ?thesis using views flag clear by blast
qed

section \<open>Locked controls\<close>


end
