(* ===== verification/SlowControlAlerts.thy ===== *)
theory SlowControlAlerts
  imports SlowControlProofs
begin

text \<open>
  What alerts do (\<open>SlowControlCollection.cpp\<close>): the configuration state shown to the operator follows the
  alerts of the run control, an alert arrives as it was sent, starting a collection makes its
  standard controls, a failed start crashes the threaded variant, and \<open>Unpack\<close> ends.
\<close>

section \<open>The configuration state\<close>

text \<open>The standard controls are there, and nobody subscribed to all alerts.\<close>

definition config_ready :: "('o, 'f, 'g, 'w) scc \<Rightarrow> bool" where
  "config_ready s \<longleftrightarrow> om_wf (SC_vars s) \<and> plain_at ''Config'' s \<and> plain_at ''NewConfig'' s
     \<and> plain_at ''State'' s \<and> om_lookup ''*'' (m_alert_functions s) = None"

lemma config_ready_set_int:
  assumes "store_laws (se_store env)" and "config_ready s" and "k \<in> {''Config'', ''NewConfig'', ''State''}"
  shows "config_ready (set_int env k v s)"
  using assms set_int_shown [OF assms(1), of s k] unfolding config_ready_def by auto

lemma shown_AddPort [simp]: "shown so k (snd (AddPort env n p s)) = shown so k s"
  by (simp add: AddPort_def shown_def)

lemma SC_vars_AddPort [simp]:
  "SC_vars (snd (AddPort env n p s)) = SC_vars s"
  "m_alert_functions (snd (AddPort env n p s)) = m_alert_functions s"
  by (simp_all add: AddPort_def)

lemma plain_at_vars: "SC_vars s = SC_vars t \<Longrightarrow> plain_at k s = plain_at k t"
  by (simp add: plain_at_def)

lemma shown_vars: "SC_vars s = SC_vars t \<Longrightarrow> shown so k s = shown so k t"
  by (simp add: shown_def)

text \<open>Setting the error flag shows in \<open>State\<close> only.\<close>

lemma SetError_shown:
  assumes "store_laws (se_store env)" and "config_ready s" and "k \<noteq> ''State''"
  shows "shown (se_store env) k (SetError env b s) = shown (se_store env) k s"
    and "config_ready (SetError env b s)"
proof -
  obtain t v where t: "SetError env b s = set_int env ''State'' v t" "SC_vars t = SC_vars s"
    "m_alert_functions t = m_alert_functions s"
    by (auto simp: SetError_def SetFlag_def publish_state_def Let_def)
  have r: "config_ready t"
    using assms(2) t(2,3) unfolding config_ready_def plain_at_def by simp
  then have p: "om_wf (SC_vars t)" "plain_at ''State'' t" by (simp_all add: config_ready_def)
  show "shown (se_store env) k (SetError env b s) = shown (se_store env) k s"
    unfolding t(1) using set_int_shown(3) [OF assms(1) p assms(3)] shown_vars [OF t(2)] by metis
  show "config_ready (SetError env b s)"
    unfolding t(1) using config_ready_set_int [OF assms(1) r] by simp
qed

lemma call_alert_eq:
  "call_alert env g n p s = (fst (se_alert env g n p s) \<noteq> Some True, snd (se_alert env g n p s))"
  by (cases "se_alert env g n p s") (auto simp: call_alert_def split: option.split)

lemma dispatch_any_none: "config_ready s \<Longrightarrow> dispatch_any env n p s = s"
  by (simp add: dispatch_any_def config_ready_def)

text \<open>The bookkeeping after a \<open>LoadConfig\<close> with payload, and after a \<open>ChangeConfig\<close> without.\<close>

lemma dispatch_load:
  assumes laws: "store_laws (se_store env)"
    and g: "om_lookup ''LoadConfig'' (m_alert_functions s) = Some g"
    and "config_ready (snd (se_alert env g ''LoadConfig'' (Some d) s))"
  defines "ok \<equiv> fst (se_alert env g ''LoadConfig'' (Some d) s) = Some True"
  shows "shown (se_store env) ''Config'' (snd (dispatch_named env ''LoadConfig'' (Some d) s))
      = Some (config_number (if ok then LoadEnd else LoadFail))
    \<and> config_ready (snd (dispatch_named env ''LoadConfig'' (Some d) s))"
proof -
  let ?t = "snd (se_alert env g ''LoadConfig'' (Some d) s)"
  let ?u = "set_int env ''Config'' (config_number (if ok then LoadEnd else LoadFail)) ?t"
  have "om_wf (SC_vars ?t)" "plain_at ''Config'' ?t"
    using assms(3) by (simp_all add: config_ready_def)
  then have u: "shown (se_store env) ''Config'' ?u = Some (config_number (if ok then LoadEnd else LoadFail))"
    by (rule set_int_shown(1) [OF laws])
  have r: "config_ready ?u" by (rule config_ready_set_int [OF laws assms(3)]) simp
  have "snd (dispatch_named env ''LoadConfig'' (Some d) s) = (if ok then ?u else SetError env True ?u)"
    using g by (simp add: dispatch_named_def call_alert_eq Let_def ok_def)
  then show ?thesis using u r SetError_shown [OF laws r, of "''Config''" True] by (cases ok) simp_all
qed

lemma dispatch_change:
  assumes laws: "store_laws (se_store env)"
    and g: "om_lookup ''ChangeConfig'' (m_alert_functions s) = Some g"
    and r: "config_ready (snd (se_alert env g ''ChangeConfig'' None s))"
  defines "ok \<equiv> fst (se_alert env g ''ChangeConfig'' None s) = Some True"
  shows "shown (se_store env) ''Config'' (snd (dispatch_named env ''ChangeConfig'' None s))
      = Some (config_number (if ok then ChangeEnd else ChangeFail))
    \<and> shown (se_store env) ''NewConfig'' (snd (dispatch_named env ''ChangeConfig'' None s)) = Some 0
    \<and> config_ready (snd (dispatch_named env ''ChangeConfig'' None s))"
proof -
  let ?t = "snd (se_alert env g ''ChangeConfig'' None s)"
  let ?u = "set_int env ''Config'' (config_number (if ok then ChangeEnd else ChangeFail)) ?t"
  let ?v = "set_int env ''NewConfig'' 0 ?u"
  have t: "om_wf (SC_vars ?t)" "plain_at ''Config'' ?t" using r by (simp_all add: config_ready_def)
  have ru: "config_ready ?u" by (rule config_ready_set_int [OF laws r]) simp
  have rv: "config_ready ?v" by (rule config_ready_set_int [OF laws ru]) simp
  have u: "om_wf (SC_vars ?u)" "plain_at ''NewConfig'' ?u" using ru by (simp_all add: config_ready_def)
  have "shown (se_store env) ''NewConfig'' ?v = Some 0"
    by (rule set_int_shown(1) [OF laws u])
  moreover have "shown (se_store env) ''Config'' ?v = Some (config_number (if ok then ChangeEnd else ChangeFail))"
    using set_int_shown(3) [OF laws u, of "''Config''"] set_int_shown(1) [OF laws t] by simp
  moreover have "snd (dispatch_named env ''ChangeConfig'' None s) = (if ok then ?v else SetError env True ?v)"
    using g by (simp add: dispatch_named_def call_alert_eq Let_def ok_def)
  ultimately show ?thesis
    using rv SetError_shown [OF laws rv, of "''Config''" True] SetError_shown [OF laws rv, of "''NewConfig''" True]
    by (cases ok) simp_all
qed

lemma om_insert_same: "\<lbrakk>om_wf m; om_lookup k m = Some v\<rbrakk> \<Longrightarrow> om_insert k v m = m"
  unfolding om_wf_def om_lookup_def
proof (induction k v m rule: om_insert.induct)
  case (2 k v j u m)
  show ?case
  proof (cases "k = j")
    case True
    then show ?thesis using 2 by simp
  next
    case False
    then have "map_of m k = Some v" using 2 by simp
    then have "k \<in> set (map fst m)" by (metis map_of_eq_None_iff option.distinct(1) set_map)
    then have "j < k" using 2 by auto
    then show ?thesis using 2 False by auto
  qed
qed simp

lemma get_int_value_plain:
  assumes "om_wf (SC_vars s)" and "om_lookup k (SC_vars s) = Some el" and "el_read el = None"
  shows "get_int_value env k s = (shown (se_store env) k s, s)"
  using assms by (simp add: get_int_value_def on_element_def GetValue_int_def refresh_def shown_def om_insert_same)

text \<open>C13: the configuration state shown to the operator follows the alerts of the run control. A \<open>LoadConfig\<close> with
  its payload ends in "loaded" exactly when the subscribed function accepted it, in "load failed"
  otherwise. A \<open>ChangeConfig\<close> is ignored altogether when no new configuration is waiting; else it ends
  in "changed" or "change failed" the same way, and nothing is waiting any more.\<close>
theorem config_follows_alerts:
  assumes laws: "store_laws (se_store env)" and r: "config_ready s"
    and load: "om_lookup ''LoadConfig'' (m_alert_functions s) = Some gl"
    and change: "om_lookup ''ChangeConfig'' (m_alert_functions s) = Some gc"
    and new_config: "om_lookup ''NewConfig'' (SC_vars s) = Some el" "el_read el = None"
    and keep: "\<forall>g n p t. config_ready t \<longrightarrow> config_ready (snd (se_alert env g n p t))"
  shows "shown (se_store env) ''Config'' (handle_alert env ''LoadConfig'' (Some payload) s) =
      Some (config_number (if fst (se_alert env gl ''LoadConfig'' (Some payload) (set_int env ''Config'' 1 s)) = Some True
                           then LoadEnd else LoadFail))
    \<and> (shown (se_store env) ''NewConfig'' s = Some 0 \<longrightarrow> handle_alert env ''ChangeConfig'' None s = s)
    \<and> (shown (se_store env) ''NewConfig'' s \<noteq> Some 0 \<longrightarrow>
         shown (se_store env) ''Config'' (handle_alert env ''ChangeConfig'' None s) =
           Some (config_number (if fst (se_alert env gc ''ChangeConfig'' None (set_int env ''Config'' 4 s)) = Some True
                                then ChangeEnd else ChangeFail))
         \<and> shown (se_store env) ''NewConfig'' (handle_alert env ''ChangeConfig'' None s) = Some 0)"
proof -
  have wf: "om_wf (SC_vars s)" "plain_at ''Config'' s" using r by (simp_all add: config_ready_def)
  let ?l = "set_int env ''Config'' 1 s" and ?c = "set_int env ''Config'' 4 s"
  have rl: "config_ready ?l" and rc: "config_ready ?c"
    by (rule config_ready_set_int [OF laws r], simp)+
  have lookups: "om_lookup ''LoadConfig'' (m_alert_functions ?l) = Some gl"
    "om_lookup ''ChangeConfig'' (m_alert_functions ?c) = Some gc"
    using load change set_int_shown(8) [OF laws wf] by simp_all
  have kl: "config_ready (snd (se_alert env gl ''LoadConfig'' (Some payload) ?l))"
    and kc: "config_ready (snd (se_alert env gc ''ChangeConfig'' None ?c))"
    using keep rl rc by blast+
  note dl = dispatch_load [OF laws lookups(1) kl] and dc = dispatch_change [OF laws lookups(2) kc]
  have "handle_alert env ''LoadConfig'' (Some payload) s = snd (dispatch_named env ''LoadConfig'' (Some payload) ?l)"
    using dl by (simp add: handle_alert_def dispatch_any_none)
  moreover have "handle_alert env ''ChangeConfig'' None s =
      (if shown (se_store env) ''NewConfig'' s = Some 0 then s
       else snd (dispatch_named env ''ChangeConfig'' None ?c))"
    using dc get_int_value_plain [OF wf(1) new_config, where env = env] by (simp add: handle_alert_def dispatch_any_none)
  ultimately show ?thesis using dl dc by simp
qed

section \<open>Alerts over the wire\<close>

text \<open>an alert arrives as it was sent: when \<open>AlertSend\<close> reports success it has put one message on the wire, and
  a receiver that takes it does exactly what an alert of this name with this payload (none when the
  payload is empty) asks for, whether the payload was compressed or not; when it reports failure it
  has put nothing on the wire.\<close>
theorem alert_arrives:
  assumes "se_cctx env = Some compress" and "se_dctx env' = Some decompress"
    and "codec_contract compress decompress payload" and "\<not> looks_compressed payload"
    and "length payload \<le> DEFAULT_MAX_DECOMPRESSED_SIZE"
    and "NUL \<notin> set alert" and "NUL \<notin> set payload" and "scc_pub s"
  shows "case AlertSend env alert payload s of
      (True, s') \<Rightarrow> \<exists>parts. scc_alerts s' = scc_alerts s @ [parts]
        \<and> receive_alert env' (map Some parts) t
          = handle_alert env' alert (if payload = [] then None else Some payload) t
    | (False, s') \<Rightarrow> scc_alerts s' = scc_alerts s"
proof -
  obtain sent w where sent: "ZstdCompress (Some compress) payload DEFAULT_COMPRESS_THRESHOLD
      DEFAULT_COMPRESSION_LEVEL = Ok (sent, w)"
    and decoded: "ZstdDecompress (Some decompress) sent DEFAULT_MAX_DECOMPRESSED_SIZE = Ok (True, payload)"
    using ZstdCompress_decodes [OF assms(3,5) order_refl assms(4)] by blast
  have "receive_alert env' [Some (alert @ [NUL])] t = handle_alert env' alert None t"
    using assms(6) by (simp add: receive_alert_def c_string_terminated)
  moreover have "receive_alert env' [Some (alert @ [NUL]), Some sent] t = handle_alert env' alert (Some payload) t"
    using assms(2,6,7) decoded by (simp add: receive_alert_def c_string_terminated)
  ultimately show ?thesis
    using assms(1,8) sent by (simp add: AlertSend_def)
qed

section \<open>Starting\<close>

lemma on_element_missing: "om_lookup k (SC_vars s) = None \<Longrightarrow> scc_crashed (snd (on_element k act r s))"
  by (simp add: on_element_def)

lemma SetError_missing:
  assumes "om_lookup ''State'' (SC_vars s) = None"
  shows "scc_crashed (SetError env b s)"
proof -
  obtain t v where t: "SetError env b s = set_int env ''State'' v t" "SC_vars t = SC_vars s"
    by (auto simp: SetError_def SetFlag_def publish_state_def Let_def)
  then show ?thesis using assms by (simp add: set_int_def on_element_missing)
qed

lemma fresh_controls:
  "map fst (SC_vars (SlowControlCollection_new env r sd w)) = [''Config'', ''NewConfig'']
   \<and> \<not> scc_args (SlowControlCollection_new env r sd w) \<and> \<not> scc_crashed (SlowControlCollection_new env r sd w)"
  by (simp add: SlowControlCollection_new_def Add_def om_lookup_def set_int_def on_element_def
      SetValue_int_def run_change_def SlowControlElement_new_def Let_def)

lemma lookup_not_key: "k \<notin> set (map fst m) \<Longrightarrow> om_lookup k m = None"
  by (simp add: om_lookup_def map_of_eq_None_iff)

text \<open>a new collection does not survive a failed registration of its alert receiver with the service
  discovery: \<open>Init\<close> reports failure, but on the way it sets the error flag before the control that
  shows it exists, a null dereference, and it leaves no thread arguments behind.\<close>
theorem failed_registration_crashes:
  fixes env :: "('o, 'd :: linorder, 'f, 'g, 'w) scc_env"
  assumes "\<not> se_port_ok env ''alertr''" and "se_bind_ok env ''alertr''"
    and "s = SlowControlCollection_new env r0 sd0 w"
  shows "fst (Init env port new_service rport True sport False s) = Some False
    \<and> scc_crashed (snd (Init env port new_service rport True sport False s))
    \<and> \<not> scc_args (snd (Init env port new_service rport True sport False s))"
proof -
  let ?s = "s\<lparr>scc_util := True, m_new_service := new_service, m_alerts_receive := True,
    m_alerts_send := False, scc_args := True\<rparr>"
  let ?t = "?s\<lparr>m_alerts_receive := False, scc_args := False\<rparr>"
  have keys: "om_lookup ''State'' (SC_vars s) = None" and a: "\<not> scc_args s"
    using fresh_controls [of env r0 sd0 w] lookup_not_key [of "''State''" "SC_vars s"] assms(3) by simp_all
  have i: "Init env port new_service rport True sport False s = (Some False, SetError env True ?t)"
    using assms(1,2) a
    by (simp add: Init_def init_alert_sender_def init_alert_receiver_def AddPort_def fail_init_def Let_def)
  have "scc_crashed (SetError env True ?t)"
    by (rule SetError_missing) (simp add: keys)
  moreover have "scc_args (SetError env True ?t) = scc_args ?t"
    using keys by (simp add: SetError_def SetFlag_def publish_state_def AddPort_def set_int_def on_element_def Let_def)
  ultimately show ?thesis using i by simp
qed

section \<open>Nested descriptions\<close>

lemma array_elements_length: "part \<in> set (array_elements cur n cs) \<Longrightarrow> length part \<le> length cur + length cs"
proof (induction cur n cs rule: array_elements.induct)
  case (1 cur n)
  then show ?case by simp
next
  case (2 cur n c cs)
  let ?cur = "if c = CHR ''{'' \<and> n = 0 then [c] else cur @ [c]"
  have "length ?cur \<le> Suc (length cur)" by simp
  with 2 show ?case
    by (auto simp: Let_def simp del: append_assoc split: if_splits dest!: le_trans)
qed

lemma nested_length: "(t, h) \<in> set (nested header key value) \<Longrightarrow> length t \<le> length value"
  using array_elements_length [of t "[hd value]" 0 "tl value"]
  by (auto simp: nested_def in_set_enumerate_eq split: if_splits)

lemma fold_Some:
  "(\<And>x a. x \<in> set xs \<Longrightarrow> \<exists>b. f x (Some a) = Some b) \<Longrightarrow> \<exists>b. fold f xs (Some a) = Some b"
proof (induction xs arbitrary: a)
  case Nil
  then show ?case by simp
next
  case (Cons x xs)
  obtain b where "f x (Some a) = Some b" using Cons.prems [of x a] by auto
  then show ?case using Cons by simp
qed

text \<open>The values of a parsed object are shorter than its text.\<close>

definition parser_shrinks :: "('o, 'd) store_ops \<Rightarrow> bool" where
  "parser_shrinks so \<longleftrightarrow> (\<forall>t k v. (k, v) \<in> set (so_items so (so_parse so t)) \<longrightarrow> length v < length t)"

text \<open>unpacking a nested description ends: with a parser whose values are shorter than the text they come
  from, a depth of one more than the length of the text is never used up.\<close>
theorem Unpack_terminates:
  assumes "parser_shrinks so" and "length json < fuel"
  shows "\<exists>out'. Unpack fuel so json header out = Some out'"
  using assms(2)
proof (induction fuel arbitrary: json header out)
  case 0
  then show ?case by simp
next
  case (Suc fuel)
  have "\<exists>b. fold (\<lambda>(t, h) acc. Option.bind acc (Unpack fuel so t h)) (nested (scope header) k v)
      (map_option (put_entries es) (Some a)) = Some b"
    if kv: "(k, v) \<in> set (so_items so (so_parse so json))" for k v es a
  proof -
    have "length v < fuel"
      using assms(1) kv Suc.prems unfolding parser_shrinks_def by fastforce
    then have "\<exists>b. Unpack fuel so t h x = Some b" if "(t, h) \<in> set (nested (scope header) k v)" for t h x
      using nested_length [OF that] Suc.IH [of t] by simp
    then show ?thesis by (auto intro!: fold_Some)
  qed
  then show ?case by (auto intro!: fold_Some)
qed

section \<open>An example\<close>

type_synonym demo_store_type = "string \<Rightarrow> demo_entry option"

definition demo_scc_env :: "bool \<Rightarrow> (demo_store_type, int, nat, nat, unit) scc_env" where
  "demo_scc_env registers =
     \<lparr>se_store = demo_store, se_run = (\<lambda>f t s. (Some [], s)), se_alert = (\<lambda>g n p s. (Some True, s)),
      se_clear_state = 0, se_port_ok = (\<lambda>_. registers), se_bind_ok = (\<lambda>_. True), se_monitor_ok = True,
      se_send_ok = (\<lambda>_. True), se_cctx = Some demo_compress, se_dctx = Some demo_decompress\<rparr>"

definition demo_control :: "string \<Rightarrow> SlowControlElementType \<Rightarrow> (demo_store_type, nat) element" where
  "demo_control name type =
     (SlowControlElement_new demo_store name type None None True False)\<lparr>el_options := [''value'' \<mapsto> DInt 1]\<rparr>"

definition demo_scc :: "(demo_store_type, nat, nat, unit) scc" where
  "demo_scc =
     \<lparr>SC_vars = [(''Config'', demo_control ''Config'' INFO), (''NewConfig'', demo_control ''NewConfig'' INFO),
                 (''State'', demo_control ''State'' INFO), (''mode'', demo_control ''mode'' OPTIONS)],
      m_alert_functions = [(''ChangeConfig'', 1), (''LoadConfig'', 2)], scc_args = True, scc_util = True,
      m_thread = True, m_new_service = True, m_alerts_receive = True, m_alerts_send = True,
      m_testing = False, m_state = 5, scc_pub = True, pub_locked = False, scc_ports = Map.empty,
      scc_replies = [], scc_alerts = [], scc_crashed = False, scc_world = ()\<rparr>"

lemma demo_env_simps [simp]:
  "se_store (demo_scc_env b) = demo_store" "se_cctx (demo_scc_env b) = Some demo_compress"
  "se_dctx (demo_scc_env b) = Some demo_decompress" "se_port_ok (demo_scc_env b) k = b"
  "se_bind_ok (demo_scc_env b) k = True" "se_run (demo_scc_env b) f t s = (Some [], s)"
  "se_alert (demo_scc_env b) g n p s = (Some True, s)"
  by (simp_all add: demo_scc_env_def)

lemma demo_scc_simps:
  "om_lookup ''State'' (SC_vars demo_scc) = Some (demo_control ''State'' INFO)"
  "om_lookup ''Config'' (SC_vars demo_scc) = Some (demo_control ''Config'' INFO)"
  "om_lookup ''NewConfig'' (SC_vars demo_scc) = Some (demo_control ''NewConfig'' INFO)"
  "om_lookup ''mode'' (SC_vars demo_scc) = Some (demo_control ''mode'' OPTIONS)"
  "scc_util demo_scc" "scc_pub demo_scc" "m_testing demo_scc = False" "scc_crashed demo_scc = False"
  "m_alert_functions demo_scc = [(''ChangeConfig'', 1), (''LoadConfig'', 2)]" "m_state demo_scc = 5"
  by (simp_all add: demo_scc_def om_lookup_def)

lemma demo_control_simps [simp]:
  "el_change (demo_control n t) = None" "el_read (demo_control n t) = None"
  "el_type (demo_control n t) = t" "el_lockable (demo_control n t) = True"
  by (simp_all add: demo_control_def SlowControlElement_new_def)

lemma demo_scc_wf: "om_wf (SC_vars demo_scc)"
  by (simp add: demo_scc_def om_wf_def less_char_def)

lemma demo_scc_ready: "config_ready demo_scc"
  using demo_scc_wf by (simp add: config_ready_def plain_at_def demo_scc_simps, simp add: om_lookup_def)


lemma demo_scc_named: "scc_wf demo_scc"
  using demo_scc_wf unfolding scc_wf_def om.all_entries_def named_def
  by (auto simp: demo_scc_def om_lookup_def demo_control_def SlowControlElement_new_def split: if_splits)

lemma controls_keep_their_type_witness:
  "om_lookup ''mode'' (SC_vars (SetTesting True (Thread (demo_scc_env True) None [] demo_scc))) \<noteq> None"
proof -
  have "callbacks_keep (demo_scc_env True) (has_kinds (kinds demo_scc))" by (simp add: callbacks_keep_def)
  moreover have "(scc_serve (demo_scc_env True))\<^sup>*\<^sup>* demo_scc
      (SetTesting True (Thread (demo_scc_env True) None [] demo_scc))"
    by (meson rtranclp.rtrancl_refl rtranclp.rtrancl_into_rtrancl scc_serve.turn scc_serve.testing)
  ultimately show ?thesis
    using controls_keep_their_type [OF _ demo_scc_named] demo_scc_simps(4) by blast
qed

lemma state_views_agree_witness:
  "scc_ports (SetFlag (demo_scc_env True) StateWarning True demo_scc) ''State''
     = Some (sint (m_state (SetFlag (demo_scc_env True) StateWarning True demo_scc)))"
  using state_views_agree [of "demo_scc_env True" demo_scc
      "SetFlag (demo_scc_env True) StateWarning True demo_scc" StateWarning True]
    demo_store_laws demo_scc_wf
  by (simp add: plain_at_def demo_scc_simps)


lemma config_follows_alerts_witness:
  "shown demo_store ''Config'' (handle_alert (demo_scc_env True) ''LoadConfig'' (Some ''{}'') demo_scc) = Some 2
   \<and> shown demo_store ''NewConfig'' (handle_alert (demo_scc_env True) ''ChangeConfig'' None demo_scc) = Some 0"
proof -
  have "shown demo_store ''NewConfig'' demo_scc = Some 1"
    by (simp add: shown_def demo_scc_simps) (simp add: demo_control_def demo_store_def)
  then show ?thesis
    using config_follows_alerts [of "demo_scc_env True" demo_scc 2 1 "demo_control ''NewConfig'' INFO" "''{}''"]
      demo_store_laws demo_scc_ready
    by (simp add: demo_scc_simps demo_scc_simps(3) [unfolded om_lookup_def] om_lookup_def)
qed

lemma alert_arrives_witness:
  "case AlertSend (demo_scc_env True) ''RunStop'' demo_msg demo_scc of
      (True, s') \<Rightarrow> \<exists>parts. scc_alerts s' = scc_alerts demo_scc @ [parts]
        \<and> receive_alert (demo_scc_env True) (map Some parts) demo_scc
          = handle_alert (demo_scc_env True) ''RunStop'' (if demo_msg = [] then None else Some demo_msg) demo_scc
    | (False, s') \<Rightarrow> scc_alerts s' = scc_alerts demo_scc"
proof -
  have "NUL \<notin> set ''RunStop''" "NUL \<notin> set demo_msg"
    by (simp_all add: NUL_def demo_msg_def)
  then show ?thesis
    using alert_arrives [OF _ _ demo_contract demo_msg_plain, of "demo_scc_env True" "demo_scc_env True"
        "''RunStop''" demo_scc demo_scc]
    by (simp add: demo_scc_simps demo_msg_length DEFAULT_MAX_DECOMPRESSED_SIZE_def)
qed

lemma failed_registration_crashes_witness:
  "scc_crashed (snd (Init (demo_scc_env False) 60000 True 12243 True 12242 False
     (SlowControlCollection_new (demo_scc_env False) True True ())))"
  using failed_registration_crashes [of "demo_scc_env False" _ True True "()"] by simp

lemma Unpack_terminates_witness: "\<exists>out'. Unpack 3 demo_store ''{}'' [] [] = Some out'"
  by (rule Unpack_terminates) (simp_all add: parser_shrinks_def demo_store_def)

end
