(* ===== verification/ServicesConfig.thy ===== *)
theory ServicesConfig
  imports ServicesQueries SlowControlAlerts BackendLifecycle
begin

text \<open>
  The part of \<open>Services\<close> that ties the commands, the buffers and the slow controls together
  (\<open>Services.cpp\<close>): loading the configuration of a run, the functions behind the alerts and controls
  \<open>LoadConfig\<close>, \<open>ChangeConfig\<close>, \<open>RunStop\<close> and \<open>ExportConfig\<close>, and the start of the whole. The world
  around the slow control collection is the rest of \<open>Services\<close> (\<open>config_state\<close>); the functions the
  code registers are the constructors of \<open>control_fun\<close> and \<open>alert_fun\<close>, run by \<open>service_run\<close> and
  \<open>service_alert\<close>. Functions given by the user are arguments; \<open>None\<close> is an exception.
\<close>

section \<open>State\<close>

record 'b config_state =
  cf_services :: "'b services"
  m_base_config_id :: u64
  m_run_mode_config_id :: u64
  cf_testing :: bool
  m_local_config :: string
  tmp_config :: string
  config_devicename :: string

datatype control_fun =
    LoadConfigControl | LocalConfigControl | ChangeConfigControl | ChangeToConfigControl
  | RunStopControl | ExportConfigControl | ClearStateControl | UserControl nat

datatype alert_fun = LoadConfigAlert | ChangeConfigAlert | RunStopAlert | ExportConfigAlert | UserAlert nat

type_synonym ('o, 'b) device = "('o, control_fun, alert_fun, 'b config_state) scc"

text \<open>The arguments: the environment of the collection, the JSON parser and the flag \<open>Testing\<close> of a payload,
  the command channel of each attempt to load, the log, and the user's functions.\<close>

record ('o, 'd, 'b) app =
  ap_scc :: "('o, 'd, control_fun, alert_fun, 'b config_state) scc_env"
  ap_json :: json_parser
  ap_testing :: "string \<Rightarrow> bool option"
  ap_cc :: "nat \<Rightarrow> 'b cc"
  ap_log :: "string \<Rightarrow> 'b services \<Rightarrow> 'b services"
  ap_change :: "string \<Rightarrow> ('o, 'b) device \<Rightarrow> bool option \<times> ('o, 'b) device"
  ap_stop :: "('o, 'b) device \<Rightarrow> bool option \<times> ('o, 'b) device"
  ap_export :: "('o, 'b) device \<Rightarrow> (bool \<times> string) option \<times> ('o, 'b) device"

definition on_config :: "('b config_state \<Rightarrow> 'b config_state) \<Rightarrow> ('o, 'b) device \<Rightarrow> ('o, 'b) device" where
  "on_config f s = s\<lparr>scc_world := f (scc_world s)\<rparr>"

definition set_config_number ::
    "('o, 'd, 'b) app \<Rightarrow> ConfigState \<Rightarrow> ('o, 'b) device \<Rightarrow> ('o, 'b) device" where
  "set_config_number ap c s = set_int (ap_scc ap) ''Config'' (config_number c) s"

definition log_error :: "('o, 'd, 'b) app \<Rightarrow> string \<Rightarrow> ('o, 'b) device \<Rightarrow> ('o, 'b) device" where
  "log_error ap message s = on_config (\<lambda>c. c\<lparr>cf_services := ap_log ap message (cf_services c)\<rparr>) s"

text \<open>A failed user function: the warning flag, and a log message.\<close>

definition warn :: "('o, 'd, 'b) app \<Rightarrow> string \<Rightarrow> ('o, 'b) device \<Rightarrow> ('o, 'b) device" where
  "warn ap message s = log_error ap message (SetWarning (ap_scc ap) True s)"

section \<open>Loading a configuration\<close>

text \<open>The attempts that are left; each overwrites the local configuration, with the data or with the error
  text.\<close>

fun load_attempts ::
    "('o, 'd, 'b) app \<Rightarrow> nat \<Rightarrow> nat \<Rightarrow> u64 \<Rightarrow> u64 \<Rightarrow> 'b config_state \<Rightarrow> bool \<times> 'b config_state" where
  "load_attempts ap 0 i base run_mode c = (False, c)"
| "load_attempts ap (Suc left) i base run_mode c =
     (let (ok, data, version, sv) = GetCachedDeviceConfig (ap_json ap) (ap_cc ap i) (to_int base)
            (to_int run_mode) (config_devicename c) None 0 (cf_services c);
          c = c\<lparr>cf_services := sv, m_local_config := data\<rparr>
      in if ok then (True, c) else load_attempts ap left (i + 1) base run_mode c)"

definition payload_number :: "('o, 'd, 'b) app \<Rightarrow> string \<Rightarrow> string \<Rightarrow> u64" where
  "payload_number ap payload key = of_int (got (get_number (ap_json ap payload) key) 0)"

definition LoadConfigAlertFunc ::
    "('o, 'd, 'b) app \<Rightarrow> string \<Rightarrow> ('o, 'b) device \<Rightarrow> bool \<times> ('o, 'b) device" where
  "LoadConfigAlertFunc ap payload s =
     (let base = payload_number ap payload ''Base'';
          run_mode = payload_number ap payload ''RunMode'';
          testing = got (ap_testing ap payload) False
      in if run_mode \<noteq> m_run_mode_config_id (scc_world s) \<or> base \<noteq> m_base_config_id (scc_world s) then
           let (ok, c) = load_attempts ap 5 0 base run_mode (scc_world s);
               s = s\<lparr>scc_world := c\<rparr>
           in if \<not> ok then (False, s)
              else (True, on_config (\<lambda>c. c\<lparr>m_base_config_id := base, m_run_mode_config_id := run_mode,
                                          cf_testing := testing\<rparr>) (set_int (ap_scc ap) ''NewConfig'' 1 s))
         else (True, s))"

definition LoadConfigSlowControlFunc ::
    "('o, 'd, 'b) app \<Rightarrow> string \<Rightarrow> ('o, 'b) device \<Rightarrow> string \<times> ('o, 'b) device" where
  "LoadConfigSlowControlFunc ap payload s =
     (let (success, s) = LoadConfigAlertFunc ap payload (set_config_number ap LoadStart s);
          s = set_config_number ap (if success then LoadEnd else LoadFail) s
      in (if success then ''Loaded config: '' @ payload else ''Failed to load config: '' @ payload, s))"

definition ResetConfigIDs :: "('o, 'b) device \<Rightarrow> ('o, 'b) device" where
  "ResetConfigIDs s = on_config (\<lambda>c. c\<lparr>m_base_config_id := 0, m_run_mode_config_id := 0\<rparr>) s"

definition SCLocalConfig :: "('o, 'b) device \<Rightarrow> string" where
  "SCLocalConfig s =
     (let c = scc_world s in
      ''base: '' @ nat_str (unat (m_base_config_id c)) @ '', runmode:'' @ nat_str (unat (m_run_mode_config_id c))
      @ '', testing:'' @ nat_str (of_bool (cf_testing c)) @ '', config: '' @ m_local_config c)"

definition SetLocalConfig :: "string \<Rightarrow> ('o, 'b) device \<Rightarrow> bool \<times> ('o, 'b) device" where
  "SetLocalConfig json s = (True, on_config (\<lambda>c. c\<lparr>m_local_config := json\<rparr>) s)"

definition GetLocalConfig :: "('o, 'b) device \<Rightarrow> string" where
  "GetLocalConfig s = m_local_config (scc_world s)"

section \<open>The functions behind alerts and controls\<close>

definition ChangeConfig_alert ::
    "('o, 'd, 'b) app \<Rightarrow> ('o, 'b) device \<Rightarrow> bool option \<times> ('o, 'b) device" where
  "ChangeConfig_alert ap s =
     (let old_testing = m_testing s;
          s = SetTesting (cf_testing (scc_world s)) s
      in case ap_change ap (m_local_config (scc_world s)) s of
        (None, s) \<Rightarrow> (None, s)
      | (Some True, s) \<Rightarrow> (Some True, s)
      | (Some False, s) \<Rightarrow> (Some False, warn ap ''ChangeConfig Error'' (SetTesting old_testing s)))"

definition ChangeConfig_button ::
    "('o, 'd, 'b) app \<Rightarrow> ('o, 'b) device \<Rightarrow> string option \<times> ('o, 'b) device" where
  "ChangeConfig_button ap s =
     (let s = set_config_number ap ChangeStart s in
      case ap_change ap (m_local_config (scc_world s)) s of
        (None, s) \<Rightarrow> (None, s)
      | (Some ok, s) \<Rightarrow>
          let s = (if ok then SetTesting (cf_testing (scc_world s)) s
                   else SetWarning (ap_scc ap) True (log_error ap ''ChangeConfig Error'' s));
              s = set_config_number ap (if ok then ChangeEnd else ChangeFail) s;
              s = set_int (ap_scc ap) ''NewConfig'' 0 s
          in (Some (if ok then ''OK'' else ''Error''), s))"

text \<open>A configuration that was not loaded from the database takes the place of the one that was.\<close>

definition replace_local :: "string \<Rightarrow> ('o, 'b) device \<Rightarrow> ('o, 'b) device" where
  "replace_local json s =
     (if m_local_config (scc_world s) \<noteq> json
      then ResetConfigIDs (on_config (\<lambda>c. c\<lparr>m_local_config := json\<rparr>) s) else s)"

definition ChangeToConfig_command ::
    "('o, 'd, 'b) app \<Rightarrow> string \<Rightarrow> ('o, 'b) device \<Rightarrow> string option \<times> ('o, 'b) device" where
  "ChangeToConfig_command ap payload s =
     (case ap_change ap payload (set_config_number ap ChangeStart s) of
        (None, s) \<Rightarrow> (None, s)
      | (Some ok, s) \<Rightarrow>
          let s = set_config_number ap (if ok then ChangeEnd else ChangeFail) s;
              s = (if ok then replace_local payload s else warn ap ''ChangeConfig Error'' s)
          in (Some (if ok then ''OK'' else ''Error''), s))"

definition RunStop_alert :: "('o, 'd, 'b) app \<Rightarrow> ('o, 'b) device \<Rightarrow> bool option \<times> ('o, 'b) device" where
  "RunStop_alert ap s =
     (case ap_stop ap (ResetConfigIDs s) of
        (None, s) \<Rightarrow> (None, s)
      | (Some True, s) \<Rightarrow> (Some True, s)
      | (Some False, s) \<Rightarrow> (Some False, warn ap ''RunStop Error'' s))"

definition RunStop_button :: "('o, 'd, 'b) app \<Rightarrow> ('o, 'b) device \<Rightarrow> string option \<times> ('o, 'b) device" where
  "RunStop_button ap s =
     (case ap_stop ap (ResetConfigIDs s) of
        (None, s) \<Rightarrow> (None, s)
      | (Some ok, s) \<Rightarrow>
          let s = (if ok then s else warn ap ''RunStop Error'' s)
          in (Some (if ok then ''OK'' else ''Error''), set_config_number ap Unconfigured s))"

definition run_export ::
    "('o, 'd, 'b) app \<Rightarrow> ('o, 'b) device \<Rightarrow> bool option \<times> ('o, 'b) device" where
  "run_export ap s =
     (case ap_export ap s of
        (None, s) \<Rightarrow> (None, s)
      | (Some (ok, json), s) \<Rightarrow>
          let s = on_config (\<lambda>c. c\<lparr>tmp_config := json\<rparr>) s
          in (Some ok, if ok then replace_local json s else warn ap ''ExportConfig Error'' s))"

definition ExportConfig_alert :: "('o, 'd, 'b) app \<Rightarrow> ('o, 'b) device \<Rightarrow> bool option \<times> ('o, 'b) device" where
  "ExportConfig_alert ap s = run_export ap s"

definition ExportConfig_button :: "('o, 'd, 'b) app \<Rightarrow> ('o, 'b) device \<Rightarrow> string option \<times> ('o, 'b) device" where
  "ExportConfig_button ap s =
     (case run_export ap s of
        (None, s) \<Rightarrow> (None, s)
      | (Some ok, s) \<Rightarrow> (Some (if ok then tmp_config (scc_world s) else ''Error''), s))"

section \<open>Registration and dispatch\<close>

text \<open>What the collection runs for each function; nested changes of the standard controls, which have no
  functions, use the environment \<open>ap_scc\<close>.\<close>

fun service_run ::
    "('o, 'd, 'b) app \<Rightarrow> control_fun \<Rightarrow> string \<Rightarrow> ('o, 'b) device \<Rightarrow> string option \<times> ('o, 'b) device" where
  "service_run ap LoadConfigControl text s =
     (let (reply, s) = LoadConfigSlowControlFunc ap text s in (Some reply, s))"
| "service_run ap LocalConfigControl text s = (Some (SCLocalConfig s), s)"
| "service_run ap ChangeConfigControl text s = ChangeConfig_button ap s"
| "service_run ap ChangeToConfigControl text s = ChangeToConfig_command ap text s"
| "service_run ap RunStopControl text s = RunStop_button ap s"
| "service_run ap ExportConfigControl text s = ExportConfig_button ap s"
| "service_run ap ClearStateControl text s = (Some ''OK'', ClearState (ap_scc ap) s)"
| "service_run ap (UserControl n) text s = se_run (ap_scc ap) (UserControl n) text s"

text \<open>A \<open>LoadConfig\<close> without payload makes a string of a null pointer, which throws.\<close>

fun service_alert ::
    "('o, 'd, 'b) app \<Rightarrow> alert_fun \<Rightarrow> string \<Rightarrow> string option \<Rightarrow> ('o, 'b) device
      \<Rightarrow> bool option \<times> ('o, 'b) device" where
  "service_alert ap LoadConfigAlert name payload s =
     (case payload of
        None \<Rightarrow> (None, s)
      | Some p \<Rightarrow> let (ok, s) = LoadConfigAlertFunc ap p s in (Some ok, s))"
| "service_alert ap ChangeConfigAlert name payload s = ChangeConfig_alert ap s"
| "service_alert ap RunStopAlert name payload s = RunStop_alert ap s"
| "service_alert ap ExportConfigAlert name payload s = ExportConfig_alert ap s"
| "service_alert ap (UserAlert n) name payload s = se_alert (ap_scc ap) (UserAlert n) name payload s"

definition service_env :: "('o, 'd, 'b) app \<Rightarrow> ('o, 'd, control_fun, alert_fun, 'b config_state) scc_env" where
  "service_env ap = (ap_scc ap)\<lparr>se_run := service_run ap, se_alert := service_alert ap,
     se_clear_state := ClearStateControl\<rparr>"

definition SetChangeConfigFunc :: "('o, 'd, 'b) app \<Rightarrow> ('o, 'b) device \<Rightarrow> bool \<times> ('o, 'b) device" where
  "SetChangeConfigFunc ap s =
     (let so = se_store (ap_scc ap);
          (allgood, s) = AlertSubscribe ''ChangeConfig'' (Some ChangeConfigAlert) s;
          (allgood, s) = (if allgood then Add so ''ChangeConfig'' BUTTON (Some ChangeConfigControl) None False False s
                          else (False, s))
      in if allgood then Add so ''ChangeToConfig'' COMMAND (Some ChangeToConfigControl) None True False s
         else (False, s))"

definition SetRunStopFunc :: "('o, 'd, 'b) app \<Rightarrow> ('o, 'b) device \<Rightarrow> bool \<times> ('o, 'b) device" where
  "SetRunStopFunc ap s =
     (let (allgood, s) = AlertSubscribe ''RunStop'' (Some RunStopAlert) s
      in if allgood then Add (se_store (ap_scc ap)) ''RunStop'' BUTTON (Some RunStopControl) None False False s
         else (False, s))"

definition SetExportConfigFunc :: "('o, 'd, 'b) app \<Rightarrow> ('o, 'b) device \<Rightarrow> bool \<times> ('o, 'b) device" where
  "SetExportConfigFunc ap s =
     (let (allgood, s) = AlertSubscribe ''ExportConfig'' (Some ExportConfigAlert) s
      in if allgood then Add (se_store (ap_scc ap)) ''ExportConfig'' BUTTON (Some ExportConfigControl) None False True s
         else (False, s))"

section \<open>Start, readiness and stop\<close>

text \<open>\<open>SlowControlCollection::Ready\<close> waits for the mutex that is released when the alert socket connects;
  \<open>connected_after\<close> is when that happens, in milliseconds from now.\<close>

definition SlowControl_Ready :: "nat option \<Rightarrow> int \<Rightarrow> bool" where
  "SlowControl_Ready connected_after timeout_ms =
     (case connected_after of None \<Rightarrow> False | Some t \<Rightarrow> int t \<le> timeout_ms)"

text \<open>\<open>elapsed\<close> is how long the backend took; it, not the time that is left, is passed on.\<close>

definition Services_Ready :: "bool \<Rightarrow> nat \<Rightarrow> nat option \<Rightarrow> bool" where
  "Services_Ready backend_ready elapsed connected_after =
     (if backend_ready then SlowControl_Ready connected_after (int elapsed) else False)"

text \<open>The period of the batches times the background thread and is no part of the state.\<close>

definition read_settings :: "config \<Rightarrow> 'b services \<Rightarrow> 'b services" where
  "read_settings cfg sv =
     sv\<lparr>mon_merge_period_ms := of_int (get_int cfg ''mon_merge_period_ms'' 1000),
        alarm_cooldown_ms := of_int (get_int cfg ''alarm_cooldown_ms'' 1000),
        MSS_SIZE := (case cfg_int cfg ''MTU'' of Some v \<Rightarrow> of_int v - 28 | None \<Rightarrow> MSS_SIZE sv)\<rparr>"

definition register_controls ::
    "('o, 'd :: linorder, 'b) app \<Rightarrow> ('o, 'b) device \<Rightarrow> ('o, 'b) device" where
  "register_controls ap s =
     (let so = se_store (ap_scc ap);
          s = snd (Add so ''State'' INFO None None False False s);
          s = set_int (service_env ap) ''State'' 0 s;
          s = snd (Add so ''LoadConfig'' COMMAND (Some LoadConfigControl) None False False s);
          s = snd (AlertSubscribe ''LoadConfig'' (Some LoadConfigAlert) s)
      in snd (Add so ''LocalConfig'' INFO None (Some LocalConfigControl) False True s))"

text \<open>\<open>None\<close> is an exception of a socket. Whether the services became ready within the waiting time only
  decides a warning.\<close>

definition Services_Init ::
    "('o, 'd :: linorder, backend) app \<Rightarrow> config \<Rightarrow> startup \<Rightarrow> bool \<Rightarrow> bool \<Rightarrow> ('o, backend) device
      \<Rightarrow> bool option \<times> ('o, backend) device" where
  "Services_Init ap cfg st new_service thread_ok s =
     (let s = on_config (\<lambda>c. c\<lparr>cf_services := read_settings cfg (cf_services c), config_devicename := []\<rparr>) s
      in case InitThreadedReceiver (service_env ap) (get_int cfg ''sc_port'' 60000) new_service
             (get_int cfg ''alert_receive_port'' 12243) (get_int cfg ''alerts_receive'' 1 \<noteq> 0)
             (get_int cfg ''alert_send_port'' 12242) (get_int cfg ''alerts_send'' 0 \<noteq> 0) s of
        (None, s) \<Rightarrow> (None, s)
      | (Some _, s) \<Rightarrow>
          let s = register_controls ap s;
              name = get_str cfg ''service_name'' ''test_service'';
              s = on_config (\<lambda>c. c\<lparr>cf_services := (cf_services c)\<lparr>sv_name := name\<rparr>\<rparr>) s
          in if name \<noteq> [] \<and> hd name = CHR ''('' then (Some False, s)
             else
               let (ok, b) = Initialise cfg st (sv_backend (cf_services (scc_world s)));
                   s = on_config (\<lambda>c. c\<lparr>config_devicename := get_str cfg ''config_name'' [],
                                       cf_services := (cf_services c)\<lparr>sv_backend := b\<rparr>\<rparr>) s
               in (Some (ok \<and> thread_ok), s))"

definition Services_stop ::
    "('o, 'd, backend) app \<Rightarrow> ('o, backend) device \<Rightarrow> ('o, backend) device" where
  "Services_stop ap s =
     on_config (\<lambda>c. c\<lparr>cf_services := (cf_services c)\<lparr>sv_backend := snd (Finalise (sv_backend (cf_services c)))\<rparr>\<rparr>)
       (Stop (service_env ap) s)"

section \<open>What loading guarantees\<close>

text \<open>The request of attempt \<open>i\<close>, and how the attempts went.\<close>

definition attempt ::
    "('o, 'd, 'b) app \<Rightarrow> nat \<Rightarrow> u64 \<Rightarrow> u64 \<Rightarrow> 'b config_state \<Rightarrow> bool \<times> string \<times> int option \<times> 'b services" where
  "attempt ap i base run_mode c =
     GetCachedDeviceConfig (ap_json ap) (ap_cc ap i) (to_int base) (to_int run_mode) (config_devicename c)
       None 0 (cf_services c)"

lemma load_attempts_Suc:
  "load_attempts ap (Suc left) i base run_mode c =
     (let (ok, data, version, sv) = attempt ap i base run_mode c;
          c = c\<lparr>cf_services := sv, m_local_config := data\<rparr>
      in if ok then (True, c) else load_attempts ap left (i + 1) base run_mode c)"
  by (simp add: attempt_def)

declare load_attempts.simps(2) [simp del]

lemma load_attempts_keeps:
  "load_attempts ap left i base run_mode c = (ok, c')
     \<Longrightarrow> m_base_config_id c' = m_base_config_id c \<and> m_run_mode_config_id c' = m_run_mode_config_id c
       \<and> cf_testing c' = cf_testing c \<and> config_devicename c' = config_devicename c"
proof (induction left arbitrary: i c)
  case 0
  then show ?case by simp
next
  case (Suc left)
  obtain ok1 data v sv where a: "attempt ap i base run_mode c = (ok1, data, v, sv)"
    by (cases "attempt ap i base run_mode c")
  show ?case
  proof (cases ok1)
    case True
    then show ?thesis using Suc.prems by (auto simp: load_attempts_Suc a)
  next
    case False
    then have "load_attempts ap left (i + 1) base run_mode (c\<lparr>cf_services := sv, m_local_config := data\<rparr>) = (ok, c')"
      using Suc.prems by (simp add: load_attempts_Suc a Let_def)
    from Suc.IH [OF this] show ?thesis by simp
  qed
qed

text \<open>The attempt that decided the outcome, and what it left in the local configuration.\<close>

lemma load_attempts_decided:
  "\<lbrakk>load_attempts ap left i base run_mode c = (ok, c'); 0 < left\<rbrakk>
     \<Longrightarrow> \<exists>j < left. \<exists>d v. attempt ap (i + j) base run_mode d = (ok, m_local_config c', v, cf_services c')"
proof (induction left arbitrary: i c)
  case 0
  then show ?case by simp
next
  case (Suc left)
  obtain ok1 data v sv where a: "attempt ap i base run_mode c = (ok1, data, v, sv)"
    by (cases "attempt ap i base run_mode c")
  let ?c = "c\<lparr>cf_services := sv, m_local_config := data\<rparr>"
  have eq: "(if ok1 then (True, ?c) else load_attempts ap left (i + 1) base run_mode ?c) = (ok, c')"
    using Suc.prems(1) by (simp add: load_attempts_Suc a Let_def)
  show ?case
  proof (cases "ok1 \<or> left = 0")
    case True
    then have "ok = ok1" "c' = ?c" using eq by (auto split: if_splits)
    then show ?thesis using a by (intro exI [of _ 0]) auto
  next
    case False
    then obtain j d v where "j < left" "attempt ap (i + 1 + j) base run_mode d = (ok, m_local_config c', v, cf_services c')"
      using Suc.IH [of "i + 1" ?c] eq by auto
    then show ?thesis by (intro exI [of _ "Suc j"]) auto
  qed
qed

lemma attempt_answered:
  assumes "attempt ap i base run_mode d = (True, data, v, sv)" and "ap_cc ap i = SendCommand env"
  shows "\<exists>row. row_answered env (Some row) \<and> get_text (ap_json ap row) ''data'' = Some data
    \<and> got (get_number (ap_json ap row) ''base_config_id'') (-1) = to_int base
    \<and> got (get_number (ap_json ap row) ''runmode_config_id'') (-1) = to_int run_mode"
proof -
  obtain row s1 where f: "fetch (SendCommand env) ''R_KACHEDDEVICECONFIG'' (device_or_self (cf_services d) (config_devicename d))
       (''GetCachedDeviceConfig error: config for device '' @ device_or_self (cf_services d) (config_devicename d) @ '' not found'')
       0 (cf_services d) = (Inr row, s1)"
    and ids: "got (get_number (ap_json ap row) ''base_config_id'') (-1) = to_int base"
    "got (get_number (ap_json ap row) ''runmode_config_id'') (-1) = to_int run_mode"
    and v: "version_and_data (ap_json ap row) row None s1 = (True, data, v, sv)"
    using assms(1) unfolding attempt_def assms(2) by (rule GetCached_True)
  have "get_text (ap_json ap row) ''data'' = Some data"
    using v by (simp add: version_and_data_def Let_def split: option.splits)
  then show ?thesis using bcc.fetch_answered [OF f] ids by blast
qed

lemma LoadConfigAlertFunc_cases:
  assumes "LoadConfigAlertFunc ap payload s = (ok, s')"
  defines "base \<equiv> payload_number ap payload ''Base''" and "run_mode \<equiv> payload_number ap payload ''RunMode''"
  obtains (same) "run_mode = m_run_mode_config_id (scc_world s)" "base = m_base_config_id (scc_world s)" "ok" "s' = s"
    | (loaded) c where "load_attempts ap 5 0 base run_mode (scc_world s) = (True, c)" "ok"
        "s' = on_config (\<lambda>c. c\<lparr>m_base_config_id := base, m_run_mode_config_id := run_mode,
                cf_testing := got (ap_testing ap payload) False\<rparr>) (set_int (ap_scc ap) ''NewConfig'' 1 (s\<lparr>scc_world := c\<rparr>))"
    | (failed) c where "load_attempts ap 5 0 base run_mode (scc_world s) = (False, c)" "\<not> ok" "s' = s\<lparr>scc_world := c\<rparr>"
        "run_mode \<noteq> m_run_mode_config_id (scc_world s) \<or> base \<noteq> m_base_config_id (scc_world s)"
proof -
  obtain r c where c: "load_attempts ap 5 0 base run_mode (scc_world s) = (r, c)"
    by (cases "load_attempts ap 5 0 base run_mode (scc_world s)")
  have eq: "LoadConfigAlertFunc ap payload s =
      (if run_mode \<noteq> m_run_mode_config_id (scc_world s) \<or> base \<noteq> m_base_config_id (scc_world s) then
         if \<not> r then (False, s\<lparr>scc_world := c\<rparr>)
         else (True, on_config (\<lambda>c. c\<lparr>m_base_config_id := base, m_run_mode_config_id := run_mode,
                cf_testing := got (ap_testing ap payload) False\<rparr>)
                (set_int (ap_scc ap) ''NewConfig'' 1 (s\<lparr>scc_world := c\<rparr>)))
       else (True, s))"
    using c unfolding LoadConfigAlertFunc_def base_def run_mode_def Let_def by simp
  note eq = eq [unfolded assms(1)]
  consider "run_mode = m_run_mode_config_id (scc_world s) \<and> base = m_base_config_id (scc_world s)"
    | "\<not> (run_mode = m_run_mode_config_id (scc_world s) \<and> base = m_base_config_id (scc_world s))" "r"
    | "\<not> (run_mode = m_run_mode_config_id (scc_world s) \<and> base = m_base_config_id (scc_world s))" "\<not> r"
    by blast
  then show thesis
  proof cases
    case 1
    show ?thesis by (rule same) (use 1 eq in simp_all)
  next
    case 2
    show ?thesis by (rule loaded [of c]) (use 2 eq c in simp_all)
  next
    case 3
    show ?thesis by (rule failed [of c]) (use 3 eq c in simp_all)
  qed
qed

lemma set_int_plain_world:
  assumes "plain_at k s"
  shows "scc_world (set_int env k v s) = scc_world s"
proof -
  obtain el where "om_lookup k (SC_vars s) = Some el" "el_change el = None"
    using assms unfolding plain_at_def by blast
  from set_int_plain [OF this, of env v] show ?thesis by simp
qed


text \<open>a failed load poisons the configuration that was active: it leaves the identifiers as they were but puts
  the error text of its last attempt in place of the local configuration, so that loading the
  previous configuration again is reported as done without asking the database, and the text stays.\<close>
theorem failed_load_poisons_previous:
  assumes "LoadConfigAlertFunc ap payload s = (False, s')"
    and "payload_number ap previous ''Base'' = m_base_config_id (scc_world s)"
    and "payload_number ap previous ''RunMode'' = m_run_mode_config_id (scc_world s)"
  shows "LoadConfigAlertFunc ap previous s' = (True, s')
    \<and> (\<exists>i d v sv. attempt ap i (payload_number ap payload ''Base'') (payload_number ap payload ''RunMode'') d
         = (False, GetLocalConfig s', v, sv))"
  using assms(1)
proof (cases rule: LoadConfigAlertFunc_cases)
  case (failed c)
  have k: "m_base_config_id c = m_base_config_id (scc_world s)" "m_run_mode_config_id c = m_run_mode_config_id (scc_world s)"
    using load_attempts_keeps [OF failed(1)] by simp_all
  have "LoadConfigAlertFunc ap previous s' = (True, s')"
    unfolding LoadConfigAlertFunc_def Let_def failed(3) using k assms(2,3) by simp
  moreover have "m_local_config (scc_world s') = m_local_config c" using failed(3) by simp
  ultimately show ?thesis
    using load_attempts_decided [OF failed(1)] unfolding GetLocalConfig_def by auto
qed simp_all

section \<open>An example\<close>

text \<open>A database that answers one row, for the identifiers 12 and 4, which the payload \<open>row\<close> asks for; the
  payload \<open>active\<close> asks for those that are active in the example, and \<open>demo_app_down\<close> gets no answer.\<close>

definition demo_config_json :: json_parser where
  "demo_config_json t =
     \<lparr>get_text = (\<lambda>k. if k = ''data'' then Some ''{}'' else None),
      get_number = (\<lambda>k. if k = ''Base'' then Some 12
         else if k = ''RunMode'' then Some (if t = ''active'' then 3 else 4) else if k = ''version'' then Some 5
         else if k = ''base_config_id'' then Some 12 else if k = ''runmode_config_id'' then Some 4 else None)\<rparr>"

definition demo_app :: "(demo_store_type, int, backend) app" where
  "demo_app =
     \<lparr>ap_scc = \<lparr>se_store = demo_store, se_run = (\<lambda>f t s. (Some [], s)), se_alert = (\<lambda>g n p s. (Some True, s)),
        se_clear_state = ClearStateControl, se_port_ok = (\<lambda>_. True), se_bind_ok = (\<lambda>_. True),
        se_monitor_ok = True, se_send_ok = (\<lambda>_. True), se_cctx = None, se_dctx = None\<rparr>,
      ap_json = demo_config_json, ap_testing = (\<lambda>_. None), ap_cc = (\<lambda>i. SendCommand (demo_env ''row'')),
      ap_log = (\<lambda>m sv. sv), ap_change = (\<lambda>c s. (Some True, s)), ap_stop = (\<lambda>s. (Some True, s)),
      ap_export = (\<lambda>s. (Some (True, []), s))\<rparr>"

definition demo_device :: "(demo_store_type, backend) device" where
  "demo_device =
     \<lparr>SC_vars = [(''NewConfig'', SlowControlElement_new demo_store ''NewConfig'' INFO None None False False)],
      m_alert_functions = [], scc_args = True, scc_util = True, m_thread = True, m_new_service = True,
      m_alerts_receive = True, m_alerts_send = False, m_testing = False, m_state = 0, scc_pub = False,
      pub_locked = False, scc_ports = Map.empty, scc_replies = [], scc_alerts = [], scc_crashed = False,
      scc_world = \<lparr>cf_services = demo_service, m_base_config_id = 12, m_run_mode_config_id = 3,
        cf_testing = False, m_local_config = ''old'', tmp_config = [], config_devicename = []\<rparr>\<rparr>"

lemma demo_payload:
  "payload_number demo_app ''row'' ''Base'' = 12" "payload_number demo_app ''row'' ''RunMode'' = 4"
  "payload_number demo_app ''active'' ''Base'' = 12" "payload_number demo_app ''active'' ''RunMode'' = 3"
  by (simp_all add: payload_number_def demo_app_def demo_config_json_def got_def)

lemma demo_fetch:
  "\<exists>b. fetch (SendCommand (demo_env ''row'')) ''R_KACHEDDEVICECONFIG'' name msg 0 demo_service
     = (Inr ''row'', demo_service\<lparr>sv_backend := b\<rparr>)"
  by (rule bcc.fetch_served) (simp_all add: topics_valid demo_env_serves)

lemma demo_load: "\<exists>s'. LoadConfigAlertFunc demo_app ''row'' demo_device = (True, s')"
proof -
  have "to_int 12 = 12" "to_int 4 = 4" by (simp_all add: to_int_def)
  then obtain v sv where "attempt demo_app 0 12 4 (scc_world demo_device) = (True, ''{}'', v, sv)"
    using demo_fetch [of "device_or_self demo_service []"
        "''GetCachedDeviceConfig error: config for device '' @ device_or_self demo_service [] @ '' not found''"]
    by (auto simp: attempt_def GetCachedDeviceConfig_def demo_device_def demo_app_def demo_config_json_def
        version_and_data_def got_def Let_def)
  then have "load_attempts demo_app 5 0 12 4 (scc_world demo_device)
      = (True, (scc_world demo_device)\<lparr>cf_services := sv, m_local_config := ''{}''\<rparr>)"
    using load_attempts_Suc [of demo_app 4 0 12 4 "scc_world demo_device"] by (simp add: Let_def)
  then show ?thesis
    by (simp add: LoadConfigAlertFunc_def demo_payload Let_def)
qed


definition demo_app_down :: "(demo_store_type, int, backend) app" where
  "demo_app_down = demo_app\<lparr>ap_cc := (\<lambda>i topic cmd results ms b. (False, results, ''timeout'', b))\<rparr>"

lemma demo_down_attempt:
  "attempt demo_app_down i 12 4 c = (False, ''timeout'', None, cf_services c)"
  by (simp add: attempt_def GetCachedDeviceConfig_def fetch_def demo_app_down_def)

lemma demo_down_attempts:
  "load_attempts demo_app_down (Suc left) i 12 4 c = (False, c\<lparr>m_local_config := ''timeout''\<rparr>)"
proof (induction left arbitrary: i c)
  case (Suc left)
  show ?case by (subst load_attempts_Suc) (simp add: demo_down_attempt Suc.IH)
qed (simp add: load_attempts_Suc demo_down_attempt)

lemma demo_device_ids:
  "m_base_config_id (scc_world demo_device) = 12" "m_run_mode_config_id (scc_world demo_device) = 3"
  by (simp_all add: demo_device_def)

lemma failed_load_poisons_previous_witness:
  "\<exists>s'. LoadConfigAlertFunc demo_app_down ''row'' demo_device = (False, s')
     \<and> LoadConfigAlertFunc demo_app_down ''active'' s' = (True, s') \<and> GetLocalConfig s' = ''timeout''"
proof -
  have p: "payload_number demo_app_down t k = payload_number demo_app t k" for t k
    by (simp add: payload_number_def demo_app_down_def)
  have a: "load_attempts demo_app_down 5 0 12 4 c = (False, c\<lparr>m_local_config := ''timeout''\<rparr>)" for c
    using demo_down_attempts [of 4 0 c] by simp
  define s' where "s' = demo_device\<lparr>scc_world := (scc_world demo_device)\<lparr>m_local_config := ''timeout''\<rparr>\<rparr>"
  have s': "LoadConfigAlertFunc demo_app_down ''row'' demo_device = (False, s')"
    by (simp add: LoadConfigAlertFunc_def p demo_payload a demo_device_ids s'_def)
  have "LoadConfigAlertFunc demo_app_down ''active'' s' = (True, s')"
    using failed_load_poisons_previous [OF s', of "''active''"] by (simp add: p demo_payload demo_device_ids)
  then show ?thesis using s' by (auto simp: GetLocalConfig_def s'_def)
qed

end
