(* ===== verification/ServiceDiscovery.thy ===== *)
theory ServiceDiscovery
  imports OrderedMap
begin

text \<open>
  The service discovery (\<open>ServiceDiscovery.cpp\<close>): a thread that publishes the services of a process in
  multicast beacons and takes commands from the rest of the process, and a thread that keeps the
  beacons heard from others and answers queries about them. The class \<open>Store\<close>, the UUIDs and the
  times of Boost are the record \<open>sd_lib\<close>, an argument. One turn of a thread is one definition; what
  polls and sockets did are its arguments.
\<close>

section \<open>The libraries\<close>

text \<open>\<open>'o\<close> is a store, \<open>'u\<close> a UUID. \<open>sd_get\<close> is \<open>Get\<close> into a string, \<open>sd_parse\<close> is \<open>JsonParser\<close>, which adds to
  a store, \<open>sd_write\<close> is \<open>operator>>\<close>; \<open>sd_time\<close> is \<open>from_iso_string\<close> in microseconds, \<open>None\<close> when it
  throws.\<close>

record ('o, 'u) sd_lib =
  sd_empty :: 'o
  sd_set_text :: "string \<Rightarrow> string \<Rightarrow> 'o \<Rightarrow> 'o"
  sd_set_int :: "string \<Rightarrow> int \<Rightarrow> 'o \<Rightarrow> 'o"
  sd_set_bool :: "string \<Rightarrow> bool \<Rightarrow> 'o \<Rightarrow> 'o"
  sd_get :: "string \<Rightarrow> 'o \<Rightarrow> string option"
  sd_get_bool :: "string \<Rightarrow> 'o \<Rightarrow> bool option"
  sd_erase :: "string \<Rightarrow> 'o \<Rightarrow> 'o"
  sd_parse :: "string \<Rightarrow> 'o \<Rightarrow> 'o"
  sd_write :: "'o \<Rightarrow> string"
  sd_uuid_text :: "'u \<Rightarrow> string"
  sd_uuid_read :: "string \<Rightarrow> 'u option"
  sd_time :: "string \<Rightarrow> int option"

text \<open>Text that JSON carries as it is: without control characters, quotes and backslashes.\<close>

definition plain_char :: "char \<Rightarrow> bool" where
  "plain_char c \<longleftrightarrow> 32 \<le> (of_char c :: nat) \<and> c \<noteq> CHR 0x22 \<and> c \<noteq> CHR 0x5C"

definition plain_text :: "string \<Rightarrow> bool" where
  "plain_text t \<longleftrightarrow> list_all plain_char t"

definition plain_store :: "('o, 'u) sd_lib \<Rightarrow> 'o \<Rightarrow> bool" where
  "plain_store lib o1 \<longleftrightarrow> (\<forall>k v. sd_get lib k o1 = Some v \<longrightarrow> plain_text k \<and> plain_text v)"

text \<open>What the code relies on: \<open>Get\<close> finds what \<open>Set\<close> put under a key, numbers as decimal text; a store of
  plain text is written as a JSON object and parsed back; a UUID is read from its text, which has no
  spaces.\<close>

definition is_space :: "char \<Rightarrow> bool" where
  "is_space c \<longleftrightarrow> (of_char c :: nat) = 32 \<or> 9 \<le> (of_char c :: nat) \<and> (of_char c :: nat) \<le> 13"

definition one_word :: "string \<Rightarrow> bool" where
  "one_word t \<longleftrightarrow> t \<noteq> [] \<and> list_all (\<lambda>c. \<not> is_space c) t"

definition sd_laws :: "('o, 'u) sd_lib \<Rightarrow> bool" where
  "sd_laws lib \<longleftrightarrow>
     (\<forall>k. sd_get lib k (sd_empty lib) = None)
     \<and> (\<forall>k j v s. sd_get lib k (sd_set_text lib j v s) = (if k = j then Some v else sd_get lib k s))
     \<and> (\<forall>k j i s. sd_get lib k (sd_set_int lib j i s) = (if k = j then Some (int_str i) else sd_get lib k s))
     \<and> (\<forall>k j b s. sd_get lib k (sd_set_bool lib j b s)
          = (if k = j then Some (nat_str (of_bool b)) else sd_get lib k s))
     \<and> (\<forall>k b s. sd_get_bool lib k (sd_set_bool lib k b s) = Some b)
     \<and> (\<forall>k j v s. k \<noteq> j \<longrightarrow> sd_get_bool lib k (sd_set_text lib j v s) = sd_get_bool lib k s)
     \<and> (\<forall>k j i s. k \<noteq> j \<longrightarrow> sd_get_bool lib k (sd_set_int lib j i s) = sd_get_bool lib k s)
     \<and> (\<forall>k j s. sd_get lib k (sd_erase lib j s) = (if k = j then None else sd_get lib k s))
     \<and> (\<forall>k s t. plain_store lib s \<longrightarrow> sd_get lib k (sd_parse lib (sd_write lib s) t)
          = (case sd_get lib k s of Some v \<Rightarrow> Some v | None \<Rightarrow> sd_get lib k t))
     \<and> (\<forall>s. plain_store lib s \<longrightarrow> (\<exists>rest. sd_write lib s = CHR ''{'' # rest) \<and> NUL \<notin> set (sd_write lib s))
     \<and> (\<forall>u. sd_uuid_read lib (sd_uuid_text lib u) = Some u \<and> one_word (sd_uuid_text lib u)
          \<and> plain_text (sd_uuid_text lib u))"

section \<open>Reading words and numbers from a stream\<close>

text \<open>\<open>operator>>\<close> into a string: the word and the rest; no word leaves the variable as it was.\<close>

definition read_word :: "string \<Rightarrow> string \<Rightarrow> string \<times> string" where
  "read_word old text =
     (let t = dropWhile is_space text in
      if t = [] then (old, []) else (takeWhile (\<lambda>c. \<not> is_space c) t, dropWhile (\<lambda>c. \<not> is_space c) t))"

text \<open>\<open>operator>>\<close> into an \<open>int\<close>: \<open>Inl\<close> the value with the stream failed, \<open>Inr\<close> the value and the rest.\<close>

definition read_int :: "string \<Rightarrow> int + int \<times> string" where
  "read_int text =
     (let t = dropWhile is_space text;
          (negative, t) = (case t of c # cs \<Rightarrow> if c = CHR ''-'' then (True, cs)
                             else if c = CHR ''+'' then (False, cs) else (False, t) | [] \<Rightarrow> (False, t));
          digits = takeWhile is_digit t;
          v = (if negative then - int (read_digits 0 digits) else int (read_digits 0 digits))
      in if digits = [] then Inl 0
         else if v < - (2 ^ 31) then Inl (- (2 ^ 31)) else if 2 ^ 31 \<le> v then Inl (2 ^ 31 - 1)
         else Inr (v, dropWhile is_digit t))"

text \<open>A command for the publisher. A variable that the stream does not reach is not initialised: \<open>junk\<close> is
  what it holds.\<close>

record 'u command =
  co_command :: string
  co_service :: string
  co_uuid :: 'u
  co_port :: int
  co_statusquery :: bool

definition parse_command :: "('o, 'u) sd_lib \<Rightarrow> 'u command \<Rightarrow> string \<Rightarrow> 'u command" where
  "parse_command lib junk text =
     (let (cmd, t) = read_word [] text;
          (service, t) = read_word [] t;
          (uuid_text, t) = read_word [] t;
          junk = junk\<lparr>co_command := cmd, co_service := service\<rparr>
      in case sd_uuid_read lib uuid_text of
        None \<Rightarrow> junk
      | Some uuid \<Rightarrow>
          let junk = junk\<lparr>co_uuid := uuid\<rparr> in
          (case dropWhile is_space t of
             [] \<Rightarrow> junk
           | t \<Rightarrow>
               (case read_int t of
                  Inl port \<Rightarrow> junk\<lparr>co_port := port\<rparr>
                | Inr (port, t) \<Rightarrow>
                    let junk = junk\<lparr>co_port := port\<rparr> in
                    (case dropWhile is_space t of
                       [] \<Rightarrow> junk
                     | t \<Rightarrow> junk\<lparr>co_statusquery := (case read_int t of Inl v \<Rightarrow> v \<noteq> 0 | Inr (v, _) \<Rightarrow> v \<noteq> 0)\<rparr>))))"

section \<open>The publisher\<close>

record 'o publisher =
  PubServices :: "'o list"
  pub_msg_id :: int
  pub_running :: bool

definition new_service :: "('o, 'u) sd_lib \<Rightarrow> string \<Rightarrow> int \<Rightarrow> bool \<Rightarrow> 'u \<Rightarrow> 'o" where
  "new_service lib service port statusquery uuid =
     (let bb = sd_set_text lib ''msg_type'' ''Service Discovery'' (sd_empty lib);
          bb = sd_set_text lib ''msg_value'' service bb;
          bb = sd_set_int lib ''remote_port'' port bb;
          bb = sd_set_bool lib ''status_query'' statusquery bb
      in sd_set_text lib ''uuid'' (sd_uuid_text lib uuid) bb)"

definition publisher_start :: "('o, 'u) sd_lib \<Rightarrow> string \<Rightarrow> int \<Rightarrow> 'u \<Rightarrow> 'o publisher" where
  "publisher_start lib service remote_port uuid =
     \<lparr>PubServices = [new_service lib service remote_port (remote_port \<noteq> 0) uuid], pub_msg_id = 0,
      pub_running = True\<rparr>"

fun remove_first :: "('a \<Rightarrow> bool) \<Rightarrow> 'a list \<Rightarrow> 'a list" where
  "remove_first P [] = []"
| "remove_first P (x # xs) = (if P x then xs else x # remove_first P xs)"

text \<open>A missing \<open>msg_value\<close> reads as the empty text. The ports belong to the first service.\<close>

definition publisher_command ::
    "('o, 'u) sd_lib \<Rightarrow> 'u command \<Rightarrow> string \<Rightarrow> 'o publisher \<Rightarrow> 'o publisher" where
  "publisher_command lib junk text p =
     (let c = parse_command lib junk text; service = co_service c in
      if co_command c = ''Quit'' then p\<lparr>pub_running := False\<rparr>
      else if co_command c = ''Add'' then
        p\<lparr>PubServices := PubServices p @ [new_service lib service (co_port c) (co_statusquery c) (co_uuid c)]\<rparr>
      else if co_command c = ''Delete'' then
        p\<lparr>PubServices := remove_first (\<lambda>s. got (sd_get lib ''msg_value'' s) [] = service) (PubServices p)\<rparr>
      else if co_command c = ''PortAdd'' then
        p\<lparr>PubServices := (case PubServices p of [] \<Rightarrow> [] | s # ss \<Rightarrow> sd_set_int lib service (co_port c) s # ss)\<rparr>
      else if co_command c = ''PortDelete'' then
        p\<lparr>PubServices := (case PubServices p of [] \<Rightarrow> [] | s # ss \<Rightarrow> sd_erase lib service s # ss)\<rparr>
      else p)"

text \<open>What became of the request for the status of a service: a signal interrupted the wait (the service is
  then skipped), no answer, or an answer.\<close>

datatype status_outcome = Interrupted | Silent | Replied string

definition status_text :: "('o, 'u) sd_lib \<Rightarrow> bool \<Rightarrow> status_outcome \<Rightarrow> string" where
  "status_text lib statusquery outcome =
     (case outcome of
        Replied reply \<Rightarrow>
          (case sd_get lib ''msg_value'' (sd_parse lib reply (sd_empty lib)) of
             Some status \<Rightarrow> if statusquery then status else ''N/A''
           | None \<Rightarrow> ''N/A'')
      | _ \<Rightarrow> ''N/A'')"

definition stamp_beacon :: "('o, 'u) sd_lib \<Rightarrow> int \<Rightarrow> string \<Rightarrow> string \<Rightarrow> 'o \<Rightarrow> 'o" where
  "stamp_beacon lib msg_id now status s =
     sd_set_text lib ''status'' status (sd_set_text lib ''msg_time'' now (sd_set_int lib ''msg_id'' msg_id s))"

text \<open>One round over the services: their new stores, the datagrams, and the counter. \<open>now\<close> is the clock when
  the service with that position is published, as text.\<close>

fun publish_all ::
    "('o, 'u) sd_lib \<Rightarrow> (nat \<Rightarrow> string) \<Rightarrow> (nat \<Rightarrow> status_outcome) \<Rightarrow> nat \<Rightarrow> int \<Rightarrow> 'o list
      \<Rightarrow> 'o list \<times> string list \<times> int" where
  "publish_all lib now outcome i msg_id [] = ([], [], msg_id)"
| "publish_all lib now outcome i msg_id (s # ss) =
     (let statusquery = got (sd_get_bool lib ''status_query'' s) False in
      if statusquery \<and> outcome i = Interrupted then
        let (ts, ds, n) = publish_all lib now outcome (i + 1) msg_id ss in (s # ts, ds, n)
      else
        let s = stamp_beacon lib (msg_id + 1) (now i) (status_text lib statusquery (outcome i)) s;
            (ts, ds, n) = publish_all lib now outcome (i + 1) (msg_id + 1) ss
        in (s # ts, (sd_write lib s @ [NUL]) # ds, n))"

definition publisher_round ::
    "('o, 'u) sd_lib \<Rightarrow> (nat \<Rightarrow> string) \<Rightarrow> (nat \<Rightarrow> status_outcome) \<Rightarrow> 'o publisher \<Rightarrow> string list \<times> 'o publisher" where
  "publisher_round lib now outcome p =
     (let (ss, datagrams, n) = publish_all lib now outcome 0 (pub_msg_id p) (PubServices p)
      in (datagrams, p\<lparr>PubServices := ss, pub_msg_id := n\<rparr>))"

text \<open>One turn: a command is taken first, and if there is one nothing is published.\<close>

definition publisher_turn ::
    "('o, 'u) sd_lib \<Rightarrow> 'u command \<Rightarrow> (nat \<Rightarrow> string) \<Rightarrow> (nat \<Rightarrow> status_outcome) \<Rightarrow> string option \<Rightarrow> bool
      \<Rightarrow> 'o publisher \<Rightarrow> string list \<times> 'o publisher" where
  "publisher_turn lib junk now outcome input writable p =
     (case input of
        Some text \<Rightarrow> ([], publisher_command lib junk text p)
      | None \<Rightarrow> if writable then publisher_round lib now outcome p else ([], p))"

section \<open>The listener\<close>

record 'o listener =
  RemoteServices :: "'o omap"
  sd_message :: string \<comment> \<open>the receive buffer\<close>
  sd_running :: bool

definition message_size :: nat where "message_size = 512"

text \<open>A datagram overwrites the front of the buffer and is cut off at its size. \<open>None\<close> is a read past the
  buffer.\<close>

definition receive_beacon :: "('o, 'u) sd_lib \<Rightarrow> string \<Rightarrow> string \<Rightarrow> 'o listener \<Rightarrow> 'o listener option" where
  "receive_beacon lib ip datagram s =
     (let message = take message_size datagram @ drop (length datagram) (sd_message s);
          s = s\<lparr>sd_message := message\<rparr>
      in if 0 < length datagram \<and> hd message = CHR ''{'' then
           (case c_string message of
              None \<Rightarrow> None
            | Some text \<Rightarrow>
                let newservice = sd_parse lib text (sd_set_text lib ''ip'' ip (sd_empty lib));
                    uuid = got (sd_get lib ''uuid'' newservice) []
                in Some (s\<lparr>RemoteServices := om_insert uuid newservice (RemoteServices s)\<rparr>))
         else Some s)"

text \<open>The age that is compared: minutes and seconds of the difference, without its hours.\<close>

definition shown_age :: "int \<Rightarrow> int \<Rightarrow> int" where
  "shown_age t2 t1 = (\<bar>t2 - t1\<bar> div 1000000) mod 3600"

definition msg_time_of :: "('o, 'u) sd_lib \<Rightarrow> 'o \<Rightarrow> int option" where
  "msg_time_of lib s =
     sd_time lib (filter (\<lambda>c. c \<noteq> CHR ''-'' \<and> c \<noteq> CHR '':'') (got (sd_get lib ''msg_time'' s) []))"

text \<open>\<open>clock\<close> is the time, in microseconds, when the service of that UUID is looked at; \<open>None\<close> is an
  exception, which ends the thread.\<close>

fun erase_list ::
    "('o, 'u) sd_lib \<Rightarrow> (string \<Rightarrow> int) \<Rightarrow> int \<Rightarrow> 'o omap \<Rightarrow> string list option" where
  "erase_list lib clock kicksec [] = Some []"
| "erase_list lib clock kicksec ((uuid, s) # m) =
     (case msg_time_of lib s of
        None \<Rightarrow> None
      | Some t2 \<Rightarrow>
          map_option (\<lambda>us. if kicksec < shown_age t2 (clock uuid) then uuid # us else us)
            (erase_list lib clock kicksec m))"

definition expire ::
    "('o, 'u) sd_lib \<Rightarrow> (string \<Rightarrow> int) \<Rightarrow> int \<Rightarrow> 'o listener \<Rightarrow> 'o listener option" where
  "expire lib clock kicksec s =
     map_option (\<lambda>us. s\<lparr>RemoteServices := fold om_delete us (RemoteServices s)\<rparr>)
       (erase_list lib clock kicksec (RemoteServices s))"

text \<open>The part of a turn that belongs to one multicast address: a datagram with its sender, if there is one.\<close>

definition listen ::
    "('o, 'u) sd_lib \<Rightarrow> (string \<times> string) option \<Rightarrow> (string \<Rightarrow> int) \<Rightarrow> int \<Rightarrow> 'o listener \<Rightarrow> 'o listener option" where
  "listen lib input clock kicksec s =
     Option.bind (case input of None \<Rightarrow> Some s | Some (ip, datagram) \<Rightarrow> receive_beacon lib ip datagram s)
       (expire lib clock kicksec)"

text \<open>Frames of a reply, after the identity of the asker, with the flag that more follow. The word read after
  \<open>Service\<close> or \<open>UUID\<close> replaces the name of the query itself.\<close>

type_synonym frame = "string \<times> bool"

definition all_frames :: "('o, 'u) sd_lib \<Rightarrow> 'o omap \<Rightarrow> frame list" where
  "all_frames lib m =
     (string_of_bytes (le_bytes 4 (length m)), m \<noteq> [])
     # map (\<lambda>(i, s). (sd_write lib s @ [NUL], i + 1 < length m)) (enumerate 0 (map snd m))"

definition matching_frames :: "('o, 'u) sd_lib \<Rightarrow> (string \<Rightarrow> bool) \<Rightarrow> string \<Rightarrow> string \<Rightarrow> 'o omap \<Rightarrow> frame list" where
  "matching_frames lib writable key wanted m =
     map (\<lambda>(uuid, s). (sd_write lib s @ [NUL], False))
       (filter (\<lambda>(uuid, s). wanted = got (sd_get lib key s) [] \<and> writable uuid) m)"

definition answer_query ::
    "('o, 'u) sd_lib \<Rightarrow> (string \<Rightarrow> bool) \<Rightarrow> string \<Rightarrow> 'o listener \<Rightarrow> frame list \<times> 'o listener" where
  "answer_query lib writable text s =
     (let m = RemoteServices s;
          (arg1, t) = read_word [] text;
          frames = (if arg1 = ''All'' then all_frames lib m else []);
          (arg1, arg2, t, frames) =
            (if arg1 = ''Service'' then
               let (arg1, t) = read_word arg1 t; (arg2, t) = read_word [] t
               in (arg1, arg2, t, frames @ matching_frames lib writable ''service'' arg2 m)
             else (arg1, [], t, frames));
          (arg1, arg2, t, frames) =
            (if arg1 = ''UUID'' then
               let (arg1, t) = read_word arg1 t; (arg2, t) = read_word arg2 t
               in (arg1, arg2, t, frames @ matching_frames lib writable ''uuid'' arg2 m)
             else (arg1, arg2, t, frames))
      in (frames, if arg1 = ''Quit'' then s\<lparr>sd_running := False\<rparr> else s))"

end
