(* ===== verification/DAQUtilities.thy ===== *)
theory DAQUtilities
  imports ServiceDiscovery
begin

text \<open>
  The helpers a tool uses to be found and to find others (\<open>DAQUtilities.cpp\<close>): the commands for the
  publisher of the service discovery, the connections made from the answers of its listener, threads
  that take messages, and the proxy that forwards messages from one socket to another.
\<close>

section \<open>Commands for the publisher\<close>

text \<open>The text of a message, before its terminating zero; the UUID is a new random one.\<close>

definition AddService_text :: "('o, 'u) sd_lib \<Rightarrow> string \<Rightarrow> 'u \<Rightarrow> u32 \<Rightarrow> bool \<Rightarrow> string" where
  "AddService_text lib ServiceName uuid port StatusQuery =
     ''Add '' @ ServiceName @ '' '' @ sd_uuid_text lib uuid @ '' '' @ nat_str (unat port) @ '' ''
     @ nat_str (of_bool StatusQuery)"

definition RemoveService_text :: "string \<Rightarrow> string" where
  "RemoveService_text ServiceName = ''Delete '' @ ServiceName @ '' ''"

definition AddPort_text :: "('o, 'u) sd_lib \<Rightarrow> string \<Rightarrow> 'u \<Rightarrow> u32 \<Rightarrow> string" where
  "AddPort_text lib ServiceName uuid port =
     ''PortAdd '' @ ServiceName @ '' '' @ sd_uuid_text lib uuid @ '' '' @ nat_str (unat port) @ '' 0''"

definition RemovePort_text :: "string \<Rightarrow> string" where
  "RemovePort_text ServiceName = ''PortDelete '' @ ServiceName @ '' ''"

text \<open>Several services at once: the messages sent, and whether all were; \<open>sent i\<close> is the outcome of a send.\<close>

definition AddServices ::
    "('o, 'u) sd_lib \<Rightarrow> string list \<Rightarrow> (nat \<Rightarrow> 'u) \<Rightarrow> u32 list \<Rightarrow> bool list \<Rightarrow> (nat \<Rightarrow> bool) \<Rightarrow> bool \<times> string list" where
  "AddServices lib names uuid ports queries sent =
     (if length names \<noteq> length ports \<or> length names \<noteq> length queries then (False, [])
      else let is = [0..<length names] in
        (list_all sent is,
         map (\<lambda>i. AddService_text lib (names ! i) (uuid i) (ports ! i) (queries ! i)) (filter sent is)))"

section \<open>Finding services\<close>

text \<open>The first frame of the answer to \<open>All\<close> holds the number of the frames that follow; each is read as a C
  string. \<open>None\<close>: a frame is missing, for which the code waits for ever, or has no terminating zero.\<close>

definition read_services :: "frame list \<Rightarrow> string list option" where
  "read_services frames =
     (case frames of
        [] \<Rightarrow> None
      | (number, _) # rest \<Rightarrow>
          let n = le_nat (bytes_of_string (take 4 number)) in
          if length rest < n then None
          else those (map (\<lambda>(text, _). c_string text) (take n rest)))"

definition GetServices :: "('o, 'u) sd_lib \<Rightarrow> frame list \<Rightarrow> 'o list option" where
  "GetServices lib frames = map_option (map (\<lambda>text. sd_parse lib text (sd_empty lib))) (read_services frames)"

text \<open>The port a service is to be reached at: the one given, or what the beacon has under \<open>port_name\<close>, or its
  \<open>remote_port\<close>.\<close>

definition remote_port_of :: "('o, 'u) sd_lib \<Rightarrow> string \<Rightarrow> string \<Rightarrow> 'o \<Rightarrow> string" where
  "remote_port_of lib port port_name service =
     (if port = [] \<and> port_name = [] then got (sd_get lib ''remote_port'' service) port
      else if port_name \<noteq> [] then got (sd_get lib port_name service) port
      else port)"

definition endpoint_of :: "('o, 'u) sd_lib \<Rightarrow> string \<Rightarrow> string \<Rightarrow> 'o \<Rightarrow> string" where
  "endpoint_of lib port port_name service =
     got (sd_get lib ''ip'' service) [] @ '':'' @ remote_port_of lib port port_name service"

definition wanted_service :: "('o, 'u) sd_lib \<Rightarrow> string \<Rightarrow> string \<Rightarrow> string \<Rightarrow> 'o \<Rightarrow> bool" where
  "wanted_service lib ServiceName port port_name service \<longleftrightarrow>
     remote_port_of lib port port_name service \<noteq> []
     \<and> (take (length ServiceName) (got (sd_get lib ''msg_value'' service) []) = ServiceName \<or> ServiceName = [])"

text \<open>The loop over the services: the map of connections and the endpoints connected to. \<open>connects\<close> says whether
  the socket accepts the endpoint; it throws otherwise (\<open>False\<close> as the first result).\<close>

fun connect_all ::
    "('o, 'u) sd_lib \<Rightarrow> (string \<Rightarrow> bool) \<Rightarrow> string \<Rightarrow> string \<Rightarrow> string \<Rightarrow> 'o list \<Rightarrow> 'o omap
      \<Rightarrow> bool \<times> 'o omap \<times> string list" where
  "connect_all lib connects name port port_name [] m = (True, m, [])"
| "connect_all lib connects name port port_name (s # ss) m =
     (let tmp = endpoint_of lib port port_name s in
      if wanted_service lib name port port_name s \<and> om_lookup tmp m = None then
        let m = om_insert tmp s m in
        if \<not> connects (''tcp://'' @ tmp) then (False, m, [])
        else let (ok, m, es) = connect_all lib connects name port port_name ss m in (ok, m, (''tcp://'' @ tmp) # es)
      else connect_all lib connects name port port_name ss m)"

text \<open>\<open>None\<close> as in \<open>read_services\<close>; otherwise the number returned (\<open>None\<close> for an exception), the connections and
  the endpoints.\<close>

definition UpdateConnections ::
    "('o, 'u) sd_lib \<Rightarrow> (string \<Rightarrow> bool) \<Rightarrow> string \<Rightarrow> string \<Rightarrow> string \<Rightarrow> frame list \<Rightarrow> 'o omap
      \<Rightarrow> (nat option \<times> 'o omap \<times> string list) option" where
  "UpdateConnections lib connects name port port_name frames m =
     map_option (\<lambda>services.
       let (ok, m, es) = connect_all lib connects name port port_name services m
       in (if ok then Some (length m) else None, m, es))
       (GetServices lib frames)"

section \<open>Threads that take messages\<close>

text \<open>The map from names to threads, \<open>None\<close> for a null pointer.\<close>

record string_thread =
  th_running :: bool
  th_kill :: bool
  th_sock :: bool \<comment> \<open>the sender has opened its socket\<close>
  th_inbox :: "string list"

definition CreateThread :: "string \<Rightarrow> string_thread option omap \<Rightarrow> bool \<times> string_thread option omap" where
  "CreateThread ThreadName Threads =
     (if om_lookup ThreadName Threads \<noteq> None then (False, Threads)
      else (True, om_insert ThreadName
             (Some \<lparr>th_running = True, th_kill = False, th_sock = False, th_inbox = []\<rparr>) Threads))"

text \<open>One turn of the thread: what its function is called with; \<open>None\<close> when it is paused or told to stop.\<close>

definition String_Thread :: "string_thread \<Rightarrow> string option \<times> string_thread" where
  "String_Thread t =
     (if th_kill t \<or> \<not> th_running t then (None, t)
      else case th_inbox t of
        [] \<Rightarrow> (Some [], t)
      | message # rest \<Rightarrow> (Some (takeWhile (\<lambda>c. c \<noteq> NUL) message), t\<lparr>th_inbox := rest\<rparr>))"

text \<open>A message for a name without a thread puts a null pointer under that name. \<open>sent\<close> is the outcome of the
  send.\<close>

definition MessageThread ::
    "string \<Rightarrow> string \<Rightarrow> bool \<Rightarrow> string_thread option omap \<Rightarrow> bool \<times> string_thread option omap" where
  "MessageThread ThreadName Message sent Threads =
     (case om_lookup ThreadName Threads of
        None \<Rightarrow> (False, om_insert ThreadName None Threads)
      | Some None \<Rightarrow> (False, Threads)
      | Some (Some t) \<Rightarrow>
          (sent, om_insert ThreadName
             (Some (t\<lparr>th_sock := True, th_inbox := (if sent then th_inbox t @ [Message @ [NUL]] else th_inbox t)\<rparr>))
             Threads))"

section \<open>The proxy\<close>

text \<open>One turn: the parts that arrived, each with the flag whether it was received, and how many sends succeed.
  Out come the parts sent, with the flag that more follow.\<close>

definition Proxy_Thread :: "bool option \<Rightarrow> (string \<times> bool) list \<Rightarrow> nat \<Rightarrow> (string \<times> bool) list" where
  "Proxy_Thread pause parts sends =
     (if pause = Some True \<or> parts = [] \<or> \<not> list_all snd parts then []
      else take sends (map (\<lambda>(i, part, _). (part, i + 1 < length parts)) (enumerate 0 parts)))"

end
