(* ===== verification/DiscoveryConnections.thy ===== *)
theory DiscoveryConnections
  imports DiscoveryProofs
begin

text \<open>
  Connections made from the list of services, queries for one service, threads that are messaged before
  they exist; and a small library, with which the properties of the service discovery are tried out.
\<close>

section \<open>Connections\<close>

definition wanted_endpoints :: "('o, 'u) sd_lib \<Rightarrow> string \<Rightarrow> string \<Rightarrow> string \<Rightarrow> 'o list \<Rightarrow> string set" where
  "wanted_endpoints lib name port port_name ss =
     endpoint_of lib port port_name ` {s \<in> set ss. wanted_service lib name port port_name s}"

definition connected :: "'o omap \<Rightarrow> string set" where
  "connected m = {e. om_lookup e m \<noteq> None}"

lemma wanted_endpoints_Cons:
  "wanted_endpoints lib name port pn (s # ss) =
     (if wanted_service lib name port pn s then insert (endpoint_of lib port pn s) (wanted_endpoints lib name port pn ss)
      else wanted_endpoints lib name port pn ss)"
  by (auto simp: wanted_endpoints_def)

lemma connected_insert: "om_wf m \<Longrightarrow> connected (om_insert e s m) = insert e (connected m)"
  by (auto simp: connected_def om_lookup_insert)

lemma connect_all_exact:
  assumes "om_wf m"
  shows "\<exists>m' new. connect_all lib (\<lambda>_. True) name port pn ss m = (True, m', map ((@) ''tcp://'') new) \<and> om_wf m'
    \<and> connected m' = connected m \<union> wanted_endpoints lib name port pn ss
    \<and> distinct new \<and> set new = wanted_endpoints lib name port pn ss - connected m
    \<and> (\<forall>e \<in> connected m. om_lookup e m' = om_lookup e m)"
  using assms
proof (induction ss arbitrary: m)
  case Nil
  show ?case using Nil by (auto simp: wanted_endpoints_def intro!: exI [of _ m] exI [of _ "[]"])
next
  case (Cons s ss)
  let ?e = "endpoint_of lib port pn s"
  show ?case
  proof (cases "wanted_service lib name port pn s \<and> om_lookup ?e m = None")
    case True
    have wf: "om_wf (om_insert ?e s m)" using Cons.prems by (rule om_wf_insert)
    obtain m' new where IH: "connect_all lib (\<lambda>_. True) name port pn ss (om_insert ?e s m) = (True, m', map ((@) ''tcp://'') new)"
      "om_wf m'" "connected m' = connected (om_insert ?e s m) \<union> wanted_endpoints lib name port pn ss"
      "distinct new" "set new = wanted_endpoints lib name port pn ss - connected (om_insert ?e s m)"
      "\<forall>e \<in> connected (om_insert ?e s m). om_lookup e m' = om_lookup e (om_insert ?e s m)"
      using Cons.IH [OF wf] by blast
    have e: "?e \<notin> connected m" using True by (simp add: connected_def)
    have keep: "\<forall>e \<in> connected m. om_lookup e m' = om_lookup e m"
      using IH(6) e by (auto simp: connected_insert [OF Cons.prems] om_lookup_insert [OF Cons.prems])
    show ?thesis
      using True IH(1-5) e keep
      by (intro exI [of _ m'] exI [of _ "?e # new"])
        (auto simp: wanted_endpoints_Cons connected_insert [OF Cons.prems] Let_def)
  next
    case False
    then have "connect_all lib (\<lambda>_. True) name port pn (s # ss) m = connect_all lib (\<lambda>_. True) name port pn ss m"
      and "connected m \<union> wanted_endpoints lib name port pn (s # ss) = connected m \<union> wanted_endpoints lib name port pn ss"
      and "wanted_endpoints lib name port pn (s # ss) - connected m = wanted_endpoints lib name port pn ss - connected m"
      by (auto simp: wanted_endpoints_Cons connected_def Let_def)
    then show ?thesis using Cons.IH [OF Cons.prems] by simp
  qed
qed

text \<open>C20: connections are made once to every service that is wanted: \<open>UpdateConnections\<close> connects to exactly the
  endpoints of the matching services it was not connected to, each once, keeps the connections there
  were, returns how many there are now, and a second update from the same list connects to nothing.\<close>
theorem connections_exact:
  assumes "GetServices lib frames = Some ss" and "om_wf m"
  shows "\<exists>m' new. UpdateConnections lib (\<lambda>_. True) name port port_name frames m
      = Some (Some (card (connected m')), m', map ((@) ''tcp://'') new)
    \<and> connected m' = connected m \<union> wanted_endpoints lib name port port_name ss
    \<and> distinct new \<and> set new = wanted_endpoints lib name port port_name ss - connected m
    \<and> (\<forall>e \<in> connected m. om_lookup e m' = om_lookup e m)
    \<and> UpdateConnections lib (\<lambda>_. True) name port port_name frames m' = Some (Some (card (connected m')), m', [])"
proof -
  obtain m' new where c: "connect_all lib (\<lambda>_. True) name port port_name ss m = (True, m', map ((@) ''tcp://'') new)"
    and m': "om_wf m'" "connected m' = connected m \<union> wanted_endpoints lib name port port_name ss"
    and new: "distinct new" "set new = wanted_endpoints lib name port port_name ss - connected m"
    and keep: "\<forall>e \<in> connected m. om_lookup e m' = om_lookup e m"
    using connect_all_exact [OF assms(2)] by blast
  have "connected m' = set (map fst m')"
    by (auto simp: connected_def om_lookup_def map_of_eq_None_iff)
  then have card: "length m' = card (connected m')"
    using om_keys_distinct [OF m'(1)] distinct_card by fastforce
  have same: "connect_all lib (\<lambda>_. True) name port port_name ts m' = (True, m', [])"
    if "wanted_endpoints lib name port port_name ts \<subseteq> connected m'" for ts
    using that by (induction ts) (auto simp: wanted_endpoints_Cons connected_def Let_def split: if_splits)
  have "wanted_endpoints lib name port port_name ss \<subseteq> connected m'" using m'(2) by blast
  then show ?thesis
    using assms(1) c same m'(2) new keep card
    by (intro exI [of _ m'] exI [of _ new]) (simp add: UpdateConnections_def)
qed

section \<open>Queries for one service\<close>

lemma query_UUID:
  assumes "one_word u" and "u \<noteq> ''Quit''"
  shows "answer_query lib writable (''UUID '' @ u) l = (matching_frames lib writable ''uuid'' [] (RemoteServices l), l)"
proof -
  have "read_word [] (''UUID '' @ u) = (''UUID'', CHR '' '' # u)"
    using read_word_word [of "''UUID''" "CHR '' '' # u" "[]"] by (simp add: one_word_def is_space_def)
  moreover have "read_word ''UUID'' (CHR '' '' # u) = (u, [])"
    using read_word_word [OF assms(1), of "[]"] by simp
  moreover have "read_word [] [] = ([], [])" by (simp add: read_word_def)
  ultimately show ?thesis using assms(2) by (simp add: answer_query_def)
qed

lemma query_Service:
  assumes "one_word n" and "n \<notin> {''Quit'', ''UUID''}"
  shows "answer_query lib writable (''Service '' @ n) l = (matching_frames lib writable ''service'' [] (RemoteServices l), l)"
proof -
  have "read_word [] (''Service '' @ n) = (''Service'', CHR '' '' # n)"
    using read_word_word [of "''Service''" "CHR '' '' # n" "[]"] by (simp add: one_word_def is_space_def)
  moreover have "read_word ''Service'' (CHR '' '' # n) = (n, [])"
    using read_word_word [OF assms(1), of "[]"] by simp
  moreover have "read_word [] [] = ([], [])" by (simp add: read_word_def)
  ultimately show ?thesis using assms(2) by (simp add: answer_query_def)
qed

text \<open>the queries for one service do not look at what they are asked for: the word after the name of the query
  is read in place of the name, so that \<open>UUID\<close> with the UUID of a known service finds none of the
  services, while \<open>Service\<close> with any name is answered with every one of them (a beacon has no key
  \<open>service\<close>).\<close>
theorem queries_ignore_argument:
  assumes "one_word u" and "u \<notin> {''Quit'', ''UUID''}"
    and "\<forall>o1 \<in> set (map snd (RemoteServices l)). uuid_of lib o1 \<noteq> [] \<and> sd_get lib ''service'' o1 = None"
  shows "fst (answer_query lib (\<lambda>_. True) (''UUID '' @ u) l) = []
    \<and> fst (answer_query lib (\<lambda>_. True) (''Service '' @ u) l)
      = map (\<lambda>o1. (sd_write lib o1 @ [NUL], False)) (map snd (RemoteServices l))"
proof -
  have m: "matching_frames lib (\<lambda>_. True) ''uuid'' [] m = []
      \<and> matching_frames lib (\<lambda>_. True) ''service'' [] m = map (\<lambda>o1. (sd_write lib o1 @ [NUL], False)) (map snd m)"
    if "\<forall>o1 \<in> set (map snd m). uuid_of lib o1 \<noteq> [] \<and> sd_get lib ''service'' o1 = None" for m
    using that by (induction m) (auto simp: matching_frames_def uuid_of_def)
  have "u \<noteq> ''Quit''" using assms(2) by simp
  then show ?thesis
    unfolding query_UUID [OF assms(1) \<open>u \<noteq> ''Quit''\<close>] query_Service [OF assms(1,2)] fst_conv
    by (intro m assms(3))
qed

section \<open>Threads\<close>

text \<open>A message for a name that has no thread blocks the name: no thread of that name can be created later.\<close>

lemma message_blocks_name:
  assumes "om_wf Threads" and "om_lookup name Threads = None"
  shows "fst (CreateThread name (snd (MessageThread name message sent Threads))) = False
    \<and> fst (CreateThread name Threads)"
  using assms by (simp add: MessageThread_def CreateThread_def om_lookup_insert)

end
