(* ===== verification/DiscoveryExamples.thy ===== *)
theory DiscoveryExamples
  imports DiscoveryConnections
begin

text \<open>
  A small library that has the laws of \<open>sd_laws\<close>, and the properties of the service discovery tried out
  on a publisher with one service. A store is a list of keys and values, the latest first, written with a
  quote after every text.
\<close>

section \<open>A library\<close>

fun quoted :: "string \<Rightarrow> string \<Rightarrow> string list" where
  "quoted acc [] = []"
| "quoted acc (c # cs) = (if c = CHR 0x22 then acc # quoted [] cs else quoted (acc @ [c]) cs)"

fun pair_up :: "string list \<Rightarrow> (string \<times> string) list" where
  "pair_up (k # v # rest) = (k, v) # pair_up rest"
| "pair_up _ = []"

definition demo_write :: "(string \<times> string) list \<Rightarrow> string" where
  "demo_write s = CHR ''{'' # concat (map (\<lambda>k. k @ CHR 0x22 # the (map_of s k) @ [CHR 0x22]) (remdups (map fst s)))"

definition demo_lib :: "((string \<times> string) list, nat) sd_lib" where
  "demo_lib =
     \<lparr>sd_empty = [], sd_set_text = (\<lambda>k v s. (k, v) # s), sd_set_int = (\<lambda>k i s. (k, int_str i) # s),
      sd_set_bool = (\<lambda>k b s. (k, nat_str (of_bool b)) # s), sd_get = (\<lambda>k s. map_of s k),
      sd_get_bool = (\<lambda>k s. map_option (\<lambda>t. t = nat_str 1) (map_of s k)),
      sd_erase = (\<lambda>k s. filter (\<lambda>(j, v). j \<noteq> k) s), sd_parse = (\<lambda>text s. pair_up (quoted [] (drop 1 text)) @ s),
      sd_write = demo_write, sd_uuid_text = nat_str,
      sd_uuid_read = (\<lambda>t. if t = [] then None else Some (read_digits 0 t)),
      sd_time = (\<lambda>t. Some (int (read_digits 0 t)))\<rparr>"

lemma demo_lib_sels [simp]:
  "sd_empty demo_lib = []" "sd_set_text demo_lib k v s = (k, v) # s" "sd_set_int demo_lib k i s = (k, int_str i) # s"
  "sd_set_bool demo_lib k b s = (k, nat_str (of_bool b)) # s" "sd_get demo_lib k s = map_of s k"
  "sd_get_bool demo_lib k s = map_option (\<lambda>t. t = nat_str 1) (map_of s k)"
  "sd_erase demo_lib k s = filter (\<lambda>(j, v). j \<noteq> k) s"
  "sd_parse demo_lib t s = pair_up (quoted [] (drop 1 t)) @ s" "sd_write demo_lib s = demo_write s"
  "sd_uuid_text demo_lib n = nat_str n"
  "sd_uuid_read demo_lib t = (if t = [] then None else Some (read_digits 0 t))"
  "sd_time demo_lib t = Some (int (read_digits 0 t))"
  by (simp_all add: demo_lib_def)

lemma quoted_plain: "CHR 0x22 \<notin> set t \<Longrightarrow> quoted acc (t @ CHR 0x22 # rest) = (acc @ t) # quoted [] rest"
  by (induction t arbitrary: acc) auto

lemma pair_up_written:
  "\<lbrakk>\<And>k. k \<in> set ks \<Longrightarrow> CHR 0x22 \<notin> set k \<and> CHR 0x22 \<notin> set (f k)\<rbrakk> \<Longrightarrow>
     pair_up (quoted [] (concat (map (\<lambda>k. k @ CHR 0x22 # f k @ [CHR 0x22]) ks))) = map (\<lambda>k. (k, f k)) ks"
  by (induction ks) (simp_all add: quoted_plain)

lemma map_of_graph: "map_of (map (\<lambda>k. (k, the (m k))) ks) j = (if j \<in> set ks then Some (the (m j)) else None)"
  by (induction ks) auto

lemma plain_textD: "plain_text t \<Longrightarrow> CHR 0x22 \<notin> set t \<and> NUL \<notin> set t"
proof -
  assume t: "plain_text t"
  have "\<not> plain_char CHR 0x22" "\<not> plain_char NUL" by (simp_all add: plain_char_def NUL_def)
  with t show ?thesis unfolding plain_text_def list_all_iff by blast
qed

lemma demo_visible:
  assumes "plain_store demo_lib s" and "k \<in> set (remdups (map fst s))"
  shows "plain_text k" "plain_text (the (map_of s k))"
proof -
  obtain v where v: "map_of s k = Some v"
    using assms(2) by (cases "map_of s k") (auto simp: map_of_eq_None_iff)
  then show "plain_text k" "plain_text (the (map_of s k))"
    using assms(1) v unfolding plain_store_def demo_lib_sels by auto
qed

lemma demo_parse_write:
  assumes "plain_store demo_lib s"
  shows "map_of (pair_up (quoted [] (drop 1 (demo_write s))) @ t) k
    = (case map_of s k of Some v \<Rightarrow> Some v | None \<Rightarrow> map_of t k)"
proof -
  have q: "\<And>k. k \<in> set (remdups (map fst s)) \<Longrightarrow> CHR 0x22 \<notin> set k \<and> CHR 0x22 \<notin> set (the (map_of s k))"
    using demo_visible [OF assms] plain_textD by blast
  have "drop 1 (demo_write s) = concat (map (\<lambda>k. k @ CHR 0x22 # the (map_of s k) @ [CHR 0x22]) (remdups (map fst s)))"
    by (simp add: demo_write_def)
  then have "pair_up (quoted [] (drop 1 (demo_write s))) = map (\<lambda>k. (k, the (map_of s k))) (remdups (map fst s))"
    using pair_up_written [OF q] by (simp only:)
  then have "map_of (pair_up (quoted [] (drop 1 (demo_write s)))) k
      = (if k \<in> fst ` set s then Some (the (map_of s k)) else None)"
    by (simp only: map_of_graph set_remdups set_map)
  moreover have "k \<in> fst ` set s \<longleftrightarrow> map_of s k \<noteq> None" by (simp add: map_of_eq_None_iff)
  ultimately show ?thesis by (auto simp: map_add_def)
qed

lemma demo_write_text:
  assumes "plain_store demo_lib s"
  shows "(\<exists>rest. demo_write s = CHR ''{'' # rest) \<and> NUL \<notin> set (demo_write s)"
  using demo_visible [OF assms] plain_textD by (auto simp: demo_write_def NUL_def)

lemma plain_nat_str: "plain_text (nat_str n)"
  using nat_str_digits [of n] by (auto simp: plain_text_def list_all_iff is_digit_def plain_char_def)

lemma demo_lib_laws: "sd_laws demo_lib"
proof -
  have e: "map_of (filter (\<lambda>(i, v). i \<noteq> j) s) k = (if k = j then None else map_of s k)" for j k and s :: "(string \<times> string) list"
    by (induction s) auto
  have b: "nat_str (of_bool b) = nat_str 1 \<longleftrightarrow> b" for b by (simp add: nat_str_inject)
  show ?thesis
    unfolding sd_laws_def
    using demo_parse_write demo_write_text one_word_nat_str plain_nat_str b
    by (simp add: e read_nat_str split: option.split)
qed

section \<open>The properties at an example\<close>

definition demo_junk :: "nat command" where
  "demo_junk = \<lparr>co_command = [], co_service = [], co_uuid = 0, co_port = 0, co_statusquery = False\<rparr>"

definition demo_publisher :: "(string \<times> string) list publisher" where
  "demo_publisher = publisher_start demo_lib ''daq'' 0 7"

definition demo_listener :: "(string \<times> string) list omap \<Rightarrow> (string \<times> string) list listener" where
  "demo_listener m = \<lparr>RemoteServices = m, sd_message = replicate 512 NUL, sd_running = True\<rparr>"

lemma registration_roundtrip_witness:
  "publisher_command demo_lib demo_junk (RemoveService_text ''hv'')
     (publisher_command demo_lib demo_junk (AddService_text demo_lib ''hv'' 9 5000 True) demo_publisher) = demo_publisher"
proof -
  have "one_word ''hv''" by (simp add: one_word_def is_space_def)
  moreover have "\<forall>s \<in> set (PubServices demo_publisher). got (sd_get demo_lib ''msg_value'' s) [] \<noteq> ''hv''"
    by (simp add: demo_publisher_def publisher_start_def new_service_get(1) [OF demo_lib_laws] del: demo_lib_sels)
  ultimately show ?thesis
    using registration_roundtrip [OF demo_lib_laws, where name = "''hv''" and port = 5000 and p = demo_publisher
        and junk = demo_junk and junk' = demo_junk and uuid = 9 and q = True]
    by simp
qed

lemma beacon_buffer_bound_witness:
  "receive_beacon demo_lib ''10.0.0.1'' (CHR ''{'' # replicate 600 CHR ''x'' @ [NUL]) (demo_listener []) = None
   \<and> receive_beacon demo_lib ''10.0.0.1'' (''{'' @ [NUL]) (demo_listener []) \<noteq> None"
  using beacon_buffer_bound [of "CHR ''{'' # replicate 600 CHR ''x''" "replicate 600 CHR ''x''" "demo_listener []" demo_lib "''10.0.0.1''"]
    beacon_buffer_bound [of "''{''" "[]" "demo_listener []" demo_lib "''10.0.0.1''"]
  by (simp add: demo_listener_def NUL_def om_wf_def)


text \<open>One service, after a round at 20250101T120000.\<close>

definition demo_round :: "string list \<times> (string \<times> string) list publisher" where
  "demo_round = publisher_round demo_lib (\<lambda>_. ''20250101T120000'') (\<lambda>_. Silent) demo_publisher"

definition demo_service_store :: "(string \<times> string) list" where
  "demo_service_store =
     [(''status'', ''N/A''), (''msg_time'', ''20250101T120000''), (''msg_id'', ''1''), (''uuid'', ''7''),
      (''status_query'', ''0''), (''remote_port'', ''0''), (''msg_value'', ''daq''), (''msg_type'', ''Service Discovery'')]"

lemma demo_numbers: "nat_str 0 = ''0''" "nat_str 1 = ''1''" "nat_str 7 = ''7''"
  by (simp_all add: nat_str.simps char_of_def bit_0)

lemma demo_round_result:
  "PubServices (snd demo_round) = [demo_service_store]"
  by (simp add: demo_round_def publisher_round_def demo_publisher_def publisher_start_def new_service_def
      stamp_beacon_def status_text_def Let_def demo_service_store_def int_str_def demo_numbers [simplified])

lemma demo_store_get:
  "map_of demo_service_store ''uuid'' = Some ''7''" "map_of demo_service_store ''service'' = None"
  "map_of demo_service_store ''msg_value'' = Some ''daq''"
  by (simp_all add: demo_service_store_def)

lemma demo_store_plain: "plain_store demo_lib demo_service_store"
proof -
  have "\<forall>(k, v) \<in> set demo_service_store. plain_text k \<and> plain_text v"
    by (simp add: demo_service_store_def plain_text_def plain_char_def)
  then show ?thesis unfolding plain_store_def demo_lib_sels by (blast dest: map_of_SomeD)
qed

lemma demo_hearable: "hearable demo_lib 60 (set [\<lambda>_. 20250101]) demo_service_store"
proof -
  have "msg_time_of demo_lib demo_service_store = Some 20250101"
    by (simp add: msg_time_of_def demo_service_store_def is_digit_def digit_val_def)
  moreover have "length (demo_write demo_service_store) < 512"
    by (simp add: demo_write_def demo_service_store_def)
  ultimately show ?thesis
    using demo_store_plain by (simp add: hearable_def stays_fresh_def shown_age_def)
qed

lemma published_services_are_found_witness:
  "\<exists>l' rs. listen_all demo_lib 60 (zip (map (\<lambda>d. Some (''10.0.0.1'', d)) (fst demo_round)) [\<lambda>_. 20250101]) (demo_listener []) = Some l'
     \<and> GetServices demo_lib (fst (answer_query demo_lib (\<lambda>_. True) ''All'' l')) = Some rs
     \<and> length rs = 1 \<and> (\<exists>r \<in> set rs. map_of r ''msg_value'' = Some ''daq'')"
proof -
  have r: "publisher_round demo_lib (\<lambda>_. ''20250101T120000'') (\<lambda>_. Silent) demo_publisher = (fst demo_round, snd demo_round)"
    by (simp add: demo_round_def)
  have ip: "plain_text ''10.0.0.1''" by (simp add: plain_text_def plain_char_def)
  obtain l' rs x where l': "listen_all demo_lib 60 (zip (map (\<lambda>d. Some (''10.0.0.1'', d)) (fst demo_round)) [\<lambda>_. 20250101]) (demo_listener []) = Some l'"
    "GetServices demo_lib (fst (answer_query demo_lib (\<lambda>_. True) ''All'' l')) = Some rs" "length rs = 1" "x \<in> set rs"
    and x: "\<forall>k. map_of x k = (case map_of demo_service_store k of Some v \<Rightarrow> Some v | None \<Rightarrow> if k = ''ip'' then Some ''10.0.0.1'' else None)"
    using published_services_are_found [OF demo_lib_laws r, where kicksec = 60 and ip = "''10.0.0.1''"
        and clocks = "[\<lambda>_. 20250101]" and l = "demo_listener []" and writable = "\<lambda>_. True"]
      demo_hearable ip
    by (auto simp: demo_round_result demo_listener_def)
  have "map_of x ''msg_value'' = Some ''daq''" using x demo_store_get by simp
  with l' show ?thesis by blast
qed

lemma connected_empty: "connected [] = {}"
  by (simp add: connected_def om_lookup_def)

lemma connections_exact_witness:
  "\<exists>m'. UpdateConnections demo_lib (\<lambda>_. True) ''daq'' ''5000'' [] (all_frames demo_lib [(''7'', demo_service_store)]) []
     = Some (Some 1, m', [''tcp://:5000''])"
proof -
  let ?fs = "all_frames demo_lib [(''7'', demo_service_store)]"
  define r where "r = sd_parse demo_lib (sd_write demo_lib demo_service_store) (sd_empty demo_lib)"
  have fs: "GetServices demo_lib ?fs = Some [r]"
    using all_services_read [OF demo_lib_laws, of "[(''7'', demo_service_store)]"] demo_store_plain
    by (simp add: r_def del: demo_lib_sels)
  have get: "map_of r k = map_of demo_service_store k" for k
    using sd_write_parse(1) [OF demo_lib_laws demo_store_plain, of k "sd_empty demo_lib"]
    by (simp add: r_def split: option.splits)
  have "map_of demo_service_store ''ip'' = None" by (simp add: demo_service_store_def)
  then have w: "wanted_endpoints demo_lib ''daq'' ''5000'' [] [r] = {'':5000''}"
    by (simp add: wanted_endpoints_Cons wanted_service_def endpoint_of_def remote_port_of_def get demo_store_get)
      (simp add: wanted_endpoints_def)
  show ?thesis
    using connections_exact [OF fs om.wf_empty, of "''daq''" "''5000''" "[]"]
  proof (elim exE conjE)
    fix m' new
    assume u: "UpdateConnections demo_lib (\<lambda>_. True) ''daq'' ''5000'' [] ?fs []
        = Some (Some (card (connected m')), m', map ((@) ''tcp://'') new)"
      and c: "connected m' = connected [] \<union> wanted_endpoints demo_lib ''daq'' ''5000'' [] [r]"
      and n: "distinct new" "set new = wanted_endpoints demo_lib ''daq'' ''5000'' [] [r] - connected []"
    have c': "connected m' = {'':5000''}" using c unfolding w connected_empty by simp
    have n': "set new = {'':5000''}" using n(2) unfolding w connected_empty by simp
    have "length new = Suc 0" using distinct_card [OF n(1)] unfolding n' by simp
    then obtain x where "new = [x]" by (auto simp: length_Suc_conv)
    then have "new = ['':5000'']" using n' by simp
    then show ?thesis using u c' by simp
  qed
qed

lemma queries_ignore_argument_witness:
  "fst (answer_query demo_lib (\<lambda>_. True) ''UUID 7'' (demo_listener [(''7'', demo_service_store)])) = []"
proof -
  have "one_word ''7''" by (simp add: one_word_def is_space_def)
  then show ?thesis
    using queries_ignore_argument [of "''7''" "demo_listener [(''7'', demo_service_store)]" demo_lib]
    by (simp add: demo_listener_def uuid_of_def demo_store_get)
qed

end
