(* ===== verification/DiscoveryLifecycle.thy ===== *)
theory DiscoveryLifecycle
  imports DiscoveryExamples
begin

text \<open>
  The service discovery from its construction to its end (\<open>ServiceDiscovery.cpp\<close>): which threads it starts, how
  they open their sockets, their loops, how the answers of the listener reach those who ask, and how the
  destructor ends the threads. What the system calls did is an argument.
\<close>

section \<open>Construction\<close>

record 'u sd_object =
  sdo_uuid :: 'u
  sdo_service :: string
  sdo_remoteport :: int
  sdo_send :: bool
  sdo_receive :: bool
  sdo_addresses :: "string list"
  sdo_ports :: "int list"
  sdo_pubsec :: int
  sdo_kicksec :: int

definition ServiceDiscovery_new ::
    "bool \<Rightarrow> bool \<Rightarrow> int \<Rightarrow> string list \<Rightarrow> int list \<Rightarrow> 'u \<Rightarrow> string \<Rightarrow> int \<Rightarrow> int \<Rightarrow> 'u sd_object" where
  "ServiceDiscovery_new Send Receive remoteport address multicastport uuid service pubsec kicksec =
     \<lparr>sdo_uuid = uuid, sdo_service = service, sdo_remoteport = remoteport, sdo_send = Send, sdo_receive = Receive,
      sdo_addresses = address, sdo_ports = multicastport, sdo_pubsec = pubsec, sdo_kicksec = kicksec\<rparr>"

definition ServiceDiscovery_one ::
    "bool \<Rightarrow> bool \<Rightarrow> int \<Rightarrow> string \<Rightarrow> int \<Rightarrow> 'u \<Rightarrow> string \<Rightarrow> int \<Rightarrow> int \<Rightarrow> 'u sd_object" where
  "ServiceDiscovery_one Send Receive remoteport address multicastport uuid service pubsec kicksec =
     ServiceDiscovery_new Send Receive remoteport [address] [multicastport] uuid service pubsec kicksec"

text \<open>Only listening; \<open>random\<close> is the UUID made for it.\<close>

definition ServiceDiscovery_listener :: "string list \<Rightarrow> int list \<Rightarrow> 'u \<Rightarrow> int \<Rightarrow> 'u sd_object" where
  "ServiceDiscovery_listener address multicastport random kicksec =
     \<lparr>sdo_uuid = random, sdo_service = ''none'', sdo_remoteport = 0, sdo_send = False, sdo_receive = True,
      sdo_addresses = address, sdo_ports = multicastport, sdo_pubsec = 0, sdo_kicksec = kicksec\<rparr>"

definition ServiceDiscovery_listener_one :: "string \<Rightarrow> int \<Rightarrow> 'u \<Rightarrow> int \<Rightarrow> 'u sd_object" where
  "ServiceDiscovery_listener_one address multicastport random kicksec =
     ServiceDiscovery_listener [address] [multicastport] random kicksec"

datatype sd_thread = Listen | Publish

definition started :: "'u sd_object \<Rightarrow> sd_thread list" where
  "started d = (if sdo_receive d then [Listen] else []) @ (if sdo_send d then [Publish] else [])"

section \<open>Sockets\<close>

text \<open>The ends of a process during start: \<open>exit\<close>, or an exception that nothing catches.\<close>

datatype ending = Exits | Throws

text \<open>The publisher sends to the first address only.\<close>

definition publisher_setup :: "bool \<Rightarrow> 'u sd_object \<Rightarrow> ending + string \<times> int" where
  "publisher_setup socket_ok d =
     (case (sdo_addresses d, sdo_ports d) of
        (a # _, p # _) \<Rightarrow> if socket_ok then Inr (a, p) else Inl Exits
      | _ \<Rightarrow> Inl Throws)"

datatype socket_outcome = Joined | No_socket | Not_bound | Not_joined

text \<open>The listener opens a socket per address; a missing port throws.\<close>

fun listener_setup :: "(nat \<Rightarrow> socket_outcome) \<Rightarrow> nat \<Rightarrow> string list \<Rightarrow> int list \<Rightarrow> ending + (string \<times> int) list" where
  "listener_setup outcome i [] ports = Inr []"
| "listener_setup outcome i (a # as) ports =
     (if outcome i = No_socket then Inl Exits
      else case ports of
        [] \<Rightarrow> Inl Throws
      | p # ps \<Rightarrow>
          if outcome i = Joined then
            (case listener_setup outcome (Suc i) as ps of Inl e \<Rightarrow> Inl e | Inr socks \<Rightarrow> Inr ((a, p) # socks))
          else Inl Exits)"

section \<open>Answers\<close>

text \<open>A router socket of ZeroMQ: the first frame of a message names the peer the rest goes to, and a message without
  a rest is ignored.\<close>

record router =
  ro_target :: "string option"
  ro_frames :: "string list"
  ro_delivered :: "(string \<times> string list) list"

definition router_send :: "frame \<Rightarrow> router \<Rightarrow> router" where
  "router_send f r =
     (case ro_target r of
        None \<Rightarrow> if snd f then r\<lparr>ro_target := Some (fst f), ro_frames := []\<rparr> else r
      | Some peer \<Rightarrow>
          if snd f then r\<lparr>ro_frames := ro_frames r @ [fst f]\<rparr>
          else r\<lparr>ro_target := None, ro_frames := [], ro_delivered := ro_delivered r @ [(peer, ro_frames r @ [fst f])]\<rparr>)"

definition serve_query ::
    "('o, 'u) sd_lib \<Rightarrow> (string \<Rightarrow> bool) \<Rightarrow> string \<Rightarrow> string \<Rightarrow> 'o listener \<times> router \<Rightarrow> 'o listener \<times> router" where
  "serve_query lib writable peer query sr =
     (let (s, r) = sr; (frames, s) = answer_query lib writable query s
      in (s, fold router_send ((peer, True) # frames) r))"

section \<open>The loops\<close>

text \<open>A turn of the listener: whether a signal interrupted the poll, for each socket its datagram and the clock, and
  the query with its sender. \<open>None\<close> is an exception or a read past the end of a message.\<close>

record listen_event =
  le_interrupted :: bool
  le_inputs :: "((string \<times> string) option \<times> (string \<Rightarrow> int)) list"
  le_query :: "(string \<times> string) option"
  le_writable :: "string \<Rightarrow> bool"

definition listener_turn ::
    "('o, 'u) sd_lib \<Rightarrow> int \<Rightarrow> listen_event \<Rightarrow> 'o listener \<times> router \<Rightarrow> ('o listener \<times> router) option" where
  "listener_turn lib kicksec ev sr =
     (if le_interrupted ev then Some sr
      else Option.bind (listen_all lib kicksec (le_inputs ev) (fst sr))
        (\<lambda>s. case le_query ev of
            None \<Rightarrow> Some (s, snd sr)
          | Some (peer, message) \<Rightarrow>
              map_option (\<lambda>query. serve_query lib (le_writable ev) peer query (s, snd sr)) (c_string message)))"

fun listener_loop ::
    "('o, 'u) sd_lib \<Rightarrow> int \<Rightarrow> listen_event list \<Rightarrow> 'o listener \<times> router \<Rightarrow> ('o listener \<times> router) option" where
  "listener_loop lib kicksec [] sr = Some sr"
| "listener_loop lib kicksec (ev # evs) sr =
     (if \<not> sd_running (fst sr) then Some sr
      else Option.bind (listener_turn lib kicksec ev sr) (listener_loop lib kicksec evs))"

text \<open>A turn of the publisher is skipped when a signal interrupted the poll.\<close>

record 'u publish_event =
  pe_interrupted :: bool
  pe_junk :: "'u command"
  pe_now :: "nat \<Rightarrow> string"
  pe_outcome :: "nat \<Rightarrow> status_outcome"
  pe_message :: "string option"
  pe_writable :: bool

fun publisher_loop ::
    "('o, 'u) sd_lib \<Rightarrow> 'u publish_event list \<Rightarrow> string list \<times> 'o publisher \<Rightarrow> (string list \<times> 'o publisher) option" where
  "publisher_loop lib [] sp = Some sp"
| "publisher_loop lib (ev # evs) sp =
     (if \<not> pub_running (snd sp) then Some sp
      else if pe_interrupted ev then publisher_loop lib evs sp
      else case pe_message ev of
        Some m \<Rightarrow>
          Option.bind (c_string m)
            (\<lambda>t. let (ds, p) = publisher_turn lib (pe_junk ev) (pe_now ev) (pe_outcome ev) (Some t) (pe_writable ev) (snd sp)
                 in publisher_loop lib evs (fst sp @ ds, p))
      | None \<Rightarrow>
          let (ds, p) = publisher_turn lib (pe_junk ev) (pe_now ev) (pe_outcome ev) None (pe_writable ev) (snd sp)
          in publisher_loop lib evs (fst sp @ ds, p))"

section \<open>The end\<close>

text \<open>What the destructor sends: to the publisher over its command socket, to the listener as a query.\<close>

definition quit_message :: string where
  "quit_message = ''Quit'' @ [NUL]"

definition quits :: "'u sd_object \<Rightarrow> (sd_thread \<times> string) list" where
  "quits d = (if sdo_send d then [(Publish, quit_message)] else []) @ (if sdo_receive d then [(Listen, quit_message)] else [])"

section \<open>Every started thread is told to end, and ends\<close>

lemma quit_is_read: "c_string quit_message = Some ''Quit''"
  unfolding quit_message_def by (rule c_string_terminated) (simp add: NUL_def)

lemma read_quit: "read_word old ''Quit'' = (''Quit'', [])"
  using read_word_word [of "''Quit''" "[]" old] by (simp add: one_word_def is_space_def)

lemma quits_started: "set (map fst (quits d)) = set (started d)"
  by (auto simp: quits_def started_def)

lemma listener_quits: "\<not> sd_running (fst (serve_query lib writable peer ''Quit'' sr))"
  by (simp add: serve_query_def answer_query_def read_quit split: prod.split)

lemma publisher_quits: "\<not> pub_running (snd (publisher_turn lib junk now outcome (Some ''Quit'') writable p))"
proof -
  have "read_word [] [] = ([], [])" by (simp add: read_word_def)
  then show ?thesis
    by (simp add: publisher_turn_def publisher_command_def parse_command_def read_quit Let_def split: option.split)
qed

lemma listener_loop_append:
  "listener_loop lib kicksec (es @ fs) sr = Option.bind (listener_loop lib kicksec es sr) (listener_loop lib kicksec fs)"
proof (induction es arbitrary: sr)
  case (Cons e es)
  have "\<not> sd_running (fst sr) \<Longrightarrow> listener_loop lib kicksec fs sr = Some sr" for fs :: "listen_event list"
    by (cases fs) auto
  then show ?case using Cons by (cases "listener_turn lib kicksec e sr") auto
qed simp

text \<open>A query to quit that is received ends the loop, whatever came before.\<close>

lemma listener_loop_ends:
  assumes "listener_loop lib kicksec (es @ [ev]) sr = Some sr'" and "\<not> le_interrupted ev" and "le_query ev = Some (peer, quit_message)"
  shows "\<not> sd_running (fst sr')"
proof -
  obtain sr1 where sr1: "listener_loop lib kicksec es sr = Some sr1" "listener_loop lib kicksec [ev] sr1 = Some sr'"
    using assms(1) by (auto simp: listener_loop_append bind_eq_Some_conv)
  show ?thesis
  proof (cases "sd_running (fst sr1)")
    case True
    then obtain s where "sr' = serve_query lib (le_writable ev) peer ''Quit'' (s, snd sr1)"
      using sr1(2) assms(2,3) by (auto simp: listener_turn_def bind_eq_Some_conv quit_is_read)
    then show ?thesis by (simp add: listener_quits)
  qed (use sr1(2) in simp)
qed

section \<open>Answers and who gets them\<close>

lemma router_send_idle:
  "ro_target r = None \<Longrightarrow> router_send (peer, True) r = r\<lparr>ro_target := Some peer, ro_frames := []\<rparr>"
  by (simp add: router_send_def)

text \<open>Frames that end with the last one are delivered to the peer named before.\<close>

lemma router_sends_message:
  assumes "ro_target r = Some peer" and "list_all snd fs" and "\<not> snd f"
  shows "fold router_send (fs @ [f]) r
    = r\<lparr>ro_target := None, ro_frames := [], ro_delivered := ro_delivered r @ [(peer, ro_frames r @ map fst fs @ [fst f])]\<rparr>"
  using assms
proof (induction fs arbitrary: r)
  case (Cons g gs)
  let ?r = "r\<lparr>ro_frames := ro_frames r @ [fst g]\<rparr>"
  have "router_send g r = ?r" using Cons.prems by (simp add: router_send_def)
  then show ?case using Cons.IH [of ?r] Cons.prems by simp
qed (simp add: router_send_def)

lemma all_frames_message:
  "\<exists>fs f. all_frames lib m = fs @ [f] \<and> list_all snd fs \<and> \<not> snd f"
proof (cases m rule: rev_cases)
  case Nil
  then show ?thesis by (intro exI [of _ "[]"]) (simp add: all_frames_def)
next
  case (snoc m' x)
  let ?fr = "\<lambda>(i, s). (sd_write lib s @ [NUL], i + 1 < length m)"
  have "enumerate 0 (map snd m) = enumerate 0 (map snd m') @ [(length m', snd x)]"
    using snoc by (simp add: enumerate_append_eq)
  moreover have "list_all (snd \<circ> ?fr) (enumerate 0 (map snd m'))"
    using snoc by (auto simp: list_all_iff in_set_enumerate_eq)
  ultimately show ?thesis
    using snoc by (intro exI [of _ "(string_of_bytes (le_bytes 4 (length m)), True) # map ?fr (enumerate 0 (map snd m'))"] exI [of _ "?fr (length m', snd x)"])
      (simp add: all_frames_def list.pred_map)
qed

lemma query_All: "answer_query lib writable ''All'' s = (all_frames lib (RemoteServices s), s)"
  using read_word_word [of "''All''" "[]"] by (simp add: answer_query_def one_word_def is_space_def)

lemma serve_All:
  assumes "ro_target r = None"
  shows "serve_query lib writable peer ''All'' (s, r)
    = (s, r\<lparr>ro_target := None, ro_frames := [], ro_delivered := ro_delivered r @ [(peer, map fst (all_frames lib (RemoteServices s)))]\<rparr>)"
proof -
  obtain fs f where f: "all_frames lib (RemoteServices s) = fs @ [f]" "list_all snd fs" "\<not> snd f"
    using all_frames_message [of lib "RemoteServices s"] by auto
  let ?r = "r\<lparr>ro_target := Some peer, ro_frames := []\<rparr>"
  have "fold router_send (fs @ [f]) ?r = r\<lparr>ro_target := None, ro_frames := [], ro_delivered := ro_delivered r @ [(peer, map fst (fs @ [f]))]\<rparr>"
    using router_sends_message [of ?r peer fs f] f(2,3) by simp
  then show ?thesis
    by (simp only: serve_query_def query_All f(1) prod.case Let_def fold.simps comp_apply router_send_idle [OF assms])
qed

definition all_message :: string where
  "all_message = ''All'' @ [NUL]"

lemma all_is_read: "c_string all_message = Some ''All''"
  unfolding all_message_def by (rule c_string_terminated) (simp add: NUL_def)

definition asked :: "listen_event \<Rightarrow> string list" where
  "asked ev = (if le_interrupted ev then [] else map fst (case le_query ev of None \<Rightarrow> [] | Some q \<Rightarrow> [q]))"

lemma listen_running: "listen lib input clock kicksec s = Some s' \<Longrightarrow> sd_running s' = sd_running s"
  by (auto simp: listen_def expire_def receive_beacon_def bind_eq_Some_conv Let_def split: option.splits if_splits prod.splits)

lemma listen_all_running: "listen_all lib kicksec xs s = Some s' \<Longrightarrow> sd_running s' = sd_running s"
  by (induction lib kicksec xs s rule: listen_all.induct) (auto simp: bind_eq_Some_conv dest: listen_running)

lemma turn_All:
  assumes "listener_turn lib kicksec ev (s, r) = Some (s', r')" and "ro_target r = None"
    and "\<forall>q \<in> set_option (le_query ev). snd q = all_message"
  shows "ro_target r' = None \<and> sd_running s' = sd_running s
    \<and> (\<exists>answers. ro_delivered r' = ro_delivered r @ answers \<and> map fst answers = asked ev
        \<and> (\<forall>a \<in> set answers. \<exists>m. snd a = map fst (all_frames lib m)))"
proof (cases "le_interrupted ev")
  case True
  then show ?thesis using assms(1,2) by (simp add: listener_turn_def asked_def)
next
  case False
  obtain s1 where s1: "listen_all lib kicksec (le_inputs ev) s = Some s1"
    using assms(1) False by (auto simp: listener_turn_def bind_eq_Some_conv)
  show ?thesis
  proof (cases "le_query ev")
    case None
    then show ?thesis using assms(1,2) False s1 listen_all_running [OF s1] by (simp add: listener_turn_def asked_def)
  next
    case (Some q)
    then have "(s', r') = serve_query lib (le_writable ev) (fst q) ''All'' (s1, r)"
      using assms(1,3) False s1 by (auto simp: listener_turn_def all_is_read split: prod.splits)
    then show ?thesis
      using Some False listen_all_running [OF s1] unfolding serve_All [OF assms(2)] asked_def by auto
  qed
qed


text \<open>a query without an answer takes the next one's: after a query \<open>UUID\<close>, which finds none of the services
  (whatever is asked for), the answer to the next asker goes to the first, with the address of the
  second in front, and the second gets nothing.\<close>
theorem unanswered_query_takes_next_answer:
  assumes "listener_loop lib kicksec [ev1, ev2] (s, r) = Some (s', r')" and "ro_target r = None" and "sd_running s"
    and "\<not> le_interrupted ev1" and "le_query ev1 = Some (first_asker, ''UUID '' @ u @ [NUL])" and "one_word u" and "NUL \<notin> set u" and "u \<noteq> ''Quit''"
    and "\<not> le_interrupted ev2" and "le_query ev2 = Some (second_asker, all_message)"
    and "\<And>s1. listen_all lib kicksec (le_inputs ev1) s = Some s1 \<Longrightarrow> \<forall>o1 \<in> set (map snd (RemoteServices s1)). uuid_of lib o1 \<noteq> []"
  shows "ro_delivered r' = ro_delivered r @ [(first_asker, second_asker # map fst (all_frames lib (RemoteServices s')))]"
proof -
  have c: "c_string (''UUID '' @ u @ [NUL]) = Some (''UUID '' @ u)"
    using c_string_terminated [of "''UUID '' @ u"] assms(7) by (simp add: NUL_def)
  obtain s1 where s1: "listen_all lib kicksec (le_inputs ev1) s = Some s1"
    using assms(1,3,4) by (auto simp: listener_turn_def bind_eq_Some_conv)
  have "matching_frames lib (le_writable ev1) ''uuid'' [] (RemoteServices s1) = []"
    using assms(11) [OF s1] by (auto simp: matching_frames_def filter_empty_conv uuid_of_def)
  then have q: "serve_query lib (le_writable ev1) first_asker (''UUID '' @ u) (s1, r) = (s1, r\<lparr>ro_target := Some first_asker, ro_frames := []\<rparr>)"
    using router_send_idle [OF assms(2)] unfolding serve_query_def query_UUID [OF assms(6,8)] by simp
  let ?r = "r\<lparr>ro_target := Some first_asker, ro_frames := []\<rparr>"
  have t: "listener_turn lib kicksec ev1 (s, r) = Some (s1, ?r)"
    using assms(4,5) s1 c q by (simp add: listener_turn_def)
  then obtain s2 where s2: "listen_all lib kicksec (le_inputs ev2) s1 = Some s2"
    "(s', r') = serve_query lib (le_writable ev2) second_asker ''All'' (s2, ?r)"
    using assms(1,3,9,10) listen_all_running [OF s1]
    by (auto simp: listener_turn_def all_is_read bind_eq_Some_conv)
  obtain fs f where f: "all_frames lib (RemoteServices s2) = fs @ [f]" "list_all snd fs" "\<not> snd f"
    using all_frames_message [of lib "RemoteServices s2"] by auto
  have "fold router_send (((second_asker, True) # fs) @ [f]) ?r = r\<lparr>ro_target := None, ro_frames := [],
      ro_delivered := ro_delivered r @ [(first_asker, second_asker # map fst (fs @ [f]))]\<rparr>"
    using router_sends_message [of ?r first_asker "(second_asker, True) # fs" f] f(2,3) by simp
  then show ?thesis
    using s2(2) unfolding serve_query_def query_All f(1) Let_def prod.case by (simp add: f(1))
qed

section \<open>Sockets that cannot be opened\<close>

text \<open>A listener with fewer ports than addresses ends the process, if all sockets before can be opened.\<close>

lemma missing_port_throws:
  assumes "length ports < length addresses" and "\<forall>k \<le> i + length ports. outcome k = Joined"
  shows "listener_setup outcome i addresses ports = Inl Throws"
  using assms
proof (induction addresses arbitrary: i ports)
  case (Cons a as)
  show ?case
  proof (cases ports)
    case (Cons p ps)
    then show ?thesis using Cons.IH [of ps "Suc i"] Cons.prems by simp
  qed (use Cons.prems in simp)
qed simp

lemma all_sockets_open:
  assumes "length addresses \<le> length ports" and "\<forall>k. outcome k = Joined"
  shows "listener_setup outcome i addresses ports = Inr (zip addresses ports)"
  using assms
proof (induction addresses arbitrary: i ports)
  case (Cons a as)
  then show ?case by (cases ports) auto
qed simp

section \<open>Examples\<close>

definition ask :: "string \<Rightarrow> string \<Rightarrow> listen_event" where
  "ask peer message = \<lparr>le_interrupted = False, le_inputs = [], le_query = Some (peer, message), le_writable = (\<lambda>_. True)\<rparr>"

definition idle_router :: router where
  "idle_router = \<lparr>ro_target = None, ro_frames = [], ro_delivered = []\<rparr>"

lemma ask_sels [simp]:
  "\<not> le_interrupted (ask p m)" "le_inputs (ask p m) = []" "le_query (ask p m) = Some (p, m)" "ro_target idle_router = None"
  "ro_delivered idle_router = []"
  by (simp_all add: ask_def idle_router_def)


lemma unanswered_query_takes_next_answer_witness:
  "\<exists>s r fs. listener_loop demo_lib 60 [ask ''A'' (''UUID 7'' @ [NUL]), ask ''B'' all_message]
       (demo_listener [(''7'', demo_service_store)], idle_router) = Some (s, r)
     \<and> ro_delivered r = [(''A'', ''B'' # fs)]"
proof -
  let ?l = "demo_listener [(''7'', demo_service_store)]"
  have run: "sd_running ?l" "RemoteServices ?l = [(''7'', demo_service_store)]" by (simp_all add: demo_listener_def)
  have c: "c_string (''UUID 7'' @ [NUL]) = Some ''UUID 7''" by (rule c_string_terminated) (simp add: NUL_def)
  have w: "one_word ''7''" "NUL \<notin> set ''7''" by (simp_all add: one_word_def is_space_def NUL_def)
  have u: "uuid_of demo_lib demo_service_store \<noteq> []" by (simp add: uuid_of_def demo_store_get)
  obtain s1 r1 where "serve_query demo_lib (\<lambda>_. True) ''A'' ''UUID 7'' (?l, idle_router) = (s1, r1)"
    by (cases "serve_query demo_lib (\<lambda>_. True) ''A'' ''UUID 7'' (?l, idle_router)")
  moreover have "s1 = ?l"
    using calculation query_UUID [OF w(1), of demo_lib "\<lambda>_. True" ?l] by (auto simp: serve_query_def split: prod.splits)
  moreover obtain s2 r2 where "serve_query demo_lib (\<lambda>_. True) ''B'' ''All'' (?l, r1) = (s2, r2)"
    by (cases "serve_query demo_lib (\<lambda>_. True) ''B'' ''All'' (?l, r1)")
  ultimately have l: "listener_loop demo_lib 60 [ask ''A'' (''UUID '' @ ''7'' @ [NUL]), ask ''B'' all_message] (?l, idle_router) = Some (s2, r2)"
    using run c by (simp add: listener_turn_def all_is_read ask_def)
  have "ro_delivered r2 = ro_delivered idle_router @ [(''A'', ''B'' # map fst (all_frames demo_lib (RemoteServices s2)))]"
    using run u by (intro unanswered_query_takes_next_answer [OF l _ _ _ _ w]) simp_all
  then show ?thesis using l by auto
qed

end
