(* ===== verification/DAQPointers.thy ===== *)
theory DAQPointers
  imports DAQUtilities
begin

text \<open>
  Pointers sent as text between the threads of a process, and the proxy threads that forward messages
  (\<open>DAQUtilities.h\<close>, \<open>DAQUtilities.cpp\<close>). A pointer is a 64-bit number.
\<close>

section \<open>Hexadecimal text\<close>

definition hex_digit :: "nat \<Rightarrow> char" where
  "hex_digit d = char_of (if d < 10 then 48 + d else 87 + d)"

fun hex_str :: "nat \<Rightarrow> string" where
  "hex_str n = (if n < 16 then [hex_digit n] else hex_str (n div 16) @ [hex_digit (n mod 16)])"

declare hex_str.simps [simp del]

definition hex_value :: "char \<Rightarrow> nat option" where
  "hex_value c =
     (let n = of_char c in
      if 48 \<le> n \<and> n < 58 then Some (n - 48)
      else if 97 \<le> n \<and> n < 103 then Some (n - 87)
      else if 65 \<le> n \<and> n < 71 then Some (n - 55) else None)"

definition is_hex :: "char \<Rightarrow> bool" where
  "is_hex c \<longleftrightarrow> hex_value c \<noteq> None"

fun read_hex :: "nat \<Rightarrow> string \<Rightarrow> nat" where
  "read_hex acc [] = acc"
| "read_hex acc (c # cs) = read_hex (16 * acc + got (hex_value c) 0) cs"

section \<open>Pointers\<close>

text \<open>How a stream shows a pointer that is not one to characters: with a prefix, the null pointer without.\<close>

definition pointer_text :: "u64 \<Rightarrow> string" where
  "pointer_text p = (if p = 0 then ''0'' else ''0x'' @ hex_str (unat p))"

definition SendPointer :: "u64 \<Rightarrow> string" where
  "SendPointer p = pointer_text p @ [NUL]"

text \<open>\<open>operator>>\<close> into an \<open>unsigned long\<close> after \<open>std::hex\<close>; \<open>junk\<close> is what the variable holds when the text is empty.\<close>

definition read_hex_u64 :: "u64 \<Rightarrow> string \<Rightarrow> u64" where
  "read_hex_u64 junk text =
     (let t = dropWhile is_space text;
          (negative, t) = (case t of c # cs \<Rightarrow> if c = CHR ''-'' then (True, cs)
                             else if c = CHR ''+'' then (False, cs) else (False, t) | [] \<Rightarrow> (False, t));
          digits = takeWhile is_hex (if take 2 t = ''0x'' \<or> take 2 t = ''0X'' then drop 2 t else t);
          n = read_hex 0 digits
      in if dropWhile is_space text = [] then junk
         else if 2 ^ 64 \<le> n then - 1
         else if negative then - of_nat n else of_nat n)"

definition ReceivePointer :: "u64 \<Rightarrow> string option \<Rightarrow> (unit, bool \<times> u64) cres" where
  "ReceivePointer junk message =
     (case message of
        None \<Rightarrow> Ok (False, 0)
      | Some m \<Rightarrow> (case c_string m of None \<Rightarrow> Fault | Some t \<Rightarrow> Ok (True, read_hex_u64 junk t)))"

section \<open>Proxies\<close>

text \<open>The arguments of a proxy thread: its two sockets, the flag that pauses it and the mutex, each \<open>None\<close> for a null
  pointer. \<open>create\<close> and \<open>kill\<close> are \<open>CreateThread\<close> and \<open>KillThread\<close> of the base library. The second result of
  killing is whether the arguments were freed.\<close>

record 's proxy_args =
  px_from :: "'s option"
  px_to :: "'s option"
  px_pause :: "bool option"
  px_mtx :: bool

definition ZMQProxy ::
    "(string \<Rightarrow> 's proxy_args \<Rightarrow> 't \<Rightarrow> bool \<times> 't) \<Rightarrow> string \<Rightarrow> 's option \<Rightarrow> 's option \<Rightarrow> bool option \<Rightarrow> bool \<Rightarrow> 't \<Rightarrow> bool \<times> 't" where
  "ZMQProxy create name from_sock to_sock pause mtx threads =
     (if from_sock = None \<or> to_sock = None then (False, threads)
      else create name \<lparr>px_from = from_sock, px_to = to_sock, px_pause = pause, px_mtx = mtx\<rparr> threads)"

definition KillZMQProxy_args :: "('a \<Rightarrow> bool) \<Rightarrow> 'a option \<Rightarrow> bool \<times> 'a option" where
  "KillZMQProxy_args kill arg =
     (case arg of None \<Rightarrow> (False, None) | Some a \<Rightarrow> if kill a then (True, Some a) else (False, None))"

definition KillZMQProxy :: "('a \<Rightarrow> bool) \<Rightarrow> string \<Rightarrow> 'a option omap \<Rightarrow> bool \<times> 'a option" where
  "KillZMQProxy kill name threads =
     (case om_lookup name threads of None \<Rightarrow> (False, None) | Some arg \<Rightarrow> KillZMQProxy_args kill arg)"

section \<open>A pointer arrives\<close>

lemma hex_value_digit: "d < 16 \<Longrightarrow> hex_value (hex_digit d) = Some d"
  by (auto simp: hex_value_def hex_digit_def Let_def)

lemma is_hex_digit: "d < 16 \<Longrightarrow> is_hex (hex_digit d)"
  by (simp add: is_hex_def hex_value_digit)

lemma hex_str_digits: "list_all is_hex (hex_str n)"
  by (induction n rule: hex_str.induct) (subst hex_str.simps, simp add: is_hex_digit)

lemma read_hex_append: "read_hex a (s @ t) = read_hex (read_hex a s) t"
  by (induction s arbitrary: a) auto

lemma read_hex_str: "read_hex 0 (hex_str n) = n"
proof (induction n rule: hex_str.induct)
  case (1 n)
  then show ?case
    by (subst hex_str.simps) (simp add: hex_value_digit read_hex_append)
qed

text \<open>a pointer sent to another thread of the process is the pointer received, for every value, null included.\<close>
theorem pointer_roundtrip: "ReceivePointer junk (Some (SendPointer p)) = Ok (True, p)"
proof -
  have nz: "NUL \<notin> set (hex_str n)" for n
  proof
    assume "NUL \<in> set (hex_str n)"
    then have "is_hex NUL" using hex_str_digits [of n] by (auto simp: list_all_iff)
    then show False by (simp add: is_hex_def hex_value_def NUL_def)
  qed
  have "NUL \<notin> set (pointer_text p)" using nz by (simp add: pointer_text_def NUL_def)
  then have c: "c_string (SendPointer p) = Some (pointer_text p)"
    unfolding SendPointer_def by (rule c_string_terminated)
  have zero: "\<not> is_space CHR ''0''" "is_hex CHR ''0''" "hex_value CHR ''0'' = Some 0" by (simp_all add: is_space_def is_hex_def hex_value_def)
  have "read_hex_u64 junk (pointer_text p) = p"
  proof (cases "p = 0")
    case True
    then show ?thesis using zero by (simp add: read_hex_u64_def pointer_text_def)
  next
    case False
    have "takeWhile is_hex (hex_str (unat p)) = hex_str (unat p)"
      using hex_str_digits [of "unat p"] by (simp add: takeWhile_eq_all_conv list_all_iff)
    then have "read_hex 0 (takeWhile is_hex (hex_str (unat p))) = unat p" by (simp only: read_hex_str)
    moreover have "unat p < 2 ^ 64" using unsigned_less [of p] by simp
    ultimately show ?thesis
      using False zero(1) by (simp add: read_hex_u64_def pointer_text_def Let_def)
  qed
  then show ?thesis using c by (simp add: ReceivePointer_def)
qed

end
