(* ===== verification/Zstd_Hash.thy ===== *)
theory Zstd_Hash
  imports Prelude
begin

text \<open>
  The checksum of the frames, XXH64 (part of \<open>zstd.c\<close>): the hash of a whole buffer, and the streaming
  form that takes the data in pieces and keeps up to 31 bytes back. Reading past a buffer does not
  arise: the loops look at the bytes left. Both give the same hash, however the data is cut up.
\<close>

unbundle bit_operations_syntax

section \<open>Rounds\<close>

definition XXH_PRIME64_1 :: u64 where "XXH_PRIME64_1 = 0x9E3779B185EBCA87"
definition XXH_PRIME64_2 :: u64 where "XXH_PRIME64_2 = 0xC2B2AE3D27D4EB4F"
definition XXH_PRIME64_3 :: u64 where "XXH_PRIME64_3 = 0x165667B19E3779F9"
definition XXH_PRIME64_4 :: u64 where "XXH_PRIME64_4 = 0x85EBCA77C2B2AE63"
definition XXH_PRIME64_5 :: u64 where "XXH_PRIME64_5 = 0x27D4EB2F165667C5"

definition XXH_rotl64 :: "u64 \<Rightarrow> nat \<Rightarrow> u64" where
  "XXH_rotl64 x r = push_bit r x OR drop_bit (64 - r) x"

definition XXH64_round :: "u64 \<Rightarrow> u64 \<Rightarrow> u64" where
  "XXH64_round acc input = XXH_rotl64 (acc + input * XXH_PRIME64_2) 31 * XXH_PRIME64_1"

definition XXH64_mergeRound :: "u64 \<Rightarrow> u64 \<Rightarrow> u64" where
  "XXH64_mergeRound acc val = (acc XOR XXH64_round 0 val) * XXH_PRIME64_1 + XXH_PRIME64_4"

definition XXH64_avalanche :: "u64 \<Rightarrow> u64" where
  "XXH64_avalanche hash =
     (let hash = (hash XOR drop_bit 33 hash) * XXH_PRIME64_2;
          hash = (hash XOR drop_bit 29 hash) * XXH_PRIME64_3
      in hash XOR drop_bit 32 hash)"

definition XXH_readLE64 :: "bytes \<Rightarrow> u64" where
  "XXH_readLE64 p = of_nat (le_nat (take 8 p))"

definition XXH_readLE32 :: "bytes \<Rightarrow> u64" where
  "XXH_readLE32 p = of_nat (le_nat (take 4 p))"

text \<open>The four lanes, and the loop that takes 32 bytes at a time while there are that many.\<close>

type_synonym lanes = "u64 \<times> u64 \<times> u64 \<times> u64"

definition XXH64_stripe :: "lanes \<Rightarrow> bytes \<Rightarrow> lanes" where
  "XXH64_stripe v p =
     (case v of (v1, v2, v3, v4) \<Rightarrow>
        (XXH64_round v1 (XXH_readLE64 p), XXH64_round v2 (XXH_readLE64 (drop 8 p)),
         XXH64_round v3 (XXH_readLE64 (drop 16 p)), XXH64_round v4 (XXH_readLE64 (drop 24 p))))"

fun XXH64_stripes :: "lanes \<Rightarrow> bytes \<Rightarrow> lanes \<times> bytes" where
  "XXH64_stripes v p = (if 32 \<le> length p then XXH64_stripes (XXH64_stripe v p) (drop 32 p) else (v, p))"

declare XXH64_stripes.simps [simp del]

definition XXH64_start :: "u64 \<Rightarrow> lanes" where
  "XXH64_start seed =
     (seed + XXH_PRIME64_1 + XXH_PRIME64_2, seed + XXH_PRIME64_2, seed + 0, seed - XXH_PRIME64_1)"

definition XXH64_merge :: "lanes \<Rightarrow> u64" where
  "XXH64_merge v =
     (case v of (v1, v2, v3, v4) \<Rightarrow>
        let h64 = XXH_rotl64 v1 1 + XXH_rotl64 v2 7 + XXH_rotl64 v3 12 + XXH_rotl64 v4 18
        in XXH64_mergeRound (XXH64_mergeRound (XXH64_mergeRound (XXH64_mergeRound h64 v1) v2) v3) v4)"

text \<open>The last bytes, eight, four and one at a time.\<close>

fun finalize_words :: "u64 \<Rightarrow> bytes \<Rightarrow> u64 \<times> bytes" where
  "finalize_words hash p =
     (if 8 \<le> length p then
        finalize_words (XXH_rotl64 (hash XOR XXH64_round 0 (XXH_readLE64 p)) 27 * XXH_PRIME64_1 + XXH_PRIME64_4) (drop 8 p)
      else (hash, p))"

fun finalize_bytes :: "u64 \<Rightarrow> bytes \<Rightarrow> u64" where
  "finalize_bytes hash [] = hash"
| "finalize_bytes hash (b # p) = finalize_bytes (XXH_rotl64 (hash XOR of_nat (unat b) * XXH_PRIME64_5) 11 * XXH_PRIME64_1) p"

declare finalize_words.simps [simp del]

definition XXH64_finalize :: "u64 \<Rightarrow> bytes \<Rightarrow> nat \<Rightarrow> u64" where
  "XXH64_finalize hash ptr len =
     (let (hash, p) = finalize_words hash (take (len mod 32) ptr);
          (hash, p) = (if 4 \<le> length p
            then (XXH_rotl64 (hash XOR XXH_readLE32 p * XXH_PRIME64_1) 23 * XXH_PRIME64_2 + XXH_PRIME64_3, drop 4 p)
            else (hash, p))
      in XXH64_avalanche (finalize_bytes hash p))"

section \<open>The hash of a buffer\<close>

definition XXH64 :: "bytes \<Rightarrow> u64 \<Rightarrow> u64" where
  "XXH64 input seed =
     (let len = length input;
          (h64, rest) =
            (if 32 \<le> len then let (v, p) = XXH64_stripes (XXH64_start seed) input in (XXH64_merge v, p)
             else (seed + XXH_PRIME64_5, input))
      in XXH64_finalize (h64 + of_nat len) rest len)"

section \<open>The streaming form\<close>

record XXH64_state =
  total_len :: u64
  xxh_v :: lanes
  mem64 :: bytes
  memsize :: nat

definition XXH64_reset :: "u64 \<Rightarrow> XXH64_state" where
  "XXH64_reset seed = \<lparr>total_len = 0, xxh_v = XXH64_start seed, mem64 = replicate 32 0, memsize = 0\<rparr>"

text \<open>\<open>None\<close> is a null pointer.\<close>

definition XXH64_update :: "bytes option \<Rightarrow> XXH64_state \<Rightarrow> XXH64_state" where
  "XXH64_update data s =
     (case data of
        None \<Rightarrow> s
      | Some input \<Rightarrow>
          let len = length input;
              s = s\<lparr>total_len := total_len s + of_nat len\<rparr>
          in if memsize s + len < 32 then
               s\<lparr>mem64 := take (memsize s) (mem64 s) @ input @ drop (memsize s + len) (mem64 s),
                 memsize := memsize s + len\<rparr>
             else
               let (s, p) =
                     (if memsize s \<noteq> 0 then
                        let mem = take (memsize s) (mem64 s) @ take (32 - memsize s) input
                        in (s\<lparr>mem64 := mem, xxh_v := XXH64_stripe (xxh_v s) mem, memsize := 0\<rparr>,
                            drop (32 - memsize s) input)
                      else (s, input));
                   (v, p) = XXH64_stripes (xxh_v s) p;
                   s = s\<lparr>xxh_v := v\<rparr>
               in if p \<noteq> [] then s\<lparr>mem64 := p @ drop (length p) (mem64 s), memsize := length p\<rparr> else s)"

definition XXH64_digest :: "XXH64_state \<Rightarrow> u64" where
  "XXH64_digest s =
     (let h64 = (if 32 \<le> total_len s then XXH64_merge (xxh_v s)
                 else (case xxh_v s of (v1, v2, v3, v4) \<Rightarrow> v3 + XXH_PRIME64_5))
      in XXH64_finalize (h64 + total_len s) (mem64 s) (unat (total_len s)))"

section \<open>Both agree\<close>

lemma stripes_length: "XXH64_stripes v p = (v', r) \<Longrightarrow> length r < 32 \<and> length r = length p mod 32"
proof (induction v p rule: XXH64_stripes.induct)
  case (1 v p)
  then show ?case
    by (cases "32 \<le> length p") (auto simp: XXH64_stripes.simps [of v p] le_mod_geq)
qed

lemma stripes_append:
  "XXH64_stripes v a = (v', r) \<Longrightarrow> XXH64_stripes v (a @ b) = XXH64_stripes v' (r @ b)"
proof (induction v a rule: XXH64_stripes.induct)
  case (1 v a)
  show ?case
  proof (cases "32 \<le> length a")
    case True
    have "XXH64_stripe v (a @ b) = XXH64_stripe v a"
      using True by (simp add: XXH64_stripe_def XXH_readLE64_def split: prod.split)
    then show ?thesis
      using True 1 by (simp add: XXH64_stripes.simps [of v a] XXH64_stripes.simps [of v "a @ b"])
  next
    case False
    then show ?thesis using 1(2) by (simp add: XXH64_stripes.simps [of v a])
  qed
qed

lemma stripes_one: "length p = 32 \<Longrightarrow> XXH64_stripes v (p @ q) = XXH64_stripes (XXH64_stripe v p) q"
proof -
  assume "length p = 32"
  then have "XXH64_stripe v (p @ q) = XXH64_stripe v p"
    by (simp add: XXH64_stripe_def XXH_readLE64_def split: prod.split)
  then show ?thesis using \<open>length p = 32\<close> by (simp add: XXH64_stripes.simps [of v "p @ q"])
qed

text \<open>What a state stands for: the lanes have taken all of the data but its last bytes, which are kept.\<close>

definition hashed :: "u64 \<Rightarrow> bytes \<Rightarrow> XXH64_state \<Rightarrow> bool" where
  "hashed seed data s \<longleftrightarrow>
     total_len s = of_nat (length data) \<and> length (mem64 s) = 32 \<and> memsize s < 32
     \<and> XXH64_stripes (XXH64_start seed) data = (xxh_v s, take (memsize s) (mem64 s))"

lemma hashed_reset: "hashed seed [] (XXH64_reset seed)"
  by (simp add: hashed_def XXH64_reset_def XXH64_stripes.simps)

lemma hashed_update:
  assumes h: "hashed seed data s"
  shows "hashed seed (data @ (case input of None \<Rightarrow> [] | Some i \<Rightarrow> i)) (XXH64_update input s)"
proof (cases input)
  case None
  then show ?thesis using h by (simp add: XXH64_update_def)
next
  case (Some i)
  let ?k = "take (memsize s) (mem64 s)"
  have len: "length ?k = memsize s" using h by (simp add: hashed_def)
  have st: "XXH64_stripes (XXH64_start seed) (data @ i) = XXH64_stripes (xxh_v s) (?k @ i)"
    using h by (intro stripes_append) (simp add: hashed_def)
  show ?thesis
  proof (cases "memsize s + length i < 32")
    case True
    then have "XXH64_stripes (xxh_v s) (?k @ i) = (xxh_v s, ?k @ i)"
      using len by (simp add: XXH64_stripes.simps)
    then show ?thesis
      using True Some h st by (simp add: XXH64_update_def hashed_def Let_def)
  next
    case False
    define q where "q = (if memsize s \<noteq> 0 then drop (32 - memsize s) i else i)"
    define w where "w = (if memsize s \<noteq> 0 then XXH64_stripe (xxh_v s) (?k @ take (32 - memsize s) i) else xxh_v s)"
    define m where "m = (if memsize s \<noteq> 0 then ?k @ take (32 - memsize s) i else mem64 s)"
    have lm: "length m = 32" using h False by (simp add: m_def hashed_def)
    have "XXH64_stripes (xxh_v s) (?k @ i) = XXH64_stripes w q"
    proof (cases "memsize s = 0")
      case False
      have "?k @ i = (?k @ take (32 - memsize s) i) @ q" using False by (simp add: q_def)
      moreover have "length (?k @ take (32 - memsize s) i) = 32" using lm False by (simp add: m_def)
      ultimately show ?thesis using False by (simp only: stripes_one w_def not_False_eq_True if_True)
    qed (simp add: q_def w_def)
    moreover obtain v r where vr: "XXH64_stripes w q = (v, r)" by (cases "XXH64_stripes w q")
    ultimately have st': "XXH64_stripes (XXH64_start seed) (data @ i) = (v, r)" using st by simp
    have "length r < 32" using stripes_length [OF vr] by blast
    have "XXH64_update input s =
        (if r \<noteq> [] then \<lparr>total_len = total_len s + of_nat (length i), xxh_v = v, mem64 = r @ drop (length r) m, memsize = length r\<rparr>
         else \<lparr>total_len = total_len s + of_nat (length i), xxh_v = v, mem64 = m, memsize = 0\<rparr>)"
      using False Some vr by (simp add: XXH64_update_def Let_def q_def w_def m_def split: if_splits)
    then show ?thesis
      using h Some st' lm \<open>length r < 32\<close> by (simp add: hashed_def)
  qed
qed

text \<open>C22: hashing in pieces is hashing the whole: however the data is cut into pieces, null pointers among them,
  feeding the pieces to the streaming form and asking for the digest gives the hash of all of the
  data at once.\<close>
theorem streaming_is_one_shot:
  assumes "length (concat (map (case_option [] (\<lambda>i. i)) pieces)) < 2 ^ 64"
  shows "XXH64_digest (fold XXH64_update pieces (XXH64_reset seed))
    = XXH64 (concat (map (case_option [] (\<lambda>i. i)) pieces)) seed"
proof -
  have gen: "hashed seed (data @ concat (map (case_option [] (\<lambda>i. i)) pieces)) (fold XXH64_update pieces s)"
    if "hashed seed data s" for data s
    using that
  proof (induction pieces arbitrary: data s)
    case (Cons i pieces)
    show ?case using Cons.IH [OF hashed_update [OF Cons.prems, of i]] by simp
  qed simp
  define data where "data = concat (map (case_option [] (\<lambda>i. i)) pieces)"
  define s where "s = fold XXH64_update pieces (XXH64_reset seed)"
  have h: "hashed seed data s" using gen [OF hashed_reset] by (simp add: data_def s_def)
  have n: "unat (total_len s) = length data"
    using h assms by (simp add: hashed_def data_def unat_of_nat take_bit_nat_eq_self)
  have ge: "32 \<le> total_len s \<longleftrightarrow> 32 \<le> length data"
    by (simp add: word_le_nat_alt n)
  have r: "length (take (memsize s) (mem64 s)) = length data mod 32"
    using h stripes_length [of "XXH64_start seed" data "xxh_v s" "take (memsize s) (mem64 s)"]
    unfolding hashed_def by blast
  then have m: "memsize s = length data mod 32" using h by (simp add: hashed_def)
  have small: "xxh_v s = XXH64_start seed" "take (memsize s) (mem64 s) = data" if "length data < 32"
    using h that by (simp_all add: hashed_def XXH64_stripes.simps [of _ data])
  have "XXH64_digest s = XXH64 data seed"
  proof (cases "32 \<le> length data")
    case True
    then show ?thesis
      using h ge n m by (simp add: XXH64_digest_def XXH64_def hashed_def Let_def XXH64_finalize_def)
  next
    case False
    then show ?thesis
      using h ge n m small by (simp add: XXH64_digest_def XXH64_def hashed_def Let_def XXH64_finalize_def XXH64_start_def)
  qed
  then show ?thesis by (simp add: s_def data_def)
qed

text \<open>The published test value of the empty text.\<close>

lemma XXH64_empty: "XXH64 [] 0 = 0xEF46DB3751D8E999"
  by (simp add: XXH64_def XXH64_finalize_def finalize_words.simps XXH64_avalanche_def XXH_PRIME64_2_def
      XXH_PRIME64_3_def XXH_PRIME64_5_def Let_def drop_bit_eq_div)

lemma streaming_is_one_shot_witness:
  "XXH64_digest (fold XXH64_update [Some [1, 2], None, Some [3]] (XXH64_reset 7)) = XXH64 [1, 2, 3] 7"
  using streaming_is_one_shot [of "[Some [1, 2], None, Some [3]]" 7] by simp

end
