(* ===== verification/Zstd_Bitstream.thy ===== *)
theory Zstd_Bitstream
  imports Zstd_Frame
begin

text \<open>
  The bit streams below the entropy coders (part of \<open>zstd.c\<close>): fields of up to 31 bits are collected in a
  register and written forward, and read backward, the last field first. Pointers are offsets into a
  buffer, the register has 64 bits. An assertion of the writer or of a reload that
  fails, and a write or a read outside the buffer, are \<open>Fault\<close>; looking at bits never leaves the register, and
  the widths it is asked for are below 32, as its assertion says.
\<close>

unbundle bit_operations_syntax

section \<open>The highest bit\<close>

definition DeBruijnClz :: "nat list" where
  "DeBruijnClz = [0, 9, 1, 10, 13, 21, 2, 29, 11, 14, 16, 18, 22, 25, 3, 30, 8, 12, 20, 28, 15, 17, 24, 7,
     19, 27, 23, 6, 26, 5, 4, 31]"

definition fill_right :: "u32 \<Rightarrow> u32" where
  "fill_right val =
     (let val = val OR drop_bit 1 val; val = val OR drop_bit 2 val; val = val OR drop_bit 4 val;
          val = val OR drop_bit 8 val
      in val OR drop_bit 16 val)"

definition ZSTD_countLeadingZeros32 :: "u32 \<Rightarrow> nat" where
  "ZSTD_countLeadingZeros32 val = 31 - DeBruijnClz ! unat (drop_bit 27 (fill_right val * 0x07C4ACDD))"

definition ZSTD_highbit32 :: "u32 \<Rightarrow> nat" where
  "ZSTD_highbit32 val = 31 - ZSTD_countLeadingZeros32 val"

lemma fill_step:
  fixes v w :: u32
  assumes "\<And>i. bit w i \<longleftrightarrow> (\<exists>j < n. bit v (i + j))"
  shows "bit (w OR drop_bit n w) i \<longleftrightarrow> (\<exists>j < n + n. bit v (i + j))"
proof -
  have "(\<exists>j < n + n. bit v (i + j)) \<longleftrightarrow> (\<exists>j < n. bit v (i + j)) \<or> (\<exists>j < n. bit v (n + i + j))" (is "?l \<longleftrightarrow> ?r")
  proof
    assume ?l
    then obtain j where j: "j < n + n" "bit v (i + j)" by blast
    show ?r
    proof (cases "j < n")
      case False
      then have "bit v (n + i + (j - n))" "j - n < n" using j by (simp_all add: ac_simps)
      then show ?thesis by blast
    qed (use j in blast)
  next
    assume ?r
    then show ?l
    proof
      assume "\<exists>j < n. bit v (n + i + j)"
      then obtain j where "j < n" "bit v (i + (n + j))" by (auto simp: ac_simps)
      then show ?l by (intro exI [of _ "n + j"]) simp
    qed (use trans_less_add1 in blast)
  qed
  then show ?thesis by (simp only: bit_or_iff bit_drop_bit_eq comp_apply assms)
qed

lemma bit_fill_right: "bit (fill_right v) i \<longleftrightarrow> (\<exists>j < 32. bit v (i + j))"
proof -
  have 0: "bit v i \<longleftrightarrow> (\<exists>j < 1. bit v (i + j))" for i by simp
  note 1 = fill_step [OF 0, simplified one_add_one]
  note 2 = fill_step [OF 1, unfolded numeral_plus_numeral add_num_simps]
  note 4 = fill_step [OF 2, unfolded numeral_plus_numeral add_num_simps]
  note 8 = fill_step [OF 4, unfolded numeral_plus_numeral add_num_simps]
  note 16 = fill_step [OF 8, unfolded numeral_plus_numeral add_num_simps]
  show ?thesis unfolding fill_right_def Let_def by (rule 16)
qed

lemma all_below_32: "(\<forall>k < 32. P k) \<longleftrightarrow> list_all P [0..<32]"
  by (auto simp: list_all_iff)

lemma DeBruijnClz_mask: "k < 32 \<Longrightarrow> DeBruijnClz ! unat (drop_bit 27 (mask (Suc k) * 0x07C4ACDD :: u32)) = k"
proof -
  have "\<forall>k < 32. DeBruijnClz ! unat (drop_bit 27 (mask (Suc k) * 0x07C4ACDD :: u32)) = k"
    unfolding all_below_32 by code_simp
  then show "k < 32 \<Longrightarrow> ?thesis" by blast
qed

text \<open>The multiplication by the de Bruijn number finds the highest bit.\<close>

lemma highbit32_eq:
  fixes v :: u32
  assumes "2 ^ k \<le> unat v" and "unat v < 2 ^ Suc k"
  shows "ZSTD_highbit32 v = k"
proof -
  have "(2 :: nat) ^ k < 2 ^ 32" using assms(1) unsigned_less [of v, where ?'a = nat] by simp
  then have k: "k < 32" by (simp only: power_strict_increasing_iff one_less_numeral_iff semiring_norm)
  have b: "bit (unat v) i \<longleftrightarrow> bit v i" for i by (simp add: bit_unsigned_iff)
  have top: "bit v k"
  proof -
    have "unat v div 2 ^ k = 1"
      using assms by (intro div_nat_eqI) simp_all
    then have "bit (unat v) k" by (simp add: bit_iff_odd)
    then show ?thesis by (simp add: b)
  qed
  have above: "\<not> bit v i" if "k < i" for i
  proof -
    have "(2 :: nat) ^ Suc k \<le> 2 ^ i" using that by (intro power_increasing) simp_all
    then have "unat v div 2 ^ i = 0" using assms(2) by simp
    then show ?thesis unfolding b [symmetric] by (simp add: bit_iff_odd)
  qed
  have "fill_right v = mask (Suc k)"
  proof (rule bit_eqI)
    fix i
    have "(\<exists>j < 32. bit v (i + j)) \<longleftrightarrow> i \<le> k"
      using top above k by (auto intro: exI [of _ "k - i"] dest: leI)
        (metis add_leD1 linorder_not_less above)
    then show "bit (fill_right v) i \<longleftrightarrow> bit (mask (Suc k) :: u32) i"
      using k by (auto simp: bit_fill_right bit_mask_iff)
  qed
  then show ?thesis using k DeBruijnClz_mask [OF k] by (simp add: ZSTD_highbit32_def ZSTD_countLeadingZeros32_def)
qed

section \<open>Writing\<close>

record cstream =
  bc_container :: u64
  bc_bitPos :: nat
  bc_ptr :: nat
  bc_endPtr :: nat
  bc_buf :: bytes

definition BIT_mask :: "u32 list" where
  "BIT_mask = [0, 1, 3, 7, 0xF, 0x1F, 0x3F, 0x7F, 0xFF, 0x1FF, 0x3FF, 0x7FF, 0xFFF, 0x1FFF, 0x3FFF, 0x7FFF,
     0xFFFF, 0x1FFFF, 0x3FFFF, 0x7FFFF, 0xFFFFF, 0x1FFFFF, 0x3FFFFF, 0x7FFFFF, 0xFFFFFF, 0x1FFFFFF, 0x3FFFFFF,
     0x7FFFFFF, 0xFFFFFFF, 0x1FFFFFFF, 0x3FFFFFFF, 0x7FFFFFFF]"

definition BIT_initCStream :: "bytes \<Rightarrow> cstream zres" where
  "BIT_initCStream buf =
     check_that (length buf \<le> 8) dstSize_tooSmall
       (Ok \<lparr>bc_container = 0, bc_bitPos = 0, bc_ptr = 0, bc_endPtr = length buf - 8, bc_buf = buf\<rparr>)"

definition BIT_getLowerBits :: "u64 \<Rightarrow> nat \<Rightarrow> u64" where
  "BIT_getLowerBits bitContainer nbBits = bitContainer AND ucast (BIT_mask ! nbBits)"

definition BIT_addBits :: "u64 \<Rightarrow> nat \<Rightarrow> cstream \<Rightarrow> cstream zres" where
  "BIT_addBits val nbBits c =
     (if nbBits < 32 \<and> nbBits + bc_bitPos c < 64 then
        Ok (c\<lparr>bc_container := bc_container c OR push_bit (bc_bitPos c) (BIT_getLowerBits val nbBits),
              bc_bitPos := bc_bitPos c + nbBits\<rparr>)
      else Fault)"

definition BIT_addBitsFast :: "u64 \<Rightarrow> nat \<Rightarrow> cstream \<Rightarrow> cstream zres" where
  "BIT_addBitsFast val nbBits c =
     (if drop_bit nbBits val = 0 \<and> nbBits + bc_bitPos c < 64 then
        Ok (c\<lparr>bc_container := bc_container c OR push_bit (bc_bitPos c) val, bc_bitPos := bc_bitPos c + nbBits\<rparr>)
      else Fault)"

text \<open>The register is written whole; the pointer advances over its full bytes.\<close>

definition MEM_write64 :: "bytes \<Rightarrow> nat \<Rightarrow> u64 \<Rightarrow> bytes zres" where
  "MEM_write64 buf ptr val =
     (if ptr + 8 \<le> length buf then Ok (take ptr buf @ le_bytes 8 (unat val) @ drop (ptr + 8) buf) else Fault)"

definition BIT_flushBitsFast :: "cstream \<Rightarrow> cstream zres" where
  "BIT_flushBitsFast c =
     (let nbBytes = bc_bitPos c div 8 in
      if bc_bitPos c < 64 \<and> bc_ptr c \<le> bc_endPtr c then
        cbind (MEM_write64 (bc_buf c) (bc_ptr c) (bc_container c))
          (\<lambda>buf. Ok (c\<lparr>bc_container := drop_bit (nbBytes * 8) (bc_container c), bc_bitPos := bc_bitPos c mod 8,
             bc_ptr := bc_ptr c + nbBytes, bc_buf := buf\<rparr>))
      else Fault)"

definition BIT_flushBits :: "cstream \<Rightarrow> cstream zres" where
  "BIT_flushBits c =
     (let nbBytes = bc_bitPos c div 8 in
      if bc_bitPos c < 64 \<and> bc_ptr c \<le> bc_endPtr c then
        cbind (MEM_write64 (bc_buf c) (bc_ptr c) (bc_container c))
          (\<lambda>buf. Ok (c\<lparr>bc_container := drop_bit (nbBytes * 8) (bc_container c), bc_bitPos := bc_bitPos c mod 8,
             bc_ptr := min (bc_ptr c + nbBytes) (bc_endPtr c), bc_buf := buf\<rparr>))
      else Fault)"

text \<open>The size of the stream, 0 when it did not fit.\<close>

definition BIT_closeCStream :: "cstream \<Rightarrow> (nat \<times> cstream) zres" where
  "BIT_closeCStream c =
     cbind (BIT_addBitsFast 1 1 c) (\<lambda>c. cbind (BIT_flushBits c)
       (\<lambda>c. Ok (if bc_endPtr c \<le> bc_ptr c then 0 else bc_ptr c + of_bool (0 < bc_bitPos c), c)))"

section \<open>Reading\<close>

text \<open>The pointer is \<open>None\<close> when it points at the static zeros of an overflow.\<close>

record dstream =
  bd_container :: u64
  bd_bitsConsumed :: nat
  bd_ptr :: "nat option"

datatype BIT_DStream_status = DS_unfinished | DS_endOfBuffer | DS_completed | DS_overflow

definition MEM_read64 :: "bytes \<Rightarrow> nat \<Rightarrow> u64 zres" where
  "MEM_read64 src ptr = cbind (rd src ptr 8) (\<lambda>v. Ok (of_nat v))"

text \<open>The cases of a stream shorter than the register, which fall through to the shorter ones.\<close>

definition short_container :: "bytes \<Rightarrow> u64" where
  "short_container src = sum_list (map (\<lambda>i. push_bit (8 * i) (ucast (src ! i))) [0..<length src])"

definition BIT_initDStream :: "bytes \<Rightarrow> dstream zres" where
  "BIT_initDStream src =
     check_that (length src < 1) srcSize_wrong
       (let lastByte = last src in
        if 8 \<le> length src then
          cbind (MEM_read64 src (length src - 8))
            (\<lambda>v. check_that (lastByte = 0) GENERIC
               (Ok \<lparr>bd_container = v, bd_bitsConsumed = 8 - ZSTD_highbit32 (ucast lastByte), bd_ptr = Some (length src - 8)\<rparr>))
        else check_that (lastByte = 0) corruption_detected
          (Ok \<lparr>bd_container = short_container src,
             bd_bitsConsumed = 8 - ZSTD_highbit32 (ucast lastByte) + (8 - length src) * 8, bd_ptr = Some 0\<rparr>))"

text \<open>The start of the field is a 32-bit number of which the last six bits count.\<close>

definition BIT_getMiddleBits :: "u64 \<Rightarrow> int \<Rightarrow> nat \<Rightarrow> u64" where
  "BIT_getMiddleBits bitContainer start nbBits =
     drop_bit (nat (start mod 64)) bitContainer AND (push_bit nbBits 1 - 1)"

definition BIT_lookBits :: "dstream \<Rightarrow> nat \<Rightarrow> u64" where
  "BIT_lookBits d nbBits =
     BIT_getMiddleBits (bd_container d) (64 - int (bd_bitsConsumed d) - int nbBits) nbBits"

definition BIT_lookBitsFast :: "dstream \<Rightarrow> nat \<Rightarrow> u64" where
  "BIT_lookBitsFast d nbBits =
     drop_bit (nat ((64 - int nbBits) mod 64)) (push_bit (bd_bitsConsumed d mod 64) (bd_container d))"

definition BIT_skipBits :: "nat \<Rightarrow> dstream \<Rightarrow> dstream" where
  "BIT_skipBits nbBits d = d\<lparr>bd_bitsConsumed := (bd_bitsConsumed d + nbBits) mod 2 ^ 32\<rparr>"

definition BIT_readBits :: "dstream \<Rightarrow> nat \<Rightarrow> u64 \<times> dstream" where
  "BIT_readBits d nbBits = (BIT_lookBits d nbBits, BIT_skipBits nbBits d)"

definition BIT_readBitsFast :: "dstream \<Rightarrow> nat \<Rightarrow> u64 \<times> dstream" where
  "BIT_readBitsFast d nbBits = (BIT_lookBitsFast d nbBits, BIT_skipBits nbBits d)"

definition BIT_reloadDStream_internal :: "bytes \<Rightarrow> nat \<Rightarrow> dstream \<Rightarrow> (BIT_DStream_status \<times> dstream) zres" where
  "BIT_reloadDStream_internal src ptr d =
     (let nbBytes = bd_bitsConsumed d div 8 in
      if bd_bitsConsumed d \<le> 64 \<and> nbBytes \<le> ptr then
        cbind (MEM_read64 src (ptr - nbBytes))
          (\<lambda>v. Ok (DS_unfinished, d\<lparr>bd_container := v, bd_bitsConsumed := bd_bitsConsumed d mod 8, bd_ptr := Some (ptr - nbBytes)\<rparr>))
      else Fault)"

definition BIT_reloadDStreamFast :: "bytes \<Rightarrow> nat \<Rightarrow> dstream \<Rightarrow> (BIT_DStream_status \<times> dstream) zres" where
  "BIT_reloadDStreamFast src ptr d =
     (if ptr < 8 then Ok (DS_overflow, d) else BIT_reloadDStream_internal src ptr d)"

definition BIT_reloadDStream :: "bytes \<Rightarrow> dstream \<Rightarrow> (BIT_DStream_status \<times> dstream) zres" where
  "BIT_reloadDStream src d =
     (if 64 < bd_bitsConsumed d then Ok (DS_overflow, d\<lparr>bd_ptr := None\<rparr>)
      else case bd_ptr d of
        None \<Rightarrow> Fault
      | Some ptr \<Rightarrow>
          if 8 \<le> ptr then BIT_reloadDStream_internal src ptr d
          else if ptr = 0 then
            Ok (if bd_bitsConsumed d < 64 then DS_endOfBuffer else DS_completed, d)
          else
            let nbBytes = bd_bitsConsumed d div 8;
                result = (if ptr < nbBytes then DS_endOfBuffer else DS_unfinished);
                nbBytes = min nbBytes ptr
            in cbind (MEM_read64 src (ptr - nbBytes))
                 (\<lambda>v. Ok (result, d\<lparr>bd_container := v, bd_bitsConsumed := bd_bitsConsumed d - nbBytes * 8,
                    bd_ptr := Some (ptr - nbBytes)\<rparr>)))"

definition BIT_endOfDStream :: "dstream \<Rightarrow> bool" where
  "BIT_endOfDStream d \<longleftrightarrow> bd_ptr d = Some 0 \<and> bd_bitsConsumed d = 64"

end
