(* ===== verification/Zstd_FSE.thy ===== *)
theory Zstd_FSE
  imports Zstd_Bitstream "HOL-Library.While_Combinator"
begin

text \<open>
  The entropy coder FSE of \<open>zstd.c\<close>: from the normalized counts of the symbols, the tables of the coder and of the
  decoder, and with them the compression of a string of bytes on two interleaved states, and its
  decompression. An assertion that fails, an access outside a table and a loop that does not end are
  \<open>Fault\<close>. Tables have as many entries as the code uses; entries start as zeros where the code leaves
  what the memory held before, and \<open>junk\<close> stands for it where it stays.
\<close>

section \<open>Spreading the symbols over the states\<close>

definition FSE_MAX_TABLELOG :: nat where "FSE_MAX_TABLELOG = 12"

definition FSE_TABLESTEP :: "nat \<Rightarrow> nat" where
  "FSE_TABLESTEP tableSize = tableSize div 2 + tableSize div 8 + 3"

text \<open>Symbols of low probability, with count -1, take the last states.\<close>

fun lay_low :: "nat \<Rightarrow> int list \<Rightarrow> u32 \<times> bytes \<Rightarrow> (u32 \<times> bytes) zres" where
  "lay_low s [] ht = Ok ht"
| "lay_low s (c # cs) (h, t) =
     (if c = -1 then if unat h < length t then lay_low (Suc s) cs (h - 1, t[unat h := of_nat s]) else Fault
      else lay_low (Suc s) cs (h, t))"

text \<open>Without them the symbols are first written in order, eight bytes at a time.\<close>

function fill_more :: "u64 \<Rightarrow> nat \<Rightarrow> nat \<Rightarrow> nat \<Rightarrow> bytes \<Rightarrow> bytes zres" where
  "fill_more sv pos i n buf =
     (if i < n then cbind (MEM_write64 buf (pos + i) sv) (\<lambda>buf. fill_more sv pos (i + 8) n buf) else Ok buf)"
  by pat_completeness auto
termination by (relation "measure (\<lambda>(sv, pos, i, n, buf). n - i)") auto

declare fill_more.simps [simp del]

fun lay_down :: "u64 \<Rightarrow> int list \<Rightarrow> nat \<Rightarrow> bytes \<Rightarrow> bytes zres" where
  "lay_down sv [] pos buf = Ok buf"
| "lay_down sv (c # cs) pos buf =
     cbind (MEM_write64 buf pos sv) (\<lambda>buf. cbind (fill_more sv pos 8 (nat c) buf)
       (\<lambda>buf. lay_down (sv + 0x0101010101010101) cs (pos + nat c) buf))"

text \<open>Then they are spread, two in a turn. The mask of a size that is a power of two is the remainder.\<close>

fun spread_run :: "nat \<Rightarrow> nat \<Rightarrow> bytes \<Rightarrow> nat \<Rightarrow> bytes \<Rightarrow> nat \<times> bytes" where
  "spread_run step tsize (a # b # rest) position t =
     spread_run step tsize rest ((position + 2 * step) mod tsize)
       (t[position mod tsize := a, (position + step) mod tsize := b])"
| "spread_run step tsize rest position t = (position, t)"

text \<open>With symbols of low probability their area is skipped.\<close>

definition skip_low :: "nat \<Rightarrow> nat \<Rightarrow> nat \<Rightarrow> nat \<Rightarrow> nat option" where
  "skip_low step tsize h position = while_option (\<lambda>p. h < p) (\<lambda>p. (p + step) mod tsize) position"

fun place_run :: "nat \<Rightarrow> nat \<Rightarrow> nat \<Rightarrow> u8 \<Rightarrow> nat \<Rightarrow> nat \<times> bytes \<Rightarrow> (nat \<times> bytes) zres" where
  "place_run step tsize h s 0 pt = Ok pt"
| "place_run step tsize h s (Suc n) pt =
     (let (position, t) = pt in
      case skip_low step tsize h ((position + step) mod tsize) of
        None \<Rightarrow> Fault
      | Some p \<Rightarrow> if position < length t then place_run step tsize h s n (p, t[position := s]) else Fault)"

fun place_all :: "nat \<Rightarrow> nat \<Rightarrow> nat \<Rightarrow> nat \<Rightarrow> int list \<Rightarrow> nat \<times> bytes \<Rightarrow> (nat \<times> bytes) zres" where
  "place_all step tsize h s [] pt = Ok pt"
| "place_all step tsize h s (c # cs) pt =
     cbind (place_run step tsize h (of_nat s) (nat c) pt) (place_all step tsize h (Suc s) cs)"

text \<open>Whether the fast way was taken, the position at the end, and the symbol of every state. The symbols are laid
  down in a work space of \<open>room\<close> bytes.\<close>

definition spread_symbols_in :: "nat \<Rightarrow> nat \<Rightarrow> int list \<Rightarrow> (bool \<times> nat \<times> bytes) zres" where
  "spread_symbols_in room tableLog counts =
     (let tableSize = 2 ^ tableLog; step = FSE_TABLESTEP tableSize in
      cbind (lay_low 0 counts (of_nat (tableSize - 1), replicate tableSize 0)) (\<lambda>(h, t).
        if h = of_nat (tableSize - 1) then
          cbind (lay_down 0 counts 0 (replicate room 0))
            (\<lambda>spread. Ok (True, spread_run step tableSize (take tableSize spread) 0 t))
        else cbind (place_all step tableSize (unat h) 0 counts (0, t)) (\<lambda>pt. Ok (False, pt))))"

definition spread_symbols :: "nat \<Rightarrow> int list \<Rightarrow> (bool \<times> nat \<times> bytes) zres" where
  "spread_symbols tableLog counts = spread_symbols_in (2 ^ tableLog + 8) tableLog counts"

section \<open>The table of the coder\<close>

record symbol_transform =
  deltaFindState :: int
  deltaNbBits :: u32

record fse_ctable =
  ct_tableLog :: nat
  ct_maxSymbolValue :: nat
  ct_states :: "u16 list"
  ct_symbolTT :: "symbol_transform list"

definition CTABLE_WORKSPACE_SIZE :: "nat \<Rightarrow> nat \<Rightarrow> nat" where
  "CTABLE_WORKSPACE_SIZE maxSymbolValue tableLog = 4 * ((maxSymbolValue + 2 + 2 ^ tableLog) div 2 + 2)"

text \<open>Where the states of every symbol start; one more entry than symbols. Counts below -1 fail an assertion.\<close>

fun cumulate :: "u16 \<Rightarrow> int list \<Rightarrow> u16 list zres" where
  "cumulate c [] = Ok [c]"
| "cumulate c (n # ns) =
     (let next = c + (if n = -1 then 1 else of_int n) in
      if n < -1 \<or> n \<noteq> -1 \<and> next < c then Fault else cbind (cumulate next ns) (\<lambda>cs. Ok (c # cs)))"

text \<open>The states of a symbol in ascending order: \<open>u\<close> is the first state of the list.\<close>

fun fill_states :: "nat \<Rightarrow> nat \<Rightarrow> bytes \<Rightarrow> u16 list \<Rightarrow> u16 list \<Rightarrow> u16 list zres" where
  "fill_states tsize u [] cumul states = Ok states"
| "fill_states tsize u (s # ss) cumul states =
     (if unat s < length cumul \<and> unat (cumul ! unat s) < length states then
        fill_states tsize (Suc u) ss (cumul[unat s := cumul ! unat s + 1])
          (states[unat (cumul ! unat s) := of_nat (tsize + u)])
      else Fault)"

fun transforms :: "nat \<Rightarrow> (nat \<Rightarrow> int) \<Rightarrow> nat \<Rightarrow> nat \<Rightarrow> int list \<Rightarrow> symbol_transform list" where
  "transforms tableLog junk s sofar [] = []"
| "transforms tableLog junk s sofar (n # ns) =
     (if n = 0 then
        \<lparr>deltaFindState = junk s, deltaNbBits = of_nat ((tableLog + 1) * 2 ^ 16) - of_nat (2 ^ tableLog)\<rparr>
        # transforms tableLog junk (Suc s) sofar ns
      else if n = -1 \<or> n = 1 then
        \<lparr>deltaFindState = int sofar - 1, deltaNbBits = of_nat (tableLog * 2 ^ 16) - of_nat (2 ^ tableLog)\<rparr>
        # transforms tableLog junk (Suc s) (sofar + 1) ns
      else
        let maxBitsOut = tableLog - ZSTD_highbit32 (of_int (n - 1));
            minStatePlus = push_bit maxBitsOut (of_int n)
        in \<lparr>deltaFindState = int sofar - n, deltaNbBits = of_nat (maxBitsOut * 2 ^ 16) - minStatePlus\<rparr>
           # transforms tableLog junk (Suc s) (sofar + nat n) ns)"

definition FSE_buildCTable_wksp ::
    "(nat \<Rightarrow> int) \<Rightarrow> int list \<Rightarrow> nat \<Rightarrow> nat \<Rightarrow> nat \<Rightarrow> fse_ctable zres" where
  "FSE_buildCTable_wksp junk normalizedCounter maxSymbolValue tableLog wkspSize =
     (let counts = take (maxSymbolValue + 1) normalizedCounter; tableSize = 2 ^ tableLog in
      check_that (wkspSize < CTABLE_WORKSPACE_SIZE maxSymbolValue tableLog) tableLog_tooLarge
        (if length normalizedCounter < maxSymbolValue + 1 \<or> 16 \<le> tableLog then Fault
         else cbind (cumulate 0 counts) (\<lambda>cumul.
           cbind (spread_symbols_in (wkspSize - 2 * (maxSymbolValue + 2) - tableSize) tableLog counts) (\<lambda>(fast, position, tableSymbol).
              if position \<noteq> 0 then Fault
              else cbind (fill_states tableSize 0 tableSymbol (cumul[maxSymbolValue + 1 := of_nat (tableSize + 1)])
                  (replicate tableSize 0))
                (\<lambda>states. Ok \<lparr>ct_tableLog = tableLog, ct_maxSymbolValue = maxSymbolValue, ct_states = states,
                   ct_symbolTT = transforms tableLog junk 0 0 counts\<rparr>)))))"

section \<open>Coding\<close>

text \<open>The state of a coder is between the size of its table and twice that.\<close>

record fse_cstate =
  cs_value :: int
  cs_stateLog :: nat

definition next_state :: "fse_ctable \<Rightarrow> int \<Rightarrow> nat \<Rightarrow> nat \<Rightarrow> int zres" where
  "next_state ct val nbBitsOut symbol =
     (let i = val div 2 ^ nbBitsOut + deltaFindState (ct_symbolTT ct ! symbol) in
      if 0 \<le> i \<and> nat i < length (ct_states ct) then Ok (uint (ct_states ct ! nat i)) else Fault)"

definition FSE_initCState :: "fse_ctable \<Rightarrow> fse_cstate" where
  "FSE_initCState ct = \<lparr>cs_value = 2 ^ ct_tableLog ct, cs_stateLog = ct_tableLog ct\<rparr>"

definition FSE_initCState2 :: "fse_ctable \<Rightarrow> u8 \<Rightarrow> fse_cstate zres" where
  "FSE_initCState2 ct symbol =
     (if length (ct_symbolTT ct) \<le> unat symbol then Fault
      else let delta = deltaNbBits (ct_symbolTT ct ! unat symbol);
               nbBitsOut = unat (drop_bit 16 (delta + 2 ^ 15));
               val = uint (of_nat (nbBitsOut * 2 ^ 16) - delta)
        in cbind (next_state ct val nbBitsOut (unat symbol)) (\<lambda>v. Ok ((FSE_initCState ct)\<lparr>cs_value := v\<rparr>)))"

definition FSE_encodeSymbol :: "fse_ctable \<Rightarrow> u8 \<Rightarrow> cstream \<times> fse_cstate \<Rightarrow> (cstream \<times> fse_cstate) zres" where
  "FSE_encodeSymbol ct symbol cs =
     (let (bitC, st) = cs in
      if length (ct_symbolTT ct) \<le> unat symbol then Fault
      else let nbBitsOut = nat ((cs_value st + uint (deltaNbBits (ct_symbolTT ct ! unat symbol))) div 2 ^ 16)
        in cbind (BIT_addBits (of_int (cs_value st)) nbBitsOut bitC)
             (\<lambda>bitC. cbind (next_state ct (cs_value st) nbBitsOut (unat symbol))
               (\<lambda>v. Ok (bitC, st\<lparr>cs_value := v\<rparr>))))"

definition FSE_flushCState :: "fse_cstate \<Rightarrow> cstream \<Rightarrow> cstream zres" where
  "FSE_flushCState st bitC = cbind (BIT_addBits (of_int (cs_value st)) (cs_stateLog st) bitC) BIT_flushBits"

definition FSE_FLUSHBITS :: "bool \<Rightarrow> cstream \<Rightarrow> cstream zres" where
  "FSE_FLUSHBITS fast = (if fast then BIT_flushBitsFast else BIT_flushBits)"

text \<open>The state of both coders with the stream; \<open>first\<close> says which of them takes the symbol.\<close>

type_synonym fse_coders = "cstream \<times> fse_cstate \<times> fse_cstate"

definition encode_on :: "fse_ctable \<Rightarrow> bool \<Rightarrow> u8 \<Rightarrow> fse_coders \<Rightarrow> fse_coders zres" where
  "encode_on ct first symbol cs =
     (let (bitC, st1, st2) = cs in
      if first then cbind (FSE_encodeSymbol ct symbol (bitC, st1)) (\<lambda>(bitC, st1). Ok (bitC, st1, st2))
      else cbind (FSE_encodeSymbol ct symbol (bitC, st2)) (\<lambda>(bitC, st2). Ok (bitC, st1, st2)))"

definition flush_on :: "bool \<Rightarrow> fse_coders \<Rightarrow> fse_coders zres" where
  "flush_on fast cs = (let (bitC, sts) = cs in cbind (FSE_FLUSHBITS fast bitC) (\<lambda>bitC. Ok (bitC, sts)))"

text \<open>The loop takes four symbols in a turn; the symbols are those before the pointer, the nearest first. Running
  into the start of the input is \<open>Fault\<close>.\<close>

fun encode_loop :: "fse_ctable \<Rightarrow> bool \<Rightarrow> bytes \<Rightarrow> fse_coders \<Rightarrow> fse_coders zres" where
  "encode_loop ct fast [] cs = Ok cs"
| "encode_loop ct fast (a # b # c # d # rest) cs =
     cbind (encode_on ct False a cs) (\<lambda>cs. cbind (encode_on ct True b cs) (\<lambda>cs.
     cbind (encode_on ct False c cs) (\<lambda>cs. cbind (encode_on ct True d cs) (\<lambda>cs.
     cbind (flush_on fast cs) (encode_loop ct fast rest)))))"
| "encode_loop ct fast _ cs = Fault"

text \<open>The first symbols: the states are made from the last two, and an odd one is coded.\<close>

definition encode_start :: "fse_ctable \<Rightarrow> bool \<Rightarrow> bytes \<Rightarrow> cstream \<Rightarrow> (bytes \<times> fse_coders) zres" where
  "encode_start ct fast ip bitC =
     (if odd (length ip) then
        case ip of
          a # b # c # rest \<Rightarrow>
            cbind (FSE_initCState2 ct a) (\<lambda>st1. cbind (FSE_initCState2 ct b) (\<lambda>st2.
            cbind (encode_on ct True c (bitC, st1, st2)) (\<lambda>cs. cbind (flush_on fast cs) (\<lambda>cs. Ok (rest, cs)))))
        | _ \<Rightarrow> Fault
      else
        case ip of
          a # b # rest \<Rightarrow>
            cbind (FSE_initCState2 ct a) (\<lambda>st2. cbind (FSE_initCState2 ct b) (\<lambda>st1. Ok (rest, bitC, st1, st2)))
        | _ \<Rightarrow> Fault)"

text \<open>Two more symbols when they do not fill a turn of the loop.\<close>

definition encode_join :: "fse_ctable \<Rightarrow> bool \<Rightarrow> nat \<Rightarrow> bytes \<times> fse_coders \<Rightarrow> (bytes \<times> fse_coders) zres" where
  "encode_join ct fast srcSize ics =
     (let (ip, cs) = ics in
      if bit (srcSize - 2) 1 then
        case ip of
          a # b # rest \<Rightarrow>
            cbind (encode_on ct False a cs) (\<lambda>cs. cbind (encode_on ct True b cs) (\<lambda>cs.
            cbind (flush_on fast cs) (\<lambda>cs. Ok (rest, cs))))
        | _ \<Rightarrow> Fault
      else Ok ics)"

text \<open>The size of the result, 0 when it is not worth it or does not fit, and the buffer.\<close>

definition FSE_compress_usingCTable_generic ::
    "bytes \<Rightarrow> bytes \<Rightarrow> fse_ctable \<Rightarrow> bool \<Rightarrow> (nat \<times> bytes) zres" where
  "FSE_compress_usingCTable_generic dst src ct fast =
     (if length src \<le> 2 then Ok (0, dst)
      else case BIT_initCStream dst of
        Fault \<Rightarrow> Fault
      | Err _ \<Rightarrow> Ok (0, dst)
      | Ok bitC \<Rightarrow>
          cbind (encode_start ct fast (rev src) bitC) (\<lambda>ics. cbind (encode_join ct fast (length src) ics)
            (\<lambda>(ip, cs). cbind (encode_loop ct fast ip cs) (\<lambda>(bitC, st1, st2).
              cbind (FSE_flushCState st2 bitC) (\<lambda>bitC. cbind (FSE_flushCState st1 bitC)
                (\<lambda>bitC. cbind (BIT_closeCStream bitC) (\<lambda>(n, bitC). Ok (n, bc_buf bitC))))))))"

definition FSE_BLOCKBOUND :: "nat \<Rightarrow> nat" where
  "FSE_BLOCKBOUND srcSize = srcSize + srcSize div 128 + 4 + 8"

definition FSE_compress_usingCTable :: "bytes \<Rightarrow> bytes \<Rightarrow> fse_ctable \<Rightarrow> (nat \<times> bytes) zres" where
  "FSE_compress_usingCTable dst src ct =
     FSE_compress_usingCTable_generic dst src ct (FSE_BLOCKBOUND (length src) \<le> length dst)"

section \<open>The table of the decoder\<close>

record fse_decode =
  de_newState :: u16
  de_symbol :: u8
  de_nbBits :: u8

record fse_dtable =
  dt_tableLog :: nat
  dt_fastMode :: bool
  dt_table :: "fse_decode list"

definition DTABLE_WKSP_SIZE :: "nat \<Rightarrow> nat \<Rightarrow> nat" where
  "DTABLE_WKSP_SIZE tableLog maxSymbolValue = 2 * (maxSymbolValue + 1) + 2 ^ tableLog + 8"

text \<open>The counts of a symbol run from its own count; \<open>Fault\<close> for a symbol without a counter.\<close>

fun decode_entries :: "nat \<Rightarrow> bytes \<Rightarrow> u16 list \<Rightarrow> fse_decode list zres" where
  "decode_entries tableLog [] symbolNext = Ok []"
| "decode_entries tableLog (s # ss) symbolNext =
     (if length symbolNext \<le> unat s then Fault
      else let nextState = symbolNext ! unat s;
               nbBits = (of_nat tableLog - of_nat (ZSTD_highbit32 (ucast nextState)) :: u8);
               newState = (push_bit (unat nbBits) nextState - of_nat (2 ^ tableLog) :: u16)
        in cbind (decode_entries tableLog ss (symbolNext[unat s := nextState + 1]))
             (\<lambda>es. Ok (\<lparr>de_newState = newState, de_symbol = s, de_nbBits = nbBits\<rparr> # es)))"

definition FSE_buildDTable_internal :: "int list \<Rightarrow> nat \<Rightarrow> nat \<Rightarrow> nat \<Rightarrow> fse_dtable zres" where
  "FSE_buildDTable_internal normalizedCounter maxSymbolValue tableLog wkspSize =
     (let counts = take (maxSymbolValue + 1) normalizedCounter in
      check_that (wkspSize < DTABLE_WKSP_SIZE tableLog maxSymbolValue) maxSymbolValue_tooLarge
      (check_that (255 < maxSymbolValue) maxSymbolValue_tooLarge
      (check_that (FSE_MAX_TABLELOG < tableLog) tableLog_tooLarge
        (if length normalizedCounter < maxSymbolValue + 1 then Fault
         else cbind (spread_symbols_in (wkspSize - 2 * (maxSymbolValue + 1)) tableLog counts) (\<lambda>(fast, position, tableSymbol).
           if position \<noteq> 0 then if fast then Fault else Err GENERIC
           else cbind (decode_entries tableLog tableSymbol (map (\<lambda>c. if c = -1 then 1 else of_int c) counts))
             (\<lambda>es. Ok \<lparr>dt_tableLog = tableLog,
                dt_fastMode = list_all (\<lambda>c. c = -1 \<or> c < 2 ^ (tableLog - 1)) counts, dt_table = es\<rparr>))))))"

definition FSE_buildDTable_wksp :: "int list \<Rightarrow> nat \<Rightarrow> nat \<Rightarrow> nat \<Rightarrow> fse_dtable zres" where
  "FSE_buildDTable_wksp normalizedCounter maxSymbolValue tableLog wkspSize =
     FSE_buildDTable_internal normalizedCounter maxSymbolValue tableLog wkspSize"

section \<open>Decoding\<close>

text \<open>A reload that faults is a \<open>Fault\<close>; its status may be ignored.\<close>

definition FSE_initDState :: "fse_dtable \<Rightarrow> bytes \<Rightarrow> dstream \<Rightarrow> (nat \<times> dstream) zres" where
  "FSE_initDState dt src bitD =
     (let (v, bitD) = BIT_readBits bitD (dt_tableLog dt)
      in cbind (BIT_reloadDStream src bitD) (\<lambda>(_, bitD). Ok (unat v, bitD)))"

definition FSE_peekSymbol :: "fse_dtable \<Rightarrow> nat \<Rightarrow> u8 zres" where
  "FSE_peekSymbol dt state =
     (if state < length (dt_table dt) then Ok (de_symbol (dt_table dt ! state)) else Fault)"

definition FSE_updateState :: "fse_dtable \<Rightarrow> nat \<times> dstream \<Rightarrow> (nat \<times> dstream) zres" where
  "FSE_updateState dt sd =
     (let (state, bitD) = sd in
      if state < length (dt_table dt) then
        let e = dt_table dt ! state; (v, bitD) = BIT_readBits bitD (unat (de_nbBits e))
        in Ok (unat (de_newState e) + unat v, bitD)
      else Fault)"

definition FSE_decodeSymbol :: "fse_dtable \<Rightarrow> nat \<times> dstream \<Rightarrow> (u8 \<times> nat \<times> dstream) zres" where
  "FSE_decodeSymbol dt sd =
     (let (state, bitD) = sd in
      if state < length (dt_table dt) then
        let e = dt_table dt ! state; (v, bitD) = BIT_readBits bitD (unat (de_nbBits e))
        in Ok (de_symbol e, unat (de_newState e) + unat v, bitD)
      else Fault)"

definition FSE_decodeSymbolFast :: "fse_dtable \<Rightarrow> nat \<times> dstream \<Rightarrow> (u8 \<times> nat \<times> dstream) zres" where
  "FSE_decodeSymbolFast dt sd =
     (let (state, bitD) = sd in
      if state < length (dt_table dt) then
        let e = dt_table dt ! state; (v, bitD) = BIT_readBitsFast bitD (unat (de_nbBits e))
        in Ok (de_symbol e, unat (de_newState e) + unat v, bitD)
      else Fault)"

definition FSE_endOfDState :: "nat \<Rightarrow> bool" where
  "FSE_endOfDState state \<longleftrightarrow> state = 0"

definition FSE_GETSYMBOL :: "bool \<Rightarrow> fse_dtable \<Rightarrow> nat \<times> dstream \<Rightarrow> (u8 \<times> nat \<times> dstream) zres" where
  "FSE_GETSYMBOL fast = (if fast then FSE_decodeSymbolFast else FSE_decodeSymbol)"

text \<open>Four symbols in a turn, while the stream fills the register and the output has room for more than three; \<open>out\<close> is
  what has been put out. The result has the status of the last reload ignored, as in the code.\<close>

function decode_loop ::
    "bool \<Rightarrow> fse_dtable \<Rightarrow> bytes \<Rightarrow> nat \<Rightarrow> bytes \<Rightarrow> nat \<times> nat \<times> dstream \<Rightarrow> (bytes \<times> nat \<times> nat \<times> dstream) zres" where
  "decode_loop fast dt src maxDstSize out sts =
     (let (st1, st2, bitD) = sts in
      cbind (BIT_reloadDStream src bitD) (\<lambda>(status, bitD).
        if status = DS_unfinished \<and> length out + 3 < maxDstSize then
          cbind (FSE_GETSYMBOL fast dt (st1, bitD)) (\<lambda>(a, st1, bitD).
          cbind (FSE_GETSYMBOL fast dt (st2, bitD)) (\<lambda>(b, st2, bitD).
          cbind (FSE_GETSYMBOL fast dt (st1, bitD)) (\<lambda>(c, st1, bitD).
          cbind (FSE_GETSYMBOL fast dt (st2, bitD)) (\<lambda>(d, st2, bitD).
            decode_loop fast dt src maxDstSize (out @ [a, b, c, d]) (st1, st2, bitD)))))
        else Ok (out, st1, st2, bitD)))"
  by pat_completeness auto
termination by (relation "measure (\<lambda>(fast, dt, src, n, out, sts). n - length out)") auto

declare decode_loop.simps [simp del]

text \<open>One symbol in a turn until the stream is read beyond its end; the states change places. The last symbol is that
  of the other state.\<close>

function decode_tail ::
    "bool \<Rightarrow> fse_dtable \<Rightarrow> bytes \<Rightarrow> nat \<Rightarrow> bytes \<Rightarrow> nat \<times> nat \<times> dstream \<Rightarrow> bytes zres" where
  "decode_tail fast dt src maxDstSize out sts =
     (let (st1, st2, bitD) = sts in
      if maxDstSize < length out + 2 then Err dstSize_tooSmall
      else cbind (FSE_GETSYMBOL fast dt (st1, bitD)) (\<lambda>(a, st1, bitD).
           cbind (BIT_reloadDStream src bitD) (\<lambda>(status, bitD).
             if status = DS_overflow then
               cbind (FSE_GETSYMBOL fast dt (st2, bitD)) (\<lambda>(b, _). Ok (out @ [a, b]))
             else decode_tail fast dt src maxDstSize (out @ [a]) (st2, st1, bitD))))"
  by pat_completeness auto
termination by (relation "measure (\<lambda>(fast, dt, src, n, out, sts). n - length out)") auto

declare decode_tail.simps [simp del]

definition FSE_decompress_usingDTable_generic :: "nat \<Rightarrow> bytes \<Rightarrow> fse_dtable \<Rightarrow> bool \<Rightarrow> bytes zres" where
  "FSE_decompress_usingDTable_generic maxDstSize cSrc dt fast =
     cbind (BIT_initDStream cSrc) (\<lambda>bitD. cbind (FSE_initDState dt cSrc bitD) (\<lambda>(st1, bitD).
     cbind (FSE_initDState dt cSrc bitD) (\<lambda>(st2, bitD). cbind (BIT_reloadDStream cSrc bitD) (\<lambda>(status, bitD).
       check_that (status = DS_overflow) corruption_detected
         (cbind (decode_loop fast dt cSrc maxDstSize [] (st1, st2, bitD))
           (\<lambda>(out, sts). decode_tail fast dt cSrc maxDstSize out sts))))))"

end
