(* ===== verification/Zstd_FSESpread.thy ===== *)
theory Zstd_FSESpread
  imports Zstd_FSE "HOL-Library.Multiset"
begin

text \<open>
  Spreading the symbols over the states of an FSE table: whichever way is taken, every symbol gets exactly as many
  states as its count says, the walk over the table ends where it began, and it does end.
\<close>

section \<open>Well-formed counts\<close>

definition weight :: "int \<Rightarrow> nat" where
  "weight c = (if c = -1 then 1 else nat c)"

definition norm_ok :: "nat \<Rightarrow> int list \<Rightarrow> bool" where
  "norm_ok L counts \<longleftrightarrow> 5 \<le> L \<and> L \<le> FSE_MAX_TABLELOG \<and> length counts \<le> 256 \<and> (\<forall>c \<in> set counts. -1 \<le> c)
     \<and> sum_list (map weight counts) = 2 ^ L"

text \<open>The symbols in order, each as often as its positive count.\<close>

fun run_list :: "nat \<Rightarrow> int list \<Rightarrow> bytes" where
  "run_list s [] = []"
| "run_list s (c # cs) = replicate (nat c) (of_nat s) @ run_list (Suc s) cs"

fun low_list :: "nat \<Rightarrow> int list \<Rightarrow> bytes" where
  "low_list s [] = []"
| "low_list s (c # cs) = (if c = -1 then [of_nat s] else []) @ low_list (Suc s) cs"

lemma length_lists: "\<forall>c \<in> set cs. -1 \<le> c \<Longrightarrow> length (low_list s cs) + length (run_list s cs) = sum_list (map weight cs)"
  by (induction cs arbitrary: s) (auto simp: weight_def)

lemma of_nat_byte_eq: "m < 256 \<Longrightarrow> k < 256 \<Longrightarrow> (of_nat m :: u8) = of_nat k \<longleftrightarrow> m = k"
  by (simp add: word_of_nat_eq_iff take_bit_nat_eq_self)

lemma count_symbols:
  assumes "\<forall>c \<in> set cs. -1 \<le> c" and "s + length cs \<le> 256" and "x < length cs"
  shows "count (mset (low_list s cs) + mset (run_list s cs)) (of_nat (s + x)) = weight (cs ! x)"
proof -
  have fresh: "count (mset (low_list m cs) + mset (run_list m cs)) (of_nat k) = 0" if "k < m" "m + length cs \<le> 256" for m k cs
    using that
  proof (induction cs arbitrary: m)
    case (Cons c cs)
    then have "(of_nat m :: u8) \<noteq> of_nat k" by (subst of_nat_byte_eq) simp_all
    then show ?case using Cons by auto
  qed simp
  show ?thesis using assms
  proof (induction cs arbitrary: s x)
    case (Cons c cs)
    show ?case
    proof (cases x)
      case 0
      then show ?thesis using fresh [of s "Suc s" cs] Cons.prems by (auto simp: weight_def)
    next
      case (Suc y)
      then have "(of_nat s :: u8) \<noteq> of_nat (s + x)" using Cons.prems by (subst of_nat_byte_eq) simp_all
      moreover have "s + x = Suc s + y" using Suc by simp
      ultimately show ?thesis using Cons.IH [of "Suc s" y] Cons.prems Suc by (auto simp del: of_nat_Suc of_nat_add)
    qed
  qed simp
qed

section \<open>Writing at many places\<close>

fun scatter :: "nat list \<Rightarrow> 'a list \<Rightarrow> 'a list \<Rightarrow> 'a list" where
  "scatter (p # ps) (x # xs) t = scatter ps xs (t[p := x])"
| "scatter ps xs t = t"

lemma length_scatter [simp]: "length (scatter ps xs t) = length t"
  by (induction ps xs t rule: scatter.induct) auto

lemma scatter_append: "length ps = length xs \<Longrightarrow> scatter (ps @ qs) (xs @ ys) t = scatter qs ys (scatter ps xs t)"
  by (induction ps xs t rule: scatter.induct) auto

lemma scatter_other: "q \<notin> set ps \<Longrightarrow> scatter ps xs t ! q = t ! q"
  by (induction ps xs t rule: scatter.induct) auto

lemma scatter_nth:
  assumes "distinct ps" and "length ps = length xs" and "\<forall>p \<in> set ps. p < length t" and "i < length ps"
  shows "scatter ps xs t ! (ps ! i) = xs ! i"
  using assms
proof (induction ps xs t arbitrary: i rule: scatter.induct)
  case (1 p ps x xs t)
  then show ?case by (cases i) (auto simp: scatter_other)
qed auto

lemma mset_scatter:
  assumes "distinct ps" and "length ps = length xs" and "set ps = {..<length t}"
  shows "mset (scatter ps xs t) = mset xs"
proof -
  let ?t = "scatter ps xs t"
  have "map ((!) ?t) ps = xs" using scatter_nth [OF assms(1,2)] assms(2,3) by (intro nth_equalityI) auto
  moreover have "mset ps = mset [0..<length ?t]"
    by (rule set_eq_iff_mset_eq_distinct [THEN iffD1]) (use assms(1,3) in \<open>simp_all add: atLeast0LessThan\<close>)
  then have "image_mset ((!) ?t) (mset ps) = image_mset ((!) ?t) (mset [0..<length ?t])" by (rule arg_cong)
  ultimately have "mset xs = mset (map ((!) ?t) [0..<length ?t])" by (metis mset_map)
  then show ?thesis by (simp only: map_nth)
qed

section \<open>The walk\<close>

definition walk :: "nat \<Rightarrow> nat \<Rightarrow> nat" where
  "walk L i = i * FSE_TABLESTEP (2 ^ L) mod 2 ^ L"

lemma walk_Suc: "(walk L i + FSE_TABLESTEP (2 ^ L)) mod 2 ^ L = walk L (Suc i)"
  by (simp add: walk_def mod_simps add.commute)

lemma walk_ends [simp]: "walk L 0 = 0" "walk L (2 ^ L) = 0"
  by (simp_all add: walk_def)

lemma walk_less [simp]: "walk L i < 2 ^ L"
  by (simp add: walk_def)

lemma coprime_step: "4 \<le> L \<Longrightarrow> coprime (2 ^ L) (FSE_TABLESTEP (2 ^ L))"
proof -
  assume "4 \<le> L"
  then obtain k where k: "L = 4 + k" by (metis le_Suc_ex)
  have "odd (FSE_TABLESTEP (2 ^ L))" by (simp add: FSE_TABLESTEP_def k power_add)
  then show ?thesis by simp
qed

lemma walk_inj:
  assumes "4 \<le> L" and "walk L i = walk L j" and "i < 2 ^ L" and "j < 2 ^ L"
  shows "i = j"
proof -
  have "i = j" if "walk L i = walk L j" "i \<le> j" "j < 2 ^ L" for i j
  proof -
    have "2 ^ L dvd j * FSE_TABLESTEP (2 ^ L) - i * FSE_TABLESTEP (2 ^ L)"
      using that(1,2) by (intro mod_eq_dvd_iff_nat [THEN iffD1]) (simp_all add: walk_def)
    then have "2 ^ L dvd (j - i) * FSE_TABLESTEP (2 ^ L)" by (simp add: diff_mult_distrib)
    then have "2 ^ L dvd j - i" using coprime_step [OF assms(1)] by (simp add: coprime_dvd_mult_left_iff)
    then show ?thesis using that(2,3) by (metis dvd_imp_le diff_is_0_eq less_imp_diff_less le_antisym not_less zero_less_diff not_le)
  qed
  then show ?thesis using assms by (metis nat_le_linear)
qed

lemma walk_perm:
  assumes "4 \<le> L"
  shows "distinct (map (walk L) [0..<2 ^ L])" and "set (map (walk L) [0..<2 ^ L]) = {..<2 ^ L}"
proof -
  have inj: "inj_on (walk L) {..<2 ^ L}" using walk_inj [OF assms] by (auto intro: inj_onI)
  then show "distinct (map (walk L) [0..<2 ^ L])" by (simp add: distinct_map atLeast0LessThan)
  have "walk L ` {..<2 ^ L} \<subseteq> {..<2 ^ L}" by auto
  then have "walk L ` {..<2 ^ L} = {..<2 ^ L}" using inj by (simp add: endo_inj_surj)
  then show "set (map (walk L) [0..<2 ^ L]) = {..<2 ^ L}" by (simp add: atLeast0LessThan)
qed

section \<open>Symbols of low probability\<close>

definition low_states :: "nat \<Rightarrow> nat \<Rightarrow> nat list" where
  "low_states L k = map (\<lambda>i. 2 ^ L - 1 - i) [0..<k]"

lemma unat_high:
  assumes "L \<le> 15" and "k < 2 ^ L"
  shows "unat (of_nat (2 ^ L - 1) - of_nat k :: u32) = 2 ^ L - 1 - k"
proof -
  have "(2 :: nat) ^ L \<le> 2 ^ 15" using assms(1) by (intro power_increasing) simp_all
  then have "2 ^ L - 1 - k < 2 ^ LENGTH(32)" by simp
  moreover have "(of_nat (2 ^ L - 1) - of_nat k :: u32) = of_nat (2 ^ L - 1 - k)" using assms(2) by (simp add: of_nat_diff)
  ultimately show ?thesis by (simp only: unsigned_of_nat take_bit_nat_eq_self of_nat_id)
qed

lemma lay_low_eq:
  assumes "L \<le> 15" and "k + length (low_list s cs) \<le> 2 ^ L" and "length t = 2 ^ L"
  shows "lay_low s cs (of_nat (2 ^ L - 1) - of_nat k, t)
    = Ok (of_nat (2 ^ L - 1) - of_nat (k + length (low_list s cs)),
          scatter (map (\<lambda>i. 2 ^ L - 1 - (k + i)) [0..<length (low_list s cs)]) (low_list s cs) t)"
  using assms(2,3)
proof (induction cs arbitrary: s k t)
  case (Cons c cs)
  show ?case
  proof (cases "c = -1")
    case True
    have k: "k < 2 ^ L" using Cons.prems True by simp
    have "[0..<Suc (length (low_list (Suc s) cs))] = 0 # map Suc [0..<length (low_list (Suc s) cs)]"
      by (simp only: map_Suc_upt) (simp only: upt_conv_Cons zero_less_Suc)
    then show ?thesis
      using Cons.IH [of "Suc k" "Suc s" "t[2 ^ L - 1 - k := of_nat s]"] Cons.prems True k unat_high [OF assms(1) k]
      by (simp add: comp_def algebra_simps del: upt_Suc)
  qed (use Cons in simp)
qed simp

section \<open>The slow way\<close>

definition allowed :: "nat \<Rightarrow> nat \<Rightarrow> nat \<Rightarrow> nat list" where
  "allowed L h i = filter (\<lambda>p. p \<le> h) (map (walk L) [i..<2 ^ L])"

lemma allowed_step: "i < 2 ^ L \<Longrightarrow> allowed L h i = (if walk L i \<le> h then walk L i # allowed L h (Suc i) else allowed L h (Suc i))"
  by (simp add: allowed_def upt_conv_Cons)

lemma skip_low_stop: "p \<le> h \<Longrightarrow> skip_low step n h p = Some p"
  unfolding skip_low_def by (subst while_option_unfold) simp

lemma skip_low_go: "h < p \<Longrightarrow> skip_low step n h p = skip_low step n h ((p + step) mod n)"
  unfolding skip_low_def by (subst while_option_unfold) simp

text \<open>The loop that skips ends, at the latest where the walk does.\<close>

lemma skip_walk:
  assumes "i \<le> 2 ^ L"
  shows "\<exists>j. i \<le> j \<and> j \<le> 2 ^ L \<and> walk L j \<le> h \<and> skip_low (FSE_TABLESTEP (2 ^ L)) (2 ^ L) h (walk L i) = Some (walk L j)
    \<and> allowed L h i = allowed L h j"
  using assms
proof (induction i rule: inc_induct)
  case base
  show ?case by (intro exI [of _ "2 ^ L"]) (simp add: skip_low_stop)
next
  case (step i)
  show ?case
  proof (cases "walk L i \<le> h")
    case True
    then show ?thesis using step.hyps by (intro exI [of _ i]) (simp add: skip_low_stop)
  next
    case False
    obtain j where "Suc i \<le> j \<and> j \<le> 2 ^ L \<and> walk L j \<le> h \<and> skip_low (FSE_TABLESTEP (2 ^ L)) (2 ^ L) h (walk L (Suc i)) = Some (walk L j)
      \<and> allowed L h (Suc i) = allowed L h j" using step.IH by blast
    then show ?thesis
      using False step.hyps skip_low_go [of h "walk L i" "FSE_TABLESTEP (2 ^ L)" "2 ^ L"]
      by (intro exI [of _ j]) (simp add: walk_Suc allowed_step)
  qed
qed

fun place_list :: "nat \<Rightarrow> nat \<Rightarrow> nat \<Rightarrow> bytes \<Rightarrow> nat \<times> bytes \<Rightarrow> (nat \<times> bytes) zres" where
  "place_list step n h [] pt = Ok pt"
| "place_list step n h (x # xs) pt = cbind (place_run step n h x 1 pt) (place_list step n h xs)"

lemma place_list_run: "cbind (place_run step n h x k pt) (place_list step n h xs) = place_list step n h (replicate k x @ xs) pt"
proof (induction k arbitrary: pt)
  case (Suc k)
  obtain p t where pt: "pt = (p, t)" by (cases pt)
  show ?case using Suc by (cases "skip_low step n h ((p + step) mod n)") (simp_all add: pt)
qed simp

lemma place_all_list: "place_all step n h s cs pt = place_list step n h (run_list s cs) pt"
proof (induction cs arbitrary: s pt)
  case (Cons c cs)
  have "place_all step n h (Suc s) cs = place_list step n h (run_list (Suc s) cs)" using Cons.IH by blast
  then show ?case by (simp add: place_list_run)
qed simp

lemma place_list_eq:
  assumes "length t = 2 ^ L" and "walk L i \<le> h" and "i \<le> 2 ^ L" and "length xs = length (allowed L h i)"
  shows "place_list (FSE_TABLESTEP (2 ^ L)) (2 ^ L) h xs (walk L i, t) = Ok (0, scatter (allowed L h i) xs t)"
  using assms
proof (induction xs arbitrary: i t)
  case Nil
  then have "i = 2 ^ L" using allowed_step [of i L h] by (cases "i < 2 ^ L") auto
  then show ?case by simp
next
  case (Cons x xs)
  have i: "i < 2 ^ L" using Cons.prems by (cases "i = 2 ^ L") (auto simp: allowed_def)
  then have a: "allowed L h i = walk L i # allowed L h (Suc i)" using Cons.prems allowed_step by simp
  obtain j where j: "Suc i \<le> j" "j \<le> 2 ^ L" "walk L j \<le> h" "allowed L h (Suc i) = allowed L h j"
    "skip_low (FSE_TABLESTEP (2 ^ L)) (2 ^ L) h (walk L (Suc i)) = Some (walk L j)"
    using skip_walk [of "Suc i" L h] i by auto
  then show ?case using Cons.IH [of "t[walk L i := x]" j] Cons.prems a by (simp add: walk_Suc)
qed

section \<open>The fast way\<close>

lemma le_bytes_run:
  assumes "s < 256"
  shows "le_bytes 8 (unat (of_nat s * 0x0101010101010101 :: u64)) = replicate 8 (of_nat s)"
proof -
  have "unat (of_nat s :: u8) = s" using assms by (simp add: unsigned_of_nat take_bit_nat_eq_self)
  moreover have "replicate 8 b = [b, b, b, b, b, b, b, b]" for b :: u8 by (simp add: numeral_eq_Suc)
  ultimately have "le_nat (replicate 8 (of_nat s)) = s * 0x0101010101010101" by simp
  moreover have "s * 0x0101010101010101 < 2 ^ 64" using assms by simp
  then have "unat (of_nat (s * 0x0101010101010101) :: u64) = s * 0x0101010101010101"
    by (simp only: unsigned_of_nat take_bit_nat_eq_self of_nat_id) (simp add: take_bit_nat_eq_self)
  ultimately show ?thesis using le_bytes_nat [of "replicate 8 (of_nat s)"] by simp
qed

lemma written_run:
  assumes "le_bytes 8 (unat sv) = replicate 8 b" and "take p buf = X" and "p + 8 \<le> length buf"
  shows "\<exists>buf'. MEM_write64 buf p sv = Ok buf' \<and> length buf' = length buf \<and> take (p + 8) buf' = X @ replicate 8 b"
  using assms by (auto simp: MEM_write64_def)

lemma fill_more_eq:
  assumes "le_bytes 8 (unat sv) = replicate 8 b" and "length X = pos"
    and "take (pos + i) buf = X @ replicate i b" and "pos + n + 8 \<le> length buf"
  shows "\<exists>buf'. fill_more sv pos i n buf = Ok buf' \<and> length buf' = length buf \<and> take (pos + n) buf' = X @ replicate n b"
  using assms(3,4)
proof (induction "n - i" arbitrary: i buf rule: less_induct)
  case less
  show ?case
  proof (cases "i < n")
    case True
    obtain b1 where b1: "MEM_write64 buf (pos + i) sv = Ok b1" "length b1 = length buf" "take (pos + (i + 8)) b1 = X @ replicate (i + 8) b"
      using written_run [OF assms(1) less.prems(1)] less.prems(2) True by (auto simp: replicate_add ac_simps)
    then show ?thesis using less.hyps [of "i + 8" b1] True less.prems(2) by (simp add: fill_more.simps [of sv pos i])
  next
    case False
    have "take (pos + n) buf = take (pos + n) (take (pos + i) buf)" using False by simp
    then show ?thesis using False less.prems(1) assms(2) by (simp add: fill_more.simps [of sv pos i])
  qed
qed

lemma lay_down_eq:
  assumes "\<forall>c \<in> set cs. 0 \<le> c" and "s + length cs \<le> 256" and "length buf = n + 8"
    and "length X + length (run_list s cs) \<le> n" and "take (length X) buf = X"
  shows "\<exists>buf'. lay_down (of_nat s * 0x0101010101010101) cs (length X) buf = Ok buf' \<and> length buf' = length buf
    \<and> take (length X + length (run_list s cs)) buf' = X @ run_list s cs"
  using assms
proof (induction cs arbitrary: s buf X)
  case (Cons c cs)
  let ?b = "of_nat s :: u8" and ?sv = "of_nat s * 0x0101010101010101 :: u64"
  have run: "le_bytes 8 (unat ?sv) = replicate 8 ?b" by (rule le_bytes_run) (use Cons.prems(2) in simp)
  obtain b1 where b1: "MEM_write64 buf (length X) ?sv = Ok b1" "length b1 = length buf" "take (length X + 8) b1 = X @ replicate 8 ?b"
    using written_run [OF run Cons.prems(5)] Cons.prems(3,4) by auto
  have "length X + nat c + 8 \<le> length b1" using Cons.prems(3,4) b1(2) by simp
  from fill_more_eq [OF run refl b1(3) this]
  obtain b2 where b2: "fill_more ?sv (length X) 8 (nat c) b1 = Ok b2" "length b2 = length b1"
    "take (length X + nat c) b2 = X @ replicate (nat c) ?b" by blast
  have next_sv: "?sv + 0x0101010101010101 = of_nat (Suc s) * 0x0101010101010101" by (simp add: algebra_simps)
  show ?case
    using Cons.IH [of "Suc s" b2 "X @ replicate (nat c) ?b"] Cons.prems b1 b2
    by (simp add: next_sv add.assoc del: of_nat_Suc)
qed simp

lemma spread_run_eq:
  assumes "even (length xs)"
  shows "spread_run (FSE_TABLESTEP (2 ^ L)) (2 ^ L) xs (walk L i) t
    = (walk L (i + length xs), scatter (map (walk L) [i..<i + length xs]) xs t)"
  using assms
proof (induction xs arbitrary: i t rule: induct_list012)
  case (3 x y xs)
  have "(walk L i + 2 * FSE_TABLESTEP (2 ^ L)) mod 2 ^ L = walk L (Suc (Suc i))"
    using walk_Suc [of L i] walk_Suc [of L "Suc i"] by (metis add.assoc mod_add_left_eq mult_2)
  moreover have "[i..<i + length (x # y # xs)] = i # Suc i # [Suc (Suc i)..<Suc (Suc i) + length xs]"
    by (simp add: upt_conv_Cons del: upt_Suc)
  ultimately show ?case using 3(1) [of "Suc (Suc i)"] 3(3) by (simp add: walk_Suc del: upt_Suc)
qed simp_all

section \<open>Every symbol gets its states\<close>

lemma low_states_set:
  assumes "k \<le> 2 ^ L"
  shows "distinct (low_states L k)" and "set (low_states L k) = {p. 2 ^ L - k \<le> p \<and> p < 2 ^ L}"
proof -
  show "distinct (low_states L k)" using assms by (auto simp: low_states_def distinct_map intro!: inj_onI)
  have "p \<in> set (low_states L k)" if "2 ^ L - k \<le> p" "p < 2 ^ L" for p
    using that assms by (auto simp: low_states_def image_iff intro!: bexI [of _ "2 ^ L - 1 - p"])
  then show "set (low_states L k) = {p. 2 ^ L - k \<le> p \<and> p < 2 ^ L}" using assms by (auto simp: low_states_def)
qed

lemma length_low_states [simp]: "length (low_states L k) = k"
  by (simp add: low_states_def)

text \<open>The states that symbols of low probability leave are visited once each.\<close>

lemma slow_mset:
  assumes "4 \<le> L" and "length lo + length ru = 2 ^ L" and "length lo < 2 ^ L"
  defines "t0 \<equiv> scatter (low_states L (length lo)) lo (replicate (2 ^ L) 0)"
  shows "\<exists>t. place_list (FSE_TABLESTEP (2 ^ L)) (2 ^ L) (2 ^ L - 1 - length lo) ru (0, t0) = Ok (0, t)
    \<and> length t = 2 ^ L \<and> mset t = mset lo + mset ru"
proof -
  let ?n = "2 ^ L :: nat" and ?h = "2 ^ L - 1 - length lo" and ?lows = "low_states L (length lo)"
  note k = assms(3)
  note low = low_states_set [OF less_imp_le_nat [OF k]]
  have al1: "distinct (allowed L ?h 0)" unfolding allowed_def by (rule distinct_filter [OF walk_perm(1) [OF assms(1)]])
  have "set (allowed L ?h 0) = {p \<in> {..<?n}. p \<le> ?h}" by (simp only: allowed_def set_filter walk_perm(2) [OF assms(1)])
  moreover have "{p \<in> {..<?n}. p \<le> ?h} = {..?h}" using k by (intro set_eqI) (simp, linarith)
  ultimately have al2: "set (allowed L ?h 0) = {..?h}" by (rule trans)
  have len: "length (allowed L ?h 0) = length ru" using distinct_card [OF al1] k assms(2) unfolding al2 by simp
  have "length t0 = ?n" by (simp add: t0_def)
  then have "place_list (FSE_TABLESTEP ?n) ?n ?h ru (0, t0) = Ok (0, scatter (allowed L ?h 0) ru t0)"
    using place_list_eq [of t0 L 0 ?h ru] len by simp
  moreover have "scatter (allowed L ?h 0) ru t0 = scatter (?lows @ allowed L ?h 0) (lo @ ru) (replicate ?n 0)"
    unfolding t0_def by (rule scatter_append [symmetric]) simp
  moreover have "set (?lows @ allowed L ?h 0) = {..<?n}" using low(2) al2 k by auto
  moreover have "distinct (?lows @ allowed L ?h 0)" using low al1 al2 k by auto
  ultimately show ?thesis
    using mset_scatter [of "?lows @ allowed L ?h 0" "lo @ ru" "replicate ?n 0"] len \<open>length t0 = ?n\<close> by simp
qed

lemma fast_mset:
  assumes "4 \<le> L" and "low_list 0 counts = []" and "\<forall>c \<in> set counts. -1 \<le> c" and "length counts \<le> 256"
    and "length (run_list 0 counts) = 2 ^ L" and "length t0 = 2 ^ L"
  shows "\<exists>sp t. lay_down 0 counts 0 (replicate (2 ^ L + 8) 0) = Ok sp
    \<and> spread_run (FSE_TABLESTEP (2 ^ L)) (2 ^ L) (take (2 ^ L) sp) 0 t0 = (0, t) \<and> length t = 2 ^ L \<and> mset t = mset (run_list 0 counts)"
proof -
  let ?ru = "run_list 0 counts" and ?n = "2 ^ L :: nat"
  have "low_list m cs = [] \<Longrightarrow> -1 \<notin> set cs" for m cs by (induction cs arbitrary: m) (auto split: if_splits)
  then have "-1 \<notin> set counts" using assms(2) by blast
  have pos: "\<forall>c \<in> set counts. 0 \<le> c"
  proof
    fix c assume "c \<in> set counts"
    then have "c \<noteq> -1" "-1 \<le> c" using assms(3) \<open>-1 \<notin> set counts\<close> by auto
    then show "0 \<le> c" by simp
  qed
  obtain sp where sp: "lay_down 0 counts 0 (replicate (?n + 8) 0) = Ok sp" "take ?n sp = ?ru"
    using lay_down_eq [OF pos, of 0 "replicate (?n + 8) 0" ?n "[]"] assms(4,5) by auto
  have "even (length ?ru)" using assms(1,5) by simp
  then have "spread_run (FSE_TABLESTEP ?n) ?n ?ru 0 t0 = (0, scatter (map (walk L) [0..<?n]) ?ru t0)"
    using spread_run_eq [of ?ru L 0 t0] assms(5) by simp
  moreover have "mset (scatter (map (walk L) [0..<?n]) ?ru t0) = mset ?ru"
    using walk_perm [OF assms(1)] assms(5,6) by (intro mset_scatter) simp_all
  ultimately show ?thesis using sp assms(6) by auto
qed

lemma high_moved:
  assumes "L \<le> 15" and "0 < k" and "k \<le> 2 ^ L"
  shows "of_nat (2 ^ L - 1) - of_nat k \<noteq> (of_nat (2 ^ L - 1) :: u32)"
proof -
  have "(2 :: nat) ^ L \<le> 2 ^ 15" using assms(1) by (intro power_increasing) simp_all
  then have "k < 2 ^ LENGTH(32)" using assms(3) by simp
  then have "(of_nat k :: u32) \<noteq> of_nat 0" using assms(2) by (subst word_of_nat_eq_iff) (simp add: take_bit_nat_eq_self)
  then show ?thesis by simp
qed

lemma spread_mset:
  assumes "norm_ok L counts"
  shows "\<exists>fast t. spread_symbols L counts = Ok (fast, 0, t) \<and> length t = 2 ^ L \<and> mset t = mset (low_list 0 counts) + mset (run_list 0 counts)"
proof -
  let ?lo = "low_list 0 counts" and ?ru = "run_list 0 counts" and ?n = "2 ^ L :: nat"
  have L: "4 \<le> L" "L \<le> 15" and c: "\<forall>c \<in> set counts. -1 \<le> c" and n256: "length counts \<le> 256"
    and sum: "length ?lo + length ?ru = ?n"
    using assms length_lists [of counts 0] by (auto simp: norm_ok_def FSE_MAX_TABLELOG_def)
  let ?k = "length ?lo"
  define t0 where "t0 = scatter (low_states L ?k) ?lo (replicate ?n 0)"
  have t0: "length t0 = ?n" by (simp add: t0_def)
  have lay: "lay_low 0 counts (of_nat (?n - 1), replicate ?n 0) = Ok (of_nat (?n - 1) - of_nat ?k, t0)"
    using lay_low_eq [OF L(2), of 0 0 counts "replicate ?n 0"] sum by (simp add: t0_def low_states_def)
  consider "?k = 0" | "0 < ?k" "?k < ?n" | "?k = ?n" using sum by linarith
  then show ?thesis
  proof cases
    case 1
    then show ?thesis
      using fast_mset [OF L(1) _ c n256 _ t0] sum lay by (auto simp: spread_symbols_def spread_symbols_in_def Let_def)
  next
    case 2
    obtain t where "place_list (FSE_TABLESTEP ?n) ?n (?n - 1 - ?k) ?ru (0, t0) = Ok (0, t)" "length t = ?n" "mset t = mset ?lo + mset ?ru"
      using slow_mset [OF L(1) sum 2(2)] unfolding t0_def by blast
    then show ?thesis
      using high_moved [OF L(2) 2(1)] 2 unat_high [OF L(2) 2(2)] lay by (auto simp: spread_symbols_def spread_symbols_in_def Let_def place_all_list)
  next
    case 3
    have "mset t0 = mset ?lo"
      unfolding t0_def using low_states_set [of ?k L] 3 by (intro mset_scatter) auto
    then show ?thesis
      using high_moved [OF L(2), of ?k] 3 sum lay t0 by (auto simp: spread_symbols_def spread_symbols_in_def Let_def place_all_list)
  qed
qed

lemma spread_counts:
  assumes "norm_ok L counts"
  shows "\<exists>fast t. spread_symbols L counts = Ok (fast, 0, t) \<and> length t = 2 ^ L
    \<and> (\<forall>s < length counts. count_list t (of_nat s) = weight (counts ! s)) \<and> (\<forall>x \<in> set t. unat x < length counts)"
proof -
  obtain fast t where t: "spread_symbols L counts = Ok (fast, 0, t)" "length t = 2 ^ L"
    "mset t = mset (low_list 0 counts) + mset (run_list 0 counts)"
    using spread_mset [OF assms] by blast
  have c: "\<forall>c \<in> set counts. -1 \<le> c" and n: "length counts \<le> 256" using assms by (auto simp: norm_ok_def)
  have "count_list t (of_nat s) = weight (counts ! s)" if "s < length counts" for s
    using count_symbols [OF c, of 0 s] n that by (simp add: count_mset [symmetric] t(3))
  moreover have "unat x < length counts" if "x \<in> set t" for x
  proof -
    have small: "x \<in> set (low_list m cs) \<union> set (run_list m cs) \<Longrightarrow> m + length cs \<le> 256 \<Longrightarrow> unat x < m + length cs" for m cs
    proof (induction cs arbitrary: m)
      case (Cons c cs)
      have "unat (of_nat m :: u8) = m" using Cons.prems(2) by (simp add: unsigned_of_nat take_bit_nat_eq_self)
      then show ?case using Cons by (auto split: if_splits) (fastforce)+
    qed simp
    have "x \<in> set (low_list 0 counts) \<union> set (run_list 0 counts)" using that t(3) by (metis set_mset_mset set_mset_union)
    then show ?thesis using small n by fastforce
  qed
  ultimately show ?thesis using t by blast
qed

text \<open>A larger work space changes nothing.\<close>

lemma write64_more: "MEM_write64 buf pos v = Ok buf' \<Longrightarrow> MEM_write64 (buf @ pad) pos v = Ok (buf' @ pad) \<and> length buf' = length buf"
  by (auto simp: MEM_write64_def split: if_splits)

lemma fill_more_more:
  "fill_more v pos i n buf = Ok buf' \<Longrightarrow> fill_more v pos i n (buf @ pad) = Ok (buf' @ pad) \<and> length buf' = length buf"
proof (induction v pos i n buf rule: fill_more.induct)
  case (1 v pos i n buf)
  show ?case
  proof (cases "i < n")
    case True
    then obtain b where b: "MEM_write64 buf (pos + i) v = Ok b" "fill_more v pos (i + 8) n b = Ok buf'"
      using "1.prems" by (auto simp: fill_more.simps [of v pos i n buf] cbind_eq_Ok)
    then show ?thesis using "1.IH" [OF True, of b] write64_more [OF b(1), of pad] True by (simp add: fill_more.simps [of v pos i n])
  next
    case False
    then show ?thesis using "1.prems" by (simp add: fill_more.simps [of v pos i n])
  qed
qed

lemma lay_down_more:
  "lay_down v cs pos buf = Ok buf' \<Longrightarrow> lay_down v cs pos (buf @ pad) = Ok (buf' @ pad) \<and> length buf' = length buf"
proof (induction cs arbitrary: v pos buf)
  case (Cons c cs)
  then obtain b1 b2 where b: "MEM_write64 buf pos v = Ok b1" "fill_more v pos 8 (nat c) b1 = Ok b2"
    "lay_down (v + 0x0101010101010101) cs (pos + nat c) b2 = Ok buf'"
    by (auto simp: cbind_eq_Ok)
  then show ?case
    using Cons.IH [OF b(3)] write64_more [OF b(1), of pad] fill_more_more [OF b(2), of pad] by simp
qed simp

lemma spread_more:
  assumes "spread_symbols L counts = Ok r" and "2 ^ L + 8 \<le> room"
  shows "spread_symbols_in room L counts = Ok r"
proof -
  obtain k where room: "room = 2 ^ L + 8 + k" using assms(2) by (auto simp: le_iff_add)
  have rep: "replicate room (0 :: u8) = replicate (2 ^ L + 8) 0 @ replicate k 0" unfolding room by (rule replicate_add)
  obtain h t where ht: "lay_low 0 counts (of_nat (2 ^ L - 1), replicate (2 ^ L) 0) = Ok (h, t)"
    using assms(1) by (auto simp: spread_symbols_def spread_symbols_in_def Let_def cbind_eq_Ok)
  show ?thesis
  proof (cases "h = of_nat (2 ^ L - 1)")
    case True
    then obtain b where b: "lay_down 0 counts 0 (replicate (2 ^ L + 8) 0) = Ok b" "r = (True, spread_run (FSE_TABLESTEP (2 ^ L)) (2 ^ L) (take (2 ^ L) b) 0 t)"
      using assms(1) ht by (auto simp: spread_symbols_def spread_symbols_in_def Let_def cbind_eq_Ok)
    have b': "lay_down 0 counts 0 (replicate room 0) = Ok (b @ replicate k 0)" "length b = 2 ^ L + 8"
      unfolding rep using lay_down_more [OF b(1), of "replicate k 0"] by simp_all
    have "take (2 ^ L) (b @ replicate k 0) = take (2 ^ L) b" using b'(2) by simp
    then show ?thesis using ht True b(2) b'(1) by (simp add: spread_symbols_in_def Let_def)
  next
    case False
    then show ?thesis using assms(1) ht by (auto simp: spread_symbols_def spread_symbols_in_def Let_def)
  qed
qed

text \<open>C34: spreading the symbols of an FSE table: for counts that add up to the size of the table, with or without
  symbols of low probability, the loops end, nothing is written outside the table or its work space, the
  walk ends at state 0, and every symbol has exactly as many states as its count says.\<close>
theorem spread_exact:
  assumes "norm_ok L counts"
  shows "\<exists>fast t. spread_symbols L counts = Ok (fast, 0, t) \<and> length t = 2 ^ L
    \<and> (\<forall>s < length counts. count_list t (of_nat s) = weight (counts ! s)) \<and> (\<forall>x \<in> set t. unat x < length counts)"
  by (rule spread_counts [OF assms])

lemma spread_exact_witness:
  "\<exists>fast t. spread_symbols 5 [10, -1, 15, 0, 6] = Ok (fast, 0, t) \<and> length t = 32 \<and> count_list t 2 = 15"
proof -
  have "norm_ok 5 [10, -1, 15, 0, 6]" by (simp add: norm_ok_def FSE_MAX_TABLELOG_def weight_def)
  from spread_exact [OF this] show ?thesis by (auto simp: weight_def dest!: spec [of _ 2])
qed

end
