(* ===== verification/Zstd_FSETables.thy ===== *)
theory Zstd_FSETables
  imports Zstd_FSESpread
begin

text \<open>
  The tables of the coder and of the decoder say the same: from every state and for every symbol, the decoder finds
  the symbol in the state the coder moves to, and from the bits the coder wrote the state it came from.
\<close>

section \<open>Where the states of a symbol are\<close>

text \<open>The first slot of a symbol, and which of its states a state is.\<close>

definition first_slot :: "int list \<Rightarrow> nat \<Rightarrow> nat" where
  "first_slot counts s = sum_list (map weight (take s counts))"

definition rank :: "'a list \<Rightarrow> nat \<Rightarrow> nat" where
  "rank t u = count_list (take u t) (t ! u)"

lemma count_list_take_Suc: "u < length t \<Longrightarrow> count_list (take (Suc u) t) x = count_list (take u t) x + of_bool (t ! u = x)"
  by (simp add: take_Suc_conv_app_nth)

lemma count_list_take_mono: "i \<le> j \<Longrightarrow> count_list (take i t) x \<le> count_list (take j t) x"
proof -
  assume "i \<le> j"
  then have "take j t = take i t @ take (j - i) (drop i t)" by (simp add: take_add [symmetric])
  then show ?thesis by simp
qed

lemma rank_less: "u < length t \<Longrightarrow> rank t u < count_list t (t ! u)"
  using count_list_take_Suc [of u t "t ! u"] count_list_take_mono [of "Suc u" "length t" t "t ! u"] by (simp add: rank_def)

lemma rank_strict: "\<lbrakk>u < v; v < length t; t ! u = t ! v\<rbrakk> \<Longrightarrow> rank t u < rank t v"
  using count_list_take_Suc [of u t "t ! v"] count_list_take_mono [of "Suc u" v t "t ! v"] by (simp add: rank_def)

text \<open>Every rank below the count of a symbol is that of one of its states.\<close>

lemma rank_onto: "r < count_list t x \<Longrightarrow> \<exists>u < length t. t ! u = x \<and> rank t u = r"
proof (induction t rule: rev_induct)
  case (snoc y t)
  show ?case
  proof (cases "r < count_list t x")
    case True
    then obtain u where "u < length t" "t ! u = x" "rank t u = r" using snoc.IH by blast
    then show ?thesis by (intro exI [of _ u]) (simp add: rank_def nth_append)
  next
    case False
    then have "y = x" "r = count_list t x" using snoc.prems by (auto split: if_splits)
    then show ?thesis by (intro exI [of _ "length t"]) (simp add: rank_def)
  qed
qed simp

lemma first_slot_Suc: "s < length counts \<Longrightarrow> first_slot counts (Suc s) = first_slot counts s + weight (counts ! s)"
  by (simp add: first_slot_def take_Suc_conv_app_nth)

lemma first_slot_mono: "s \<le> s' \<Longrightarrow> first_slot counts s \<le> first_slot counts s'"
proof -
  assume "s \<le> s'"
  then have "take s' counts = take s counts @ take (s' - s) (drop s counts)" by (simp add: take_add [symmetric])
  then show ?thesis by (simp add: first_slot_def)
qed

lemma first_slot_total: "first_slot counts s \<le> sum_list (map weight counts)"
  using first_slot_mono [of s "max s (length counts)" counts] by (simp add: first_slot_def)

lemma unat_byte_eq [simp]: "unat (a :: u8) = unat b \<longleftrightarrow> a = b"
  by (auto dest: unsigned_word_eqI)

section \<open>The decoder's entries\<close>

definition decode_entry :: "nat \<Rightarrow> u8 \<Rightarrow> u16 \<Rightarrow> fse_decode" where
  "decode_entry L s nextState =
     (let nbBits = (of_nat L - of_nat (ZSTD_highbit32 (ucast nextState)) :: u8)
      in \<lparr>de_newState = push_bit (unat nbBits) nextState - of_nat (2 ^ L), de_symbol = s, de_nbBits = nbBits\<rparr>)"

lemma decode_entries_eq:
  assumes "\<forall>x \<in> set ss. unat x < length ns"
  shows "\<exists>es. decode_entries L ss ns = Ok es \<and> length es = length ss
    \<and> (\<forall>u < length ss. es ! u = decode_entry L (ss ! u) (ns ! unat (ss ! u) + of_nat (rank ss u)))"
  using assms
proof (induction ss arbitrary: ns)
  case (Cons s ss)
  let ?ns = "ns[unat s := ns ! unat s + 1]"
  have s: "unat s < length ns" using Cons.prems by simp
  obtain es where es: "decode_entries L ss ?ns = Ok es" "length es = length ss"
    "\<forall>u < length ss. es ! u = decode_entry L (ss ! u) (?ns ! unat (ss ! u) + of_nat (rank ss u))"
    using Cons.IH [of ?ns] Cons.prems by auto
  have "?ns ! unat (ss ! u) + of_nat (rank ss u) = ns ! unat (ss ! u) + of_nat (rank (s # ss) (Suc u))" for u
    using s by (cases "s = ss ! u") (simp_all add: rank_def nth_list_update)
  then have "(decode_entry L s (ns ! unat s) # es) ! u = decode_entry L ((s # ss) ! u) (ns ! unat ((s # ss) ! u) + of_nat (rank (s # ss) u))"
    if "u < Suc (length ss)" for u
    using es(3) that by (cases u) (simp_all add: rank_def)
  then show ?case using s es(1,2) by (simp add: decode_entry_def Let_def not_le)
qed simp

section \<open>The coder's states\<close>

fun slots :: "nat list \<Rightarrow> bytes \<Rightarrow> nat list" where
  "slots c [] = []"
| "slots c (s # ss) = c ! unat s # slots (c[unat s := Suc (c ! unat s)]) ss"

lemma length_slots [simp]: "length (slots c ss) = length ss"
  by (induction ss arbitrary: c) auto

lemma slots_nth:
  assumes "\<forall>x \<in> set ss. unat x < length c" and "u < length ss"
  shows "slots c ss ! u = c ! unat (ss ! u) + rank ss u"
  using assms
proof (induction ss arbitrary: c u)
  case (Cons s ss)
  show ?case
  proof (cases u)
    case (Suc v)
    have "unat s < length c" using Cons.prems by simp
    then have "c[unat s := Suc (c ! unat s)] ! unat (ss ! v) + rank ss v = c ! unat (ss ! v) + rank (s # ss) (Suc v)"
      by (cases "s = ss ! v") (simp_all add: rank_def nth_list_update)
    then show ?thesis using Cons.IH [of "c[unat s := Suc (c ! unat s)]" v] Cons.prems Suc by simp
  qed (simp add: rank_def)
qed simp

lemma fill_states_eq:
  assumes "\<forall>x \<in> set ss. unat x < length c" and "\<forall>p \<in> set (slots c ss). p < length states" and "length states \<le> 2 ^ 15"
  shows "fill_states n u ss (map of_nat c) states
    = Ok (scatter (slots c ss) (map (\<lambda>v. of_nat (n + u + v)) [0..<length ss]) states)"
  using assms
proof (induction ss arbitrary: c u states)
  case (Cons s ss)
  have s: "unat s < length c" "c ! unat s < length states" using Cons.prems by simp_all
  then have "c ! unat s < 2 ^ LENGTH(16)" using Cons.prems(3) by simp
  then have v: "unat (map of_nat c ! unat s :: u16) = c ! unat s"
    using s(1) by (simp add: unsigned_of_nat take_bit_nat_eq_self)
  have m: "(map of_nat c)[unat s := map of_nat c ! unat s + 1] = map (of_nat :: nat \<Rightarrow> u16) (c[unat s := Suc (c ! unat s)])"
    using s(1) by (simp add: map_update add.commute)
  have "fill_states n u (s # ss) (map of_nat c) states
      = fill_states n (Suc u) ss (map of_nat (c[unat s := Suc (c ! unat s)])) (states[c ! unat s := of_nat (n + u)])"
    using s by (simp only: fill_states.simps v m length_map simp_thms if_True)
  moreover have "[0..<Suc (length ss)] = 0 # map Suc [0..<length ss]" by (simp only: map_Suc_upt) (simp only: upt_conv_Cons zero_less_Suc)
  ultimately show ?case
    using Cons.IH [of "c[unat s := Suc (c ! unat s)]" "states[c ! unat s := of_nat (n + u)]" "Suc u"] Cons.prems s
    by (simp add: comp_def algebra_simps del: upt_Suc fill_states.simps)
qed simp

lemma cumulate_eq:
  assumes "\<forall>c \<in> set counts. -1 \<le> c" and "m + sum_list (map weight counts) \<le> 2 ^ 15"
  shows "cumulate (of_nat m) counts = Ok (map (\<lambda>k. of_nat (m + first_slot counts k)) [0..<Suc (length counts)])"
  using assms
proof (induction counts arbitrary: m)
  case (Cons c cs)
  have w: "m + weight c \<le> 2 ^ 15" using Cons.prems(2) by simp
  have nxt: "of_nat m + (if c = -1 then 1 else of_int c) = (of_nat (m + weight c) :: u16)"
    using Cons.prems(1) by (auto simp: weight_def)
  have "unat (of_nat (m + weight c) :: u16) = m + weight c" "unat (of_nat m :: u16) = m"
    using w by (simp_all add: unsigned_of_nat take_bit_nat_eq_self del: of_nat_add)
  then have "\<not> (of_nat (m + weight c) :: u16) < of_nat m" by (simp add: word_less_nat_alt del: of_nat_add)
  moreover have "[0..<Suc (Suc (length cs))] = 0 # map Suc [0..<Suc (length cs)]"
    by (simp only: map_Suc_upt) (simp only: upt_conv_Cons zero_less_Suc)
  ultimately show ?case
    using Cons.IH [of "m + weight c"] Cons.prems nxt by (simp add: first_slot_def add.assoc del: upt_Suc of_nat_add)
qed (simp add: first_slot_def)

section \<open>The transformations\<close>

definition transform_of :: "nat \<Rightarrow> int \<Rightarrow> nat \<Rightarrow> int \<Rightarrow> symbol_transform" where
  "transform_of L j m n =
     (if n = 0 then \<lparr>deltaFindState = j, deltaNbBits = of_nat ((L + 1) * 2 ^ 16) - of_nat (2 ^ L)\<rparr>
      else if n = -1 \<or> n = 1 then \<lparr>deltaFindState = int m - 1, deltaNbBits = of_nat (L * 2 ^ 16) - of_nat (2 ^ L)\<rparr>
      else
        let maxBitsOut = L - ZSTD_highbit32 (of_int (n - 1))
        in \<lparr>deltaFindState = int m - n, deltaNbBits = of_nat (maxBitsOut * 2 ^ 16) - push_bit maxBitsOut (of_int n)\<rparr>)"

lemma length_transforms [simp]: "length (transforms L junk s m ns) = length ns"
  by (induction ns arbitrary: s m) (auto simp: Let_def)

lemma transforms_nth:
  assumes "\<forall>c \<in> set ns. -1 \<le> c" and "i < length ns"
  shows "transforms L junk s m ns ! i = transform_of L (junk (s + i)) (m + first_slot ns i) (ns ! i)"
  using assms
proof (induction ns arbitrary: i s m)
  case (Cons n ns)
  have "transforms L junk s m (n # ns) = transform_of L (junk s) m n # transforms L junk (Suc s) (m + weight n) ns"
    using Cons.prems(1) by (auto simp: transform_of_def weight_def Let_def)
  then show ?case using Cons by (cases i) (simp_all add: first_slot_def add.assoc)
qed simp

section \<open>Numbers of bits\<close>

lemma small_powers:
  assumes "L \<le> 12" and "k \<le> Suc L"
  shows "(2 :: nat) ^ k \<le> 8192"
  using power_increasing [of k 13 "2 :: nat"] assms by simp

text \<open>What an entry of the decoder says of the number of its state.\<close>

lemma decode_entry_eq:
  assumes "L \<le> 12" and "k \<le> L" and "2 ^ k \<le> y" and "y < 2 ^ Suc k" and "unat n = y"
  shows "unat (de_nbBits (decode_entry L s n)) = L - k"
    and "unat (de_newState (decode_entry L s n)) = y * 2 ^ (L - k) - 2 ^ L"
    and "de_symbol (decode_entry L s n) = s"
proof -
  have "unat (ucast n :: u32) = y"
    using assms(5) less_trans [OF unsigned_less [of n, where ?'a = nat], of "2 ^ 32"]
    by (simp add: unsigned_ucast_eq take_bit_nat_eq_self)
  then have hb: "ZSTD_highbit32 (ucast n) = k" using highbit32_eq [of k "ucast n"] assms(3,4) by simp
  have "(of_nat L - of_nat k :: u8) = of_nat (L - k)" using assms(2) by (simp add: of_nat_diff)
  then have nb: "unat (of_nat L - of_nat k :: u8) = L - k" using assms(1) by (simp add: unsigned_of_nat take_bit_nat_eq_self)
  have pow: "(2 :: nat) ^ k * 2 ^ (L - k) = 2 ^ L" "(2 :: nat) ^ Suc k * 2 ^ (L - k) = 2 ^ Suc L"
    using assms(2) by (simp_all flip: power_add)
  have "y * 2 ^ (L - k) < 2 ^ Suc L" using assms(4) unfolding pow(2) [symmetric] by simp
  moreover have low: "2 ^ L \<le> y * 2 ^ (L - k)" using assms(3) unfolding pow(1) [symmetric] by simp
  ultimately have "y * 2 ^ (L - k) < 8192" using small_powers [OF assms(1), of "Suc L"] by simp
  then have "unat (push_bit (L - k) n) = y * 2 ^ (L - k)"
    using assms(5) by (simp only: unsigned_push_bit_eq) (simp add: take_bit_nat_eq_self push_bit_eq_mult)
  moreover have "unat (of_nat (2 ^ L) :: u16) = 2 ^ L"
    using small_powers [OF assms(1), of L] assms(1) by (simp only: unsigned_of_nat of_nat_id) (simp add: take_bit_nat_eq_self)
  ultimately have "unat (push_bit (L - k) n - of_nat (2 ^ L)) = y * 2 ^ (L - k) - 2 ^ L"
    using low by (subst unat_sub) (simp_all add: word_le_nat_alt)
  then show "unat (de_newState (decode_entry L s n)) = y * 2 ^ (L - k) - 2 ^ L"
    by (simp add: decode_entry_def Let_def hb nb)
  show "unat (de_nbBits (decode_entry L s n)) = L - k" "de_symbol (decode_entry L s n) = s"
    by (simp_all add: decode_entry_def Let_def hb nb)
qed

text \<open>What a transformation says of the count of its symbol.\<close>

lemma between_powers: "0 < (m :: nat) \<Longrightarrow> \<exists>k. 2 ^ k \<le> m \<and> m < 2 ^ Suc k"
proof (induction m rule: less_induct)
  case (less m)
  show ?case
  proof (cases "m = 1")
    case False
    then obtain k where "2 ^ k \<le> m div 2" "m div 2 < 2 ^ Suc k" using less.IH [of "m div 2"] less.prems by auto
    then have "2 * 2 ^ k \<le> m" "m < 2 * (2 * 2 ^ k)" unfolding power_Suc by linarith+
    then show ?thesis by (intro exI [of _ "Suc k"]) simp
  qed (auto intro: exI [of _ 0])
qed

lemma transform_bits:
  assumes "5 \<le> L" and "L \<le> 12" and "-1 \<le> c" and "c \<noteq> 0" and "weight c \<le> 2 ^ L"
  shows "\<exists>mb. 1 \<le> mb \<and> mb \<le> L \<and> 2 ^ L \<le> weight c * 2 ^ mb \<and> weight c * 2 ^ mb \<le> 2 ^ Suc L
    \<and> deltaNbBits (transform_of L j m c) = of_nat (mb * 2 ^ 16) - of_nat (weight c * 2 ^ mb)
    \<and> deltaFindState (transform_of L j m c) = int m - int (weight c)"
proof (cases "c = -1 \<or> c = 1")
  case True
  then show ?thesis using assms(1) by (intro exI [of _ L]) (auto simp: transform_of_def weight_def)
next
  case False
  define n where "n = nat c"
  have n: "c = int n" "2 \<le> n" "weight c = n" using False assms(3,4) by (auto simp: n_def weight_def)
  obtain k where k: "2 ^ k \<le> n - 1" "n - 1 < 2 ^ Suc k" using between_powers [of "n - 1"] n(2) by auto
  have "n - 1 < 8192" using assms(5) n(2,3) small_powers [OF assms(2), of L] by simp
  then have "unat (of_nat (n - 1) :: u32) = n - 1" by (simp only: unsigned_of_nat of_nat_id) (simp add: take_bit_nat_eq_self)
  moreover have "c - 1 = int (n - 1)" using n by simp
  ultimately have hb: "ZSTD_highbit32 (of_int (c - 1)) = k" using highbit32_eq [of k "of_nat (n - 1)"] k by simp
  have "(2 :: nat) ^ k < 2 ^ L" using k(1) assms(5) n(2,3) by linarith
  then have kL: "k < L" by simp
  have pow: "(2 :: nat) ^ k * 2 ^ (L - k) = 2 ^ L" "(2 :: nat) ^ Suc k * 2 ^ (L - k) = 2 ^ Suc L"
    using kL by (simp_all flip: power_add)
  have "2 ^ L \<le> n * 2 ^ (L - k)" using k(1) unfolding pow(1) [symmetric] by simp
  moreover have "n * 2 ^ (L - k) \<le> 2 ^ Suc L" unfolding pow(2) [symmetric] by (rule mult_le_mono1) (use k(2) n(2) in linarith)
  ultimately show ?thesis
    using kL False assms(4) hb n
    by (intro exI [of _ "L - k"]) (simp add: transform_of_def Let_def push_bit_eq_mult)
qed

text \<open>As many bits are written as bring the state down to the count of the symbol.\<close>

lemma coder_bits:
  fixes d :: u32
  assumes "L \<le> 12" and "1 \<le> mb" and "mb \<le> L" and "2 ^ L \<le> n * 2 ^ mb" and "n * 2 ^ mb \<le> 2 ^ Suc L"
    and "d = of_nat (mb * 2 ^ 16) - of_nat (n * 2 ^ mb)" and "2 ^ L \<le> x" and "x < 2 ^ Suc L"
  defines "nb \<equiv> nat ((int x + uint d) div 2 ^ 16)"
  shows "nb \<le> L" and "n \<le> x div 2 ^ nb" and "x div 2 ^ nb < 2 * n"
proof -
  define M where "M = n * 2 ^ mb"
  have M: "M \<le> 8192" "2 ^ L \<le> M" "M \<le> 2 * 2 ^ L" using assms(4,5) small_powers [OF assms(1), of "Suc L"] by (simp_all add: M_def)
  have big: "mb * 2 ^ 16 < 2 ^ 32" "M \<le> mb * 2 ^ 16" using assms(1-3) M(1) by simp_all
  then have "unat d = mb * 2 ^ 16 - M"
    unfolding assms(6) M_def [symmetric]
    by (simp only: of_nat_diff [symmetric] unsigned_of_nat of_nat_id) (simp add: take_bit_nat_eq_self)
  then have d: "uint d = int (mb * 2 ^ 16 - M)" by (metis uint_nat)
  then have nb: "nb = (x + (mb * 2 ^ 16 - M)) div 2 ^ 16"
    unfolding nb_def by (metis nat_int of_nat_add of_nat_numeral of_nat_power zdiv_int)
  have xs: "x < 2 * 2 ^ L" "2 ^ L \<le> (8192 :: nat)" using assms(8) small_powers [OF assms(1), of L] by simp_all
  show "nb \<le> L" "n \<le> x div 2 ^ nb" "x div 2 ^ nb < 2 * n"
  proof -
    have "nb \<le> L \<and> n \<le> x div 2 ^ nb \<and> x div 2 ^ nb < 2 * n"
    proof (cases "M \<le> x")
      case True
      then have "x + (mb * 2 ^ 16 - M) = mb * 2 ^ 16 + (x - M)" using big by simp
      moreover have "x - M < 2 ^ 16" using xs M by simp
      ultimately have "nb = mb" unfolding nb by simp
      moreover have "n \<le> x div 2 ^ mb" using True by (simp add: M_def less_eq_div_iff_mult_less_eq)
      moreover have "x < 2 * n * 2 ^ mb" using xs(1) M(2) by (simp add: M_def mult.assoc)
      then have "x div 2 ^ mb < 2 * n" by (simp add: div_less_iff_less_mult)
      ultimately show ?thesis using assms(3) by simp
    next
      case False
      obtain b where b: "mb = Suc b" using assms(2) by (cases mb) simp_all
      have "x + (mb * 2 ^ 16 - M) = b * 2 ^ 16 + (2 ^ 16 - (M - x))" using False big b xs M by simp
      moreover have "0 < M - x" "M - x \<le> 2 ^ 16" using False M xs by simp_all
      ultimately have "nb = b" unfolding nb by simp
      moreover have "n * 2 ^ b \<le> x" using M(3) assms(7) by (simp add: M_def b)
      then have "n \<le> x div 2 ^ b" by (simp add: less_eq_div_iff_mult_less_eq)
      moreover have "x < 2 * n * 2 ^ b" using False by (simp add: M_def b)
      then have "x div 2 ^ b < 2 * n" by (simp add: div_less_iff_less_mult)
      ultimately show ?thesis using assms(3) b by simp
    qed
    then show "nb \<le> L" "n \<le> x div 2 ^ nb" "x div 2 ^ nb < 2 * n" by simp_all
  qed
qed

lemma first_bits:
  fixes d :: u32
  assumes "L \<le> 12" and "1 \<le> mb" and "mb \<le> L" and "n * 2 ^ mb \<le> 2 ^ Suc L"
    and "d = of_nat (mb * 2 ^ 16) - of_nat (n * 2 ^ mb)"
  shows "unat (drop_bit 16 (d + 2 ^ 15)) = mb" and "uint (of_nat (mb * 2 ^ 16) - d) = int (n * 2 ^ mb)"
proof -
  define M where "M = n * 2 ^ mb"
  have M: "M \<le> 8192" using assms(4) small_powers [OF assms(1), of "Suc L"] by (simp add: M_def)
  have big: "mb * 2 ^ 16 < 2 ^ 32" "M \<le> mb * 2 ^ 16" using assms(1-3) M by simp_all
  have "d + 2 ^ 15 = of_nat (mb * 2 ^ 16 + (2 ^ 15 - M))"
    unfolding assms(5) M_def [symmetric] using M by (simp add: of_nat_diff)
  moreover have "mb * 2 ^ 16 + (2 ^ 15 - M) < 2 ^ LENGTH(32)" using assms(1,3) by simp
  ultimately have "unat (d + 2 ^ 15) = mb * 2 ^ 16 + (2 ^ 15 - M)"
    by (simp only: unsigned_of_nat of_nat_id take_bit_nat_eq_self)
  moreover have "unat (drop_bit 16 (d + 2 ^ 15)) = unat (d + 2 ^ 15) div 2 ^ 16"
    by (subst unat_drop_bit_eq) (rule drop_bit_eq_div)
  ultimately show "unat (drop_bit 16 (d + 2 ^ 15)) = mb" by simp
  have "of_nat (mb * 2 ^ 16) - d = (of_nat M :: u32)" unfolding assms(5) M_def by simp
  moreover have "M < 2 ^ LENGTH(32)" using M by simp
  ultimately show "uint (of_nat (mb * 2 ^ 16) - d) = int (n * 2 ^ mb)"
    by (simp only: unsigned_of_nat take_bit_nat_eq_self M_def)
qed

section \<open>The tables that are built\<close>

text \<open>A spread as the counts ask for it.\<close>

definition spread_ok :: "nat \<Rightarrow> int list \<Rightarrow> bytes \<Rightarrow> bool" where
  "spread_ok L counts t \<longleftrightarrow> length t = 2 ^ L \<and> (\<forall>x \<in> set t. unat x < length counts)
     \<and> (\<forall>s < length counts. count_list t (of_nat s) = weight (counts ! s))"

lemma spread_ok_count:
  assumes "spread_ok L counts t" and "unat x < length counts"
  shows "count_list t x = weight (counts ! unat x)"
  using assms by (auto simp: spread_ok_def dest!: spec [of _ "unat x"])

definition slot_starts :: "nat \<Rightarrow> int list \<Rightarrow> nat list" where
  "slot_starts L counts = map (first_slot counts) [0..<length counts] @ [2 ^ L + 1]"

lemma slot_of_state:
  assumes "spread_ok L counts t" and "u < 2 ^ L"
  shows "slots (slot_starts L counts) t ! u = first_slot counts (unat (t ! u)) + rank t u"
    and "first_slot counts (unat (t ! u)) + rank t u < first_slot counts (Suc (unat (t ! u)))"
proof -
  have t: "unat (t ! u) < length counts" "u < length t" using assms by (auto simp: spread_ok_def)
  have "\<forall>x \<in> set t. unat x < length (slot_starts L counts)" using assms(1) by (auto simp: spread_ok_def slot_starts_def)
  then show "slots (slot_starts L counts) t ! u = first_slot counts (unat (t ! u)) + rank t u"
    using slots_nth [of t "slot_starts L counts" u] t by (simp add: slot_starts_def nth_append)
  show "first_slot counts (unat (t ! u)) + rank t u < first_slot counts (Suc (unat (t ! u)))"
    using rank_less [OF t(2)] spread_ok_count [OF assms(1) t(1)] by (simp add: first_slot_Suc [OF t(1)])
qed

lemma slots_perm:
  assumes "norm_ok L counts" and "spread_ok L counts t"
  shows "distinct (slots (slot_starts L counts) t)" and "\<forall>p \<in> set (slots (slot_starts L counts) t). p < 2 ^ L"
proof -
  let ?sl = "slots (slot_starts L counts) t"
  have len: "length t = 2 ^ L" and total: "sum_list (map weight counts) = 2 ^ L"
    using assms by (simp_all add: spread_ok_def norm_ok_def)
  have "?sl ! u \<noteq> ?sl ! v" if "u < v" "v < 2 ^ L" for u v
  proof (cases "t ! u = t ! v")
    case True
    then show ?thesis
      using slot_of_state(1) [OF assms(2)] rank_strict [OF that(1), of t] that len by simp
  next
    case False
    then consider "Suc (unat (t ! u)) \<le> unat (t ! v)" | "Suc (unat (t ! v)) \<le> unat (t ! u)"
      by (metis Suc_leI linorder_neqE_nat unat_byte_eq)
    then show ?thesis
      using slot_of_state [OF assms(2), of u] slot_of_state [OF assms(2), of v] that
        first_slot_mono [of "Suc (unat (t ! u))" "unat (t ! v)" counts] first_slot_mono [of "Suc (unat (t ! v))" "unat (t ! u)" counts]
      by cases auto
  qed
  then show "distinct ?sl" unfolding distinct_conv_nth using len by (metis length_slots nat_neq_iff)
  have "?sl ! u < 2 ^ L" if "u < 2 ^ L" for u
    using slot_of_state [OF assms(2) that] first_slot_total [of counts] total by (metis order_less_le_trans)
  then show "\<forall>p \<in> set ?sl. p < 2 ^ L" using len by (auto simp: in_set_conv_nth)
qed

text \<open>The work space asked for is two bytes short when the largest symbol is odd.\<close>

lemma ctable_room:
  assumes "0 < L" and "CTABLE_WORKSPACE_SIZE m L + 2 * (m mod 2) \<le> w"
  shows "CTABLE_WORKSPACE_SIZE m L \<le> w" and "2 ^ L + 8 \<le> w - 2 * (m + 2) - 2 ^ L"
proof -
  obtain k where L: "L = Suc k" using assms(1) gr0_conv_Suc by blast
  obtain q r where m: "m = 2 * q + r" "r < 2" using that [of "m div 2" "m mod 2"] by simp
  have "(m + 2 + 2 ^ L) div 2 = q + 1 + 2 ^ k" "m mod 2 = r"
    subgoal using m by (intro div_nat_eqI) (auto simp: L)
    subgoal using m mod_less [of r 2] by simp
    done
  then have "4 * (q + 1 + 2 ^ k + 2) + 2 * r \<le> w" using assms(2) by (simp only: CTABLE_WORKSPACE_SIZE_def)
  then have "2 * m + 4 * 2 ^ k + 12 \<le> w" using m(1) by simp
  then show "2 ^ L + 8 \<le> w - 2 * (m + 2) - 2 ^ L" unfolding L by simp
qed (use assms(2) in simp)

lemma built_ctable:
  assumes "norm_ok L counts" and "spread_symbols L counts = Ok (fast, 0, t)" and "spread_ok L counts t"
    and "length counts = Suc m" and "CTABLE_WORKSPACE_SIZE m L + 2 * (m mod 2) \<le> w"
  shows "\<exists>states. FSE_buildCTable_wksp junk counts m L w
      = Ok \<lparr>ct_tableLog = L, ct_maxSymbolValue = m, ct_states = states, ct_symbolTT = transforms L junk 0 0 counts\<rparr>
    \<and> length states = 2 ^ L
    \<and> (\<forall>u < 2 ^ L. uint (states ! (first_slot counts (unat (t ! u)) + rank t u)) = int (2 ^ L + u))"
proof -
  have L: "L \<le> 12" and c: "\<forall>c \<in> set counts. -1 \<le> c" and total: "sum_list (map weight counts) = 2 ^ L"
    using assms(1) by (auto simp: norm_ok_def FSE_MAX_TABLELOG_def)
  have pow: "(2 :: nat) ^ L \<le> 8192" using small_powers [OF L, of L] by simp
  have len: "length t = 2 ^ L" using assms(3) by (simp add: spread_ok_def)
  let ?sl = "slots (slot_starts L counts) t" and ?news = "map (\<lambda>v. of_nat (2 ^ L + v) :: u16) [0..<2 ^ L]"
  define states where "states = scatter ?sl ?news (replicate (2 ^ L) 0)"
  have cu: "cumulate 0 counts = Ok (map (\<lambda>k. of_nat (first_slot counts k)) [0..<Suc (length counts)])"
    using cumulate_eq [OF c, of 0] total pow by simp
  have starts: "(map (\<lambda>k. of_nat (first_slot counts k)) [0..<Suc (length counts)])[m + 1 := of_nat (2 ^ L + 1)]
      = map (of_nat :: nat \<Rightarrow> u16) (slot_starts L counts)"
    using assms(4) by (simp add: slot_starts_def list_update_append)
  have "\<forall>x \<in> set t. unat x < length (slot_starts L counts)" using assms(3) by (auto simp: spread_ok_def slot_starts_def)
  then have fill: "fill_states (2 ^ L) 0 t (map of_nat (slot_starts L counts)) (replicate (2 ^ L) 0) = Ok states"
    using fill_states_eq [of t "slot_starts L counts" "replicate (2 ^ L) 0" "2 ^ L" 0] slots_perm(2) [OF assms(1,3)] pow len
    by (simp add: states_def)
  have "0 < L" using assms(1) by (simp add: norm_ok_def)
  note room = ctable_room [OF this assms(5)]
  have "FSE_buildCTable_wksp junk counts m L w
      = Ok \<lparr>ct_tableLog = L, ct_maxSymbolValue = m, ct_states = states, ct_symbolTT = transforms L junk 0 0 counts\<rparr>"
    using assms(4) spread_more [OF assms(2) room(2)] room(1) L cu fill starts by (simp add: FSE_buildCTable_wksp_def Let_def del: upt_Suc)
  moreover have "uint (states ! (first_slot counts (unat (t ! u)) + rank t u)) = int (2 ^ L + u)" if "u < 2 ^ L" for u
  proof -
    have "states ! (?sl ! u) = of_nat (2 ^ L + u)"
      using scatter_nth [OF slots_perm(1) [OF assms(1,3)], of ?news "replicate (2 ^ L) 0" u] slots_perm(2) [OF assms(1,3)] len that
      by (simp add: states_def)
    moreover have "2 ^ L + u < 2 ^ LENGTH(16)" using pow that by simp
    then have "uint (of_nat (2 ^ L + u) :: u16) = int (2 ^ L + u)"
      by (simp only: unsigned_of_nat take_bit_nat_eq_self)
    ultimately show ?thesis using slot_of_state(1) [OF assms(3) that] by simp
  qed
  ultimately show ?thesis by (intro exI [of _ states]) (simp add: states_def)
qed

text \<open>The number of a state, from which the decoder's entry is made.\<close>

definition state_number :: "int list \<Rightarrow> bytes \<Rightarrow> nat \<Rightarrow> nat" where
  "state_number counts t u = weight (counts ! unat (t ! u)) + rank t u"

lemma state_number_bounds:
  assumes "spread_ok L counts t" and "u < 2 ^ L"
  shows "weight (counts ! unat (t ! u)) \<le> state_number counts t u"
    and "state_number counts t u < 2 * weight (counts ! unat (t ! u))"
proof -
  have t: "unat (t ! u) < length counts" "u < length t" using assms by (auto simp: spread_ok_def)
  show "state_number counts t u < 2 * weight (counts ! unat (t ! u))"
    using rank_less [OF t(2)] spread_ok_count [OF assms(1) t(1)] by (simp add: state_number_def)
qed (simp add: state_number_def)

lemma built_dtable:
  assumes "norm_ok L counts" and "spread_symbols L counts = Ok (fast, 0, t)" and "spread_ok L counts t"
    and "length counts = Suc m" and "DTABLE_WKSP_SIZE L m \<le> w"
  shows "\<exists>es. FSE_buildDTable_internal counts m L w
      = Ok \<lparr>dt_tableLog = L, dt_fastMode = list_all (\<lambda>c. c = -1 \<or> c < 2 ^ (L - 1)) counts, dt_table = es\<rparr>
    \<and> length es = 2 ^ L \<and> (\<forall>u < 2 ^ L. es ! u = decode_entry L (t ! u) (of_nat (state_number counts t u)))"
proof -
  have L: "L \<le> FSE_MAX_TABLELOG" and c: "\<forall>c \<in> set counts. -1 \<le> c" and m: "m \<le> 255"
    using assms(1,4) by (auto simp: norm_ok_def)
  have len: "length t = 2 ^ L" and ts: "\<forall>x \<in> set t. unat x < length counts" using assms(3) by (simp_all add: spread_ok_def)
  let ?ns = "map (\<lambda>c. if c = -1 then 1 else of_int c :: u16) counts"
  have ns: "?ns ! s = of_nat (weight (counts ! s))" if "s < length counts" for s
  proof -
    have "-1 \<le> counts ! s" using c that by simp
    then show ?thesis using that by (auto simp: weight_def)
  qed
  have "\<forall>x \<in> set t. unat x < length ?ns" using ts by simp
  from decode_entries_eq [OF this, of L] obtain es where es: "decode_entries L t ?ns = Ok es" "length es = length t"
    "\<forall>u < length t. es ! u = decode_entry L (t ! u) (?ns ! unat (t ! u) + of_nat (rank t u))"
    by blast
  have entries: "es ! u = decode_entry L (t ! u) (of_nat (state_number counts t u))" if "u < 2 ^ L" for u
    using es(3) len that ts ns [of "unat (t ! u)"] by (simp add: state_number_def)
  have "2 ^ L + 8 \<le> w - 2 * (m + 1)" using assms(5) by (simp add: DTABLE_WKSP_SIZE_def)
  note room = spread_more [OF assms(2) this]
  show ?thesis
    using entries room assms(4,5) L m es(1,2) len by (intro exI [of _ es]) (simp add: FSE_buildDTable_internal_def Let_def not_less)
qed

lemma weight_le:
  assumes "norm_ok L counts" and "s < length counts"
  shows "weight (counts ! s) \<le> 2 ^ L"
  using assms first_slot_Suc [OF assms(2)] first_slot_total [of counts "Suc s"] by (simp add: norm_ok_def)

text \<open>What an entry says, given where its state's number is.\<close>

lemma built_entry:
  assumes "norm_ok L counts" and "spread_ok L counts t" and "u < 2 ^ L"
    and "2 ^ k \<le> state_number counts t u" and "state_number counts t u < 2 ^ Suc k" and "k \<le> L"
  defines "e \<equiv> decode_entry L (t ! u) (of_nat (state_number counts t u))"
  shows "unat (de_nbBits e) = L - k" and "unat (de_newState e) = state_number counts t u * 2 ^ (L - k) - 2 ^ L"
    and "de_symbol e = t ! u"
proof -
  have L: "L \<le> 12" using assms(1) by (simp add: norm_ok_def FSE_MAX_TABLELOG_def)
  have "state_number counts t u < 8192" using assms(5,6) small_powers [OF L, of "Suc k"] by simp
  then have "unat (of_nat (state_number counts t u) :: u16) = state_number counts t u"
    by (simp only: unsigned_of_nat of_nat_id) (simp add: take_bit_nat_eq_self)
  note * = decode_entry_eq [OF L assms(6,4,5) this, of "t ! u", folded e_def]
  show "unat (de_nbBits e) = L - k" "unat (de_newState e) = state_number counts t u * 2 ^ (L - k) - 2 ^ L" "de_symbol e = t ! u"
    by (rule *)+
qed

lemma built_bits:
  assumes "norm_ok L counts" and "spread_ok L counts t" and "u < 2 ^ L"
  defines "e \<equiv> decode_entry L (t ! u) (of_nat (state_number counts t u))"
  shows "unat (de_nbBits e) \<le> L" and "state_number counts t u < 2 ^ L \<Longrightarrow> 1 \<le> unat (de_nbBits e)"
proof -
  let ?y = "state_number counts t u"
  have t: "unat (t ! u) < length counts" "u < length t" using assms by (auto simp: spread_ok_def)
  have y: "weight (counts ! unat (t ! u)) \<le> ?y" "?y < 2 * weight (counts ! unat (t ! u))" "0 < ?y"
    using state_number_bounds [OF assms(2,3)] by auto
  obtain k where k: "2 ^ k \<le> ?y" "?y < 2 ^ Suc k" using between_powers [OF y(3)] by auto
  have "?y < 2 ^ Suc L" using y(2) weight_le [OF assms(1) t(1)] by simp
  then have "(2 :: nat) ^ k < 2 ^ Suc L" using k(1) by simp
  then have "k < Suc L" by (rule power_less_imp_less_exp [rotated]) simp
  then have kL: "k \<le> L" by simp
  note e = built_entry(1) [OF assms(1-3) k kL, folded e_def]
  show "unat (de_nbBits e) \<le> L" using e by simp
  show "1 \<le> unat (de_nbBits e)" if "?y < 2 ^ L"
  proof -
    have "(2 :: nat) ^ k < 2 ^ L" using k(1) that by (rule le_less_trans)
    then have "k < L" by (rule power_less_imp_less_exp [rotated]) simp
    then show ?thesis using e by simp
  qed
qed

section \<open>Tables that agree\<close>

text \<open>What coding and decoding rely on: every symbol has a first state; from any state the coder moves to one of the
  symbol's states and writes the bits from which the decoder gets the state it came from.\<close>

locale coding_tables =
  fixes L :: nat and syms :: "u8 set" and ct :: fse_ctable and dt :: fse_dtable
  assumes logs: "ct_tableLog ct = L" "dt_tableLog dt = L" "5 \<le> L" "L \<le> 12"
    and entries: "length (dt_table dt) = 2 ^ L"
    and entry_bits: "u < 2 ^ L \<Longrightarrow> unat (de_nbBits (dt_table dt ! u)) \<le> L"
    and fast_bits: "\<lbrakk>dt_fastMode dt; u < 2 ^ L\<rbrakk> \<Longrightarrow> 1 \<le> unat (de_nbBits (dt_table dt ! u))"
    and symbols: "s \<in> syms \<Longrightarrow> unat s < length (ct_symbolTT ct)"
    and first_state: "s \<in> syms \<Longrightarrow> \<exists>u < 2 ^ L. FSE_initCState2 ct s = Ok \<lparr>cs_value = int (2 ^ L + u), cs_stateLog = L\<rparr>
      \<and> de_symbol (dt_table dt ! u) = s \<and> 1 \<le> unat (de_nbBits (dt_table dt ! u))"
    and next_of: "\<lbrakk>s \<in> syms; x < 2 ^ L\<rbrakk> \<Longrightarrow> \<exists>u < 2 ^ L. \<exists>nb \<le> L.
      nb = nat ((int (2 ^ L + x) + uint (deltaNbBits (ct_symbolTT ct ! unat s))) div 2 ^ 16)
      \<and> next_state ct (int (2 ^ L + x)) nb (unat s) = Ok (int (2 ^ L + u))
      \<and> de_symbol (dt_table dt ! u) = s \<and> unat (de_nbBits (dt_table dt ! u)) = nb
      \<and> unat (de_newState (dt_table dt ! u)) + x mod 2 ^ nb = x"

definition used_symbols :: "int list \<Rightarrow> u8 set" where
  "used_symbols counts = {s. unat s < length counts \<and> counts ! unat s \<noteq> 0}"

lemma used_symbolsD:
  assumes "norm_ok L counts" and "s \<in> used_symbols counts"
  shows "unat s < length counts" "-1 \<le> counts ! unat s" "counts ! unat s \<noteq> 0" "0 < weight (counts ! unat s)"
proof -
  show s: "unat s < length counts" "counts ! unat s \<noteq> 0" using assms(2) by (simp_all add: used_symbols_def)
  show "-1 \<le> counts ! unat s" using assms(1) s(1) by (simp add: norm_ok_def)
  then show "0 < weight (counts ! unat s)" using s(2) by (auto simp: weight_def)
qed

section \<open>The tables of the code agree\<close>

text \<open>The state the coder reaches with a number between the count of a symbol and twice that.\<close>

lemma reach_state:
  assumes "spread_ok L counts t" and "unat s < length counts"
    and "weight (counts ! unat s) \<le> y" and "y < 2 * weight (counts ! unat s)"
  shows "\<exists>u < 2 ^ L. t ! u = s \<and> state_number counts t u = y \<and> rank t u = y - weight (counts ! unat s)"
proof -
  have "y - weight (counts ! unat s) < count_list t s" using spread_ok_count [OF assms(1,2)] assms(3,4) by simp
  from rank_onto [OF this] obtain u where "u < length t" "t ! u = s" "rank t u = y - weight (counts ! unat s)" by blast
  then show ?thesis using assms(1,3) by (intro exI [of _ u]) (simp add: spread_ok_def state_number_def)
qed

lemma shifted_index:
  assumes "v div 2 ^ nb = y" and "weight c \<le> y" and "deltaFindState tr = int m - int (weight c)"
  shows "int v div 2 ^ nb + deltaFindState tr = int (m + (y - weight c))"
proof -
  have "int v div 2 ^ nb = int y" using assms(1) by (metis of_nat_numeral of_nat_power zdiv_int)
  then show ?thesis using assms(2,3) by simp
qed

text \<open>In the fast mode no symbol has half of the states.\<close>

lemma fast_numbers:
  assumes "norm_ok L counts" and "spread_ok L counts t" and "u < 2 ^ L"
    and "list_all (\<lambda>c. c = -1 \<or> c < 2 ^ (L - 1)) counts"
  shows "state_number counts t u < 2 ^ L"
proof -
  let ?c = "counts ! unat (t ! u)"
  have t: "unat (t ! u) < length counts" using assms(2,3) by (auto simp: spread_ok_def)
  have L: "(2 :: nat) ^ L = 2 * 2 ^ (L - 1)" "0 < L - 1" using assms(1) by (cases L; simp add: norm_ok_def)+
  have "?c = -1 \<or> ?c < 2 ^ (L - 1)" using assms(4) t by (simp add: list_all_length)
  then have "weight ?c \<le> 2 ^ (L - 1)" using L(2) by (auto simp: weight_def nat_le_iff)
  then show ?thesis using state_number_bounds(2) [OF assms(2,3)] L(1) by simp
qed

text \<open>What the two routines have built.\<close>

definition fse_built :: "nat \<Rightarrow> int list \<Rightarrow> bytes \<Rightarrow> fse_ctable \<Rightarrow> fse_dtable \<Rightarrow> bool" where
  "fse_built L counts t ct dt \<longleftrightarrow> norm_ok L counts \<and> spread_ok L counts t
     \<and> ct_tableLog ct = L \<and> length (ct_states ct) = 2 ^ L \<and> length (ct_symbolTT ct) = length counts
     \<and> (\<forall>u < 2 ^ L. uint (ct_states ct ! (first_slot counts (unat (t ! u)) + rank t u)) = int (2 ^ L + u))
     \<and> (\<forall>s < length counts. \<exists>j. ct_symbolTT ct ! s = transform_of L j (first_slot counts s) (counts ! s))
     \<and> dt_tableLog dt = L \<and> dt_fastMode dt = list_all (\<lambda>c. c = -1 \<or> c < 2 ^ (L - 1)) counts
     \<and> length (dt_table dt) = 2 ^ L
     \<and> (\<forall>u < 2 ^ L. dt_table dt ! u = decode_entry L (t ! u) (of_nat (state_number counts t u)))"

lemma fse_built_exists:
  assumes "norm_ok L counts" and "length counts = Suc m"
    and "CTABLE_WORKSPACE_SIZE m L + 2 * (m mod 2) \<le> w" and "DTABLE_WKSP_SIZE L m \<le> w'"
  shows "\<exists>t ct dt. FSE_buildCTable_wksp junk counts m L w = Ok ct \<and> FSE_buildDTable_wksp counts m L w' = Ok dt
    \<and> fse_built L counts t ct dt"
proof -
  obtain fast t where t: "spread_symbols L counts = Ok (fast, 0, t)" and sp: "spread_ok L counts t"
    using spread_counts [OF assms(1)] unfolding spread_ok_def by blast
  obtain states where states: "FSE_buildCTable_wksp junk counts m L w
      = Ok \<lparr>ct_tableLog = L, ct_maxSymbolValue = m, ct_states = states, ct_symbolTT = transforms L junk 0 0 counts\<rparr>" (is "_ = Ok ?ct")
    "length states = 2 ^ L" "\<forall>u < 2 ^ L. uint (states ! (first_slot counts (unat (t ! u)) + rank t u)) = int (2 ^ L + u)"
    using built_ctable [OF assms(1) t sp assms(2,3)] by blast
  obtain es where es: "FSE_buildDTable_wksp counts m L w'
      = Ok \<lparr>dt_tableLog = L, dt_fastMode = list_all (\<lambda>c. c = -1 \<or> c < 2 ^ (L - 1)) counts, dt_table = es\<rparr>" (is "_ = Ok ?dt")
    "length es = 2 ^ L" "\<forall>u < 2 ^ L. es ! u = decode_entry L (t ! u) (of_nat (state_number counts t u))"
    using built_dtable [OF assms(1) t sp assms(2,4)] unfolding FSE_buildDTable_wksp_def by blast
  have "\<exists>j. transforms L junk 0 0 counts ! s = transform_of L j (first_slot counts s) (counts ! s)" if "s < length counts" for s
    using transforms_nth [of counts s L junk 0 0] that assms(1) by (auto simp: norm_ok_def)
  then have "fse_built L counts t ?ct ?dt" using assms(1) sp states(2,3) es(2,3) by (simp add: fse_built_def)
  then show ?thesis using states(1) es(1) by blast
qed

lemma built_size:
  assumes "fse_built L counts t ct dt"
  shows "norm_ok L counts" "spread_ok L counts t" "5 \<le> L" "L \<le> 12"
  using assms by (simp_all add: fse_built_def norm_ok_def FSE_MAX_TABLELOG_def)

lemma built_bits_at:
  assumes "fse_built L counts t ct dt" and "s \<in> used_symbols counts"
  shows "\<exists>mb. 1 \<le> mb \<and> mb \<le> L \<and> 2 ^ L \<le> weight (counts ! unat s) * 2 ^ mb \<and> weight (counts ! unat s) * 2 ^ mb \<le> 2 ^ Suc L
    \<and> deltaNbBits (ct_symbolTT ct ! unat s) = of_nat (mb * 2 ^ 16) - of_nat (weight (counts ! unat s) * 2 ^ mb)
    \<and> deltaFindState (ct_symbolTT ct ! unat s) = int (first_slot counts (unat s)) - int (weight (counts ! unat s))"
proof -
  note b = built_size [OF assms(1)] and s = used_symbolsD [OF built_size(1) [OF assms(1)] assms(2)]
  obtain j where "ct_symbolTT ct ! unat s = transform_of L j (first_slot counts (unat s)) (counts ! unat s)"
    using assms(1) s(1) by (auto simp: fse_built_def)
  then show ?thesis using transform_bits [OF b(3,4) s(2,3) weight_le [OF b(1) s(1)]] by simp
qed

lemma built_next_state:
  assumes "fse_built L counts t ct dt" and "s \<in> used_symbols counts" and "u < 2 ^ L" and "t ! u = s"
    and "v div 2 ^ nb = state_number counts t u"
  shows "next_state ct (int v) nb (unat s) = Ok (int (2 ^ L + u))"
proof -
  note b = built_size [OF assms(1)]
  have "deltaFindState (ct_symbolTT ct ! unat s) = int (first_slot counts (unat s)) - int (weight (counts ! unat s))"
    using built_bits_at [OF assms(1,2)] by blast
  from shifted_index [OF assms(5) _ this] have i: "int v div 2 ^ nb + deltaFindState (ct_symbolTT ct ! unat s)
      = int (first_slot counts (unat s) + rank t u)"
    using assms(4) by (simp add: state_number_def)
  have "first_slot counts (unat s) + rank t u < 2 ^ L"
    using slot_of_state(2) [OF b(2) assms(3)] first_slot_total [of counts "Suc (unat s)"] assms(4) b(1) by (simp add: norm_ok_def)
  moreover have "uint (ct_states ct ! (first_slot counts (unat s) + rank t u)) = int (2 ^ L + u)"
    using assms(1,3,4) by (auto simp: fse_built_def)
  ultimately show ?thesis
    using assms(1) by (simp only: next_state_def Let_def i) (simp add: nat_int_add fse_built_def)
qed

lemma built_first_state:
  assumes "fse_built L counts t ct dt" and "s \<in> used_symbols counts" and "2 ^ L \<notin> set counts"
  shows "\<exists>u < 2 ^ L. FSE_initCState2 ct s = Ok \<lparr>cs_value = int (2 ^ L + u), cs_stateLog = L\<rparr>
    \<and> de_symbol (dt_table dt ! u) = s \<and> 1 \<le> unat (de_nbBits (dt_table dt ! u))"
proof -
  let ?n = "weight (counts ! unat s)"
  note b = built_size [OF assms(1)] and s = used_symbolsD [OF built_size(1) [OF assms(1)] assms(2)]
  obtain mb where mb: "1 \<le> mb" "mb \<le> L" "?n * 2 ^ mb \<le> 2 ^ Suc L"
    "deltaNbBits (ct_symbolTT ct ! unat s) = of_nat (mb * 2 ^ 16) - of_nat (?n * 2 ^ mb)"
    using built_bits_at [OF assms(1,2)] by blast
  obtain u where u: "u < 2 ^ L" "t ! u = s" "state_number counts t u = ?n" using reach_state [OF b(2) s(1) order_refl] s(4) by auto
  have e: "dt_table dt ! u = decode_entry L (t ! u) (of_nat (state_number counts t u))" using assms(1) u(1) by (simp add: fse_built_def)
  have "counts ! unat s \<noteq> 2 ^ L" using assms(3) nth_mem [OF s(1)] by metis
  moreover have "(1 :: nat) < 2 ^ L" using b(3) by (intro one_less_power) simp_all
  ultimately have "?n \<noteq> 2 ^ L" using s(2) by (auto simp: weight_def nat_eq_iff)
  then have "1 \<le> unat (de_nbBits (dt_table dt ! u))"
    using built_bits(2) [OF b(1,2) u(1)] weight_le [OF b(1) s(1)] e u(3) by simp
  moreover have "?n * 2 ^ mb div 2 ^ mb = state_number counts t u" using u(3) by simp
  from built_next_state [OF assms(1,2) u(1,2) this]
  have "FSE_initCState2 ct s = Ok \<lparr>cs_value = int (2 ^ L + u), cs_stateLog = L\<rparr>"
    using s(1) assms(1)
    by (simp only: FSE_initCState2_def Let_def first_bits [OF b(4) mb] cbind.simps) (simp add: FSE_initCState_def fse_built_def)
  moreover have "de_symbol (dt_table dt ! u) = s" using e u(2) by (simp add: decode_entry_def Let_def)
  ultimately show ?thesis using u(1) by auto
qed

lemma built_next_of:
  assumes "fse_built L counts t ct dt" and "s \<in> used_symbols counts" and "x < 2 ^ L"
  shows "\<exists>u < 2 ^ L. \<exists>nb \<le> L. nb = nat ((int (2 ^ L + x) + uint (deltaNbBits (ct_symbolTT ct ! unat s))) div 2 ^ 16)
    \<and> next_state ct (int (2 ^ L + x)) nb (unat s) = Ok (int (2 ^ L + u))
    \<and> de_symbol (dt_table dt ! u) = s \<and> unat (de_nbBits (dt_table dt ! u)) = nb
    \<and> unat (de_newState (dt_table dt ! u)) + x mod 2 ^ nb = x"
proof -
  let ?n = "weight (counts ! unat s)" and ?d = "deltaNbBits (ct_symbolTT ct ! unat s)"
  define X where "X = 2 ^ L + x"
  define nb where "nb = nat ((int X + uint ?d) div 2 ^ 16)"
  have X: "2 ^ L \<le> X" "X < 2 ^ Suc L" using assms(3) by (simp_all add: X_def)
  note b = built_size [OF assms(1)] and s = used_symbolsD [OF built_size(1) [OF assms(1)] assms(2)]
  obtain mb where mb: "1 \<le> mb" "mb \<le> L" "2 ^ L \<le> ?n * 2 ^ mb" "?n * 2 ^ mb \<le> 2 ^ Suc L"
    "?d = of_nat (mb * 2 ^ 16) - of_nat (?n * 2 ^ mb)"
    using built_bits_at [OF assms(1,2)] by blast
  note nb = coder_bits [OF b(4) mb X, folded nb_def]
  obtain u where u: "u < 2 ^ L" "t ! u = s" "state_number counts t u = X div 2 ^ nb" using reach_state [OF b(2) s(1) nb(2,3)] by blast
  have pow: "(2 :: nat) ^ (L - nb) * 2 ^ nb = 2 ^ L" "(2 :: nat) ^ Suc (L - nb) * 2 ^ nb = 2 ^ Suc L"
    using nb(1) by (simp_all flip: power_add)
  have low: "2 ^ (L - nb) \<le> X div 2 ^ nb" using X(1) by (simp add: less_eq_div_iff_mult_less_eq pow)
  have "X div 2 ^ nb < 2 ^ Suc (L - nb)" using X(2) pow(2) by (simp add: div_less_iff_less_mult)
  then have e: "unat (de_nbBits (dt_table dt ! u)) = nb" "unat (de_newState (dt_table dt ! u)) = X div 2 ^ nb * 2 ^ nb - 2 ^ L"
    "de_symbol (dt_table dt ! u) = s"
    using built_entry [OF b(1,2) u(1), of "L - nb"] low u nb(1) assms(1) by (simp_all add: fse_built_def)
  have "(2 :: nat) ^ nb dvd 2 ^ L" using nb(1) by (rule le_imp_power_dvd)
  then have "X mod 2 ^ nb = x mod 2 ^ nb" by (simp add: X_def mod_add_left_eq [symmetric] dvd_imp_mod_0)
  moreover have "2 ^ L \<le> X div 2 ^ nb * 2 ^ nb" using low mult_le_mono1 pow(1) by metis
  moreover have "X div 2 ^ nb * 2 ^ nb + X mod 2 ^ nb = X" by (rule div_mult_mod_eq)
  ultimately have "unat (de_newState (dt_table dt ! u)) + x mod 2 ^ nb = x" unfolding e(2) X_def by linarith
  then show ?thesis
    using u(1) e(1,3) nb(1) built_next_state [OF assms(1,2) u(1,2) u(3) [symmetric]]
    by (intro exI [of _ u] conjI exI [of _ nb]) (simp_all add: nb_def X_def)
qed

lemma built_coding_tables:
  assumes "fse_built L counts t ct dt" and "2 ^ L \<notin> set counts"
  shows "coding_tables L (used_symbols counts) ct dt"
proof
  note b = built_size [OF assms(1)]
  have e: "dt_table dt ! u = decode_entry L (t ! u) (of_nat (state_number counts t u))" if "u < 2 ^ L" for u
    using assms(1) that by (simp add: fse_built_def)
  show "ct_tableLog ct = L" "dt_tableLog dt = L" "5 \<le> L" "L \<le> 12" "length (dt_table dt) = 2 ^ L"
    using assms(1) b by (simp_all add: fse_built_def)
  show "unat (de_nbBits (dt_table dt ! u)) \<le> L" if "u < 2 ^ L" for u
    using built_bits(1) [OF b(1,2) that] e [OF that] by simp
  show "1 \<le> unat (de_nbBits (dt_table dt ! u))" if "dt_fastMode dt" "u < 2 ^ L" for u
    using built_bits(2) [OF b(1,2) that(2)] fast_numbers [OF b(1,2) that(2)] that(1) e [OF that(2)] assms(1) by (simp add: fse_built_def)
  show "unat s < length (ct_symbolTT ct)" if "s \<in> used_symbols counts" for s
    using that assms(1) by (simp add: used_symbols_def fse_built_def)
qed (rule built_first_state [OF assms(1) _ assms(2)] built_next_of [OF assms(1)]; assumption)+

end
