(* ===== verification/Zstd_BitstreamProofs.thy ===== *)
theory Zstd_BitstreamProofs
  imports Zstd_Bitstream
begin

text \<open>
  What a bit stream says: a number whose bits are the fields, the first lowest, below an end mark. The writer
  builds that number, the reader takes it apart from the top, so that fields come back last first.
\<close>

unbundle bit_operations_syntax

section \<open>The stream as a number\<close>

text \<open>A field is its value and its width.\<close>

fun stream_width :: "(nat \<times> nat) list \<Rightarrow> nat" where
  "stream_width [] = 0"
| "stream_width ((v, n) # fs) = n + stream_width fs"

fun stream_number :: "(nat \<times> nat) list \<Rightarrow> nat" where
  "stream_number [] = 0"
| "stream_number ((v, n) # fs) = v + 2 ^ n * stream_number fs"

lemma stream_width_snoc [simp]: "stream_width (fs @ [(v, n)]) = stream_width fs + n"
  by (induction fs) auto

lemma stream_number_snoc [simp]: "stream_number (fs @ [(v, n)]) = stream_number fs + 2 ^ stream_width fs * v"
  by (induction fs) (auto simp: power_add algebra_simps)

definition fields_fit :: "(nat \<times> nat) list \<Rightarrow> bool" where
  "fields_fit fs \<longleftrightarrow> list_all (\<lambda>(v, n). v < 2 ^ n) fs"

lemma stream_number_less: "fields_fit fs \<Longrightarrow> stream_number fs < 2 ^ stream_width fs"
proof (induction fs)
  case (Cons f fs)
  obtain v n where f: "f = (v, n)" by (cases f)
  have "v < 2 ^ n" "stream_number fs < 2 ^ stream_width fs" using Cons f by (auto simp: fields_fit_def)
  then have "v + 2 ^ n * stream_number fs < 2 ^ n * 2 ^ stream_width fs"
    using mult_le_mono2 [of "Suc (stream_number fs)" "2 ^ stream_width fs" "2 ^ n"] by simp
  then show ?case using f by (simp add: power_add)
qed simp

text \<open>The number with its end mark, from which the last field is read.\<close>

lemma top_field:
  assumes "fields_fit (fs @ [(v, n)])" and "N mod 2 ^ stream_width (fs @ [(v, n)]) = stream_number (fs @ [(v, n)])"
  shows "N div 2 ^ stream_width fs mod 2 ^ n = v" and "N mod 2 ^ stream_width fs = stream_number fs"
proof -
  let ?w = "stream_width fs"
  have v: "v < 2 ^ n" and fs: "stream_number fs < 2 ^ ?w"
    using assms(1) stream_number_less [of fs] by (auto simp: fields_fit_def)
  have N: "N mod (2 ^ ?w * 2 ^ n) = stream_number fs + 2 ^ ?w * v" using assms(2) by (simp add: power_add)
  have "N div 2 ^ ?w mod 2 ^ n = N mod (2 ^ ?w * 2 ^ n) div 2 ^ ?w" by (simp add: mod_mult2_eq)
  also have "\<dots> = v" unfolding N using fs by simp
  finally show "N div 2 ^ ?w mod 2 ^ n = v" .
  have "N mod 2 ^ ?w = N mod (2 ^ ?w * 2 ^ n) mod 2 ^ ?w" by (simp add: mod_mult2_eq)
  then show "N mod 2 ^ ?w = stream_number fs" unfolding N using fs by simp
qed

section \<open>Bytes\<close>

lemma le_nat_append: "le_nat (xs @ ys) = le_nat xs + 256 ^ length xs * le_nat ys"
  by (induction xs) (auto simp: algebra_simps)

lemma le_nat_take_drop: "le_nat (take n (drop p bs)) = le_nat bs div 256 ^ p mod 256 ^ n"
proof -
  have split: "le_nat bs = le_nat (take m bs) + 256 ^ m * le_nat (drop m bs)" for m and bs :: bytes
  proof (cases "m \<le> length bs")
    case True
    then show ?thesis using le_nat_append [of "take m bs" "drop m bs"] by simp
  qed simp
  have small: "le_nat (take m bs) < 256 ^ m" for m and bs :: bytes
    by (rule less_le_trans [OF le_nat_less power_increasing]) simp_all
  have d: "le_nat (drop p bs) = le_nat bs div 256 ^ p" using split [of bs p] small [of p bs] by simp
  show ?thesis
    using split [of "drop p bs" n] small [of n "drop p bs"] unfolding d [symmetric] by simp
qed

lemma take_le_bytes: "k \<le> n \<Longrightarrow> le_nat (take k (le_bytes n v)) = v mod 256 ^ k"
  using le_nat_take_drop [of k 0 "le_bytes n v"] le_nat_bytes [of n v]
  by (simp add: mod_mod_cancel le_imp_power_dvd)

lemma MEM_read64_eq:
  "ptr + 8 \<le> length src \<Longrightarrow> MEM_read64 src ptr = Ok (of_nat (le_nat src div 256 ^ ptr))"
  using le_nat_take_drop [of 8 ptr src]
  by (simp add: MEM_read64_def rd_def word_of_nat_eq_iff take_bit_eq_mod)

section \<open>What the writer has written\<close>

lemma unat_or_shift:
  fixes x w :: u64
  assumes "unat x < 2 ^ p" and "unat w < 2 ^ n" and "n + p < 64"
  shows "unat (x OR push_bit p w) = unat x + 2 ^ p * unat w"
proof -
  have "2 ^ p * unat w < 2 ^ p * 2 ^ n" using assms(2) by simp
  also have "\<dots> \<le> 2 ^ 64" unfolding power_add [symmetric] using assms(3) by (intro power_increasing) simp_all
  finally have "take_bit 64 (push_bit p (unat w)) = 2 ^ p * unat w"
    by (simp add: take_bit_nat_eq_self push_bit_eq_mult mult.commute)
  moreover have "unat (push_bit p w) = take_bit 64 (push_bit p (unat w))" by (simp only: unsigned_push_bit_eq) simp
  ultimately have p: "unat (push_bit p w) = 2 ^ p * unat w" by simp
  have "\<not> bit (unat x) i \<or> \<not> bit (2 ^ p * unat w) i" for i
  proof (cases "i < p")
    case True
    then have "\<not> bit (push_bit p (unat w)) i" by (simp add: bit_push_bit_iff)
    then show ?thesis by (simp add: push_bit_eq_mult mult.commute)
  next
    case False
    have "take_bit p (unat x) = unat x" using assms(1) by (simp add: take_bit_nat_eq_self)
    then show ?thesis using False by (metis bit_take_bit_iff)
  qed
  then have "unat x + 2 ^ p * unat w = unat x OR 2 ^ p * unat w" by (rule disjunctive_add)
  then show ?thesis by (simp add: unsigned_or_eq p)
qed

lemma BIT_mask_eq: "n < 32 \<Longrightarrow> ucast (BIT_mask ! n) = (mask n :: u64)"
proof -
  assume n: "n < 32"
  have "\<forall>k < 32. BIT_mask ! k = (mask k :: u32)" unfolding all_below_32 by code_simp
  then have "BIT_mask ! n = mask n" using n by blast
  moreover have "ucast (mask n :: u32) = (mask n :: u64)"
    using n by (intro bit_word_eqI) (auto simp: bit_ucast_iff bit_mask_iff)
  ultimately show ?thesis by simp
qed

lemma lower_bits: "n < 32 \<Longrightarrow> unat (BIT_getLowerBits v n) = unat v mod 2 ^ n"
proof -
  assume "n < 32"
  then have "BIT_getLowerBits v n = take_bit n v" by (simp add: BIT_getLowerBits_def BIT_mask_eq take_bit_eq_mask)
  then have "unat (BIT_getLowerBits v n) = take_bit n (unat v)" by (simp only: unsigned_take_bit_eq)
  then show ?thesis by (simp only: take_bit_eq_mod)
qed

definition encodes :: "(nat \<times> nat) list \<Rightarrow> cstream \<Rightarrow> bool" where
  "encodes fs c \<longleftrightarrow> fields_fit fs \<and> unat (bc_container c) < 2 ^ bc_bitPos c \<and> bc_bitPos c < 64
     \<and> length (bc_buf c) = bc_endPtr c + 8
     \<and> (bc_ptr c < bc_endPtr c \<longrightarrow> stream_width fs = 8 * bc_ptr c + bc_bitPos c
         \<and> stream_number fs = le_nat (take (bc_ptr c) (bc_buf c)) + 256 ^ bc_ptr c * unat (bc_container c))"

lemma encodes_init: "BIT_initCStream buf = Ok c \<Longrightarrow> encodes [] c \<and> bc_endPtr c = length buf - 8"
  by (auto simp: BIT_initCStream_def check_that_eq_Ok encodes_def fields_fit_def)

lemma pow256: "(256 :: nat) ^ k = 2 ^ (8 * k)"
  by (simp add: power_mult)

lemma encodes_field:
  assumes "encodes fs c" and "n + bc_bitPos c < 64" and "unat w < 2 ^ n"
  shows "encodes (fs @ [(unat w, n)]) (c\<lparr>bc_container := bc_container c OR push_bit (bc_bitPos c) w, bc_bitPos := bc_bitPos c + n\<rparr>)"
proof -
  have u: "unat (bc_container c OR push_bit (bc_bitPos c) w) = unat (bc_container c) + 2 ^ bc_bitPos c * unat w"
    using assms by (intro unat_or_shift) (simp_all add: encodes_def)
  have "unat (bc_container c) + 2 ^ bc_bitPos c * unat w < 2 ^ bc_bitPos c * 2 ^ n"
    using assms(1,3) mult_le_mono2 [of "Suc (unat w)" "2 ^ n" "2 ^ bc_bitPos c"] by (simp add: encodes_def)
  then show ?thesis
    using assms by (auto simp: encodes_def u fields_fit_def power_add pow256 algebra_simps)
qed

lemma encodes_add:
  assumes "encodes fs c" and "BIT_addBits v n c = Ok c'"
  shows "encodes (fs @ [(unat v mod 2 ^ n, n)]) c' \<and> bc_endPtr c' = bc_endPtr c"
  using assms encodes_field [OF assms(1), of n "BIT_getLowerBits v n"]
  by (auto simp: BIT_addBits_def lower_bits split: if_splits)

lemma encodes_addFast:
  assumes "encodes fs c" and "BIT_addBitsFast v n c = Ok c'"
  shows "encodes (fs @ [(unat v mod 2 ^ n, n)]) c' \<and> bc_endPtr c' = bc_endPtr c"
proof -
  have "drop_bit n v = 0" using assms(2) by (simp add: BIT_addBitsFast_def split: if_splits)
  then have "unat v div 2 ^ n = 0" using unat_drop_bit_u64 [of n v] by simp
  then have "unat v < 2 ^ n" by (simp add: div_eq_0_iff)
  then show ?thesis
    using assms encodes_field [OF assms(1), of n v] by (auto simp: BIT_addBitsFast_def split: if_splits)
qed

lemma written_bytes:
  assumes "MEM_write64 buf ptr x = Ok buf'" and "j \<le> 8"
  shows "le_nat (take (ptr + j) buf') = le_nat (take ptr buf) + 256 ^ ptr * (unat x mod 256 ^ j)"
    and "length buf' = length buf"
proof -
  have buf': "buf' = take ptr buf @ le_bytes 8 (unat x) @ drop (ptr + 8) buf" and fits: "ptr + 8 \<le> length buf"
    using assms(1) by (auto simp: MEM_write64_def split: if_splits)
  have "take (ptr + j) buf' = take ptr buf @ take j (le_bytes 8 (unat x))"
    using assms(2) fits by (simp add: buf')
  then show "le_nat (take (ptr + j) buf') = le_nat (take ptr buf) + 256 ^ ptr * (unat x mod 256 ^ j)"
    using assms(2) fits by (simp add: le_nat_append take_le_bytes)
  show "length buf' = length buf" using fits by (simp add: buf')
qed

lemma encodes_flushed:
  assumes "encodes fs c" and "MEM_write64 (bc_buf c) (bc_ptr c) (bc_container c) = Ok buf"
    and "ptr < bc_endPtr c \<Longrightarrow> ptr = bc_ptr c + bc_bitPos c div 8"
  shows "encodes fs (c\<lparr>bc_container := drop_bit (bc_bitPos c div 8 * 8) (bc_container c), bc_bitPos := bc_bitPos c mod 8,
    bc_ptr := ptr, bc_buf := buf\<rparr>)"
proof -
  let ?k = "bc_bitPos c div 8" and ?x = "unat (bc_container c)"
  have k: "?k < 8" and x: "?x < 2 ^ bc_bitPos c" and len: "length (bc_buf c) = bc_endPtr c + 8"
    using assms(1) by (auto simp: encodes_def)
  have u: "unat (drop_bit (?k * 8) (bc_container c)) = ?x div 256 ^ ?k"
    by (simp add: unat_drop_bit_u64 pow256 mult.commute)
  have "2 ^ bc_bitPos c = (2 :: nat) ^ (?k * 8) * 2 ^ (bc_bitPos c mod 8)" by (simp flip: power_add)
  then have small: "?x div 256 ^ ?k < 2 ^ (bc_bitPos c mod 8)"
    using x by (simp add: pow256 mult.commute less_mult_imp_div_less)
  note low = written_bytes(1) [OF assms(2), of ?k]
  have "256 ^ bc_ptr c * ?x = 256 ^ bc_ptr c * (?x mod 256 ^ ?k + 256 ^ ?k * (?x div 256 ^ ?k))"
    by (simp only: mod_mult_div_eq)
  then have "256 ^ bc_ptr c * ?x = 256 ^ bc_ptr c * (?x mod 256 ^ ?k) + 256 ^ (bc_ptr c + ?k) * (?x div 256 ^ ?k)"
    by (simp only: distrib_left power_add mult.assoc)
  moreover have "8 * (bc_ptr c + ?k) + bc_bitPos c mod 8 = 8 * bc_ptr c + bc_bitPos c" by simp
  moreover have "length buf = length (bc_buf c)" by (rule written_bytes(2) [OF assms(2), of 0]) simp
  moreover have "bc_bitPos c mod 8 < 64" by (rule less_trans [of _ 8]) simp_all
  ultimately show ?thesis
    using assms(1,3) small low k u len unfolding encodes_def by auto
qed

lemma encodes_flush:
  assumes "encodes fs c" and "BIT_flushBits c = Ok c'"
  shows "encodes fs c' \<and> bc_endPtr c' = bc_endPtr c \<and> bc_bitPos c' = bc_bitPos c mod 8"
  using assms(2) encodes_flushed [OF assms(1), of _ "min (bc_ptr c + bc_bitPos c div 8) (bc_endPtr c)"]
  by (auto simp: BIT_flushBits_def Let_def cbind_eq_Ok split: if_splits)

lemma encodes_flushFast:
  assumes "encodes fs c" and "BIT_flushBitsFast c = Ok c'"
  shows "encodes fs c' \<and> bc_endPtr c' = bc_endPtr c"
  using assms(2) encodes_flushed [OF assms(1), of _ "bc_ptr c + bc_bitPos c div 8"]
  by (auto simp: BIT_flushBitsFast_def Let_def cbind_eq_Ok split: if_splits)

text \<open>A coder's use of a stream.\<close>

datatype write_op = Add u64 nat | AddFast u64 nat | Flush | FlushFast

fun write_with :: "write_op \<Rightarrow> cstream \<Rightarrow> cstream zres" where
  "write_with (Add v n) c = BIT_addBits v n c"
| "write_with (AddFast v n) c = BIT_addBitsFast v n c"
| "write_with Flush c = BIT_flushBits c"
| "write_with FlushFast c = BIT_flushBitsFast c"

fun write_all :: "write_op list \<Rightarrow> cstream \<Rightarrow> cstream zres" where
  "write_all [] c = Ok c"
| "write_all (w # ws) c = cbind (write_with w c) (write_all ws)"

fun field_of :: "write_op \<Rightarrow> (nat \<times> nat) list" where
  "field_of (Add v n) = [(unat v mod 2 ^ n, n)]"
| "field_of (AddFast v n) = [(unat v mod 2 ^ n, n)]"
| "field_of _ = []"

definition fields_of :: "write_op list \<Rightarrow> (nat \<times> nat) list" where
  "fields_of ws = concat (map field_of ws)"

lemma encodes_with:
  "encodes fs c \<Longrightarrow> write_with w c = Ok c' \<Longrightarrow> encodes (fs @ field_of w) c' \<and> bc_endPtr c' = bc_endPtr c"
  by (cases w) (auto dest: encodes_add encodes_addFast encodes_flush encodes_flushFast)

lemma encodes_all:
  "encodes fs c \<Longrightarrow> write_all ws c = Ok c' \<Longrightarrow> encodes (fs @ fields_of ws) c' \<and> bc_endPtr c' = bc_endPtr c"
proof (induction ws arbitrary: fs c)
  case (Cons w ws)
  then obtain c1 where c1: "write_with w c = Ok c1" "write_all ws c1 = Ok c'" by (auto simp: cbind_eq_Ok)
  show ?case using Cons.IH [of "fs @ field_of w" c1] encodes_with [OF Cons.prems(1) c1(1)] c1(2) by (simp add: fields_of_def)
qed (simp add: fields_of_def)

text \<open>A stream that is closed holds its number with the end mark, in as few bytes as it needs.\<close>

lemma closed_stream:
  assumes "encodes fs c" and "BIT_closeCStream c = Ok (sz, c')" and "sz \<noteq> 0"
  shows "sz = stream_width fs div 8 + 1 \<and> sz \<le> length (bc_buf c')
    \<and> le_nat (take sz (bc_buf c')) = stream_number fs + 2 ^ stream_width fs"
proof -
  obtain c1 c2 where c: "BIT_addBitsFast 1 1 c = Ok c1" "BIT_flushBits c1 = Ok c2" "c' = c2"
    "sz = (if bc_endPtr c2 \<le> bc_ptr c2 then 0 else bc_ptr c2 + of_bool (0 < bc_bitPos c2))"
    using assms(2) by (auto simp: BIT_closeCStream_def cbind_eq_Ok)
  let ?fs = "fs @ [(1, 1)]" and ?p = "bc_ptr c1" and ?b = "bc_bitPos c1" and ?x = "unat (bc_container c1)"
  obtain buf where buf: "MEM_write64 (bc_buf c1) ?p (bc_container c1) = Ok buf" "bc_buf c2 = buf" "bc_bitPos c2 = ?b mod 8"
    "bc_ptr c2 = min (?p + ?b div 8) (bc_endPtr c1)" "bc_endPtr c2 = bc_endPtr c1"
    using c(2) by (auto simp: BIT_flushBits_def Let_def cbind_eq_Ok split: if_splits)
  have e: "encodes ?fs c1" using encodes_addFast [OF assms(1) c(1)] by simp
  have lt: "?p + ?b div 8 < bc_endPtr c1" using c(4) assms(3) buf(4,5) by (auto split: if_splits)
  then have w: "stream_width fs + 1 = 8 * ?p + ?b" and x: "?x < 2 ^ ?b" "?b < 64" and len: "length (bc_buf c1) = bc_endPtr c1 + 8"
    and n: "stream_number fs + 2 ^ stream_width fs = le_nat (take ?p (bc_buf c1)) + 256 ^ ?p * ?x"
    using e by (auto simp: encodes_def)
  define j where "j = ?b div 8 + of_bool (0 < ?b mod 8)"
  have sz: "sz = ?p + j" using c(4) lt buf(3-5) by (simp add: j_def)
  have "?b div 8 < 8" using x(2) by (simp add: div_less_iff_less_mult)
  then have j8: "j \<le> 8" by (simp add: j_def)
  have bj: "?b \<le> 8 * j" "8 * j < ?b + 8" by (simp_all add: j_def) presburger+
  have "?x < 256 ^ j"
    unfolding pow256 by (rule less_le_trans [OF x(1)]) (use bj in \<open>simp add: power_increasing\<close>)
  then have "le_nat (take sz (bc_buf c2)) = le_nat (take ?p (bc_buf c1)) + 256 ^ ?p * ?x"
    using written_bytes(1) [OF buf(1) j8] by (simp add: sz buf(2))
  moreover have "length buf = length (bc_buf c1)" by (rule written_bytes(2) [OF buf(1) j8])
  moreover have "sz = stream_width fs div 8 + 1" using w bj unfolding sz by linarith
  moreover have "sz \<le> bc_endPtr c1 + 8" using lt unfolding sz j_def by simp
  ultimately show ?thesis using n c(3) buf(2) len by simp
qed

section \<open>What the reader reads\<close>

text \<open>\<open>r\<close> bits of the number are left: those above have been consumed.\<close>

definition decodes :: "bytes \<Rightarrow> nat \<Rightarrow> dstream \<Rightarrow> bool" where
  "decodes src r d \<longleftrightarrow>
     (\<exists>p. bd_ptr d = Some p \<and> bd_bitsConsumed d \<le> 64 \<and> r + bd_bitsConsumed d = 8 * p + 64
        \<and> bd_container d = of_nat (le_nat src div 256 ^ p) \<and> (p = 0 \<or> p + 8 \<le> length src))"

definition refilled :: "dstream \<Rightarrow> bool" where
  "refilled d \<longleftrightarrow> bd_ptr d = Some 0 \<or> bd_bitsConsumed d \<le> 8"

lemma middle_bits:
  assumes "s + n \<le> 64"
  shows "unat (BIT_getMiddleBits (of_nat x) (int s) n) = x div 2 ^ s mod 2 ^ n"
proof (cases "s = 64")
  case True
  then have "n = 0" using assms by simp
  then show ?thesis by (simp add: BIT_getMiddleBits_def)
next
  case False
  then have "nat (int s mod 64) = s" using assms by simp
  moreover have "push_bit n 1 - 1 = (mask n :: u64)" by (simp add: mask_eq_exp_minus_1)
  ultimately have "BIT_getMiddleBits (of_nat x) (int s) n = take_bit n (drop_bit s (of_nat x))"
    by (simp add: BIT_getMiddleBits_def take_bit_eq_mask)
  then have "unat (BIT_getMiddleBits (of_nat x) (int s) n) = take_bit n (drop_bit s (take_bit 64 x))"
    by (simp only: unsigned_take_bit_eq unsigned_drop_bit_eq unsigned_of_nat) simp
  also have "\<dots> = take_bit n (drop_bit s x)"
    by (rule bit_eqI) (use assms in \<open>auto simp: bit_take_bit_iff bit_drop_bit_eq\<close>)
  finally show ?thesis by (simp only: take_bit_eq_mod drop_bit_eq_div)
qed

lemma read_fitting:
  assumes "decodes src r d" and "bd_bitsConsumed d + n \<le> 64" and "n \<le> r"
  shows "unat (fst (BIT_readBits d n)) = le_nat src div 2 ^ (r - n) mod 2 ^ n"
    and "decodes src (r - n) (snd (BIT_readBits d n))"
    and "bd_bitsConsumed (snd (BIT_readBits d n)) = bd_bitsConsumed d + n"
proof -
  obtain p where p: "bd_ptr d = Some p" "bd_bitsConsumed d \<le> 64" "r + bd_bitsConsumed d = 8 * p + 64"
    "bd_container d = of_nat (le_nat src div 256 ^ p)" "p = 0 \<or> p + 8 \<le> length src"
    using assms(1) unfolding decodes_def by blast
  note fit = assms(2)
  define s where "s = 64 - bd_bitsConsumed d - n"
  have s: "64 - int (bd_bitsConsumed d) - int n = int s" "s + n \<le> 64" using fit by (simp_all add: s_def)
  have "unat (fst (BIT_readBits d n)) = le_nat src div 256 ^ p div 2 ^ s mod 2 ^ n"
    using middle_bits [OF s(2)] by (simp add: BIT_readBits_def BIT_lookBits_def p(4) s(1))
  moreover have "8 * p + s = r - n" using p(3) fit by (simp add: s_def)
  then have "le_nat src div 256 ^ p div 2 ^ s = le_nat src div 2 ^ (r - n)"
    by (simp only: pow256 power_add div_mult2_eq flip: \<open>8 * p + s = r - n\<close>)
  ultimately show "unat (fst (BIT_readBits d n)) = le_nat src div 2 ^ (r - n) mod 2 ^ n" by simp
  have "(bd_bitsConsumed d + n) mod 2 ^ 32 = bd_bitsConsumed d + n" using fit by simp
  then show "decodes src (r - n) (snd (BIT_readBits d n))" "bd_bitsConsumed (snd (BIT_readBits d n)) = bd_bitsConsumed d + n"
    using p fit assms(3) by (simp_all add: decodes_def BIT_readBits_def BIT_skipBits_def)
qed

lemma refilled_fits: "decodes src r d \<Longrightarrow> refilled d \<Longrightarrow> n < 32 \<Longrightarrow> n \<le> r \<Longrightarrow> bd_bitsConsumed d + n \<le> 64"
  by (auto simp: decodes_def refilled_def)

lemma read_value:
  assumes "decodes src r d" and "refilled d" and "n < 32" and "n \<le> r"
  shows "unat (fst (BIT_readBits d n)) = le_nat src div 2 ^ (r - n) mod 2 ^ n"
    and "decodes src (r - n) (snd (BIT_readBits d n))"
  using read_fitting [OF assms(1) refilled_fits [OF assms] assms(4)] by simp_all

lemma reload_refills:
  assumes "decodes src r d"
  shows "\<exists>st d'. BIT_reloadDStream src d = Ok (st, d') \<and> decodes src r d' \<and> refilled d'"
proof -
  obtain p where p: "bd_ptr d = Some p" "bd_bitsConsumed d \<le> 64" "r + bd_bitsConsumed d = 8 * p + 64"
    "bd_container d = of_nat (le_nat src div 256 ^ p)" "p = 0 \<or> p + 8 \<le> length src"
    using assms unfolding decodes_def by blast
  let ?k = "bd_bitsConsumed d div 8"
  have k: "?k \<le> 8" using p(2) by (simp add: div_le_mono [of _ 64 8, simplified])
  have m7: "bd_bitsConsumed d mod 8 \<le> 7" using mod_less_divisor [of 8 "bd_bitsConsumed d"] by linarith
  have split: "8 * ?k + bd_bitsConsumed d mod 8 = bd_bitsConsumed d" by simp
  consider "8 \<le> p" | "p = 0" | "0 < p" "p < 8" by linarith
  then show ?thesis
  proof cases
    case 1
    then have kp: "?k \<le> p" "p - ?k + 8 \<le> length src" using k p(5) by simp_all
    then have "r + bd_bitsConsumed d mod 8 = 8 * (p - ?k) + 64" using p(3) split by linarith
    then show ?thesis
      using 1 kp p m7 by (auto simp: BIT_reloadDStream_def BIT_reloadDStream_internal_def Let_def MEM_read64_eq decodes_def refilled_def)
  next
    case 2
    then show ?thesis using p by (auto simp: BIT_reloadDStream_def decodes_def refilled_def)
  next
    case 3
    define j where "j = min ?k p"
    have j: "j \<le> p" "8 * j \<le> bd_bitsConsumed d" "p - j + 8 \<le> length src" "j = p \<or> j = ?k"
      using p(5) 3 split by (auto simp: j_def min_def)
    have "BIT_reloadDStream src d = Ok (if p < ?k then DS_endOfBuffer else DS_unfinished,
        d\<lparr>bd_container := of_nat (le_nat src div 256 ^ (p - j)), bd_bitsConsumed := bd_bitsConsumed d - j * 8, bd_ptr := Some (p - j)\<rparr>)"
      using 3 p(1,2) MEM_read64_eq [OF j(3)] by (simp add: BIT_reloadDStream_def Let_def j_def)
    then show ?thesis
      using p(2,3) j m7 split by (auto simp: decodes_def refilled_def)
  qed
qed

section \<open>Fields come back\<close>

fun read_fields :: "bytes \<Rightarrow> nat list \<Rightarrow> dstream \<Rightarrow> (nat list \<times> dstream) zres" where
  "read_fields src [] d = Ok ([], d)"
| "read_fields src (n # ns) d =
     (let (v, d) = BIT_readBits d n in
      cbind (BIT_reloadDStream src d) (\<lambda>(st, d). cbind (read_fields src ns d) (\<lambda>(vs, d). Ok (unat v # vs, d))))"

lemma fields_read_back:
  assumes "decodes src (stream_width fs) d" and "refilled d" and "fields_fit fs" and "\<forall>f \<in> set fs. snd f < 32"
    and "le_nat src mod 2 ^ stream_width fs = stream_number fs"
  shows "\<exists>d'. read_fields src (rev (map snd fs)) d = Ok (rev (map fst fs), d') \<and> decodes src 0 d'"
  using assms
proof (induction fs arbitrary: d rule: rev_induct)
  case (snoc f fs)
  obtain v n where f: "f = (v, n)" by (cases f)
  have n: "n < 32" using snoc.prems(4) f by simp
  note top = top_field [OF snoc.prems(3) [unfolded f] snoc.prems(5) [unfolded f]]
  have r: "decodes src (stream_width fs + n) d" using snoc.prems(1) f by simp
  obtain w d1 where w: "BIT_readBits d n = (w, d1)" by (cases "BIT_readBits d n")
  have v: "unat w = v" "decodes src (stream_width fs) d1"
    using read_value [OF r snoc.prems(2) n] top(1) w by simp_all
  obtain st d2 where d2: "BIT_reloadDStream src d1 = Ok (st, d2)" "decodes src (stream_width fs) d2" "refilled d2"
    using reload_refills [OF v(2)] by blast
  have "fields_fit fs" using snoc.prems(3) by (simp add: fields_fit_def)
  then obtain d' where "read_fields src (rev (map snd fs)) d2 = Ok (rev (map fst fs), d')" "decodes src 0 d'"
    using snoc.IH [OF d2(2,3)] snoc.prems(4) top(2) by auto
  then show ?case using w v(1) d2(1) f by simp
qed auto

lemma short_container_eq: "short_container src = of_nat (le_nat src)"
proof (induction src rule: rev_induct)
  case (snoc b src)
  have "sum_list (map (\<lambda>i. push_bit (8 * i) (ucast ((src @ [b]) ! i) :: u64)) [0..<length src])
      = sum_list (map (\<lambda>i. push_bit (8 * i) (ucast (src ! i))) [0..<length src])"
    by (intro arg_cong [of _ _ sum_list] map_cong) (simp_all add: nth_append)
  then have "short_container (src @ [b]) = short_container src + push_bit (8 * length src) (ucast b)"
    by (simp add: short_container_def)
  also have "push_bit (8 * length src) (ucast b :: u64) = of_nat (256 ^ length src * unat b)"
    by (simp add: push_bit_eq_mult pow256 mult.commute)
  finally show ?case using snoc by (simp add: le_nat_append)
qed (simp add: short_container_def)

lemma init_reads:
  assumes "le_nat src = S + 2 ^ T" and "S < 2 ^ T" and "length src = T div 8 + 1"
  shows "\<exists>d. BIT_initDStream src = Ok d \<and> decodes src T d \<and> refilled d"
proof -
  obtain bs b where src: "src = bs @ [b]" using assms(3) by (cases src rule: rev_cases) auto
  have len: "length bs = T div 8" using assms(3) src by simp
  have T: "T = 8 * (T div 8) + T mod 8" by simp
  have N: "le_nat src div 256 ^ (T div 8) = unat b"
    using le_nat_less [of bs] by (simp add: src le_nat_append len)
  have two: "(2 :: nat) ^ T = 256 ^ (T div 8) * 2 ^ (T mod 8)" by (subst T) (simp only: pow256 power_add)
  have "2 ^ (T mod 8) \<le> unat b" unfolding N [symmetric] assms(1) two by simp
  moreover have "S + 2 ^ T < 256 ^ (T div 8) * 2 ^ Suc (T mod 8)" using assms(2) two by (simp add: mult.commute)
  then have "unat b < 2 ^ Suc (T mod 8)" unfolding N [symmetric] assms(1) by (simp only: less_mult_imp_div_less mult.commute)
  moreover have "unat (ucast b :: u32) = unat b"
    using less_trans [OF unat_byte_lt [of b], of "2 ^ 32"] by (simp add: unsigned_ucast_eq take_bit_nat_eq_self)
  ultimately have hb: "ZSTD_highbit32 (ucast b) = T mod 8" and nz: "b \<noteq> 0"
    by (auto intro!: highbit32_eq)
  have m: "T mod 8 < 8" by simp
  show ?thesis
  proof (cases "8 \<le> length src")
    case True
    then have "MEM_read64 src (length src - 8) = Ok (of_nat (le_nat src div 256 ^ (length src - 8)))"
      by (intro MEM_read64_eq) simp
    moreover have "T + 8 - T mod 8 = 8 * (T div 8 - 7) + 64" using True assms(3) T m by linarith
    ultimately show ?thesis
      using True hb nz m T assms(3) by (auto simp: BIT_initDStream_def src decodes_def refilled_def)
  next
    case False
    define k where "k = 8 - T mod 8 + (8 - length src) * 8"
    have "8 * q + j + (8 - j + (7 - q) * 8) = 64" if "q \<le> 6" "j < 8" for q j :: nat
      using that by presburger
    from this [of "T div 8" "T mod 8"] have k: "T + k = 64"
      using False assms(3) m by (simp add: k_def)
    have "BIT_initDStream src = Ok \<lparr>bd_container = of_nat (le_nat src), bd_bitsConsumed = k, bd_ptr = Some 0\<rparr>"
      using False hb nz by (simp add: BIT_initDStream_def k_def short_container_eq src)
    then show ?thesis using k by (simp add: decodes_def refilled_def)
  qed
qed

text \<open>C25: fields come back last first: whatever sequence of fields, flushes and fast versions of both a coder uses
  on a stream, if no assertion of the code fails and closing it reports a size, the reader of exactly
  that many bytes starts without error, gives every field back in reverse order, and is then at its
  end; nothing is read outside the bytes.\<close>
theorem bitstream_roundtrip:
  assumes "BIT_initCStream buf = Ok c0" and "write_all ws c0 = Ok c" and "BIT_closeCStream c = Ok (n, c')" and "n \<noteq> 0"
    and "\<forall>f \<in> set (fields_of ws). snd f < 32"
  shows "\<exists>d d'. BIT_initDStream (take n (bc_buf c')) = Ok d
    \<and> read_fields (take n (bc_buf c')) (rev (map snd (fields_of ws))) d = Ok (rev (map fst (fields_of ws)), d')
    \<and> BIT_endOfDStream d'"
proof -
  let ?fs = "fields_of ws" and ?src = "take n (bc_buf c')"
  have e: "encodes ?fs c" using encodes_all [OF _ assms(2), of "[]"] encodes_init [OF assms(1)] by simp
  then have fit: "fields_fit ?fs" by (simp add: encodes_def)
  have src: "le_nat ?src = stream_number ?fs + 2 ^ stream_width ?fs" "length ?src = stream_width ?fs div 8 + 1"
    using closed_stream [OF e assms(3,4)] by (blast, simp)
  note small = stream_number_less [OF fit]
  obtain d where d: "BIT_initDStream ?src = Ok d" "decodes ?src (stream_width ?fs) d" "refilled d"
    using init_reads [OF src(1) small src(2)] by blast
  have "le_nat ?src mod 2 ^ stream_width ?fs = stream_number ?fs" using small by (simp add: src(1))
  then obtain d' where "read_fields ?src (rev (map snd ?fs)) d = Ok (rev (map fst ?fs), d')" "decodes ?src 0 d'"
    using fields_read_back [OF d(2,3) fit assms(5)] by blast
  then show ?thesis using d(1) by (auto simp: decodes_def BIT_endOfDStream_def)
qed

section \<open>The fast reader\<close>

lemma lookBitsFast_eq:
  assumes "1 \<le> n" and "bd_bitsConsumed d + n \<le> 64"
  shows "BIT_lookBitsFast d n = BIT_lookBits d n"
proof -
  let ?c = "bd_bitsConsumed d" and ?x = "bd_container d"
  have "(64 - int n) mod 64 = 64 - int n" using assms by (intro mod_pos_pos_trivial) simp_all
  then have s: "64 - int ?c - int n = int (64 - ?c - n)" "nat ((64 - int n) mod 64) = 64 - n" "?c mod 64 = ?c"
    "64 - ?c - n < 64"
    using assms by (simp_all only: nat_diff_distrib nat_int) simp_all
  have m: "push_bit n 1 - 1 = (mask n :: u64)" by (simp add: mask_eq_exp_minus_1)
  have "nat (int (64 - ?c - n) mod 64) = 64 - ?c - n" using s(4) by simp
  then have look: "BIT_lookBits d n = take_bit n (drop_bit (64 - ?c - n) ?x)"
    by (simp only: BIT_lookBits_def BIT_getMiddleBits_def s(1) m take_bit_eq_mask)
  have "drop_bit (64 - n) (push_bit ?c ?x) = take_bit n (drop_bit (64 - ?c - n) ?x)"
  proof (rule bit_word_eqI)
    fix i assume "i < LENGTH(64)"
    have "64 - n + i - ?c = 64 - ?c - n + i" using assms by simp
    then show "bit (drop_bit (64 - n) (push_bit ?c ?x)) i = bit (take_bit n (drop_bit (64 - ?c - n) ?x)) i"
      using assms by (auto simp: bit_take_bit_iff bit_drop_bit_eq bit_push_bit_iff)
  qed
  then show ?thesis by (simp only: look BIT_lookBitsFast_def s(2,3))
qed

section \<open>Example\<close>

definition demo_fields :: "write_op list" where
  "demo_fields = [Add 1 1, Flush, AddFast 2 2]"

definition demo_stream :: "(nat \<times> cstream) zres" where
  "demo_stream = cbind (BIT_initCStream (replicate 9 0)) (\<lambda>c. cbind (write_all demo_fields c) BIT_closeCStream)"

lemma bitstream_roundtrip_witness:
  "\<exists>n c' d d'. demo_stream = Ok (n, c') \<and> BIT_initDStream (take n (bc_buf c')) = Ok d
     \<and> read_fields (take n (bc_buf c')) [2, 1] d = Ok ([2, 1], d') \<and> BIT_endOfDStream d'"
proof -
  have "(case demo_stream of Ok r \<Rightarrow> fst r = 1 | _ \<Rightarrow> False)" by code_simp
  then obtain c' where "demo_stream = Ok (1, c')" by (auto split: cres.splits)
  then obtain c0 c where c: "BIT_initCStream (replicate 9 0) = Ok c0" "write_all demo_fields c0 = Ok c"
    "BIT_closeCStream c = Ok (1, c')"
    by (auto simp: demo_stream_def cbind_eq_Ok)
  have f: "fields_of demo_fields = [(1, 1), (2, 2)]" by (simp add: demo_fields_def fields_of_def)
  show ?thesis
    using bitstream_roundtrip [OF c] \<open>demo_stream = Ok (1, c')\<close> by (auto simp: f)
qed

end
