(* ===== verification/Zstd_FSEProofs.thy ===== *)
theory Zstd_FSEProofs
  imports Zstd_FSETables Zstd_BitstreamProofs
begin

text \<open>
  What the FSE coder compresses, its decoder gives back. The proof rests on what the tables promise
  (\<open>coding_tables\<close>) and on what a bit stream says (\<open>encodes\<close> and \<open>decodes\<close>): the coder goes through the
  symbols from the last to the first, the decoder goes through the fields from the last written to the
  first, so that each undoes the other.
\<close>

section \<open>What a stream of fields decodes to\<close>

text \<open>The state of the next symbol, the other state, and the fields, the next one first. The last two symbols are in
  the states, and there are no more bits to move on.\<close>

inductive decodes_to :: "fse_dtable \<Rightarrow> (nat \<times> nat) list \<Rightarrow> nat \<Rightarrow> nat \<Rightarrow> bytes \<Rightarrow> bool" for dt where
  Last: "\<lbrakk>xa < length (dt_table dt); xb < length (dt_table dt); de_symbol (dt_table dt ! xa) = a;
      de_symbol (dt_table dt ! xb) = b; 1 \<le> unat (de_nbBits (dt_table dt ! xa))\<rbrakk>
    \<Longrightarrow> decodes_to dt [] xa xb [a, b]"
| Next: "\<lbrakk>xa < length (dt_table dt); de_symbol (dt_table dt ! xa) = a; unat (de_nbBits (dt_table dt ! xa)) = nb;
      decodes_to dt fs xb (unat (de_newState (dt_table dt ! xa)) + v) rest\<rbrakk>
    \<Longrightarrow> decodes_to dt ((v, nb) # fs) xa xb (a # rest)"

inductive_cases decodes_to_NilE: "decodes_to dt [] xa xb syms"
inductive_cases decodes_to_ConsE: "decodes_to dt (f # fs) xa xb syms"

lemma decodes_to_length: "decodes_to dt fs xa xb syms \<Longrightarrow> length syms = length fs + 2"
  by (induction rule: decodes_to.induct) auto

lemma decodes_to_states: "decodes_to dt fs xa xb syms \<Longrightarrow> xa < length (dt_table dt) \<and> xb < length (dt_table dt)"
proof (induction rule: decodes_to.induct)
  case (Next xa a nb fs xb v rest)
  then show ?case by (auto elim: decodes_to.cases)
qed simp

text \<open>A stream and the states that are to be decoded from it.\<close>

definition reads :: "fse_dtable \<Rightarrow> bytes \<Rightarrow> (nat \<times> nat) list \<Rightarrow> nat \<Rightarrow> nat \<Rightarrow> bytes \<Rightarrow> dstream \<Rightarrow> bool" where
  "reads dt src fs xa xb syms d \<longleftrightarrow> decodes_to dt fs xa xb syms \<and> decodes src (stream_width (rev fs)) d
     \<and> fields_fit (rev fs) \<and> le_nat src mod 2 ^ stream_width (rev fs) = stream_number (rev fs)"

section \<open>Reloading\<close>

lemma reload_status:
  assumes "decodes src r d" and "BIT_reloadDStream src d = Ok (st, d')"
  shows "st \<noteq> DS_overflow" and "st = DS_unfinished \<Longrightarrow> bd_bitsConsumed d' \<le> 8"
proof -
  obtain p where p: "bd_ptr d = Some p" "bd_bitsConsumed d \<le> 64" using assms(1) by (auto simp: decodes_def)
  have "bd_bitsConsumed d - min (bd_bitsConsumed d div 8) p * 8 \<le> 8" if "\<not> p < bd_bitsConsumed d div 8"
    using that by (simp add: min_def minus_mult_div_eq_mod mult.commute [of _ 8] less_imp_le)
  moreover have "bd_bitsConsumed d mod 8 \<le> 8" by (simp add: less_imp_le)
  ultimately show "st \<noteq> DS_overflow" "st = DS_unfinished \<Longrightarrow> bd_bitsConsumed d' \<le> 8"
    using assms(2) p by (auto simp: BIT_reloadDStream_def BIT_reloadDStream_internal_def Let_def cbind_eq_Ok split: if_splits)
qed

lemma reads_reload:
  assumes "reads dt src fs xa xb syms d"
  shows "\<exists>st d'. BIT_reloadDStream src d = Ok (st, d') \<and> st \<noteq> DS_overflow \<and> refilled d' \<and> reads dt src fs xa xb syms d'
    \<and> (st = DS_unfinished \<longrightarrow> bd_bitsConsumed d' \<le> 8)"
proof -
  have d: "decodes src (stream_width (rev fs)) d" using assms by (simp add: reads_def)
  obtain st d' where r: "BIT_reloadDStream src d = Ok (st, d')" "decodes src (stream_width (rev fs)) d'" "refilled d'"
    using reload_refills [OF d] by blast
  then show ?thesis using reload_status [OF d r(1)] assms by (simp add: reads_def)
qed

section \<open>Taking a symbol\<close>

lemma getsymbol_eq:
  assumes "st < length (dt_table dt)" and "bd_bitsConsumed d + unat (de_nbBits (dt_table dt ! st)) \<le> 64"
    and "fast \<longrightarrow> 1 \<le> unat (de_nbBits (dt_table dt ! st))"
  shows "FSE_GETSYMBOL fast dt (st, d) = FSE_decodeSymbol dt (st, d)"
  using assms lookBitsFast_eq [of "unat (de_nbBits (dt_table dt ! st))" d]
  by (auto simp: FSE_GETSYMBOL_def FSE_decodeSymbolFast_def FSE_decodeSymbol_def BIT_readBitsFast_def BIT_readBits_def Let_def)

lemma getsymbol_last:
  assumes "st < length (dt_table dt)"
  shows "\<exists>st' v. FSE_GETSYMBOL fast dt (st, d)
    = Ok (de_symbol (dt_table dt ! st), st', BIT_skipBits (unat (de_nbBits (dt_table dt ! st))) d)"
  using assms
  by (auto simp: FSE_GETSYMBOL_def FSE_decodeSymbolFast_def FSE_decodeSymbol_def BIT_readBitsFast_def BIT_readBits_def Let_def)

lemma get_field:
  assumes "reads dt src ((v, nb) # fs) xa xb syms d" and "bd_bitsConsumed d + nb \<le> 64"
    and "fast \<longrightarrow> 1 \<le> unat (de_nbBits (dt_table dt ! xa))"
  shows "\<exists>a rest xa' d'. syms = a # rest \<and> FSE_GETSYMBOL fast dt (xa, d) = Ok (a, xa', d')
    \<and> reads dt src fs xb xa' rest d' \<and> bd_bitsConsumed d' = bd_bitsConsumed d + nb"
proof -
  have r: "decodes_to dt ((v, nb) # fs) xa xb syms" "decodes src (stream_width (rev fs) + nb) d"
    "fields_fit (rev fs @ [(v, nb)])" "le_nat src mod 2 ^ stream_width (rev fs @ [(v, nb)]) = stream_number (rev fs @ [(v, nb)])"
    using assms(1) by (simp_all add: reads_def)
  obtain a rest where a: "syms = a # rest" "xa < length (dt_table dt)" "de_symbol (dt_table dt ! xa) = a"
    "unat (de_nbBits (dt_table dt ! xa)) = nb" "decodes_to dt fs xb (unat (de_newState (dt_table dt ! xa)) + v) rest"
    using r(1) by (auto elim: decodes_to_ConsE)
  obtain w d' where w: "BIT_readBits d nb = (w, d')" by (cases "BIT_readBits d nb")
  note f = read_fitting [OF r(2) assms(2) le_add2, unfolded w fst_conv snd_conv add_diff_cancel_right']
  have "unat w = v" using f(1) top_field(1) [OF r(3,4)] by simp
  then have "FSE_GETSYMBOL fast dt (xa, d) = Ok (a, unat (de_newState (dt_table dt ! xa)) + v, d')"
    using getsymbol_eq [OF a(2), of d fast] assms(2,3) a(2-4) w by (simp add: FSE_decodeSymbol_def Let_def)
  moreover have "fields_fit (rev fs)" using r(3) by (simp add: fields_fit_def)
  ultimately show ?thesis
    using a(1,5) f(2,3) top_field(2) [OF r(3,4)] by (auto simp: reads_def)
qed

section \<open>Decoding\<close>

context coding_tables
begin

lemma field_widths: "decodes_to dt fs xa xb ss \<Longrightarrow> stream_width (rev fs) \<le> L * length fs \<and> (\<forall>f \<in> set fs. snd f \<le> L)"
proof (induction rule: decodes_to.induct)
  case (Next xa a nb fs xb v rest)
  then have "nb \<le> L" using entry_bits [of xa] entries by simp
  then show ?case using Next.IH by simp
qed simp

lemma fast_bit:
  assumes "fast \<longrightarrow> dt_fastMode dt" and "decodes_to dt fs xa xb ss"
  shows "fast \<longrightarrow> 1 \<le> unat (de_nbBits (dt_table dt ! xa))"
  using assms fast_bits decodes_to_states [OF assms(2)] entries by auto

text \<open>A register that is full holds four symbols.\<close>

lemma four_fields:
  assumes "reads dt src fs xa xb ss d" and "bd_bitsConsumed d \<le> 8"
  shows "\<exists>f1 f2 f3 f4 fs'. fs = f1 # f2 # f3 # f4 # fs'"
proof -
  have w: "stream_width (rev fs) + bd_bitsConsumed d \<ge> 64" using assms(1) by (auto simp: reads_def decodes_def)
  have "stream_width (rev fs) \<le> L * length fs" using assms(1) field_widths by (auto simp: reads_def)
  also have "\<dots> \<le> 12 * length fs" using logs by simp
  finally have "4 \<le> length fs" using w assms(2) by linarith
  then show ?thesis by (auto simp: numeral_eq_Suc Suc_le_length_iff)
qed

lemma get_next:
  assumes "reads dt src ((v, nb) # fs) xa xb ss d" and "bd_bitsConsumed d \<le> c" and "c + 12 \<le> 64"
    and "fast \<longrightarrow> dt_fastMode dt"
  shows "\<exists>a rest xa' d'. ss = a # rest \<and> FSE_GETSYMBOL fast dt (xa, d) = Ok (a, xa', d')
    \<and> reads dt src fs xb xa' rest d' \<and> bd_bitsConsumed d' \<le> c + 12"
proof -
  have d: "decodes_to dt ((v, nb) # fs) xa xb ss" using assms(1) by (simp add: reads_def)
  then have "nb \<le> 12" using field_widths logs by fastforce
  then have fit: "bd_bitsConsumed d + nb \<le> 64" "bd_bitsConsumed d + nb \<le> c + 12" using assms(2,3) by simp_all
  obtain a rest xa' d' where "ss = a # rest" "FSE_GETSYMBOL fast dt (xa, d) = Ok (a, xa', d')" "reads dt src fs xb xa' rest d'"
    "bd_bitsConsumed d' = bd_bitsConsumed d + nb"
    using get_field [OF assms(1) fit(1) fast_bit [OF assms(4) d]] by blast
  then show ?thesis using fit(2) by metis
qed

text \<open>A turn of the loop.\<close>

lemma get_four:
  assumes "reads dt src fs xa xb ss d" and "bd_bitsConsumed d \<le> 8" and "fast \<longrightarrow> dt_fastMode dt"
  obtains a b c e rest x1 x2 x3 x4 d1 d2 d3 d4 fs' where "ss = [a, b, c, e] @ rest"
    and "FSE_GETSYMBOL fast dt (xa, d) = Ok (a, x1, d1)" and "FSE_GETSYMBOL fast dt (xb, d1) = Ok (b, x2, d2)"
    and "FSE_GETSYMBOL fast dt (x1, d2) = Ok (c, x3, d3)" and "FSE_GETSYMBOL fast dt (x2, d3) = Ok (e, x4, d4)"
    and "reads dt src fs' x3 x4 rest d4"
proof -
  obtain v1 n1 v2 n2 v3 n3 v4 n4 fs' where fs: "fs = (v1, n1) # (v2, n2) # (v3, n3) # (v4, n4) # fs'"
    using four_fields [OF assms(1,2)] by auto
  obtain a r1 x1 d1 where 1: "ss = a # r1" "FSE_GETSYMBOL fast dt (xa, d) = Ok (a, x1, d1)"
    "reads dt src ((v2, n2) # (v3, n3) # (v4, n4) # fs') xb x1 r1 d1" "bd_bitsConsumed d1 \<le> 8 + 12"
    using get_next [OF assms(1) [unfolded fs] assms(2) _ assms(3)] by auto
  obtain b r2 x2 d2 where 2: "r1 = b # r2" "FSE_GETSYMBOL fast dt (xb, d1) = Ok (b, x2, d2)"
    "reads dt src ((v3, n3) # (v4, n4) # fs') x1 x2 r2 d2" "bd_bitsConsumed d2 \<le> 8 + 12 + 12"
    using get_next [OF 1(3,4) _ assms(3)] by auto
  obtain c r3 x3 d3 where 3: "r2 = c # r3" "FSE_GETSYMBOL fast dt (x1, d2) = Ok (c, x3, d3)"
    "reads dt src ((v4, n4) # fs') x2 x3 r3 d3" "bd_bitsConsumed d3 \<le> 8 + 12 + 12 + 12"
    using get_next [OF 2(3,4) _ assms(3)] by auto
  obtain e r4 x4 d4 where 4: "r3 = e # r4" "FSE_GETSYMBOL fast dt (x2, d3) = Ok (e, x4, d4)"
    "reads dt src fs' x3 x4 r4 d4"
    using get_next [OF 3(3,4) _ assms(3)] by auto
  have "ss = [a, b, c, e] @ r4" using 1(1) 2(1) 3(1) 4(1) by simp
  then show thesis using that 1(2) 2(2) 3(2) 4(2,3) by metis
qed

lemma decode_loop_reads:
  assumes "reads dt src fs xa xb ss d" and "length out + length ss \<le> n" and "fast \<longrightarrow> dt_fastMode dt"
  shows "\<exists>k fs' xa' xb' d'. decode_loop fast dt src n out (xa, xb, d) = Ok (out @ take k ss, xa', xb', d')
    \<and> reads dt src fs' xa' xb' (drop k ss) d' \<and> refilled d'"
  using assms
proof (induction "length ss" arbitrary: fs xa xb ss d out rule: less_induct)
  case less
  obtain st d0 where d0: "BIT_reloadDStream src d = Ok (st, d0)" "refilled d0" "reads dt src fs xa xb ss d0"
    "st = DS_unfinished \<longrightarrow> bd_bitsConsumed d0 \<le> 8"
    using reads_reload [OF less.prems(1)] by blast
  show ?case
  proof (cases "st = DS_unfinished \<and> length out + 3 < n")
    case True
    then have b0: "bd_bitsConsumed d0 \<le> 8" using d0(4) by simp
    obtain s1 s2 s3 s4 r4 x1 x2 x3 x4 d1 d2 d3 d4 fs' where ss: "ss = [s1, s2, s3, s4] @ r4"
      and g: "FSE_GETSYMBOL fast dt (xa, d0) = Ok (s1, x1, d1)" "FSE_GETSYMBOL fast dt (xb, d1) = Ok (s2, x2, d2)"
        "FSE_GETSYMBOL fast dt (x1, d2) = Ok (s3, x3, d3)" "FSE_GETSYMBOL fast dt (x2, d3) = Ok (s4, x4, d4)"
      and r4: "reads dt src fs' x3 x4 r4 d4"
      by (rule get_four [OF d0(3) b0 less.prems(3)])
    have "decode_loop fast dt src n out (xa, xb, d) = decode_loop fast dt src n (out @ [s1, s2, s3, s4]) (x3, x4, d4)"
      using d0(1) True g by (simp add: decode_loop.simps [of fast dt src n out])
    moreover have shorter: "length r4 < length ss" "length (out @ [s1, s2, s3, s4]) + length r4 \<le> n"
      using less.prems(2) ss by simp_all
    obtain k fs'' xa' xb' d' where
      "decode_loop fast dt src n (out @ [s1, s2, s3, s4]) (x3, x4, d4) = Ok ((out @ [s1, s2, s3, s4]) @ take k r4, xa', xb', d')"
      "reads dt src fs'' xa' xb' (drop k r4) d'" "refilled d'"
      using less.hyps [OF shorter(1) r4 shorter(2) less.prems(3)] by blast
    moreover have "take (4 + k) ss = [s1, s2, s3, s4] @ take k r4" "drop (4 + k) ss = drop k r4"
      by (simp_all add: ss numeral_eq_Suc)
    ultimately show ?thesis by (intro exI [of _ "4 + k"]) auto
  next
    case False
    then have "decode_loop fast dt src n out (xa, xb, d) = Ok (out @ take 0 ss, xa, xb, d0)"
      using d0(1) by (auto simp: decode_loop.simps [of fast dt src n out])
    then show ?thesis using d0(2,3) by (intro exI [of _ 0]) auto
  qed
qed

lemma decode_tail_reads:
  assumes "reads dt src fs xa xb ss d" and "refilled d" and "length out + length ss \<le> n" and "fast \<longrightarrow> dt_fastMode dt"
  shows "decode_tail fast dt src n out (xa, xb, d) = Ok (out @ ss)"
  using assms
proof (induction fs arbitrary: xa xb ss d out)
  case Nil
  have dec: "decodes_to dt [] xa xb ss" and d: "decodes src 0 d" using Nil.prems(1) by (simp_all add: reads_def)
  obtain a b where ss: "ss = [a, b]" "xa < length (dt_table dt)" "xb < length (dt_table dt)"
    "de_symbol (dt_table dt ! xa) = a" "de_symbol (dt_table dt ! xb) = b" "1 \<le> unat (de_nbBits (dt_table dt ! xa))"
    using dec by (auto elim: decodes_to_NilE)
  let ?nb = "unat (de_nbBits (dt_table dt ! xa))"
  have nb: "1 \<le> ?nb" "?nb \<le> 12" using ss(2,6) entry_bits [of xa] entries logs by simp_all
  have b: "bd_bitsConsumed d = 64" using d by (auto simp: decodes_def)
  then have "64 < bd_bitsConsumed (BIT_skipBits ?nb d)" using nb by (simp add: BIT_skipBits_def)
  then have "\<exists>d'. BIT_reloadDStream src (BIT_skipBits ?nb d) = Ok (DS_overflow, d')" by (simp add: BIT_reloadDStream_def)
  then obtain d' where r: "BIT_reloadDStream src (BIT_skipBits ?nb d) = Ok (DS_overflow, d')" by blast
  obtain x1 where g1: "FSE_GETSYMBOL fast dt (xa, d) = Ok (a, x1, BIT_skipBits ?nb d)"
    using getsymbol_last [OF ss(2), of fast d] ss(4) by auto
  obtain x2 d2 where g2: "FSE_GETSYMBOL fast dt (xb, d') = Ok (b, x2, d2)"
    using getsymbol_last [OF ss(3), of fast d'] ss(5) by auto
  show ?case using Nil.prems(3) g1 r g2 by (simp add: decode_tail.simps [of fast dt src n out] ss(1))
next
  case (Cons f fs)
  obtain v nb where f: "f = (v, nb)" by (cases f)
  have dec: "decodes_to dt ((v, nb) # fs) xa xb ss" and d: "decodes src (stream_width (rev fs) + nb) d"
    using Cons.prems(1) by (simp_all add: reads_def f)
  have "nb < 32" using field_widths [OF dec] logs by simp
  then have "bd_bitsConsumed d + nb \<le> 64" by (rule refilled_fits [OF d Cons.prems(2)]) simp
  from get_field [OF Cons.prems(1) [unfolded f] this fast_bit [OF Cons.prems(4) dec]]
  obtain a rest x1 d1 where 1: "ss = a # rest" "FSE_GETSYMBOL fast dt (xa, d) = Ok (a, x1, d1)"
    "reads dt src fs xb x1 rest d1"
    by blast
  obtain st d2 where 2: "BIT_reloadDStream src d1 = Ok (st, d2)" "st \<noteq> DS_overflow" "refilled d2" "reads dt src fs xb x1 rest d2"
    using reads_reload [OF 1(3)] by blast
  have "2 \<le> length rest" using 1(3) decodes_to_length by (auto simp: reads_def)
  then have "decode_tail fast dt src n out (xa, xb, d) = decode_tail fast dt src n (out @ [a]) (xb, x1, d2)"
    using Cons.prems(3) 1(1,2) 2(1,2) by (simp add: decode_tail.simps [of fast dt src n out])
  also have "\<dots> = Ok ((out @ [a]) @ rest)"
    using Cons.IH [OF 2(4,3), of "out @ [a]"] Cons.prems(3,4) 1(1) by simp
  finally show ?case using 1(1) by simp
qed

lemma init_state:
  assumes "decodes src (T + L) d" and "refilled d"
  shows "\<exists>d'. FSE_initDState dt src d = Ok (le_nat src div 2 ^ T mod 2 ^ L, d') \<and> decodes src T d' \<and> refilled d'"
proof -
  obtain w d1 where w: "BIT_readBits d L = (w, d1)" by (cases "BIT_readBits d L")
  have "unat w = le_nat src div 2 ^ T mod 2 ^ L" "decodes src T d1"
    using read_value [OF assms, of L] logs w by simp_all
  then show ?thesis using reload_refills [of src T d1] w logs by (auto simp: FSE_initDState_def)
qed

text \<open>A stream that ends with the states is decompressed.\<close>

lemma decompress_reads:
  assumes "decodes_to dt fs xa xb ss" and "fields_fit (rev fs @ [(xb, L), (xa, L)])" and "length ss \<le> n"
    and "le_nat src = stream_number (rev fs @ [(xb, L), (xa, L)]) + 2 ^ T" and "T = stream_width (rev fs @ [(xb, L), (xa, L)])"
    and "length src = T div 8 + 1" and "fast \<longrightarrow> dt_fastMode dt"
  shows "FSE_decompress_usingDTable_generic n src dt fast = Ok ss"
proof -
  let ?fs = "rev fs @ [(xb, L)]"
  have T: "T = stream_width (rev fs) + L + L" using assms(5) stream_width_snoc [of ?fs xa L] stream_width_snoc [of "rev fs" xb L] by simp
  have fit: "fields_fit (?fs @ [(xa, L)])" "fields_fit ?fs" "fields_fit (rev fs)" using assms(2) by (simp_all add: fields_fit_def)
  have "stream_number (?fs @ [(xa, L)]) < 2 ^ T" using stream_number_less [OF fit(1)] assms(5) by simp
  then have N: "le_nat src mod 2 ^ stream_width (?fs @ [(xa, L)]) = stream_number (?fs @ [(xa, L)])"
    using assms(4,5) by simp
  note 1 = top_field [OF fit(1) N] and 2 = top_field [OF fit(2) top_field(2) [OF fit(1) N]]
  obtain d where d: "BIT_initDStream src = Ok d" "decodes src T d" "refilled d"
    using init_reads [of src _ T] assms(4,6) \<open>_ < 2 ^ T\<close> by fastforce
  obtain d1 where d1: "FSE_initDState dt src d = Ok (xa, d1)" "decodes src (stream_width (rev fs) + L) d1" "refilled d1"
    using init_state [OF d(2,3) [unfolded T]] 1(1) by auto
  obtain d2 where d2: "FSE_initDState dt src d1 = Ok (xb, d2)" "decodes src (stream_width (rev fs)) d2"
    using init_state [OF d1(2,3)] 2(1) by auto
  have "reads dt src fs xa xb ss d2" using assms(1) d2(2) fit(3) 2(2) by (simp add: reads_def)
  then obtain st d3 where d3: "BIT_reloadDStream src d2 = Ok (st, d3)" "st \<noteq> DS_overflow" "reads dt src fs xa xb ss d3"
    using reads_reload by blast
  obtain k fs' xa' xb' d' where l: "decode_loop fast dt src n [] (xa, xb, d3) = Ok (take k ss, xa', xb', d')"
    "reads dt src fs' xa' xb' (drop k ss) d'" "refilled d'"
    using decode_loop_reads [OF d3(3), of "[]" n fast] assms(3,7) by auto
  have "decode_tail fast dt src n (take k ss) (xa', xb', d') = Ok (take k ss @ drop k ss)"
    by (rule decode_tail_reads [OF l(2,3)]) (use assms(3,7) in auto)
  then show ?thesis using d(1) d1(1) d2(1) d3(1,2) l(1) by (simp add: FSE_decompress_usingDTable_generic_def check_that_def)
qed

end

section \<open>A stream with room\<close>

text \<open>At most \<open>w\<close> bits wait in the register; with room, the end of the buffer is not reached.\<close>

definition stream_ok :: "bool \<Rightarrow> nat \<Rightarrow> nat \<Rightarrow> (nat \<times> nat) list \<Rightarrow> cstream \<Rightarrow> bool" where
  "stream_ok room E w fs c \<longleftrightarrow> encodes fs c \<and> bc_bitPos c \<le> w \<and> bc_endPtr c = E \<and> bc_ptr c \<le> E \<and> (room \<longrightarrow> bc_ptr c < E)"

lemma stream_init:
  "BIT_initCStream buf = Ok c \<Longrightarrow> stream_ok room (length buf - 8) 0 [] c"
  using encodes_init [of buf c] by (auto simp: stream_ok_def BIT_initCStream_def check_that_eq_Ok)

lemma stream_add:
  assumes "stream_ok room E w fs c" and "n < 32" and "w + n < 64"
  shows "\<exists>c'. BIT_addBits v n c = Ok c' \<and> stream_ok room E (w + n) (fs @ [(unat v mod 2 ^ n, n)]) c'"
proof -
  have "\<exists>c'. BIT_addBits v n c = Ok c' \<and> bc_bitPos c' = bc_bitPos c + n \<and> bc_ptr c' = bc_ptr c"
    using assms by (simp add: BIT_addBits_def stream_ok_def)
  then obtain c' where c': "BIT_addBits v n c = Ok c'" "bc_bitPos c' = bc_bitPos c + n" "bc_ptr c' = bc_ptr c" by blast
  then show ?thesis using encodes_add [OF _ c'(1)] assms(1) by (auto simp: stream_ok_def)
qed

lemma stream_flush:
  assumes "stream_ok room E w fs c" and "fast \<longrightarrow> room" and "room \<longrightarrow> stream_width fs < 8 * E"
  shows "\<exists>c'. FSE_FLUSHBITS fast c = Ok c' \<and> stream_ok room E 7 fs c'"
proof -
  have c: "encodes fs c" "bc_bitPos c < 64" "length (bc_buf c) = E + 8" "bc_ptr c \<le> E" "bc_endPtr c = E"
    using assms(1) by (auto simp: stream_ok_def encodes_def)
  have r: "bc_ptr c < E \<and> bc_ptr c + bc_bitPos c div 8 < E" if room
  proof -
    have "bc_ptr c < E" using assms(1) that by (simp add: stream_ok_def)
    then have "stream_width fs = 8 * bc_ptr c + bc_bitPos c" using c(1,5) by (simp add: encodes_def)
    then show ?thesis using \<open>bc_ptr c < E\<close> assms(3) that by simp
  qed
  have "bc_bitPos c mod 8 \<le> 7" using mod_less_divisor [of 8 "bc_bitPos c"] by linarith
  moreover have "\<exists>c'. FSE_FLUSHBITS fast c = Ok c' \<and> bc_bitPos c' = bc_bitPos c mod 8
      \<and> bc_ptr c' = (if fast then bc_ptr c + bc_bitPos c div 8 else min (bc_ptr c + bc_bitPos c div 8) E)"
    using c by (simp add: FSE_FLUSHBITS_def BIT_flushBitsFast_def BIT_flushBits_def Let_def MEM_write64_def)
  then obtain c' where c': "FSE_FLUSHBITS fast c = Ok c'" "bc_bitPos c' = bc_bitPos c mod 8"
    "bc_ptr c' = (if fast then bc_ptr c + bc_bitPos c div 8 else min (bc_ptr c + bc_bitPos c div 8) E)"
    by blast
  moreover have "encodes fs c' \<and> bc_endPtr c' = E"
    using c'(1) c(5) encodes_flush [OF c(1)] encodes_flushFast [OF c(1)] by (auto simp: FSE_FLUSHBITS_def split: if_splits)
  ultimately show ?thesis using r assms(2) c(4) by (auto simp: stream_ok_def)
qed

lemma stream_close:
  assumes "stream_ok room E w fs c" and "w < 63" and "room \<longrightarrow> stream_width fs + 1 < 8 * E"
  shows "\<exists>n c'. BIT_closeCStream c = Ok (n, c') \<and> (room \<longrightarrow> n \<noteq> 0)"
proof -
  have b: "1 + bc_bitPos c < 64" using assms(1,2) by (simp add: stream_ok_def)
  then have "\<exists>c'. BIT_addBitsFast 1 1 c = Ok c' \<and> bc_bitPos c' = bc_bitPos c + 1 \<and> bc_ptr c' = bc_ptr c"
    by (simp add: BIT_addBitsFast_def)
  then obtain c1 where c1: "BIT_addBitsFast 1 1 c = Ok c1" "bc_bitPos c1 = bc_bitPos c + 1" "bc_ptr c1 = bc_ptr c" by blast
  have s1: "stream_ok room E (w + 1) (fs @ [(1, 1)]) c1"
    using c1(2,3) encodes_addFast [OF _ c1(1)] assms(1) by (auto simp: stream_ok_def)
  have "room \<longrightarrow> stream_width (fs @ [(1, 1)]) < 8 * E" using assms(3) by simp
  then obtain c2 where c2: "FSE_FLUSHBITS False c1 = Ok c2" "stream_ok room E 7 (fs @ [(1, 1)]) c2"
    using stream_flush [OF s1, of False] by blast
  have "bc_ptr c2 + of_bool (0 < bc_bitPos c2) \<noteq> 0" if room
  proof -
    have "encodes (fs @ [(1, 1)]) c2" "bc_ptr c2 < bc_endPtr c2" using c2(2) that by (simp_all add: stream_ok_def)
    then have "stream_width fs + 1 = 8 * bc_ptr c2 + bc_bitPos c2" by (simp add: encodes_def)
    then show ?thesis by auto
  qed
  then show ?thesis using c1(1) c2 by (auto simp: BIT_closeCStream_def FSE_FLUSHBITS_def stream_ok_def)
qed

section \<open>Coding\<close>

text \<open>What the coders have written decodes, from their states, to the symbols they have taken. The first state is the one
  the decoder goes on with when \<open>first\<close>.\<close>

definition coders_ok :: "nat \<Rightarrow> fse_dtable \<Rightarrow> bool \<Rightarrow> nat \<Rightarrow> nat \<Rightarrow> bool \<Rightarrow> bytes \<Rightarrow> fse_coders \<Rightarrow> bool" where
  "coders_ok L dt room E w first ss cs \<longleftrightarrow>
     (\<exists>fs x1 x2. stream_ok room E w (rev fs) (fst cs) \<and> x1 < 2 ^ L \<and> x2 < 2 ^ L
        \<and> snd cs = (\<lparr>cs_value = int (2 ^ L + x1), cs_stateLog = L\<rparr>, \<lparr>cs_value = int (2 ^ L + x2), cs_stateLog = L\<rparr>)
        \<and> decodes_to dt fs (if first then x1 else x2) (if first then x2 else x1) ss)"

context coding_tables
begin

lemma encode_symbol:
  assumes "stream_ok room E w (rev fs) c" and "x < 2 ^ L" and "s \<in> syms" and "w + 12 < 64"
    and "decodes_to dt fs xo x ss"
  shows "\<exists>c' u fs'. FSE_encodeSymbol ct s (c, \<lparr>cs_value = int (2 ^ L + x), cs_stateLog = L\<rparr>)
      = Ok (c', \<lparr>cs_value = int (2 ^ L + u), cs_stateLog = L\<rparr>)
    \<and> u < 2 ^ L \<and> stream_ok room E (w + 12) (rev fs') c' \<and> decodes_to dt fs' u xo (s # ss)"
proof -
  obtain u nb where u: "u < 2 ^ L" "nb \<le> L"
    "nb = nat ((int (2 ^ L + x) + uint (deltaNbBits (ct_symbolTT ct ! unat s))) div 2 ^ 16)"
    "next_state ct (int (2 ^ L + x)) nb (unat s) = Ok (int (2 ^ L + u))"
    "de_symbol (dt_table dt ! u) = s" "unat (de_nbBits (dt_table dt ! u)) = nb"
    "unat (de_newState (dt_table dt ! u)) + x mod 2 ^ nb = x"
    using next_of [OF assms(3,2)] by blast
  have nb: "nb < 32" "w + nb < 64" using u(2) logs assms(4) by simp_all
  obtain c' where c': "BIT_addBits (of_nat (2 ^ L + x)) nb c = Ok c'"
    "stream_ok room E (w + nb) (rev fs @ [(unat (of_nat (2 ^ L + x) :: u64) mod 2 ^ nb, nb)]) c'"
    using stream_add [OF assms(1) nb] by blast
  have "(2 :: nat) ^ L \<le> 2 ^ 12" using logs by (intro power_increasing) simp_all
  then have "(2 :: nat) ^ L + x < 2 ^ LENGTH(64)" using assms(2) by simp
  then have "unat (of_nat (2 ^ L + x) :: u64) = 2 ^ L + x"
    by (simp only: unsigned_of_nat take_bit_nat_eq_self of_nat_id)
  moreover have "(2 :: nat) ^ nb dvd 2 ^ L" using u(2) by (rule le_imp_power_dvd)
  then have "(2 ^ L + x) mod 2 ^ nb = x mod 2 ^ nb" by (simp add: mod_add_left_eq [symmetric] dvd_imp_mod_0)
  ultimately have "stream_ok room E (w + nb) (rev ((x mod 2 ^ nb, nb) # fs)) c'" using c'(2) by simp
  moreover have "w + nb \<le> w + 12" using u(2) logs by simp
  ultimately have "stream_ok room E (w + 12) (rev ((x mod 2 ^ nb, nb) # fs)) c'" unfolding stream_ok_def by linarith
  moreover have "decodes_to dt ((x mod 2 ^ nb, nb) # fs) u xo (s # ss)"
    by (rule decodes_to.Next) (use u(1,5-7) entries assms(5) in simp_all)
  moreover have "FSE_encodeSymbol ct s (c, \<lparr>cs_value = int (2 ^ L + x), cs_stateLog = L\<rparr>)
      = Ok (c', \<lparr>cs_value = int (2 ^ L + u), cs_stateLog = L\<rparr>)"
    using symbols [OF assms(3)] c'(1) u(4)
    by (simp only: FSE_encodeSymbol_def Let_def fse_cstate.simps u(3) [symmetric] of_int_of_nat_eq prod.case cbind.simps not_le if_False)
      simp
  ultimately show ?thesis using u(1) by blast
qed

lemma encode_on_ok:
  assumes "coders_ok L dt room E w (\<not> first) ss cs" and "s \<in> syms" and "w + 12 < 64"
  shows "\<exists>cs'. encode_on ct first s cs = Ok cs' \<and> coders_ok L dt room E (w + 12) first (s # ss) cs'"
proof -
  obtain fs x1 x2 where cs: "stream_ok room E w (rev fs) (fst cs)" "x1 < 2 ^ L" "x2 < 2 ^ L"
    "cs = (fst cs, \<lparr>cs_value = int (2 ^ L + x1), cs_stateLog = L\<rparr>, \<lparr>cs_value = int (2 ^ L + x2), cs_stateLog = L\<rparr>)"
    "decodes_to dt fs (if first then x2 else x1) (if first then x1 else x2) ss"
  proof -
    obtain fs x1 x2 where "stream_ok room E w (rev fs) (fst cs)" "x1 < 2 ^ L" "x2 < 2 ^ L"
      "snd cs = (\<lparr>cs_value = int (2 ^ L + x1), cs_stateLog = L\<rparr>, \<lparr>cs_value = int (2 ^ L + x2), cs_stateLog = L\<rparr>)"
      "decodes_to dt fs (if \<not> first then x1 else x2) (if \<not> first then x2 else x1) ss"
      using assms(1) unfolding coders_ok_def by blast
    then show thesis by (intro that [of fs x1 x2]) (auto simp: prod_eq_iff split: if_splits)
  qed
  have xs: "(if first then x1 else x2) < 2 ^ L" using cs(2,3) by simp
  obtain c' u fs' where 1: "FSE_encodeSymbol ct s (fst cs, \<lparr>cs_value = int (2 ^ L + (if first then x1 else x2)), cs_stateLog = L\<rparr>)
      = Ok (c', \<lparr>cs_value = int (2 ^ L + u), cs_stateLog = L\<rparr>)" "u < 2 ^ L" "stream_ok room E (w + 12) (rev fs') c'"
    "decodes_to dt fs' u (if first then x2 else x1) (s # ss)"
    using encode_symbol [OF cs(1) xs assms(2,3) cs(5)] by blast
  show ?thesis
  proof (cases first)
    case True
    then have "encode_on ct first s cs = Ok (c', \<lparr>cs_value = int (2 ^ L + u), cs_stateLog = L\<rparr>,
        \<lparr>cs_value = int (2 ^ L + x2), cs_stateLog = L\<rparr>)" (is "_ = Ok ?cs'")
      using 1(1) by (subst cs(4)) (simp add: encode_on_def)
    moreover have "coders_ok L dt room E (w + 12) first (s # ss) ?cs'"
      unfolding coders_ok_def using True 1(2-4) cs(3)
      by (intro exI [of _ fs'] exI [of _ u] exI [of _ x2]) simp
    ultimately show ?thesis by blast
  next
    case False
    then have "encode_on ct first s cs = Ok (c', \<lparr>cs_value = int (2 ^ L + x1), cs_stateLog = L\<rparr>,
        \<lparr>cs_value = int (2 ^ L + u), cs_stateLog = L\<rparr>)" (is "_ = Ok ?cs'")
      using 1(1) by (subst cs(4)) (simp add: encode_on_def)
    moreover have "coders_ok L dt room E (w + 12) first (s # ss) ?cs'"
      unfolding coders_ok_def using False 1(2-4) cs(2)
      by (intro exI [of _ fs'] exI [of _ x1] exI [of _ u]) simp
    ultimately show ?thesis by blast
  qed
qed

lemma flush_on_ok:
  assumes "coders_ok L dt room E w first ss cs" and "fast \<longrightarrow> room" and "room \<longrightarrow> L * length ss < 8 * E"
  shows "\<exists>cs'. flush_on fast cs = Ok cs' \<and> coders_ok L dt room E 7 first ss cs'"
proof -
  obtain fs x1 x2 where cs: "stream_ok room E w (rev fs) (fst cs)" "x1 < 2 ^ L" "x2 < 2 ^ L"
    "snd cs = (\<lparr>cs_value = int (2 ^ L + x1), cs_stateLog = L\<rparr>, \<lparr>cs_value = int (2 ^ L + x2), cs_stateLog = L\<rparr>)"
    "decodes_to dt fs (if first then x1 else x2) (if first then x2 else x1) ss"
    using assms(1) unfolding coders_ok_def by blast
  have "stream_width (rev fs) \<le> L * length fs" using field_widths [OF cs(5)] by blast
  also have "\<dots> \<le> L * length ss" using logs decodes_to_length [OF cs(5)] by (intro mult_le_mono) simp_all
  finally have "room \<longrightarrow> stream_width (rev fs) < 8 * E" using assms(3) by linarith
  then obtain c' where c': "FSE_FLUSHBITS fast (fst cs) = Ok c'" "stream_ok room E 7 (rev fs) c'"
    using stream_flush [OF cs(1) assms(2)] by blast
  then have "flush_on fast cs = Ok (c', snd cs)" by (simp add: flush_on_def split_beta)
  then show ?thesis using c'(2) cs(2-5) unfolding coders_ok_def by auto
qed


lemma coders_loosen: "coders_ok L dt room E w first ss cs \<Longrightarrow> w \<le> w' \<Longrightarrow> coders_ok L dt room E w' first ss cs"
  unfolding coders_ok_def stream_ok_def by (meson order_trans)

text \<open>Two symbols, the second state's first, as the loop and the step before it take them.\<close>

lemma encode_two:
  assumes "coders_ok L dt room E w True ss cs" and "a \<in> syms" and "b \<in> syms" and "w + 24 < 64"
  shows "\<exists>cs1 cs2. encode_on ct False a cs = Ok cs1 \<and> encode_on ct True b cs1 = Ok cs2
    \<and> coders_ok L dt room E (w + 24) True (b # a # ss) cs2"
proof -
  have w: "w + 12 < 64" "w + 12 + 12 < 64" using assms(4) by simp_all
  obtain cs1 where 1: "encode_on ct False a cs = Ok cs1" "coders_ok L dt room E (w + 12) False (a # ss) cs1"
    using encode_on_ok [of room E w False ss cs a] assms(1,2) w by auto
  obtain cs2 where 2: "encode_on ct True b cs1 = Ok cs2" "coders_ok L dt room E (w + 12 + 12) True (b # a # ss) cs2"
    using encode_on_ok [of room E "w + 12" True "a # ss" cs1 b] 1(2) assms(3) w by auto
  show ?thesis using 1(1) 2 by (metis (no_types, lifting) add.assoc numeral_Bit0)
qed

lemma encode_loop_ok:
  assumes "coders_ok L dt room E 7 True ss cs" and "set ip \<subseteq> syms" and "4 dvd length ip" and "fast \<longrightarrow> room"
    and "room \<longrightarrow> L * (length ip + length ss) < 8 * E"
  shows "\<exists>cs'. encode_loop ct fast ip cs = Ok cs' \<and> coders_ok L dt room E 7 True (rev ip @ ss) cs'"
  using assms
proof (induction ip arbitrary: ss cs rule: measure_induct_rule [where f = length])
  case (less ip)
  show ?case
  proof (cases ip)
    case Nil
    then show ?thesis using less.prems(1) by simp
  next
    case (Cons a ip')
    then have "4 \<le> length ip" by (intro dvd_imp_le [OF less.prems(3)]) simp
    then obtain b c d rest where ip: "ip = a # b # c # d # rest"
      using Cons by (auto simp: numeral_eq_Suc Suc_le_length_iff)
    have "a \<in> syms" "b \<in> syms" "c \<in> syms" "d \<in> syms" using less.prems(2) ip by simp_all
    note sy = this
    obtain cs1 cs2 where 1: "encode_on ct False a cs = Ok cs1" "encode_on ct True b cs1 = Ok cs2"
      "coders_ok L dt room E (7 + 24) True (b # a # ss) cs2"
      using encode_two [OF less.prems(1) sy(1,2)] by auto
    obtain cs3 cs4 where 2: "encode_on ct False c cs2 = Ok cs3" "encode_on ct True d cs3 = Ok cs4"
      "coders_ok L dt room E (7 + 24 + 24) True (d # c # b # a # ss) cs4"
      using encode_two [OF 1(3) sy(3,4)] by auto
    have "room \<longrightarrow> L * length (d # c # b # a # ss) < 8 * E" using less.prems(5) ip by (auto simp: distrib_left)
    then obtain cs5 where 3: "flush_on fast cs4 = Ok cs5" "coders_ok L dt room E 7 True (d # c # b # a # ss) cs5"
      using flush_on_ok [OF 2(3) less.prems(4)] by blast
    have "4 dvd length rest" using less.prems(3) unfolding ip list.size by presburger
    then obtain cs' where "encode_loop ct fast rest cs5 = Ok cs'" "coders_ok L dt room E 7 True (rev rest @ d # c # b # a # ss) cs'"
      using less.IH [of rest "d # c # b # a # ss" cs5] 3(2) less.prems(2,4,5) ip by auto
    then show ?thesis using 1(1,2) 2(1,2) 3(1) by (simp add: ip)
  qed
qed


text \<open>The states made from the last two symbols, whichever takes which.\<close>

lemma first_coders:
  assumes "stream_ok room E 0 [] c" and "a \<in> syms" and "b \<in> syms"
  shows "\<exists>sa sb. FSE_initCState2 ct a = Ok sa \<and> FSE_initCState2 ct b = Ok sb
    \<and> coders_ok L dt room E 0 True [b, a] (c, sb, sa) \<and> coders_ok L dt room E 0 False [b, a] (c, sa, sb)"
proof -
  obtain ua where ua: "ua < 2 ^ L" "FSE_initCState2 ct a = Ok \<lparr>cs_value = int (2 ^ L + ua), cs_stateLog = L\<rparr>"
    "de_symbol (dt_table dt ! ua) = a"
    using first_state [OF assms(2)] by blast
  obtain ub where ub: "ub < 2 ^ L" "FSE_initCState2 ct b = Ok \<lparr>cs_value = int (2 ^ L + ub), cs_stateLog = L\<rparr>"
    "de_symbol (dt_table dt ! ub) = b" "1 \<le> unat (de_nbBits (dt_table dt ! ub))"
    using first_state [OF assms(3)] by blast
  have "decodes_to dt [] ub ua [b, a]" by (rule decodes_to.Last) (use ua ub entries in simp_all)
  then have "coders_ok L dt room E 0 True [b, a] (c, \<lparr>cs_value = int (2 ^ L + ub), cs_stateLog = L\<rparr>, \<lparr>cs_value = int (2 ^ L + ua), cs_stateLog = L\<rparr>)"
    "coders_ok L dt room E 0 False [b, a] (c, \<lparr>cs_value = int (2 ^ L + ua), cs_stateLog = L\<rparr>, \<lparr>cs_value = int (2 ^ L + ub), cs_stateLog = L\<rparr>)"
    unfolding coders_ok_def using assms(1) ua(1) ub(1)
    by (intro exI [of _ "[]"] exI [of _ ub] exI [of _ ua], simp, intro exI [of _ "[]"] exI [of _ ua] exI [of _ ub], simp)
  then show ?thesis using ua(2) ub(2) by blast
qed

lemma encode_start_ok:
  assumes "stream_ok room E 0 [] c" and "set ip \<subseteq> syms" and "3 \<le> length ip" and "fast \<longrightarrow> room" and "room \<longrightarrow> L * 3 < 8 * E"
  shows "\<exists>ss rest cs. encode_start ct fast ip c = Ok (rest, cs) \<and> ip = rev ss @ rest \<and> coders_ok L dt room E 7 True ss cs
    \<and> length rest = 2 * ((length ip - 2) div 2)"
proof -
  obtain a b d rest where ip: "ip = a # b # d # rest" using assms(3) by (auto simp: numeral_eq_Suc Suc_le_length_iff)
  have sy: "a \<in> syms" "b \<in> syms" "d \<in> syms" using assms(2) ip by simp_all
  obtain sa sb where i: "FSE_initCState2 ct a = Ok sa" "FSE_initCState2 ct b = Ok sb"
    "coders_ok L dt room E 0 True [b, a] (c, sb, sa)" "coders_ok L dt room E 0 False [b, a] (c, sa, sb)"
    using first_coders [OF assms(1) sy(1,2)] by blast
  show ?thesis
  proof (cases "odd (length ip)")
    case True
    obtain cs1 where 1: "encode_on ct True d (c, sa, sb) = Ok cs1" "coders_ok L dt room E (0 + 12) True [d, b, a] cs1"
      using encode_on_ok [of room E 0 True "[b, a]" "(c, sa, sb)" d] i(4) sy(3) by auto
    have "room \<longrightarrow> L * length [d, b, a] < 8 * E" using assms(5) by (simp add: numeral_3_eq_3)
    then obtain cs2 where 2: "flush_on fast cs1 = Ok cs2" "coders_ok L dt room E 7 True [d, b, a] cs2"
      using flush_on_ok [OF 1(2) assms(4)] by blast
    have "encode_start ct fast ip c = Ok (rest, cs2)"
      using True i(1,2) 1(1) 2(1) by (simp add: encode_start_def ip)
    moreover have "even (length rest)" using True ip by simp
    ultimately show ?thesis using 2(2) by (intro exI [of _ "[d, b, a]"] exI [of _ rest] exI [of _ cs2]) (simp add: ip)
  next
    case False
    have "encode_start ct fast ip c = Ok (d # rest, c, sb, sa)"
      using False i(1,2) by (simp add: encode_start_def ip)
    moreover have "odd (length rest)" using False ip by simp
    ultimately show ?thesis using coders_loosen [OF i(3), of 7]
      by (intro exI [of _ "[b, a]"] exI [of _ "d # rest"] exI [of _ "(c, sb, sa)"]) (simp add: ip)
  qed
qed

lemma encode_join_ok:
  assumes "coders_ok L dt room E 7 True ss cs" and "set ip \<subseteq> syms" and "length ip = 2 * ((n - 2) div 2)"
    and "fast \<longrightarrow> room" and "room \<longrightarrow> L * (length ip + length ss) < 8 * E"
  shows "\<exists>ss' ip' cs'. encode_join ct fast n (ip, cs) = Ok (ip', cs') \<and> rev ss' @ ip' = rev ss @ ip
    \<and> coders_ok L dt room E 7 True ss' cs' \<and> 4 dvd length ip'"
proof (cases "bit (n - 2) 1")
  case True
  then have odd: "odd ((n - 2) div 2)" by (simp add: bit_iff_odd)
  then have "2 \<le> length ip" using assms(3) odd_pos by fastforce
  then obtain a b rest where ip: "ip = a # b # rest" by (auto simp: numeral_eq_Suc Suc_le_length_iff)
  obtain cs1 cs2 where 1: "encode_on ct False a cs = Ok cs1" "encode_on ct True b cs1 = Ok cs2"
    "coders_ok L dt room E (7 + 24) True (b # a # ss) cs2"
    using encode_two [OF assms(1), of a b] assms(2) ip by auto
  have "room \<longrightarrow> L * length (b # a # ss) < 8 * E" using assms(5) ip by (auto simp: distrib_left)
  then obtain cs3 where 2: "flush_on fast cs2 = Ok cs3" "coders_ok L dt room E 7 True (b # a # ss) cs3"
    using flush_on_ok [OF 1(3) assms(4)] by blast
  obtain k where "(n - 2) div 2 = 2 * k + 1" using odd by (rule oddE)
  then have "length rest = 4 * k" using assms(3) ip by simp
  then have "encode_join ct fast n (ip, cs) = Ok (rest, cs3)" "4 dvd length rest"
    using True 1(1,2) 2(1) by (simp_all add: encode_join_def ip)
  then show ?thesis using 2(2) by (intro exI [of _ "b # a # ss"] exI [of _ rest] exI [of _ cs3]) (simp add: ip)
next
  case False
  then have "even ((n - 2) div 2)" by (simp add: bit_iff_odd)
  then have "4 dvd length ip" using assms(3) by (auto elim!: evenE)
  moreover have "encode_join ct fast n (ip, cs) = Ok (ip, cs)" using False by (simp add: encode_join_def)
  ultimately show ?thesis using assms(1) by blast
qed


section \<open>The whole string\<close>

lemma flush_state:
  assumes "stream_ok room E 7 fs c" and "x < 2 ^ L" and "room \<longrightarrow> stream_width fs + L < 8 * E"
  shows "\<exists>c'. FSE_flushCState \<lparr>cs_value = int (2 ^ L + x), cs_stateLog = L\<rparr> c = Ok c' \<and> stream_ok room E 7 (fs @ [(x, L)]) c'"
proof -
  have w: "L < 32" "7 + L < 64" using logs by simp_all
  obtain c1 where 1: "BIT_addBits (of_nat (2 ^ L + x)) L c = Ok c1"
    "stream_ok room E (7 + L) (fs @ [(unat (of_nat (2 ^ L + x) :: u64) mod 2 ^ L, L)]) c1"
    using stream_add [OF assms(1) w] by blast
  have "(2 :: nat) ^ L \<le> 2 ^ 12" using logs by (intro power_increasing) simp_all
  then have "(2 :: nat) ^ L + x < 2 ^ LENGTH(64)" using assms(2) by simp
  then have "unat (of_nat (2 ^ L + x) :: u64) = 2 ^ L + x"
    by (simp only: unsigned_of_nat take_bit_nat_eq_self of_nat_id)
  then have 2: "stream_ok room E (7 + L) (fs @ [(x, L)]) c1" using 1(2) assms(2) by simp
  have "room \<longrightarrow> stream_width (fs @ [(x, L)]) < 8 * E" using assms(3) by simp
  then obtain c' where "BIT_flushBits c1 = Ok c'" "stream_ok room E 7 (fs @ [(x, L)]) c'"
    using stream_flush [OF 2, of False] by (auto simp: FSE_FLUSHBITS_def)
  then show ?thesis using 1(1) by (simp add: FSE_flushCState_def)
qed

lemma finish_ok:
  assumes "coders_ok L dt room E 7 True src (c, st1, st2)" and "room \<longrightarrow> L * length src + 1 < 8 * E"
  shows "\<exists>c2 c1 n c'. FSE_flushCState st2 c = Ok c2 \<and> FSE_flushCState st1 c2 = Ok c1 \<and> BIT_closeCStream c1 = Ok (n, c')
    \<and> (room \<longrightarrow> n \<noteq> 0) \<and> (n \<noteq> 0 \<longrightarrow> n \<le> length (bc_buf c') \<and> (\<forall>fast cap. (fast \<longrightarrow> dt_fastMode dt) \<longrightarrow> length src \<le> cap
      \<longrightarrow> FSE_decompress_usingDTable_generic cap (take n (bc_buf c')) dt fast = Ok src))"
proof -
  obtain fs x1 x2 where cs: "stream_ok room E 7 (rev fs) c" "x1 < 2 ^ L" "x2 < 2 ^ L"
    "st1 = \<lparr>cs_value = int (2 ^ L + x1), cs_stateLog = L\<rparr>" "st2 = \<lparr>cs_value = int (2 ^ L + x2), cs_stateLog = L\<rparr>"
    "decodes_to dt fs x1 x2 src"
    using assms(1) unfolding coders_ok_def by auto
  let ?fs = "rev fs @ [(x2, L), (x1, L)]"
  have "stream_width (rev fs) \<le> L * length fs" using field_widths [OF cs(6)] by blast
  also have "L * length fs + L + L = L * length src" using decodes_to_length [OF cs(6)] by (simp add: algebra_simps)
  ultimately have wd: "stream_width (rev fs) + L + L \<le> L * length src" by linarith
  obtain c2 where c2: "FSE_flushCState st2 c = Ok c2" "stream_ok room E 7 (rev fs @ [(x2, L)]) c2"
    using flush_state [OF cs(1,3)] wd assms(2) cs(5) by fastforce
  obtain c1 where c1: "FSE_flushCState st1 c2 = Ok c1" "stream_ok room E 7 ((rev fs @ [(x2, L)]) @ [(x1, L)]) c1"
    using flush_state [OF c2(2) cs(2)] wd assms(2) cs(4) by fastforce
  have "room \<longrightarrow> stream_width ((rev fs @ [(x2, L)]) @ [(x1, L)]) + 1 < 8 * E"
    using wd assms(2) unfolding stream_width_snoc by linarith
  then obtain n c' where c': "BIT_closeCStream c1 = Ok (n, c')" "room \<longrightarrow> n \<noteq> 0"
    using stream_close [OF c1(2)] by auto
  have enc: "encodes ?fs c1" using c1(2) by (simp add: stream_ok_def)
  have "FSE_decompress_usingDTable_generic cap (take n (bc_buf c')) dt fast = Ok src"
    if "n \<noteq> 0" and "fast \<longrightarrow> dt_fastMode dt" and "length src \<le> cap" for fast cap
  proof (rule decompress_reads [OF cs(6)])
    note cl = closed_stream [OF enc c'(1) that(1)]
    show "fields_fit ?fs" using enc by (simp add: encodes_def)
    show "le_nat (take n (bc_buf c')) = stream_number ?fs + 2 ^ stream_width ?fs" using cl by blast
    show "length (take n (bc_buf c')) = stream_width ?fs div 8 + 1" using cl by simp
  qed (use that in simp_all)
  moreover have "n \<noteq> 0 \<longrightarrow> n \<le> length (bc_buf c')" using closed_stream [OF enc c'(1)] by blast
  ultimately show ?thesis using c2(1) c1(1) c' by blast
qed

lemma compress_ok:
  assumes "3 \<le> length src" and "set src \<subseteq> syms" and "8 < length dst" and "fast \<longrightarrow> room"
    and "room \<longrightarrow> L * length src + 1 < 8 * (length dst - 8)"
  shows "\<exists>n buf. FSE_compress_usingCTable_generic dst src ct fast = Ok (n, buf) \<and> (room \<longrightarrow> n \<noteq> 0)
    \<and> (n \<noteq> 0 \<longrightarrow> n \<le> length buf \<and> (\<forall>fast cap. (fast \<longrightarrow> dt_fastMode dt) \<longrightarrow> length src \<le> cap
      \<longrightarrow> FSE_decompress_usingDTable_generic cap (take n buf) dt fast = Ok src))"
proof -
  let ?E = "length dst - 8"
  obtain c where c: "BIT_initCStream dst = Ok c" "stream_ok room ?E 0 [] c"
    using assms(3) stream_init [of dst] by (auto simp: BIT_initCStream_def check_that_def)
  have "room \<longrightarrow> L * 3 < 8 * ?E" "3 \<le> length (rev src)" "set (rev src) \<subseteq> syms"
    using assms(1,2,5) le_less_trans [OF mult_le_mono2 [OF assms(1), of L]] by (blast dest: Suc_lessD [unfolded Suc_eq_plus1], simp_all)
  note start = encode_start_ok [OF c(2) this(3,2) assms(4) this(1)]
  obtain ss rest cs where 1: "encode_start ct fast (rev src) c = Ok (rest, cs)" "rev src = rev ss @ rest"
    "coders_ok L dt room ?E 7 True ss cs" "length rest = 2 * ((length src - 2) div 2)"
    using start by auto
  have len: "length src = length ss + length rest" using arg_cong [OF 1(2), of length] by simp
  have rest: "set rest \<subseteq> syms" using arg_cong [OF 1(2), of set] assms(2) by auto
  have "room \<longrightarrow> L * (length rest + length ss) < 8 * ?E" using assms(5) len by (auto simp: add.commute)
  from encode_join_ok [OF 1(3) rest 1(4) assms(4) this] obtain ss' rest' cs' where
    2: "encode_join ct fast (length src) (rest, cs) = Ok (rest', cs')" "rev ss' @ rest' = rev src"
      "coders_ok L dt room ?E 7 True ss' cs'" "4 dvd length rest'"
    using 1(2) by auto
  have len': "length src = length ss' + length rest'" using arg_cong [OF 2(2), of length] by simp
  have rest': "set rest' \<subseteq> syms" using arg_cong [OF 2(2), of set] assms(2) by auto
  have "room \<longrightarrow> L * (length rest' + length ss') < 8 * ?E" using assms(5) len' by (auto simp: add.commute)
  from encode_loop_ok [OF 2(3) rest' 2(4) assms(4) this] obtain c3 st1 st2 where
    3: "encode_loop ct fast rest' cs' = Ok (c3, st1, st2)" "coders_ok L dt room ?E 7 True (rev rest' @ ss') (c3, st1, st2)"
    by (metis prod_cases3)
  have "rev rest' @ ss' = src" using arg_cong [OF 2(2), of rev] by simp
  then obtain c2 c1 n c' where 4: "FSE_flushCState st2 c3 = Ok c2" "FSE_flushCState st1 c2 = Ok c1" "BIT_closeCStream c1 = Ok (n, c')"
    "room \<longrightarrow> n \<noteq> 0" "n \<noteq> 0 \<longrightarrow> n \<le> length (bc_buf c') \<and> (\<forall>fast cap. (fast \<longrightarrow> dt_fastMode dt) \<longrightarrow> length src \<le> cap
      \<longrightarrow> FSE_decompress_usingDTable_generic cap (take n (bc_buf c')) dt fast = Ok src)"
    using finish_ok [of room ?E src c3 st1 st2] 3(2) assms(5) by auto
  have "FSE_compress_usingCTable_generic dst src ct fast = Ok (n, bc_buf c')"
    using assms(1) c(1) 1(1) 2(1) 3(1) 4(1-3) by (simp add: FSE_compress_usingCTable_generic_def)
  then show ?thesis using 4(4,5) by blast
qed

end

lemma built_compress_room:
  assumes "fse_built L counts t ct dt" and "2 ^ L \<notin> set counts" and "3 \<le> length src" and "set src \<subseteq> used_symbols counts"
    and "FSE_BLOCKBOUND (length src) \<le> length dst \<longrightarrow> room" and "room \<longrightarrow> L * length src + 65 < 8 * length dst"
  shows "\<exists>n buf. FSE_compress_usingCTable dst src ct = Ok (n, buf) \<and> (room \<longrightarrow> n \<noteq> 0)
    \<and> (n \<noteq> 0 \<longrightarrow> n \<le> length buf \<and> (\<forall>fast cap. (fast \<longrightarrow> dt_fastMode dt) \<longrightarrow> length src \<le> cap
      \<longrightarrow> FSE_decompress_usingDTable_generic cap (take n buf) dt fast = Ok src))"
proof (cases "length dst \<le> 8")
  case True
  then have "FSE_compress_usingCTable dst src ct = Ok (0, dst)"
    by (simp add: FSE_compress_usingCTable_def FSE_compress_usingCTable_generic_def BIT_initCStream_def check_that_def)
  then show ?thesis using True assms(6) by auto
next
  case False
  then have "8 < length dst" "room \<longrightarrow> L * length src + 1 < 8 * (length dst - 8)" using assms(6) by auto
  from coding_tables.compress_ok [OF built_coding_tables [OF assms(1,2)] assms(3,4) this(1) assms(5) this(2)]
  show ?thesis unfolding FSE_compress_usingCTable_def .
qed

lemma built_compress:
  assumes "fse_built L counts t ct dt" and "2 ^ L \<notin> set counts" and "3 \<le> length src" and "set src \<subseteq> used_symbols counts"
    and "length dst < FSE_BLOCKBOUND (length src) \<or> 2 * length src + 16 \<le> length dst"
  shows "\<exists>n buf. FSE_compress_usingCTable dst src ct = Ok (n, buf) \<and> (2 * length src + 16 \<le> length dst \<longrightarrow> n \<noteq> 0)
    \<and> (n \<noteq> 0 \<longrightarrow> FSE_decompress_usingDTable_generic (length src) (take n buf) dt (dt_fastMode dt) = Ok src)"
proof -
  have "L \<le> 12" using assms(1) by (simp add: fse_built_def norm_ok_def FSE_MAX_TABLELOG_def)
  then have "L * length src \<le> 12 * length src" by simp
  then have "2 * length src + 16 \<le> length dst \<longrightarrow> L * length src + 65 < 8 * length dst" by linarith
  from built_compress_room [OF assms(1-4) _ this] show ?thesis using assms(5) by (metis not_less order_refl)
qed

text \<open>Without those two bytes the symbols are laid down past the end of the work space.\<close>

lemma odd_workspace_overrun:
  "FSE_buildCTable_wksp junk [31, 1] 1 5 (CTABLE_WORKSPACE_SIZE 1 5) = Fault"
  "\<exists>ct. FSE_buildCTable_wksp junk [31, 1] 1 5 (CTABLE_WORKSPACE_SIZE 1 5 + 2) = Ok ct"
proof -
  have "spread_symbols_in 38 5 [31, 1] = Fault" by code_simp
  moreover have "CTABLE_WORKSPACE_SIZE 1 5 = 76" by (simp add: CTABLE_WORKSPACE_SIZE_def)
  ultimately show "FSE_buildCTable_wksp junk [31, 1] 1 5 (CTABLE_WORKSPACE_SIZE 1 5) = Fault"
    by (simp add: FSE_buildCTable_wksp_def check_that_def cumulate.simps Let_def)
  have "norm_ok 5 [31, 1]" by (simp add: norm_ok_def FSE_MAX_TABLELOG_def weight_def)
  then show "\<exists>ct. FSE_buildCTable_wksp junk [31, 1] 1 5 (CTABLE_WORKSPACE_SIZE 1 5 + 2) = Ok ct"
    using fse_built_exists [of 5 "[31, 1]" 1 _ 1000] by (fastforce simp: CTABLE_WORKSPACE_SIZE_def DTABLE_WKSP_SIZE_def)
qed

text \<open>C33: from counts that fill a table of 2 to the power of its log, with no symbol taking all of it, and work spaces of the
  size asked for (two bytes more for the coder's when the largest symbol is odd), both tables are built; a string of at least three of the symbols that have a count is then compressed without a failed
  assertion, with success when the room is twice its size and 16 bytes more, and decompressing what was put
  out gives the string back.\<close>

theorem fse_roundtrip:
  assumes "norm_ok L counts" and "length counts = Suc m" and "2 ^ L \<notin> set counts"
    and "CTABLE_WORKSPACE_SIZE m L + 2 * (m mod 2) \<le> w" and "DTABLE_WKSP_SIZE L m \<le> w'"
    and "3 \<le> length src" and "set src \<subseteq> used_symbols counts"
    and "length dst < FSE_BLOCKBOUND (length src) \<or> 2 * length src + 16 \<le> length dst"
  shows "\<exists>ct dt n buf. FSE_buildCTable_wksp junk counts m L w = Ok ct \<and> FSE_buildDTable_wksp counts m L w' = Ok dt
    \<and> FSE_compress_usingCTable dst src ct = Ok (n, buf) \<and> (2 * length src + 16 \<le> length dst \<longrightarrow> n \<noteq> 0)
    \<and> (n \<noteq> 0 \<longrightarrow> FSE_decompress_usingDTable_generic (length src) (take n buf) dt (dt_fastMode dt) = Ok src)"
  using fse_built_exists [OF assms(1,2,4,5), of junk] built_compress [OF _ assms(3,6-8)] by metis

lemma fse_roundtrip_witness:
  "\<exists>ct dt n buf. FSE_buildCTable_wksp (\<lambda>_. 0) [16, -1, 15] 2 5 1000 = Ok ct \<and> FSE_buildDTable_wksp [16, -1, 15] 2 5 1000 = Ok dt
    \<and> FSE_compress_usingCTable (replicate 24 0) [0, 2, 1, 0] ct = Ok (n, buf) \<and> n \<noteq> 0
    \<and> FSE_decompress_usingDTable_generic 4 (take n buf) dt (dt_fastMode dt) = Ok [0, 2, 1, 0]"
proof -
  let ?src = "[0, 2, 1, 0] :: u8 list"
  have 1: "norm_ok 5 [16, -1, 15]" by (simp add: norm_ok_def FSE_MAX_TABLELOG_def weight_def)
  have 2: "length [16, -1, 15 :: int] = Suc 2" "(2 :: int) ^ 5 \<notin> set [16, -1, 15]" by simp_all
  have 3: "CTABLE_WORKSPACE_SIZE 2 5 + 2 * (2 mod 2) \<le> 1000" "DTABLE_WKSP_SIZE 5 2 \<le> 1000"
    by (simp_all add: CTABLE_WORKSPACE_SIZE_def DTABLE_WKSP_SIZE_def)
  have 4: "3 \<le> length ?src" "set ?src \<subseteq> used_symbols [16, -1, 15]" by (simp_all add: used_symbols_def)
  have 5: "2 * length ?src + 16 \<le> length (replicate 24 0 :: bytes)" "length ?src = 4" by simp_all
  show ?thesis using fse_roundtrip [OF 1 2 3 4 disjI2 [OF 5(1)], of "\<lambda>_. 0", unfolded 5(2)] 5 by metis
qed

end
