(* ===== verification/Zstd_SeqTables.thy ===== *)
theory Zstd_SeqTables
  imports Zstd_FSEProofs
begin

text \<open>
  The tables of the three codes of a sequence (literal lengths, match lengths and offsets): the normalized counts
  that need no header, the base value and the extra bits of every code, the decoding table built from counts,
  and the predefined decoding tables, which are checked to be the ones built from the predefined counts.
\<close>

section \<open>Constants\<close>

definition MaxML :: nat where "MaxML = 52"
definition MaxLL :: nat where "MaxLL = 35"
definition DefaultMaxOff :: nat where "DefaultMaxOff = 28"
definition MaxOff :: nat where "MaxOff = 31"
definition MaxSeq :: nat where "MaxSeq = max MaxLL MaxML"
definition MaxFSELog :: nat where "MaxFSELog = max (max 9 9) 8"

definition LL_bits :: "u8 list" where
  "LL_bits =
    [0, 0, 0, 0, 0, 0, 0, 0, 0, 0, 0, 0, 0, 0, 0, 0, 1, 1, 1, 1, 2, 2, 3, 3, 4, 6, 7, 8, 9, 10, 11, 12,
     13, 14, 15, 16]"

definition LL_defaultNorm :: "int list" where
  "LL_defaultNorm =
    [4, 3, 2, 2, 2, 2, 2, 2, 2, 2, 2, 2, 2, 1, 1, 1, 2, 2, 2, 2, 2, 2, 2, 2, 2, 3, 2, 1, 1, 1, 1, 1, -1,
     -1, -1, -1]"

definition ML_bits :: "u8 list" where
  "ML_bits =
    [0, 0, 0, 0, 0, 0, 0, 0, 0, 0, 0, 0, 0, 0, 0, 0, 0, 0, 0, 0, 0, 0, 0, 0, 0, 0, 0, 0, 0, 0, 0, 0, 1,
     1, 1, 1, 2, 2, 3, 3, 4, 4, 5, 7, 8, 9, 10, 11, 12, 13, 14, 15, 16]"

definition ML_defaultNorm :: "int list" where
  "ML_defaultNorm =
    [1, 4, 3, 2, 2, 2, 2, 2, 2, 1, 1, 1, 1, 1, 1, 1, 1, 1, 1, 1, 1, 1, 1, 1, 1, 1, 1, 1, 1, 1, 1, 1, 1,
     1, 1, 1, 1, 1, 1, 1, 1, 1, 1, 1, 1, 1, -1, -1, -1, -1, -1, -1, -1]"

definition OF_defaultNorm :: "int list" where
  "OF_defaultNorm =
    [1, 1, 1, 1, 1, 1, 2, 2, 2, 1, 1, 1, 1, 1, 1, 1, 1, 1, 1, 1, 1, 1, 1, 1, -1, -1, -1, -1, -1]"

definition LL_base :: "u32 list" where
  "LL_base =
    [0, 1, 2, 3, 4, 5, 6, 7, 8, 9, 10, 11, 12, 13, 14, 15, 16, 18, 20, 22, 24, 28, 32, 40, 48, 64, 0x80,
     0x100, 0x200, 0x400, 0x800, 0x1000, 0x2000, 0x4000, 0x8000, 0x10000]"

definition OF_base :: "u32 list" where
  "OF_base =
    [0, 1, 1, 5, 0xD, 0x1D, 0x3D, 0x7D, 0xFD, 0x1FD, 0x3FD, 0x7FD, 0xFFD, 0x1FFD, 0x3FFD, 0x7FFD,
     0xFFFD, 0x1FFFD, 0x3FFFD, 0x7FFFD, 0xFFFFD, 0x1FFFFD, 0x3FFFFD, 0x7FFFFD, 0xFFFFFD, 0x1FFFFFD,
     0x3FFFFFD, 0x7FFFFFD, 0xFFFFFFD, 0x1FFFFFFD, 0x3FFFFFFD, 0x7FFFFFFD]"

definition OF_bits :: "u8 list" where
  "OF_bits =
    [0, 1, 2, 3, 4, 5, 6, 7, 8, 9, 10, 11, 12, 13, 14, 15, 16, 17, 18, 19, 20, 21, 22, 23, 24, 25, 26,
     27, 28, 29, 30, 31]"

definition ML_base :: "u32 list" where
  "ML_base =
    [3, 4, 5, 6, 7, 8, 9, 10, 11, 12, 13, 14, 15, 16, 17, 18, 19, 20, 21, 22, 23, 24, 25, 26, 27, 28,
     29, 30, 31, 32, 33, 34, 35, 37, 39, 41, 43, 47, 51, 59, 67, 83, 99, 0x83, 0x103, 0x203, 0x403,
     0x803, 0x1003, 0x2003, 0x4003, 0x8003, 0x10003]"

definition LL_defaultNormLog :: nat where "LL_defaultNormLog = 6"
definition ML_defaultNormLog :: nat where "ML_defaultNormLog = 6"
definition OF_defaultNormLog :: nat where "OF_defaultNormLog = 5"

section \<open>The decoding table\<close>

record seq_symbol =
  sq_nextState :: u16
  sq_nbAdditionalBits :: u8
  sq_nbBits :: u8
  sq_baseValue :: u32

record seq_table =
  sq_tableLog :: nat
  sq_fastMode :: bool
  sq_cells :: "seq_symbol list"

definition cell :: "u16 \<Rightarrow> u8 \<Rightarrow> u8 \<Rightarrow> u32 \<Rightarrow> seq_symbol" where
  "cell nextState nbAddBits nbBits baseVal =
     \<lparr>sq_nextState = nextState, sq_nbAdditionalBits = nbAddBits, sq_nbBits = nbBits, sq_baseValue = baseVal\<rparr>"

definition LL_defaultDTable :: seq_table where
  "LL_defaultDTable = \<lparr>sq_tableLog = 6, sq_fastMode = True, sq_cells =
    [cell 0 0 4 0, cell 16 0 4 0, cell 32 0 5 1, cell 0 0 5 3, cell 0 0 5 4, cell 0 0 5 6, cell 0 0 5 7,
     cell 0 0 5 9, cell 0 0 5 10, cell 0 0 5 12, cell 0 0 6 14, cell 0 1 5 16, cell 0 1 5 20, cell 0 1 5 22,
     cell 0 2 5 28, cell 0 3 5 32, cell 0 4 5 48, cell 32 6 5 64, cell 0 7 5 128, cell 0 8 6 256,
     cell 0 10 6 1024, cell 0 12 6 4096, cell 32 0 4 0, cell 0 0 4 1, cell 0 0 5 2, cell 32 0 5 4,
     cell 0 0 5 5, cell 32 0 5 7, cell 0 0 5 8, cell 32 0 5 10, cell 0 0 5 11, cell 0 0 6 13,
     cell 32 1 5 16, cell 0 1 5 18, cell 32 1 5 22, cell 0 2 5 24, cell 32 3 5 32, cell 0 3 5 40,
     cell 0 6 4 64, cell 16 6 4 64, cell 32 7 5 128, cell 0 9 6 512, cell 0 11 6 2048, cell 48 0 4 0,
     cell 16 0 4 1, cell 32 0 5 2, cell 32 0 5 3, cell 32 0 5 5, cell 32 0 5 6, cell 32 0 5 8,
     cell 32 0 5 9, cell 32 0 5 11, cell 32 0 5 12, cell 0 0 6 15, cell 32 1 5 18, cell 32 1 5 20,
     cell 32 2 5 24, cell 32 2 5 28, cell 32 3 5 40, cell 32 4 5 48, cell 0 16 6 65536, cell 0 15 6 32768,
     cell 0 14 6 16384, cell 0 13 6 8192]\<rparr>"

definition OF_defaultDTable :: seq_table where
  "OF_defaultDTable = \<lparr>sq_tableLog = 5, sq_fastMode = True, sq_cells =
    [cell 0 0 5 0, cell 0 6 4 61, cell 0 9 5 509, cell 0 15 5 32765, cell 0 21 5 2097149, cell 0 3 5 5,
     cell 0 7 4 125, cell 0 12 5 4093, cell 0 18 5 262141, cell 0 23 5 8388605, cell 0 5 5 29,
     cell 0 8 4 253, cell 0 14 5 16381, cell 0 20 5 1048573, cell 0 2 5 1, cell 16 7 4 125,
     cell 0 11 5 2045, cell 0 17 5 131069, cell 0 22 5 4194301, cell 0 4 5 13, cell 16 8 4 253,
     cell 0 13 5 8189, cell 0 19 5 524285, cell 0 1 5 1, cell 16 6 4 61, cell 0 10 5 1021,
     cell 0 16 5 65533, cell 0 28 5 268435453, cell 0 27 5 134217725, cell 0 26 5 67108861,
     cell 0 25 5 33554429, cell 0 24 5 16777213]\<rparr>"

definition ML_defaultDTable :: seq_table where
  "ML_defaultDTable = \<lparr>sq_tableLog = 6, sq_fastMode = True, sq_cells =
    [cell 0 0 6 3, cell 0 0 4 4, cell 32 0 5 5, cell 0 0 5 6, cell 0 0 5 8, cell 0 0 5 9, cell 0 0 5 11,
     cell 0 0 6 13, cell 0 0 6 16, cell 0 0 6 19, cell 0 0 6 22, cell 0 0 6 25, cell 0 0 6 28,
     cell 0 0 6 31, cell 0 0 6 34, cell 0 1 6 37, cell 0 1 6 41, cell 0 2 6 47, cell 0 3 6 59,
     cell 0 4 6 83, cell 0 7 6 131, cell 0 9 6 515, cell 16 0 4 4, cell 0 0 4 5, cell 32 0 5 6,
     cell 0 0 5 7, cell 32 0 5 9, cell 0 0 5 10, cell 0 0 6 12, cell 0 0 6 15, cell 0 0 6 18, cell 0 0 6 21,
     cell 0 0 6 24, cell 0 0 6 27, cell 0 0 6 30, cell 0 0 6 33, cell 0 1 6 35, cell 0 1 6 39,
     cell 0 2 6 43, cell 0 3 6 51, cell 0 4 6 67, cell 0 5 6 99, cell 0 8 6 259, cell 32 0 4 4,
     cell 48 0 4 4, cell 16 0 4 5, cell 32 0 5 7, cell 32 0 5 8, cell 32 0 5 10, cell 32 0 5 11,
     cell 0 0 6 14, cell 0 0 6 17, cell 0 0 6 20, cell 0 0 6 23, cell 0 0 6 26, cell 0 0 6 29,
     cell 0 0 6 32, cell 0 16 6 65539, cell 0 15 6 32771, cell 0 14 6 16387, cell 0 13 6 8195,
     cell 0 12 6 4099, cell 0 11 6 2051, cell 0 10 6 1027]\<rparr>"

definition ZSTD_buildSeqTable_rle :: "u32 \<Rightarrow> u8 \<Rightarrow> seq_table zres" where
  "ZSTD_buildSeqTable_rle baseValue nbAddBits =
     (if nbAddBits < 255 then Ok \<lparr>sq_tableLog = 0, sq_fastMode = False, sq_cells = [cell 0 nbAddBits 0 baseValue]\<rparr> else Fault)"

definition ZSTD_BUILD_FSE_TABLE_WKSP_SIZE :: nat where
  "ZSTD_BUILD_FSE_TABLE_WKSP_SIZE = 2 * (MaxSeq + 1) + 2 ^ MaxFSELog + 8"

text \<open>The entry of a state says its symbol; the cell has the symbol's base value and extra bits in its place.\<close>

fun seq_cells :: "u32 list \<Rightarrow> u8 list \<Rightarrow> fse_decode list \<Rightarrow> seq_symbol list zres" where
  "seq_cells baseValue nbAdditionalBits [] = Ok []"
| "seq_cells baseValue nbAdditionalBits (e # es) =
     (let symbol = unat (de_symbol e) in
      if symbol < length nbAdditionalBits \<and> symbol < length baseValue \<and> nbAdditionalBits ! symbol < 255 then
        cbind (seq_cells baseValue nbAdditionalBits es)
          (\<lambda>cs. Ok (cell (de_newState e) (nbAdditionalBits ! symbol) (de_nbBits e) (baseValue ! symbol) # cs))
      else Fault)"

text \<open>The work space holds the counters of the symbols and then the room to lay them down.\<close>

definition ZSTD_buildFSETable ::
    "int list \<Rightarrow> nat \<Rightarrow> u32 list \<Rightarrow> u8 list \<Rightarrow> nat \<Rightarrow> nat \<Rightarrow> seq_table zres" where
  "ZSTD_buildFSETable normalizedCounter maxSymbolValue baseValue nbAdditionalBits tableLog wkspSize =
     (let counts = take (maxSymbolValue + 1) normalizedCounter in
      if length normalizedCounter < maxSymbolValue + 1 \<or> MaxSeq < maxSymbolValue \<or> MaxFSELog < tableLog
          \<or> wkspSize < ZSTD_BUILD_FSE_TABLE_WKSP_SIZE \<or> list_ex (\<lambda>c. c < -1) counts then Fault
      else cbind (spread_symbols_in (wkspSize - 2 * (MaxSeq + 1)) tableLog counts) (\<lambda>(fast, position, tableSymbol).
        if position \<noteq> 0 then Fault
        else cbind (decode_entries tableLog tableSymbol (map (\<lambda>c. if c = -1 then 1 else of_int c) counts))
          (\<lambda>es. cbind (seq_cells baseValue nbAdditionalBits es)
            (\<lambda>cs. Ok \<lparr>sq_tableLog = tableLog,
               sq_fastMode = list_all (\<lambda>c. c = -1 \<or> c < 2 ^ (tableLog - 1)) counts, sq_cells = cs\<rparr>))))"

section \<open>The same entries as the table of the FSE decoder\<close>

definition seq_cell :: "u32 list \<Rightarrow> u8 list \<Rightarrow> fse_decode \<Rightarrow> seq_symbol" where
  "seq_cell baseValue nbAdditionalBits e =
     cell (de_newState e) (nbAdditionalBits ! unat (de_symbol e)) (de_nbBits e) (baseValue ! unat (de_symbol e))"

lemma seq_cells_map:
  assumes "\<forall>e \<in> set es. unat (de_symbol e) < length nbAdditionalBits \<and> unat (de_symbol e) < length baseValue
      \<and> nbAdditionalBits ! unat (de_symbol e) < 255"
  shows "seq_cells baseValue nbAdditionalBits es = Ok (map (seq_cell baseValue nbAdditionalBits) es)"
  using assms by (induction es) (simp_all add: seq_cell_def Let_def)

lemma decode_entries_symbols: "decode_entries L ss ns = Ok es \<Longrightarrow> map de_symbol es = ss"
  by (induction ss arbitrary: ns es) (auto simp: cbind_eq_Ok Let_def split: if_splits)

lemma default_norms_ok:
  "norm_ok LL_defaultNormLog LL_defaultNorm" "norm_ok ML_defaultNormLog ML_defaultNorm" "norm_ok OF_defaultNormLog OF_defaultNorm"
  by code_simp+

text \<open>the decoding table of a code of the sequences is the table of the FSE decoder for the same counts, with the
  base value and the extra bits of its symbol in every state.\<close>

theorem seq_table_is_fse_table:
  assumes "norm_ok L counts" and "length counts = Suc m" and "m \<le> MaxSeq" and "L \<le> MaxFSELog"
    and "DTABLE_WKSP_SIZE L m \<le> w" and "ZSTD_BUILD_FSE_TABLE_WKSP_SIZE \<le> w'"
    and "m < length baseValue" and "m < length nbAdditionalBits" and "\<forall>b \<in> set nbAdditionalBits. b < 255"
  shows "\<exists>dt. FSE_buildDTable_wksp counts m L w = Ok dt
    \<and> ZSTD_buildFSETable counts m baseValue nbAdditionalBits L w'
      = Ok \<lparr>sq_tableLog = dt_tableLog dt, sq_fastMode = dt_fastMode dt,
          sq_cells = map (seq_cell baseValue nbAdditionalBits) (dt_table dt)\<rparr>"
proof -
  obtain fast t where t: "spread_symbols L counts = Ok (fast, 0, t)" "\<forall>x \<in> set t. unat x < length counts"
    using spread_counts [OF assms(1)] by blast
  let ?ns = "map (\<lambda>c. if c = -1 then 1 else of_int c :: u16) counts"
  have "\<forall>x \<in> set t. unat x < length ?ns" using t(2) by simp
  then obtain es where es: "decode_entries L t ?ns = Ok es" using decode_entries_eq [of t ?ns L] by blast
  have "m \<le> 255" "L \<le> FSE_MAX_TABLELOG" using assms(1,2) by (simp_all add: norm_ok_def)
  then have dt: "FSE_buildDTable_internal counts m L w
      = Ok \<lparr>dt_tableLog = L, dt_fastMode = list_all (\<lambda>c. c = -1 \<or> c < 2 ^ (L - 1)) counts, dt_table = es\<rparr>"
    using spread_more [OF t(1), of "w - 2 * (m + 1)"] assms(2,5) es
    by (simp add: FSE_buildDTable_internal_def Let_def not_less DTABLE_WKSP_SIZE_def)
  have "(2 :: nat) ^ L \<le> 2 ^ MaxFSELog" using assms(4) by (intro power_increasing) simp_all
  then have "2 ^ L + 8 \<le> w' - 2 * (MaxSeq + 1)" using assms(6) unfolding ZSTD_BUILD_FSE_TABLE_WKSP_SIZE_def by linarith
  note sp = spread_more [OF t(1) this]
  have "\<not> list_ex (\<lambda>c. c < -1) counts" using assms(1) by (auto simp: norm_ok_def list_ex_iff)
  moreover have "seq_cells baseValue nbAdditionalBits es = Ok (map (seq_cell baseValue nbAdditionalBits) es)"
  proof (rule seq_cells_map, intro ballI)
    fix e assume "e \<in> set es"
    then have "de_symbol e \<in> set t" using decode_entries_symbols [OF es] by auto
    then have "unat (de_symbol e) < Suc m" using t(2) assms(2) by auto
    then show "unat (de_symbol e) < length nbAdditionalBits \<and> unat (de_symbol e) < length baseValue
        \<and> nbAdditionalBits ! unat (de_symbol e) < 255"
      using assms(7-9) by auto
  qed
  ultimately have "ZSTD_buildFSETable counts m baseValue nbAdditionalBits L w'
      = Ok \<lparr>sq_tableLog = L, sq_fastMode = list_all (\<lambda>c. c = -1 \<or> c < 2 ^ (L - 1)) counts,
          sq_cells = map (seq_cell baseValue nbAdditionalBits) es\<rparr>"
    using assms(2-4,6) sp es by (simp add: ZSTD_buildFSETable_def Let_def)
  then show ?thesis using dt by (auto simp: FSE_buildDTable_wksp_def)
qed

lemma seq_table_is_fse_table_witness:
  "\<exists>dt. FSE_buildDTable_wksp LL_defaultNorm MaxLL LL_defaultNormLog 1000 = Ok dt
    \<and> ZSTD_buildFSETable LL_defaultNorm MaxLL LL_base LL_bits LL_defaultNormLog 1000
      = Ok \<lparr>sq_tableLog = dt_tableLog dt, sq_fastMode = dt_fastMode dt, sq_cells = map (seq_cell LL_base LL_bits) (dt_table dt)\<rparr>"
  by (rule seq_table_is_fse_table [OF default_norms_ok(1)]) code_simp+

section \<open>The predefined tables\<close>


text \<open>The coder builds its own tables from the predefined counts.\<close>

definition default_ctable :: "int list \<Rightarrow> nat \<Rightarrow> nat \<Rightarrow> fse_ctable" where
  "default_ctable norm maxSymbol normLog =
     (case FSE_buildCTable_wksp (\<lambda>_. 0) norm maxSymbol normLog (CTABLE_WORKSPACE_SIZE maxSymbol normLog + 2) of Ok ct \<Rightarrow> ct)"

definition default_dtable :: "int list \<Rightarrow> nat \<Rightarrow> nat \<Rightarrow> fse_dtable" where
  "default_dtable norm maxSymbol normLog =
     (case FSE_buildDTable_wksp norm maxSymbol normLog (DTABLE_WKSP_SIZE normLog maxSymbol) of Ok dt \<Rightarrow> dt)"

lemma default_coding_tables:
  assumes "norm_ok L norm" and "length norm = Suc m" and "2 ^ L \<notin> set norm"
  shows "coding_tables L (used_symbols norm) (default_ctable norm m L) (default_dtable norm m L)"
proof -
  obtain t ct dt where "FSE_buildCTable_wksp (\<lambda>_. 0) norm m L (CTABLE_WORKSPACE_SIZE m L + 2) = Ok ct"
    "FSE_buildDTable_wksp norm m L (DTABLE_WKSP_SIZE L m) = Ok dt" "fse_built L norm t ct dt"
    using fse_built_exists [OF assms(1,2) _ order_refl, of "CTABLE_WORKSPACE_SIZE m L + 2"] by fastforce
  then show ?thesis using built_coding_tables [OF _ assms(3)] by (simp add: default_ctable_def default_dtable_def)
qed

lemma default_norms_spread:
  "length LL_defaultNorm = Suc MaxLL" "2 ^ LL_defaultNormLog \<notin> set LL_defaultNorm"
  "length ML_defaultNorm = Suc MaxML" "2 ^ ML_defaultNormLog \<notin> set ML_defaultNorm"
  "length OF_defaultNorm = Suc DefaultMaxOff" "2 ^ OF_defaultNormLog \<notin> set OF_defaultNorm"
  by code_simp+

interpretation ll_codes: coding_tables LL_defaultNormLog "used_symbols LL_defaultNorm"
    "default_ctable LL_defaultNorm MaxLL LL_defaultNormLog" "default_dtable LL_defaultNorm MaxLL LL_defaultNormLog"
  by (rule default_coding_tables [OF default_norms_ok(1) default_norms_spread(1,2)])

interpretation ml_codes: coding_tables ML_defaultNormLog "used_symbols ML_defaultNorm"
    "default_ctable ML_defaultNorm MaxML ML_defaultNormLog" "default_dtable ML_defaultNorm MaxML ML_defaultNormLog"
  by (rule default_coding_tables [OF default_norms_ok(2) default_norms_spread(3,4)])

interpretation of_codes: coding_tables OF_defaultNormLog "used_symbols OF_defaultNorm"
    "default_ctable OF_defaultNorm DefaultMaxOff OF_defaultNormLog" "default_dtable OF_defaultNorm DefaultMaxOff OF_defaultNormLog"
  by (rule default_coding_tables [OF default_norms_ok(3) default_norms_spread(5,6)])

end
