(* ===== verification/Zstd_FSECounts.thy ===== *)
theory Zstd_FSECounts
  imports Zstd_FSE
begin

text \<open>
  From a histogram to the header of an FSE block (part of \<open>zstd.c\<close>): counting the symbols, the size of the
  table, and the normalization of the counts to that size. Unsigned numbers are natural numbers with their wrap-around written out; an assertion
  that fails, a division by zero, an access outside a table and a loop that does not end are \<open>Fault\<close>.
\<close>

unbundle bit_operations_syntax

definition w32 :: "nat \<Rightarrow> nat" where "w32 x = x mod 2 ^ 32"
definition w64 :: "nat \<Rightarrow> nat" where "w64 x = x mod 2 ^ 64"

text \<open>\<open>a - b\<close> in 32 bits.\<close>

definition sub32 :: "nat \<Rightarrow> nat \<Rightarrow> nat" where
  "sub32 a b = nat ((int a - int b) mod 2 ^ 32)"

section \<open>The histogram\<close>

text \<open>The largest count, the largest symbol that occurs, and the counts up to it.\<close>

fun count_all :: "bytes \<Rightarrow> nat list \<Rightarrow> nat list zres" where
  "count_all [] count = Ok count"
| "count_all (b # bs) count =
     (if unat b < length count then count_all bs (count[unat b := count ! unat b + 1]) else Fault)"

fun trim_zeros :: "nat \<Rightarrow> nat list \<Rightarrow> nat" where
  "trim_zeros 0 count = 0"
| "trim_zeros (Suc m) count = (if count ! Suc m = 0 then trim_zeros m count else Suc m)"

definition HIST_count_simple :: "nat \<Rightarrow> bytes \<Rightarrow> (nat \<times> nat \<times> nat list) zres" where
  "HIST_count_simple maxSymbolValue src =
     (if src = [] then Ok (0, 0, replicate (maxSymbolValue + 1) 0)
      else cbind (count_all src (replicate (maxSymbolValue + 1) 0))
        (\<lambda>count. let m = trim_zeros maxSymbolValue count
                 in Ok (fold max (take (m + 1) count) 0, m, count)))"

section \<open>The size of the table\<close>

definition FSE_MIN_TABLELOG :: nat where "FSE_MIN_TABLELOG = 5"
definition FSE_DEFAULT_TABLELOG :: nat where "FSE_DEFAULT_TABLELOG = 11"
definition FSE_TABLELOG_ABSOLUTE_MAX :: nat where "FSE_TABLELOG_ABSOLUTE_MAX = 15"

definition FSE_minTableLog :: "nat \<Rightarrow> nat \<Rightarrow> nat zres" where
  "FSE_minTableLog srcSize maxSymbolValue =
     (if srcSize \<le> 1 \<or> w32 srcSize = 0 \<or> maxSymbolValue = 0 then Fault
      else let minBitsSrc = ZSTD_highbit32 (of_nat srcSize) + 1; minBitsSymbols = ZSTD_highbit32 (of_nat maxSymbolValue) + 2
        in Ok (if minBitsSrc < minBitsSymbols then minBitsSrc else minBitsSymbols))"

text \<open>The first difference wraps around when the source is short, and then does not count.\<close>

definition FSE_optimalTableLog_internal :: "nat \<Rightarrow> nat \<Rightarrow> nat \<Rightarrow> nat \<Rightarrow> nat zres" where
  "FSE_optimalTableLog_internal maxTableLog srcSize maxSymbolValue reduction =
     (if srcSize \<le> 1 \<or> w32 (srcSize - 1) = 0 then Fault
      else cbind (FSE_minTableLog srcSize maxSymbolValue) (\<lambda>minBits.
        let maxBitsSrc = sub32 (ZSTD_highbit32 (of_nat (srcSize - 1))) reduction;
            tableLog = if maxTableLog = 0 then FSE_DEFAULT_TABLELOG else maxTableLog;
            tableLog = if maxBitsSrc < tableLog then maxBitsSrc else tableLog;
            tableLog = if tableLog < minBits then minBits else tableLog;
            tableLog = if tableLog < FSE_MIN_TABLELOG then FSE_MIN_TABLELOG else tableLog
        in Ok (if FSE_MAX_TABLELOG < tableLog then FSE_MAX_TABLELOG else tableLog)))"

definition FSE_optimalTableLog :: "nat \<Rightarrow> nat \<Rightarrow> nat \<Rightarrow> nat zres" where
  "FSE_optimalTableLog maxTableLog srcSize maxSymbolValue =
     FSE_optimalTableLog_internal maxTableLog srcSize maxSymbolValue 2"

section \<open>Normalization\<close>

text \<open>The secondary method. The symbols whose share is small get one state; -2 marks the others. With the list come the
  number of states given away and the total of the others.\<close>

fun m2_first :: "nat \<Rightarrow> nat \<Rightarrow> int \<Rightarrow> nat list \<Rightarrow> nat \<times> nat \<Rightarrow> int list \<times> nat \<times> nat" where
  "m2_first lowThreshold lowOne lowProbCount [] dt = ([], dt)"
| "m2_first lowThreshold lowOne lowProbCount (c # cs) (distributed, tot) =
     (if c = 0 then let (ns, r) = m2_first lowThreshold lowOne lowProbCount cs (distributed, tot) in (0 # ns, r)
      else if c \<le> lowThreshold then
        let (ns, r) = m2_first lowThreshold lowOne lowProbCount cs (distributed + 1, tot - c) in (lowProbCount # ns, r)
      else if c \<le> lowOne then
        let (ns, r) = m2_first lowThreshold lowOne lowProbCount cs (distributed + 1, tot - c) in (1 # ns, r)
      else let (ns, r) = m2_first lowThreshold lowOne lowProbCount cs (distributed, tot) in (-2 # ns, r))"

fun m2_second :: "nat \<Rightarrow> int list \<Rightarrow> nat list \<Rightarrow> nat \<times> nat \<Rightarrow> int list \<times> nat \<times> nat" where
  "m2_second lowOne (n # ns) (c # cs) (distributed, tot) =
     (if n = -2 \<and> c \<le> lowOne then let (ns, r) = m2_second lowOne ns cs (distributed + 1, tot - c) in (1 # ns, r)
      else let (ns, r) = m2_second lowOne ns cs (distributed, tot) in (n # ns, r))"
| "m2_second lowOne ns cs dt = (ns, dt)"

text \<open>The first symbol with the largest count.\<close>

fun find_max :: "nat \<Rightarrow> nat \<times> nat \<Rightarrow> nat list \<Rightarrow> nat" where
  "find_max s (maxV, maxC) [] = maxV"
| "find_max s (maxV, maxC) (c # cs) = find_max (Suc s) (if maxC < c then (s, c) else (maxV, maxC)) cs"

text \<open>One turn around the symbols: a state more for each, as long as there are states.\<close>

fun give_pass :: "nat \<Rightarrow> int list \<Rightarrow> nat \<times> int list" where
  "give_pass td [] = (td, [])"
| "give_pass td (n # ns) =
     (if 0 < td \<and> 0 < n then let (td, ns) = give_pass (td - 1) ns in (td, (n + 1) # ns)
      else let (td, ns) = give_pass td ns in (td, n # ns))"

definition give_rest :: "nat \<Rightarrow> int list \<Rightarrow> int list zres" where
  "give_rest td norm =
     (case while_option (\<lambda>(td, ns). 0 < td) (\<lambda>(td, ns). give_pass td ns) (td, norm) of
        None \<Rightarrow> Fault | Some (td, ns) \<Rightarrow> Ok ns)"

text \<open>The others get their share of what is left, by the difference of two sums rounded down.\<close>

fun m2_scale :: "nat \<Rightarrow> nat \<Rightarrow> nat \<Rightarrow> int list \<Rightarrow> nat list \<Rightarrow> int list zres" where
  "m2_scale vStepLog rStep tmpTotal (n # ns) (c # cs) =
     (if n = -2 then
        let endTotal = w64 (tmpTotal + w64 (c * rStep));
            weight = sub32 (w32 (endTotal div 2 ^ vStepLog)) (w32 (tmpTotal div 2 ^ vStepLog))
        in check_that (weight < 1) GENERIC
             (cbind (m2_scale vStepLog rStep endTotal ns cs) (\<lambda>ns. Ok (sint (of_nat weight :: 16 word) # ns)))
      else cbind (m2_scale vStepLog rStep tmpTotal ns cs) (\<lambda>ns. Ok (n # ns)))"
| "m2_scale vStepLog rStep tmpTotal ns cs = Ok ns"

definition FSE_normalizeM2 :: "nat \<Rightarrow> nat list \<Rightarrow> nat \<Rightarrow> int \<Rightarrow> int list zres" where
  "FSE_normalizeM2 tableLog count tot lowProbCount =
     (let lowThreshold = w32 (tot div 2 ^ tableLog); lowOne = w32 (w64 (tot * 3) div 2 ^ (tableLog + 1));
          (norm, distributed, tot) = m2_first lowThreshold lowOne lowProbCount count (0, tot);
          ToDistribute = sub32 (2 ^ tableLog) distributed in
      if ToDistribute = 0 then Ok norm
      else let
          again = lowOne < tot div ToDistribute;
          lowOne = w32 (w64 (tot * 3) div w32 (ToDistribute * 2));
          (norm, distributed, tot) = (if again then m2_second lowOne norm count (distributed, tot) else (norm, distributed, tot));
          ToDistribute = (if again then sub32 (2 ^ tableLog) distributed else ToDistribute) in
        if distributed = length count then
          let maxV = find_max 0 (0, 0) count in Ok (norm[maxV := norm ! maxV + sint (of_nat ToDistribute :: 16 word)])
        else if tot = 0 then give_rest ToDistribute norm
        else if w32 tot = 0 then Fault
        else let vStepLog = 62 - tableLog; mid = 2 ^ (vStepLog - 1) - 1;
                 rStep = w64 (w64 (2 ^ vStepLog * ToDistribute) + mid) div w32 tot
          in m2_scale vStepLog rStep mid norm count)"

definition rtbTable :: "nat list" where
  "rtbTable = [0, 473195, 504333, 520860, 550000, 700000, 750000, 830000]"

text \<open>The share of a symbol, rounded up when the rest is larger than a threshold that depends on the share.\<close>

definition proba_of :: "nat \<Rightarrow> nat \<Rightarrow> nat \<Rightarrow> int zres" where
  "proba_of scale step c =
     (let proba = sint (of_nat (w64 (c * step) div 2 ^ scale) :: 16 word) in
      if proba < 0 then Fault
      else if proba < 8 then
        let restToBeat = w64 (2 ^ (scale - 20) * rtbTable ! nat proba);
            rest = nat ((int (w64 (c * step)) - proba * 2 ^ scale) mod 2 ^ 64)
        in Ok (if restToBeat < rest then proba + 1 else proba)
      else Ok proba)"

text \<open>The counts normalized so far; \<open>None\<close> when a symbol is all there is. The largest share and its symbol are kept.\<close>

record norm_state =
  ns_norm :: "int list"
  ns_still :: int
  ns_largest :: nat
  ns_largestP :: int

fun norm_loop ::
    "nat \<Rightarrow> nat \<Rightarrow> nat \<Rightarrow> nat \<Rightarrow> int \<Rightarrow> nat list \<Rightarrow> norm_state \<Rightarrow> (norm_state \<times> bool) zres" where
  "norm_loop tot scale step lowThreshold lowProbCount [] st = Ok (st, False)"
| "norm_loop tot scale step lowThreshold lowProbCount (c # cs) st =
     (if c = tot then Ok (st, True)
      else if c = 0 then norm_loop tot scale step lowThreshold lowProbCount cs (st\<lparr>ns_norm := ns_norm st @ [0]\<rparr>)
      else if c \<le> lowThreshold then
        norm_loop tot scale step lowThreshold lowProbCount cs
          (st\<lparr>ns_norm := ns_norm st @ [lowProbCount], ns_still := ns_still st - 1\<rparr>)
      else cbind (proba_of scale step c) (\<lambda>proba.
        norm_loop tot scale step lowThreshold lowProbCount cs
          (st\<lparr>ns_norm := ns_norm st @ [proba], ns_still := ns_still st - proba,
             ns_largest := (if ns_largestP st < proba then length (ns_norm st) else ns_largest st),
             ns_largestP := (if ns_largestP st < proba then proba else ns_largestP st)\<rparr>)))"

text \<open>\<open>normalizedCounter\<close> is what the array held; the result is the log, 0 for a single symbol, and the array.\<close>

definition FSE_normalizeCount :: "int list \<Rightarrow> nat \<Rightarrow> nat list \<Rightarrow> nat \<Rightarrow> nat \<Rightarrow> bool \<Rightarrow> (nat \<times> int list) zres" where
  "FSE_normalizeCount normalizedCounter tableLog count tot maxSymbolValue useLowProbCount =
     (let tableLog = if tableLog = 0 then FSE_DEFAULT_TABLELOG else tableLog; counts = take (maxSymbolValue + 1) count in
      check_that (tableLog < FSE_MIN_TABLELOG) GENERIC
      (check_that (FSE_MAX_TABLELOG < tableLog) tableLog_tooLarge
      (cbind (FSE_minTableLog tot maxSymbolValue) (\<lambda>minLog.
       check_that (tableLog < minLog) GENERIC
       (if length count < maxSymbolValue + 1 \<or> length normalizedCounter < maxSymbolValue + 1 then Fault
        else let lowProbCount = (if useLowProbCount then -1 else 1); scale = 62 - tableLog; step = 2 ^ 62 div w32 tot;
                 lowThreshold = w32 (tot div 2 ^ tableLog) in
          cbind (norm_loop tot scale step lowThreshold lowProbCount counts
              \<lparr>ns_norm = [], ns_still = 2 ^ tableLog, ns_largest = 0, ns_largestP = 0\<rparr>) (\<lambda>(st, rle).
            let norm = ns_norm st @ drop (length (ns_norm st)) normalizedCounter in
            if rle then Ok (0, norm)
            else if norm ! ns_largest st div 2 \<le> - ns_still st then
              cbind (FSE_normalizeM2 tableLog counts tot lowProbCount)
                (\<lambda>ns. Ok (tableLog, ns @ drop (maxSymbolValue + 1) normalizedCounter))
            else Ok (tableLog, norm[ns_largest st := norm ! ns_largest st + ns_still st])))))))"

text \<open>A table for a single symbol; the other transforms stay what they were.\<close>

definition FSE_buildCTable_rle :: "(nat \<Rightarrow> symbol_transform) \<Rightarrow> u8 \<Rightarrow> fse_ctable" where
  "FSE_buildCTable_rle junk symbolValue =
     \<lparr>ct_tableLog = 0, ct_maxSymbolValue = unat symbolValue, ct_states = [0, 0],
      ct_symbolTT = map (\<lambda>s. if s = unat symbolValue then \<lparr>deltaFindState = 0, deltaNbBits = 0\<rparr> else junk s)
        [0..<Suc (unat symbolValue)]\<rparr>"

end
