(* ===== verification/Zstd_NCount.thy ===== *)
theory Zstd_NCount
  imports Zstd_FSECounts
begin

text \<open>
  The header of an FSE block (part of \<open>zstd.c\<close>): normalized counts are written with as many bits as what is left to
  distribute needs, runs of zeros as pairs of bits.
\<close>

unbundle bit_operations_syntax

section \<open>Writing\<close>

definition FSE_NCountWriteBound :: "nat \<Rightarrow> nat \<Rightarrow> nat" where
  "FSE_NCountWriteBound maxSymbolValue tableLog =
     (if maxSymbolValue = 0 then 512 else w32 ((maxSymbolValue + 1) * tableLog + 4 + 2) div 8 + 1 + 2)"

record ncount_writer =
  nw_bitStream :: u32
  nw_bitCount :: nat
  nw_out :: nat
  nw_buf :: bytes

definition add_bits :: "nat \<Rightarrow> nat \<Rightarrow> ncount_writer \<Rightarrow> ncount_writer" where
  "add_bits v n w = w\<lparr>nw_bitStream := nw_bitStream w + push_bit (nw_bitCount w) (of_nat v), nw_bitCount := nw_bitCount w + n\<rparr>"

text \<open>Two bytes are put out; only when that is not known to be safe the room is checked.\<close>

definition put16 :: "bool \<Rightarrow> ncount_writer \<Rightarrow> ncount_writer zres" where
  "put16 safe w =
     check_that (\<not> safe \<and> length (nw_buf w) < nw_out w + 2) dstSize_tooSmall
       (if length (nw_buf w) < nw_out w + 2 then Fault
        else Ok (w\<lparr>nw_buf := (nw_buf w)[nw_out w := ucast (nw_bitStream w), nw_out w + 1 := ucast (drop_bit 8 (nw_bitStream w))],
                   nw_out := nw_out w + 2, nw_bitStream := drop_bit 16 (nw_bitStream w)\<rparr>))"

definition flush16 :: "bool \<Rightarrow> ncount_writer \<Rightarrow> ncount_writer zres" where
  "flush16 safe w =
     (if 16 < nw_bitCount w then cbind (put16 safe w) (\<lambda>w. Ok (w\<lparr>nw_bitCount := nw_bitCount w - 16\<rparr>)) else Ok w)"

text \<open>A run of zeros: 24 at a time as 16 bits that are set, 3 at a time as two such bits, and the rest.\<close>

function write_zeros :: "bool \<Rightarrow> nat \<Rightarrow> ncount_writer \<Rightarrow> ncount_writer zres" where
  "write_zeros safe n w =
     (if 24 \<le> n then
        cbind (put16 safe (add_bits 0xFFFF 0 w)) (write_zeros safe (n - 24))
      else if 3 \<le> n then write_zeros safe (n - 3) (add_bits 3 2 w)
      else Ok (add_bits n 2 w))"
  by pat_completeness auto
termination by (relation "measure (\<lambda>(safe, n, w). n)") auto

declare write_zeros.simps [simp del]

text \<open>The threshold is halved until what is left reaches it.\<close>

function shrink :: "nat \<Rightarrow> nat \<times> nat \<Rightarrow> nat \<times> nat" where
  "shrink remaining (nbBits, threshold) =
     (if remaining < threshold then shrink remaining (nbBits - 1, threshold div 2) else (nbBits, threshold))"
  by pat_completeness auto
termination by (relation "measure (\<lambda>(remaining, nbBits, threshold). threshold)") auto

declare shrink.simps [simp del]

text \<open>The number that stands for a count, and how many bits of it are written.\<close>

definition count_code :: "nat \<Rightarrow> nat \<Rightarrow> nat \<Rightarrow> int \<Rightarrow> nat \<times> nat" where
  "count_code remaining threshold nbBits c =
     (let most = 2 * threshold - 1 - remaining; count = nat (c + 1);
          count = (if threshold \<le> count then count + most else count)
      in (count, nbBits - of_bool (count < most)))"

text \<open>The counts from the next one on; what is left to distribute is one more than the states left. Counts are at
  least -1.\<close>

function write_counts ::
    "bool \<Rightarrow> bool \<Rightarrow> nat \<Rightarrow> nat \<Rightarrow> nat \<Rightarrow> int list \<Rightarrow> ncount_writer \<Rightarrow> (nat \<times> ncount_writer) zres" where
  "write_counts safe previousIs0 remaining threshold nbBits cs w =
     (if cs = [] \<or> remaining \<le> 1 then Ok (remaining, w)
      else let zeros = (if previousIs0 then length (takeWhile (\<lambda>c. c = 0) cs) else 0) in
        case drop zeros cs of
          [] \<Rightarrow> Ok (remaining, w)
        | c # rest \<Rightarrow>
            cbind (if previousIs0 then cbind (write_zeros safe zeros w) (flush16 safe) else Ok w) (\<lambda>w.
              let (v, n) = count_code remaining threshold nbBits c; w = add_bits v n w in
              if c < -1 then Fault
              else if remaining < nat \<bar>c\<bar> + 1 then Err GENERIC
              else let remaining = remaining - nat \<bar>c\<bar>; (nbBits, threshold) = shrink remaining (nbBits, threshold)
                in cbind (flush16 safe w) (write_counts safe (c = 0) remaining threshold nbBits rest)))"
  by pat_completeness auto
termination
  by (relation "measure (\<lambda>(safe, p, r, t, n, cs, w). length cs)")
    (auto dest!: arg_cong [of _ _ length] simp: less_Suc_eq_le split: if_splits)

declare write_counts.simps [simp del]

definition FSE_writeNCount_generic ::
    "bytes \<Rightarrow> int list \<Rightarrow> nat \<Rightarrow> nat \<Rightarrow> bool \<Rightarrow> (nat \<times> bytes) zres" where
  "FSE_writeNCount_generic header normalizedCounter maxSymbolValue tableLog writeIsSafe =
     (if length normalizedCounter < maxSymbolValue + 1 then Fault
      else cbind (write_counts writeIsSafe False (2 ^ tableLog + 1) (2 ^ tableLog) (tableLog + 1)
          (take (maxSymbolValue + 1) normalizedCounter)
          (add_bits (tableLog - FSE_MIN_TABLELOG) 4 \<lparr>nw_bitStream = 0, nw_bitCount = 0, nw_out = 0, nw_buf = header\<rparr>))
        (\<lambda>(remaining, w). check_that (remaining \<noteq> 1) GENERIC
          (cbind (put16 writeIsSafe w) (\<lambda>w'. Ok (nw_out w + (nw_bitCount w + 7) div 8, nw_buf w')))))"

definition FSE_writeNCount :: "bytes \<Rightarrow> int list \<Rightarrow> nat \<Rightarrow> nat \<Rightarrow> (nat \<times> bytes) zres" where
  "FSE_writeNCount buffer normalizedCounter maxSymbolValue tableLog =
     check_that (FSE_MAX_TABLELOG < tableLog) tableLog_tooLarge
     (check_that (tableLog < FSE_MIN_TABLELOG) GENERIC
       (FSE_writeNCount_generic buffer normalizedCounter maxSymbolValue tableLog
          (FSE_NCountWriteBound maxSymbolValue tableLog \<le> length buffer)))"

section \<open>Reading\<close>

definition DeBruijnBytePos :: "nat list" where
  "DeBruijnBytePos = [0, 1, 28, 2, 29, 14, 24, 3, 30, 22, 20, 15, 25, 17, 4, 8, 31, 27, 13, 23, 21, 19, 16, 7,
     26, 12, 18, 6, 11, 5, 10, 9]"

definition ZSTD_countTrailingZeros32 :: "u32 \<Rightarrow> nat" where
  "ZSTD_countTrailingZeros32 val = DeBruijnBytePos ! unat (drop_bit 27 ((val AND (0 - val)) * 0x077CB531))"

definition MEM_readLE32 :: "bytes \<Rightarrow> nat \<Rightarrow> u32 zres" where
  "MEM_readLE32 src ptr = cbind (rd src ptr 4) (\<lambda>v. Ok (of_nat v))"

record ncount_reader =
  nr_ip :: nat
  nr_bitStream :: u32
  nr_bitCount :: int
  nr_charnum :: nat
  nr_remaining :: int
  nr_threshold :: int
  nr_nbBits :: nat
  nr_norm :: "int list"

text \<open>The pairs of bits that are set, ahead.\<close>

definition repeats :: "u32 \<Rightarrow> nat" where
  "repeats bitStream = ZSTD_countTrailingZeros32 (NOT bitStream OR 0x80000000) div 2"

text \<open>As long as twelve pairs are set, 36 zeros; the loop ends when fewer are.\<close>

definition skip_turn :: "bytes \<Rightarrow> ncount_reader \<Rightarrow> ncount_reader zres" where
  "skip_turn hb r =
     (let iend = length hb; ip = nr_ip r;
          (ip, bitCount) = (if ip + 7 \<le> iend then (ip + 3, nr_bitCount r)
            else (iend - 4, (nr_bitCount r - 8 * (int iend - 7 - int ip)) mod 32))
      in cbind (MEM_readLE32 hb ip) (\<lambda>v. Ok (r\<lparr>nr_charnum := nr_charnum r + 3 * 12, nr_ip := ip, nr_bitCount := bitCount,
           nr_bitStream := drop_bit (nat bitCount) v\<rparr>)))"

definition skip_runs :: "bytes \<Rightarrow> ncount_reader \<Rightarrow> ncount_reader zres" where
  "skip_runs hb r =
     (case while_option (\<lambda>x. case x of Ok r \<Rightarrow> 12 \<le> repeats (nr_bitStream r) | _ \<Rightarrow> False)
         (\<lambda>x. cbind x (skip_turn hb)) (Ok r) of
        None \<Rightarrow> Fault | Some x \<Rightarrow> x)"

text \<open>The pointer moves over the bytes read, but not past the last four. The first of the two reloads of a turn asserts that
  at most three bytes were read; the second never has more.\<close>

definition reload_header :: "bytes \<Rightarrow> ncount_reader \<Rightarrow> ncount_reader zres" where
  "reload_header hb r =
     (let iend = length hb; ip = nr_ip r; near = ip + 7 \<le> iend \<or> ip + nat (nr_bitCount r div 8) + 4 \<le> iend;
          (ip, bitCount) = (if near then (ip + nat (nr_bitCount r div 8), nr_bitCount r mod 8)
            else (iend - 4, (nr_bitCount r - 8 * (int iend - 4 - int ip)) mod 32))
      in if near \<and> 3 < nr_bitCount r div 8 then Fault
         else cbind (MEM_readLE32 hb ip) (\<lambda>v. Ok (r\<lparr>nr_ip := ip, nr_bitCount := bitCount, nr_bitStream := drop_bit (nat bitCount) v\<rparr>)))"

text \<open>A run of zeros, and whether it goes beyond the last symbol.\<close>

definition read_zeros :: "bytes \<Rightarrow> nat \<Rightarrow> ncount_reader \<Rightarrow> (ncount_reader \<times> bool) zres" where
  "read_zeros hb maxSV1 r =
     cbind (skip_runs hb r) (\<lambda>r.
       let n = repeats (nr_bitStream r); bitStream = drop_bit (2 * n) (nr_bitStream r); r = r\<lparr>
             nr_charnum := nr_charnum r + 3 * n + unat (bitStream AND 3), nr_bitStream := bitStream,
             nr_bitCount := nr_bitCount r + int (2 * n) + 2\<rparr>
       in if \<not> bitStream AND 3 < 3 then Fault
          else if maxSV1 \<le> nr_charnum r then Ok (r, True)
          else cbind (reload_header hb r) (\<lambda>r. Ok (r, False)))"

text \<open>A count, whether the loop ends, and whether it is zero.\<close>

definition read_count :: "nat \<Rightarrow> ncount_reader \<Rightarrow> (ncount_reader \<times> bool \<times> bool) zres" where
  "read_count maxSV1 r =
     (let threshold = nr_threshold r; most = 2 * threshold - 1 - nr_remaining r; bs = nr_bitStream r;
          low = bs AND (of_int threshold - 1); high = uint (bs AND (2 * of_int threshold - 1));
          short = low < of_int most;
          count = (if short then uint low else if threshold \<le> high then high - most else high) - 1;
          bitCount = nr_bitCount r + int (nr_nbBits r) - of_bool short;
          remaining = nr_remaining r - \<bar>count\<bar>;
          r' = r\<lparr>nr_norm := (nr_norm r)[nr_charnum r := sint (of_int count :: 16 word)], nr_charnum := nr_charnum r + 1,
                 nr_bitCount := bitCount, nr_remaining := remaining\<rparr>
      in if count < -1 \<or> length (nr_norm r) \<le> nr_charnum r \<or> threshold \<le> 1 then Fault
         else if remaining < threshold then
           if remaining \<le> 1 then Ok (r', True, count = 0)
           else let nbBits = ZSTD_highbit32 (of_int remaining) + 1
             in Ok (r'\<lparr>nr_nbBits := nbBits, nr_threshold := 2 ^ (nbBits - 1)\<rparr>, maxSV1 \<le> nr_charnum r', count = 0)
         else Ok (r', maxSV1 \<le> nr_charnum r', count = 0))"

text \<open>Every turn takes at least one symbol, so that as many turns as there are symbols are enough.\<close>

fun read_loop :: "nat \<Rightarrow> bytes \<Rightarrow> nat \<Rightarrow> bool \<Rightarrow> ncount_reader \<Rightarrow> ncount_reader zres" where
  "read_loop 0 hb maxSV1 previous0 r = Fault"
| "read_loop (Suc fuel) hb maxSV1 previous0 r =
     cbind (if previous0 then read_zeros hb maxSV1 r else Ok (r, False)) (\<lambda>(r, stop).
       if stop then Ok r
       else cbind (read_count maxSV1 r) (\<lambda>(r, stop, zero).
         if stop then Ok r else cbind (reload_header hb r) (read_loop fuel hb maxSV1 zero)))"

text \<open>The size of the header, the largest symbol, the log of the table and the counts.\<close>

definition read_header :: "nat \<Rightarrow> bytes \<Rightarrow> (nat \<times> nat \<times> nat \<times> int list) zres" where
  "read_header maxSV hb =
     cbind (MEM_readLE32 hb 0) (\<lambda>v.
       let tableLog = unat (v AND 0xF) + FSE_MIN_TABLELOG in
       check_that (FSE_TABLELOG_ABSOLUTE_MAX < tableLog) tableLog_tooLarge
         (cbind (read_loop (maxSV + 1) hb (maxSV + 1) False
             \<lparr>nr_ip = 0, nr_bitStream = drop_bit 4 v, nr_bitCount = 4, nr_charnum = 0, nr_remaining = 2 ^ tableLog + 1,
              nr_threshold = 2 ^ tableLog, nr_nbBits = tableLog + 1, nr_norm = replicate (maxSV + 1) 0\<rparr>)
           (\<lambda>r. check_that (nr_remaining r \<noteq> 1) corruption_detected
             (check_that (maxSV + 1 < nr_charnum r) maxSymbolValue_tooSmall
             (check_that (32 < nr_bitCount r) corruption_detected
               (Ok (nr_ip r + nat ((nr_bitCount r + 7) div 8), nr_charnum r - 1, tableLog, nr_norm r)))))))"

definition FSE_readNCount :: "nat \<Rightarrow> bytes \<Rightarrow> (nat \<times> nat \<times> nat \<times> int list) zres" where
  "FSE_readNCount maxSV hb =
     (if length hb < 8 then
        cbind (read_header maxSV (hb @ replicate (8 - length hb) 0))
          (\<lambda>(n, r). check_that (length hb < n) corruption_detected (Ok (n, r)))
      else read_header maxSV hb)"

end
