(* ===== verification/Zstd_Weights.thy ===== *)
theory Zstd_Weights
  imports Zstd_NCount
begin

text \<open>
  The header of a Huffman table (part of \<open>zstd.c\<close>). The number of bits of every symbol is written as a weight, the last one
  left out; the weights are compressed with FSE, header and stream, or put out as they are in four bits each. A reader
  decompresses them, finds the last one from the others, and builds the table of codes.
\<close>

unbundle bit_operations_syntax

section \<open>Decompression with a header\<close>

text \<open>Sizes in bytes; the workspace begins with 256 counts of two bytes.\<close>

definition FSE_DTABLE_SIZE :: "nat \<Rightarrow> nat" where
  "FSE_DTABLE_SIZE maxTableLog = 4 * (1 + 2 ^ maxTableLog)"

definition FSE_DECOMPRESS_WKSP_SIZE :: "nat \<Rightarrow> nat \<Rightarrow> nat" where
  "FSE_DECOMPRESS_WKSP_SIZE maxTableLog maxSymbolValue =
     4 * ((1 + 2 ^ maxTableLog) + 1 + (DTABLE_WKSP_SIZE maxTableLog maxSymbolValue + 3) div 4 + (255 + 1) div 2 + 1)"

definition FSE_decompress_wksp_body :: "nat \<Rightarrow> bytes \<Rightarrow> nat \<Rightarrow> nat \<Rightarrow> bytes zres" where
  "FSE_decompress_wksp_body dstCapacity cSrc maxLog wkspSize =
     check_that (wkspSize < 512) GENERIC
       (cbind (FSE_readNCount 255 cSrc) (\<lambda>(NCountLength, maxSymbolValue, tableLog, ncount).
          check_that (maxLog < tableLog) tableLog_tooLarge
            (if length cSrc < NCountLength then Fault
             else check_that (wkspSize < FSE_DECOMPRESS_WKSP_SIZE tableLog maxSymbolValue) tableLog_tooLarge
               (if wkspSize < 512 + FSE_DTABLE_SIZE tableLog then Fault
                else cbind (FSE_buildDTable_internal ncount maxSymbolValue tableLog (wkspSize - (512 + FSE_DTABLE_SIZE tableLog)))
                  (\<lambda>dtable. FSE_decompress_usingDTable_generic dstCapacity (drop NCountLength cSrc) dtable (dt_fastMode dtable))))))"

definition FSE_decompress_wksp_bmi2 :: "nat \<Rightarrow> bytes \<Rightarrow> nat \<Rightarrow> nat \<Rightarrow> bytes zres" where
  "FSE_decompress_wksp_bmi2 dstCapacity cSrc maxLog wkspSize = FSE_decompress_wksp_body dstCapacity cSrc maxLog wkspSize"

section \<open>Compression of the weights\<close>

definition HUF_TABLELOG_MAX :: nat where "HUF_TABLELOG_MAX = 12"
definition HUF_SYMBOLVALUE_MAX :: nat where "HUF_SYMBOLVALUE_MAX = 255"
definition HUF_WORKSPACE_MAX_ALIGNMENT :: nat where "HUF_WORKSPACE_MAX_ALIGNMENT = 8"
definition MAX_FSE_TABLELOG_FOR_HUFF_HEADER :: nat where "MAX_FSE_TABLELOG_FOR_HUFF_HEADER = 6"

text \<open>The aligned address and what is left of the workspace; no address and nothing when the workspace is too small. The
  remainder by a power of two stands for the mask.\<close>

definition HUF_alignUpWorkspace :: "nat \<Rightarrow> nat \<Rightarrow> nat \<Rightarrow> (nat option \<times> nat) zres" where
  "HUF_alignUpWorkspace workspace workspaceSize align =
     (let rem = workspace mod align; add = (align - rem) mod align in
      if align \<notin> {1, 2, 4, 8} \<or> HUF_WORKSPACE_MAX_ALIGNMENT < align then Fault
      else if add \<le> workspaceSize then Ok (Some (workspace + add), workspaceSize - add) else Ok (None, 0))"

definition FSE_CTABLE_SIZE_U32 :: "nat \<Rightarrow> nat \<Rightarrow> nat" where
  "FSE_CTABLE_SIZE_U32 maxTableLog maxSymbolValue = 1 + 2 ^ (maxTableLog - 1) + (maxSymbolValue + 1) * 2"

text \<open>The table, the work space of its construction, the counts and the normalized counts; aligned to four bytes.\<close>

definition scratch_size :: nat where
  "scratch_size = CTABLE_WORKSPACE_SIZE HUF_TABLELOG_MAX MAX_FSE_TABLELOG_FOR_HUFF_HEADER"

definition CompressWeightsWksp_size :: nat where
  "CompressWeightsWksp_size =
     (4 * FSE_CTABLE_SIZE_U32 MAX_FSE_TABLELOG_FOR_HUFF_HEADER HUF_TABLELOG_MAX + scratch_size
      + 4 * (HUF_TABLELOG_MAX + 1) + 2 * (HUF_TABLELOG_MAX + 1) + 3) div 4 * 4"

text \<open>\<open>norm\<close> and \<open>junk\<close> are what the workspace held. The result is 0 for weights that are not worth it, 1 for a single
  one, or the size of what was put out; and the destination.\<close>

definition HUF_compressWeights ::
    "(nat \<Rightarrow> int) \<Rightarrow> int list \<Rightarrow> bytes \<Rightarrow> bytes \<Rightarrow> nat \<Rightarrow> nat \<Rightarrow> (nat \<times> bytes) zres" where
  "HUF_compressWeights junk norm dst weightTable workspace workspaceSize =
     cbind (HUF_alignUpWorkspace workspace workspaceSize 4) (\<lambda>(wksp, workspaceSize).
       check_that (workspaceSize < CompressWeightsWksp_size) GENERIC
       (let wtSize = length weightTable in
        if wtSize \<le> 1 then Ok (0, dst)
        else cbind (HIST_count_simple HUF_TABLELOG_MAX weightTable) (\<lambda>(maxCount, maxSymbolValue, count).
          if maxCount = wtSize then Ok (1, dst)
          else if maxCount = 1 then Ok (0, dst)
          else cbind (FSE_optimalTableLog MAX_FSE_TABLELOG_FOR_HUFF_HEADER wtSize maxSymbolValue) (\<lambda>tableLog.
            cbind (FSE_normalizeCount norm tableLog count wtSize maxSymbolValue False) (\<lambda>(_, norm).
            cbind (FSE_writeNCount dst norm maxSymbolValue tableLog) (\<lambda>(hSize, op).
            cbind (FSE_buildCTable_wksp junk norm maxSymbolValue tableLog scratch_size) (\<lambda>CTable.
            cbind (FSE_compress_usingCTable (drop hSize op) weightTable CTable) (\<lambda>(cSize, rest).
              Ok (if cSize = 0 then 0 else hSize + cSize, take hSize op @ rest)))))))))"

section \<open>The table of codes\<close>

text \<open>An entry holds the number of bits in its lowest byte and the code in its highest bits.\<close>

type_synonym HUF_CElt = u64

definition HUF_getNbBits :: "HUF_CElt \<Rightarrow> nat" where
  "HUF_getNbBits elt = unat (elt AND 0xFF)"

definition HUF_getNbBitsFast :: "HUF_CElt \<Rightarrow> u64" where
  "HUF_getNbBitsFast elt = elt"

definition HUF_getValue :: "HUF_CElt \<Rightarrow> u64" where
  "HUF_getValue elt = elt AND NOT 0xFF"

definition HUF_getValueFast :: "HUF_CElt \<Rightarrow> u64" where
  "HUF_getValueFast elt = elt"

definition HUF_setNbBits :: "nat \<Rightarrow> HUF_CElt zres" where
  "HUF_setNbBits nbBits = (if 12 < nbBits then Fault else Ok (of_nat nbBits))"

definition HUF_setValue :: "HUF_CElt \<Rightarrow> nat \<Rightarrow> HUF_CElt zres" where
  "HUF_setValue elt val =
     (let nbBits = HUF_getNbBits elt in
      if 0 < nbBits then
        if val div 2 ^ nbBits \<noteq> 0 \<or> 64 < nbBits then Fault else Ok (elt OR push_bit (64 - nbBits) (of_nat val))
      else Ok elt)"

record huf_ctable =
  ht_tableLog :: nat
  ht_maxSymbolValue :: nat
  ht_elts :: "HUF_CElt list"

definition HUF_getNbBitsFromCTable :: "huf_ctable \<Rightarrow> nat \<Rightarrow> nat zres" where
  "HUF_getNbBitsFromCTable CTable symbolValue =
     (if HUF_SYMBOLVALUE_MAX < symbolValue then Fault
      else if ht_maxSymbolValue CTable < symbolValue then Ok 0
      else if length (ht_elts CTable) \<le> symbolValue then Fault
      else Ok (HUF_getNbBits (ht_elts CTable ! symbolValue)))"

section \<open>Writing the header\<close>

definition WriteCTableWksp_size :: nat where
  "WriteCTableWksp_size = (CompressWeightsWksp_size + (HUF_TABLELOG_MAX + 1) + HUF_SYMBOLVALUE_MAX + 3) div 4 * 4"

text \<open>The weight of a number of bits; beyond the largest the table holds nothing.\<close>

definition bits_to_weight :: "nat \<Rightarrow> nat \<Rightarrow> u8 zres" where
  "bits_to_weight huffLog n =
     (if HUF_TABLELOG_MAX < huffLog \<or> huffLog < n then Fault else Ok (if n = 0 then 0 else of_nat (huffLog + 1 - n)))"

fun weights_of :: "nat \<Rightarrow> HUF_CElt list \<Rightarrow> bytes zres" where
  "weights_of huffLog [] = Ok []"
| "weights_of huffLog (e # es) =
     cbind (bits_to_weight huffLog (HUF_getNbBits e)) (\<lambda>w. cbind (weights_of huffLog es) (\<lambda>ws. Ok (w # ws)))"

text \<open>Two weights in a byte, the first in the high bits; one that is missing is 0.\<close>

fun raw_weights :: "bytes \<Rightarrow> bytes" where
  "raw_weights (a # b # ws) = (push_bit 4 a + b) # raw_weights ws"
| "raw_weights [a] = [push_bit 4 a + 0]"
| "raw_weights [] = []"

text \<open>The weights as they are, after a byte that says how many; \<open>op\<close> is the destination after that byte.\<close>

definition write_raw :: "nat \<Rightarrow> nat \<Rightarrow> bytes \<Rightarrow> bytes \<Rightarrow> (nat \<times> bytes) zres" where
  "write_raw maxDstSize maxSymbolValue huffWeight op =
     check_that (256 - 128 < maxSymbolValue) GENERIC
     (check_that (maxDstSize < (maxSymbolValue + 1) div 2 + 1) dstSize_tooSmall
       (Ok ((maxSymbolValue + 1) div 2 + 1,
          (128 + (of_nat maxSymbolValue - 1)) # raw_weights huffWeight @ drop ((maxSymbolValue + 1) div 2) op)))"

definition HUF_writeCTable_wksp ::
    "(nat \<Rightarrow> int) \<Rightarrow> int list \<Rightarrow> bytes \<Rightarrow> huf_ctable \<Rightarrow> nat \<Rightarrow> nat \<Rightarrow> nat \<Rightarrow> nat \<Rightarrow> (nat \<times> bytes) zres" where
  "HUF_writeCTable_wksp junk norm dst CTable maxSymbolValue huffLog workspace workspaceSize =
     cbind (HUF_alignUpWorkspace workspace workspaceSize 4) (\<lambda>(wksp, workspaceSize).
       if ht_maxSymbolValue CTable \<noteq> maxSymbolValue \<or> ht_tableLog CTable \<noteq> huffLog then Fault
       else check_that (workspaceSize < WriteCTableWksp_size) GENERIC
       (check_that (HUF_SYMBOLVALUE_MAX < maxSymbolValue) maxSymbolValue_tooLarge
       (if length (ht_elts CTable) < maxSymbolValue then Fault
        else cbind (weights_of huffLog (take maxSymbolValue (ht_elts CTable))) (\<lambda>huffWeight.
          check_that (length dst < 1) dstSize_tooSmall
          (case wksp of
             None \<Rightarrow> Fault
           | Some ws \<Rightarrow>
               cbind (HUF_compressWeights junk norm (drop 1 dst) huffWeight ws CompressWeightsWksp_size) (\<lambda>(hSize, op).
                 if 1 < hSize \<and> hSize < maxSymbolValue div 2 then Ok (hSize + 1, of_nat hSize # op)
                 else write_raw (length dst) maxSymbolValue huffWeight op))))))"

section \<open>Reading the header\<close>

definition HUF_READ_STATS_WORKSPACE_SIZE :: nat where
  "HUF_READ_STATS_WORKSPACE_SIZE = FSE_DECOMPRESS_WKSP_SIZE 6 (HUF_TABLELOG_MAX - 1)"

fun nibbles :: "bytes \<Rightarrow> bytes" where
  "nibbles [] = []"
| "nibbles (b # bs) = drop_bit 4 b # (b AND 15) # nibbles bs"

text \<open>How many symbols have every weight, and what they add up to.\<close>

fun collect_stats :: "bytes \<Rightarrow> nat list \<times> nat \<Rightarrow> (nat list \<times> nat) zres" where
  "collect_stats [] st = Ok st"
| "collect_stats (w # ws) (rankStats, weightTotal) =
     check_that (HUF_TABLELOG_MAX < unat w) corruption_detected
       (collect_stats ws (rankStats[unat w := rankStats ! unat w + 1], w32 (weightTotal + 2 ^ unat w div 2)))"

definition read_weights :: "nat \<Rightarrow> bytes \<Rightarrow> nat \<Rightarrow> (nat \<times> bytes) zres" where
  "read_weights hwSize src wkspSize =
     (case src of
        [] \<Rightarrow> Err srcSize_wrong
      | b # ip \<Rightarrow>
          if 128 \<le> unat b then
            let oSize = unat b - 127; iSize = (oSize + 1) div 2 in
            check_that (length src < iSize + 1) srcSize_wrong
            (check_that (hwSize \<le> oSize) corruption_detected (Ok (iSize, take oSize (nibbles (take iSize ip)))))
          else
            let iSize = unat b in
            check_that (length src < iSize + 1) srcSize_wrong
            (cbind (FSE_decompress_wksp_bmi2 (hwSize - 1) (take iSize ip) 6 wkspSize) (\<lambda>ws. Ok (iSize, ws))))"

text \<open>The size of the header, the weights with the last one, how many there are of each, and the log of the table.\<close>

definition HUF_readStats_wksp :: "nat \<Rightarrow> bytes \<Rightarrow> nat \<Rightarrow> (nat \<times> bytes \<times> nat list \<times> nat) zres" where
  "HUF_readStats_wksp hwSize src wkspSize =
     cbind (read_weights hwSize src wkspSize) (\<lambda>(iSize, huffWeight).
     cbind (collect_stats huffWeight (replicate (HUF_TABLELOG_MAX + 1) 0, 0)) (\<lambda>(rankStats, weightTotal).
       check_that (weightTotal = 0) corruption_detected
       (let tableLog = ZSTD_highbit32 (of_nat weightTotal) + 1 in
        check_that (HUF_TABLELOG_MAX < tableLog) corruption_detected
        (let rest = 2 ^ tableLog - weightTotal; lastWeight = ZSTD_highbit32 (of_nat rest) + 1 in
         check_that (2 ^ ZSTD_highbit32 (of_nat rest) \<noteq> rest) corruption_detected
         (let rankStats = rankStats[lastWeight := rankStats ! lastWeight + 1] in
          check_that (rankStats ! 1 < 2 \<or> odd (rankStats ! 1)) corruption_detected
            (Ok (iSize + 1, huffWeight @ [of_nat lastWeight], rankStats, tableLog)))))))"

definition HUF_readStats :: "nat \<Rightarrow> bytes \<Rightarrow> (nat \<times> bytes \<times> nat list \<times> nat) zres" where
  "HUF_readStats hwSize src = HUF_readStats_wksp hwSize src HUF_READ_STATS_WORKSPACE_SIZE"

section \<open>The table from the weights\<close>

fun set_bits :: "nat \<Rightarrow> bytes \<Rightarrow> HUF_CElt list zres" where
  "set_bits tableLog [] = Ok []"
| "set_bits tableLog (w # ws) =
     cbind (HUF_setNbBits (if w = 0 then 0 else tableLog + 1 - unat w)) (\<lambda>e. cbind (set_bits tableLog ws) (\<lambda>es. Ok (e # es)))"

text \<open>The first code of every number of bits, from the longest codes to the shortest; \<open>lo\<close> is a 16-bit number.\<close>

fun start_values :: "nat \<Rightarrow> nat list \<Rightarrow> u16 \<Rightarrow> u16 list \<Rightarrow> u16 list" where
  "start_values 0 nbPerRank lo valPerRank = valPerRank"
| "start_values (Suc n) nbPerRank lo valPerRank =
     start_values n nbPerRank (drop_bit 1 (lo + of_nat (nbPerRank ! Suc n))) (valPerRank[Suc n := lo])"

fun assign_values :: "HUF_CElt list \<Rightarrow> u16 list \<Rightarrow> HUF_CElt list zres" where
  "assign_values [] valPerRank = Ok []"
| "assign_values (e # es) valPerRank =
     (let n = HUF_getNbBits e in
      if length valPerRank \<le> n then Fault
      else cbind (HUF_setValue e (unat (valPerRank ! n))) (\<lambda>e.
        cbind (assign_values es (valPerRank[n := valPerRank ! n + 1])) (\<lambda>es. Ok (e # es))))"

definition count_bits :: "HUF_CElt list \<Rightarrow> nat list" where
  "count_bits es = map (\<lambda>n. length (filter (\<lambda>e. HUF_getNbBits e = n) es)) [0..<HUF_TABLELOG_MAX + 2]"

definition canonical_codes :: "nat \<Rightarrow> HUF_CElt list \<Rightarrow> HUF_CElt list zres" where
  "canonical_codes tableLog es =
     assign_values es (start_values tableLog (count_bits es) 0 (replicate (HUF_TABLELOG_MAX + 2) 0))"

text \<open>The size of the header, the table, and whether a symbol has weight 0. The base values of the ranks the code also
  computes are not used.\<close>

definition HUF_readCTable :: "nat \<Rightarrow> bytes \<Rightarrow> (nat \<times> huf_ctable \<times> bool) zres" where
  "HUF_readCTable maxSymbolValue src =
     cbind (HUF_readStats (HUF_SYMBOLVALUE_MAX + 1) src) (\<lambda>(readSize, huffWeight, rankVal, tableLog).
       check_that (HUF_TABLELOG_MAX < tableLog) tableLog_tooLarge
       (check_that (maxSymbolValue + 1 < length huffWeight) maxSymbolValue_tooSmall
         (cbind (set_bits tableLog huffWeight) (\<lambda>es. cbind (canonical_codes tableLog es) (\<lambda>es.
            Ok (readSize, \<lparr>ht_tableLog = tableLog, ht_maxSymbolValue = length huffWeight - 1, ht_elts = es\<rparr>, 0 < rankVal ! 0))))))"

section \<open>The table from the tree\<close>

record huf_node =
  hn_count :: u32
  hn_parent :: u16
  hn_byte :: u8
  hn_nbBits :: nat

fun place_bits :: "huf_node list \<Rightarrow> HUF_CElt list \<Rightarrow> HUF_CElt list zres" where
  "place_bits [] ct = Ok ct"
| "place_bits (n # ns) ct =
     (if length ct \<le> unat (hn_byte n) then Fault
      else cbind (HUF_setNbBits (hn_nbBits n)) (\<lambda>e. place_bits ns (ct[unat (hn_byte n) := e])))"

text \<open>\<open>junk\<close> is what the table held; the nodes up to \<open>nonNullRank\<close> are those of symbols that occur.\<close>

definition HUF_buildCTableFromTree ::
    "(nat \<Rightarrow> HUF_CElt) \<Rightarrow> huf_node list \<Rightarrow> nat \<Rightarrow> nat \<Rightarrow> nat \<Rightarrow> huf_ctable zres" where
  "HUF_buildCTableFromTree junk huffNode nonNullRank maxSymbolValue maxNbBits =
     (let used = take (nonNullRank + 1) huffNode; alphabetSize = maxSymbolValue + 1;
          nbPerRank = map (\<lambda>n. length (filter (\<lambda>h. hn_nbBits h = n) used)) [0..<HUF_TABLELOG_MAX + 1] in
      if length huffNode < nonNullRank + 1 \<or> length huffNode < alphabetSize \<or> HUF_TABLELOG_MAX < maxNbBits
        \<or> \<not> list_all (\<lambda>h. hn_nbBits h \<le> HUF_TABLELOG_MAX) used \<or> 256 \<le> maxSymbolValue then Fault
      else cbind (place_bits (take alphabetSize huffNode) (map junk [0..<alphabetSize])) (\<lambda>ct.
        cbind (assign_values ct (start_values maxNbBits nbPerRank 0 (replicate (HUF_TABLELOG_MAX + 1) 0))) (\<lambda>ct.
          Ok \<lparr>ht_tableLog = maxNbBits, ht_maxSymbolValue = maxSymbolValue, ht_elts = ct\<rparr>)))"

section \<open>What a table is good for\<close>

definition HUF_estimateCompressedSize :: "huf_ctable \<Rightarrow> nat list \<Rightarrow> nat \<Rightarrow> nat zres" where
  "HUF_estimateCompressedSize CTable count maxSymbolValue =
     (if length (ht_elts CTable) \<le> maxSymbolValue \<or> length count \<le> maxSymbolValue then Fault
      else Ok (w64 (sum_list (map (\<lambda>s. HUF_getNbBits (ht_elts CTable ! s) * count ! s) [0..<maxSymbolValue + 1])) div 8))"

definition HUF_validateCTable :: "huf_ctable \<Rightarrow> nat list \<Rightarrow> nat \<Rightarrow> bool zres" where
  "HUF_validateCTable CTable count maxSymbolValue =
     (if 12 < ht_tableLog CTable then Fault
      else if ht_maxSymbolValue CTable < maxSymbolValue then Ok False
      else if length (ht_elts CTable) \<le> maxSymbolValue \<or> length count \<le> maxSymbolValue then Fault
      else Ok (list_all (\<lambda>s. \<not> (count ! s \<noteq> 0 \<and> HUF_getNbBits (ht_elts CTable ! s) = 0)) [0..<maxSymbolValue + 1]))"

end
