(* ===== verification/Zstd_FSENormalize.thy ===== *)
theory Zstd_FSENormalize
  imports Zstd_FSECounts Zstd_FSETables
begin

text \<open>
  Normalized counts fill a table exactly: whichever method distributes the states, they add up to the size of
  the table, and exactly the symbols that occur have some.
\<close>

section \<open>Shares\<close>

text \<open>A symbol has states if and only if it occurs.\<close>

definition share :: "nat \<Rightarrow> int \<Rightarrow> bool" where
  "share c n \<longleftrightarrow> (if c = 0 then n = 0 else n = -1 \<or> 1 \<le> n)"

definition shares :: "nat list \<Rightarrow> int list \<Rightarrow> bool" where
  "shares cs ns \<longleftrightarrow> list_all2 share cs ns"

definition weights :: "int list \<Rightarrow> nat" where
  "weights ns = sum_list (map weight ns)"

lemma weights_simps [simp]: "weights [] = 0" "weights (n # ns) = weight n + weights ns" "weights (ms @ ns) = weights ms + weights ns"
  by (simp_all add: weights_def)

lemma weight_simps [simp]: "weight 0 = 0" "weight 1 = 1" "weight (-1) = 1" "weight (-2) = 0"
  by (simp_all add: weight_def)

lemma weight_pos: "1 \<le> n \<Longrightarrow> int (weight n) = n"
  by (simp add: weight_def)

lemma shares_length: "shares cs ns \<Longrightarrow> length ns = length cs"
  by (simp add: shares_def list_all2_lengthD)

lemma shares_nth: "shares cs ns \<Longrightarrow> i < length cs \<Longrightarrow> share (cs ! i) (ns ! i)"
  by (simp add: shares_def list_all2_nthD)

lemma shares_snoc: "shares cs ns \<Longrightarrow> share c n \<Longrightarrow> shares (cs @ [c]) (ns @ [n])"
  by (simp add: shares_def list_all2_appendI)

lemma shares_update:
  assumes "shares cs ns" and "i < length cs" and "cs ! i \<noteq> 0" and "1 \<le> n"
  shows "shares cs (ns[i := n])"
  using assms list_all2_update_cong [of share cs ns "cs ! i" n i] by (simp add: shares_def share_def)

lemma weights_update: "i < length ns \<Longrightarrow> int (weights (ns[i := n])) = int (weights ns) - int (weight (ns ! i)) + int (weight n)"
  by (induction ns arbitrary: i) (auto split: nat.splits)

text \<open>Shares that add up to the size of a table are well-formed counts.\<close>

lemma shares_norm_ok:
  assumes "shares cs ns" and "weights ns = 2 ^ L" and "5 \<le> L" and "L \<le> FSE_MAX_TABLELOG" and "length cs \<le> 256"
  shows "norm_ok L ns"
proof -
  have "\<forall>n \<in> set ns. -1 \<le> n"
  proof
    fix n assume "n \<in> set ns"
    then obtain i where i: "i < length ns" "n = ns ! i" by (auto simp: in_set_conv_nth)
    then show "-1 \<le> n" using shares_nth [OF assms(1)] shares_length [OF assms(1)] by (fastforce simp: share_def split: if_splits)
  qed
  then show ?thesis using assms shares_length [OF assms(1)] by (simp add: norm_ok_def weights_def)
qed

section \<open>Arithmetic\<close>

lemma w32_less [simp]: "x < 2 ^ 32 \<Longrightarrow> w32 x = x" by (simp add: w32_def)
lemma w64_less [simp]: "x < 2 ^ 64 \<Longrightarrow> w64 x = x" by (simp add: w64_def)

lemma sub32_eq: "b \<le> a \<Longrightarrow> a < 2 ^ 32 \<Longrightarrow> sub32 a b = a - b"
  by (simp add: sub32_def nat_eq_iff of_nat_diff)

lemma short_eq: "0 \<le> x \<Longrightarrow> x < 2 ^ 15 \<Longrightarrow> sint (of_int x :: 16 word) = x"
  by (simp add: signed_of_int signed_take_bit_int_eq_self)

lemma short_nat_eq: "x < 2 ^ 15 \<Longrightarrow> sint (of_nat x :: 16 word) = int x"
  using short_eq [of "int x"] by simp

text \<open>The share of a symbol with more than a state's worth of occurrences is not rounded down to nothing.\<close>

lemma share_not_nothing:
  fixes c tot :: nat
  assumes "tot div 2 ^ L < c" and "c < tot" and "tot < 2 ^ 31" and "L \<le> 12"
  shows "2 ^ (62 - L) \<le> c * (2 ^ 62 div tot)" and "c * (2 ^ 62 div tot) < 2 ^ 62"
proof -
  let ?s = "2 ^ 62 div tot :: nat"
  have pos: "0 < tot" using assms(2) by simp
  have "tot < c * 2 ^ L" using assms(1) pos by (simp add: div_less_iff_less_mult)
  then have c: "(tot + 1) * ?s \<le> c * 2 ^ L * ?s" by (intro mult_le_mono1) simp
  have all: "tot * ?s + 2 ^ 62 mod tot = 2 ^ 62" by (rule mult_div_mod_eq)
  have "2 ^ 62 mod tot \<le> ?s"
  proof -
    have "2 ^ 31 * tot \<le> 2 ^ 31 * 2 ^ 31" using assms(3) by (intro mult_le_mono) simp_all
    then have "2 ^ 31 \<le> ?s" using pos by (simp add: less_eq_div_iff_mult_less_eq)
    moreover have "2 ^ 62 mod tot < tot" using pos by (rule mod_less_divisor)
    ultimately show ?thesis using assms(3) by linarith
  qed
  then have "2 ^ 62 \<le> (tot + 1) * ?s" using all unfolding distrib_right by linarith
  then have "2 ^ (62 - L) * 2 ^ L \<le> c * ?s * 2 ^ L"
    using c assms(4) by (simp add: ac_simps flip: power_add)
  then show "2 ^ (62 - L) \<le> c * ?s" by simp
  have "0 < ?s" using assms(3) pos by (simp add: div_greater_zero_iff)
  then have "c * ?s < tot * ?s" using assms(2) by simp
  also have "\<dots> \<le> 2 ^ 62" by simp
  finally show "c * ?s < 2 ^ 62" .
qed

lemma proba_positive:
  assumes "tot div 2 ^ L < c" and "c < tot" and "tot < 2 ^ 31" and "L \<le> 12"
  shows "\<exists>p. proba_of (62 - L) (2 ^ 62 div tot) c = Ok p \<and> 1 \<le> p"
proof -
  note s = share_not_nothing [OF assms]
  define x where "x = c * (2 ^ 62 div tot)"
  have "x div 2 ^ (62 - L) < 2 ^ 12"
  proof -
    have "x < 2 ^ (62 - L) * 2 ^ L" using s(2) assms(4) by (simp add: x_def flip: power_add)
    then have "x div 2 ^ (62 - L) < 2 ^ L" by (simp add: less_mult_imp_div_less mult.commute)
    also have "(2 :: nat) ^ L \<le> 2 ^ 12" using assms(4) by (intro power_increasing) simp_all
    finally show ?thesis .
  qed
  then have "sint (of_nat (w64 x div 2 ^ (62 - L)) :: 16 word) = int (x div 2 ^ (62 - L))"
    using s(2) by (subst w64_less) (simp_all add: x_def short_nat_eq)
  moreover have "1 \<le> x div 2 ^ (62 - L)" using s(1) by (simp add: x_def less_eq_div_iff_mult_less_eq)
  ultimately show ?thesis unfolding proba_of_def Let_def x_def [symmetric] by auto
qed

section \<open>The primary method\<close>

definition largest_ok :: "norm_state \<Rightarrow> bool" where
  "largest_ok st \<longleftrightarrow> 0 \<le> ns_largestP st \<and> (0 < ns_largestP st \<longrightarrow>
     ns_largest st < length (ns_norm st) \<and> ns_norm st ! ns_largest st = ns_largestP st)"

text \<open>What the loop has pre: shares for the counts so far, and the states left.\<close>

definition loop_ok :: "nat \<Rightarrow> nat list \<Rightarrow> norm_state \<Rightarrow> bool" where
  "loop_ok L pre st \<longleftrightarrow> shares pre (ns_norm st) \<and> ns_still st = 2 ^ L - int (weights (ns_norm st)) \<and> largest_ok st"

lemma loop_ok_snoc:
  assumes "loop_ok L pre st" and "share c n"
  shows "loop_ok L (pre @ [c]) (st\<lparr>ns_norm := ns_norm st @ [n], ns_still := ns_still st - int (weight n)\<rparr>)"
  using assms by (auto simp: loop_ok_def shares_snoc largest_ok_def nth_append)

lemma norm_loop_ok:
  assumes "loop_ok L pre st" and "\<forall>c \<in> set cs. c \<le> tot" and "tot < 2 ^ 31" and "L \<le> 12" and "lp = -1 \<or> lp = 1"
    and "norm_loop tot (62 - L) (2 ^ 62 div tot) (tot div 2 ^ L) lp cs st = Ok (st', False)"
  shows "loop_ok L (pre @ cs) st' \<and> (0 < ns_largestP st \<or> (\<exists>c \<in> set cs. tot div 2 ^ L < c) \<longrightarrow> 0 < ns_largestP st')"
  using assms(1,2,6)
proof (induction cs arbitrary: pre st)
  case (Cons c cs)
  have c: "c \<noteq> tot" "c \<le> tot" using Cons.prems by (auto split: if_splits)
  consider "c = 0" | "0 < c" "c \<le> tot div 2 ^ L" | "0 < c" "tot div 2 ^ L < c" by linarith
  then show ?case
  proof cases
    case 1
    let ?st = "st\<lparr>ns_norm := ns_norm st @ [0]\<rparr>"
    have "loop_ok L (pre @ [c]) ?st" using loop_ok_snoc [OF Cons.prems(1), of c 0] 1 by (simp add: share_def)
    then show ?thesis using Cons.IH [of "pre @ [c]" ?st] Cons.prems(2,3) 1 c by simp
  next
    case 2
    let ?st = "st\<lparr>ns_norm := ns_norm st @ [lp], ns_still := ns_still st - 1\<rparr>"
    have "loop_ok L (pre @ [c]) ?st" using loop_ok_snoc [OF Cons.prems(1), of c lp] 2(1) assms(5) by (auto simp: share_def)
    then show ?thesis using Cons.IH [of "pre @ [c]" ?st] Cons.prems(2,3) 2 c by simp
  next
    case 3
    obtain p where p: "proba_of (62 - L) (2 ^ 62 div tot) c = Ok p" "1 \<le> p"
      using proba_positive [OF 3(2) _ assms(3,4)] c by auto
    let ?st = "st\<lparr>ns_norm := ns_norm st @ [p], ns_still := ns_still st - p,
       ns_largest := (if ns_largestP st < p then length (ns_norm st) else ns_largest st),
       ns_largestP := (if ns_largestP st < p then p else ns_largestP st)\<rparr>"
    have "loop_ok L (pre @ [c]) ?st"
      using loop_ok_snoc [OF Cons.prems(1), of c p] 3(1) p(2) by (auto simp: share_def loop_ok_def largest_ok_def weight_pos nth_append)
    moreover have "norm_loop tot (62 - L) (2 ^ 62 div tot) (tot div 2 ^ L) lp cs ?st = Ok (st', False)"
      using Cons.prems(3) 3 c p(1) by simp
    moreover have "0 < ns_largestP ?st" using p(2) Cons.prems(1) by (auto simp: loop_ok_def largest_ok_def)
    ultimately show ?thesis using Cons.IH [of "pre @ [c]" ?st] Cons.prems(2) by simp
  qed
qed auto

section \<open>The secondary method\<close>

text \<open>While it works, -2 marks the symbols whose share is still open; \<open>pending\<close> is what they occur together.\<close>

definition marked :: "nat \<Rightarrow> nat \<Rightarrow> int \<Rightarrow> bool" where
  "marked low c n \<longleftrightarrow> (c = 0 \<longleftrightarrow> n = 0) \<and> (n = 0 \<or> n = -2 \<or> n = 1 \<or> n = -1 \<and> c \<le> low)"

definition marks :: "nat \<Rightarrow> nat list \<Rightarrow> int list \<Rightarrow> bool" where
  "marks low cs ns \<longleftrightarrow> list_all2 (marked low) cs ns"

fun pending :: "nat list \<Rightarrow> int list \<Rightarrow> nat" where
  "pending (c # cs) (n # ns) = (if n = -2 then c else 0) + pending cs ns"
| "pending _ _ = 0"

lemma pending_le: "pending cs ns \<le> sum_list cs"
  by (induction cs ns rule: pending.induct) auto

lemma marks_weights: "marks low cs ns \<Longrightarrow> weights ns \<le> length (filter (\<lambda>c. c \<noteq> 0) cs)"
  unfolding marks_def by (induction rule: list_all2_induct) (auto simp: marked_def)

text \<open>With nothing open the marks are shares.\<close>

lemma marks_shares: "marks low cs ns \<Longrightarrow> pending cs ns = 0 \<Longrightarrow> shares cs ns"
  unfolding marks_def shares_def by (induction rule: list_all2_induct) (auto simp: marked_def share_def split: if_splits)

lemma m2_first_ok:
  assumes "lp = -1 \<or> lp = 1" and "m2_first low lowOne lp cs (d, t) = (ns, d', t')" and "sum_list cs \<le> t"
  shows "marks low cs ns \<and> d' = d + weights ns \<and> t' + sum_list cs = t + pending cs ns"
  using assms(2,3)
proof (induction cs arbitrary: d t ns)
  case (Cons c cs)
  show ?case
  proof (cases "c = 0 \<or> low < c \<and> lowOne < c")
    case True
    then obtain ms where "m2_first low lowOne lp cs (d, t) = (ms, d', t')" "ns = (if c = 0 then 0 else -2) # ms"
      using Cons.prems by (auto split: if_splits prod.splits)
    then show ?thesis using Cons.IH [of d t ms] Cons.prems(2) True assms(1) by (auto simp: marks_def marked_def)
  next
    case False
    then obtain ms where "m2_first low lowOne lp cs (d + 1, t - c) = (ms, d', t')" "ns = (if c \<le> low then lp else 1) # ms"
      using Cons.prems by (auto split: if_splits prod.splits)
    moreover have "sum_list cs \<le> t - c" using Cons.prems(2) by simp
    ultimately have "marks low cs ms" "d' = d + 1 + weights ms" "t' + sum_list cs = t - c + pending cs ms"
      using Cons.IH by blast+
    then show ?thesis
      using \<open>ns = _\<close> Cons.prems(2) False assms(1) by (auto simp: marks_def marked_def)
  qed
qed (simp add: marks_def)

lemma m2_second_ok:
  assumes "marks low cs ns" and "m2_second lowOne ns cs (d, t) = (ns', d', t')" and "pending cs ns \<le> t"
  shows "marks low cs ns' \<and> d' + weights ns = d + weights ns' \<and> t' + pending cs ns = t + pending cs ns'"
  using assms
proof (induction ns arbitrary: cs d t ns')
  case (Cons n ns)
  obtain c ds where cs: "cs = c # ds" and m: "marked low c n" "marks low ds ns"
    using Cons.prems(1) by (auto simp: marks_def list_all2_Cons2)
  show ?case
  proof (cases "n = -2 \<and> c \<le> lowOne")
    case True
    then obtain ms where ms: "m2_second lowOne ns ds (d + 1, t - c) = (ms, d', t')" "ns' = 1 # ms"
      using Cons.prems(2) by (auto simp: cs split: prod.splits)
    have "pending ds ns \<le> t - c" using Cons.prems(3) True by (simp add: cs)
    from Cons.IH [OF m(2) ms(1) this] have IH: "marks low ds ms" "d' + weights ns = Suc (d + weights ms)"
      "t' + pending ds ns = t - c + pending ds ms"
      by simp_all
    have "marked low c 1" using m(1) True by (auto simp: marked_def)
    moreover have "t' + (c + pending ds ns) = t + pending ds ms" using IH(3) True Cons.prems(3) by (simp add: cs)
    ultimately show ?thesis using IH(1,2) ms(2) True by (simp add: cs marks_def)
  next
    case False
    then have "m2_second lowOne (n # ns) (c # ds) (d, t) = (let (ms, r) = m2_second lowOne ns ds (d, t) in (n # ms, r))"
      by (simp only: m2_second.simps if_False)
    then obtain ms where ms: "m2_second lowOne ns ds (d, t) = (ms, d', t')" "ns' = n # ms"
      using Cons.prems(2) by (auto simp: cs split: prod.splits)
    have "pending ds ns \<le> t" using Cons.prems(3) by (simp add: cs)
    then show ?thesis using Cons.IH [OF m(2) ms(1)] ms(2) m(1) by (simp add: cs marks_def)
  qed
qed (auto simp: marks_def)

lemma find_max_ok:
  assumes "find_max s (v, m) cs = r"
  shows "r = v \<and> (\<forall>c \<in> set cs. c \<le> m) \<or> s \<le> r \<and> r < s + length cs \<and> m < cs ! (r - s) \<and> (\<forall>c \<in> set cs. c \<le> cs ! (r - s))"
  using assms
proof (induction cs arbitrary: s v m)
  case (Cons c cs)
  show ?case
  proof (cases "m < c")
    case True
    then have "find_max (Suc s) (s, c) cs = r" using Cons.prems by simp
    from Cons.IH [OF this] show ?thesis
    proof
      assume "Suc s \<le> r \<and> r < Suc s + length cs \<and> c < cs ! (r - Suc s) \<and> (\<forall>x \<in> set cs. x \<le> cs ! (r - Suc s))"
      then show ?thesis using True by (auto simp: nth_Cons' Suc_diff_le)
    qed (use True in auto)
  next
    case False
    then have "find_max (Suc s) (v, m) cs = r" using Cons.prems by simp
    from Cons.IH [OF this] show ?thesis
    proof
      assume "Suc s \<le> r \<and> r < Suc s + length cs \<and> m < cs ! (r - Suc s) \<and> (\<forall>x \<in> set cs. x \<le> cs ! (r - Suc s))"
      then show ?thesis using False by (auto simp: nth_Cons')
    qed (use False in auto)
  qed
qed simp

text \<open>Giving a state more to every symbol in turn.\<close>

lemma give_pass_ok:
  assumes "give_pass td ns = (td', ns')" and "shares cs ns"
  shows "shares cs ns' \<and> int (weights ns') + int td' = int (weights ns) + int td \<and> td' \<le> td
    \<and> ((\<exists>n \<in> set ns. 0 < n) \<and> 0 < td \<longrightarrow> td' < td \<and> (\<exists>n \<in> set ns'. 0 < n))"
  using assms
proof (induction ns arbitrary: td td' ns' cs)
  case (Cons n ns)
  obtain c ds where cs: "cs = c # ds" "share c n" "shares ds ns" using Cons.prems(2) by (auto simp: shares_def list_all2_Cons2)
  show ?case
  proof (cases "0 < td \<and> 0 < n")
    case True
    then obtain ms where ms: "give_pass (td - 1) ns = (td', ms)" "ns' = (n + 1) # ms" using Cons.prems(1) by (auto split: prod.splits)
    have "share c (n + 1)" using cs(2) True by (auto simp: share_def split: if_splits)
    moreover have "int (weight (n + 1)) = int (weight n) + 1" using True by (simp add: weight_def)
    moreover have "td' < td" using Cons.IH [OF ms(1) cs(3)] True by linarith
    ultimately show ?thesis using Cons.IH [OF ms(1) cs(3)] ms(2) True by (simp add: cs(1) shares_def)
  next
    case False
    then obtain ms where ms: "give_pass td ns = (td', ms)" "ns' = n # ms" using Cons.prems(1) by (auto split: prod.splits)
    show ?thesis using Cons.IH [OF ms(1) cs(3)] ms(2) False cs(2) by (auto simp: cs(1) shares_def)
  qed
qed simp

lemma give_rest_ok:
  assumes "shares cs ns" and "n \<in> set ns" and "0 < n"
  shows "\<exists>ns'. give_rest td ns = Ok ns' \<and> shares cs ns' \<and> weights ns' = weights ns + td"
proof -
  let ?P = "\<lambda>(t, ms). shares cs ms \<and> (\<exists>n \<in> set ms. 0 < n) \<and> int (weights ms) + int t = int (weights ns) + int td"
  have "\<exists>x. while_option (\<lambda>(t, ms). 0 < t) (\<lambda>(t, ms). give_pass t ms) (td, ns) = Some x"
  proof (rule wf_rel_while_option_Some [where R = "measure fst" and P = ?P])
    show "((\<lambda>(t, ms). give_pass t ms) x, x) \<in> measure fst" if "?P x \<and> (\<lambda>(t, ms). 0 < t) x" for x
      using that give_pass_ok [of "fst x" "snd x" _ _ cs] by (cases "give_pass (fst x) (snd x)") (auto simp: split_beta)
    show "?P ((\<lambda>(t, ms). give_pass t ms) x)" if "?P x \<and> (\<lambda>(t, ms). 0 < t) x" for x
      using that give_pass_ok [of "fst x" "snd x" _ _ cs] by (cases "give_pass (fst x) (snd x)") (auto simp: split_beta)
  qed (use assms in auto)
  then obtain t ms where w: "while_option (\<lambda>(t, ms). 0 < t) (\<lambda>(t, ms). give_pass t ms) (td, ns) = Some (t, ms)" by auto
  have "?P (t, ms)"
    by (rule while_option_rule [OF _ w]) (use assms give_pass_ok in \<open>fastforce+\<close>)
  moreover have "t = 0" using while_option_stop [OF w] by simp
  ultimately show ?thesis using w by (auto simp: give_rest_def)
qed

text \<open>Scaling: the differences of the sums add up.\<close>

lemma m2_scale_ok:
  assumes "marks low cs ns" and "tmp + pending cs ns * r < 2 ^ 63" and "(tmp + pending cs ns * r) div 2 ^ v < 2 ^ 15"
    and "m2_scale v r tmp ns cs = Ok ns'"
  shows "shares cs ns' \<and> int (weights ns') = int (weights ns) + int ((tmp + pending cs ns * r) div 2 ^ v) - int (tmp div 2 ^ v)"
  using assms
proof (induction ns arbitrary: cs tmp ns')
  case (Cons n ns)
  obtain c ds where cs: "cs = c # ds" and m: "marked low c n" "marks low ds ns"
    using Cons.prems(1) by (auto simp: marks_def list_all2_Cons2)
  show ?case
  proof (cases "n = -2")
    case True
    define e where "e = tmp + c * r"
    have bound: "e + pending ds ns * r < 2 ^ 63" using Cons.prems(2) True by (simp add: cs e_def algebra_simps)
    have mono: "tmp div 2 ^ v \<le> e div 2 ^ v" "e div 2 ^ v \<le> (e + pending ds ns * r) div 2 ^ v"
      by (simp_all add: e_def div_le_mono)
    have e15: "(e + pending ds ns * r) div 2 ^ v < 2 ^ 15" using Cons.prems(3) True by (simp add: cs e_def algebra_simps)
    have "c * r < 2 ^ 64" "e < 2 ^ 64" using bound by (simp_all add: e_def)
    then have ew: "w64 (tmp + w64 (c * r)) = e" by (simp add: e_def)
    have "w32 (e div 2 ^ v) = e div 2 ^ v" "w32 (tmp div 2 ^ v) = tmp div 2 ^ v" using mono e15 by (simp_all add: w32_less)
    then have wt: "sub32 (w32 (e div 2 ^ v)) (w32 (tmp div 2 ^ v)) = e div 2 ^ v - tmp div 2 ^ v"
      using mono e15 by (simp add: sub32_eq)
    define x where "x = e div 2 ^ v - tmp div 2 ^ v"
    obtain ms where ms: "1 \<le> x" "m2_scale v r e ns ds = Ok ms" "ns' = sint (of_nat x :: 16 word) # ms"
      using Cons.prems(4) True by (auto simp: cs Let_def ew wt x_def check_that_eq_Ok cbind_eq_Ok)
    have "x < 2 ^ 15" using mono e15 by (simp add: x_def)
    then have s: "sint (of_nat x :: 16 word) = int x" by (rule short_nat_eq)
    have IH: "shares ds ms" "int (weights ms) = int (weights ns) + int ((e + pending ds ns * r) div 2 ^ v) - int (e div 2 ^ v)"
      using Cons.IH [OF m(2) bound e15 ms(2)] by simp_all
    have "c \<noteq> 0" using m(1) True by (auto simp: marked_def)
    moreover have "tmp + pending (c # ds) (n # ns) * r = e + pending ds ns * r" using True by (simp add: e_def algebra_simps)
    moreover have "int (weight (int x)) = int (e div 2 ^ v) - int (tmp div 2 ^ v)"
      using ms(1) mono by (simp add: weight_pos x_def of_nat_diff)
    ultimately show ?thesis using IH ms(1,3) s True by (simp add: cs shares_def share_def)
  next
    case False
    then obtain ms where ms: "m2_scale v r tmp ns ds = Ok ms" "ns' = n # ms"
      using Cons.prems(4) by (auto simp: cs cbind_eq_Ok)
    have "shares ds ms" "int (weights ms) = int (weights ns) + int ((tmp + pending ds ns * r) div 2 ^ v) - int (tmp div 2 ^ v)"
      using Cons.IH [OF m(2) _ _ ms(1)] Cons.prems(2,3) False by (simp_all add: cs)
    moreover have "share c n" using m(1) False by (auto simp: marked_def share_def)
    ultimately show ?thesis using ms(2) False by (simp add: cs shares_def)
  qed
qed (auto simp: marks_def shares_def)

section \<open>Enough states\<close>

lemma highbit_bounds:
  assumes "0 < x" and "x < 2 ^ 32"
  shows "2 ^ ZSTD_highbit32 (of_nat x) \<le> x" and "x < 2 ^ Suc (ZSTD_highbit32 (of_nat x))"
proof -
  obtain k where k: "2 ^ k \<le> x" "x < 2 ^ Suc k" using between_powers [OF assms(1)] by auto
  have "unat (of_nat x :: u32) = x" using assms(2) by (simp add: unsigned_of_nat take_bit_nat_eq_self)
  then have "ZSTD_highbit32 (of_nat x) = k" using k by (intro highbit32_eq) simp_all
  then show "2 ^ ZSTD_highbit32 (of_nat x) \<le> x" "x < 2 ^ Suc (ZSTD_highbit32 (of_nat x))" using k by simp_all
qed

text \<open>The smallest table allowed has more states than the source has symbols, or twice as many as the alphabet.\<close>

definition roomy :: "nat \<Rightarrow> nat list \<Rightarrow> bool" where
  "roomy L cs \<longleftrightarrow> 2 \<le> sum_list cs \<and> (sum_list cs < 2 ^ L \<or> 2 * length cs \<le> 2 ^ L)"

lemma minTableLog_roomy:
  assumes "FSE_minTableLog (sum_list cs) m = Ok k" and "k \<le> L" and "length cs = Suc m" and "sum_list cs < 2 ^ 31" and "m < 2 ^ 31"
  shows "roomy L cs"
proof -
  have pos: "2 \<le> sum_list cs" "0 < m" using assms(1) by (auto simp: FSE_minTableLog_def split: if_splits)
  have "sum_list cs < 2 ^ 32" "m < 2 ^ 32" "0 < sum_list cs" using assms(4,5) pos by simp_all
  note hs = highbit_bounds(2) [OF this(3,1)] and hm = highbit_bounds(2) [OF pos(2) this(2)]
  consider "ZSTD_highbit32 (of_nat (sum_list cs)) + 1 \<le> L" | "ZSTD_highbit32 (of_nat m) + 2 \<le> L"
    using assms(1,2) by (auto simp: FSE_minTableLog_def Let_def split: if_splits)
  then show ?thesis
  proof cases
    case 1
    then have "(2 :: nat) ^ Suc (ZSTD_highbit32 (of_nat (sum_list cs))) \<le> 2 ^ L" by (intro power_increasing) simp_all
    then have "sum_list cs < 2 ^ L" using hs by (rule less_le_trans [rotated])
    then show ?thesis using pos by (simp add: roomy_def)
  next
    case 2
    then have "(2 :: nat) ^ Suc (Suc (ZSTD_highbit32 (of_nat m))) \<le> 2 ^ L" by (intro power_increasing) simp_all
    then have "2 * Suc m \<le> 2 ^ L" using hm by simp
    then show ?thesis using pos assms(3) by (simp add: roomy_def)
  qed
qed

lemma sum_list_bound: "\<forall>c \<in> set cs. c \<le> q \<Longrightarrow> sum_list cs \<le> length cs * (q :: nat)"
  by (induction cs) auto

lemma roomy_large:
  assumes "roomy L cs"
  shows "\<exists>c \<in> set cs. sum_list cs div 2 ^ L < c"
proof (rule ccontr)
  let ?q = "sum_list cs div 2 ^ L"
  assume "\<not> ?thesis"
  then have "\<forall>c \<in> set cs. c \<le> ?q" by auto
  then have le: "sum_list cs \<le> length cs * ?q" by (rule sum_list_bound)
  show False
  proof (cases "sum_list cs < 2 ^ L")
    case True
    then have "?q = 0" by simp
    then have "sum_list cs \<le> 0" using le by (simp only: mult_0_right)
    then show False using assms by (simp add: roomy_def del: sum_list_eq_0_iff)
  next
    case False
    then have "2 * length cs * ?q \<le> 2 ^ L * ?q" using assms by (intro mult_le_mono1) (simp add: roomy_def)
    also have "\<dots> \<le> sum_list cs" by simp
    finally show False using le assms by (simp add: roomy_def)
  qed
qed

lemma few_used:
  assumes "roomy L cs"
  shows "length (filter (\<lambda>c. c \<noteq> 0) cs) < 2 ^ L"
proof -
  have "length (filter (\<lambda>c. c \<noteq> 0) cs) \<le> sum_list cs" by (induction cs) auto
  moreover have "length (filter (\<lambda>c. c \<noteq> 0) cs) \<le> length cs" by simp
  moreover have "0 < (2 :: nat) ^ L" by simp
  then have "length cs < 2 ^ L \<or> sum_list cs < 2 ^ L" using assms unfolding roomy_def by linarith
  ultimately show ?thesis by linarith
qed

section \<open>The secondary method fills the table\<close>

lemma marks_full: "marks low cs ns \<Longrightarrow> weights ns \<le> length cs \<and> (weights ns = length cs \<longrightarrow> pending cs ns = 0)"
  unfolding marks_def
proof (induction rule: list_all2_induct)
  case (Cons c cs n ns)
  then have "weight n \<le> 1" "n = -2 \<Longrightarrow> weight n = 0" by (auto simp: marked_def)
  then show ?case using Cons.IH by auto
qed simp

lemma marks_large:
  assumes "marks low cs ns" and "pending cs ns = 0" and "i < length cs" and "low < cs ! i"
  shows "ns ! i = 1"
proof -
  have "marked low (cs ! i) (ns ! i)" using assms(1,3) by (simp add: marks_def list_all2_nthD)
  moreover have "share (cs ! i) (ns ! i)" using shares_nth [OF marks_shares [OF assms(1,2)] assms(3)] .
  ultimately show ?thesis using assms(4) by (auto simp: marked_def share_def)
qed

lemma scale_total:
  fixes T rest :: nat
  assumes "0 < T" and "T \<le> 2 ^ L" and "0 < rest" and "rest < 2 ^ 31" and "L \<le> 12"
  defines "v \<equiv> 62 - L" and "mid \<equiv> 2 ^ (61 - L) - (1 :: nat)"
  defines "r \<equiv> (2 ^ v * T + mid) div rest"
  shows "2 ^ v * T + mid < 2 ^ 63" and "mid + rest * r < 2 ^ 63" and "(mid + rest * r) div 2 ^ v = T" and "mid div 2 ^ v = 0"
proof -
  have v: "v = Suc (61 - L)" using assms(5) by (simp add: v_def)
  have "1 \<le> (2 :: nat) ^ (61 - L)" by simp
  then have two: "2 * mid + 2 = 2 ^ v" unfolding v mid_def power_Suc by linarith
  have "2 ^ v * T \<le> 2 ^ v * 2 ^ L" using assms(2) by simp
  also have "\<dots> = 2 ^ 62" using assms(5) by (simp add: v_def flip: power_add)
  finally have top: "2 ^ v * T \<le> 2 ^ 62" .
  have "(2 :: nat) ^ v \<le> 2 ^ 62" by (intro power_increasing) (simp_all add: v_def)
  then have mid: "2 * mid + 2 \<le> 2 ^ 62" using two by simp
  then show "2 ^ v * T + mid < 2 ^ 63" using top by simp
  have all: "rest * r + (2 ^ v * T + mid) mod rest = 2 ^ v * T + mid" unfolding r_def by (rule mult_div_mod_eq)
  moreover have md: "(2 ^ v * T + mid) mod rest < rest" using assms(3) by simp
  ultimately show "mid + rest * r < 2 ^ 63" using top mid by simp
  have "(2 :: nat) ^ 31 \<le> 2 ^ v" using assms(5) by (intro power_increasing) (simp_all add: v_def)
  then have "2 ^ v * T \<le> mid + rest * r" using all md two assms(4) by linarith
  moreover have "mid + rest * r < 2 ^ v * Suc T" using all two by simp
  ultimately show "(mid + rest * r) div 2 ^ v = T" by (intro div_nat_eqI) (simp_all add: mult.commute)
  show "mid div 2 ^ v = 0" using two by simp
qed

lemma m2_end:
  assumes m: "marks (sum_list cs div 2 ^ L) cs ns" and d: "d = weights ns" and t: "t = pending cs ns" and T: "T = 2 ^ L - d" "0 < T"
    and roomy: "roomy L cs" and small: "sum_list cs < 2 ^ 31" "L \<le> 12"
    and res: "(if d = length cs then
          let maxV = find_max 0 (0, 0) cs in Ok (ns[maxV := ns ! maxV + sint (of_nat T :: 16 word)])
        else if t = 0 then give_rest T ns
        else if w32 t = 0 then Fault
        else let vStepLog = 62 - L; mid = 2 ^ (vStepLog - 1) - 1; rStep = w64 (w64 (2 ^ vStepLog * T) + mid) div w32 t
          in m2_scale vStepLog rStep mid ns cs) = Ok ns'"
  shows "shares cs ns' \<and> weights ns' = 2 ^ L"
proof -
  obtain i where i: "i < length cs" "sum_list cs div 2 ^ L < cs ! i"
    using roomy_large [OF roomy] by (auto simp: in_set_conv_nth)
  have T12: "T \<le> 2 ^ L" "T + weights ns = 2 ^ L" using T d by simp_all
  have "(2 :: nat) ^ L \<le> 2 ^ 12" using small(2) by (intro power_increasing) simp_all
  then have T15: "T < 2 ^ 15" using T12(1) by simp
  consider (full) "d = length cs" | (none) "d \<noteq> length cs" "t = 0" | (scale) "d \<noteq> length cs" "t \<noteq> 0" by blast
  then show ?thesis
  proof cases
    case full
    define j where "j = find_max 0 (0, 0) cs"
    have "cs ! i \<in> set cs" "0 < cs ! i" using i by simp_all
    then have j: "j < length cs" "cs ! i \<le> cs ! j"
      using find_max_ok [OF j_def [symmetric]] by auto
    have p: "pending cs ns = 0" using marks_full [OF m] full d by simp
    have one: "ns ! j = 1" using marks_large [OF m p j(1)] i(2) j(2) by simp
    have sh: "shares cs ns" by (rule marks_shares [OF m p])
    have ns': "ns' = ns[j := 1 + int T]"
      using res full one short_nat_eq [OF T15] by (simp add: Let_def j_def)
    have "int (weights ns') = int (weights ns) + int T"
      unfolding ns' using weights_update [of j ns "1 + int T"] j(1) shares_length [OF sh] one by (simp add: weight_pos)
    then have "weights ns' = 2 ^ L" using T12(2) by linarith
    moreover have "shares cs ns'" unfolding ns' using i(2) j T(2) by (intro shares_update [OF sh]) simp_all
    ultimately show ?thesis by blast
  next
    case none
    have p: "pending cs ns = 0" using none(2) t by simp
    have sh: "shares cs ns" by (rule marks_shares [OF m p])
    have "ns ! i \<in> set ns" using i(1) shares_length [OF sh] by (intro nth_mem) simp
    moreover have "0 < ns ! i" using marks_large [OF m p i] by simp
    ultimately obtain ms where "give_rest T ns = Ok ms" "shares cs ms" "weights ms = weights ns + T"
      using give_rest_ok [OF sh] by blast
    then show ?thesis using res none T12(2) by simp
  next
    case scale
    have t31: "0 < t" "t < 2 ^ 31" using scale(2) t pending_le [of cs ns] small(1) by linarith+
    note st = scale_total [OF T(2) T12(1) t31 small(2)]
    have "w32 t = t" using t31(2) by (intro w32_less) simp
    moreover have "w64 (2 ^ (62 - L) * T) = 2 ^ (62 - L) * T" using st(1) by (intro w64_less) simp
    moreover have "w64 (2 ^ (62 - L) * T + (2 ^ (61 - L) - 1)) = 2 ^ (62 - L) * T + (2 ^ (61 - L) - 1)"
      using st(1) by (intro w64_less) simp
    ultimately have r: "m2_scale (62 - L) ((2 ^ (62 - L) * T + (2 ^ (61 - L) - 1)) div t) (2 ^ (61 - L) - 1) ns cs = Ok ns'"
      using res scale t31(1) by (simp add: Let_def)
    have "shares cs ns' \<and> int (weights ns') = int (weights ns) + int T - int 0"
      using m2_scale_ok [OF m _ _ r, unfolded t [symmetric] st(3,4)] st(2) T15 by blast
    then show ?thesis using T12(2) by simp
  qed
qed

lemma normalizeM2_ok:
  assumes "FSE_normalizeM2 L cs (sum_list cs) lp = Ok ns" and "lp = -1 \<or> lp = 1"
    and "roomy L cs" and "sum_list cs < 2 ^ 31" and "L \<le> 12"
  shows "shares cs ns \<and> weights ns = 2 ^ L"
proof -
  have "sum_list cs div 2 ^ L < 2 ^ 31" using assms(4) le_less_trans [OF div_le_dividend] by blast
  then have low: "w32 (sum_list cs div 2 ^ L) = sum_list cs div 2 ^ L" by (intro w32_less) simp
  define lowOne where "lowOne = w32 (w64 (sum_list cs * 3) div 2 ^ (L + 1))"
  obtain n1 d1 t1 where 1: "m2_first (sum_list cs div 2 ^ L) lowOne lp cs (0, sum_list cs) = (n1, d1, t1)"
    using prod_cases3 by blast
  have f: "marks (sum_list cs div 2 ^ L) cs n1" "d1 = weights n1" "t1 = pending cs n1"
    using m2_first_ok [OF assms(2) 1 order_refl] by simp_all
  have pow: "(2 :: nat) ^ L < 2 ^ 32" using assms(5) by (intro power_strict_increasing) simp_all
  have sub: "sub32 (2 ^ L) (weights ms) = 2 ^ L - weights ms" "0 < 2 ^ L - weights ms" if "marks (sum_list cs div 2 ^ L) cs ms" for ms
    using marks_weights [OF that] few_used [OF assms(3)] pow by (auto intro!: sub32_eq)
  define T1 where "T1 = 2 ^ L - d1"
  have T1: "sub32 (2 ^ L) d1 = T1" "T1 \<noteq> 0" using sub [OF f(1)] f(2) by (simp_all add: T1_def)
  define again where "again = (lowOne < t1 div T1)"
  define lowOne2 where "lowOne2 = w32 (w64 (t1 * 3) div w32 (T1 * 2))"
  obtain n2 d2 t2 where 2: "(if again then m2_second lowOne2 n1 cs (d1, t1) else (n1, d1, t1)) = (n2, d2, t2)"
    using prod_cases3 by blast
  have g: "marks (sum_list cs div 2 ^ L) cs n2" "d2 = weights n2" "t2 = pending cs n2"
  proof -
    have "marks (sum_list cs div 2 ^ L) cs n2 \<and> d2 = weights n2 \<and> t2 = pending cs n2"
    proof (cases again)
      case True
      then have "m2_second lowOne2 n1 cs (d1, t1) = (n2, d2, t2)" using 2 by simp
      from m2_second_ok [OF f(1) this] f(2,3) show ?thesis by simp
    next
      case False
      then have "n2 = n1 \<and> d2 = d1 \<and> t2 = t1" using 2 by simp
      then show ?thesis using f by blast
    qed
    then show "marks (sum_list cs div 2 ^ L) cs n2" "d2 = weights n2" "t2 = pending cs n2" by simp_all
  qed
  define T2 where "T2 = 2 ^ L - d2"
  have T2: "(if again then sub32 (2 ^ L) d2 else T1) = T2" "0 < T2"
    using sub [OF g(1), folded g(2)] 2 by (cases again, simp_all add: T1_def T2_def)
  note unfolded = assms(1) [unfolded FSE_normalizeM2_def Let_def low, folded lowOne_def,
      unfolded 1 prod.case T1(1) if_not_P [OF T1(2)], folded again_def lowOne2_def, unfolded 2 prod.case T2(1)]
  show ?thesis
    by (rule m2_end [OF g T2_def T2(2) assms(3-5)]) (use unfolded in \<open>simp only: Let_def\<close>)
qed

section \<open>Normalization fills the table\<close>

lemma normalize_shares:
  assumes "FSE_normalizeCount prev L cs tot m lowProb = Ok (L', ns)" and "L' \<noteq> 0"
    and "length cs = Suc m" and "sum_list cs = tot" and "tot < 2 ^ 31" and "m \<le> 255"
  shows "L' = (if L = 0 then FSE_DEFAULT_TABLELOG else L) \<and> 5 \<le> L' \<and> L' \<le> FSE_MAX_TABLELOG
    \<and> shares cs (take (Suc m) ns) \<and> weights (take (Suc m) ns) = 2 ^ L'"
proof -
  define K where "K = (if L = 0 then FSE_DEFAULT_TABLELOG else L)"
  define lp :: int where "lp = (if lowProb then -1 else 1)"
  obtain k where k: "5 \<le> K" "K \<le> FSE_MAX_TABLELOG" "FSE_minTableLog tot m = Ok k" "k \<le> K" "Suc m \<le> length prev"
    using assms(1,3) by (auto simp: FSE_normalizeCount_def Let_def K_def [symmetric] check_that_eq_Ok cbind_eq_Ok FSE_MIN_TABLELOG_def not_less split: if_splits)
  have K12: "K \<le> 12" using k(2) by (simp add: FSE_MAX_TABLELOG_def)
  have lp: "lp = -1 \<or> lp = 1" by (simp add: lp_def)
  have "m < 2 ^ 31" using assms(6) by (rule le_less_trans) simp
  then have roomy: "roomy K cs"
    using minTableLog_roomy [of cs m k K] k(3,4) assms(3-5) by simp
  have tot32: "tot < 2 ^ 32" using assms(5) by simp
  have "tot div 2 ^ K < 2 ^ 32" using tot32 by (rule le_less_trans [OF div_le_dividend])
  note w = w32_less [OF tot32] w32_less [OF this]
  let ?st = "\<lparr>ns_norm = [], ns_still = 2 ^ K, ns_largest = 0, ns_largestP = 0\<rparr>"
  obtain st where st: "norm_loop tot (62 - K) (2 ^ 62 div tot) (tot div 2 ^ K) lp cs ?st = Ok (st, False)"
    and res: "(if (ns_norm st @ drop (length (ns_norm st)) prev) ! ns_largest st div 2 \<le> - ns_still st then
        cbind (FSE_normalizeM2 K cs tot lp) (\<lambda>ns. Ok (K, ns @ drop (m + 1) prev))
      else Ok (K, (ns_norm st @ drop (length (ns_norm st)) prev)
        [ns_largest st := (ns_norm st @ drop (length (ns_norm st)) prev) ! ns_largest st + ns_still st])) = Ok (L', ns)"
    using assms(1,2,3) k by (auto simp: FSE_normalizeCount_def Let_def K_def [symmetric] lp_def [symmetric] w check_that_eq_Ok cbind_eq_Ok
      split: if_splits)
  have "loop_ok K [] ?st" by (simp add: loop_ok_def largest_ok_def shares_def)
  moreover have "\<forall>c \<in> set cs. c \<le> tot" using assms(4) member_le_sum_list by blast
  ultimately have lo: "loop_ok K cs st" "0 < ns_largestP st"
    using norm_loop_ok [OF _ _ assms(5) K12 lp st, of "[]"] roomy_large [OF roomy] assms(4) by auto
  then have sh: "shares cs (ns_norm st)" "ns_still st = 2 ^ K - int (weights (ns_norm st))"
    and la: "ns_largest st < length (ns_norm st)" "ns_norm st ! ns_largest st = ns_largestP st"
    by (auto simp: loop_ok_def largest_ok_def)
  have len: "length (ns_norm st) = Suc m" using shares_length [OF sh(1)] assms(3) by simp
  have at: "(ns_norm st @ drop (length (ns_norm st)) prev) ! ns_largest st = ns_largestP st" using la by (simp add: nth_append)
  have "shares cs (take (Suc m) ns) \<and> weights (take (Suc m) ns) = 2 ^ K \<and> L' = K"
  proof (cases "ns_largestP st div 2 \<le> - ns_still st")
    case True
    then obtain ms where ms: "FSE_normalizeM2 K cs (sum_list cs) lp = Ok ms" "ns = ms @ drop (m + 1) prev" "L' = K"
      using res assms(4) unfolding at by (auto simp: cbind_eq_Ok)
    have "sum_list cs < 2 ^ 31" using assms(4,5) by simp
    then have "shares cs ms \<and> weights ms = 2 ^ K" using normalizeM2_ok [OF ms(1) lp roomy _ K12] by simp
    moreover from this have "length ms = Suc m" using shares_length assms(3) by fastforce
    ultimately show ?thesis using ms(2,3) by simp
  next
    case False
    let ?p = "ns_largestP st + ns_still st"
    have p: "1 \<le> ?p" using False lo(2) by linarith
    have ns: "take (Suc m) ns = (ns_norm st)[ns_largest st := ?p]" "L' = K"
      using res False la len unfolding at by (auto simp: list_update_append1)
    have "cs ! ns_largest st \<noteq> 0"
      using shares_nth [OF sh(1), of "ns_largest st"] la len lo(2) assms(3) by (auto simp: share_def split: if_splits)
    then have "shares cs (take (Suc m) ns)"
      unfolding ns using shares_update [OF sh(1)] la(1) len assms(3) p by simp
    moreover have "int (weights (take (Suc m) ns)) = 2 ^ K"
      unfolding ns(1) weights_update [OF la(1)] la(2) using weight_pos [OF p] weight_pos [of "ns_largestP st"] lo(2) sh(2) by simp
    ultimately show ?thesis using ns(2) by (metis of_nat_eq_iff of_nat_numeral of_nat_power)
  qed
  then show ?thesis using k(1,2) by (auto simp: K_def)
qed

text \<open>C36: normalization fills the table: whichever method it takes, with or without symbols of low probability, the
  counts it leaves add up to exactly the size of the table, none is below -1, and a symbol has a count if and
  only if it occurs.\<close>

theorem normalize_fills_table:
  assumes "FSE_normalizeCount prev L cs tot m lowProb = Ok (L', ns)" and "L' \<noteq> 0"
    and "length cs = Suc m" and "sum_list cs = tot" and "tot < 2 ^ 31" and "m \<le> 255"
  shows "norm_ok L' (take (Suc m) ns) \<and> (\<forall>s \<le> m. ns ! s = 0 \<longleftrightarrow> cs ! s = 0)"
proof -
  note n = normalize_shares [OF assms]
  have "ns ! s = 0 \<longleftrightarrow> cs ! s = 0" if "s \<le> m" for s
  proof -
    have "share (cs ! s) (take (Suc m) ns ! s)" using n that assms(3) by (intro shares_nth) simp_all
    then show ?thesis using that by (auto simp: share_def split: if_splits)
  qed
  moreover have "norm_ok L' (take (Suc m) ns)" using n assms(3,6) by (intro shares_norm_ok [of cs]) simp_all
  ultimately show ?thesis by blast
qed

lemma normalize_fills_table_witness:
  "norm_ok 6 [3, 0, -1, -1, 57, 2] \<and> FSE_normalizeCount (replicate 6 0) 6 [10, 0, 3, 1, 200, 5] 219 5 True = Ok (6, [3, 0, -1, -1, 57, 2])"
proof -
  have h1: "ZSTD_highbit32 219 = 7" and h2: "ZSTD_highbit32 5 = 2" by code_simp+
  have r: "FSE_normalizeCount (replicate 6 0) 6 [10, 0, 3, 1, 200, 5] 219 5 True = Ok (6, [3, 0, -1, -1, 57, 2])"
    by (simp add: FSE_normalizeCount_def FSE_minTableLog_def Let_def check_that_def w32_def w64_def proba_of_def rtbTable_def
      FSE_MIN_TABLELOG_def FSE_MAX_TABLELOG_def h1 h2)
  show ?thesis using normalize_fills_table [OF r] r by simp
qed

end
