(* ===== verification/Zstd_NCountProofs.thy ===== *)
theory Zstd_NCountProofs
  imports Zstd_NCount Zstd_FSENormalize Zstd_BitstreamProofs
begin

text \<open>
  The header of an FSE block reads back: the counts are coded as a list of fields, each as wide as what is left to
  distribute needs, which the writer puts out from the first to the last and the reader takes in the same
  order, four bytes at a time.
\<close>

unbundle bit_operations_syntax

section \<open>The fields of a header\<close>

text \<open>A run of zeros is a sequence of pairs of bits, the last of them below 3.\<close>

definition pair_fields :: "nat \<Rightarrow> (nat \<times> nat) list" where
  "pair_fields n = replicate (n div 3) (3, 2) @ [(n mod 3, 2)]"

text \<open>The counts from the next one on, with what is left to distribute between 2 to the power of \<open>k\<close> and twice that;
  \<open>True\<close> says that the last count was zero.\<close>

inductive coded :: "bool \<Rightarrow> nat \<Rightarrow> nat \<Rightarrow> int list \<Rightarrow> (nat \<times> nat) list \<Rightarrow> bool" where
  End: "coded p 1 0 [] []"
| Count: "\<lbrakk>2 ^ k \<le> rem; rem < 2 ^ Suc k; 2 \<le> rem; -1 \<le> c; nat \<bar>c\<bar> + 1 \<le> rem; coded (c = 0) (rem - nat \<bar>c\<bar>) k' cs fs\<rbrakk>
    \<Longrightarrow> coded False rem k (c # cs) (count_code rem (2 ^ k) (k + 1) c # fs)"
| Zeros: "\<lbrakk>coded False rem k (c # cs) fs; c \<noteq> 0\<rbrakk> \<Longrightarrow> coded True rem k (replicate n 0 @ c # cs) (pair_fields n @ fs)"

lemma coded_bounds: "coded p rem k cs fs \<Longrightarrow> 2 ^ k \<le> rem \<and> rem < 2 ^ Suc k"
  by (induction rule: coded.induct) auto

lemma coded_nonempty: "coded p rem k cs fs \<Longrightarrow> rem \<noteq> 1 \<Longrightarrow> cs \<noteq> [] \<and> fs \<noteq> []"
  by (induction rule: coded.induct) auto

lemma count_code_fits:
  assumes "2 ^ k \<le> rem" and "rem < 2 ^ Suc k" and "-1 \<le> c" and "nat \<bar>c\<bar> + 1 \<le> rem" and "count_code rem (2 ^ k) (k + 1) c = (v, n)"
  shows "v < 2 ^ n" and "n \<le> k + 1" and "k \<le> n"
proof -
  define most where "most = 2 * 2 ^ k - 1 - rem"
  have most: "rem + most + 1 = 2 * 2 ^ k" "most < 2 ^ k" using assms(1,2) by (simp_all add: most_def)
  have c: "nat (c + 1) \<le> rem" using assms(3,4) by linarith
  have vn: "v = (if 2 ^ k \<le> nat (c + 1) then nat (c + 1) + most else nat (c + 1))" "n = k + 1 - of_bool (v < most)"
    using assms(5) unfolding count_code_def Let_def most_def [symmetric] by auto
  define x where "x = nat (c + 1)"
  show "v < 2 ^ n" using most c vn unfolding x_def [symmetric] by (auto split: if_splits)
  show "n \<le> k + 1" "k \<le> n" using vn(2) by simp_all
qed

section \<open>Writing\<close>

definition writes :: "(nat \<times> nat) list \<Rightarrow> ncount_writer \<Rightarrow> bool" where
  "writes fs w \<longleftrightarrow> fields_fit fs \<and> unat (nw_bitStream w) < 2 ^ nw_bitCount w \<and> nw_bitCount w \<le> 32 \<and> nw_out w \<le> length (nw_buf w)
     \<and> stream_width fs = 8 * nw_out w + nw_bitCount w
     \<and> stream_number fs = le_nat (take (nw_out w) (nw_buf w)) + 256 ^ nw_out w * unat (nw_bitStream w)"

lemma unat_add_shifted:
  fixes b :: u32
  assumes "unat b < 2 ^ p" and "v < 2 ^ n" and "p + n \<le> 32"
  shows "unat (b + push_bit p (of_nat v)) = unat b + 2 ^ p * v" and "unat b + 2 ^ p * v < 2 ^ (p + n)"
proof -
  have "2 ^ p * Suc v \<le> 2 ^ p * 2 ^ n" using assms(2) by (intro mult_le_mono2) simp
  then show l: "unat b + 2 ^ p * v < 2 ^ (p + n)" using assms(1) by (simp add: power_add)
  also have "(2 :: nat) ^ (p + n) \<le> 2 ^ 32" using assms(3) by (intro power_increasing) simp_all
  finally have s: "unat b + 2 ^ p * v < 2 ^ LENGTH(32)" by simp
  have "b + push_bit p (of_nat v) = of_nat (unat b + 2 ^ p * v)" by (simp add: push_bit_eq_mult mult.commute)
  then show "unat (b + push_bit p (of_nat v)) = unat b + 2 ^ p * v"
    using s by (simp only: unsigned_of_nat take_bit_nat_eq_self of_nat_id)
qed

lemma writes_add:
  assumes "writes fs w" and "v < 2 ^ n" and "nw_bitCount w + n \<le> 32"
  shows "writes (fs @ [(v, n)]) (add_bits v n w)"
proof -
  have b: "unat (nw_bitStream w) < 2 ^ nw_bitCount w" using assms(1) by (simp add: writes_def)
  note u = unat_add_shifted [OF b assms(2,3)]
  have "2 ^ stream_width fs * v = 256 ^ nw_out w * (2 ^ nw_bitCount w * v)"
    using assms(1) by (simp add: writes_def power_add pow256)
  then show ?thesis
    using assms u by (simp add: writes_def add_bits_def fields_fit_def distrib_left)
qed

lemma unat_drop_bit_u32: "unat (drop_bit n (b :: u32)) = unat b div 2 ^ n"
  by (subst unat_drop_bit_eq) (rule drop_bit_eq_div)

lemma le_nat_two: "le_nat [ucast (b :: u32), ucast (drop_bit 8 b)] = unat b mod 2 ^ 16"
proof -
  have u: "unat (ucast x :: u8) = unat x mod 2 ^ 8" for x :: u32 by (simp add: unsigned_ucast_eq take_bit_eq_mod)
  have "unat (ucast (drop_bit 8 b) :: u8) = unat b div 2 ^ 8 mod 2 ^ 8" "unat (ucast b :: u8) = unat b mod 2 ^ 8"
    by (simp_all only: u unat_drop_bit_u32)
  moreover have "unat b mod 2 ^ 16 = unat b mod (2 ^ 8 * 2 ^ 8)" by simp
  then have "unat b mod 2 ^ 16 = 2 ^ 8 * (unat b div 2 ^ 8 mod 2 ^ 8) + unat b mod 2 ^ 8" by (simp only: mod_mult2_eq)
  ultimately show ?thesis by simp
qed

text \<open>Two bytes put out are the low bits of the register.\<close>

lemma put16_ok:
  assumes "put16 safe w = Ok w'"
  shows "nw_out w + 2 \<le> length (nw_buf w)" and "length (nw_buf w') = length (nw_buf w)" and "nw_out w' = nw_out w + 2"
    and "nw_bitStream w' = drop_bit 16 (nw_bitStream w)" and "nw_bitCount w' = nw_bitCount w"
    and "le_nat (take (nw_out w + 2) (nw_buf w')) = le_nat (take (nw_out w) (nw_buf w)) + 256 ^ nw_out w * (unat (nw_bitStream w) mod 2 ^ 16)"
proof -
  show l: "nw_out w + 2 \<le> length (nw_buf w)" and "length (nw_buf w') = length (nw_buf w)" and "nw_out w' = nw_out w + 2"
    and "nw_bitStream w' = drop_bit 16 (nw_bitStream w)" and "nw_bitCount w' = nw_bitCount w"
    using assms by (auto simp: put16_def check_that_eq_Ok split: if_splits)
  have "take (nw_out w + 2) (nw_buf w') = take (nw_out w) (nw_buf w) @ [ucast (nw_bitStream w), ucast (drop_bit 8 (nw_bitStream w))]"
    using assms l by (auto simp: put16_def check_that_eq_Ok take_Suc_conv_app_nth numeral_2_eq_2 split: if_splits)
  then show "le_nat (take (nw_out w + 2) (nw_buf w')) = le_nat (take (nw_out w) (nw_buf w)) + 256 ^ nw_out w * (unat (nw_bitStream w) mod 2 ^ 16)"
    using l by (simp add: le_nat_append le_nat_two del: le_nat.simps)
qed

lemma writes_put16:
  assumes "writes fs w" and "16 \<le> nw_bitCount w" and "put16 safe w = Ok w'"
  shows "writes fs (w'\<lparr>nw_bitCount := nw_bitCount w - 16\<rparr>)"
proof -
  note p = put16_ok [OF assms(3)]
  let ?b = "unat (nw_bitStream w)"
  note u = unat_drop_bit_u32 [of 16 "nw_bitStream w"]
  have "2 ^ nw_bitCount w = (2 :: nat) ^ 16 * 2 ^ (nw_bitCount w - 16)" using assms(2) by (simp only: flip: power_add) simp
  then have "?b < 2 ^ (nw_bitCount w - 16) * 2 ^ 16" using assms(1) by (simp add: writes_def mult.commute)
  then have "?b div 2 ^ 16 < 2 ^ (nw_bitCount w - 16)" by (rule less_mult_imp_div_less)
  moreover have "256 ^ nw_out w * ?b = 256 ^ nw_out w * (?b mod 2 ^ 16) + 256 ^ (nw_out w + 2) * (?b div 2 ^ 16)"
  proof -
    have "?b = ?b mod 2 ^ 16 + 2 ^ 16 * (?b div 2 ^ 16)" by (rule mod_mult_div_eq [symmetric])
    then have "256 ^ nw_out w * ?b = 256 ^ nw_out w * (?b mod 2 ^ 16 + 2 ^ 16 * (?b div 2 ^ 16))" by simp
    then show ?thesis by (simp only: distrib_left power_add) simp
  qed
  ultimately show ?thesis
    using assms(1,2) p u by (simp add: writes_def le_diff_conv)
qed

lemma writes_flush16:
  assumes "writes fs w" and "flush16 safe w = Ok w'"
  shows "writes fs w' \<and> nw_bitCount w' \<le> 16"
proof (cases "16 < nw_bitCount w")
  case True
  then obtain w1 where w1: "put16 safe w = Ok w1" "w' = w1\<lparr>nw_bitCount := nw_bitCount w1 - 16\<rparr>"
    using assms(2) by (auto simp: flush16_def cbind_eq_Ok)
  have "nw_bitCount w \<le> 32" using assms(1) by (simp add: writes_def)
  then show ?thesis using writes_put16 [OF assms(1) _ w1(1)] True w1(2) put16_ok(5) [OF w1(1)] by simp
qed (use assms in \<open>simp add: flush16_def\<close>)

lemma stream_append:
  "stream_width (fs @ gs) = stream_width fs + stream_width gs"
  "stream_number (fs @ gs) = stream_number fs + 2 ^ stream_width fs * stream_number gs"
  by (induction fs rule: stream_width.induct) (auto simp: power_add algebra_simps)

lemma replicate_eight:
  assumes "writes (fs @ [(0xFFFF, 16)]) w"
  shows "writes (fs @ replicate 8 (3, 2)) w"
proof -
  have "replicate 8 (3 :: nat, 2 :: nat) = [(3, 2), (3, 2), (3, 2), (3, 2), (3, 2), (3, 2), (3, 2), (3, 2)]" by code_simp
  then show ?thesis using assms by (auto simp: writes_def stream_append fields_fit_def)
qed

lemma writes_ffff:
  assumes "writes fs w" and "nw_bitCount w \<le> 16" and "put16 safe (add_bits 0xFFFF 0 w) = Ok w'"
  shows "writes (fs @ replicate 8 (3, 2)) w' \<and> nw_bitCount w' = nw_bitCount w"
proof -
  let ?w = "add_bits 0xFFFF 16 w"
  have w: "writes (fs @ [(0xFFFF, 16)]) ?w" by (rule writes_add [OF assms(1)]) (use assms(2) in simp_all)
  have "add_bits 0xFFFF 0 w = ?w\<lparr>nw_bitCount := nw_bitCount w\<rparr>" by (simp add: add_bits_def)
  then obtain w1 where w1: "put16 safe ?w = Ok w1" "w' = w1\<lparr>nw_bitCount := nw_bitCount w\<rparr>"
    using assms(3) by (auto simp: put16_def check_that_eq_Ok split: if_splits)
  have "writes (fs @ [(0xFFFF, 16)]) (w1\<lparr>nw_bitCount := nw_bitCount ?w - 16\<rparr>)"
    by (rule writes_put16 [OF w _ w1(1)]) (simp add: add_bits_def)
  then show ?thesis using replicate_eight [of fs w'] by (simp add: w1(2) add_bits_def)
qed

lemma write_zeros_writes:
  assumes "writes fs w" and "if n < 24 then nw_bitCount w + 2 * (n div 3) + 2 \<le> 32 else nw_bitCount w \<le> 16"
    and "write_zeros safe n w = Ok w'"
  shows "writes (fs @ pair_fields n) w'"
  using assms
proof (induction safe n w arbitrary: fs rule: write_zeros.induct)
  case (1 safe n w)
  consider "24 \<le> n" | "n < 24" "3 \<le> n" | "n < 3" by linarith
  then show ?case
  proof cases
    case 1
    then obtain w1 where w1: "put16 safe (add_bits 0xFFFF 0 w) = Ok w1" "write_zeros safe (n - 24) w1 = Ok w'"
      using "1.prems"(3) by (auto simp: write_zeros.simps [of safe n] cbind_eq_Ok)
    have f: "writes (fs @ replicate 8 (3, 2)) w1" "nw_bitCount w1 \<le> 16"
      using writes_ffff [OF "1.prems"(1) _ w1(1)] "1.prems"(2) 1 by auto
    have "if n - 24 < 24 then nw_bitCount w1 + 2 * ((n - 24) div 3) + 2 \<le> 32 else nw_bitCount w1 \<le> 16"
      using f(2) div_le_mono [of "n - 24" 23 3] by auto
    moreover have "replicate 8 (3, 2) @ pair_fields (n - 24) = pair_fields n"
    proof -
      have "n = (n - 24) + 8 * 3" using 1 by simp
      then have "n div 3 = 8 + (n - 24) div 3" "n mod 3 = (n - 24) mod 3" by (metis add.commute div_mult_self3 zero_neq_numeral, metis mod_mult_self3 add.commute)
      then show ?thesis by (simp only: pair_fields_def replicate_add append_assoc)
    qed
    ultimately show ?thesis using "1.IH"(1) [OF 1 f(1) _ w1(2)] by simp
  next
    case 2
    then have r: "write_zeros safe (n - 3) (add_bits 3 2 w) = Ok w'" using "1.prems"(3) by (simp add: write_zeros.simps [of safe n])
    have d: "n div 3 = Suc ((n - 3) div 3)" "n mod 3 = (n - 3) mod 3" using 2 by (simp_all add: le_div_geq le_mod_geq)
    have "writes (fs @ [(3, 2)]) (add_bits 3 2 w)" using writes_add [OF "1.prems"(1), of 3 2] "1.prems"(2) 2 by simp
    moreover have "if n - 3 < 24 then nw_bitCount (add_bits 3 2 w) + 2 * ((n - 3) div 3) + 2 \<le> 32 else nw_bitCount (add_bits 3 2 w) \<le> 16"
      using "1.prems"(2) 2 d by (auto simp: add_bits_def)
    ultimately have "writes ((fs @ [(3, 2)]) @ pair_fields (n - 3)) w'" using "1.IH"(2) [OF _ _ _ _ r] 2 by (metis not_less)
    then show ?thesis by (simp add: pair_fields_def d)
  next
    case 3
    then have "w' = add_bits n 2 w" using "1.prems"(3) by (simp add: write_zeros.simps [of safe n])
    then show ?thesis using writes_add [OF "1.prems"(1), of n 2] "1.prems"(2) 3 by (simp add: pair_fields_def)
  qed
qed

text \<open>What is left is one more than the states of the counts that follow, and the last of them is not zero.\<close>

definition fair :: "nat \<Rightarrow> int list \<Rightarrow> bool" where
  "fair rem cs \<longleftrightarrow> (\<forall>c \<in> set cs. -1 \<le> c) \<and> rem = sum_list (map weight cs) + 1 \<and> (cs \<noteq> [] \<longrightarrow> last cs \<noteq> 0)"

lemma weight_abs: "-1 \<le> c \<Longrightarrow> weight c = nat \<bar>c\<bar>"
  by (auto simp: weight_def)

lemma fair_rem: "fair rem cs \<Longrightarrow> cs \<noteq> [] \<Longrightarrow> 2 \<le> rem"
  by (cases cs rule: rev_cases) (auto simp: fair_def weight_abs)

lemma fair_Cons: "fair rem (c # cs) \<Longrightarrow> -1 \<le> c \<and> nat \<bar>c\<bar> + 1 \<le> rem \<and> fair (rem - nat \<bar>c\<bar>) cs"
  by (auto simp: fair_def weight_abs split: if_splits)

lemma fair_zeros: "fair rem (replicate n 0 @ cs) \<Longrightarrow> cs \<noteq> [] \<Longrightarrow> fair rem cs"
  by (auto simp: fair_def weight_def sum_list_replicate)

lemma zeros_ahead: "cs \<noteq> [] \<Longrightarrow> last cs \<noteq> 0 \<Longrightarrow> \<exists>n c rest. cs = replicate n (0 :: int) @ c # rest \<and> c \<noteq> 0"
proof (induction cs)
  case (Cons a cs)
  show ?case
  proof (cases "a = 0")
    case True
    then obtain n c rest where "cs = replicate n 0 @ c # rest" "c \<noteq> 0" using Cons by (auto split: if_splits)
    then show ?thesis using True by (intro exI [of _ "Suc n"] exI [of _ c] exI [of _ rest]) simp
  next
    case False
    then show ?thesis by (intro exI [of _ 0] exI [of _ a] exI [of _ cs]) simp
  qed
qed simp

lemma shrink_ok:
  assumes "1 \<le> rem" and "rem < 2 ^ Suc k"
  shows "\<exists>k' \<le> k. shrink rem (k + 1, 2 ^ k) = (k' + 1, 2 ^ k') \<and> 2 ^ k' \<le> rem \<and> rem < 2 ^ Suc k'"
  using assms
proof (induction k)
  case (Suc k)
  show ?case
  proof (cases "rem < 2 ^ Suc k")
    case True
    then have "shrink rem (Suc k + 1, 2 ^ Suc k) = shrink rem (k + 1, 2 ^ k)" by (simp add: shrink.simps [of rem "Suc (Suc k)"])
    then show ?thesis using Suc.IH True Suc.prems(1) by (metis le_Suc_eq)
  next
    case False
    then show ?thesis using Suc.prems by (intro exI [of _ "Suc k"]) (simp add: shrink.simps)
  qed
qed (simp add: shrink.simps)

lemma write_counts_zeros:
  "1 < rem \<Longrightarrow> c \<noteq> 0 \<Longrightarrow> write_counts safe True rem t nb (replicate n 0 @ c # cs) w
     = cbind (cbind (write_zeros safe n w) (flush16 safe)) (write_counts safe False rem t nb (c # cs))"
proof -
  have z: "takeWhile (\<lambda>c. c = 0) (replicate n 0 @ c # cs) = replicate n 0" if "c \<noteq> 0" using that by (induction n) auto
  show "1 < rem \<Longrightarrow> c \<noteq> 0 \<Longrightarrow> ?thesis"
    by (subst write_counts.simps)
      (simp add: z, intro arg_cong2 [of _ _ _ _ cbind] refl ext, simp add: write_counts.simps [of safe False rem])
qed

lemma write_counts_writes:
  assumes "fair rem cs" and "2 ^ k \<le> rem" and "rem < 2 ^ Suc k" and "k \<le> 12" and "writes fs0 w" and "nw_bitCount w \<le> 16"
    and "write_counts safe p rem (2 ^ k) (k + 1) cs w = Ok (r, w')"
  shows "\<exists>fs. coded p rem k cs fs \<and> r = 1 \<and> writes (fs0 @ fs) w' \<and> nw_bitCount w' \<le> 16"
  using assms
proof (induction cs arbitrary: p rem k fs0 w rule: length_induct)
  case (1 cs)
  show ?case
  proof (cases "cs = []")
    case True
    then have "rem = 1" using "1.prems"(1) by (simp add: fair_def)
    moreover have "k = 0" using calculation "1.prems"(2) less_exp [of k] by linarith
    ultimately show ?thesis using "1.prems"(5-7) True coded.End by (auto simp: write_counts.simps intro!: exI [of _ "[]"])
  next
    case False
    have core: "\<exists>fs. coded False rem k (c # ds) fs \<and> r = 1 \<and> writes (gs @ fs) w' \<and> nw_bitCount w' \<le> 16"
      if f: "fair rem (c # ds)" and l: "length ds < length cs" and w1: "writes gs w1" "nw_bitCount w1 \<le> 16"
        and run: "write_counts safe False rem (2 ^ k) (k + 1) (c # ds) w1 = Ok (r, w')" for gs w1 c ds
    proof -
      obtain v n where vn: "count_code rem (2 ^ k) (k + 1) c = (v, n)" by force
      note c = fair_Cons [OF f] and rem = fair_rem [OF f]
      have fit: "v < 2 ^ n" "n \<le> k + 1" using count_code_fits [OF "1.prems"(2,3) _ _ vn] c by auto
      have r: "1 \<le> rem - nat \<bar>c\<bar>" "rem - nat \<bar>c\<bar> < 2 ^ Suc k" using c "1.prems"(3) by linarith+
      obtain k' where k': "k' \<le> k" "shrink (rem - nat \<bar>c\<bar>) (k + 1, 2 ^ k) = (k' + 1, 2 ^ k')" "2 ^ k' \<le> rem - nat \<bar>c\<bar>"
        "rem - nat \<bar>c\<bar> < 2 ^ Suc k'"
        using shrink_ok [OF r] by blast
      have "\<not> c < -1" "\<not> rem \<le> 1" "\<not> rem < nat \<bar>c\<bar> + 1" using c rem by auto
      then obtain w2 where w2: "flush16 safe (add_bits v n w1) = Ok w2"
        "write_counts safe (c = 0) (rem - nat \<bar>c\<bar>) (2 ^ k') (k' + 1) ds w2 = Ok (r, w')"
        using run vn k'(2) unfolding write_counts.simps [of safe False rem] by (auto simp: cbind_eq_Ok)
      have "writes (gs @ [(v, n)]) (add_bits v n w1)"
        using writes_add [OF w1(1) fit(1)] w1(2) fit(2) "1.prems"(4) by simp
      note f2 = writes_flush16 [OF this w2(1)]
      then obtain fs where "coded (c = 0) (rem - nat \<bar>c\<bar>) k' ds fs" "r = 1" "writes ((gs @ [(v, n)]) @ fs) w'" "nw_bitCount w' \<le> 16"
        using "1.IH" [rule_format, OF l _ k'(3,4) _ _ _ w2(2)] c k'(1) "1.prems"(4) by (metis le_trans)
      moreover have "coded False rem k (c # ds) ((v, n) # fs)"
        using coded.Count [OF "1.prems"(2,3) rem _ _ calculation(1)] c vn by simp
      ultimately show ?thesis by auto
    qed
    obtain n c ds where cs: "cs = replicate n 0 @ c # ds" "c \<noteq> 0"
      using zeros_ahead [OF False] "1.prems"(1) False by (auto simp: fair_def)
    show ?thesis
    proof (cases p)
      case True
      have one: "1 < rem" using fair_rem [OF "1.prems"(1) False] by simp
      have "write_counts safe True rem (2 ^ k) (k + 1) (replicate n 0 @ c # ds) w = Ok (r, w')"
        using "1.prems"(7) True by (simp only: cs(1))
      then have "cbind (cbind (write_zeros safe n w) (flush16 safe)) (write_counts safe False rem (2 ^ k) (k + 1) (c # ds)) = Ok (r, w')"
        by (simp only: write_counts_zeros [OF one cs(2)])
      then obtain w1 w2 where w1: "write_zeros safe n w = Ok w1" "flush16 safe w1 = Ok w2"
        "write_counts safe False rem (2 ^ k) (k + 1) (c # ds) w2 = Ok (r, w')"
        unfolding cbind_eq_Ok by blast
      have "writes (fs0 @ pair_fields n) w1"
      proof (rule write_zeros_writes [OF "1.prems"(5) _ w1(1)])
        show "if n < 24 then nw_bitCount w + 2 * (n div 3) + 2 \<le> 32 else nw_bitCount w \<le> 16"
          using "1.prems"(6) div_le_mono [of n 23 3] by auto
      qed
      note z = writes_flush16 [OF this w1(2)]
      have "fair rem (c # ds)" using fair_zeros [of rem n "c # ds"] "1.prems"(1) cs(1) by simp
      then obtain fs where "coded False rem k (c # ds) fs" "r = 1" "writes ((fs0 @ pair_fields n) @ fs) w'" "nw_bitCount w' \<le> 16"
        using core [OF _ _ _ _ w1(3), of "fs0 @ pair_fields n"] z cs(1) by auto
      moreover have "coded True rem k cs (pair_fields n @ fs)" using coded.Zeros [OF calculation(1) cs(2)] cs(1) by simp
      ultimately show ?thesis using True by (intro exI [of _ "pair_fields n @ fs"]) simp
    next
      case p: False
      obtain d es where "cs = d # es" using False by (cases cs) auto
      then show ?thesis using core [of d es fs0 w] "1.prems"(1,5,6,7) p by auto
    qed
  qed
qed

end
