(* ===== verification/Zstd_NCountReads.thy ===== *)
theory Zstd_NCountReads
  imports Zstd_NCountProofs
begin

text \<open>
  The header of an FSE block is read as it was written: the register holds the bits that follow, and each
  turn of the loop takes the fields of one count, and of the run of zeros before it.
\<close>

unbundle bit_operations_syntax

section \<open>The zeros at the end of a word\<close>

lemma lowest_bit:
  fixes v :: u32
  assumes "j < 32" and "bit v j" and "\<forall>i < j. \<not> bit v i"
  shows "v AND (0 - v) = 2 ^ j"
proof -
  define u where "u = push_bit (Suc j) (drop_bit (Suc j) v)"
  have u: "bit u i \<longleftrightarrow> Suc j \<le> i \<and> bit v i" for i
    unfolding u_def bit_push_bit_iff bit_drop_bit_eq by (auto simp: bit_word.rep_eq dest: bit_imp_le_length)
  have "v = u OR 2 ^ j"
  proof (rule bit_eqI)
    fix i
    assume "possible_bit TYPE(u32) i"
    then show "bit v i \<longleftrightarrow> bit (u OR 2 ^ j) i"
      using assms by (cases i j rule: linorder_cases) (auto simp: bit_or_iff u bit_exp_iff)
  qed
  also have "u OR 2 ^ j = u + 2 ^ j"
    by (rule disjunctive_add [symmetric]) (auto simp: u bit_exp_iff)
  finally have "v - 1 = u + mask j" by (simp add: mask_eq_exp_minus_1)
  also have "\<dots> = u OR mask j" by (rule disjunctive_add) (auto simp: u bit_mask_iff)
  finally have m: "0 - v = NOT (u OR mask j)" by (simp add: minus_eq_not_minus_1)
  show ?thesis unfolding m
  proof (rule bit_eqI)
    fix i
    assume "possible_bit TYPE(u32) i"
    then show "bit (v AND NOT (u OR mask j)) i \<longleftrightarrow> bit (2 ^ j :: u32) i"
      using assms by (cases i j rule: linorder_cases)
        (auto simp: bit_and_iff bit_not_iff bit_or_iff u bit_exp_iff bit_mask_iff)
  qed
qed

lemma DeBruijnBytePos_power: "j < 32 \<Longrightarrow> DeBruijnBytePos ! unat (drop_bit 27 (2 ^ j * 0x077CB531 :: u32)) = j"
proof -
  have "\<forall>j < 32. DeBruijnBytePos ! unat (drop_bit 27 (2 ^ j * 0x077CB531 :: u32)) = j"
    unfolding all_below_32 by code_simp
  then show "j < 32 \<Longrightarrow> ?thesis" by blast
qed

lemma countTrailingZeros32:
  assumes "j < 32" and "bit v j" and "\<forall>i < j. \<not> bit v i"
  shows "ZSTD_countTrailingZeros32 v = j"
  using lowest_bit [OF assms] DeBruijnBytePos_power [OF assms(1)] by (simp add: ZSTD_countTrailingZeros32_def)

lemma repeats_eq:
  assumes "j \<le> 31" and "\<forall>i < j. bit b i" and "j = 31 \<or> \<not> bit b j"
  shows "repeats b = j div 2"
proof -
  have top: "bit (0x80000000 :: u32) i \<longleftrightarrow> i = 31" if "i < 32" for i
    using that bit_exp_iff [of 31 i, where 'a = u32] by simp
  have "bit (NOT b OR 0x80000000) j" using assms top [of j] by (auto simp: bit_or_iff bit_not_iff)
  moreover have "\<not> bit (NOT b OR 0x80000000) i" if "i < j" for i
    using that assms top [of i] by (auto simp: bit_or_iff bit_not_iff)
  ultimately show ?thesis using countTrailingZeros32 [of j "NOT b OR 0x80000000"] assms(1) by (simp add: repeats_def)
qed

lemma repeats_many:
  assumes "\<forall>i < 24. bit b i"
  shows "12 \<le> repeats b"
proof -
  define j where "j = (LEAST i. i = 31 \<or> \<not> bit b i)"
  have j: "j = 31 \<or> \<not> bit b j" unfolding j_def by (rule LeastI [of _ 31]) simp
  have least: "j \<le> i" if "i = 31 \<or> \<not> bit b i" for i unfolding j_def using that by (rule Least_le)
  have "j \<le> 31" "\<forall>i < j. bit b i" using least leD by blast+
  moreover have "24 \<le> j" using j assms by (cases "j < 24") auto
  ultimately show ?thesis using repeats_eq [OF _ _ j] by (simp add: div_le_mono [of 24 j 2, simplified])
qed

text \<open>The pairs that are set, in a number.\<close>

lemma stream_number_pairs: "stream_number (replicate q (3, 2)) = mask (2 * q)" "stream_width (replicate q (3, 2)) = 2 * q"
proof (induction q)
  case (Suc q)
  { case 1
    obtain x where "2 ^ (2 * q) = Suc x" using not0_implies_Suc [of "2 ^ (2 * q)"] by auto
    then show ?case using Suc by (simp add: mask_eq_exp_minus_1) }
  { case 2
    show ?case using Suc by simp }
qed simp_all

section \<open>What follows a position of the header\<close>

definition follows :: "bytes \<Rightarrow> nat \<Rightarrow> (nat \<times> nat) list \<Rightarrow> bool" where
  "follows hb pos fs \<longleftrightarrow> fields_fit fs \<and> le_nat hb div 2 ^ pos mod 2 ^ stream_width fs = stream_number fs
     \<and> pos + stream_width fs \<le> 8 * length hb"

lemma follows_append:
  assumes "follows hb pos (fs @ gs)"
  shows "le_nat hb div 2 ^ pos mod 2 ^ stream_width fs = stream_number fs" and "follows hb (pos + stream_width fs) gs"
    and "pos + stream_width fs + stream_width gs \<le> 8 * length hb"
proof -
  let ?X = "le_nat hb div 2 ^ pos" and ?m = "stream_width fs" and ?n = "stream_width gs"
  have f: "fields_fit fs" "fields_fit gs" and X: "?X mod (2 ^ ?m * 2 ^ ?n) = stream_number fs + 2 ^ ?m * stream_number gs"
    using assms by (auto simp: follows_def stream_append fields_fit_def power_add)
  note less = stream_number_less [OF f(1)]
  have "?X mod 2 ^ ?m = ?X mod (2 ^ ?m * 2 ^ ?n) mod 2 ^ ?m" by (simp add: mod_mod_cancel)
  then show "?X mod 2 ^ ?m = stream_number fs" using X less by simp
  have "?X mod (2 ^ ?m * 2 ^ ?n) div 2 ^ ?m = ?X div 2 ^ ?m mod 2 ^ ?n"
    using mod_mult2_eq [of ?X "2 ^ ?m" "2 ^ ?n"] by simp
  then have "?X div 2 ^ ?m mod 2 ^ ?n = stream_number gs" using X less by simp
  then show "follows hb (pos + ?m) gs" using assms f by (simp add: follows_def stream_append div_mult2_eq power_add)
  show "pos + ?m + ?n \<le> 8 * length hb" using assms by (simp add: follows_def stream_append)
qed

lemma unat_and_mask: "n < 32 \<Longrightarrow> unat ((b :: u32) AND mask n) = unat b mod 2 ^ n"
proof -
  have "unat (b AND mask n) = take_bit n (unat b)" by (simp only: unsigned_take_bit_eq flip: take_bit_eq_mask)
  then show ?thesis by (simp only: take_bit_eq_mod)
qed

text \<open>The register at a position, after a reload and before.\<close>

definition at_pos :: "bytes \<Rightarrow> nat \<Rightarrow> ncount_reader \<Rightarrow> bool" where
  "at_pos hb pos r \<longleftrightarrow> nr_ip r + 4 \<le> length hb \<and> 0 \<le> nr_bitCount r \<and> nr_bitCount r < 32
     \<and> (nr_bitCount r \<le> 7 \<or> nr_ip r + 4 = length hb) \<and> pos = 8 * nr_ip r + nat (nr_bitCount r)
     \<and> unat (nr_bitStream r) = le_nat hb div 2 ^ pos mod 2 ^ (32 - nat (nr_bitCount r))"

definition ahead :: "bytes \<Rightarrow> nat \<Rightarrow> ncount_reader \<Rightarrow> bool" where
  "ahead hb pos r \<longleftrightarrow> nr_ip r + 4 \<le> length hb \<and> 0 \<le> nr_bitCount r \<and> (nr_bitCount r < 32 \<or> nr_ip r + 4 = length hb)
     \<and> pos = 8 * nr_ip r + nat (nr_bitCount r)"

text \<open>What a reload leaves alone.\<close>

definition same :: "ncount_reader \<Rightarrow> ncount_reader \<Rightarrow> bool" where
  "same r r' \<longleftrightarrow> nr_remaining r' = nr_remaining r \<and> nr_threshold r' = nr_threshold r \<and> nr_nbBits r' = nr_nbBits r
     \<and> nr_norm r' = nr_norm r"

lemma read_shifted:
  assumes "ip + 4 \<le> length hb" and "b < 32"
  shows "\<exists>v. MEM_readLE32 hb ip = Ok v \<and> unat (drop_bit b v) = le_nat hb div 2 ^ (8 * ip + b) mod 2 ^ (32 - b)"
proof -
  let ?n = "le_nat hb div 256 ^ ip mod 256 ^ 4"
  have "MEM_readLE32 hb ip = Ok (of_nat ?n)" using assms(1) by (simp add: MEM_readLE32_def rd_def le_nat_take_drop)
  moreover have "unat (drop_bit b (of_nat ?n :: u32)) = ?n div 2 ^ b"
    by (simp add: unat_drop_bit_u32 unsigned_of_nat take_bit_nat_eq_self)
  moreover have "?n div 2 ^ b = le_nat hb div 2 ^ (8 * ip + b) mod 2 ^ (32 - b)"
  proof -
    have "(256 :: nat) ^ 4 = 2 ^ b * 2 ^ (32 - b)" using assms(2) by (simp flip: power_add)
    then have "?n div 2 ^ b = le_nat hb div 256 ^ ip mod (2 ^ b * 2 ^ (32 - b)) div 2 ^ b" by (simp only:)
    also have "\<dots> = le_nat hb div 256 ^ ip div 2 ^ b mod 2 ^ (32 - b)" by (simp add: mod_mult2_eq)
    also have "\<dots> = le_nat hb div 2 ^ (8 * ip + b) mod 2 ^ (32 - b)" by (simp only: div_mult2_eq power_add pow256)
    finally show ?thesis .
  qed
  ultimately show ?thesis by simp
qed

lemma at_pos_ahead: "at_pos hb pos r \<Longrightarrow> ahead hb pos r"
  by (auto simp: at_pos_def ahead_def)

lemma at_pos_bits:
  assumes "at_pos hb pos r" and "n \<le> 25"
  shows "unat (nr_bitStream r) mod 2 ^ n = le_nat hb div 2 ^ pos mod 2 ^ n"
proof (cases "nr_bitCount r \<le> 7")
  case True
  then have "n \<le> 32 - nat (nr_bitCount r)" using assms(2) by linarith
  then have "(2 :: nat) ^ n dvd 2 ^ (32 - nat (nr_bitCount r))" by (rule le_imp_power_dvd)
  then show ?thesis using assms(1) by (simp add: at_pos_def mod_mod_cancel)
next
  case False
  then have r: "nr_ip r + 4 = length hb" "nr_bitCount r < 32" "pos = 8 * nr_ip r + nat (nr_bitCount r)"
    "unat (nr_bitStream r) = le_nat hb div 2 ^ pos mod 2 ^ (32 - nat (nr_bitCount r))"
    using assms(1) by (auto simp: at_pos_def)
  have "8 * length hb = pos + (32 - nat (nr_bitCount r))" using r by linarith
  then have "le_nat hb < 2 ^ (32 - nat (nr_bitCount r)) * 2 ^ pos"
    using le_nat_less [of hb] by (simp add: pow256 flip: power_add) (simp add: add.commute)
  then have "le_nat hb div 2 ^ pos < 2 ^ (32 - nat (nr_bitCount r))" by (rule less_mult_imp_div_less)
  then show ?thesis using r(4) by simp
qed

lemma reload_at_pos:
  assumes "ahead hb pos r" and "pos < 8 * length hb" and "8 \<le> length hb"
  shows "\<exists>r'. reload_header hb r = Ok r' \<and> at_pos hb pos r' \<and> same r r' \<and> nr_charnum r' = nr_charnum r"
proof -
  obtain b where b: "nr_bitCount r = int b" using assms(1) zero_le_imp_eq_int by (auto simp: ahead_def)
  let ?ip = "nr_ip r"
  have a: "?ip + 4 \<le> length hb" "b < 32 \<or> ?ip + 4 = length hb" "pos = 8 * ?ip + b" using assms(1) b by (auto simp: ahead_def)
  show ?thesis
  proof (cases "?ip + 7 \<le> length hb \<or> ?ip + b div 8 + 4 \<le> length hb")
    case True
    have l: "?ip + b div 8 + 4 \<le> length hb" "b div 8 \<le> 3" using True a by linarith+
    obtain v where v: "MEM_readLE32 hb (?ip + b div 8) = Ok v"
      "unat (drop_bit (b mod 8) v) = le_nat hb div 2 ^ (8 * (?ip + b div 8) + b mod 8) mod 2 ^ (32 - b mod 8)"
      using read_shifted [OF l(1), of "b mod 8"] by force
    have p: "8 * (?ip + b div 8) + b mod 8 = pos" using a(3) by (simp add: algebra_simps)
    let ?r = "r\<lparr>nr_ip := ?ip + b div 8, nr_bitCount := int (b mod 8), nr_bitStream := drop_bit (b mod 8) v\<rparr>"
    have "reload_header hb r = Ok ?r"
    proof -
      have n: "nat (int b div 8) = b div 8" "nat (int b mod 8) = b mod 8" "\<not> 3 < int b div 8"
        using l(2) by (simp_all add: nat_div_distrib nat_mod_distrib flip: zdiv_int)
      show ?thesis using True v(1) by (simp add: reload_header_def b n Let_def zmod_int)
    qed
    moreover have "b mod 8 < 8" by simp
    then have "at_pos hb pos ?r" using l(1) p v(2) unfolding at_pos_def by auto
    ultimately show ?thesis by (auto simp: same_def)
  next
    case False
    define b' where "b' = b + 8 * ?ip - 8 * (length hb - 4)"
    have d: "length hb - 4 + 4 = length hb" "8 * (length hb - 4) + b' = pos" "b' < 32"
      using False a assms(2) by (auto simp: b'_def)
    have bc: "(int b - 8 * (int (length hb) - 4 - int ?ip)) mod 32 = int b'"
    proof -
      have "8 * (int (length hb) - 4) + int b' = int pos" using arg_cong [OF d(2), of int] a(1) by (simp add: of_nat_diff)
      then have "int b - 8 * (int (length hb) - 4 - int ?ip) = int b'" unfolding a(3) by simp
      then show ?thesis using d(3) by simp
    qed
    obtain v where v: "MEM_readLE32 hb (length hb - 4) = Ok v"
      "unat (drop_bit b' v) = le_nat hb div 2 ^ (8 * (length hb - 4) + b') mod 2 ^ (32 - b')"
      using read_shifted [of "length hb - 4" hb b'] d by auto
    let ?r = "r\<lparr>nr_ip := length hb - 4, nr_bitCount := int b', nr_bitStream := drop_bit b' v\<rparr>"
    have "nat (int b div 8) = b div 8" by (simp add: nat_div_distrib)
    then have "reload_header hb r = Ok ?r" using False v(1) bc by (simp add: reload_header_def b Let_def)
    moreover have "at_pos hb pos ?r" using d v(2) by (simp add: at_pos_def)
    ultimately show ?thesis by (auto simp: same_def)
  qed
qed

section \<open>Runs of zeros\<close>

text \<open>The set pairs ahead are counted up to twelve.\<close>

lemma both_odd: "odd x \<Longrightarrow> odd (x div 2) \<Longrightarrow> x mod 4 = (3 :: nat)"
  by presburger

lemma repeats_pairs:
  assumes "at_pos hb pos r" and "follows hb pos (replicate q (3, 2) @ (v, 2) # fs)" and "v < 3"
  shows "if q < 12 then repeats (nr_bitStream r) = q else 12 \<le> repeats (nr_bitStream r)"
proof -
  let ?b = "nr_bitStream r" and ?X = "le_nat hb div 2 ^ pos"
  have X: "?X mod 2 ^ (2 * q) = mask (2 * q)" and X2: "?X div 2 ^ (2 * q) mod 4 = v"
    using follows_append(1) [OF assms(2)] follows_append(1) [of hb "pos + 2 * q" "[(v, 2)]" fs] follows_append(2) [OF assms(2)]
    by (simp_all add: stream_number_pairs div_mult2_eq power_add)
  have bit: "bit ?b i \<longleftrightarrow> bit ?X i" if "i < 25" for i
  proof -
    have "bit ?b i \<longleftrightarrow> bit (take_bit 25 (unat ?b)) i" using that by (simp add: bit_take_bit_iff bit_unsigned_iff bit_imp_le_length)
    also have "take_bit 25 (unat ?b) = take_bit 25 ?X" using at_pos_bits [OF assms(1), of 25] by (simp add: take_bit_eq_mod)
    finally show ?thesis using that by (simp add: bit_take_bit_iff)
  qed
  have low: "bit ?X i" if "i < 2 * q" for i
  proof -
    have "bit (take_bit (2 * q) ?X) i" using X that by (simp add: take_bit_eq_mod bit_mask_iff)
    then show ?thesis by (simp add: bit_take_bit_iff)
  qed
  show ?thesis
  proof (cases "q < 12")
    case True
    have "\<not> (bit ?X (2 * q) \<and> bit ?X (2 * q + 1))"
    proof
      assume "bit ?X (2 * q) \<and> bit ?X (2 * q + 1)"
      moreover have "?X div 2 ^ (2 * q + 1) = ?X div 2 ^ (2 * q) div 2" by (simp only: power_add div_mult2_eq power_one_right)
      ultimately have "odd (?X div 2 ^ (2 * q))" "odd (?X div 2 ^ (2 * q) div 2)" unfolding bit_iff_odd by metis+
      then have "?X div 2 ^ (2 * q) mod 4 = 3" by (rule both_odd)
      then show False using X2 assms(3) by simp
    qed
    then consider "\<not> bit ?b (2 * q)" | "bit ?b (2 * q)" "\<not> bit ?b (2 * q + 1)" using bit [of "2 * q"] bit [of "2 * q + 1"] True by auto
    then have "repeats ?b = q"
    proof cases
      case 1
      have "\<forall>i < 2 * q. bit ?b i" using True bit low by auto
      then show ?thesis using repeats_eq [of "2 * q" ?b] 1 True by simp
    next
      case 2
      have "\<forall>i < 2 * q + 1. bit ?b i" using True bit low 2 by (auto simp: less_Suc_eq)
      then show ?thesis using repeats_eq [of "2 * q + 1" ?b] 2 True by simp
    qed
    then show ?thesis using True by simp
  qed (use repeats_many [of ?b] bit low in auto)
qed

lemma skip_turn_ok:
  assumes "at_pos hb pos r" and "pos + 24 < 8 * length hb" and "8 \<le> length hb"
  shows "\<exists>r'. skip_turn hb r = Ok r' \<and> at_pos hb (pos + 24) r' \<and> same r r' \<and> nr_charnum r' = nr_charnum r + 36"
proof -
  obtain b where b: "nr_bitCount r = int b" using assms(1) zero_le_imp_eq_int by (auto simp: at_pos_def)
  let ?ip = "nr_ip r"
  have a: "?ip + 4 \<le> length hb" "b \<le> 7 \<or> ?ip + 4 = length hb" "b < 32" "pos = 8 * ?ip + b" using assms(1) b by (auto simp: at_pos_def)
  have "\<exists>ip b'. (if ?ip + 7 \<le> length hb then (?ip + 3, int b) else (length hb - 4, (int b - 8 * (int (length hb) - 7 - int ?ip)) mod 32)) = (ip, int b')
    \<and> ip + 4 \<le> length hb \<and> b' < 32 \<and> (b' \<le> 7 \<or> ip + 4 = length hb) \<and> pos + 24 = 8 * ip + b'"
  proof (cases "?ip + 7 \<le> length hb")
    case True
    then show ?thesis using a by (intro exI [of _ "?ip + 3"] exI [of _ b]) auto
  next
    case False
    define b' where "b' = b + 8 * ?ip + 24 - 8 * (length hb - 4)"
    have d: "length hb - 4 + 4 = length hb" "8 * (length hb - 4) + b' = pos + 24" "b' < 32"
      using False a assms(2) by (auto simp: b'_def)
    have "8 * (int (length hb) - 4) + int b' = int pos + 24" using arg_cong [OF d(2), of int] a(1) by (simp add: of_nat_diff)
    then have "int b - 8 * (int (length hb) - 7 - int ?ip) = int b'" unfolding a(4) by simp
    then have "(int b - 8 * (int (length hb) - 7 - int ?ip)) mod 32 = int b'" using d(3) by simp
    then show ?thesis using False d by (intro exI [of _ "length hb - 4"] exI [of _ b']) auto
  qed
  then obtain ip b' where n: "(if ?ip + 7 \<le> length hb then (?ip + 3, int b) else (length hb - 4, (int b - 8 * (int (length hb) - 7 - int ?ip)) mod 32)) = (ip, int b')"
    "ip + 4 \<le> length hb" "b' < 32" "b' \<le> 7 \<or> ip + 4 = length hb" "pos + 24 = 8 * ip + b'" by blast
  obtain v where v: "MEM_readLE32 hb ip = Ok v" "unat (drop_bit b' v) = le_nat hb div 2 ^ (8 * ip + b') mod 2 ^ (32 - b')"
    using read_shifted [OF n(2,3)] by blast
  let ?r = "r\<lparr>nr_charnum := nr_charnum r + 36, nr_ip := ip, nr_bitCount := int b', nr_bitStream := drop_bit b' v\<rparr>"
  have "skip_turn hb r = Ok ?r" by (simp only: skip_turn_def Let_def b n(1) prod.case v(1) cbind.simps nat_int) simp
  moreover have "at_pos hb (pos + 24) ?r" using n(2-5) v(2) by (simp add: at_pos_def)
  ultimately show ?thesis by (auto simp: same_def)
qed

lemma skip_runs_unfold:
  "skip_runs hb r = (if 12 \<le> repeats (nr_bitStream r) then
     (case skip_turn hb r of Ok r' \<Rightarrow> skip_runs hb r' | x \<Rightarrow> x) else Ok r)"
  unfolding skip_runs_def by (subst while_option_unfold) (auto split: cres.splits simp: while_option_unfold [of _ _ Fault] while_option_unfold [of _ _ "Err _"])

lemma same_trans: "same a b \<Longrightarrow> same b c \<Longrightarrow> same a c"
  by (simp add: same_def)

lemma skip_runs_ok:
  assumes "at_pos hb pos r" and "follows hb pos (replicate q (3, 2) @ (v, 2) # fs)" and "v < 3" and "8 \<le> length hb"
  shows "\<exists>r'. skip_runs hb r = Ok r' \<and> at_pos hb (pos + 24 * (q div 12)) r' \<and> same r r' \<and> nr_charnum r' = nr_charnum r + 36 * (q div 12)
    \<and> follows hb (pos + 24 * (q div 12)) (replicate (q mod 12) (3, 2) @ (v, 2) # fs)"
  using assms(1,2)
proof (induction q arbitrary: pos r rule: less_induct)
  case (less q)
  note reps = repeats_pairs [OF less.prems assms(3)]
  show ?case
  proof (cases "q < 12")
    case True
    then show ?thesis using reps less.prems by (subst skip_runs_unfold) (simp add: same_def)
  next
    case False
    define q' where "q' = q - 12"
    have q: "q = 12 + q'" using False by (simp add: q'_def)
    have f: "follows hb pos (replicate 12 (3, 2) @ (replicate q' (3, 2) @ (v, 2) # fs))"
      using less.prems(2) by (simp only: q replicate_add append_assoc)
    have f24: "follows hb (pos + 24) (replicate q' (3, 2) @ (v, 2) # fs)" "pos + 24 < 8 * length hb"
      using follows_append(2,3) [OF f] stream_number_pairs(2) [of 12] by (simp_all add: stream_append)
    obtain r1 where r1: "skip_turn hb r = Ok r1" "at_pos hb (pos + 24) r1" "same r r1" "nr_charnum r1 = nr_charnum r + 36"
      using skip_turn_ok [OF less.prems(1) f24(2) assms(4)] by blast
    obtain r2 where r2: "skip_runs hb r1 = Ok r2" "at_pos hb (pos + 24 + 24 * (q' div 12)) r2" "same r1 r2"
      "nr_charnum r2 = nr_charnum r1 + 36 * (q' div 12)" "follows hb (pos + 24 + 24 * (q' div 12)) (replicate (q' mod 12) (3, 2) @ (v, 2) # fs)"
      using less.IH [OF _ r1(2) f24(1)] q by auto
    have d: "q div 12 = Suc (q' div 12)" "q mod 12 = q' mod 12" using q by simp_all
    have "skip_runs hb r = Ok r2" using reps False r1(1) r2(1) by (subst skip_runs_unfold) simp
    then show ?thesis using r1(4) r2 same_trans [OF r1(3) r2(3)] by (simp add: d add.assoc)
  qed
qed

lemma read_zeros_ok:
  assumes "at_pos hb pos r" and "follows hb pos (pair_fields n @ fs)" and "0 < stream_width fs" and "8 \<le> length hb"
    and "nr_charnum r + n < maxSV1"
  shows "\<exists>r'. read_zeros hb maxSV1 r = Ok (r', False) \<and> at_pos hb (pos + stream_width (pair_fields n)) r' \<and> same r r'
    \<and> nr_charnum r' = nr_charnum r + n \<and> follows hb (pos + stream_width (pair_fields n)) fs"
proof -
  define q where "q = n div 3"
  have f: "follows hb pos (replicate q (3, 2) @ (n mod 3, 2) # fs)" using assms(2) by (simp add: pair_fields_def q_def)
  have three: "n mod 3 < 3" by simp
  let ?q = "q mod 12" and ?p = "pos + 24 * (q div 12)"
  obtain r1 where r1: "skip_runs hb r = Ok r1" "at_pos hb ?p r1" "same r r1" "nr_charnum r1 = nr_charnum r + 36 * (q div 12)"
    "follows hb ?p (replicate ?q (3, 2) @ (n mod 3, 2) # fs)"
    using skip_runs_ok [OF assms(1) f three assms(4)] by blast
  have reps: "repeats (nr_bitStream r1) = ?q" using repeats_pairs [OF r1(2,5) three] by simp
  let ?b = "drop_bit (2 * ?q) (nr_bitStream r1)" and ?X = "le_nat hb div 2 ^ ?p"
  have "?X div 2 ^ (2 * ?q) mod 2 ^ 2 = n mod 3"
    using follows_append(1) [of hb "?p + 2 * ?q" "[(n mod 3, 2)]" fs] follows_append(2) [OF r1(5)]
    by (simp add: stream_number_pairs div_mult2_eq power_add)
  moreover have "unat ?b mod 2 ^ 2 = ?X div 2 ^ (2 * ?q) mod 2 ^ 2"
  proof -
    have split: "x div 2 ^ a mod 2 ^ 2 = x mod 2 ^ (a + 2) div 2 ^ a" for x a :: nat
      unfolding power_add mod_mult2_eq by simp
    have "2 * ?q + 2 \<le> 25" by (simp add: less_Suc_eq_le)
    then show ?thesis unfolding unat_drop_bit_u32 split by (simp only: at_pos_bits [OF r1(2)])
  qed
  moreover have "unat (?b AND 3) = unat ?b mod 2 ^ 2"
    using unat_and_mask [of 2 ?b] by (simp add: mask_numeral)
  ultimately have b3: "unat (?b AND 3) = n mod 3" by simp
  let ?r = "r1\<lparr>nr_charnum := nr_charnum r + n, nr_bitStream := ?b, nr_bitCount := nr_bitCount r1 + int (2 * ?q) + 2\<rparr>"
  have W: "pos + stream_width (pair_fields n) = ?p + 2 * ?q + 2"
  proof -
    have "12 * (q div 12) + ?q = q" by (rule mult_div_mod_eq)
    then have "2 * q = 24 * (q div 12) + 2 * ?q" by linarith
    then show ?thesis by (simp add: pair_fields_def stream_append stream_number_pairs flip: q_def)
  qed
  have fs: "follows hb (?p + 2 * ?q + 2) fs" and less: "?p + 2 * ?q + 2 < 8 * length hb"
    using follows_append(2,3) [of hb pos "pair_fields n" fs] assms(2,3) W by simp_all
  have "ahead hb (?p + 2 * ?q + 2) ?r" using r1(2) by (auto simp: at_pos_def ahead_def nat_add_distrib)
  then obtain r2 where r2: "reload_header hb ?r = Ok r2" "at_pos hb (?p + 2 * ?q + 2) r2" "same ?r r2" "nr_charnum r2 = nr_charnum ?r"
    using reload_at_pos [OF _ less assms(4)] by blast
  have "nr_charnum r1 + 3 * ?q + unat (?b AND 3) = nr_charnum r + n"
  proof -
    have "n = 3 * q + n mod 3" "q = 12 * (q div 12) + ?q" by (simp_all add: q_def)
    then show ?thesis unfolding r1(4) b3 by linarith
  qed
  moreover have "?b AND 3 < 3" using b3 by (simp add: word_less_nat_alt)
  ultimately have "read_zeros hb maxSV1 r = Ok (r2, False)"
    using r1(1) r2(1) assms(5) by (simp add: read_zeros_def reps Let_def)
  moreover have "same r r2" using r1(3) r2(3) by (simp add: same_def)
  ultimately show ?thesis using r2(2,4) fs unfolding W by (intro exI [of _ r2]) simp
qed

section \<open>Counts\<close>

text \<open>The code of a count is told by its low bits.\<close>

lemma count_code_read:
  assumes "X mod 2 ^ n = v" and "count_code rem (2 ^ k) (k + 1) c = (v, n)"
    and "2 ^ k \<le> rem" and "rem < 2 ^ Suc k" and "-1 \<le> c" and "nat \<bar>c\<bar> + 1 \<le> rem"
  defines "most \<equiv> 2 * 2 ^ k - 1 - rem"
  shows "X mod 2 ^ k < most \<longleftrightarrow> n = k" and "n = k \<or> n = Suc k"
    and "(if n = k then int (X mod 2 ^ k) else if 2 ^ k \<le> X mod 2 ^ Suc k then int (X mod 2 ^ Suc k) - int most
      else int (X mod 2 ^ Suc k)) - 1 = c"
proof -
  define x where "x = nat (c + 1)"
  have most: "rem + most + 1 = 2 * 2 ^ k" "most < 2 ^ k" using assms(3,4) by (simp_all add: most_def)
  have x: "x \<le> rem" "int x = c + 1" using assms(5,6) unfolding x_def by linarith+
  have vn: "v = (if 2 ^ k \<le> x then x + most else x)" "n = k + 1 - of_bool (v < most)"
    using assms(2) unfolding count_code_def Let_def most_def [symmetric] x_def by auto
  have low: "X mod 2 ^ k = v mod 2 ^ k"
  proof -
    have "(2 :: nat) ^ k dvd 2 ^ n" using vn(2) by (intro le_imp_power_dvd) simp
    then show ?thesis by (simp add: mod_mod_cancel flip: assms(1))
  qed
  have v: "v mod 2 ^ k = (if 2 ^ k \<le> v then v - 2 ^ k else v)"
    using vn(1) x(1) most by (auto simp: mod_if le_mod_geq split: if_splits)
  show "n = k \<or> n = Suc k" using vn(2) by auto
  show short: "X mod 2 ^ k < most \<longleftrightarrow> n = k" unfolding low v using vn most by (auto split: if_splits)
  show "(if n = k then int (X mod 2 ^ k) else if 2 ^ k \<le> X mod 2 ^ Suc k then int (X mod 2 ^ Suc k) - int most
      else int (X mod 2 ^ Suc k)) - 1 = c"
  proof (cases "n = k")
    case True
    then have "v = x" "X mod 2 ^ k = v" using vn assms(1) most(2) by (auto split: if_splits)
    then show ?thesis using True x(2) by simp
  next
    case False
    then have "n = Suc k" using vn(2) by auto
    then have "X mod 2 ^ Suc k = v" using assms(1) by simp
    then show ?thesis using False vn(1) x(2) by auto
  qed
qed

lemma read_count_ok:
  assumes "at_pos hb pos r" and "le_nat hb div 2 ^ pos mod 2 ^ n = v" and "count_code rem (2 ^ k) (k + 1) c = (v, n)"
    and "2 ^ k \<le> rem" and "rem < 2 ^ Suc k" and "2 \<le> rem" and "k \<le> 12" and "-1 \<le> c" and "nat \<bar>c\<bar> + 1 \<le> rem"
    and "nr_remaining r = int rem" and "nr_threshold r = 2 ^ k" and "nr_nbBits r = k + 1" and "nr_charnum r < length (nr_norm r)"
    and "2 ^ k' \<le> rem - nat \<bar>c\<bar>" and "rem - nat \<bar>c\<bar> < 2 ^ Suc k'" and "pos + n \<le> 8 * length hb"
  shows "\<exists>r'. read_count maxSV1 r = Ok (r', rem - nat \<bar>c\<bar> \<le> 1 \<or> maxSV1 \<le> nr_charnum r + 1, c = 0)
    \<and> ahead hb (pos + n) r' \<and> nr_bitCount r' \<le> 32 \<and> nr_remaining r' = int (rem - nat \<bar>c\<bar>)
    \<and> (rem - nat \<bar>c\<bar> \<le> 1 \<or> nr_threshold r' = 2 ^ k' \<and> nr_nbBits r' = k' + 1)
    \<and> nr_charnum r' = nr_charnum r + 1 \<and> nr_norm r' = (nr_norm r)[nr_charnum r := c]"
proof -
  let ?X = "le_nat hb div 2 ^ pos" and ?b = "nr_bitStream r"
  define most where "most = 2 * 2 ^ k - 1 - rem"
  note code = count_code_read [OF assms(2-5,8,9), folded most_def]
  have k13: "(2 :: nat) ^ Suc k \<le> 2 ^ 13" using assms(7) by (intro power_increasing) simp_all
  have most: "most < 2 ^ 13" "int most = 2 * 2 ^ k - 1 - int rem" using assms(4,5) k13 by (simp_all add: most_def)
  have low: "unat (?b AND (of_int (nr_threshold r) - 1)) = ?X mod 2 ^ k"
    using unat_and_mask [of k ?b] at_pos_bits [OF assms(1), of k] assms(7) by (simp add: assms(11) mask_eq_exp_minus_1)
  have high: "unat (?b AND (2 * of_int (nr_threshold r) - 1)) = ?X mod 2 ^ Suc k"
    using unat_and_mask [of "Suc k" ?b] at_pos_bits [OF assms(1), of "Suc k"] assms(7) by (simp add: assms(11) mask_eq_exp_minus_1)
  have "unat (of_int (int most) :: u32) = most" using most(1) by (simp add: unsigned_of_nat take_bit_nat_eq_self)
  then have short: "?b AND (of_int (nr_threshold r) - 1) < of_int (2 * nr_threshold r - 1 - nr_remaining r) \<longleftrightarrow> n = k"
    unfolding word_less_nat_alt low unfolding assms(10,11) most(2) [symmetric] by (simp only: code(1))
  have le: "(2 :: int) ^ k \<le> int y \<longleftrightarrow> 2 ^ k \<le> y" for y by (metis of_nat_le_iff of_nat_numeral of_nat_power)
  have cnt: "(if n = k then uint (?b AND (of_int (nr_threshold r) - 1))
      else if nr_threshold r \<le> uint (?b AND (2 * of_int (nr_threshold r) - 1))
        then uint (?b AND (2 * of_int (nr_threshold r) - 1)) - (2 * nr_threshold r - 1 - nr_remaining r)
      else uint (?b AND (2 * of_int (nr_threshold r) - 1))) - 1 = c"
    using code(3) unfolding uint_nat low high unfolding assms(10,11) most(2) [symmetric] unfolding le by simp
  define rem' where "rem' = rem - nat \<bar>c\<bar>"
  have rem': "int rem - \<bar>c\<bar> = int rem'" "rem' \<le> rem" using assms(8,9) unfolding rem'_def by linarith+
  have "nat \<bar>c\<bar> < 2 ^ 13" using assms(5,9) k13 by linarith
  then have s: "sint (of_int c :: 16 word) = c" by (simp add: signed_of_int signed_take_bit_int_eq_self)
  have k: "(2 :: int) \<le> 2 ^ k" using assms(5,6) by (cases k) simp_all
  have "(2 :: nat) \<le> 2 ^ k" using assms(5,6) by (cases k) simp_all
  then have k2: "rem' < 2 ^ k" if "rem' \<le> 1" using that by linarith
  have n: "nr_bitCount r + int (k + 1) - of_bool (n = k) = nr_bitCount r + int n" using code(2) by auto
  have hb: "ZSTD_highbit32 (of_int (int rem')) = k'"
  proof (rule highbit32_eq)
    have "unat (of_int (int rem') :: u32) = rem'" using rem'(2) assms(5) k13 by (simp add: unsigned_of_nat take_bit_nat_eq_self)
    then show "2 ^ k' \<le> unat (of_int (int rem') :: u32)" "unat (of_int (int rem') :: u32) < 2 ^ Suc k'"
      using assms(14,15) by (simp_all only: rem'_def)
  qed
  have kk: "k' = k" if "2 ^ k \<le> rem'"
  proof -
    have "(2 :: nat) ^ k < 2 ^ Suc k'" "(2 :: nat) ^ k' < 2 ^ Suc k" using that assms(5,14,15) rem'(2) unfolding rem'_def by linarith+
    then have "k < Suc k'" "k' < Suc k" 
      using power_less_imp_less_exp [of "2 :: nat" k "Suc k'"] power_less_imp_less_exp [of "2 :: nat" k' "Suc k"] by simp_all
    then show ?thesis by simp
  qed
  let ?r = "r\<lparr>nr_norm := (nr_norm r)[nr_charnum r := c], nr_charnum := nr_charnum r + 1,
      nr_bitCount := nr_bitCount r + int n, nr_remaining := int rem'\<rparr>"
  let ?s = "if int rem' < 2 ^ k \<and> \<not> int rem' \<le> 1 then ?r\<lparr>nr_nbBits := k' + 1, nr_threshold := 2 ^ k'\<rparr> else ?r"
  have "read_count maxSV1 r = Ok (?s, rem' \<le> 1 \<or> maxSV1 \<le> nr_charnum r + 1, c = 0)"
    unfolding read_count_def Let_def short cnt s unfolding assms(10-12) n rem'(1) hb
    using assms(8,13) k k2 by (auto simp: hb)
  moreover have "ahead hb (pos + n) ?s" "nr_bitCount ?s \<le> 32"
    using assms(1,16) code(2) assms(7) by (auto simp: at_pos_def ahead_def nat_add_distrib)
  moreover have "rem' \<le> 1 \<or> nr_threshold ?s = 2 ^ k' \<and> nr_nbBits ?s = k' + 1" using kk assms(11,12) le [of rem'] by auto
  moreover have "nr_remaining ?s = int rem'" "nr_charnum ?s = nr_charnum r + 1" "nr_norm ?s = (nr_norm r)[nr_charnum r := c]" by simp_all
  ultimately show ?thesis unfolding rem'_def [symmetric] by blast
qed

section \<open>The loop\<close>

lemma coded_one: "coded p rem k cs fs \<Longrightarrow> rem \<le> 1 \<Longrightarrow> cs = [] \<and> fs = [] \<and> rem = 1"
  by (induction rule: coded.induct) auto

lemma coded_width: "coded p rem k cs fs \<Longrightarrow> cs \<noteq> [] \<Longrightarrow> 0 < stream_width fs"
proof (induction rule: coded.induct)
  case (Count k rem c k' cs fs)
  obtain v n where vn: "count_code rem (2 ^ k) (k + 1) c = (v, n)" by force
  have "0 < k" using Count.hyps(2,3) by (cases k) auto
  then show ?case using count_code_fits(3) [OF Count.hyps(1,2,4,5) vn] vn by simp
qed (auto simp: pair_fields_def stream_append)

definition reader_ready :: "bytes \<Rightarrow> nat \<Rightarrow> nat \<Rightarrow> nat \<Rightarrow> nat \<Rightarrow> ncount_reader \<Rightarrow> bool" where
  "reader_ready hb maxSV1 pos rem k r \<longleftrightarrow> at_pos hb pos r \<and> nr_remaining r = int rem \<and> nr_threshold r = 2 ^ k \<and> nr_nbBits r = k + 1
     \<and> length (nr_norm r) = maxSV1 \<and> drop (nr_charnum r) (nr_norm r) = replicate (maxSV1 - nr_charnum r) 0"

definition reader_ended :: "nat \<Rightarrow> nat \<Rightarrow> ncount_reader \<Rightarrow> int list \<Rightarrow> ncount_reader \<Rightarrow> bool" where
  "reader_ended maxSV1 pos r cs r' \<longleftrightarrow> nr_remaining r' = 1 \<and> nr_charnum r' = nr_charnum r + length cs
     \<and> nr_norm r' = take (nr_charnum r) (nr_norm r) @ cs @ replicate (maxSV1 - nr_charnum r - length cs) 0
     \<and> 0 \<le> nr_bitCount r' \<and> nr_bitCount r' \<le> 32 \<and> 8 * nr_ip r' + nat (nr_bitCount r') = pos"

lemma read_loop_zeros:
  "read_loop (Suc fuel) hb maxSV1 True r
     = cbind (read_zeros hb maxSV1 r) (\<lambda>(r, stop). if stop then Ok r else read_loop (Suc fuel) hb maxSV1 False r)"
  by (simp cong: if_cong)

lemma drop_update:
  assumes "i < length xs" and "drop i xs = replicate (length xs - i) x"
  shows "take (Suc i) (xs[i := y]) = take i xs @ [y] \<and> drop (Suc i) (xs[i := y]) = replicate (length xs - Suc i) x"
proof -
  have "drop 1 (drop i xs) = drop 1 (replicate (length xs - i) x)" by (simp only: assms(2))
  then show ?thesis using assms(1) by (simp add: take_Suc_conv_app_nth)
qed

lemma read_loop_ok:
  assumes "coded p rem k cs fs" and "cs \<noteq> []" and "k \<le> 12" and "length cs \<le> fuel" and "8 \<le> length hb"
    and "reader_ready hb maxSV1 pos rem k r" and "follows hb pos fs" and "nr_charnum r + length cs \<le> maxSV1"
  shows "\<exists>r'. read_loop fuel hb maxSV1 p r = Ok r' \<and> reader_ended maxSV1 (pos + stream_width fs) r cs r'"
  using assms(1-4,6-8)
proof (induction arbitrary: fuel pos r rule: coded.induct)
  case (Count k rem c k' cs fs)
  obtain v n where vn: "count_code rem (2 ^ k) (k + 1) c = (v, n)" by force
  obtain fuel' where fuel: "fuel = Suc fuel'" using Count.prems(3) by (cases fuel) auto
  have f: "follows hb pos ([(v, n)] @ fs)" using Count.prems(5) vn by simp
  have X: "le_nat hb div 2 ^ pos mod 2 ^ n = v" and f2: "follows hb (pos + n) fs" "pos + n + stream_width fs \<le> 8 * length hb"
    using follows_append [OF f] by simp_all
  note b = coded_bounds [OF Count.hyps(6)]
  have rr: "at_pos hb pos r" "nr_remaining r = int rem" "nr_threshold r = 2 ^ k" "nr_nbBits r = k + 1" "nr_charnum r < length (nr_norm r)"
    "length (nr_norm r) = maxSV1" "drop (nr_charnum r) (nr_norm r) = replicate (maxSV1 - nr_charnum r) 0"
    using Count.prems(4,6) by (auto simp: reader_ready_def)
  have "pos + n \<le> 8 * length hb" using f2(2) by simp
  then obtain r1 where r1: "read_count maxSV1 r = Ok (r1, rem - nat \<bar>c\<bar> \<le> 1 \<or> maxSV1 \<le> nr_charnum r + 1, c = 0)"
    "ahead hb (pos + n) r1" "nr_bitCount r1 \<le> 32" "nr_remaining r1 = int (rem - nat \<bar>c\<bar>)"
    "rem - nat \<bar>c\<bar> \<le> 1 \<or> nr_threshold r1 = 2 ^ k' \<and> nr_nbBits r1 = k' + 1"
    "nr_charnum r1 = nr_charnum r + 1" "nr_norm r1 = (nr_norm r)[nr_charnum r := c]"
    using read_count_ok [OF rr(1) X vn Count.hyps(1,2,3) Count.prems(2) Count.hyps(4,5) rr(2-5)] b by blast
  note upd = drop_update [OF rr(5), of 0 c, unfolded rr(6), OF rr(7)]
  show ?case
  proof (cases "rem - nat \<bar>c\<bar> \<le> 1")
    case True
    have cs: "cs = []" "fs = []" "rem - nat \<bar>c\<bar> = 1" using coded_one [OF Count.hyps(6) True] by auto
    have "nr_norm r1 = take (Suc (nr_charnum r)) (nr_norm r1) @ drop (Suc (nr_charnum r)) (nr_norm r1)" by simp
    then have "reader_ended maxSV1 (pos + stream_width ((v, n) # fs)) r [c] r1"
      using r1 upd cs by (auto simp: reader_ended_def ahead_def)
    moreover have "read_loop fuel hb maxSV1 False r = Ok r1" using True r1(1) by (simp add: fuel)
    ultimately show ?thesis using vn cs by auto
  next
    case False
    have cs: "cs \<noteq> []" using coded_nonempty [OF Count.hyps(6)] False by auto
    have "pos + n < 8 * length hb" using coded_width [OF Count.hyps(6) cs] f2(2) by simp
    then obtain r2 where r2: "reload_header hb r1 = Ok r2" "at_pos hb (pos + n) r2" "same r1 r2" "nr_charnum r2 = nr_charnum r1"
      using reload_at_pos [OF r1(2) _ assms(5)] by blast
    have ready: "reader_ready hb maxSV1 (pos + n) (rem - nat \<bar>c\<bar>) k' r2"
      using r1 r2 rr(6) False upd by (auto simp: reader_ready_def same_def)
    have "(2 :: nat) ^ k' < 2 ^ Suc k" using b Count.hyps(2) by linarith
    then have "k' < Suc k" using power_less_imp_less_exp [of "2 :: nat" k' "Suc k"] by simp
    then obtain r3 where r3: "read_loop fuel' hb maxSV1 (c = 0) r2 = Ok r3" "reader_ended maxSV1 (pos + n + stream_width fs) r2 cs r3"
      using Count.IH [OF cs _ _ ready f2(1), of fuel'] Count.prems(2,3,6) fuel r1(6) r2(4) by auto
    have "\<not> (rem - nat \<bar>c\<bar> \<le> 1 \<or> maxSV1 \<le> nr_charnum r + 1)" using False cs Count.prems(6) by (cases cs) auto
    then have "read_loop fuel hb maxSV1 False r = Ok r3" using r1(1) r2(1) r3(1) by (simp add: fuel)
    moreover have "reader_ended maxSV1 (pos + stream_width ((v, n) # fs)) r (c # cs) r3"
      using r3(2) r1(6,7) r2(3,4) upd by (simp add: reader_ended_def same_def add.assoc)
    ultimately show ?thesis using vn by auto
  qed
next
  case (Zeros rem k c cs fs n)
  obtain fuel' where fuel: "fuel = Suc fuel'" using Zeros.prems(3) by (cases fuel) auto
  have rr: "at_pos hb pos r" "length (nr_norm r) = maxSV1" "drop (nr_charnum r) (nr_norm r) = replicate (maxSV1 - nr_charnum r) 0"
    using Zeros.prems(4) by (auto simp: reader_ready_def)
  have w: "0 < stream_width fs" using coded_width [OF Zeros.hyps(1)] by simp
  obtain r1 where r1: "read_zeros hb maxSV1 r = Ok (r1, False)" "at_pos hb (pos + stream_width (pair_fields n)) r1" "same r r1"
    "nr_charnum r1 = nr_charnum r + n" "follows hb (pos + stream_width (pair_fields n)) fs"
    using read_zeros_ok [OF rr(1) Zeros.prems(5) w assms(5), of maxSV1] Zeros.prems(6) by auto
  have d: "drop (nr_charnum r + n) (nr_norm r) = replicate (maxSV1 - (nr_charnum r + n)) 0"
    using arg_cong [OF rr(3), of "drop n"] by (simp add: add.commute)
  have ready: "reader_ready hb maxSV1 (pos + stream_width (pair_fields n)) rem k r1"
    using Zeros.prems(4) r1(2-4) d by (simp add: reader_ready_def same_def)
  obtain r3 where r3: "read_loop fuel hb maxSV1 False r1 = Ok r3"
    "reader_ended maxSV1 (pos + stream_width (pair_fields n) + stream_width fs) r1 (c # cs) r3"
    using Zeros.IH [OF _ Zeros.prems(2) _ ready r1(5), of fuel] Zeros.prems(3,6) r1(4) by auto
  have t: "take (nr_charnum r + n) (nr_norm r) = take (nr_charnum r) (nr_norm r) @ replicate n 0"
    using Zeros.prems(6) rr(3) by (simp add: take_add)
  have "read_loop fuel hb maxSV1 True r = Ok r3" using r1(1) r3(1) by (simp only: fuel read_loop_zeros) simp
  moreover have "reader_ended maxSV1 (pos + stream_width (pair_fields n @ fs)) r (replicate n 0 @ c # cs) r3"
    using r3(2) r1(3,4) t by (simp add: reader_ended_def same_def stream_append add.assoc)
  ultimately show ?case by blast
qed simp

section \<open>The round trip\<close>

lemma writeNCount_fields:
  assumes "FSE_writeNCount buf cs m L = Ok (n, buf')" and "norm_ok L (take (Suc m) cs)" and "cs ! m \<noteq> 0"
  obtains fs where "coded False (2 ^ L + 1) L (take (Suc m) cs) fs" and "fields_fit fs" and "n = (4 + stream_width fs + 7) div 8"
    and "n \<le> length buf'" and "le_nat (take n buf') = L - 5 + 2 ^ 4 * stream_number fs" and "m < length cs"
proof -
  have L: "5 \<le> L" "L \<le> 12" using assms(2) by (auto simp: norm_ok_def FSE_MAX_TABLELOG_def)
  let ?w0 = "\<lparr>nw_bitStream = 0, nw_bitCount = 0, nw_out = 0, nw_buf = buf\<rparr>"
  obtain safe r w w' where run: "m < length cs" "write_counts safe False (2 ^ L + 1) (2 ^ L) (L + 1) (take (Suc m) cs) (add_bits (L - 5) 4 ?w0) = Ok (r, w)"
    "put16 safe w = Ok w'" "n = nw_out w + (nw_bitCount w + 7) div 8" "buf' = nw_buf w'"
    using assms(1) by (auto simp: FSE_writeNCount_def FSE_writeNCount_generic_def FSE_MIN_TABLELOG_def check_that_eq_Ok cbind_eq_Ok split: if_splits)
  have one: "(1 :: nat) < 2 ^ L" using L by (intro one_less_power) simp_all
  have f: "fair (2 ^ L + 1) (take (Suc m) cs)"
    using assms(2,3) run(1) by (auto simp: fair_def norm_ok_def take_Suc_conv_app_nth)
  have w1: "writes [(L - 5, 4)] (add_bits (L - 5) 4 ?w0)"
  proof -
    have "writes [] ?w0" by (simp add: writes_def fields_fit_def)
    then show ?thesis using writes_add [of "[]" ?w0 "L - 5" 4] L by simp
  qed
  obtain fs where fs: "coded False (2 ^ L + 1) L (take (Suc m) cs) fs" "writes ([(L - 5, 4)] @ fs) w" "nw_bitCount w \<le> 16"
    using write_counts_writes [OF f _ _ L(2) w1 _ run(2)] one by (auto simp: add_bits_def)
  note p = put16_ok [OF run(3)]
  have w: "unat (nw_bitStream w) < 2 ^ nw_bitCount w" "4 + stream_width fs = 8 * nw_out w + nw_bitCount w"
    "L - 5 + 2 ^ 4 * stream_number fs = le_nat (take (nw_out w) (nw_buf w)) + 256 ^ nw_out w * unat (nw_bitStream w)"
    "fields_fit ((L - 5, 4) # fs)" using fs(2) by (auto simp: writes_def)
  have "unat (nw_bitStream w) < 2 ^ 16" using less_le_trans [OF w(1) power_increasing [OF fs(3)]] by simp
  then have N: "le_nat (take (nw_out w + 2) buf') = L - 5 + 2 ^ 4 * stream_number fs" using p(6) w(3) run(5) by simp
  have n: "n = (4 + stream_width fs + 7) div 8" using run(4) w(2) by simp
  have le: "n \<le> nw_out w + 2" "nw_out w + 2 \<le> length buf'" using run(4,5) fs(3) p(1,2) by auto
  have "L - 5 + 2 ^ 4 * stream_number fs < 2 ^ (4 + stream_width fs)" using stream_number_less [OF w(4)] by simp
  also have "\<dots> \<le> 2 ^ (8 * n)" unfolding n by (intro power_increasing) simp_all
  finally have small: "L - 5 + 2 ^ 4 * stream_number fs < 256 ^ n" by (simp only: pow256)
  have "le_nat (take n buf') = le_nat (take (nw_out w + 2) buf') mod 256 ^ n"
    using le_nat_take_drop [of n 0 "take (nw_out w + 2) buf'"] le by (simp add: min_absorb1)
  then have "le_nat (take n buf') = L - 5 + 2 ^ 4 * stream_number fs" using N small by simp
  then show thesis using that fs(1) w(4) n le run(1) by (simp add: fields_fit_def)
qed

lemma read_header_ok:
  assumes "8 \<le> length hb" and "follows hb 0 ((L - 5, 4) # fs)" and "coded False (2 ^ L + 1) L cs fs" and "length cs = Suc m"
    and "m \<le> maxSV" and "5 \<le> L" and "L \<le> 12"
  shows "read_header maxSV hb = Ok ((4 + stream_width fs + 7) div 8, m, L, cs @ replicate (maxSV - m) 0)"
proof -
  have X: "le_nat hb mod 2 ^ 4 = L - 5" and f: "follows hb 4 fs"
    using follows_append [of hb 0 "[(L - 5, 4)]" fs] assms(2) by simp_all
  obtain v where v: "MEM_readLE32 hb 0 = Ok v" "unat v = le_nat hb mod 2 ^ 32" using read_shifted [of 0 hb 0] assms(1) by auto
  have v4: "unat (drop_bit 4 v) = le_nat hb div 2 ^ 4 mod 2 ^ 28" using read_shifted [of 0 hb 4] assms(1) v(1) by auto
  have "unat (v AND 0xF) = unat v mod 2 ^ 4" using unat_and_mask [of 4 v] by (simp add: mask_numeral)
  also have "\<dots> = L - 5" using X v(2) by (simp add: mod_mod_cancel)
  finally have L: "unat (v AND 0xF) + FSE_MIN_TABLELOG = L" using assms(6) by (simp add: FSE_MIN_TABLELOG_def)
  let ?r = "\<lparr>nr_ip = 0, nr_bitStream = drop_bit 4 v, nr_bitCount = 4, nr_charnum = 0, nr_remaining = 2 ^ L + 1,
      nr_threshold = 2 ^ L, nr_nbBits = L + 1, nr_norm = replicate (maxSV + 1) 0\<rparr>"
  have cs: "cs \<noteq> []" using assms(4) by auto
  have "reader_ready hb (maxSV + 1) 4 (2 ^ L + 1) L ?r"
    using assms(1) v4 by (auto simp: reader_ready_def at_pos_def)
  then obtain r' where r': "read_loop (maxSV + 1) hb (maxSV + 1) False ?r = Ok r'" "reader_ended (maxSV + 1) (4 + stream_width fs) ?r cs r'"
    using read_loop_ok [OF assms(3) cs assms(7) _ assms(1) _ f, of "maxSV + 1" "maxSV + 1" ?r] assms(4,5) by auto
  have "nr_ip r' + nat ((nr_bitCount r' + 7) div 8) = (4 + stream_width fs + 7) div 8"
  proof -
    obtain b where b: "nr_bitCount r' = int b" using r'(2) zero_le_imp_eq_int by (auto simp: reader_ended_def)
    then have "4 + stream_width fs + 7 = 8 * nr_ip r' + (b + 7)" using r'(2) by (simp add: reader_ended_def)
    moreover have "nat ((nr_bitCount r' + 7) div 8) = (b + 7) div 8" by (simp add: b nat_div_distrib nat_add_distrib)
    ultimately show ?thesis by simp
  qed
  moreover have "\<not> FSE_TABLELOG_ABSOLUTE_MAX < L" using assms(7) by (simp add: FSE_TABLELOG_ABSOLUTE_MAX_def)
  ultimately show ?thesis
    using r' assms(4,5) by (simp add: read_header_def v(1) Let_def L check_that_def reader_ended_def)
qed

lemma ncount_roundtrip_ok:
  assumes "FSE_writeNCount buf cs m L = Ok (n, buf')" and "norm_ok L (take (Suc m) cs)" and "cs ! m \<noteq> 0" and "m \<le> maxSV"
  shows "FSE_readNCount maxSV (take n buf' @ rest) = Ok (n, m, L, take (Suc m) cs @ replicate (maxSV - m) 0)"
proof -
  obtain fs where fs: "coded False (2 ^ L + 1) L (take (Suc m) cs) fs" "fields_fit fs" "n = (4 + stream_width fs + 7) div 8"
    "n \<le> length buf'" "le_nat (take n buf') = L - 5 + 2 ^ 4 * stream_number fs" "m < length cs"
    using writeNCount_fields [OF assms(1-3)] .
  have L: "5 \<le> L" "L \<le> 12" using assms(2) by (auto simp: norm_ok_def FSE_MAX_TABLELOG_def)
  have fit: "fields_fit ((L - 5, 4) # fs)" using fs(2) L by (simp add: fields_fit_def)
  have width: "4 + stream_width fs \<le> 8 * n" unfolding fs(3) by simp
  have "read_header maxSV (take n buf' @ more) = Ok (n, m, L, take (Suc m) cs @ replicate (maxSV - m) 0)"
    if "8 \<le> length (take n buf' @ more)" for more
  proof -
    have "le_nat (take n buf' @ more) = L - 5 + 2 ^ 4 * stream_number fs + 256 ^ n * le_nat more"
      using fs(4,5) by (simp add: le_nat_append)
    moreover have "(256 :: nat) ^ n = 2 ^ (4 + stream_width fs) * 2 ^ (8 * n - (4 + stream_width fs))"
      using width by (simp add: pow256 flip: power_add)
    moreover have "L - 5 + 2 ^ 4 * stream_number fs < 2 ^ (4 + stream_width fs)" using stream_number_less [OF fit] by simp
    ultimately have "le_nat (take n buf' @ more) mod 2 ^ (4 + stream_width fs) = L - 5 + 2 ^ 4 * stream_number fs"
      by (simp add: mult.assoc)
    then have "follows (take n buf' @ more) 0 ((L - 5, 4) # fs)"
      using fit width fs(4) by (simp add: follows_def)
    then show ?thesis using read_header_ok [OF that _ fs(1)] fs(3,6) assms(4) L by simp
  qed
  note h = this
  show ?thesis
    using h [of rest] h [of "rest @ replicate (8 - (n + length rest)) 0"] fs(4) by (auto simp: FSE_readNCount_def check_that_def)
qed

text \<open>C37: the header reads back: normalized counts that fill their table and end with a symbol that occurs, written
  into a buffer large enough, are read from what was written, whatever follows it, with the same log and largest symbol; the
  symbols beyond get no count, and the reader stops where the writer did.\<close>

theorem ncount_roundtrip:
  assumes "FSE_writeNCount buf cs m L = Ok (n, buf')" and "norm_ok L (take (Suc m) cs)" and "cs ! m \<noteq> 0" and "m \<le> maxSV"
  shows "FSE_readNCount maxSV (take n buf' @ rest) = Ok (n, m, L, take (Suc m) cs @ replicate (maxSV - m) 0)"
  using assms by (rule ncount_roundtrip_ok)

lemma ncount_roundtrip_witness:
  "FSE_writeNCount (replicate 8 0) [3, 0, 0, 0, 0, 0, -1, -1, 57, 2] 9 6 = Ok (5, [65, 4, 7, 64, 63, 0, 0, 0])
    \<and> FSE_readNCount 11 ([65, 4, 7, 64, 63] @ [7]) = Ok (5, 9, 6, [3, 0, 0, 0, 0, 0, -1, -1, 57, 2, 0, 0])"
proof -
  have "FSE_writeNCount_generic (replicate 8 0) [3, 0, 0, 0, 0, 0, -1, -1, 57, 2] 9 6 False = Ok (5, [65, 4, 7, 64, 63, 0, 0, 0])"
    by code_simp
  then have w: "FSE_writeNCount (replicate 8 0) [3, 0, 0, 0, 0, 0, -1, -1, 57, 2] 9 6 = Ok (5, [65, 4, 7, 64, 63, 0, 0, 0])"
    by (simp add: FSE_writeNCount_def FSE_NCountWriteBound_def w32_def check_that_def FSE_MAX_TABLELOG_def FSE_MIN_TABLELOG_def)
  have "norm_ok 6 [3, 0, 0, 0, 0, 0, -1, -1, 57, 2]" by (simp add: norm_ok_def weight_def FSE_MAX_TABLELOG_def)
  then show ?thesis using w ncount_roundtrip [OF w, of 11 "[7]"] by (simp add: eval_nat_numeral)
qed

end
