(* ===== verification/Zstd_WeightsProofs.thy ===== *)
theory Zstd_WeightsProofs
  imports Zstd_Weights Zstd_NCountReads Zstd_FSEProofs
begin

text \<open>
  Compressed weights are decompressed again: the histogram is a normal form for normalization, the normalized counts
  make both tables, the header carries them over, and the stream follows it.
\<close>

section \<open>The histogram\<close>

lemma count_all_ok:
  assumes "count_all bs cs = Ok cs'"
  shows "length cs' = length cs" and "sum_list cs' = sum_list cs + length bs"
    and "s < length cs \<Longrightarrow> cs' ! s = cs ! s + length (filter (\<lambda>b. unat b = s) bs)"
    and "\<forall>b \<in> set bs. unat b < length cs"
  using assms
proof (induction bs arbitrary: cs)
  case (Cons b bs)
  { case 1 then show ?case using Cons.IH(1) by (auto split: if_splits)
  next
    case 2
    then have "unat b < length cs" "count_all bs (cs[unat b := cs ! unat b + 1]) = Ok cs'" by (auto split: if_splits)
    then show ?case using Cons.IH(2) by (auto simp: sum_list_update)
  next
    case 3
    then have r: "unat b < length cs" "count_all bs (cs[unat b := cs ! unat b + 1]) = Ok cs'" by (auto split: if_splits)
    have "cs' ! s = cs[unat b := cs ! unat b + 1] ! s + length (filter (\<lambda>b. unat b = s) bs)"
      by (rule Cons.IH(3) [OF _ r(2)]) (use 3 in simp)
    then show ?case using r(1) by (cases "s = unat b") simp_all
  next
    case 4
    then have r: "unat b < length cs" "count_all bs (cs[unat b := cs ! unat b + 1]) = Ok cs'" by (auto split: if_splits)
    then show ?case using Cons.IH(4) [OF r(2)] by simp }
qed auto

lemma trim_zeros_ok: "trim_zeros m cs \<le> m \<and> (\<forall>s. trim_zeros m cs < s \<and> s \<le> m \<longrightarrow> cs ! s = 0) \<and> (trim_zeros m cs = 0 \<or> cs ! trim_zeros m cs \<noteq> 0)"
  by (induction m) (auto simp: le_Suc_eq)

lemma fold_max_bound: "(\<forall>x \<in> set xs. x \<le> fold max xs a) \<and> fold max xs (a :: nat) \<in> insert a (set xs)"
  using Max_ge [of "set (a # xs)"] Max_in [of "set (a # xs)"] unfolding Max.set_eq_fold by auto

text \<open>The counts of a string that is not empty.\<close>

lemma HIST_count_simple_ok:
  assumes "HIST_count_simple M src = Ok (most, m, cs)" and "src \<noteq> []"
  shows "m \<le> M" and "length cs = Suc M" and "sum_list (take (Suc m) cs) = length src" and "cs ! m \<noteq> 0"
    and "\<forall>b \<in> set src. unat b \<le> m \<and> cs ! unat b \<noteq> 0" and "\<forall>c \<in> set (take (Suc m) cs). c \<le> most" and "most \<le> length src"
proof -
  have cs: "count_all src (replicate (M + 1) 0) = Ok cs" "m = trim_zeros M cs" "most = fold max (take (m + 1) cs) 0"
    using assms by (auto simp: HIST_count_simple_def cbind_eq_Ok Let_def)
  note c = count_all_ok [OF cs(1)]
  show len: "length cs = Suc M" using c(1) by simp
  show m: "m \<le> M" using trim_zeros_ok [of M cs] cs(2) by simp
  have sum: "sum_list cs = length src" using c(2) by (simp add: sum_list_replicate)
  have zero: "cs ! s = 0" if "m < s" "s \<le> M" for s using trim_zeros_ok [of M cs] cs(2) that by simp
  have "sum_list (drop (Suc m) cs) = 0" using zero len by (auto simp: sum_list_eq_0_iff in_set_conv_nth)
  then show t: "sum_list (take (Suc m) cs) = length src"
    using sum sum_list_append [of "take (Suc m) cs" "drop (Suc m) cs"] by simp
  show "cs ! m \<noteq> 0"
  proof (cases "m = 0")
    case True
    then show ?thesis using t len assms(2) by (simp add: take_Suc_conv_app_nth)
  qed (use trim_zeros_ok [of M cs] cs(2) in simp)
  show "\<forall>b \<in> set src. unat b \<le> m \<and> cs ! unat b \<noteq> 0"
  proof
    fix b
    assume b: "b \<in> set src"
    then have "filter (\<lambda>x. unat x = unat b) src \<noteq> []" by (auto simp: filter_empty_conv)
    moreover have "unat b < Suc M" using c(4) b by simp
    ultimately have "cs ! unat b \<noteq> 0" using c(3) [of "unat b"] by simp
    then show "unat b \<le> m \<and> cs ! unat b \<noteq> 0" using zero [of "unat b"] \<open>unat b < Suc M\<close> by (meson leI less_Suc_eq_le)
  qed
  show "\<forall>c \<in> set (take (Suc m) cs). c \<le> most" using fold_max_bound [of "take (Suc m) cs" 0] cs(3) by simp
  have "most = 0 \<or> most \<in> set (take (Suc m) cs)" using fold_max_bound [of "take (Suc m) cs" 0] cs(3) by auto
  then show "most \<le> length src" using t member_le_sum_list [of most "take (Suc m) cs"] by auto
qed

section \<open>Normalization of more than one symbol\<close>

lemma norm_loop_no_rle: "norm_loop tot scale step low lp cs st = Ok (st', rle) \<Longrightarrow> tot \<notin> set cs \<Longrightarrow> \<not> rle"
  by (induction cs arbitrary: st) (auto simp: cbind_eq_Ok split: if_splits)

lemma normalize_take:
  "m < length cs \<Longrightarrow> FSE_normalizeCount prev L cs tot m lp = FSE_normalizeCount prev L (take (Suc m) cs) tot m lp"
  by (simp add: FSE_normalizeCount_def)

lemma normalize_log:
  assumes "FSE_normalizeCount prev L cs tot m lp = Ok (L', ns)" and "tot \<notin> set (take (Suc m) cs)" and "L \<noteq> 0"
  shows "L' = L"
  using assms norm_loop_no_rle
  by (fastforce simp: FSE_normalizeCount_def Let_def check_that_eq_Ok cbind_eq_Ok split: if_splits)

text \<open>With two symbols none takes the whole table.\<close>

lemma two_weights: "i < length ns \<Longrightarrow> j < length ns \<Longrightarrow> i \<noteq> j \<Longrightarrow> weight (ns ! i) + weight (ns ! j) \<le> sum_list (map weight ns)"
proof -
  assume a: "i < length ns" "j < length ns" "i \<noteq> j"
  have "(\<Sum>k \<in> {i, j}. weight (ns ! k)) \<le> (\<Sum>k = 0..<length ns. weight (ns ! k))" using a by (intro sum_mono2) auto
  then show ?thesis using a by (simp add: sum_list_sum_nth)
qed

lemma no_full_count:
  assumes "norm_ok L ns" and "i < length ns" and "j < length ns" and "i \<noteq> j" and "ns ! i \<noteq> 0" and "ns ! j \<noteq> 0"
  shows "2 ^ L \<notin> set ns"
proof
  assume "2 ^ L \<in> set ns"
  then obtain k where k: "k < length ns" "ns ! k = 2 ^ L" by (auto simp: in_set_conv_nth)
  obtain l where l: "l < length ns" "l \<noteq> k" "ns ! l \<noteq> 0" using assms(2-6) by (cases "k = i") auto
  have "-1 \<le> ns ! l" using assms(1) l(1) by (simp add: norm_ok_def)
  then have "0 < weight (ns ! l)" using l(3) by (auto simp: weight_def)
  moreover have "(2 :: int) ^ L \<noteq> -1" using zero_less_power [of "2 :: int" L] by linarith
  then have "weight (ns ! k) = 2 ^ L" using k(2) by (simp add: weight_def nat_power_eq)
  ultimately show False using two_weights [OF k(1) l(1)] l(2) assms(1) by (simp add: norm_ok_def)
qed

lemma highbit_le: "0 < v \<Longrightarrow> v < 2 ^ Suc k \<Longrightarrow> v < 2 ^ 32 \<Longrightarrow> ZSTD_highbit32 (of_nat v) \<le> k"
  using power_less_imp_less_exp [of "2 :: nat" _ "Suc k", OF _ le_less_trans [OF highbit_bounds(1)]] by (simp add: less_Suc_eq_le)

lemma highbit_ge:
  assumes "2 ^ k \<le> v" and "v < 2 ^ 32"
  shows "k \<le> ZSTD_highbit32 (of_nat v)"
proof -
  have "0 < v" using assms(1) by (metis gr0I le_zero_eq power_not_zero zero_neq_numeral)
  then have "(2 :: nat) ^ k < 2 ^ Suc (ZSTD_highbit32 (of_nat v))" using highbit_bounds(2) [of v] assms by linarith
  then have "k < Suc (ZSTD_highbit32 (of_nat v))" by (rule power_less_imp_less_exp [rotated]) simp
  then show ?thesis by simp
qed

lemma optimal_log:
  assumes "FSE_optimalTableLog 6 n m = Ok L" and "m \<le> 12" and "n < 2 ^ 31"
  shows "5 \<le> L" and "L \<le> 6" and "5 \<le> n \<Longrightarrow> n \<le> 256 \<Longrightarrow> L = 5"
proof -
  let ?h = "ZSTD_highbit32 (of_nat (n - 1))"
  obtain k where k: "FSE_minTableLog n m = Ok k" "2 \<le> n"
    "L = (let t = (if sub32 ?h 2 < 6 then sub32 ?h 2 else 6); t = (if t < k then k else t); t = (if t < 5 then 5 else t) in if 12 < t then 12 else t)"
    using assms(1) by (auto simp: FSE_optimalTableLog_def FSE_optimalTableLog_internal_def cbind_eq_Ok Let_def FSE_MIN_TABLELOG_def FSE_MAX_TABLELOG_def
      split: if_splits)
  have m: "0 < m" "k \<le> ZSTD_highbit32 (of_nat m) + 2" using k(1) by (auto simp: FSE_minTableLog_def Let_def split: if_splits)
  have "ZSTD_highbit32 (of_nat m) \<le> 3" by (rule highbit_le) (use m assms(2) in simp_all)
  then have k5: "k \<le> 5" using m(2) by simp
  show "5 \<le> L" "L \<le> 6" using k(3) k5 by (auto simp: Let_def)
  show "L = 5" if "5 \<le> n" "n \<le> 256"
  proof -
    have "2 \<le> ?h" by (rule highbit_ge) (use that in simp_all)
    moreover have "?h \<le> 7" by (rule highbit_le) (use that in simp_all)
    ultimately have "sub32 ?h 2 \<le> 5" by (simp add: sub32_eq)
    then show ?thesis using k(3) k5 by (auto simp: Let_def)
  qed
qed

section \<open>The round trip of the weights\<close>

lemma built_take:
  "m < length ns \<Longrightarrow> FSE_buildCTable_wksp junk ns m L w = FSE_buildCTable_wksp junk (take (Suc m) ns) m L w"
  "m < length ns \<Longrightarrow> FSE_buildDTable_internal ns m L w = FSE_buildDTable_wksp (take (Suc m) ns) m L w"
  by (simp_all add: FSE_buildCTable_wksp_def FSE_buildDTable_internal_def FSE_buildDTable_wksp_def)

lemma scratch_is_enough:
  assumes "L \<le> 6" and "m \<le> 12"
  shows "CTABLE_WORKSPACE_SIZE m L + 2 * (m mod 2) \<le> scratch_size"
proof -
  have "(2 :: nat) ^ L \<le> 2 ^ 6" using assms(1) by (intro power_increasing) simp_all
  moreover have "m = 12 \<or> m \<le> 11" using assms(2) by auto
  ultimately show ?thesis
    by (auto simp: CTABLE_WORKSPACE_SIZE_def scratch_size_def HUF_TABLELOG_MAX_def MAX_FSE_TABLELOG_FOR_HUFF_HEADER_def)
qed

text \<open>What compression that succeeds has done.\<close>

lemma compressWeights_steps:
  assumes "HUF_compressWeights junk norm dst src ws wsz = Ok (n, op)" and "1 < n" and "length src < 2 ^ 31"
  obtains m L ns hSize buf cSize rest where "norm_ok L (take (Suc m) ns)" and "m < length ns" and "m \<le> 12" and "ns ! m \<noteq> 0"
    and "L \<le> 6" and "5 \<le> length src \<Longrightarrow> length src \<le> 256 \<Longrightarrow> L = 5" and "3 \<le> length src"
    and "2 ^ L \<notin> set (take (Suc m) ns)" and "set src \<subseteq> used_symbols (take (Suc m) ns)"
    and "FSE_writeNCount dst ns m L = Ok (hSize, buf)"
    and "cbind (FSE_buildCTable_wksp junk ns m L scratch_size) (FSE_compress_usingCTable (drop hSize buf) src) = Ok (cSize, rest)"
    and "cSize \<noteq> 0" and "n = hSize + cSize" and "op = take hSize buf @ rest"
proof -
  obtain most m cs where h: "HIST_count_simple 12 src = Ok (most, m, cs)" "2 \<le> length src" "most \<noteq> length src" "most \<noteq> 1"
    and "\<exists>L L' ns hSize buf CTable cSize rest. FSE_optimalTableLog 6 (length src) m = Ok L
      \<and> FSE_normalizeCount norm L cs (length src) m False = Ok (L', ns) \<and> FSE_writeNCount dst ns m L = Ok (hSize, buf)
      \<and> FSE_buildCTable_wksp junk ns m L scratch_size = Ok CTable \<and> FSE_compress_usingCTable (drop hSize buf) src CTable = Ok (cSize, rest)
      \<and> n = (if cSize = 0 then 0 else hSize + cSize) \<and> op = take hSize buf @ rest"
    using assms(1,2)
    by (auto simp: HUF_compressWeights_def cbind_eq_Ok check_that_eq_Ok Let_def HUF_TABLELOG_MAX_def MAX_FSE_TABLELOG_FOR_HUFF_HEADER_def
      split: if_splits)
  then obtain L L' ns hSize buf CTable cSize rest where r: "FSE_optimalTableLog 6 (length src) m = Ok L"
    "FSE_normalizeCount norm L cs (length src) m False = Ok (L', ns)" "FSE_writeNCount dst ns m L = Ok (hSize, buf)"
    "FSE_buildCTable_wksp junk ns m L scratch_size = Ok CTable" "FSE_compress_usingCTable (drop hSize buf) src CTable = Ok (cSize, rest)"
    "n = (if cSize = 0 then 0 else hSize + cSize)" "op = take hSize buf @ rest" by blast
  have "src \<noteq> []" using h(2) by auto
  note c = HIST_count_simple_ok [OF h(1) this]
  note opt = optimal_log [OF r(1) c(1) assms(3)]
  let ?cs = "take (Suc m) cs"
  have less: "m < length cs" using c(1,2) by simp
  have small: "\<forall>x \<in> set ?cs. x < length src" using c(6,7) h(3) by fastforce
  have n': "FSE_normalizeCount norm L ?cs (length src) m False = Ok (L', ns)" using r(2) normalize_take [OF less] by metis
  have "length src \<notin> set ?cs" using small by blast
  moreover have "L \<noteq> 0" using opt(1) by simp
  ultimately have L': "L' = L" using normalize_log [OF n'] less by (simp add: min_absorb1)
  have len: "length ?cs = Suc m" using less by simp
  have sh: "shares ?cs (take (Suc m) ns)" "weights (take (Suc m) ns) = 2 ^ L"
    using normalize_shares [OF n' _ len c(3) assms(3)] L' opt(1) c(1) by simp_all
  have nm: "norm_ok L (take (Suc m) ns)" by (rule shares_norm_ok [OF sh]) (use opt len c(1) in \<open>simp_all add: FSE_MAX_TABLELOG_def\<close>)
  have mlen: "m < length ns" using shares_length [OF sh(1)] len by simp
  have used: "ns ! i \<noteq> 0 \<longleftrightarrow> cs ! i \<noteq> 0" if "i \<le> m" for i
  proof -
    have "i < length ?cs" using that len by simp
    from shares_nth [OF sh(1) this] show ?thesis using that by (auto simp: share_def split: if_splits)
  qed
  have "\<exists>j < Suc m. j \<noteq> m \<and> cs ! j \<noteq> 0"
  proof (rule ccontr)
    assume a: "\<not> ?thesis"
    then have "\<forall>i < m. cs ! i = 0" by (metis less_SucI less_irrefl_nat)
    then have "sum_list (take m cs) = 0" using less by (auto simp: in_set_conv_nth)
    then have "cs ! m = length src" using c(3) less by (simp add: take_Suc_conv_app_nth del: sum_list_eq_0_iff)
    moreover have "cs ! m \<in> set ?cs" using less by (simp add: take_Suc_conv_app_nth)
    ultimately show False using small by fastforce
  qed
  then obtain j where j: "j < Suc m" "j \<noteq> m" "cs ! j \<noteq> 0" by blast
  have nofull: "2 ^ L \<notin> set (take (Suc m) ns)"
    by (rule no_full_count [OF nm, of j m]) (use j mlen used c(4) in auto)
  have three: "3 \<le> length src"
  proof (rule ccontr)
    assume "\<not> ?thesis"
    then have two: "length src = 2" using h(2) by simp
    have "cs ! m \<in> set ?cs" using less by (simp add: take_Suc_conv_app_nth)
    then have "cs ! m \<le> most" "most < 2" using c(6,7) h(3) two by auto
    then show False using h(4) c(4) by simp
  qed
  have "ns ! unat b \<noteq> 0" if "b \<in> set src" for b using c(5) used that by blast
  then have "set src \<subseteq> used_symbols (take (Suc m) ns)"
    using c(5) mlen by (auto simp: used_symbols_def less_Suc_eq_le)
  moreover have "ns ! m \<noteq> 0" using used c(4) by simp
  ultimately show thesis using that [OF nm mlen c(1) _ opt(2,3) three nofull _ r(3)] r(4-7) assms(2) by (auto split: if_splits)
qed

lemma decompress_room: "FSE_DECOMPRESS_WKSP_SIZE L m \<le> w \<Longrightarrow> 512 + FSE_DTABLE_SIZE L + DTABLE_WKSP_SIZE L m \<le> w"
proof -
  have "x \<le> 4 * ((x + 3) div 4)" for x :: nat by presburger
  then show "FSE_DECOMPRESS_WKSP_SIZE L m \<le> w \<Longrightarrow> ?thesis"
    using order_trans unfolding FSE_DECOMPRESS_WKSP_SIZE_def FSE_DTABLE_SIZE_def by fastforce
qed

lemma decompress_size_mono:
  assumes "L \<le> L'" and "m \<le> m'"
  shows "FSE_DECOMPRESS_WKSP_SIZE L m \<le> FSE_DECOMPRESS_WKSP_SIZE L' m'"
proof -
  have p: "(2 :: nat) ^ L \<le> 2 ^ L'" using assms(1) by (intro power_increasing) simp_all
  then have "DTABLE_WKSP_SIZE L m + 3 \<le> DTABLE_WKSP_SIZE L' m' + 3" 
    unfolding DTABLE_WKSP_SIZE_def by (intro add_mono mult_le_mono order_refl p assms(2))
  from div_le_mono [OF this, of 4] show ?thesis
    unfolding FSE_DECOMPRESS_WKSP_SIZE_def by (intro add_mono mult_le_mono order_refl p)
qed

lemma weights_roundtrip_ok:
  assumes "HUF_compressWeights junk norm dst src ws wsz = Ok (n, op)" and "1 < n" and "length src < 2 ^ 31"
    and "FSE_DECOMPRESS_WKSP_SIZE 6 12 \<le> w \<or> 5 \<le> length src \<and> length src \<le> 256 \<and> FSE_DECOMPRESS_WKSP_SIZE 5 12 \<le> w"
    and "length src \<le> cap"
  shows "FSE_decompress_wksp_bmi2 cap (take n op) 6 w = Ok src" and "n \<le> length op"
proof -
  obtain m L ns hSize buf cSize rest where s: "norm_ok L (take (Suc m) ns)" "m < length ns" "m \<le> 12" "ns ! m \<noteq> 0"
    "L \<le> 6" "5 \<le> length src \<Longrightarrow> length src \<le> 256 \<Longrightarrow> L = 5" "3 \<le> length src"
    "2 ^ L \<notin> set (take (Suc m) ns)" "set src \<subseteq> used_symbols (take (Suc m) ns)"
    and r: "FSE_writeNCount dst ns m L = Ok (hSize, buf)"
    "cbind (FSE_buildCTable_wksp junk ns m L scratch_size) (FSE_compress_usingCTable (drop hSize buf) src) = Ok (cSize, rest)"
    "cSize \<noteq> 0" "n = hSize + cSize" "op = take hSize buf @ rest"
    using compressWeights_steps [OF assms(1-3)] by metis
  let ?ns = "take (Suc m) ns"
  have w: "FSE_DECOMPRESS_WKSP_SIZE L m \<le> w"
    using assms(4) s(6) decompress_size_mono [OF s(5,3)] decompress_size_mono [of 5 5 m 12] s(3) by auto
  note room = decompress_room [OF w]
  define w' where "w' = w - (512 + FSE_DTABLE_SIZE L)"
  have w': "DTABLE_WKSP_SIZE L m \<le> w'" using room by (simp add: w'_def)
  have len: "length ?ns = Suc m" using s(2) by simp
  obtain t ct dt where b: "FSE_buildCTable_wksp junk ?ns m L scratch_size = Ok ct" "FSE_buildDTable_wksp ?ns m L w' = Ok dt"
    "fse_built L ?ns t ct dt"
    using fse_built_exists [OF s(1) len scratch_is_enough [OF s(5,3)] w'] by blast
  have "FSE_BLOCKBOUND (length src) \<le> length (drop hSize buf) \<longrightarrow> L * length src + 65 < 8 * length (drop hSize buf)"
  proof
    assume "FSE_BLOCKBOUND (length src) \<le> length (drop hSize buf)"
    then have "length src + 12 \<le> length (drop hSize buf)" by (simp add: FSE_BLOCKBOUND_def)
    moreover have "L * length src \<le> 6 * length src" using s(5) by simp
    ultimately show "L * length src + 65 < 8 * length (drop hSize buf)" by linarith
  qed
  from built_compress_room [OF b(3) s(8,7,9) _ this]
  have c: "cSize \<le> length rest" "\<forall>cap \<ge> length src. FSE_decompress_usingDTable_generic cap (take cSize rest) dt (dt_fastMode dt) = Ok src"
    using r(2,3) b(1) built_take(1) [OF s(2)] by auto
  obtain fs where "hSize \<le> length buf" using writeNCount_fields [OF r(1) s(1,4)] by metis
  note h = this
  have tk: "take n op = take hSize buf @ take cSize rest" using h r(4,5) by simp
  show "n \<le> length op" using h c(1) r(4,5) by simp
  have "FSE_readNCount 255 (take n op) = Ok (hSize, m, L, ?ns @ replicate (255 - m) 0)"
    unfolding tk by (rule ncount_roundtrip_ok [OF r(1) s(1,4)]) (use s(3) in simp)
  moreover have "FSE_buildDTable_internal (?ns @ replicate (255 - m) 0) m L w' = Ok dt"
    using built_take(2) [of m "?ns @ replicate (255 - m) 0" L w'] len b(2) by simp
  moreover have "512 \<le> w" using room by simp
  ultimately show "FSE_decompress_wksp_bmi2 cap (take n op) 6 w = Ok src"
    using s(5) w room c(2) assms(5) h
    by (simp add: FSE_decompress_wksp_bmi2_def FSE_decompress_wksp_body_def check_that_def tk w'_def)
qed

section \<open>The property\<close>

text \<open>C38: weights that were put out as a header and a stream of their own are given back by the decompression the reader of a
  table calls, when the destination has room for them and the work space is that of tables with logs of up to six, or of five
  for the at most 256 weights a table has.\<close>

theorem weights_roundtrip:
  assumes "HUF_compressWeights junk norm dst src ws wsz = Ok (n, op)" and "1 < n" and "length src < 2 ^ 31"
    and "FSE_DECOMPRESS_WKSP_SIZE 6 12 \<le> w \<or> 5 \<le> length src \<and> length src \<le> 256 \<and> FSE_DECOMPRESS_WKSP_SIZE 5 12 \<le> w"
    and "length src \<le> cap"
  shows "FSE_decompress_wksp_bmi2 cap (take n op) 6 w = Ok src"
  using weights_roundtrip_ok(1) [OF assms] .

text \<open>Six weights, five of them equal, in a destination of sixteen bytes.\<close>

lemma example_weights:
  "\<exists>n op. HUF_compressWeights (\<lambda>_. 0) (replicate 3 0) (replicate 16 0) [2, 1, 1, 1, 1, 1] 64 10000 = Ok (n, op) \<and> 1 < n"
proof -
  let ?src = "[2, 1, 1, 1, 1, 1] :: u8 list"
  have sizes: "\<not> 10000 < CompressWeightsWksp_size" and scratch: "CTABLE_WORKSPACE_SIZE 2 5 \<le> scratch_size"
    by (simp_all add: CompressWeightsWksp_size_def scratch_size_def CTABLE_WORKSPACE_SIZE_def
        FSE_CTABLE_SIZE_U32_def HUF_TABLELOG_MAX_def MAX_FSE_TABLELOG_FOR_HUFF_HEADER_def)
  have align: "HUF_alignUpWorkspace 64 10000 4 = Ok (Some 64, 10000)"
    by (simp add: HUF_alignUpWorkspace_def HUF_WORKSPACE_MAX_ALIGNMENT_def)
  have hist: "HIST_count_simple HUF_TABLELOG_MAX ?src = Ok (5, 2, [0, 5, 1] @ replicate 10 0)" by code_simp
  have h: "ZSTD_highbit32 6 = 2" "ZSTD_highbit32 5 = 2" "ZSTD_highbit32 2 = 1" by code_simp+
  have log: "FSE_optimalTableLog MAX_FSE_TABLELOG_FOR_HUFF_HEADER 6 2 = Ok 5"
    by (simp add: FSE_optimalTableLog_def FSE_optimalTableLog_internal_def FSE_minTableLog_def MAX_FSE_TABLELOG_FOR_HUFF_HEADER_def
        FSE_MIN_TABLELOG_def FSE_MAX_TABLELOG_def Let_def w32_def sub32_def h)
  have normal: "FSE_normalizeCount (replicate 3 0) 5 ([0, 5, 1] @ replicate 10 0) 6 2 False = Ok (5, [0, 27, 5])"
    by (simp add: FSE_normalizeCount_def FSE_minTableLog_def Let_def check_that_def w32_def w64_def proba_of_def rtbTable_def
        FSE_MIN_TABLELOG_def FSE_MAX_TABLELOG_def h)
  have "FSE_writeNCount_generic (replicate 16 0) [0, 27, 5] 2 5 True = Ok (3, [16, 224, 7] @ replicate 13 0)"
    by code_simp
  then have header: "FSE_writeNCount (replicate 16 0) [0, 27, 5] 2 5 = Ok (3, [16, 224, 7] @ replicate 13 0)"
    by (simp add: FSE_writeNCount_def FSE_NCountWriteBound_def w32_def check_that_def FSE_MAX_TABLELOG_def FSE_MIN_TABLELOG_def)
  have "norm_ok 5 [0, 27, 5]" by (simp add: norm_ok_def weight_def FSE_MAX_TABLELOG_def)
  then obtain t ct dt where ct: "FSE_buildCTable_wksp (\<lambda>_. 0) [0, 27, 5] 2 5 scratch_size = Ok ct" and b: "fse_built 5 [0, 27, 5] t ct dt"
    using fse_built_exists [of 5 "[0, 27, 5]" 2 scratch_size "DTABLE_WKSP_SIZE 5 2" "\<lambda>_. 0"] scratch by auto
  obtain k buf where "FSE_compress_usingCTable (replicate 13 0) ?src ct = Ok (k, buf)" "k \<noteq> 0"
    using built_compress_room [OF b, of ?src "replicate 13 0" True] by (auto simp: used_symbols_def)
  moreover have "length ?src = 6" "length [16, 224, 7 :: u8] = 3" by simp_all
  ultimately show ?thesis using sizes
    by (simp add: HUF_compressWeights_def align hist log normal header ct check_that_def del: list.size append_Cons One_nat_def)
qed

lemma weights_roundtrip_witness:
  "\<exists>n op. HUF_compressWeights (\<lambda>_. 0) (replicate 3 0) (replicate 16 0) [2, 1, 1, 1, 1, 1] 64 10000 = Ok (n, op) \<and> 1 < n
    \<and> FSE_decompress_wksp_bmi2 255 (take n op) 6 720 = Ok [2, 1, 1, 1, 1, 1]"
proof -
  obtain n op where n: "HUF_compressWeights (\<lambda>_. 0) (replicate 3 0) (replicate 16 0) [2, 1, 1, 1, 1, 1] 64 10000 = Ok (n, op)" "1 < n"
    using example_weights by blast
  have "FSE_DECOMPRESS_WKSP_SIZE 5 12 \<le> 720" by (simp add: FSE_DECOMPRESS_WKSP_SIZE_def DTABLE_WKSP_SIZE_def)
  then show ?thesis using n weights_roundtrip [OF n, of 720 255] by auto
qed

end
