(* ===== verification/Zstd_HuffmanHeader.thy ===== *)
theory Zstd_HuffmanHeader
  imports Zstd_WeightsProofs
begin

text \<open>
  The header of a Huffman table is read as it was written, and the table that is built from it is the one it
  was written from. A complete code, whose lengths use up all codes of the longest length, is what both rely on:
  it tells the last weight from the others.
\<close>

unbundle bit_operations_syntax

section \<open>Complete codes\<close>

definition weight_of :: "nat \<Rightarrow> nat \<Rightarrow> nat" where
  "weight_of L n = (if n = 0 then 0 else L + 1 - n)"

text \<open>The share of a length: how many codes of the longest length begin with a code of this length.\<close>

definition share_of :: "nat \<Rightarrow> nat \<Rightarrow> nat" where
  "share_of L n = (if n = 0 then 0 else 2 ^ (L - n))"

definition complete_code :: "nat \<Rightarrow> nat list \<Rightarrow> bool" where
  "complete_code L nbs \<longleftrightarrow> L \<le> 12 \<and> (\<forall>n \<in> set nbs. n \<le> L) \<and> L \<in> set nbs \<and> sum_list (map (share_of L) nbs) = 2 ^ L"

abbreviation weight_bytes :: "nat \<Rightarrow> nat list \<Rightarrow> bytes" where
  "weight_bytes L nbs \<equiv> map (\<lambda>n. of_nat (weight_of L n)) nbs"

lemma weight_byte: "n \<le> L \<Longrightarrow> L \<le> 12 \<Longrightarrow> unat (of_nat (weight_of L n) :: u8) = weight_of L n \<and> weight_of L n \<le> 12"
  by (auto simp: weight_of_def unsigned_of_nat take_bit_nat_eq_self)

lemma weight_share: "n \<le> L \<Longrightarrow> 2 ^ weight_of L n div 2 = share_of L n"
  by (simp add: weight_of_def share_of_def Suc_diff_le)

lemma share_le: "share_of L n \<le> 2 ^ L"
  by (simp add: share_of_def power_increasing)

section \<open>The last weight\<close>

lemma collect_stats_ok:
  assumes "\<forall>n \<in> set ns. n \<le> L" and "L \<le> 12" and "t + sum_list (map (share_of L) ns) < 2 ^ 32" and "length r = 13"
  shows "\<exists>r'. collect_stats (weight_bytes L ns) (r, t) = Ok (r', t + sum_list (map (share_of L) ns)) \<and> length r' = 13
    \<and> (\<forall>i < 13. r' ! i = r ! i + length (filter (\<lambda>n. weight_of L n = i) ns))"
  using assms
proof (induction ns arbitrary: r t)
  case (Cons n ns)
  have w: "unat (of_nat (weight_of L n) :: u8) = weight_of L n" "weight_of L n \<le> 12" using weight_byte [of n L] Cons.prems(1,2) by simp_all
  have sh: "2 ^ weight_of L n div 2 = share_of L n" using weight_share [of n L] Cons.prems(1) by simp
  let ?r = "r[weight_of L n := r ! weight_of L n + 1]" and ?t = "t + share_of L n"
  have t: "w32 ?t = ?t" using Cons.prems(3) by simp
  obtain r' where "collect_stats (weight_bytes L ns) (?r, ?t) = Ok (r', ?t + sum_list (map (share_of L) ns))" "length r' = 13"
    "\<forall>i < 13. r' ! i = ?r ! i + length (filter (\<lambda>n. weight_of L n = i) ns)"
    using Cons.IH [of ?t ?r] Cons.prems by auto
  moreover have "collect_stats (weight_bytes L (n # ns)) (r, t) = collect_stats (weight_bytes L ns) (?r, ?t)"
    using w sh t by (simp add: check_that_def HUF_TABLELOG_MAX_def)
  ultimately show ?case using Cons.prems(4) by (auto simp: nth_list_update)
qed simp

lemma shares_parity: "\<forall>n \<in> set ns. n \<le> L \<Longrightarrow> 0 < L \<Longrightarrow> odd (sum_list (map (share_of L) ns)) \<longleftrightarrow> odd (length (filter (\<lambda>n. weight_of L n = 1) ns))"
proof (induction ns)
  case (Cons n ns)
  have "odd (share_of L n) \<longleftrightarrow> weight_of L n = 1" using Cons.prems by (auto simp: share_of_def weight_of_def)
  then show ?case using Cons by auto
qed simp

lemma readStats_ok:
  assumes "read_weights hw src w = Ok (k, weight_bytes L ns)" and "complete_code L (ns @ [nl])" and "0 < nl"
  shows "\<exists>ranks. HUF_readStats_wksp hw src w = Ok (k + 1, weight_bytes L (ns @ [nl]), ranks, L)
    \<and> ranks ! 0 = length (filter (\<lambda>n. n = 0) ns)"
proof -
  have c: "\<forall>n \<in> set ns. n \<le> L" "nl \<le> L" "L \<le> 12" "L \<in> set (ns @ [nl])"
    and tot: "sum_list (map (share_of L) ns) + 2 ^ (L - nl) = 2 ^ L"
    using assms(2,3) by (auto simp: complete_code_def share_of_def)
  let ?T = "sum_list (map (share_of L) ns)"
  have L: "0 < L" using c(2) assms(3) by simp
  have p: "(2 :: nat) ^ (L - nl) \<le> 2 ^ (L - 1)" using assms(3) by (intro power_increasing) simp_all
  have d: "(2 :: nat) ^ L = 2 * 2 ^ (L - 1)" using L by (cases L) simp_all
  have pos: "(0 :: nat) < 2 ^ (L - nl)" by simp
  have T: "2 ^ (L - 1) \<le> ?T" "?T < 2 ^ L" using tot p d pos by linarith+
  have "0 < ?T" by (rule less_le_trans [OF _ T(1)]) simp
  then have T0: "?T \<noteq> 0" by (rule gr_implies_not0)
  have L12: "(2 :: nat) ^ L \<le> 2 ^ 12" using c(3) by (intro power_increasing) simp_all
  have "0 + ?T < 2 ^ 32" using T(2) L12 by simp
  then obtain r where r: "collect_stats (weight_bytes L ns) (replicate 13 0, 0) = Ok (r, ?T)" "length r = 13"
    "\<forall>i < 13. r ! i = length (filter (\<lambda>n. weight_of L n = i) ns)"
    using collect_stats_ok [OF c(1,3), of 0 "replicate 13 0"] by auto
  have u: "unat (of_nat x :: u32) = x" if "x \<le> 2 ^ L" for x using that L12 by (simp add: unsigned_of_nat take_bit_nat_eq_self)
  have h1: "ZSTD_highbit32 (of_nat ?T) = L - 1"
    by (rule highbit32_eq) (use u [of ?T] T L in \<open>simp_all\<close>)
  have h2: "ZSTD_highbit32 (of_nat (2 ^ (L - nl))) = L - nl"
    by (rule highbit32_eq) (use u [of "2 ^ (L - nl)"] in \<open>simp_all add: power_increasing\<close>)
  have rest: "2 ^ L - ?T = 2 ^ (L - nl)" using tot by simp
  have lw: "L - nl + 1 = weight_of L nl" "weight_of L nl < 13" using assms(3) c(2,3) by (simp_all add: weight_of_def)
  let ?r = "r[weight_of L nl := r ! weight_of L nl + 1]"
  have one: "?r ! 1 = length (filter (\<lambda>n. weight_of L n = 1) (ns @ [nl]))" using r(2,3) by (simp add: nth_list_update)
  have all: "\<forall>n \<in> set (ns @ [nl]). n \<le> L" "sum_list (map (share_of L) (ns @ [nl])) = 2 ^ L"
    using assms(2) unfolding complete_code_def by blast+
  have "even ((2 :: nat) ^ L)" using L by simp
  then have "even (?r ! 1)" using shares_parity [OF all(1) L] unfolding one all(2) by blast
  have "?r ! 1 \<noteq> 0"
  proof -
    have "weight_of L L = 1" using L by (simp add: weight_of_def)
    then show ?thesis using c(4) unfolding one by (auto simp: filter_empty_conv)
  qed
  with \<open>even (?r ! 1)\<close> have "2 \<le> ?r ! 1" by presburger
  then have "HUF_readStats_wksp hw src w = Ok (k + 1, weight_bytes L (ns @ [nl]), ?r, L)"
    using assms(1) r(1) T(1) c(3) h1 h2 rest lw \<open>even (?r ! 1)\<close> L
    by (simp add: HUF_readStats_wksp_def check_that_def Let_def HUF_TABLELOG_MAX_def T0 del: sum_list_eq_0_iff)
  moreover have "?r ! 0 = length (filter (\<lambda>n. n = 0) ns)"
  proof -
    have "weight_of L n = 0 \<longleftrightarrow> n = 0" if "n \<in> set ns" for n using that c(1) by (auto simp: weight_of_def)
    then have "filter (\<lambda>n. weight_of L n = 0) ns = filter (\<lambda>n. n = 0) ns" by (simp cong: filter_cong)
    then show ?thesis using r(2,3) lw by (simp add: nth_list_update flip: lw(1))
  qed
  ultimately show ?thesis by blast
qed

section \<open>Writing and reading the weights\<close>

lemma raw_weights_length: "length (raw_weights ws) = (length ws + 1) div 2"
  by (induction ws rule: raw_weights.induct) auto

lemma nibble_pair:
  fixes a b :: u8
  assumes "unat a \<le> 12" and "unat b \<le> 12"
  shows "drop_bit 4 (push_bit 4 a + b) = a" and "(push_bit 4 a + b) AND 15 = b"
proof -
  have e: "unat (push_bit 4 a + b) = 16 * unat a + unat b"
  proof -
    have "push_bit 4 a + b = of_nat (16 * unat a + unat b)" by (simp add: push_bit_eq_mult mult.commute)
    then show ?thesis using assms by (simp only: unsigned_of_nat) (simp add: take_bit_nat_eq_self)
  qed
  have "unat (drop_bit 4 (push_bit 4 a + b)) = unat a"
  proof -
    have "unat (drop_bit 4 (push_bit 4 a + b)) = (16 * unat a + unat b) div 2 ^ 4"
      by (subst unat_drop_bit_eq) (simp only: drop_bit_eq_div e)
    then show ?thesis using assms by simp
  qed
  then show "drop_bit 4 (push_bit 4 a + b) = a" by (simp only: unat_byte_eq)
  have "unat ((push_bit 4 a + b) AND mask 4) = take_bit 4 (unat (push_bit 4 a + b))"
    by (simp only: unsigned_take_bit_eq flip: take_bit_eq_mask)
  moreover have "(15 :: u8) = mask 4" by (simp add: mask_numeral)
  ultimately have "unat ((push_bit 4 a + b) AND 15) = (16 * unat a + unat b) mod 2 ^ 4"
    by (simp only: e take_bit_eq_mod)
  then have "unat ((push_bit 4 a + b) AND 15) = unat b" using assms by simp
  then show "(push_bit 4 a + b) AND 15 = b" by (simp only: unat_byte_eq)
qed

lemma nibbles_raw: "\<forall>w \<in> set ws. unat w \<le> 12 \<Longrightarrow> take (length ws) (nibbles (raw_weights ws)) = ws"
proof (induction ws rule: raw_weights.induct)
  case (2 a)
  then show ?case using nibble_pair(1) [of a 0] by simp
qed (simp_all add: nibble_pair)

lemma weights_of_ok:
  assumes "\<forall>e \<in> set es. HUF_getNbBits e \<le> L" and "L \<le> 12"
  shows "weights_of L es = Ok (weight_bytes L (map HUF_getNbBits es))"
  using assms by (induction es) (auto simp: bits_to_weight_def weight_of_def HUF_TABLELOG_MAX_def)

text \<open>The weights as they are.\<close>

lemma raw_reads:
  assumes "write_raw cap m ws op = Ok (n, buf)" and "length ws = m" and "0 < m" and "\<forall>w \<in> set ws. unat w \<le> 12"
  shows "n \<le> length buf \<and> 0 < n \<and> read_weights 256 (take n buf @ rest) w = Ok (n - 1, ws)"
proof -
  have m: "m \<le> 128" "n = (m + 1) div 2 + 1" "buf = (128 + (of_nat m - 1)) # raw_weights ws @ drop ((m + 1) div 2) op"
    using assms(1) by (auto simp: write_raw_def check_that_eq_Ok)
  have first: "unat (128 + (of_nat m - 1) :: u8) = 127 + m"
  proof -
    have "(128 + (of_nat m - 1) :: u8) = of_nat (127 + m)" by simp
    then show ?thesis using m(1) by (simp only: unsigned_of_nat) (simp add: take_bit_nat_eq_self)
  qed
  have len: "length (raw_weights ws) = (m + 1) div 2" using raw_weights_length [of ws] assms(2) by simp
  have "take n buf = (128 + (of_nat m - 1)) # raw_weights ws" using m(2,3) len by simp
  moreover have "take m (nibbles (raw_weights ws)) = ws" using nibbles_raw [OF assms(4)] assms(2) by simp
  ultimately show ?thesis using m len first assms(3) by (simp add: read_weights_def Let_def check_that_def)
qed

lemma complete_two: "complete_code L (ns @ [nl]) \<Longrightarrow> 0 < nl \<Longrightarrow> ns \<noteq> []"
proof
  assume c: "complete_code L (ns @ [nl])" "0 < nl" "ns = []"
  then have "L = nl" "(1 :: nat) = 2 ^ nl" by (auto simp: complete_code_def share_of_def)
  moreover have "(1 :: nat) < 2 ^ nl" using c(2) by (intro one_less_power) simp_all
  ultimately show False by simp
qed

lemma header_reads:
  assumes "HUF_writeCTable_wksp junk norm dst ct m L ws wsz = Ok (n, buf)" and "map HUF_getNbBits (ht_elts ct) = ns @ [nl]"
    and "length ns = m" and "complete_code L (ns @ [nl])" and "0 < nl"
  shows "n \<le> length buf \<and> 0 < n \<and> read_weights 256 (take n buf @ rest) HUF_READ_STATS_WORKSPACE_SIZE = Ok (n - 1, weight_bytes L ns)"
proof -
  let ?es = "take m (ht_elts ct)" and ?W = "weight_bytes L ns"
  have c: "L \<le> 12" "\<forall>n \<in> set ns. n \<le> L" using assms(4) by (auto simp: complete_code_def)
  have m0: "0 < m" using complete_two [OF assms(4,5)] assms(3) by auto
  have es: "map HUF_getNbBits ?es = ns" using arg_cong [OF assms(2), of "take m"] assms(3) by (simp add: take_map)
  have "\<forall>e \<in> set ?es. HUF_getNbBits e \<le> L" using c(2) unfolding es [symmetric] by simp
  then have W: "weights_of L ?es = Ok ?W" using weights_of_ok [OF _ c(1), of ?es] by (simp only: es)
  have W12: "\<forall>w \<in> set ?W. unat w \<le> 12" using c weight_byte by auto
  obtain ws' hSize op where r: "m \<le> 255"
    "HUF_compressWeights junk norm (drop 1 dst) ?W ws' CompressWeightsWksp_size = Ok (hSize, op)"
    "(if 1 < hSize \<and> hSize < m div 2 then Ok (hSize + 1, of_nat hSize # op) else write_raw (length dst) m ?W op) = Ok (n, buf)"
    using assms(1) W by (auto simp: HUF_writeCTable_wksp_def cbind_eq_Ok check_that_eq_Ok HUF_SYMBOLVALUE_MAX_def split: if_splits option.splits)
  show ?thesis
  proof (cases "1 < hSize \<and> hSize < m div 2")
    case True
    then have nb: "n = hSize + 1" "buf = of_nat hSize # op" using r(3) by simp_all
    have "5 \<le> m" using True by presburger
    then have six: "5 \<le> length ?W" "length ?W \<le> 256" "length ?W < 2 ^ 31" "length ?W \<le> 255" using True assms(3) r(1) by simp_all
    have "FSE_DECOMPRESS_WKSP_SIZE 5 12 \<le> HUF_READ_STATS_WORKSPACE_SIZE"
      by (simp add: HUF_READ_STATS_WORKSPACE_SIZE_def FSE_DECOMPRESS_WKSP_SIZE_def DTABLE_WKSP_SIZE_def HUF_TABLELOG_MAX_def)
    then have d: "FSE_decompress_wksp_bmi2 255 (take hSize op) 6 HUF_READ_STATS_WORKSPACE_SIZE = Ok ?W" "hSize \<le> length op"
      using weights_roundtrip_ok [OF r(2) _ six(3) _ six(4), of HUF_READ_STATS_WORKSPACE_SIZE] six(1,2) True by blast+
    have "hSize < 128" using True r(1) by auto
    then have "unat (of_nat hSize :: u8) = hSize" by (simp add: unsigned_of_nat take_bit_nat_eq_self)
    then show ?thesis using nb d \<open>hSize < 128\<close> by (simp add: read_weights_def Let_def check_that_def)
  next
    case False
    then have "write_raw (length dst) m ?W op = Ok (n, buf)" using r(3) by auto
    then show ?thesis by (rule raw_reads) (use m0 assms(3) W12 in simp_all)
  qed
qed

section \<open>The table\<close>

lemma getNbBits_mod: "HUF_getNbBits e = unat e mod 256"
proof -
  have "unat (e AND mask 8) = take_bit 8 (unat e)" by (simp only: unsigned_take_bit_eq flip: take_bit_eq_mask)
  moreover have "(0xFF :: u64) = mask 8" by (simp add: mask_numeral)
  ultimately show ?thesis by (simp add: HUF_getNbBits_def take_bit_eq_mod)
qed

lemma bits_small [simp]: "n \<le> 12 \<Longrightarrow> HUF_getNbBits (of_nat n) = n"
  by (simp add: getNbBits_mod unsigned_of_nat take_bit_nat_eq_self)

lemma setValue_bits:
  assumes "HUF_setValue e v = Ok e'" and "HUF_getNbBits e \<le> 12"
  shows "HUF_getNbBits e' = HUF_getNbBits e"
proof (cases "HUF_getNbBits e = 0")
  case False
  let ?n = "HUF_getNbBits e"
  have e': "e' = e OR push_bit (64 - ?n) (of_nat v)" using assms(1) False by (auto simp: HUF_setValue_def Let_def split: if_splits)
  have "e' AND mask 8 = e AND mask 8"
  proof (rule bit_eqI)
    fix i
    have "\<not> 64 - ?n \<le> i" if "i < 8" using that assms(2) by simp
    then show "bit (e' AND mask 8) i \<longleftrightarrow> bit (e AND mask 8) i"
      unfolding e' by (auto simp: bit_and_iff bit_or_iff bit_push_bit_iff bit_mask_iff)
  qed
  moreover have "(0xFF :: u64) = mask 8" by (simp add: mask_numeral)
  ultimately show ?thesis by (simp only: HUF_getNbBits_def)
qed (use assms in \<open>simp add: HUF_setValue_def\<close>)

lemma assign_bits: "assign_values es vs = Ok es' \<Longrightarrow> \<forall>e \<in> set es. HUF_getNbBits e \<le> 12 \<Longrightarrow> map HUF_getNbBits es' = map HUF_getNbBits es"
proof (induction es arbitrary: vs es')
  case (Cons e es)
  then show ?case by (auto simp: Let_def cbind_eq_Ok setValue_bits split: if_splits)
qed simp

lemma set_bits_ok:
  assumes "\<forall>n \<in> set ns. n \<le> L" and "L \<le> 12"
  shows "set_bits L (weight_bytes L ns) = Ok (map of_nat ns)"
  using assms
proof (induction ns)
  case (Cons n ns)
  have "unat (of_nat (weight_of L n) :: u8) = weight_of L n" using weight_byte [of n L] Cons.prems by simp
  moreover have "(of_nat (weight_of L n) :: u8) = 0 \<longleftrightarrow> n = 0"
  proof -
    have "(of_nat (weight_of L n) :: u8) = 0 \<longleftrightarrow> weight_of L n = 0"
      using weight_byte [of n L] Cons.prems by (metis insertI1 list.simps(15) unat_eq_zero)
    then show ?thesis using Cons.prems by (auto simp: weight_of_def)
  qed
  ultimately show ?case using Cons by (auto simp: HUF_setNbBits_def weight_of_def)
qed simp

end
