(* ===== verification/Zstd_HuffmanCodes.thy ===== *)
theory Zstd_HuffmanCodes
  imports Zstd_HuffmanHeader
begin

text \<open>
  The codes of a Huffman table. The longest codes come first, codes of one length in the order of their symbols; when
  the lengths make a complete code, every string of bits as long as the longest code begins with exactly one of
  them. So no assertion fails where the codes are assigned, and the table built from a tree is the one a
  reader builds from its header.
\<close>

unbundle bit_operations_syntax

section \<open>The strings that begin with longer codes\<close>

definition area :: "nat \<Rightarrow> nat list \<Rightarrow> nat \<Rightarrow> nat" where
  "area L nbs n = sum_list (map (\<lambda>k. if n < k then 2 ^ (L - k) else 0) nbs)"

text \<open>The first code of a length, and the code of a symbol.\<close>

definition first_code :: "nat \<Rightarrow> nat list \<Rightarrow> nat \<Rightarrow> nat" where
  "first_code L nbs n = area L nbs n div 2 ^ (L - n)"

definition code_of :: "nat \<Rightarrow> nat list \<Rightarrow> nat \<Rightarrow> nat" where
  "code_of L nbs i = first_code L nbs (nbs ! i) + rank nbs i"

lemma area_Suc: "area L nbs n = area L nbs (Suc n) + count_list nbs (Suc n) * 2 ^ (L - Suc n)"
proof (induction nbs)
  case (Cons k nbs)
  then show ?case by (cases "k = Suc n") (auto simp: area_def)
qed (simp add: area_def)

lemma area_top: "\<forall>k \<in> set nbs. k \<le> L \<Longrightarrow> area L nbs L = 0"
  by (auto simp: area_def)

lemma area_0: "area L nbs 0 = sum_list (map (share_of L) nbs)"
  by (auto simp: area_def share_of_def intro!: arg_cong [of _ _ sum_list])

lemma area_mono: "n \<le> n' \<Longrightarrow> area L nbs n' \<le> area L nbs n"
  unfolding area_def by (rule sum_list_mono) auto

text \<open>In a complete code they are whole codes of this length.\<close>

lemma area_dvd:
  assumes "complete_code L nbs"
  shows "n \<le> L \<Longrightarrow> 2 ^ (L - n) dvd area L nbs n"
proof (induction n)
  case 0
  then show ?case using assms by (simp add: area_0 complete_code_def)
next
  case (Suc n)
  then have "2 ^ (L - Suc n) dvd area L nbs (Suc n) + count_list nbs (Suc n) * 2 ^ (L - Suc n)"
    unfolding area_Suc [symmetric] by (metis Suc_leD diff_le_mono2 dvd_trans le_imp_power_dvd le_SucI order_refl)
  then show ?case by (simp add: dvd_add_left_iff)
qed

lemma first_code_area: "complete_code L nbs \<Longrightarrow> n \<le> L \<Longrightarrow> first_code L nbs n * 2 ^ (L - n) = area L nbs n"
  unfolding first_code_def by (rule dvd_div_mult_self [OF area_dvd])

text \<open>The codes of a length fit in it.\<close>

lemma codes_fit:
  assumes "complete_code L nbs" and "0 < n" and "n \<le> L"
  shows "first_code L nbs n + count_list nbs n \<le> 2 ^ n"
proof -
  have "(first_code L nbs n + count_list nbs n) * 2 ^ (L - n) = area L nbs (n - 1)"
    using first_code_area [OF assms(1,3)] area_Suc [of L nbs "n - 1"] assms(2) by (simp add: add_mult_distrib)
  also have "\<dots> \<le> area L nbs 0" by (rule area_mono) simp
  also have "\<dots> = 2 ^ n * 2 ^ (L - n)" using assms by (simp add: area_0 complete_code_def flip: power_add)
  finally show ?thesis by simp
qed

lemma rank_le_count: "i < length nbs \<Longrightarrow> rank nbs i < count_list nbs (nbs ! i)"
  by (rule rank_less)

lemma div_between: "0 < (d :: nat) \<Longrightarrow> x div d = q \<longleftrightarrow> q * d \<le> x \<and> x < Suc q * d"
  using less_eq_div_iff_mult_less_eq [of d q x] div_less_iff_less_mult [of d x "Suc q"] by auto

text \<open>The strings that begin with the code of a symbol follow those of longer codes and of the symbols of its length before it.\<close>

lemma begins_with:
  assumes "complete_code L nbs" and "i < length nbs" and "0 < nbs ! i"
  shows "x div 2 ^ (L - nbs ! i) = code_of L nbs i \<longleftrightarrow>
    area L nbs (nbs ! i) + rank nbs i * 2 ^ (L - nbs ! i) \<le> x \<and> x < area L nbs (nbs ! i) + Suc (rank nbs i) * 2 ^ (L - nbs ! i)"
proof -
  have "nbs ! i \<le> L" using assms(1,2) by (auto simp: complete_code_def)
  note a = first_code_area [OF assms(1) this]
  have "x div 2 ^ (L - nbs ! i) = code_of L nbs i \<longleftrightarrow>
    code_of L nbs i * 2 ^ (L - nbs ! i) \<le> x \<and> x < Suc (code_of L nbs i) * 2 ^ (L - nbs ! i)"
    by (rule div_between) simp
  then show ?thesis by (simp add: code_of_def add_mult_distrib add_ac flip: a)
qed

text \<open>Every string of the longest length begins with exactly one code.\<close>

lemma begins_once:
  assumes "complete_code L nbs" and "i < length nbs" and "0 < nbs ! i" and "j < length nbs" and "0 < nbs ! j" and "i \<noteq> j"
    and "x div 2 ^ (L - nbs ! i) = code_of L nbs i"
  shows "x div 2 ^ (L - nbs ! j) \<noteq> code_of L nbs j"
proof -
  note b = begins_with [OF assms(1)]
  have disjoint: "\<not> (area L nbs n + r * 2 ^ (L - n) \<le> x \<and> x < area L nbs n' + Suc r' * 2 ^ (L - n'))"
    if "n < n'" "r' < count_list nbs n'" for n n' r r'
  proof -
    have "area L nbs n' + Suc r' * 2 ^ (L - n') \<le> area L nbs n' + count_list nbs n' * 2 ^ (L - n')"
      using that(2) by (intro add_left_mono mult_le_mono1) simp
    also have "\<dots> = area L nbs (n' - 1)" using area_Suc [of L nbs "n' - 1"] that(1) by simp
    also have "\<dots> \<le> area L nbs n" by (rule area_mono) (use that(1) in simp)
    finally show ?thesis by linarith
  qed
  have x: "area L nbs (nbs ! i) + rank nbs i * 2 ^ (L - nbs ! i) \<le> x" "x < area L nbs (nbs ! i) + Suc (rank nbs i) * 2 ^ (L - nbs ! i)"
    using b [OF assms(2,3)] assms(7) by blast+
  consider "nbs ! i = nbs ! j" "rank nbs i < rank nbs j" | "nbs ! i = nbs ! j" "rank nbs j < rank nbs i"
    | "nbs ! i < nbs ! j" | "nbs ! j < nbs ! i"
    using rank_strict [of i j nbs] rank_strict [of j i nbs] assms(2,4,6) by (metis linorder_neqE_nat)
  then show ?thesis
  proof cases
    case 1
    then have "Suc (rank nbs i) * 2 ^ (L - nbs ! i) \<le> rank nbs j * 2 ^ (L - nbs ! i)" by (intro mult_le_mono1) simp
    then have "x < area L nbs (nbs ! j) + rank nbs j * 2 ^ (L - nbs ! j)" using x(2) unfolding 1(1) by linarith
    then show ?thesis using b [OF assms(4,5)] by simp
  next
    case 2
    then have "Suc (rank nbs j) * 2 ^ (L - nbs ! i) \<le> rank nbs i * 2 ^ (L - nbs ! i)" by (intro mult_le_mono1) simp
    then have "area L nbs (nbs ! j) + Suc (rank nbs j) * 2 ^ (L - nbs ! j) \<le> x" using x(1) unfolding 2(1) by linarith
    then show ?thesis using b [OF assms(4,5)] by simp
  next
    case 3
    then show ?thesis using b [OF assms(4,5)] disjoint [OF 3 rank_less [OF assms(4)]] x(1) by blast
  next
    case 4
    then show ?thesis using b [OF assms(4,5)] disjoint [OF 4 rank_less [OF assms(2)]] x(2) by blast
  qed
qed

lemma begins_some:
  assumes "complete_code L nbs" and "x < 2 ^ L"
  shows "\<exists>i < length nbs. 0 < nbs ! i \<and> x div 2 ^ (L - nbs ! i) = code_of L nbs i"
proof -
  have top: "area L nbs L \<le> x" using area_top [of nbs L] assms(1) by (simp add: complete_code_def)
  have bot: "x < area L nbs 0" using assms by (simp add: area_0 complete_code_def)
  define n where "n = (LEAST n. area L nbs n \<le> x)"
  have n: "area L nbs n \<le> x" "n \<le> L" "0 < n"
    using LeastI [of "\<lambda>n. area L nbs n \<le> x", OF top] Least_le [of "\<lambda>n. area L nbs n \<le> x", OF top] bot
    by (auto simp: n_def [symmetric] intro: gr0I)
  have "\<not> area L nbs (n - 1) \<le> x" using not_less_Least [of "n - 1" "\<lambda>n. area L nbs n \<le> x"] n(3) by (simp add: n_def)
  then have "x - area L nbs n < count_list nbs n * 2 ^ (L - n)" using area_Suc [of L nbs "n - 1"] n(1,3) by simp
  then have "(x - area L nbs n) div 2 ^ (L - n) < count_list nbs n" by (rule less_mult_imp_div_less)
  from rank_onto [OF this] obtain i where i: "i < length nbs" "nbs ! i = n" "rank nbs i = (x - area L nbs n) div 2 ^ (L - n)" by blast
  have "rank nbs i * 2 ^ (L - n) \<le> x - area L nbs n \<and> x - area L nbs n < Suc (rank nbs i) * 2 ^ (L - n)"
    by (rule iffD1 [OF div_between]) (simp_all only: i(3), simp)
  then have "x div 2 ^ (L - nbs ! i) = code_of L nbs i"
    using begins_with [OF assms(1) i(1), of x] n i(2) by auto
  then show ?thesis using i n(3) by blast
qed

section \<open>The codes the code assigns\<close>

definition huf_elt :: "nat \<Rightarrow> nat \<Rightarrow> HUF_CElt" where
  "huf_elt n v = (if n = 0 then 0 else of_nat n OR push_bit (64 - n) (of_nat v))"

lemma first_code_halves:
  assumes "n < L"
  shows "first_code L nbs n = (first_code L nbs (Suc n) + count_list nbs (Suc n)) div 2"
proof -
  let ?p = "2 ^ (L - Suc n) :: nat"
  have "(2 :: nat) ^ (L - n) = ?p * 2" using assms by (simp flip: power_Suc2 add: Suc_diff_Suc)
  then have "first_code L nbs n = (area L nbs (Suc n) + count_list nbs (Suc n) * ?p) div ?p div 2"
    unfolding first_code_def area_Suc [of L nbs n] by (simp only: div_mult2_eq)
  then show ?thesis by (simp add: first_code_def)
qed

lemma start_values_ok:
  assumes "complete_code L nbs" and "n \<le> L" and "\<forall>k. 0 < k \<and> k \<le> L \<longrightarrow> cnts ! k = count_list nbs k" and "L < length vs"
    and "lo = of_nat (first_code L nbs n)"
  shows "length (start_values n cnts lo vs) = length vs
    \<and> (\<forall>k. 0 < k \<and> k \<le> n \<longrightarrow> start_values n cnts lo vs ! k = of_nat (first_code L nbs k))
    \<and> (\<forall>k. n < k \<or> k = 0 \<longrightarrow> start_values n cnts lo vs ! k = vs ! k)"
  using assms(2,4,5)
proof (induction n arbitrary: lo vs)
  case (Suc n)
  let ?x = "first_code L nbs (Suc n) + count_list nbs (Suc n)"
  have "?x \<le> 2 ^ Suc n" using codes_fit [OF assms(1), of "Suc n"] Suc.prems(1) by simp
  also have "(2 :: nat) ^ Suc n \<le> 2 ^ 12" using Suc.prems(1) assms(1) by (intro power_increasing) (simp_all add: complete_code_def)
  finally have "?x < 2 ^ LENGTH(16)" by simp
  then have "unat (of_nat ?x :: u16) = ?x" by (simp only: unsigned_of_nat take_bit_nat_eq_self of_nat_id)
  then have "unat (drop_bit 1 (of_nat ?x :: u16)) = ?x div 2" by (subst unat_drop_bit_eq) (simp only: drop_bit_eq_div power_one_right)
  moreover have "unat (of_nat (?x div 2) :: u16) = ?x div 2"
    using \<open>?x < _\<close> by (simp only: unsigned_of_nat take_bit_nat_eq_self of_nat_id)
  ultimately have "drop_bit 1 (of_nat ?x :: u16) = of_nat (?x div 2)" by (simp only: word_unat_eq_iff)
  moreover have "cnts ! Suc n = count_list nbs (Suc n)" using assms(3) Suc.prems(1) by simp
  moreover have "first_code L nbs n = ?x div 2" using first_code_halves [of n L nbs] Suc.prems(1) by simp
  ultimately have lo: "drop_bit 1 (lo + of_nat (cnts ! Suc n)) = of_nat (first_code L nbs n)" using Suc.prems(3) by simp
  have "n \<le> L" "L < length (vs[Suc n := lo])" using Suc.prems(1,2) by simp_all
  note ih = Suc.IH [OF this lo]
  have "start_values (Suc n) cnts lo vs = start_values n cnts (drop_bit 1 (lo + of_nat (cnts ! Suc n))) (vs[Suc n := lo])" by simp
  then show ?case using ih Suc.prems by (auto simp: le_Suc_eq nth_list_update simp del: start_values.simps)
qed simp

lemma rank_Cons: "rank (n # ns) (Suc i) = rank ns i + of_bool (ns ! i = n)"
  by (simp add: rank_def)

lemma assign_values_ok:
  assumes "\<forall>n \<in> set ns. n \<le> 12 \<and> n < length vs \<and> (0 < n \<longrightarrow> unat (vs ! n) + count_list ns n \<le> 2 ^ n)"
  shows "assign_values (map of_nat ns) vs = Ok (map (\<lambda>i. huf_elt (ns ! i) (unat (vs ! (ns ! i)) + rank ns i)) [0..<length ns])"
  using assms
proof (induction ns arbitrary: vs)
  case (Cons n ns)
  let ?vs = "vs[n := vs ! n + 1]"
  have n: "n \<le> 12" "n < length vs" "0 < n \<Longrightarrow> unat (vs ! n) + count_list ns n + 1 \<le> 2 ^ n" using Cons.prems by auto
  have small: "(2 :: nat) ^ n \<le> 2 ^ 12" using n(1) by (intro power_increasing) simp_all
  have next_val: "unat (vs ! n + 1) = unat (vs ! n) + 1" if "0 < n"
  proof -
    have "unat (vs ! n) + 1 < 2 ^ LENGTH(16)" using n(3) [OF that] small by simp
    then have "unat (of_nat (unat (vs ! n) + 1) :: u16) = unat (vs ! n) + 1"
      by (simp only: unsigned_of_nat take_bit_nat_eq_self of_nat_id)
    then show ?thesis by (simp add: add.commute)
  qed
  have "HUF_setValue (of_nat n) (unat (vs ! n)) = Ok (huf_elt n (unat (vs ! n)))"
  proof (cases "n = 0")
    case False
    then have "unat (vs ! n) div 2 ^ n = 0" using n(3) by simp
    then show ?thesis using n(1) False by (simp add: HUF_setValue_def huf_elt_def)
  qed (simp add: HUF_setValue_def huf_elt_def HUF_getNbBits_def)
  moreover have "\<forall>k \<in> set ns. k \<le> 12 \<and> k < length ?vs \<and> (0 < k \<longrightarrow> unat (?vs ! k) + count_list ns k \<le> 2 ^ k)"
  proof
    fix k
    assume "k \<in> set ns"
    then have "k \<le> 12" "k < length vs" "0 < k \<Longrightarrow> unat (vs ! k) + count_list (n # ns) k \<le> 2 ^ k" using Cons.prems by auto
    then show "k \<le> 12 \<and> k < length ?vs \<and> (0 < k \<longrightarrow> unat (?vs ! k) + count_list ns k \<le> 2 ^ k)"
      using next_val by (cases "k = n") simp_all
  qed
  note ih = Cons.IH [OF this]
  have "huf_elt k (unat (?vs ! k) + r) = huf_elt k (unat (vs ! k) + (r + of_bool (k = n)))" if "k < length vs" for k r
  proof (cases "k = 0")
    case False
    then have "unat (?vs ! k) + r = unat (vs ! k) + (r + of_bool (k = n))" using that next_val by (cases "k = n") simp_all
    then show ?thesis by (simp only:)
  qed (simp add: huf_elt_def)
  then have "map (\<lambda>i. huf_elt (ns ! i) (unat (?vs ! (ns ! i)) + rank ns i)) [0..<length ns]
    = map (\<lambda>i. huf_elt ((n # ns) ! Suc i) (unat (vs ! ((n # ns) ! Suc i)) + rank (n # ns) (Suc i))) [0..<length ns]"
    using Cons.prems by (auto simp: rank_Cons)
  then show ?case using calculation ih n(1,2)
    by (simp add: Let_def upt_conv_Cons map_Suc_upt [symmetric] rank_def del: upt_Suc)
qed simp

text \<open>The entries of a table with these lengths.\<close>

definition code_elts :: "nat \<Rightarrow> nat list \<Rightarrow> HUF_CElt list" where
  "code_elts L nbs = map (\<lambda>i. huf_elt (nbs ! i) (code_of L nbs i)) [0..<length nbs]"

lemma assigned_codes:
  assumes "complete_code L nbs" and "\<forall>k. 0 < k \<and> k \<le> L \<longrightarrow> cnts ! k = count_list nbs k" and "12 < s"
  shows "assign_values (map of_nat nbs) (start_values L cnts 0 (replicate s 0)) = Ok (code_elts L nbs)"
proof -
  let ?vs = "start_values L cnts 0 (replicate s 0)"
  have c: "L \<le> 12" "\<forall>n \<in> set nbs. n \<le> L" using assms(1) by (auto simp: complete_code_def)
  have "(0 :: u16) = of_nat (first_code L nbs L)" using area_top [OF c(2)] by (simp add: first_code_def)
  moreover have "L < length (replicate s (0 :: u16))" using assms(3) c(1) by simp
  ultimately have vs: "length ?vs = s" "\<forall>k. 0 < k \<and> k \<le> L \<longrightarrow> ?vs ! k = of_nat (first_code L nbs k)"
    using start_values_ok [OF assms(1) order_refl assms(2)] by fastforce+
  have val: "unat (?vs ! n) = first_code L nbs n" "unat (?vs ! n) + count_list nbs n \<le> 2 ^ n" if "n \<in> set nbs" "0 < n" for n
  proof -
    have fit: "first_code L nbs n + count_list nbs n \<le> 2 ^ n" using codes_fit [OF assms(1) that(2)] that(1) c(2) by blast
    have "n \<le> 12" using that(1) c by fastforce
    then have "(2 :: nat) ^ n \<le> 2 ^ 12" by (intro power_increasing) simp_all
    then have "first_code L nbs n < 2 ^ LENGTH(16)" using fit by simp
    then have "unat (of_nat (first_code L nbs n) :: u16) = first_code L nbs n" by (simp only: unsigned_of_nat take_bit_nat_eq_self of_nat_id)
    then show "unat (?vs ! n) = first_code L nbs n" using vs(2) that c(2) by simp
    then show "unat (?vs ! n) + count_list nbs n \<le> 2 ^ n" using fit by simp
  qed
  have "assign_values (map of_nat nbs) ?vs = Ok (map (\<lambda>i. huf_elt (nbs ! i) (unat (?vs ! (nbs ! i)) + rank nbs i)) [0..<length nbs])"
    by (rule assign_values_ok) (use c vs(1) assms(3) val(2) in \<open>auto\<close>)
  also have "map (\<lambda>i. huf_elt (nbs ! i) (unat (?vs ! (nbs ! i)) + rank nbs i)) [0..<length nbs] = code_elts L nbs"
    unfolding code_elts_def using val(1) by (auto simp: code_of_def huf_elt_def)
  finally show ?thesis .
qed

lemma canonical_ok: "complete_code L nbs \<Longrightarrow> canonical_codes L (map of_nat nbs) = Ok (code_elts L nbs)"
  unfolding canonical_codes_def
proof (rule assigned_codes)
  assume c: "complete_code L nbs"
  then have "\<forall>n \<in> set nbs. n \<le> 12" by (auto simp: complete_code_def)
  then have "length (filter (\<lambda>e. HUF_getNbBits e = k) (map of_nat nbs)) = count_list nbs k" for k by (induction nbs) auto
  then show "\<forall>k. 0 < k \<and> k \<le> L \<longrightarrow> count_bits (map of_nat nbs) ! k = count_list nbs k"
    using c by (auto simp: count_bits_def HUF_TABLELOG_MAX_def complete_code_def)
qed (simp_all add: HUF_TABLELOG_MAX_def)

lemma code_elts_bits:
  assumes "complete_code L nbs"
  shows "map HUF_getNbBits (code_elts L nbs) = nbs"
proof -
  have n12: "n \<le> 12" if "n \<in> set nbs" for n using assms that by (auto simp: complete_code_def)
  have "map HUF_getNbBits (code_elts L nbs) = map HUF_getNbBits (map of_nat nbs)"
    by (rule assign_bits [OF canonical_ok [OF assms, unfolded canonical_codes_def]]) (use n12 in simp)
  then show ?thesis using n12 by (simp add: o_def map_idI)
qed

section \<open>The table that is read\<close>

lemma readCTable_ok:
  assumes "HUF_writeCTable_wksp junk norm dst \<lparr>ht_tableLog = L, ht_maxSymbolValue = m, ht_elts = code_elts L (ns @ [nl])\<rparr> m L ws wsz = Ok (n, buf)"
    and "length ns = m" and "complete_code L (ns @ [nl])" and "0 < nl" and "m \<le> M"
  shows "HUF_readCTable M (take n buf @ rest)
    = Ok (n, \<lparr>ht_tableLog = L, ht_maxSymbolValue = m, ht_elts = code_elts L (ns @ [nl])\<rparr>, 0 \<in> set ns)"
proof -
  let ?ct = "\<lparr>ht_tableLog = L, ht_maxSymbolValue = m, ht_elts = code_elts L (ns @ [nl])\<rparr>"
  have bits: "map HUF_getNbBits (ht_elts ?ct) = ns @ [nl]" using code_elts_bits [OF assms(3)] by simp
  have c: "L \<le> 12" "\<forall>n \<in> set (ns @ [nl]). n \<le> L" using assms(3) unfolding complete_code_def by blast+
  have h: "0 < n" "read_weights 256 (take n buf @ rest) HUF_READ_STATS_WORKSPACE_SIZE = Ok (n - 1, weight_bytes L ns)"
    using header_reads [OF assms(1) bits assms(2-4)] by blast+
  obtain ranks where r: "HUF_readStats_wksp 256 (take n buf @ rest) HUF_READ_STATS_WORKSPACE_SIZE = Ok (n, weight_bytes L (ns @ [nl]), ranks, L)"
    "ranks ! 0 = length (filter (\<lambda>n. n = 0) ns)"
    using readStats_ok [OF h(2) assms(3,4)] h(1) by auto
  have zero: "0 < ranks ! 0 \<longleftrightarrow> 0 \<in> set ns" unfolding r(2) by (auto simp: filter_empty_conv)
  have st: "HUF_readStats (HUF_SYMBOLVALUE_MAX + 1) (take n buf @ rest) = Ok (n, weight_bytes L (ns @ [nl]), ranks, L)"
    using r(1) by (simp add: HUF_readStats_def HUF_SYMBOLVALUE_MAX_def)
  show ?thesis
    unfolding HUF_readCTable_def st cbind.simps prod.case set_bits_ok [OF c(2,1)] canonical_ok [OF assms(3)]
    using c(1) assms(2,5) zero by (simp add: check_that_def HUF_TABLELOG_MAX_def)
qed

section \<open>The table of a tree\<close>

text \<open>The nodes of the symbols of a tree: those that occur first, with the lengths of a complete code; the largest symbol
  occurs.\<close>

definition code_tree :: "huf_node list \<Rightarrow> nat \<Rightarrow> nat \<Rightarrow> nat \<Rightarrow> bool" where
  "code_tree nodes r m L \<longleftrightarrow> r \<le> m \<and> m < length nodes \<and> m < 256
     \<and> distinct (map hn_byte (take (Suc m) nodes)) \<and> (\<forall>h \<in> set (take (Suc m) nodes). unat (hn_byte h) \<le> m)
     \<and> (\<forall>h \<in> set (take (Suc r) nodes). 0 < hn_nbBits h) \<and> (\<forall>h \<in> set (drop (Suc r) (take (Suc m) nodes)). hn_nbBits h = 0)
     \<and> complete_code L (map hn_nbBits (take (Suc m) nodes)) \<and> (\<exists>h \<in> set (take (Suc r) nodes). unat (hn_byte h) = m)"

text \<open>The lengths in the order of the symbols.\<close>

definition symbol_bits :: "huf_node list \<Rightarrow> nat \<Rightarrow> nat list" where
  "symbol_bits nodes m = map (\<lambda>s. sum_list (map hn_nbBits (filter (\<lambda>h. unat (hn_byte h) = s) (take (Suc m) nodes)))) [0..<Suc m]"

lemma place_bits_ok:
  assumes "\<forall>h \<in> set hs. unat (hn_byte h) < length es \<and> hn_nbBits h \<le> 12" and "distinct (map hn_byte hs)"
  shows "place_bits hs es = Ok (map (\<lambda>s. if \<exists>h \<in> set hs. unat (hn_byte h) = s
    then of_nat (sum_list (map hn_nbBits (filter (\<lambda>h. unat (hn_byte h) = s) hs))) else es ! s) [0..<length es])"
  using assms
proof (induction hs arbitrary: es)
  case Nil
  show ?case by (simp add: map_nth)
next
  case (Cons h hs)
  let ?es = "es[unat (hn_byte h) := of_nat (hn_nbBits h)]"
  have ih: "place_bits hs ?es = Ok (map (\<lambda>s. if \<exists>h \<in> set hs. unat (hn_byte h) = s
    then of_nat (sum_list (map hn_nbBits (filter (\<lambda>h. unat (hn_byte h) = s) hs))) else ?es ! s) [0..<length es])"
    using Cons.IH [of ?es] Cons.prems by simp
  have new: "unat (hn_byte h') \<noteq> unat (hn_byte h)" if "h' \<in> set hs" for h'
    using Cons.prems(2) that by (metis distinct.simps(2) imageI list.set_map list.simps(9) unat_byte_eq)
  then have "filter (\<lambda>h'. unat (hn_byte h') = unat (hn_byte h)) hs = []" by (simp add: filter_empty_conv)
  then show ?case using Cons.prems ih new by (auto simp: HUF_setNbBits_def intro!: map_cong)
qed

lemma complete_code_mset:
  assumes "mset xs = mset ys" and "complete_code L xs"
  shows "complete_code L ys"
proof -
  have "sum_list (map (share_of L) xs) = sum_list (map (share_of L) ys)"
    using assms(1) by (metis mset_map sum_mset_sum_list)
  then show ?thesis using assms mset_eq_setD [OF assms(1)] by (simp add: complete_code_def)
qed

lemma nodes_symbols:
  assumes tree: "code_tree nodes r m L"
  shows "mset (map (\<lambda>h. unat (hn_byte h)) (take (Suc m) nodes)) = mset [0..<Suc m]"
proof -
  let ?bs = "map (\<lambda>h. unat (hn_byte h)) (take (Suc m) nodes)"
  have "distinct (map unat (map hn_byte (take (Suc m) nodes)))"
    using tree by (subst distinct_map) (auto simp: code_tree_def inj_on_def)
  then have d: "distinct ?bs" by (simp add: o_def)
  moreover have "set ?bs = {0..<Suc m}"
  proof (rule card_subset_eq)
    show "set ?bs \<subseteq> {0..<Suc m}" using tree by (auto simp: code_tree_def less_Suc_eq_le)
    show "card (set ?bs) = card {0..<Suc m}" using distinct_card [OF d] tree by (simp add: code_tree_def)
  qed simp
  ultimately show ?thesis using set_eq_iff_mset_eq_distinct [OF d distinct_upt] set_upt by blast
qed

lemma node_bits:
  assumes tree: "code_tree nodes r m L" and h: "h \<in> set (take (Suc m) nodes)"
  shows "symbol_bits nodes m ! unat (hn_byte h) = hn_nbBits h"
proof -
  have d: "distinct (map hn_byte (take (Suc m) nodes))" and l: "unat (hn_byte h) < Suc m" using tree h by (auto simp: code_tree_def less_Suc_eq_le)
  have "filter (\<lambda>h'. hn_byte h' = hn_byte h) hs = [h]" if "distinct (map hn_byte hs)" "h \<in> set hs" for hs
    using that
  proof (induction hs)
    case (Cons a hs)
    show ?case
    proof (cases "a = h")
      case True
      then have "\<forall>h' \<in> set hs. hn_byte h' \<noteq> hn_byte h" using Cons.prems(1) by (auto simp: image_iff)
      then show ?thesis using True by (simp add: filter_empty_conv)
    next
      case False
      then have "h \<in> set hs" "hn_byte a \<noteq> hn_byte h" using Cons.prems by (auto simp: image_iff)
      then show ?thesis using Cons by simp
    qed
  qed simp
  from this [OF d h] show ?thesis using l by (simp add: symbol_bits_def del: upt_Suc)
qed

lemma symbol_bits_mset:
  assumes tree: "code_tree nodes r m L"
  shows "mset (symbol_bits nodes m) = mset (map hn_nbBits (take (Suc m) nodes))"
proof -
  have "map hn_nbBits (take (Suc m) nodes) = map ((!) (symbol_bits nodes m)) (map (\<lambda>h. unat (hn_byte h)) (take (Suc m) nodes))"
    using node_bits [OF tree] by simp
  then have "mset (map hn_nbBits (take (Suc m) nodes)) = mset (map ((!) (symbol_bits nodes m)) [0..<Suc m])"
    using nodes_symbols [OF tree] by (metis mset_map)
  moreover have "map ((!) (symbol_bits nodes m)) [0..<Suc m] = symbol_bits nodes m"
    using map_nth [of "symbol_bits nodes m"] by (simp add: symbol_bits_def del: upt_Suc)
  ultimately show ?thesis by (simp only:)
qed

lemma symbol_bits_complete:
  assumes tree: "code_tree nodes r m L"
  shows "complete_code L (symbol_bits nodes m)"
proof (rule complete_code_mset [OF symbol_bits_mset [OF tree, symmetric]])
  show "complete_code L (map hn_nbBits (take (Suc m) nodes))" using tree unfolding code_tree_def by blast
qed

lemma symbol_bits_last:
  assumes tree: "code_tree nodes r m L"
  shows "length (symbol_bits nodes m) = Suc m \<and> 0 < symbol_bits nodes m ! m"
proof -
  obtain h where h: "h \<in> set (take (Suc r) nodes)" "unat (hn_byte h) = m" "0 < hn_nbBits h" using tree by (auto simp: code_tree_def)
  have "Suc r \<le> Suc m" using tree by (simp add: code_tree_def)
  then have "set (take (Suc r) nodes) \<subseteq> set (take (Suc m) nodes)" by (rule set_take_subset_set_take)
  then have "symbol_bits nodes m ! m = hn_nbBits h" using node_bits [OF tree, of h] h(1,2) by auto
  then show ?thesis using h(3) by (simp add: symbol_bits_def del: upt_Suc)
qed

lemma nodes_split:
  assumes "code_tree nodes r m L"
  shows "take (Suc m) nodes = take (Suc r) nodes @ drop (Suc r) (take (Suc m) nodes)"
proof -
  have "take (Suc r) (take (Suc m) nodes) = take (Suc r) nodes" using assms by (simp add: code_tree_def min_absorb1)
  then show ?thesis using append_take_drop_id [of "Suc r" "take (Suc m) nodes"] by simp
qed

lemma rank_counts:
  assumes tree: "code_tree nodes r m L" and k: "0 < k"
  shows "length (filter (\<lambda>h. hn_nbBits h = k) (take (Suc r) nodes)) = count_list (symbol_bits nodes m) k"
proof -
  note nodes_split [OF tree]
  moreover have "filter (\<lambda>h. hn_nbBits h = k) (drop (Suc r) (take (Suc m) nodes)) = []"
    using tree k by (auto simp: code_tree_def filter_empty_conv)
  ultimately have "filter (\<lambda>h. hn_nbBits h = k) (take (Suc r) nodes) = filter (\<lambda>h. hn_nbBits h = k) (take (Suc m) nodes)"
    by (metis append_Nil2 filter_append)
  also have "length \<dots> = count_list (map hn_nbBits (take (Suc m) nodes)) k"
    by (simp add: count_list_eq_length_filter filter_map o_def eq_commute)
  also have "\<dots> = count_list (symbol_bits nodes m) k" by (metis count_mset symbol_bits_mset [OF tree])
  finally show ?thesis .
qed

lemma built_table:
  assumes tree: "code_tree nodes r m L"
  shows "HUF_buildCTableFromTree junk nodes r m L
    = Ok \<lparr>ht_tableLog = L, ht_maxSymbolValue = m, ht_elts = code_elts L (symbol_bits nodes m)\<rparr>"
proof -
  let ?hs = "take (Suc m) nodes" and ?nbs = "symbol_bits nodes m"
  have t: "r \<le> m" "m < length nodes" "m < 256" "distinct (map hn_byte ?hs)" "\<forall>h \<in> set ?hs. unat (hn_byte h) \<le> m"
    using tree unfolding code_tree_def by blast+
  have comp: "complete_code L (map hn_nbBits ?hs)" using tree by (simp only: code_tree_def)
  have L: "L \<le> 12" "\<forall>h \<in> set ?hs. hn_nbBits h \<le> 12" using comp by (auto simp: complete_code_def)
  have sub: "set (take (Suc r) nodes) \<subseteq> set ?hs" by (rule set_take_subset_set_take) (use t(1) in simp)
  have all: "\<exists>h \<in> set ?hs. unat (hn_byte h) = s" if "s < Suc m" for s
  proof -
    have "s \<in> set (map (\<lambda>h. unat (hn_byte h)) ?hs)" using mset_eq_setD [OF nodes_symbols [OF tree]] that by (metis atLeastLessThan_iff set_upt zero_le)
    then show ?thesis by auto
  qed
  have "place_bits ?hs (map junk [0..<Suc m]) = Ok (map (\<lambda>s. if \<exists>h \<in> set ?hs. unat (hn_byte h) = s
    then of_nat (sum_list (map hn_nbBits (filter (\<lambda>h. unat (hn_byte h) = s) ?hs))) else map junk [0..<Suc m] ! s) [0..<length (map junk [0..<Suc m])])"
    by (rule place_bits_ok [OF _ t(4)]) (use t(5) L(2) in \<open>simp add: less_Suc_eq_le\<close>)
  also have "\<dots> = Ok (map of_nat ?nbs)" using all by (auto simp: symbol_bits_def simp del: upt_Suc)
  finally have place: "place_bits ?hs (map junk [0..<Suc m]) = Ok (map of_nat ?nbs)" .
  let ?cnts = "map (\<lambda>n. length (filter (\<lambda>h. hn_nbBits h = n) (take (Suc r) nodes))) [0..<13]"
  have "assign_values (map of_nat ?nbs) (start_values L ?cnts 0 (replicate 13 0)) = Ok (code_elts L ?nbs)"
    by (rule assigned_codes [OF symbol_bits_complete [OF tree]]) (use rank_counts [OF tree] L(1) in auto)
  then show ?thesis
    using t(1-3) L sub place by (auto simp: HUF_buildCTableFromTree_def Let_def HUF_TABLELOG_MAX_def list_all_iff simp del: upt_Suc)
qed

lemma table_roundtrip_ok:
  assumes tree: "code_tree nodes r m L" and "HUF_buildCTableFromTree junk nodes r m L = Ok ct"
    and "HUF_writeCTable_wksp junk' norm dst ct m L ws wsz = Ok (n, buf)" and "m \<le> M"
  shows "HUF_readCTable M (take n buf @ rest) = Ok (n, ct, r < m)"
proof -
  let ?nbs = "symbol_bits nodes m"
  have ct: "ct = \<lparr>ht_tableLog = L, ht_maxSymbolValue = m, ht_elts = code_elts L ?nbs\<rparr>" using built_table [OF tree] assms(2) by simp
  have len: "length ?nbs = Suc m" "0 < ?nbs ! m" using symbol_bits_last [OF tree] by auto
  have split: "?nbs = take m ?nbs @ [?nbs ! m]" using len(1) take_Suc_conv_app_nth [of m ?nbs] by simp
  have "HUF_readCTable M (take n buf @ rest) = Ok (n, ct, 0 \<in> set (take m ?nbs))"
    using readCTable_ok [of junk' norm dst L m "take m ?nbs" "?nbs ! m" ws wsz n buf M rest] assms(3,4) len symbol_bits_complete [OF tree]
    unfolding ct split [symmetric] by simp
  moreover have "0 \<in> set (take m ?nbs) \<longleftrightarrow> r < m"
  proof -
    have "0 \<in> set (take m ?nbs) \<longleftrightarrow> 0 \<in> set ?nbs" using arg_cong [OF split, of set] len(2) by auto
    also have "\<dots> \<longleftrightarrow> 0 \<in> set (map hn_nbBits (take (Suc m) nodes))" using mset_eq_setD [OF symbol_bits_mset [OF tree]] by simp
    also have "\<dots> \<longleftrightarrow> drop (Suc r) (take (Suc m) nodes) \<noteq> []"
    proof -
      have "0 \<in> set (map hn_nbBits (take (Suc m) nodes)) \<longleftrightarrow> 0 \<in> hn_nbBits ` set (drop (Suc r) (take (Suc m) nodes))"
        using tree arg_cong [OF nodes_split [OF tree], of set] by (auto simp: code_tree_def)
      moreover have "\<forall>h \<in> set (drop (Suc r) (take (Suc m) nodes)). hn_nbBits h = 0" using tree unfolding code_tree_def by blast
      ultimately show ?thesis by (cases "drop (Suc r) (take (Suc m) nodes)") auto
    qed
    also have "\<dots> \<longleftrightarrow> r < m" using tree by (auto simp: code_tree_def)
    finally show ?thesis .
  qed
  ultimately show ?thesis by simp
qed

section \<open>The properties\<close>

lemma huf_elt_value:
  assumes "0 < n" and "n \<le> 12" and "v < 2 ^ n"
  shows "unat (HUF_getValue (huf_elt n v)) div 2 ^ (64 - n) = v"
proof -
  let ?e = "huf_elt n v"
  have p: "n < 2 ^ (64 - n)"
  proof -
    have "(2 :: nat) ^ 52 \<le> 2 ^ (64 - n)" using assms(2) by (intro power_increasing) simp_all
    then show ?thesis using assms(2) by simp
  qed
  have "drop_bit (64 - n) (HUF_getValue ?e) = of_nat v"
  proof (rule bit_eqI)
    fix i
    assume "possible_bit TYPE(u64) i"
    then have i: "i < 64" by simp
    have low: "\<not> bit (of_nat n :: u64) (64 - n + i)"
    proof -
      have "n < 2 ^ (64 - n + i)" using p by (rule less_le_trans) (intro power_increasing, simp_all)
      then have "\<not> bit n (64 - n + i)" by (simp add: bit_iff_odd)
      then show ?thesis by (simp add: bit_of_nat_iff)
    qed
    have top: "\<not> bit (0xFF :: u64) (64 - n + i)"
    proof -
      have "(0xFF :: u64) = mask 8" by (simp add: mask_numeral)
      moreover have "\<not> 64 - n + i < 8" using assms(2) by linarith
      ultimately show ?thesis by (simp only: bit_mask_iff) simp
    qed
    have vi: "\<not> bit (of_nat v :: u64) i" if "n \<le> i"
    proof -
      have "(2 :: nat) ^ n \<le> 2 ^ i" using that by (intro power_increasing) simp_all
      then have "v < 2 ^ i" using assms(3) by linarith
      then have "\<not> bit v i" by (simp add: bit_iff_odd)
      then show ?thesis by (simp add: bit_of_nat_iff)
    qed
    have "bit (drop_bit (64 - n) (HUF_getValue ?e)) i \<longleftrightarrow> bit (HUF_getValue ?e) (64 - n + i)"
      by (simp only: bit_drop_bit_eq o_apply)
    also have "\<dots> \<longleftrightarrow> bit (HUF_getValue ?e) (i + (64 - n))" by (simp only: add.commute)
    also have "\<dots> \<longleftrightarrow> bit ?e (i + (64 - n)) \<and> \<not> bit (0xFF :: u64) (i + (64 - n))"
    proof (cases "i + (64 - n) < 64")
      case True
      have "bit (NOT a) k \<longleftrightarrow> \<not> bit a k" if "k < 64" for a :: u64 and k using that by (simp add: bit_not_iff)
      from this [OF True] show ?thesis by (simp only: HUF_getValue_def bit_and_iff)
    next
      case False
      have "\<not> bit a (i + (64 - n))" for a :: u64 using False bit_imp_le_length [of a "i + (64 - n)"] by auto
      then show ?thesis by blast
    qed
    also have "\<dots> \<longleftrightarrow> bit ?e (i + (64 - n))" using top by (simp only: add.commute simp_thms)
    also have "\<dots> \<longleftrightarrow> bit (push_bit (64 - n) (of_nat v) :: u64) (i + (64 - n))"
    proof -
      have "?e = of_nat n OR push_bit (64 - n) (of_nat v)" using assms(1) by (simp add: huf_elt_def)
      then show ?thesis using low by (simp only: bit_or_iff add.commute simp_thms)
    qed
    also have "\<dots> \<longleftrightarrow> bit (of_nat v :: u64) i"
    proof (cases "i < n")
      case True
      then have "64 - n \<le> i + 64 - n" "i + 64 - n < 64" using assms(2) by linarith+
      then show ?thesis using assms(2) by (simp add: bit_push_bit_iff)
    next
      case False
      then have "64 \<le> i + (64 - n)" by linarith
      then show ?thesis using vi False by (auto dest: bit_imp_le_length)
    qed
    finally show "bit (drop_bit (64 - n) (HUF_getValue ?e)) i \<longleftrightarrow> bit (of_nat v :: u64) i" .
  qed
  moreover have "v < 2 ^ 64"
  proof -
    have "(2 :: nat) ^ n \<le> 2 ^ 64" using assms(2) by (intro power_increasing) simp_all
    then show ?thesis using assms(3) by linarith
  qed
  ultimately show ?thesis using unat_drop_bit_u64 [of "64 - n" "HUF_getValue ?e"] by (simp add: unsigned_of_nat take_bit_nat_eq_self)
qed

lemma table_entry:
  assumes "code_tree nodes r m L" and "HUF_buildCTableFromTree junk nodes r m L = Ok ct" and "i \<le> m"
  shows "HUF_getNbBits (ht_elts ct ! i) = symbol_bits nodes m ! i"
    and "0 < symbol_bits nodes m ! i \<Longrightarrow>
      unat (HUF_getValue (ht_elts ct ! i)) div 2 ^ (64 - symbol_bits nodes m ! i) = code_of L (symbol_bits nodes m) i"
proof -
  let ?nbs = "symbol_bits nodes m"
  have ct: "ht_elts ct = code_elts L ?nbs" using built_table [OF assms(1)] assms(2) by auto
  have len: "length ?nbs = Suc m" using symbol_bits_last [OF assms(1)] by simp
  note comp = symbol_bits_complete [OF assms(1)]
  have i: "i < length ?nbs" using len assms(3) by simp
  show "HUF_getNbBits (ht_elts ct ! i) = ?nbs ! i"
    using arg_cong [OF code_elts_bits [OF comp], of "\<lambda>xs. xs ! i"] i ct by (simp add: code_elts_def)
  assume n: "0 < ?nbs ! i"
  have le: "?nbs ! i \<le> L" "L \<le> 12" using comp i by (auto simp: complete_code_def)
  have "code_of L ?nbs i < 2 ^ (?nbs ! i)"
    using codes_fit [OF comp n le(1)] rank_less [OF i] by (simp add: code_of_def)
  then show "unat (HUF_getValue (ht_elts ct ! i)) div 2 ^ (64 - ?nbs ! i) = code_of L ?nbs i"
    using huf_elt_value [OF n] le ct i by (simp add: code_elts_def)
qed

text \<open>C40: the codes of a Huffman table built from a tree are a complete prefix code: every string of bits, as long as the
  longest code, begins with the code of exactly one symbol.\<close>

theorem codes_partition:
  assumes "code_tree nodes r m L" and "HUF_buildCTableFromTree junk nodes r m L = Ok ct" and "x < 2 ^ L"
  shows "\<exists>!i. i \<le> m \<and> 0 < HUF_getNbBits (ht_elts ct ! i)
    \<and> x div 2 ^ (L - HUF_getNbBits (ht_elts ct ! i))
      = unat (HUF_getValue (ht_elts ct ! i)) div 2 ^ (64 - HUF_getNbBits (ht_elts ct ! i))"
proof -
  let ?nbs = "symbol_bits nodes m"
  note e = table_entry [OF assms(1,2)]
  have len: "length ?nbs = Suc m" using symbol_bits_last [OF assms(1)] by simp
  note comp = symbol_bits_complete [OF assms(1)]
  let ?P = "\<lambda>i. i \<le> m \<and> 0 < ?nbs ! i \<and> x div 2 ^ (L - ?nbs ! i) = code_of L ?nbs i"
  have "\<exists>!i. ?P i"
  proof (rule ex_ex1I)
    show "\<exists>i. ?P i" using begins_some [OF comp assms(3)] len by (auto simp: less_Suc_eq_le)
    show "i = j" if "?P i" "?P j" for i j using begins_once [OF comp, of i j x] that len by (auto simp: less_Suc_eq_le)
  qed
  moreover have "?P i \<longleftrightarrow> i \<le> m \<and> 0 < HUF_getNbBits (ht_elts ct ! i)
    \<and> x div 2 ^ (L - HUF_getNbBits (ht_elts ct ! i))
      = unat (HUF_getValue (ht_elts ct ! i)) div 2 ^ (64 - HUF_getNbBits (ht_elts ct ! i))" for i
    using e [of i] by auto
  ultimately show ?thesis by simp
qed

definition example_nodes :: "huf_node list" where
  "example_nodes = map (\<lambda>(b, n). \<lparr>hn_count = 0, hn_parent = 0, hn_byte = b, hn_nbBits = n\<rparr>) [(1, 1), (3, 2), (0, 3), (4, 3), (2, 0)]"

lemma example_tree: "code_tree example_nodes 3 4 3"
proof -
  let ?h = "\<lambda>b n. \<lparr>hn_count = 0, hn_parent = 0, hn_byte = b, hn_nbBits = n\<rparr>"
  have t: "take (Suc 4) example_nodes = [?h 1 1, ?h 3 2, ?h 0 3, ?h 4 3, ?h 2 0]"
    "take (Suc 3) example_nodes = [?h 1 1, ?h 3 2, ?h 0 3, ?h 4 3]" "length example_nodes = 5"
    by (simp_all add: example_nodes_def)
  have "complete_code 3 [1, 2, 3, 3, 0]" by (simp add: complete_code_def share_of_def)
  then show ?thesis unfolding code_tree_def t by simp
qed

lemma codes_partition_witness:
  "\<exists>ct. HUF_buildCTableFromTree (\<lambda>_. 0) example_nodes 3 4 3 = Ok ct
    \<and> (\<exists>!i. i \<le> 4 \<and> 0 < HUF_getNbBits (ht_elts ct ! i)
      \<and> 5 div 2 ^ (3 - HUF_getNbBits (ht_elts ct ! i)) = unat (HUF_getValue (ht_elts ct ! i)) div 2 ^ (64 - HUF_getNbBits (ht_elts ct ! i)))"
proof -
  obtain ct where ct: "HUF_buildCTableFromTree (\<lambda>_. 0) example_nodes 3 4 3 = Ok ct" using built_table [OF example_tree] by blast
  have "(5 :: nat) < 2 ^ 3" by simp
  from codes_partition [OF example_tree ct this] ct show ?thesis by (intro exI [of _ ct] conjI)
qed

text \<open>C39: a Huffman table written as the header of a block is read back as the same table, with the size of the header
  and whether some symbol has no code; whatever follows the header does not matter.\<close>

theorem huffman_table_roundtrip:
  assumes "code_tree nodes r m L" and "HUF_buildCTableFromTree junk nodes r m L = Ok ct"
    and "HUF_writeCTable_wksp junk' norm dst ct m L ws wsz = Ok (n, buf)" and "m \<le> M"
  shows "HUF_readCTable M (take n buf @ rest) = Ok (n, ct, r < m)"
  using table_roundtrip_ok [OF assms] .

definition example_table :: huf_ctable where
  "example_table = \<lparr>ht_tableLog = 3, ht_maxSymbolValue = 4,
     ht_elts = [0x0000000000000003, 0x8000000000000001, 0, 0x4000000000000002, 0x2000000000000003]\<rparr>"

lemma example_built: "HUF_buildCTableFromTree (\<lambda>_. 0) example_nodes 3 4 3 = Ok example_table"
  by code_simp

lemma example_written: "HUF_writeCTable_wksp (\<lambda>_. 0) [] [0, 0, 0, 7] example_table 4 3 64 10000 = Ok (3, [131, 0x13, 0x02, 7])"
proof -
  have sizes: "CompressWeightsWksp_size \<le> 10000" "WriteCTableWksp_size \<le> 10000" "\<not> HUF_SYMBOLVALUE_MAX < 4"
    by (simp_all add: CompressWeightsWksp_size_def WriteCTableWksp_size_def scratch_size_def CTABLE_WORKSPACE_SIZE_def
        FSE_CTABLE_SIZE_U32_def HUF_TABLELOG_MAX_def MAX_FSE_TABLELOG_FOR_HUFF_HEADER_def HUF_SYMBOLVALUE_MAX_def)
  have align: "HUF_alignUpWorkspace 64 k 4 = Ok (Some 64, k)" for k
    by (simp add: HUF_alignUpWorkspace_def HUF_WORKSPACE_MAX_ALIGNMENT_def)
  have ws: "weights_of 3 (take 4 (ht_elts example_table)) = Ok [1, 3, 0, 2]" by code_simp
  have "HIST_count_simple HUF_TABLELOG_MAX [1, 3, 0, 2] = Ok (1, 3, replicate 4 1 @ replicate 9 0)" by code_simp
  then have weights: "HUF_compressWeights (\<lambda>_. 0) [] [0, 0, 7] [1, 3, 0, 2] 64 CompressWeightsWksp_size = Ok (0, [0, 0, 7])"
    by (simp add: HUF_compressWeights_def align)
  have raw: "write_raw (Suc (Suc (Suc (Suc 0)))) 4 [1, 3, 0, 2] [0, 0, 7] = Ok (3, [131, 0x13, 0x02, 7])" by code_simp
  show ?thesis using sizes
    by (simp add: HUF_writeCTable_wksp_def align ws weights raw) (simp add: example_table_def raw)
qed

lemma huffman_table_roundtrip_witness: "HUF_readCTable 255 [131, 0x13, 0x02, 9] = Ok (3, example_table, True)"
  using huffman_table_roundtrip [OF example_tree example_built example_written, of 255 "[9]"] by simp

end
