(* ===== verification/SocketManager.thy ===== *)
theory SocketManager
  imports DAQUtilities
begin

text \<open>
  The thread that receives and sends multipart messages over one socket, and the class around it
  (\<open>SocketManager.cpp\<close>), with the options of sockets (\<open>SocketOptions.cpp\<close>). Message objects are numbers;
  what the pool gives out, what the buffer of replies is swapped for and what the socket does are
  arguments, and what is handed to pool and buffers is recorded in \<open>handed\<close>.
\<close>

section \<open>Messages and the arguments of the thread\<close>

text \<open>The object behind a \<open>ZMQMessages*\<close>; \<open>sent\<close> and \<open>error\<close> point to flags of the tool, or nowhere.\<close>

record zmq_messages =
  zm_messages :: "string list"
  zm_sent :: "nat option"
  zm_error :: "nat option"

datatype outlet = ReceivedBuffer | SharedReceivedBuffer | BadBuffer | SharedBadBuffer | MessagePool

text \<open>\<open>revents_in\<close>, \<open>revents_out\<close>: what the last poll left in the two items. The pointers to buffers only matter
  by being null or not.\<close>

record sm_args =
  received_messages :: bool
  messages_to_send :: bool
  bad_messages :: bool
  shared_received_messages :: bool
  shared_bad_messages :: bool
  expected_number_messages :: u16
  local_messages_to_send :: "nat list"
  objects :: "nat \<Rightarrow> zmq_messages"
  flags :: "nat \<Rightarrow> bool"
  handed :: "(outlet \<times> nat) list"
  lost :: "nat list" \<comment> \<open>objects nothing points to any more\<close>
  wire :: "(string \<times> bool) list" \<comment> \<open>frames sent, and whether more follow\<close>
  num_messages_received :: u64
  num_replies_sent :: u64
  num_receive_errors :: u64
  num_send_errors :: u64
  poll_return :: int
  revents_in :: bool
  revents_out :: bool

definition hand :: "outlet \<Rightarrow> nat \<Rightarrow> sm_args \<Rightarrow> sm_args" where
  "hand to m s = s\<lparr>handed := handed s @ [(to, m)]\<rparr>"

section \<open>Receiving\<close>

text \<open>One round of the receive loop: the object the pool gave, and either an exception of \<open>recv\<close> or the parts
  the object already held (the pool does not empty it), the parts received, whether the last \<open>recv\<close>
  returned true, and the poll after it (\<open>None\<close>: an exception).\<close>

datatype arrival =
    RecvThrows nat
  | Arrived nat "string list" "string list" bool "(int \<times> bool) option"

definition wrong_parts :: "string list \<Rightarrow> bool \<Rightarrow> sm_args \<Rightarrow> bool" where
  "wrong_parts ps ok s \<longleftrightarrow>
     \<not> ok \<or> (length ps \<noteq> unat (expected_number_messages s) \<and> 0 < expected_number_messages s)"

definition file_message :: "nat \<Rightarrow> string list \<Rightarrow> bool \<Rightarrow> sm_args \<Rightarrow> sm_args" where
  "file_message m ps ok s =
     (let s = s\<lparr>objects := (objects s)(m := (objects s m)\<lparr>zm_messages := ps\<rparr>)\<rparr> in
      if wrong_parts ps ok s then
        let s = (if \<not> bad_messages s then
                   hand MessagePool m (s\<lparr>objects := (objects s)(m := (objects s m)\<lparr>zm_messages := []\<rparr>)\<rparr>)
                 else if shared_bad_messages s then hand SharedBadBuffer m s
                 else hand BadBuffer m s)
        in s\<lparr>num_receive_errors := num_receive_errors s + 1\<rparr>
      else
        let s = (if shared_received_messages s then hand SharedReceivedBuffer m s
                 else hand ReceivedBuffer m s)
        in s\<lparr>num_messages_received := num_messages_received s + 1\<rparr>)"

text \<open>One round; the flag is \<open>sock_lock.owns_lock()\<close>. Unlocking what is not locked throws, and every exception
  is caught inside the loop, which then goes on.\<close>

definition receive_round :: "arrival \<Rightarrow> bool \<times> sm_args \<Rightarrow> bool \<times> sm_args" where
  "receive_round a x =
     (case x of (owns, s) \<Rightarrow>
        case a of
          RecvThrows m \<Rightarrow> (False, s\<lparr>lost := lost s @ [m]\<rparr>)
        | Arrived m held ps ok poll \<Rightarrow>
            if \<not> owns then (False, s\<lparr>lost := lost s @ [m]\<rparr>)
            else case poll of
              None \<Rightarrow> (False, file_message m (held @ ps) ok s)
            | Some (r, ready) \<Rightarrow> (True, (file_message m (held @ ps) ok s)\<lparr>poll_return := r, revents_in := ready\<rparr>))"

text \<open>The loop: how many rounds there were and the state after them; \<open>None\<close> if it never ends.\<close>

partial_function (option) receive_loop ::
    "(nat \<Rightarrow> arrival) \<Rightarrow> nat \<Rightarrow> bool \<Rightarrow> sm_args \<Rightarrow> (nat \<times> sm_args) option" where
  "receive_loop arrivals i owns s =
     (if 0 < poll_return s \<and> revents_in s then
        case receive_round (arrivals i) (owns, s) of (owns, s) \<Rightarrow> receive_loop arrivals (Suc i) owns s
      else Some (i, s))"

section \<open>Sending\<close>

datatype send_outcome = SendOk | SendFails | SendThrows

text \<open>The parts of one message from part \<open>j\<close> on: whether all was sent, \<open>None\<close> for an exception (also the one of
  \<open>at(0)\<close> for a message without parts, whose size less one is huge), and the frames that left.\<close>

fun send_parts :: "(nat \<Rightarrow> send_outcome) \<Rightarrow> nat \<Rightarrow> string list \<Rightarrow> bool option \<times> (string \<times> bool) list" where
  "send_parts sends j [] = (None, [])"
| "send_parts sends j [p] =
     (case sends j of SendOk \<Rightarrow> (Some True, [(p, False)]) | SendFails \<Rightarrow> (Some False, []) | SendThrows \<Rightarrow> (None, []))"
| "send_parts sends j (p # q # ps) =
     (case sends j of
        SendOk \<Rightarrow> let (r, fs) = send_parts sends (Suc j) (q # ps) in (r, (p, True) # fs)
      | SendFails \<Rightarrow> (Some False, []) | SendThrows \<Rightarrow> (None, []))"

definition set_flag :: "nat option \<Rightarrow> bool \<Rightarrow> (nat \<Rightarrow> bool) \<Rightarrow> nat \<Rightarrow> bool" where
  "set_flag p b f = (case p of None \<Rightarrow> f | Some a \<Rightarrow> f(a := b))"

definition mark_sent :: "nat \<Rightarrow> bool \<Rightarrow> sm_args \<Rightarrow> sm_args" where
  "mark_sent m ok s =
     s\<lparr>num_replies_sent := (if ok then num_replies_sent s + 1 else num_replies_sent s),
       num_send_errors := (if ok then num_send_errors s else num_send_errors s + 1),
       flags := set_flag (zm_error (objects s m)) (\<not> ok) (set_flag (zm_sent (objects s m)) ok (flags s))\<rparr>"

text \<open>The loop over the messages, in which an exception ends the whole loop.\<close>

fun send_messages :: "(nat \<Rightarrow> nat \<Rightarrow> send_outcome) \<Rightarrow> nat \<Rightarrow> nat list \<Rightarrow> sm_args \<Rightarrow> sm_args" where
  "send_messages sends i [] s = s"
| "send_messages sends i (m # ms) s =
     (let (r, fs) = send_parts (sends i) 0 (zm_messages (objects s m));
          s = s\<lparr>wire := wire s @ fs\<rparr>
      in case r of
           None \<Rightarrow> mark_sent m False s
         | Some ok \<Rightarrow> send_messages sends (Suc i) ms (mark_sent m ok s))"

text \<open>Afterwards all of them are emptied and go back to the pool.\<close>

fun recycle :: "nat list \<Rightarrow> sm_args \<Rightarrow> sm_args" where
  "recycle [] s = s"
| "recycle (m # ms) s =
     recycle ms (hand MessagePool m (s\<lparr>objects := (objects s)(m := (objects s m)\<lparr>zm_messages := []\<rparr>)\<rparr>))"

definition send_replies :: "(nat \<Rightarrow> nat \<Rightarrow> send_outcome) \<Rightarrow> sm_args \<Rightarrow> sm_args" where
  "send_replies sends s =
     (if revents_out s \<and> local_messages_to_send s \<noteq> [] then
        (recycle (local_messages_to_send s) (send_messages sends 0 (local_messages_to_send s) s))
          \<lparr>local_messages_to_send := []\<rparr>
      else s)"

section \<open>A turn of the thread\<close>

text \<open>The first poll looks at the items there is use for, and leaves the other one as it was. Its outcome is the
  return value and what it finds in either item, or an exception.\<close>

definition polled :: "(int \<times> bool \<times> bool) option \<Rightarrow> sm_args \<Rightarrow> sm_args option" where
  "polled poll s =
     (if local_messages_to_send s = [] \<and> \<not> received_messages s then None
      else case poll of
        None \<Rightarrow> None
      | Some (r, ready_in, ready_out) \<Rightarrow> Some (s\<lparr>poll_return := r,
          revents_in := (if received_messages s then ready_in else revents_in s),
          revents_out := (if local_messages_to_send s \<noteq> [] then ready_out else revents_out s)\<rparr>))"

definition Thread_turn ::
    "nat list \<Rightarrow> (int \<times> bool \<times> bool) option \<Rightarrow> (nat \<Rightarrow> arrival) \<Rightarrow> (nat \<Rightarrow> nat \<Rightarrow> send_outcome) \<Rightarrow> sm_args
      \<Rightarrow> (nat \<times> sm_args) option" where
  "Thread_turn taken poll arrivals sends s =
     (let s = (if messages_to_send s then s\<lparr>local_messages_to_send := taken\<rparr> else s) in
      case polled poll s of
        None \<Rightarrow> Some (0, s)
      | Some s \<Rightarrow> map_option (\<lambda>(n, s). (n, send_replies sends s)) (receive_loop arrivals 0 True s))"

section \<open>The class\<close>

text \<open>\<open>sm_sock\<close>: the socket pointer is not null. The last field is what the socket has been connected to.\<close>

record 'o socket_manager =
  sm_thread :: sm_args
  sm_running :: bool
  sm_sock :: bool
  sm_paused :: bool
  sm_connections :: "'o omap"
  last_num_messages_received :: u64
  last_num_replies_sent :: u64
  last_num_receive_errors :: u64
  last_num_send_errors :: u64
  sm_endpoints :: "string list"

definition CreateThread_sm :: "'o socket_manager \<Rightarrow> 'o socket_manager" where
  "CreateThread_sm s =
     s\<lparr>sm_thread := (sm_thread s)\<lparr>revents_in := False, revents_out := False, num_messages_received := 0,
         num_replies_sent := 0, num_receive_errors := 0, num_send_errors := 0\<rparr>,
       sm_running := True\<rparr>"

text \<open>The three forms of \<open>Init\<close>, by the buffers they are given; the shared buffers of an earlier call are kept.\<close>

definition Init_plain ::
    "bool \<Rightarrow> bool \<Rightarrow> bool \<Rightarrow> bool \<Rightarrow> bool \<Rightarrow> bool \<Rightarrow> u16 \<Rightarrow> 'o socket_manager \<Rightarrow> bool \<times> 'o socket_manager" where
  "Init_plain data_model in_sock receive_buffer send_buffer bad_buffer pool expected s =
     (if \<not> in_sock \<or> \<not> data_model \<or> \<not> pool then (False, s)
      else (True, CreateThread_sm (s\<lparr>sm_sock := True, sm_paused := False,
        sm_thread := (sm_thread s)\<lparr>received_messages := receive_buffer, messages_to_send := send_buffer,
          bad_messages := bad_buffer, expected_number_messages := expected\<rparr>\<rparr>)))"

definition Init_shared_received ::
    "bool \<Rightarrow> bool \<Rightarrow> bool \<Rightarrow> bool \<Rightarrow> bool \<Rightarrow> bool \<Rightarrow> u16 \<Rightarrow> 'o socket_manager \<Rightarrow> bool \<times> 'o socket_manager" where
  "Init_shared_received data_model in_sock receive_buffer send_buffer bad_buffer pool expected s =
     Init_plain data_model in_sock False send_buffer bad_buffer pool expected
       (s\<lparr>sm_thread := (sm_thread s)\<lparr>shared_received_messages := receive_buffer\<rparr>\<rparr>)"

definition Init_shared ::
    "bool \<Rightarrow> bool \<Rightarrow> bool \<Rightarrow> bool \<Rightarrow> bool \<Rightarrow> bool \<Rightarrow> u16 \<Rightarrow> 'o socket_manager \<Rightarrow> bool \<times> 'o socket_manager" where
  "Init_shared data_model in_sock receive_buffer send_buffer bad_buffer pool expected s =
     Init_plain data_model in_sock False send_buffer False pool expected
       (s\<lparr>sm_thread := (sm_thread s)\<lparr>shared_received_messages := receive_buffer, shared_bad_messages := bad_buffer\<rparr>\<rparr>)"

text \<open>An exception of the socket (\<open>None\<close> as the number) leaves the thread paused. The outer \<open>None\<close> is as in
  \<open>UpdateConnections\<close>.\<close>

definition Update_sm ::
    "('o, 'u) sd_lib \<Rightarrow> (string \<Rightarrow> bool) \<Rightarrow> string \<Rightarrow> string \<Rightarrow> string \<Rightarrow> frame list \<Rightarrow> 'o socket_manager
      \<Rightarrow> (nat option \<times> 'o socket_manager) option" where
  "Update_sm lib connects ServiceName port port_name frames s =
     (if \<not> sm_sock s then Some (Some 0, s)
      else map_option (\<lambda>(ret, m, es).
        (ret, s\<lparr>sm_paused := (ret = None), sm_connections := m, sm_endpoints := sm_endpoints s @ es\<rparr>))
        (UpdateConnections lib connects ServiceName port port_name frames (sm_connections s)))"

definition Close_sm :: "'o socket_manager \<Rightarrow> 'o socket_manager" where
  "Close_sm s =
     (if sm_sock s then s\<lparr>sm_paused := True, sm_running := False, sm_connections := [], sm_sock := False\<rparr> else s)"

definition ResetConnections :: "'o socket_manager \<Rightarrow> 'o socket_manager" where
  "ResetConnections s = s\<lparr>sm_connections := [], sm_paused := False\<rparr>"

definition SCResetConnections :: "'o socket_manager \<Rightarrow> string \<times> 'o socket_manager" where
  "SCResetConnections s = (''Connections Reset'', ResetConnections s)"

definition GetConnections :: "'o socket_manager \<Rightarrow> string" where
  "GetConnections s = ''['' @ concat (map (\<lambda>(k, _). k @ '' '') (sm_connections s)) @ '']''"

text \<open>What is put into the store: a number, or a difference divided by the (whole) seconds since the last call.\<close>

datatype stat = Number u64 | Rate u64 nat

definition GetStats :: "string \<Rightarrow> nat \<Rightarrow> 'o socket_manager \<Rightarrow> (string \<times> stat) list \<times> 'o socket_manager" where
  "GetStats prefix seconds s =
     (let a = sm_thread s in
      ([(prefix @ ''_connected'', Number (of_nat (length (sm_connections s)))),
        (prefix @ ''received'', Number (num_messages_received a)),
        (prefix @ ''sent'', Number (num_replies_sent a)),
        (prefix @ ''received_errors'', Number (num_receive_errors a)),
        (prefix @ ''sent_errors'', Number (num_send_errors a)),
        (prefix @ ''received_rate'', Rate (num_messages_received a - last_num_messages_received s) seconds),
        (prefix @ ''sent_rate'', Rate (num_replies_sent a - last_num_replies_sent s) seconds),
        (prefix @ ''received_errors_rate'', Rate (num_receive_errors a - last_num_receive_errors s) seconds),
        (prefix @ ''sent_errors_rate'', Rate (num_send_errors a - last_num_send_errors s) seconds)],
       s\<lparr>last_num_messages_received := num_messages_received a, last_num_replies_sent := num_replies_sent a,
         last_num_receive_errors := num_receive_errors a, last_num_send_errors := num_send_errors a\<rparr>))"

section \<open>The options of a socket\<close>

record socket_options =
  send_high_watermark :: u32
  receive_high_watermark :: u32
  linger_ms :: u32
  backlog :: u32
  receive_timeout_ms :: u32
  send_timeout_ms :: u32
  immediate :: u32
  router_mandatory :: u32
  tcp_keepalive :: u32
  tcp_keepalive_idle_sec :: u32
  tcp_keepalive_count :: u32
  tcp_keepalive_interval_sec :: u32

definition SocketOptions_new :: socket_options where
  "SocketOptions_new =
     \<lparr>send_high_watermark = 1, receive_high_watermark = 20000, linger_ms = 100, backlog = 5000,
      receive_timeout_ms = 1000, send_timeout_ms = 200, immediate = 1, router_mandatory = 1, tcp_keepalive = 1,
      tcp_keepalive_idle_sec = 5, tcp_keepalive_count = 12, tcp_keepalive_interval_sec = 5\<rparr>"

definition SetOptions :: "socket_options \<Rightarrow> (string \<times> u32) list" where
  "SetOptions opts =
     [(''ZMQ_RCVHWM'', receive_high_watermark opts), (''ZMQ_LINGER'', linger_ms opts),
      (''ZMQ_BACKLOG'', backlog opts), (''ZMQ_RCVTIMEO'', receive_timeout_ms opts),
      (''ZMQ_SNDTIMEO'', send_timeout_ms opts), (''ZMQ_IMMEDIATE'', immediate opts),
      (''ZMQ_ROUTER_MANDATORY'', router_mandatory opts), (''ZMQ_TCP_KEEPALIVE'', tcp_keepalive opts),
      (''ZMQ_TCP_KEEPALIVE_IDLE'', tcp_keepalive_idle_sec opts),
      (''ZMQ_TCP_KEEPALIVE_CNT'', tcp_keepalive_count opts),
      (''ZMQ_TCP_KEEPALIVE_INTVL'', tcp_keepalive_interval_sec opts)]"

text \<open>The variables in the order they are read, each with the member it is read into.\<close>

definition option_variables :: "(string \<times> (u32 \<Rightarrow> socket_options \<Rightarrow> socket_options)) list" where
  "option_variables =
     [(''ZMQ_RCVHWM'', \<lambda>v opts. opts\<lparr>receive_high_watermark := v\<rparr>),
      (''ZMQ_SNDHWM'', \<lambda>v opts. opts\<lparr>receive_high_watermark := v\<rparr>),
      (''ZMQ_LINGER'', \<lambda>v opts. opts\<lparr>linger_ms := v\<rparr>),
      (''ZMQ_BACKLOG'', \<lambda>v opts. opts\<lparr>backlog := v\<rparr>),
      (''ZMQ_RCVTIMEO'', \<lambda>v opts. opts\<lparr>receive_timeout_ms := v\<rparr>),
      (''ZMQ_SNDTIMEO'', \<lambda>v opts. opts\<lparr>send_timeout_ms := v\<rparr>),
      (''ZMQ_IMMEDIATE'', \<lambda>v opts. opts\<lparr>immediate := v\<rparr>),
      (''ZMQ_ROUTER_MANDATORY'', \<lambda>v opts. opts\<lparr>router_mandatory := v\<rparr>),
      (''ZMQ_TCP_KEEPALIVE'', \<lambda>v opts. opts\<lparr>tcp_keepalive := v\<rparr>),
      (''ZMQ_TCP_KEEPALIVE_IDLE'', \<lambda>v opts. opts\<lparr>tcp_keepalive_idle_sec := v\<rparr>),
      (''ZMQ_TCP_KEEPALIVE_CNT'', \<lambda>v opts. opts\<lparr>tcp_keepalive_count := v\<rparr>),
      (''ZMQ_TCP_KEEPALIVE_INTVL'', \<lambda>v opts. opts\<lparr>tcp_keepalive_interval_sec := v\<rparr>)]"

fun load_variables ::
    "(string \<Rightarrow> u32 option) \<Rightarrow> string \<Rightarrow> (string \<times> (u32 \<Rightarrow> socket_options \<Rightarrow> socket_options)) list
      \<Rightarrow> socket_options \<Rightarrow> bool \<times> socket_options" where
  "load_variables get prefix [] opts = (True, opts)"
| "load_variables get prefix ((key, assign) # vs) opts =
     (case get (prefix @ key) of
        None \<Rightarrow> (False, opts)
      | Some v \<Rightarrow> load_variables get prefix vs (assign v opts))"

definition LoadVariables :: "(string \<Rightarrow> u32 option) \<Rightarrow> string \<Rightarrow> socket_options \<Rightarrow> bool \<times> socket_options" where
  "LoadVariables get prefix opts = load_variables get prefix option_variables opts"

end
