(* ===== verification/SocketManagerProofs.thy ===== *)
theory SocketManagerProofs
  imports SocketManager DiscoveryConnections
begin

text \<open>
  Properties of the socket manager: which turns of its thread end, where the message objects go, what an
  exception does to the replies, and managers that never receive or connect twice.
\<close>

section \<open>The receive loop\<close>

definition readable :: "sm_args \<Rightarrow> bool" where
  "readable s \<longleftrightarrow> 0 < poll_return s \<and> revents_in s"

text \<open>The poll after a round that received without an exception.\<close>

fun next_poll :: "arrival \<Rightarrow> (int \<times> bool) option" where
  "next_poll (RecvThrows m) = None"
| "next_poll (Arrived m held ps ok poll) = poll"

definition goes_on :: "arrival \<Rightarrow> bool" where
  "goes_on a \<longleftrightarrow> (case next_poll a of None \<Rightarrow> False | Some (r, ready) \<Rightarrow> 0 < r \<and> ready)"

definition last_one :: "arrival \<Rightarrow> bool" where
  "last_one a \<longleftrightarrow> (case next_poll a of None \<Rightarrow> False | Some (r, ready) \<Rightarrow> \<not> (0 < r \<and> ready))"

lemma file_message_simps [simp]:
  "poll_return (file_message m ps ok s) = poll_return s"
  "revents_in (file_message m ps ok s) = revents_in s"
  "revents_out (file_message m ps ok s) = revents_out s"
  "lost (file_message m ps ok s) = lost s"
  "wire (file_message m ps ok s) = wire s"
  "flags (file_message m ps ok s) = flags s"
  "local_messages_to_send (file_message m ps ok s) = local_messages_to_send s"
  "num_replies_sent (file_message m ps ok s) = num_replies_sent s"
  "num_send_errors (file_message m ps ok s) = num_send_errors s"
  "received_messages (file_message m ps ok s) = received_messages s"
  "messages_to_send (file_message m ps ok s) = messages_to_send s"
  by (simp_all add: file_message_def hand_def Let_def)

fun rounds :: "(nat \<Rightarrow> arrival) \<Rightarrow> nat \<Rightarrow> nat \<Rightarrow> bool \<times> sm_args \<Rightarrow> bool \<times> sm_args" where
  "rounds arrivals i 0 x = x"
| "rounds arrivals i (Suc n) x = rounds arrivals (Suc i) n (receive_round (arrivals i) x)"

lemma rounds_Suc: "rounds arrivals i (Suc n) x = receive_round (arrivals (i + n)) (rounds arrivals i n x)"
  by (induction n arbitrary: i x) auto

text \<open>Without the lock a round changes nothing but the list of lost objects.\<close>

lemma round_unlocked: "receive_round a (False, s) = (False, s\<lparr>lost := lost s @ [case a of RecvThrows m \<Rightarrow> m | Arrived m _ _ _ _ \<Rightarrow> m]\<rparr>)"
  by (simp add: receive_round_def split: arrival.split)

lemma round_goes_on: "goes_on a \<Longrightarrow> fst (receive_round a (True, s)) \<and> readable (snd (receive_round a (True, s)))"
  by (cases a) (auto simp: goes_on_def receive_round_def readable_def split: option.splits)

lemma round_last_one: "last_one a \<Longrightarrow> fst (receive_round a (True, s)) \<and> \<not> readable (snd (receive_round a (True, s)))"
  by (cases a) (auto simp: last_one_def receive_round_def readable_def split: option.splits)

lemma round_throws:
  "\<lbrakk>\<not> goes_on a; \<not> last_one a; readable s\<rbrakk>
    \<Longrightarrow> \<not> fst (receive_round a (True, s)) \<and> readable (snd (receive_round a (True, s)))"
  by (cases a) (auto simp: goes_on_def last_one_def receive_round_def readable_def split: option.splits)

text \<open>From a state with something to read the loop ends exactly when polls that find more are followed by one
  that does not, with no exception before.\<close>

definition ends_after :: "(nat \<Rightarrow> arrival) \<Rightarrow> nat \<Rightarrow> nat \<Rightarrow> bool" where
  "ends_after arrivals i n \<longleftrightarrow> (\<forall>j < n. goes_on (arrivals (i + j))) \<and> last_one (arrivals (i + n))"

lemma ends_after_0: "last_one (arrivals i) \<Longrightarrow> ends_after arrivals i 0"
  by (simp add: ends_after_def)

lemma ends_after_Suc: "ends_after arrivals i (Suc n) \<longleftrightarrow> goes_on (arrivals i) \<and> ends_after arrivals (Suc i) n"
  by (auto simp: ends_after_def less_Suc_eq_0_disj)

lemma loop_ended:
  assumes "receive_loop arrivals i owns s = Some y"
  shows "if readable s
    then owns \<and> (\<exists>n. ends_after arrivals i n \<and> y = (i + Suc n, snd (rounds arrivals i (Suc n) (True, s))))
    else y = (i, s)"
proof (induction rule: receive_loop.raw_induct [OF _ assms])
  case (1 loop arrivals i owns s y)
  obtain owns' s' where x: "receive_round (arrivals i) (owns, s) = (owns', s')" by (metis prod.exhaust)
  show ?case
  proof (cases "readable s")
    case True
    have l: "loop arrivals (Suc i) owns' s' = Some y"
      using 1(2) True x by (simp add: readable_def)
    note IH = 1(1) [OF l]
    show ?thesis
    proof (cases "owns \<and> (goes_on (arrivals i) \<or> last_one (arrivals i))")
      case False
      have "\<not> owns' \<and> readable s'"
        using x round_unlocked [of "arrivals i" s] round_throws [OF _ _ True, of "arrivals i"] False True
        by (cases owns) (auto simp: readable_def)
      then show ?thesis using IH by simp
    next
      case t: True
      show ?thesis
      proof (cases "readable s'")
        case False
        then have "last_one (arrivals i)" and "owns'" using t x round_goes_on [of "arrivals i" s] round_last_one [of "arrivals i" s] by auto
        then show ?thesis
          using IH False True t x ends_after_0 [of arrivals i] by (auto intro!: exI [of _ 0])
      next
        case r: True
        then have g: "goes_on (arrivals i)" using t x round_last_one [of "arrivals i" s] by auto
        obtain n where n: "ends_after arrivals (Suc i) n" "y = (Suc i + Suc n, snd (rounds arrivals (Suc i) (Suc n) (True, s')))"
          and "owns'" using IH r by auto
        then have "ends_after arrivals i (Suc n)" "y = (i + Suc (Suc n), snd (rounds arrivals i (Suc (Suc n)) (True, s)))"
          using g t x by (simp_all add: ends_after_Suc)
        then show ?thesis using True t by (simp del: rounds.simps)
      qed
    qed
  next
    case False
    then have "y = (i, s)" using 1(2) unfolding readable_def by (simp only: if_False option.inject)
    then show ?thesis using False by simp
  qed
qed

lemma loop_ends:
  "\<lbrakk>ends_after arrivals i n; readable s\<rbrakk>
    \<Longrightarrow> receive_loop arrivals i True s = Some (i + Suc n, snd (rounds arrivals i (Suc n) (True, s)))"
proof (induction n arbitrary: i s)
  case 0
  then obtain s' where s': "receive_round (arrivals i) (True, s) = (True, s')" "\<not> readable s'"
    using round_last_one [of "arrivals i" s] by (cases "receive_round (arrivals i) (True, s)") (auto simp: ends_after_def)
  then show ?case
    using 0(2) by (auto simp: readable_def receive_loop.simps [of arrivals i True s] receive_loop.simps [of arrivals "Suc i" True s'])
next
  case (Suc n)
  then obtain s' where s': "receive_round (arrivals i) (True, s) = (True, s')" "readable s'"
    using round_goes_on [of "arrivals i" s] by (cases "receive_round (arrivals i) (True, s)") (auto simp: ends_after_Suc)
  then show ?case
    using Suc.IH [of "Suc i" s'] Suc.prems by (subst receive_loop.simps) (simp add: readable_def ends_after_Suc)
qed

lemma loop_result:
  "readable s \<Longrightarrow> receive_loop arrivals 0 True s = Some y
    \<longleftrightarrow> (\<exists>n. ends_after arrivals 0 n \<and> y = (Suc n, snd (rounds arrivals 0 (Suc n) (True, s))))"
  using loop_ended [of arrivals 0 True s y] loop_ends [of arrivals 0 _ s] by auto

section \<open>What the receive loop hands on\<close>

definition route :: "sm_args \<Rightarrow> arrival \<Rightarrow> outlet \<times> nat" where
  "route s a =
     (case a of
        RecvThrows m \<Rightarrow> (MessagePool, m)
      | Arrived m held ps ok poll \<Rightarrow>
          (if wrong_parts (held @ ps) ok s then
             if \<not> bad_messages s then MessagePool else if shared_bad_messages s then SharedBadBuffer else BadBuffer
           else if shared_received_messages s then SharedReceivedBuffer else ReceivedBuffer, m))"

definition bad_arrival :: "sm_args \<Rightarrow> arrival \<Rightarrow> bool" where
  "bad_arrival s a \<longleftrightarrow> (case a of RecvThrows m \<Rightarrow> True | Arrived m held ps ok poll \<Rightarrow> wrong_parts (held @ ps) ok s)"

text \<open>Two states of one thread: what \<open>Init\<close> sets is the same.\<close>

definition same_setup :: "sm_args \<Rightarrow> sm_args \<Rightarrow> bool" where
  "same_setup s t \<longleftrightarrow>
     received_messages t = received_messages s \<and> messages_to_send t = messages_to_send s
     \<and> bad_messages t = bad_messages s \<and> shared_received_messages t = shared_received_messages s
     \<and> shared_bad_messages t = shared_bad_messages s \<and> expected_number_messages t = expected_number_messages s"

lemma same_setup_route: "same_setup s t \<Longrightarrow> route t = route s \<and> bad_arrival t = bad_arrival s"
  by (auto simp: same_setup_def route_def bad_arrival_def wrong_parts_def fun_eq_iff split: arrival.split)

text \<open>What the rounds leave alone.\<close>

definition untouched :: "sm_args \<Rightarrow> sm_args \<Rightarrow> bool" where
  "untouched s t \<longleftrightarrow> lost t = lost s \<and> flags t = flags s \<and> wire t = wire s \<and> revents_out t = revents_out s
     \<and> local_messages_to_send t = local_messages_to_send s \<and> num_replies_sent t = num_replies_sent s
     \<and> num_send_errors t = num_send_errors s"

lemma untouched_trans: "\<lbrakk>untouched s t; untouched t u\<rbrakk> \<Longrightarrow> untouched s u"
  by (simp add: untouched_def)

lemma wrong_parts_objects [simp]: "wrong_parts ps ok (s\<lparr>objects := f\<rparr>) = wrong_parts ps ok s"
  by (simp add: wrong_parts_def)

lemma round_effect:
  assumes "next_poll a \<noteq> None"
  shows "\<exists>t. receive_round a (True, s) = (True, t) \<and> same_setup s t \<and> untouched s t \<and> handed t = handed s @ [route s a]
    \<and> num_messages_received t = num_messages_received s + of_bool (\<not> bad_arrival s a)
    \<and> num_receive_errors t = num_receive_errors s + of_bool (bad_arrival s a)"
proof (cases a)
  case (Arrived m held ps ok poll)
  then obtain r ready where poll: "poll = Some (r, ready)" using assms by auto
  show ?thesis
    using Arrived poll
    by (intro exI [of _ "(file_message m (held @ ps) ok s)\<lparr>poll_return := r, revents_in := ready\<rparr>"])
      (simp add: receive_round_def same_setup_def untouched_def route_def bad_arrival_def file_message_def hand_def Let_def)
qed (use assms in simp)

lemma rounds_effect:
  assumes "\<forall>j < n. next_poll (arrivals (i + j)) \<noteq> None"
  shows "\<exists>t. rounds arrivals i n (True, s) = (True, t) \<and> same_setup s t \<and> untouched s t
    \<and> handed t = handed s @ map (route s \<circ> arrivals) [i..<i + n]
    \<and> num_messages_received t = num_messages_received s + of_nat (length (filter (\<lambda>j. \<not> bad_arrival s (arrivals j)) [i..<i + n]))
    \<and> num_receive_errors t = num_receive_errors s + of_nat (length (filter (\<lambda>j. bad_arrival s (arrivals j)) [i..<i + n]))"
  using assms
proof (induction n)
  case 0
  then show ?case by (simp add: same_setup_def untouched_def)
next
  case (Suc n)
  then obtain t where t: "rounds arrivals i n (True, s) = (True, t)" "same_setup s t" "untouched s t"
    "handed t = handed s @ map (route s \<circ> arrivals) [i..<i + n]"
    "num_messages_received t = num_messages_received s + of_nat (length (filter (\<lambda>j. \<not> bad_arrival s (arrivals j)) [i..<i + n]))"
    "num_receive_errors t = num_receive_errors s + of_nat (length (filter (\<lambda>j. bad_arrival s (arrivals j)) [i..<i + n]))"
    by auto
  obtain u where u: "receive_round (arrivals (i + n)) (True, t) = (True, u)" "same_setup t u" "untouched t u"
    "handed u = handed t @ [route t (arrivals (i + n))]"
    "num_messages_received u = num_messages_received t + of_bool (\<not> bad_arrival t (arrivals (i + n)))"
    "num_receive_errors u = num_receive_errors t + of_bool (bad_arrival t (arrivals (i + n)))"
    using round_effect [of "arrivals (i + n)" t] Suc.prems by auto
  have "same_setup s u" using t(2) u(2) by (simp add: same_setup_def)
  then show ?case
    using t u untouched_trans [OF t(3) u(3)] same_setup_route [OF t(2)] unfolding rounds_Suc
    by (intro exI [of _ u]) (simp add: ac_simps)
qed

section \<open>Sending\<close>

text \<open>What sending leaves alone.\<close>

definition unsent :: "sm_args \<Rightarrow> sm_args \<Rightarrow> bool" where
  "unsent s t \<longleftrightarrow> same_setup s t \<and> lost t = lost s \<and> handed t = handed s \<and> objects t = objects s
     \<and> num_messages_received t = num_messages_received s \<and> num_receive_errors t = num_receive_errors s"

lemma send_messages_unsent: "unsent s (send_messages sends i ms s)"
proof (induction ms arbitrary: i s)
  case (Cons m ms)
  then show ?case
    by (auto simp: unsent_def same_setup_def mark_sent_def Let_def split: prod.split option.split)
qed (simp add: unsent_def same_setup_def)

lemma recycle_effect:
  "handed (recycle ms s) = handed s @ map (Pair MessagePool) ms"
  "flags (recycle ms s) = flags s" "wire (recycle ms s) = wire s" "lost (recycle ms s) = lost s"
  "same_setup s (recycle ms s)"
  "num_messages_received (recycle ms s) = num_messages_received s" "num_receive_errors (recycle ms s) = num_receive_errors s"
  "num_replies_sent (recycle ms s) = num_replies_sent s" "num_send_errors (recycle ms s) = num_send_errors s"
  by (induction ms arbitrary: s) (auto simp: hand_def same_setup_def)

lemma recycle_empties:
  "zm_messages (objects (recycle ms s) m) = (if m \<in> set ms then [] else zm_messages (objects s m))"
  by (induction ms arbitrary: s) (auto simp: hand_def)

lemma send_replies_effect:
  "handed (send_replies sends s) = handed s
    @ (if revents_out s then map (Pair MessagePool) (local_messages_to_send s) else [])"
  "local_messages_to_send (send_replies sends s) = (if revents_out s then [] else local_messages_to_send s)"
  "lost (send_replies sends s) = lost s"
  "num_messages_received (send_replies sends s) = num_messages_received s"
  "num_receive_errors (send_replies sends s) = num_receive_errors s"
  using send_messages_unsent [of s sends 0 "local_messages_to_send s"]
  by (auto simp: send_replies_def recycle_effect unsent_def)

text \<open>How sending one of the replies goes.\<close>

definition tried :: "(nat \<Rightarrow> nat \<Rightarrow> send_outcome) \<Rightarrow> nat \<Rightarrow> sm_args \<Rightarrow> nat \<Rightarrow> bool option \<times> (string \<times> bool) list" where
  "tried sends i s m = send_parts (sends i) 0 (zm_messages (objects s m))"

lemma send_messages_throws:
  "fst (tried sends i s m) = None
    \<Longrightarrow> send_messages sends i (m # ms) s = mark_sent m False (s\<lparr>wire := wire s @ snd (tried sends i s m)\<rparr>)"
  by (cases "tried sends i s m") (simp add: tried_def)

lemma send_messages_sends:
  "fst (tried sends i s m) = Some ok \<Longrightarrow> send_messages sends i (m # ms) s
    = send_messages sends (Suc i) ms (mark_sent m ok (s\<lparr>wire := wire s @ snd (tried sends i s m)\<rparr>))"
  by (cases "tried sends i s m") (simp add: tried_def)

lemma mark_sent_simps [simp]:
  "objects (mark_sent m ok s) = objects s" "wire (mark_sent m ok s) = wire s"
  "num_replies_sent (mark_sent m ok s) + num_send_errors (mark_sent m ok s) = num_replies_sent s + num_send_errors s + 1"
  "flags (mark_sent m ok s) = set_flag (zm_error (objects s m)) (\<not> ok) (set_flag (zm_sent (objects s m)) ok (flags s))"
  "mark_sent m ok (s\<lparr>local_messages_to_send := l\<rparr>) = (mark_sent m ok s)\<lparr>local_messages_to_send := l\<rparr>"
  by (simp_all add: mark_sent_def)

lemma tried_simps [simp]:
  "tried sends i (mark_sent m ok s) = tried sends i s" "tried sends i (s\<lparr>wire := w\<rparr>) = tried sends i s"
  "tried sends i (s\<lparr>local_messages_to_send := l\<rparr>) = tried sends i s"
  by (simp_all add: tried_def fun_eq_iff)

lemma send_messages_local:
  "send_messages sends i ms (s\<lparr>local_messages_to_send := l\<rparr>) = (send_messages sends i ms s)\<lparr>local_messages_to_send := l\<rparr>"
proof (induction ms arbitrary: i s)
  case (Cons m ms)
  have w: "s\<lparr>local_messages_to_send := l, wire := w\<rparr> = s\<lparr>wire := w\<rparr>\<lparr>local_messages_to_send := l\<rparr>"
    "wire (s\<lparr>local_messages_to_send := l\<rparr>) = wire s" for w by simp_all
  show ?case
  proof (cases "fst (tried sends i s m)")
    case None
    then show ?thesis by (simp only: send_messages_throws tried_simps sm_args.simps mark_sent_simps w)
  next
    case (Some ok)
    then show ?thesis
      by (simp only: send_messages_sends tried_simps sm_args.simps w mark_sent_simps Cons.IH)
  qed
qed simp

lemma wire_of_replies:
  "\<forall>j < length ms. fst (tried sends (i + j) s (ms ! j)) \<noteq> None
    \<Longrightarrow> wire (send_messages sends i ms s) = wire s @ concat (map (\<lambda>j. snd (tried sends (i + j) s (ms ! j))) [0..<length ms])
      \<and> num_replies_sent (send_messages sends i ms s) + num_send_errors (send_messages sends i ms s)
        = num_replies_sent s + num_send_errors s + of_nat (length ms)"
proof (induction ms arbitrary: i s)
  case (Cons m ms)
  obtain ok where ok: "fst (tried sends i s m) = Some ok" using Cons.prems by fastforce
  define t where "t = mark_sent m ok (s\<lparr>wire := wire s @ snd (tried sends i s m)\<rparr>)"
  have t: "tried sends j t = tried sends j s" "wire t = wire s @ snd (tried sends i s m)"
    "num_replies_sent t + num_send_errors t = num_replies_sent s + num_send_errors s + 1" for j
    by (simp_all add: t_def)
  have "\<forall>j < length ms. fst (tried sends (Suc i + j) t (ms ! j)) \<noteq> None"
    using Cons.prems by (fastforce simp: t)
  note IH = Cons.IH [OF this]
  have "map (\<lambda>j. snd (tried sends (i + j) s ((m # ms) ! j))) [0..<length (m # ms)]
      = snd (tried sends i s m) # map (\<lambda>j. snd (tried sends (Suc i + j) s (ms ! j))) [0..<length ms]"
    by (simp add: map_upt_Suc del: upt_Suc)
  then show ?case
    using IH unfolding send_messages_sends [OF ok] t_def [symmetric] t by (simp del: upt_Suc)
qed simp

lemma flag_untouched:
  "\<forall>m \<in> set ms. zm_sent (objects s m) \<noteq> Some p \<and> zm_error (objects s m) \<noteq> Some p
    \<Longrightarrow> flags (send_messages sends i ms s) p = flags s p"
  by (induction ms arbitrary: i s)
    (auto simp: set_flag_def Let_def split: prod.split option.split)

lemma flag_of_reply:
  "\<lbrakk>k < length ms; \<forall>j \<le> k. fst (tried sends (i + j) s (ms ! j)) \<noteq> None; zm_sent (objects s (ms ! k)) = Some p;
    zm_error (objects s (ms ! k)) \<noteq> Some p;
    \<forall>m \<in> set (drop (Suc k) ms). zm_sent (objects s m) \<noteq> Some p \<and> zm_error (objects s m) \<noteq> Some p\<rbrakk>
    \<Longrightarrow> flags (send_messages sends i ms s) p = (fst (tried sends (i + k) s (ms ! k)) = Some True)"
proof (induction ms arbitrary: i s k)
  case (Cons m ms)
  obtain ok where ok: "fst (tried sends i s m) = Some ok" using Cons.prems(2) by fastforce
  define t where "t = mark_sent m ok (s\<lparr>wire := wire s @ snd (tried sends i s m)\<rparr>)"
  have t: "tried sends j t = tried sends j s" "objects t = objects s" for j by (simp_all add: t_def)
  show ?case
  proof (cases k)
    case 0
    then have "flags t p = ok" using Cons.prems(3,4) by (auto simp: t_def set_flag_def split: option.split)
    then show ?thesis
      using Cons.prems(5) 0 ok flag_untouched [of ms t p sends "Suc i"]
      unfolding send_messages_sends [OF ok] t_def [symmetric] by (simp add: t)
  next
    case (Suc j)
    then have "flags (send_messages sends (Suc i) ms t) p = (fst (tried sends (Suc i + j) t (ms ! j)) = Some True)"
      using Cons.prems by (intro Cons.IH) (auto simp: t)
    then show ?thesis unfolding send_messages_sends [OF ok] t_def [symmetric] by (simp add: t Suc)
  qed
qed simp

lemma sent_whole: "fst (send_parts f j ps) = Some True \<Longrightarrow> map fst (snd (send_parts f j ps)) = ps"
  by (induction f j ps rule: send_parts.induct) (auto split: send_outcome.splits prod.splits)

section \<open>Whole turns\<close>

text \<open>The turn up to the receive loop.\<close>

definition taken_replies :: "nat list \<Rightarrow> sm_args \<Rightarrow> nat list" where
  "taken_replies taken s = (if messages_to_send s then taken else local_messages_to_send s)"

definition after_poll :: "nat list \<Rightarrow> int \<Rightarrow> bool \<Rightarrow> bool \<Rightarrow> sm_args \<Rightarrow> sm_args" where
  "after_poll taken r ready_in ready_out s =
     s\<lparr>local_messages_to_send := taken_replies taken s, poll_return := r,
       revents_in := (if received_messages s then ready_in else revents_in s),
       revents_out := (if taken_replies taken s \<noteq> [] then ready_out else revents_out s)\<rparr>"

lemma turn_polled:
  assumes "received_messages s \<or> taken_replies taken s \<noteq> []"
  shows "Thread_turn taken (Some (r, ready_in, ready_out)) arrivals sends s
    = map_option (\<lambda>(n, s). (n, send_replies sends s)) (receive_loop arrivals 0 True (after_poll taken r ready_in ready_out s))"
  using assms by (auto simp: Thread_turn_def polled_def after_poll_def taken_replies_def Let_def)

text \<open>C24: when a turn of the thread ends: if its first poll finds something to read, the turn returns exactly when
  every poll of the receive loop finds more to read up to one that finds none, with no exception of
  \<open>recv\<close> or poll before it. After one exception the lock is no longer held, nothing is polled again, and
  the thread never leaves the loop, whatever arrives.\<close>
theorem turn_returns_iff:
  assumes "received_messages s" and "0 < r"
  shows "(\<exists>y. Thread_turn taken (Some (r, True, ready_out)) arrivals sends s = Some y)
    \<longleftrightarrow> (\<exists>n. (\<forall>j < n. goes_on (arrivals j)) \<and> last_one (arrivals n))"
proof -
  have "readable (after_poll taken r True ready_out s)" using assms by (simp add: readable_def after_poll_def)
  then show ?thesis
    using assms(1) by (auto simp: turn_polled loop_result ends_after_def)
qed

text \<open>C23: every message object has one place: a turn that returns has handed each object it took from the pool to
  exactly one of the buffers or back to the pool, by the number of its parts and in the order of
  arrival, then each reply back to the pool if the socket could send, and none is lost; the counters
  have grown by the messages received and the ones refused.\<close>
theorem turn_accounts_for_all:
  assumes "received_messages s" and "0 < r"
    and "Thread_turn taken (Some (r, True, ready_out)) arrivals sends s = Some (n, t)"
  shows "handed t = handed s @ map (route s \<circ> arrivals) [0..<n]
      @ (if ready_out then map (Pair MessagePool) (taken_replies taken s) else [])
    \<and> local_messages_to_send t = (if ready_out then [] else taken_replies taken s) \<and> lost t = lost s
    \<and> num_messages_received t = num_messages_received s + of_nat (length (filter (\<lambda>j. \<not> bad_arrival s (arrivals j)) [0..<n]))
    \<and> num_receive_errors t = num_receive_errors s + of_nat (length (filter (\<lambda>j. bad_arrival s (arrivals j)) [0..<n]))"
proof -
  define u where "u = after_poll taken r True ready_out s"
  have "readable u" using assms(1,2) by (simp add: readable_def after_poll_def u_def)
  then obtain m v where m: "ends_after arrivals 0 m" "n = Suc m" "t = send_replies sends v"
    and v: "v = snd (rounds arrivals 0 (Suc m) (True, u))"
    using assms(1,3) by (auto simp: turn_polled loop_result u_def)
  have "next_poll (arrivals j) \<noteq> None" if "j < Suc m" for j
    using m(1) that by (auto simp: ends_after_def goes_on_def last_one_def less_Suc_eq split: option.splits)
  then have "\<forall>j < Suc m. next_poll (arrivals (0 + j)) \<noteq> None" by simp
  then obtain w where w: "rounds arrivals 0 (Suc m) (True, u) = (True, w)" "same_setup u w" "untouched u w"
    "handed w = handed u @ map (route u \<circ> arrivals) [0..<0 + Suc m]"
    "num_messages_received w = num_messages_received u + of_nat (length (filter (\<lambda>j. \<not> bad_arrival u (arrivals j)) [0..<0 + Suc m]))"
    "num_receive_errors w = num_receive_errors u + of_nat (length (filter (\<lambda>j. bad_arrival u (arrivals j)) [0..<0 + Suc m]))"
    using rounds_effect [of "Suc m" arrivals 0 u] by blast
  have "same_setup s u" by (simp add: same_setup_def u_def after_poll_def)
  then have r: "route u = route s" "bad_arrival u = bad_arrival s" using same_setup_route by blast+
  have vw: "v = w" using v w(1) by simp
  have u: "handed u = handed s" "lost u = lost s" "local_messages_to_send u = taken_replies taken s"
    "num_messages_received u = num_messages_received s" "num_receive_errors u = num_receive_errors s"
    "taken_replies taken s \<noteq> [] \<longrightarrow> revents_out u = ready_out"
    by (simp_all add: u_def after_poll_def)
  show ?thesis
    using w(3-6) u(6) unfolding m(3) vw m(2) send_replies_effect r u untouched_def add_0
    by (cases "taken_replies taken s") simp_all
qed

text \<open>what becomes of replies after an exception: if sending one of them throws (a router is told of an unknown
  peer, or the message has no parts), all that come after it in the batch go back to the pool emptied,
  as if they had never been given: no frame of them leaves, no flag of theirs is set, and neither
  counter counts them.\<close>
theorem send_exception_drops_rest:
  assumes "revents_out s" and "local_messages_to_send s = pre @ m # post"
    and "fst (send_parts (sends (length pre)) 0 (zm_messages (objects s m))) = None"
  shows "let t = send_replies sends s; u = send_replies sends (s\<lparr>local_messages_to_send := pre @ [m]\<rparr>) in
    flags t = flags u \<and> wire t = wire u \<and> num_replies_sent t = num_replies_sent u
    \<and> num_send_errors t = num_send_errors u \<and> handed t = handed u @ map (Pair MessagePool) post
    \<and> (\<forall>x \<in> set post. zm_messages (objects t x) = [])"
proof -
  have stop: "send_messages sends i (pre @ m # post) s = send_messages sends i (pre @ [m]) s"
    if "fst (send_parts (sends (i + length pre)) 0 (zm_messages (objects s m))) = None" for i pre s
    using that
  proof (induction pre arbitrary: i s)
    case Nil
    then show ?case by (cases "send_parts (sends i) 0 (zm_messages (objects s m))") simp
  next
    case (Cons a pre)
    then show ?case by (auto simp: Let_def mark_sent_def split: prod.split option.split)
  qed
  have "handed (send_messages sends 0 (pre @ m # post) s) = handed s" "handed (send_messages sends 0 (pre @ [m]) s) = handed s"
    using send_messages_unsent [of s sends 0] by (simp_all add: unsent_def)
  then show ?thesis
    using assms stop [of 0 pre s] by (simp add: send_replies_def Let_def recycle_effect recycle_empties send_messages_local)
qed

text \<open>a reply is what its flags say: if nothing throws, every reply is tried in turn, exactly the frames the
  socket took have left (all of a reply that was sent), the flag \<open>sent\<close> points to tells whether that
  reply went out, and each reply is counted as sent or as an error.\<close>
theorem replies_are_reported:
  assumes "revents_out s" and "local_messages_to_send s = ms"
    and "\<forall>i < length ms. fst (tried sends i s (ms ! i)) \<noteq> None"
    and "k < length ms" and "zm_sent (objects s (ms ! k)) = Some p" and "zm_error (objects s (ms ! k)) \<noteq> Some p"
    and "\<forall>m \<in> set (drop (Suc k) ms). zm_sent (objects s m) \<noteq> Some p \<and> zm_error (objects s m) \<noteq> Some p"
  shows "(flags (send_replies sends s) p \<longleftrightarrow> fst (tried sends k s (ms ! k)) = Some True)
    \<and> (fst (tried sends k s (ms ! k)) = Some True \<longrightarrow> map fst (snd (tried sends k s (ms ! k))) = zm_messages (objects s (ms ! k)))
    \<and> wire (send_replies sends s) = wire s @ concat (map (\<lambda>i. snd (tried sends i s (ms ! i))) [0..<length ms])
    \<and> num_replies_sent (send_replies sends s) + num_send_errors (send_replies sends s)
      = num_replies_sent s + num_send_errors s + of_nat (length ms)"
proof -
  have "send_replies sends s = (recycle ms (send_messages sends 0 ms s))\<lparr>local_messages_to_send := []\<rparr>"
    using assms(1,2,4) by (auto simp: send_replies_def)
  then show ?thesis
    using flag_of_reply [of k ms sends 0 s p] wire_of_replies [of ms sends 0 s] assms(3-) sent_whole
    by (simp add: recycle_effect tried_def)
qed

section \<open>Managers with shared buffers\<close>

text \<open>A number of turns.\<close>

fun turns :: "(nat list \<times> (int \<times> bool \<times> bool) option \<times> (nat \<Rightarrow> arrival) \<times> (nat \<Rightarrow> nat \<Rightarrow> send_outcome)) list \<Rightarrow> sm_args \<Rightarrow> sm_args option" where
  "turns [] s = Some s"
| "turns ((taken, poll, arrivals, sends) # is) s =
     (case Thread_turn taken poll arrivals sends s of None \<Rightarrow> None | Some (_, s) \<Rightarrow> turns is s)"

lemma send_replies_deaf:
  "received_messages (send_replies sends s) = received_messages s \<and> revents_in (send_replies sends s) = revents_in s"
proof -
  have "revents_in (send_messages sends i ms s) = revents_in s" for i ms s
    by (induction ms arbitrary: i s) (auto simp: mark_sent_def Let_def split: prod.split option.split)
  moreover have "revents_in (recycle ms s) = revents_in s" for ms s
    by (induction ms arbitrary: s) (auto simp: hand_def)
  ultimately show ?thesis
    using send_messages_unsent [of s sends 0 "local_messages_to_send s"]
      recycle_effect(5) [of "send_messages sends 0 (local_messages_to_send s) s" "local_messages_to_send s"]
    by (simp add: send_replies_def unsent_def same_setup_def)
qed

definition deaf :: "sm_args \<Rightarrow> bool" where
  "deaf s \<longleftrightarrow> \<not> received_messages s \<and> \<not> revents_in s \<and> num_messages_received s = 0 \<and> num_receive_errors s = 0
     \<and> list_all (\<lambda>h. fst h = MessagePool) (handed s)"

lemma deaf_turn:
  assumes "deaf s"
  shows "\<exists>t. Thread_turn taken poll arrivals sends s = Some (0, t) \<and> deaf t"
proof -
  define u where "u = (if messages_to_send s then s\<lparr>local_messages_to_send := taken\<rparr> else s)"
  have u: "deaf u" using assms by (simp add: u_def deaf_def)
  show ?thesis
  proof (cases "polled poll u")
    case None
    then show ?thesis using u by (simp add: Thread_turn_def u_def [symmetric])
  next
    case (Some v)
    then have v: "deaf v" using u by (auto simp: polled_def deaf_def split: if_splits option.splits)
    then have "receive_loop arrivals 0 True v = Some (0, v)" by (subst receive_loop.simps) (simp add: deaf_def)
    moreover have "deaf (send_replies sends v)"
      using v send_replies_deaf [of sends v] by (auto simp: deaf_def send_replies_effect list_all_iff)
    ultimately show ?thesis using Some by (simp add: Thread_turn_def u_def [symmetric])
  qed
qed

lemma deaf_turns: "deaf s \<Longrightarrow> \<exists>t. turns is s = Some t \<and> deaf t"
proof (induction "is" arbitrary: s)
  case (Cons i "is")
  obtain taken poll arrivals sends where i: "i = (taken, poll, arrivals, sends)" by (metis prod_cases4)
  obtain t where "Thread_turn taken poll arrivals sends s = Some (0, t)" "deaf t"
    using deaf_turn [OF Cons.prems] by blast
  then show ?case using Cons.IH i by simp
qed simp

text \<open>a manager that was given a shared buffer for what it receives never receives: the thread asks for the
  plain buffer, which \<open>Init\<close> then leaves null, before it polls for input, so that no number of turns
  reads anything from the socket, whatever waits there.\<close>
theorem shared_manager_never_receives:
  assumes "handed (sm_thread s) = []"
    and "(True, s') \<in> {Init_shared data_model in_sock receive_buffer send_buffer bad_buffer pool expected s,
      Init_shared_received data_model in_sock receive_buffer send_buffer bad_buffer pool expected s}"
  shows "\<exists>t. turns is (sm_thread s') = Some t \<and> num_messages_received t = 0 \<and> num_receive_errors t = 0
    \<and> list_all (\<lambda>h. fst h = MessagePool) (handed t)"
proof -
  have "deaf (sm_thread s')"
    using assms by (auto simp: Init_shared_def Init_shared_received_def Init_plain_def CreateThread_sm_def deaf_def split: if_splits)
  then show ?thesis using deaf_turns [of "sm_thread s'" "is"] by (auto simp: deaf_def)
qed

section \<open>Connections\<close>

text \<open>An endpoint that the socket refuses stops the thread for good, as the exception passes the place where it
  would go on.\<close>

lemma refused_endpoint_pauses:
  assumes "sm_sock s" and "GetServices lib frames = Some (o1 # ss)" and "wanted_service lib name port pn o1"
    and "om_lookup (endpoint_of lib port pn o1) (sm_connections s) = None"
    and "\<not> connects (''tcp://'' @ endpoint_of lib port pn o1)"
  shows "\<exists>t. Update_sm lib connects name port pn frames s = Some (None, t) \<and> sm_paused t"
  using assms by (simp add: Update_sm_def UpdateConnections_def Let_def)

text \<open>resetting the connections makes the next update connect the socket a second time: the map is emptied but
  the socket keeps what it is connected to, so that afterwards it has every wanted endpoint twice.\<close>
theorem reset_connects_twice:
  assumes "sm_sock s" and "sm_connections s = []" and "GetServices lib frames = Some ss"
  shows "\<exists>t u es. Update_sm lib (\<lambda>_. True) name port pn frames s = Some (Some (length es), t)
    \<and> Update_sm lib (\<lambda>_. True) name port pn frames (snd (SCResetConnections t)) = Some (Some (length es), u)
    \<and> sm_endpoints u = sm_endpoints s @ map ((@) ''tcp://'') es @ map ((@) ''tcp://'') es
    \<and> set es = wanted_endpoints lib name port pn ss \<and> distinct es"
proof -
  obtain m es where m: "connect_all lib (\<lambda>_. True) name port pn ss [] = (True, m, map ((@) ''tcp://'') es)"
    "om_wf m" "connected m = wanted_endpoints lib name port pn ss" "distinct es" "set es = wanted_endpoints lib name port pn ss"
    using connect_all_exact [OF om.wf_empty, of lib name port pn ss] by (auto simp: connected_def om.lookup_empty)
  have "connected m = set (map fst m)"
    by (auto simp: connected_def om_lookup_def map_of_eq_None_iff)
  then have "length m = length es"
    using om_keys_distinct [OF m(2)] m(3-5) distinct_card by (metis length_map)
  then show ?thesis
    using assms m(1,4,5)
    by (intro exI [of _ "s\<lparr>sm_paused := False, sm_connections := m, sm_endpoints := sm_endpoints s @ map ((@) ''tcp://'') es\<rparr>"]
        exI [of _ "s\<lparr>sm_paused := False, sm_connections := m,
          sm_endpoints := sm_endpoints s @ map ((@) ''tcp://'') es @ map ((@) ''tcp://'') es\<rparr>"] exI [of _ es])
      (simp add: Update_sm_def UpdateConnections_def SCResetConnections_def ResetConnections_def)
qed

section \<open>Examples\<close>

definition some_args :: sm_args where
  "some_args = \<lparr>received_messages = True, messages_to_send = True, bad_messages = True,
     shared_received_messages = False, shared_bad_messages = False, expected_number_messages = 2,
     local_messages_to_send = [5, 6, 7],
     objects = (\<lambda>m. \<lparr>zm_messages = (if m = 6 then [] else [''peer'', ''reply'']), zm_sent = Some m, zm_error = Some (m + 100)\<rparr>),
     flags = (\<lambda>_. False), handed = [], lost = [], wire = [], num_messages_received = 0, num_replies_sent = 0,
     num_receive_errors = 0, num_send_errors = 0, poll_return = 0, revents_in = False, revents_out = True\<rparr>"

lemma turn_returns_iff_witness:
  "(\<exists>y. Thread_turn [] (Some (1, True, False)) (\<lambda>i. Arrived 9 [] [''a'', ''b''] True (Some (0, False))) (\<lambda>_ _. SendOk) some_args = Some y)
    \<and> \<not> (\<exists>y. Thread_turn [] (Some (1, True, False)) (\<lambda>i. if i = 0 then RecvThrows 8 else Arrived 9 [] [''a'', ''b''] True (Some (0, False)))
      (\<lambda>_ _. SendOk) some_args = Some y)"
proof -
  have r: "received_messages some_args" by (simp add: some_args_def)
  have "\<exists>n::nat. (\<forall>j < n. goes_on (Arrived 9 [] [''a'', ''b''] True (Some (0, False)))) \<and> last_one (Arrived 9 [] [''a'', ''b''] True (Some (0, False)))"
    by (rule exI [of _ 0]) (simp add: last_one_def)
  moreover have "\<not> (\<exists>n. (\<forall>j < n. goes_on (if j = 0 then RecvThrows 8 else Arrived 9 [] [''a'', ''b''] True (Some (0, False))))
      \<and> last_one (if n = (0::nat) then RecvThrows 8 else Arrived 9 [] [''a'', ''b''] True (Some (0, False))))"
    by (auto simp: goes_on_def last_one_def split: if_splits)
  ultimately show ?thesis
    using turn_returns_iff [OF r, of 1] by simp
qed

lemma turn_accounts_for_all_witness:
  "handed (snd (the (Thread_turn [5] (Some (1, True, True)) (\<lambda>i. if i = 0 then Arrived 8 [] [''a''] True (Some (1, True))
      else Arrived 9 [] [''a'', ''b''] True (Some (0, False))) (\<lambda>_ _. SendOk) some_args)))
    = [(BadBuffer, 8), (ReceivedBuffer, 9), (MessagePool, 5)]"
proof -
  let ?a = "\<lambda>i::nat. if i = 0 then Arrived 8 [] [''a''] True (Some (1, True)) else Arrived 9 [] [''a'', ''b''] True (Some (0, False))"
  have r: "received_messages some_args" "messages_to_send some_args" by (simp_all add: some_args_def)
  obtain t where t: "Thread_turn [5] (Some (1, True, True)) ?a (\<lambda>_ _. SendOk) some_args = Some (2, t)"
    using loop_ends [of ?a 0 1 "after_poll [5] 1 True True some_args"] r
    by (auto simp: turn_polled ends_after_def goes_on_def last_one_def readable_def after_poll_def numeral_2_eq_2 simp del: rounds.simps)
  have "map (route some_args \<circ> ?a) [0..<2] = [(BadBuffer, 8), (ReceivedBuffer, 9)]"
    by (simp add: upt_rec route_def wrong_parts_def some_args_def)
  moreover have "handed some_args = []" "taken_replies [5] some_args = [5]"
    by (simp_all add: some_args_def taken_replies_def)
  ultimately show ?thesis
    using turn_accounts_for_all [OF r(1) _ t] t by simp
qed

lemma send_exception_drops_rest_witness:
  "handed (send_replies (\<lambda>_ _. SendOk) some_args)
      = handed (send_replies (\<lambda>_ _. SendOk) (some_args\<lparr>local_messages_to_send := [5, 6]\<rparr>)) @ [(MessagePool, 7)]
    \<and> zm_messages (objects (send_replies (\<lambda>_ _. SendOk) some_args) 7) = []"
proof -
  have "revents_out some_args" "local_messages_to_send some_args = [5] @ 6 # [7]"
    "fst (send_parts (\<lambda>_. SendOk) 0 (zm_messages (objects some_args 6))) = None"
    by (simp_all add: some_args_def)
  then show ?thesis
    using send_exception_drops_rest [of some_args "[5]" 6 "[7]" "\<lambda>_ _. SendOk"] by (simp add: Let_def)
qed

lemma replies_are_reported_witness:
  "flags (send_replies (\<lambda>i _. if i = 0 then SendOk else SendFails) (some_args\<lparr>local_messages_to_send := [5, 7]\<rparr>)) 5"
proof -
  let ?s = "some_args\<lparr>local_messages_to_send := [5, 7]\<rparr>" and ?f = "\<lambda>i _. if i = 0 then SendOk else SendFails"
  have t: "fst (tried ?f 0 ?s 5) = Some True" "fst (tried ?f 1 ?s 7) = Some False"
    by (simp_all add: some_args_def tried_def)
  then have "\<forall>i < length [5, 7 :: nat]. fst (tried ?f i ?s ([5, 7] ! i)) \<noteq> None"
    by (auto simp: less_Suc_eq)
  moreover have "revents_out ?s" "local_messages_to_send ?s = [5, 7]" "zm_sent (objects ?s 5) = Some 5" "zm_error (objects ?s 5) \<noteq> Some 5"
    "zm_sent (objects ?s 7) \<noteq> Some 5" "zm_error (objects ?s 7) \<noteq> Some 5"
    by (simp_all add: some_args_def)
  ultimately show ?thesis
    using replies_are_reported [of ?s "[5, 7]" ?f 0 5] t by simp
qed

end
