(* ===== verification/BoostStore.thy ===== *)
theory BoostStore
  imports ServiceDiscovery
begin

text \<open>
  The store of variables of any type by name (\<open>BoostStore.h\<close>, \<open>BoostStore.cpp\<close>). A value is stored as
  the archive that the serialisation library makes of it, less the header all archives start with,
  and, with type checking, the name of its type. A store can also keep pointers, and be a sequence of
  entries in a file. The library is the argument \<open>boost_lib\<close>; a file is the list of the maps archived
  in it, marked as text or binary.
\<close>

section \<open>The library and the state\<close>

text \<open>\<open>b_archive\<close> is the archive of a value, with the flag for text archives; \<open>b_load\<close> reads one as a value of
  a type, and \<open>None\<close> is an exception. A value of the model carries its type.\<close>

record 'v boost_lib =
  b_typeid :: "'v \<Rightarrow> string"
  b_archive :: "bool \<Rightarrow> 'v \<Rightarrow> string"
  b_load :: "bool \<Rightarrow> string \<Rightarrow> string \<Rightarrow> 'v option"
  b_string :: "string \<Rightarrow> 'v"
  b_int :: "nat \<Rightarrow> 'v"
  b_bool :: "bool \<Rightarrow> 'v"
  b_ulong :: "u64 \<Rightarrow> 'v"
  b_of_ulong :: "'v \<Rightarrow> u64"

text \<open>A pointer is kept in a wrapper, of which the type it was made for and the address are modelled;
  \<open>bs_deleted\<close> records the wrappers deleted and \<open>bs_objects\<close> the objects the store has made itself.
  \<open>bs_arch\<close>, \<open>bs_oarch\<close>: what is left to read of the file of entries, and what has been written; \<open>None\<close> is
  a null pointer. Of the store \<open>Header\<close> only its two maps are used.\<close>

record 'v boost_store =
  m_typechecking :: bool
  m_format :: nat
  m_archiveheader :: string
  m_variables :: "string omap"
  m_type_info :: "string omap"
  m_ptrs :: "(string \<times> nat) omap"
  bs_deleted :: "(string \<times> nat) list"
  bs_objects :: "nat \<Rightarrow> 'v option"
  currententry :: u64
  totalentries :: u64
  bs_Header :: "string omap \<times> string omap"
  entryfile :: string
  outfile :: string
  bs_arch :: "string omap list option"
  bs_oarch :: "string omap list option"

type_synonym files = "string \<Rightarrow> (bool \<times> string omap list) option"

definition header_length :: "bool \<Rightarrow> nat" where
  "header_length text = (if text then 28 else 40)"

definition is_text :: "nat \<Rightarrow> bool" where
  "is_text format \<longleftrightarrow> \<not> (format = 0 \<or> format = 2)"

definition findheader :: "'v boost_lib \<Rightarrow> nat \<Rightarrow> string" where
  "findheader lib format =
     take (header_length (is_text format)) (b_archive lib (is_text format) (b_string lib []))"

text \<open>Members the constructors do not set are arguments.\<close>

definition BoostStore_new :: "'v boost_lib \<Rightarrow> bool \<Rightarrow> nat \<Rightarrow> 'v boost_store \<Rightarrow> 'v boost_store" where
  "BoostStore_new lib typechecking format junk =
     junk\<lparr>m_typechecking := typechecking, m_format := format, m_archiveheader := findheader lib format,
       m_variables := [], m_type_info := [], m_ptrs := [], totalentries := 0,
       bs_Header := ([], []), entryfile := [], outfile := [], bs_arch := None, bs_oarch := None\<rparr>"

definition BoostStore_of_maps :: "'v boost_lib \<Rightarrow> string omap \<Rightarrow> string omap \<Rightarrow> 'v boost_store \<Rightarrow> 'v boost_store" where
  "BoostStore_of_maps lib invariables ininfo junk =
     junk\<lparr>m_variables := invariables, m_type_info := ininfo, m_archiveheader := findheader lib (m_format junk),
       m_ptrs := [], entryfile := [], outfile := [], bs_arch := None, bs_oarch := None\<rparr>"

section \<open>Values\<close>

definition body :: "'v boost_lib \<Rightarrow> bool \<Rightarrow> 'v \<Rightarrow> string" where
  "body lib text v = drop (header_length text) (b_archive lib text v)"

definition Set_value :: "'v boost_lib \<Rightarrow> string \<Rightarrow> 'v \<Rightarrow> 'v boost_store \<Rightarrow> 'v boost_store" where
  "Set_value lib name v s =
     s\<lparr>m_variables := om_insert name (body lib (is_text (m_format s)) v) (m_variables s),
       m_type_info := (if m_typechecking s then om_insert name (b_typeid lib v) (m_type_info s) else m_type_info s)\<rparr>"

text \<open>\<open>m_type_info[name]\<close>, which makes an empty entry if there is none.\<close>

definition touch_type :: "string \<Rightarrow> 'v boost_store \<Rightarrow> 'v boost_store" where
  "touch_type name s =
     (if om_lookup name (m_type_info s) = None then s\<lparr>m_type_info := om_insert name [] (m_type_info s)\<rparr> else s)"

definition type_fits :: "string \<Rightarrow> string \<Rightarrow> 'v boost_store \<Rightarrow> bool" where
  "type_fits name ty s \<longleftrightarrow> got (om_lookup name (m_type_info s)) [] = ty \<or> \<not> m_typechecking s"

definition load_value :: "'v boost_lib \<Rightarrow> string \<Rightarrow> string \<Rightarrow> 'v boost_store \<Rightarrow> 'v option" where
  "load_value lib name ty s =
     b_load lib (is_text (m_format s)) ty (m_archiveheader s @ got (om_lookup name (m_variables s)) [])"

text \<open>\<open>Get\<close> into a variable of type \<open>ty\<close>: \<open>Ok None\<close> is the result false, \<open>Err\<close> an exception.\<close>

definition Get_value ::
    "'v boost_lib \<Rightarrow> string \<Rightarrow> string \<Rightarrow> 'v boost_store \<Rightarrow> (unit, 'v option) cres \<times> 'v boost_store" where
  "Get_value lib name ty s =
     (if om_lookup name (m_variables s) = None then (Ok None, s)
      else
        let fits = type_fits name ty s; s = touch_type name s in
        if \<not> fits then (Ok None, s)
        else case load_value lib name ty s of
          None \<Rightarrow> (Err (), s)
        | Some v \<Rightarrow> (Ok (Some v), s))"

definition Has :: "string \<Rightarrow> 'v boost_store \<Rightarrow> bool" where
  "Has key s \<longleftrightarrow> om_lookup key (m_variables s) \<noteq> None"

definition Type :: "string \<Rightarrow> 'v boost_store \<Rightarrow> string" where
  "Type key s =
     (case om_lookup key (m_type_info s) of
        None \<Rightarrow> ''Not in Store''
      | Some ty \<Rightarrow> if m_typechecking s then ty else ''?'')"

text \<open>\<open>operator[]\<close>: the archive of a variable, made empty if there is none.\<close>

definition text_of :: "string \<Rightarrow> 'v boost_store \<Rightarrow> string \<times> 'v boost_store" where
  "text_of key s =
     (case om_lookup key (m_variables s) of
        Some t \<Rightarrow> (t, s)
      | None \<Rightarrow> ([], s\<lparr>m_variables := om_insert key [] (m_variables s)\<rparr>))"

section \<open>Pointers\<close>

text \<open>\<open>addr\<close> is where \<open>new\<close> puts the object. \<open>Fault\<close>: a wrapper of another type is used as one of type \<open>ty\<close>.\<close>

definition Get_pointer ::
    "'v boost_lib \<Rightarrow> string \<Rightarrow> string \<Rightarrow> nat \<Rightarrow> 'v boost_store \<Rightarrow> (unit, nat option) cres \<times> 'v boost_store" where
  "Get_pointer lib name ty addr s =
     (let has = om_lookup name (m_variables s) \<noteq> None; kept = om_lookup name (m_ptrs s) \<noteq> None in
      if \<not> has \<and> \<not> kept then (Ok None, s)
      else
        let fits = type_fits name ty s; s = touch_type name s in
        if \<not> (fits \<or> kept \<and> \<not> has) then (Ok None, s)
        else case om_lookup name (m_ptrs s) of
          Some (made_for, a) \<Rightarrow> if made_for = ty then (Ok (Some a), s) else (Fault, s)
        | None \<Rightarrow>
            let s = s\<lparr>m_ptrs := om_insert name (ty, addr) (m_ptrs s)\<rparr> in
            case load_value lib name ty s of
              None \<Rightarrow> (Err (), s)
            | Some v \<Rightarrow> (Ok (Some addr), s\<lparr>bs_objects := (bs_objects s)(addr \<mapsto> v)\<rparr>))"

text \<open>\<open>in\<close> points to \<open>addr\<close>, where the value is \<open>v\<close>.\<close>

definition Set_pointer ::
    "'v boost_lib \<Rightarrow> string \<Rightarrow> nat \<Rightarrow> 'v \<Rightarrow> bool \<Rightarrow> 'v boost_store \<Rightarrow> (unit, unit) cres \<times> 'v boost_store" where
  "Set_pointer lib name addr v persist s =
     (let ty = b_typeid lib v;
          store = (\<lambda>s. if persist then Set_value lib name v s else s)
      in case om_lookup name (m_ptrs s) of
           None \<Rightarrow> (Ok (), store (s\<lparr>m_ptrs := om_insert name (ty, addr) (m_ptrs s)\<rparr>))
         | Some (made_for, a) \<Rightarrow>
             if made_for \<noteq> ty then (Fault, s)
             else if a \<noteq> addr then
               (Ok (), store (s\<lparr>bs_deleted := bs_deleted s @ [(made_for, a)],
                                m_ptrs := om_insert name (ty, addr) (m_ptrs s)\<rparr>))
             else (Ok (), store s))"

definition Delete_all :: "'v boost_store \<Rightarrow> 'v boost_store" where
  "Delete_all s =
     s\<lparr>m_variables := [], m_type_info := [], bs_deleted := bs_deleted s @ map snd (m_ptrs s), m_ptrs := []\<rparr>"

definition Remove_key :: "string \<Rightarrow> 'v boost_store \<Rightarrow> 'v boost_store" where
  "Remove_key key s =
     s\<lparr>m_variables := om_delete key (m_variables s),
       bs_deleted := bs_deleted s @ map snd (filter (\<lambda>(k, _). k = key) (m_ptrs s)),
       m_ptrs := om_delete key (m_ptrs s),
       m_type_info := (if m_typechecking s then om_delete key (m_type_info s) else m_type_info s)\<rparr>"

section \<open>Text\<close>

text \<open>Values read from text are strings; here every format but the first makes a text archive, and no type is
  kept.\<close>

definition put_text :: "'v boost_lib \<Rightarrow> string \<Rightarrow> string \<Rightarrow> 'v boost_store \<Rightarrow> 'v boost_store" where
  "put_text lib key v s =
     s\<lparr>m_variables := om_insert key (body lib (m_format s \<noteq> 0) (b_string lib v)) (m_variables s)\<rparr>"

fun json_chars :: "'v boost_lib \<Rightarrow> nat \<Rightarrow> string \<Rightarrow> string \<Rightarrow> string \<Rightarrow> 'v boost_store \<Rightarrow> 'v boost_store" where
  "json_chars lib type key val [] s = s"
| "json_chars lib type key val (c # cs) s =
     (if c = CHR 0x22 then json_chars lib (Suc type) key val cs s
      else if type = 1 then json_chars lib type (key @ [c]) val cs s
      else if type = 3 then json_chars lib type key (val @ [c]) cs s
      else if type = 4 then json_chars lib 0 [] [] cs (put_text lib key val s)
      else json_chars lib type key val cs s)"

definition JsonParser_bs :: "'v boost_lib \<Rightarrow> string \<Rightarrow> 'v boost_store \<Rightarrow> 'v boost_store" where
  "JsonParser_bs lib input s = json_chars lib 0 [] [] input s"

definition write_json :: "'v boost_store \<Rightarrow> string" where
  "write_json s = ''{'' @ join_comma (map (\<lambda>(k, t). [CHR 0x22] @ k @ [CHR 0x22] @ '':'' @ [CHR 0x22] @ t @ [CHR 0x22])
     (m_variables s)) @ ''}''"

text \<open>A configuration file, line by line.\<close>

definition config_line :: "'v boost_lib \<Rightarrow> string \<Rightarrow> 'v boost_store \<Rightarrow> 'v boost_store" where
  "config_line lib line s =
     (if line = [] \<or> hd line = CHR ''#'' then s
      else
        let (key, rest) = read_word [] line; (val, rest) = read_word [] rest in
        if key = [] \<or> val = [] then s else put_text lib key val s)"

definition Initialise_config :: "'v boost_lib \<Rightarrow> string list option \<Rightarrow> 'v boost_store \<Rightarrow> bool \<times> 'v boost_store" where
  "Initialise_config lib contents s =
     (case contents of
        None \<Rightarrow> (False, s)
      | Some lines \<Rightarrow> (True, fold (config_line lib) lines s))"

section \<open>Files\<close>

text \<open>Reading the variables, and the types with type checking; the flag is false for an exception at the end of
  the file.\<close>

definition read_maps ::
    "bool \<Rightarrow> string omap \<times> string omap \<Rightarrow> string omap list \<Rightarrow> bool \<times> (string omap \<times> string omap) \<times> string omap list" where
  "read_maps typechecking old maps =
     (case maps of
        [] \<Rightarrow> (False, old, [])
      | v # rest \<Rightarrow>
          if \<not> typechecking then (True, (v, snd old), rest)
          else case rest of
            [] \<Rightarrow> (False, (v, snd old), [])
          | t # rest \<Rightarrow> (True, (v, t), rest))"

definition written_maps :: "bool \<Rightarrow> string omap \<times> string omap \<Rightarrow> string omap list" where
  "written_maps typechecking maps = (if typechecking then [fst maps, snd maps] else [fst maps])"

definition set_maps :: "string omap \<times> string omap \<Rightarrow> 'v boost_store \<Rightarrow> 'v boost_store" where
  "set_maps maps s = s\<lparr>m_variables := fst maps, m_type_info := snd maps\<rparr>"

text \<open>\<open>Header\<close> as a store of its own, of the binary format.\<close>

definition header_store :: "'v boost_lib \<Rightarrow> 'v boost_store \<Rightarrow> 'v boost_store" where
  "header_store lib s = set_maps (bs_Header s) (s\<lparr>m_format := 0, m_archiveheader := findheader lib 0\<rparr>)"

definition get_total :: "'v boost_lib \<Rightarrow> u64 \<Rightarrow> 'v boost_store \<Rightarrow> (unit, u64) cres \<times> 'v boost_store" where
  "get_total lib old s =
     (let (r, s) = Get_value lib ''TotalEntries'' (b_typeid lib (b_ulong lib 0)) s
      in (cbind r (\<lambda>v. Ok (case v of None \<Rightarrow> old | Some v \<Rightarrow> b_of_ulong lib v)), s))"

definition Initialise_entries ::
    "'v boost_lib \<Rightarrow> string \<Rightarrow> string omap list \<Rightarrow> 'v boost_store \<Rightarrow> (unit, bool) cres \<times> 'v boost_store" where
  "Initialise_entries lib filename maps s =
     (let (ok, header, maps) = read_maps (m_typechecking s) (bs_Header s) maps;
          s = s\<lparr>entryfile := filename, bs_Header := header, bs_arch := Some maps\<rparr>
      in if \<not> ok then (Err (), s)
         else
           let (r, h) = get_total lib (totalentries s) (header_store lib s);
               s = s\<lparr>bs_Header := (m_variables h, m_type_info h)\<rparr>
           in case r of
             Fault \<Rightarrow> (Fault, s)
           | Err e \<Rightarrow> (Err e, s)
           | Ok number \<Rightarrow>
               let (ok, entry, maps) = read_maps (m_typechecking s) ([], []) maps;
                   s = set_maps entry (s\<lparr>totalentries := number, bs_arch := Some maps\<rparr>)
               in if ok then (Ok True, s\<lparr>currententry := 0\<rparr>) else (Err (), s))"

definition Initialise_archive ::
    "'v boost_lib \<Rightarrow> files \<Rightarrow> string \<Rightarrow> 'v boost_store \<Rightarrow> (unit, bool) cres \<times> 'v boost_store" where
  "Initialise_archive lib fs filename s =
     (case fs filename of
        None \<Rightarrow> (Ok False, s)
      | Some (text, maps) \<Rightarrow>
          if 2 < m_format s then (Ok True, s)
          else if text \<noteq> is_text (m_format s) then (Err (), s)
          else if m_format s = 2 then Initialise_entries lib filename maps s
          else
            let (ok, both, rest) = read_maps (m_typechecking s) (m_variables s, m_type_info s) maps
            in (if ok then Ok True else Err (), set_maps both s))"

definition Save :: "'v boost_lib \<Rightarrow> string \<Rightarrow> files \<Rightarrow> 'v boost_store \<Rightarrow> files \<times> 'v boost_store" where
  "Save lib filename fs s =
     (if m_format s \<noteq> 2 then
        let s = Set_value lib ''m_format'' (b_int lib (m_format s)) s;
            s = Set_value lib ''m_typechecking'' (b_bool lib (m_typechecking s)) s
        in (fs(filename \<mapsto> (m_format s \<noteq> 0, written_maps (m_typechecking s) (m_variables s, m_type_info s))), s)
      else
        let s = (if bs_oarch s = None then s\<lparr>outfile := filename, bs_oarch := Some []\<rparr> else s)
        in (fs, s\<lparr>totalentries := totalentries s + 1,
                 bs_oarch := map_option (\<lambda>ms. ms @ written_maps (m_typechecking s) (m_variables s, m_type_info s)) (bs_oarch s)\<rparr>))"

definition Close :: "'v boost_lib \<Rightarrow> files \<Rightarrow> 'v boost_store \<Rightarrow> bool \<times> files \<times> 'v boost_store" where
  "Close lib fs s =
     (if m_format s \<noteq> 2 then (False, fs, s)
      else
        let s = s\<lparr>bs_arch := None\<rparr> in
        case bs_oarch s of
          None \<Rightarrow> (True, fs, s)
        | Some entries \<Rightarrow>
            let h = Set_value lib ''m_typechecking'' (b_bool lib (m_typechecking s))
                      (Set_value lib ''m_format'' (b_int lib (m_format s))
                        (Set_value lib ''TotalEntries'' (b_ulong lib (totalentries s)) (header_store lib s)));
                header = (m_variables h, m_type_info h)
            in (True, fs(outfile s \<mapsto> (False, written_maps (m_typechecking s) header @ entries)),
                s\<lparr>bs_Header := header, bs_oarch := None\<rparr>))"

text \<open>The loops that read on to an entry: \<open>n\<close> entries, the first of which gets the number \<open>i\<close>.\<close>

fun read_entries :: "nat \<Rightarrow> u64 \<Rightarrow> 'v boost_store \<Rightarrow> (unit, bool) cres \<times> 'v boost_store" where
  "read_entries 0 i s = (Ok True, s)"
| "read_entries (Suc n) i s =
     (case bs_arch s of
        None \<Rightarrow> (Fault, s)
      | Some maps \<Rightarrow>
          let (ok, entry, maps) = read_maps (m_typechecking s) ([], []) maps;
              s = set_maps entry (s\<lparr>bs_arch := Some maps\<rparr>)
          in if ok then read_entries n (i + 1) (s\<lparr>currententry := i\<rparr>) else (Err (), s))"

definition GetEntry ::
    "'v boost_lib \<Rightarrow> files \<Rightarrow> u64 \<Rightarrow> 'v boost_store \<Rightarrow> (unit, bool) cres \<times> 'v boost_store" where
  "GetEntry lib fs entry s =
     (if \<not> (entry < totalentries s \<and> m_format s = 2) then (Ok False, s)
      else if entry = currententry s then (Ok True, s)
      else if currententry s < entry then
        read_entries (unat (entry - currententry s)) (currententry s + 1) (Delete_all s)
      else if bs_arch s = None then (Fault, Delete_all s)
      else
        let s = Delete_all s in
        case fs (entryfile s) of
          Some (False, v # maps) \<Rightarrow>
            let (r, s) = get_total lib (totalentries s) (set_maps (v, []) (s\<lparr>bs_arch := Some maps\<rparr>)) in
            (case r of
               Fault \<Rightarrow> (Fault, s)
             | Err e \<Rightarrow> (Err e, s)
             | Ok number \<Rightarrow> read_entries (Suc (unat entry)) 0 (s\<lparr>totalentries := number, currententry := 0\<rparr>))
        | Some (False, []) \<Rightarrow> (Err (), s\<lparr>bs_arch := Some []\<rparr>)
        | _ \<Rightarrow> (Err (), s\<lparr>bs_arch := None\<rparr>))"

end
