(* ===== verification/BoostStoreProofs.thy ===== *)
theory BoostStoreProofs
  imports BoostStore
begin

text \<open>
  Properties of the store: with values only it is a map that knows types; pointers escape the check of
  types; the entries of a file are read back, except when going back in a file with types.
\<close>

section \<open>What is relied on\<close>

text \<open>All archives of a kind start with the same header, an archive is read back by its type, the names of
  types are not empty, and all numbers of type \<open>unsigned long\<close> have the same type.\<close>

definition boost_contract :: "'v boost_lib \<Rightarrow> bool" where
  "boost_contract lib \<longleftrightarrow>
     (\<forall>text v. take (header_length text) (b_archive lib text v) = take (header_length text) (b_archive lib text (b_string lib [])))
     \<and> (\<forall>text v. b_load lib text (b_typeid lib v) (b_archive lib text v) = Some v)
     \<and> (\<forall>v. b_typeid lib v \<noteq> [])
     \<and> (\<forall>n. b_typeid lib (b_ulong lib n) = b_typeid lib (b_ulong lib 0) \<and> b_of_ulong lib (b_ulong lib n) = n)"

lemma load_body:
  "boost_contract lib \<Longrightarrow> b_load lib (is_text format) (b_typeid lib v) (findheader lib format @ body lib (is_text format) v) = Some v"
proof -
  assume c: "boost_contract lib"
  have "findheader lib format = take (header_length (is_text format)) (b_archive lib (is_text format) v)"
    using c unfolding boost_contract_def findheader_def by metis
  then have "findheader lib format @ body lib (is_text format) v = b_archive lib (is_text format) v"
    by (simp add: body_def)
  then show ?thesis using c by (simp add: boost_contract_def)
qed

section \<open>A map that knows types\<close>

text \<open>The store holds the values of \<open>M\<close>.\<close>

definition holds :: "'v boost_lib \<Rightarrow> (string \<Rightarrow> 'v option) \<Rightarrow> 'v boost_store \<Rightarrow> bool" where
  "holds lib M s \<longleftrightarrow>
     om_wf (m_variables s) \<and> om_wf (m_type_info s) \<and> m_archiveheader s = findheader lib (m_format s)
     \<and> (\<forall>k. om_lookup k (m_variables s) = map_option (body lib (is_text (m_format s))) (M k))
     \<and> (m_typechecking s \<longrightarrow> (\<forall>k. om_lookup k (m_type_info s) = map_option (b_typeid lib) (M k)))"

lemma holds_new: "holds lib Map.empty (BoostStore_new lib typechecking format junk)"
  by (simp add: holds_def BoostStore_new_def om.lookup_empty om.wf_empty)

lemma holds_Set: "holds lib M s \<Longrightarrow> holds lib (M(name \<mapsto> v)) (Set_value lib name v s)"
  by (simp add: holds_def Set_value_def om_lookup_insert om_wf_insert)

lemma holds_Remove: "holds lib M s \<Longrightarrow> holds lib (M(name := None)) (Remove_key name s)"
  by (simp add: holds_def Remove_key_def om_lookup_delete om_wf_delete)

lemma holds_Delete: "holds lib M s \<Longrightarrow> holds lib Map.empty (Delete_all s)"
  by (simp add: holds_def Delete_all_def om.lookup_empty om.wf_empty)

lemma holds_load: "\<lbrakk>boost_contract lib; holds lib M s; M k = Some v\<rbrakk> \<Longrightarrow> load_value lib k (b_typeid lib v) s = Some v"
  by (simp add: load_value_def holds_def load_body)

lemma touch_known: "\<lbrakk>holds lib M s; m_typechecking s; M k \<noteq> None\<rbrakk> \<Longrightarrow> touch_type k s = s"
  by (auto simp: touch_type_def holds_def)

lemma holds_touch: "\<lbrakk>holds lib M s; \<not> m_typechecking s\<rbrakk> \<Longrightarrow> holds lib M (touch_type k s)"
  by (simp add: touch_type_def holds_def om_wf_insert)

lemma Get_typed:
  assumes "boost_contract lib" and "holds lib M s" and "m_typechecking s"
  shows "Get_value lib k ty s = (Ok (case M k of None \<Rightarrow> None | Some v \<Rightarrow> if b_typeid lib v = ty then Some v else None), s)"
proof (cases "M k")
  case None
  then show ?thesis using assms(2) by (simp add: Get_value_def holds_def)
next
  case (Some v)
  have "om_lookup k (m_variables s) \<noteq> None" using assms(2) Some by (simp add: holds_def)
  moreover have "type_fits k ty s \<longleftrightarrow> b_typeid lib v = ty" using assms(2,3) Some by (simp add: type_fits_def holds_def)
  moreover have "touch_type k s = s" using touch_known [OF assms(2,3), of k] Some by simp
  ultimately show ?thesis
    using holds_load [OF assms(1,2) Some] Some by (auto simp: Get_value_def Let_def)
qed

lemma Get_untyped:
  assumes "boost_contract lib" and "holds lib M s" and "\<not> m_typechecking s" and "M k = Some v"
  shows "Get_value lib k (b_typeid lib v) s = (Ok (Some v), touch_type k s)"
proof -
  have "om_lookup k (m_variables s) \<noteq> None" using assms(2,4) by (simp add: holds_def)
  then show ?thesis
    using holds_load [OF assms(1) holds_touch [OF assms(2,3)] assms(4)] assms(3)
    by (simp add: Get_value_def type_fits_def Let_def)
qed

lemma Get_state: "snd (Get_value lib k ty s) = (if om_lookup k (m_variables s) = None then s else touch_type k s)"
  by (simp add: Get_value_def Let_def split: option.split)

lemma holds_Get: "holds lib M s \<Longrightarrow> holds lib M (snd (Get_value lib k ty s))"
proof -
  assume h: "holds lib M s"
  show ?thesis
  proof (cases "m_typechecking s \<and> om_lookup k (m_variables s) \<noteq> None")
    case True
    then have "M k \<noteq> None" using h by (auto simp: holds_def)
    then show ?thesis using h True touch_known [of lib M s k] by (simp add: Get_state)
  next
    case False
    then show ?thesis using h holds_touch by (auto simp: Get_state)
  qed
qed

text \<open>The calls on values, and what they do to the map.\<close>

datatype 'v store_call = CallSet string 'v | CallGet string string | CallRemove string | CallDelete

fun call :: "'v boost_lib \<Rightarrow> 'v store_call \<Rightarrow> 'v boost_store \<Rightarrow> 'v boost_store" where
  "call lib (CallSet k v) s = Set_value lib k v s"
| "call lib (CallGet k ty) s = snd (Get_value lib k ty s)"
| "call lib (CallRemove k) s = Remove_key k s"
| "call lib CallDelete s = Delete_all s"

fun spec_call :: "'v store_call \<Rightarrow> (string \<Rightarrow> 'v option) \<Rightarrow> (string \<Rightarrow> 'v option)" where
  "spec_call (CallSet k v) M = M(k \<mapsto> v)"
| "spec_call (CallGet k ty) M = M"
| "spec_call (CallRemove k) M = M(k := None)"
| "spec_call CallDelete M = Map.empty"

lemma holds_calls: "holds lib M s \<Longrightarrow> holds lib (fold spec_call cs M) (fold (call lib) cs s)"
proof (induction cs arbitrary: M s)
  case (Cons c cs)
  have "holds lib (spec_call c M) (call lib c s)"
    using Cons.prems by (cases c) (simp_all add: holds_Set holds_Get holds_Remove holds_Delete)
  then show ?case using Cons.IH by simp
qed simp

lemma calls_keep_checking: "m_typechecking (fold (call lib) cs s) = m_typechecking s"
proof (induction cs arbitrary: s)
  case (Cons c cs)
  have "m_typechecking (call lib c s) = m_typechecking s"
    by (cases c) (simp_all add: Set_value_def Get_state Remove_key_def Delete_all_def touch_type_def)
  then show ?case using Cons.IH by simp
qed simp

text \<open>C26: a store of values is a map that knows types: after any calls that set, get, remove and delete, \<open>Get\<close> gives
  the value last set under a name if it is asked for with the type of that value, and says that there
  is none otherwise; it never throws, and \<open>Has\<close> and \<open>Type\<close> tell what is there. Without type checking a
  value is still given back to whoever asks for it with its own type.\<close>
theorem store_is_typed_map:
  fixes lib :: "'v boost_lib" and junk :: "'v boost_store" and cs :: "'v store_call list"
  defines "s typechecking format \<equiv> fold (call lib) cs (BoostStore_new lib typechecking format junk)"
  defines "M \<equiv> fold spec_call cs Map.empty"
  assumes "boost_contract lib"
  shows "fst (Get_value lib k ty (s True format))
      = Ok (case M k of None \<Rightarrow> None | Some v \<Rightarrow> if b_typeid lib v = ty then Some v else None)
    \<and> Has k (s typechecking format) = (M k \<noteq> None)
    \<and> Type k (s True format) = (case M k of None \<Rightarrow> ''Not in Store'' | Some v \<Rightarrow> b_typeid lib v)
    \<and> (\<forall>v. M k = Some v \<longrightarrow> fst (Get_value lib k (b_typeid lib v) (s typechecking format)) = Ok (Some v))"
proof -
  have h: "holds lib M (s tc format)" for tc unfolding s_def M_def by (rule holds_calls [OF holds_new])
  have t: "m_typechecking (s tc format) = tc" for tc
    unfolding s_def by (simp add: calls_keep_checking BoostStore_new_def)
  have "fst (Get_value lib k (b_typeid lib v) (s typechecking format)) = Ok (Some v)" if "M k = Some v" for v
    using Get_typed [OF assms(3) h, of typechecking k] Get_untyped [OF assms(3) h, of typechecking k v] t that
    by (cases typechecking) simp_all
  moreover have "Has k (s typechecking format) = (M k \<noteq> None)" using h [of typechecking] by (simp add: Has_def holds_def)
  moreover have "Type k (s True format) = (case M k of None \<Rightarrow> ''Not in Store'' | Some v \<Rightarrow> b_typeid lib v)"
    using h [of True] t [of True] by (simp add: Type_def holds_def split: option.split)
  ultimately show ?thesis using Get_typed [OF assms(3) h [of True]] t [of True] by simp
qed

section \<open>Pointers\<close>

text \<open>the check of types does not cover pointers: a pointer kept under a name stays there when a value of another
  type is set under that name, and asking for a pointer to the new type passes the check and uses the
  wrapper of the old one as one of the new.\<close>
theorem pointer_escapes_type_check:
  assumes "m_typechecking s" and "om_wf (m_ptrs s)" and "om_wf (m_type_info s)" and "om_wf (m_variables s)"
    and "om_lookup name (m_ptrs s) = None" and "b_typeid lib v \<noteq> b_typeid lib w"
  shows "let t = Set_value lib name w (snd (Set_pointer lib name addr v persist s)) in
    Type name t = b_typeid lib w \<and> fst (Get_pointer lib name (b_typeid lib w) a t) = Fault"
  using assms
  by (cases persist) (simp_all add: Set_pointer_def Set_value_def Type_def Get_pointer_def type_fits_def touch_type_def
      om_lookup_insert om_wf_insert Let_def)

text \<open>Of the same type the old pointer is returned, not one to the new value.\<close>

lemma old_pointer_returned:
  assumes "om_wf (m_ptrs s)" and "om_wf (m_type_info s)" and "om_wf (m_variables s)"
    and "om_lookup name (m_ptrs s) = None" and "b_typeid lib v = b_typeid lib w"
  shows "fst (Get_pointer lib name (b_typeid lib w) a (Set_value lib name w (snd (Set_pointer lib name addr v persist s))))
    = Ok (Some addr)"
  using assms
  by (cases persist; cases "m_typechecking s")
    (simp_all add: Set_pointer_def Set_value_def Get_pointer_def type_fits_def touch_type_def
      om_lookup_insert om_wf_insert Let_def)

text \<open>A value read from a file of text or from JSON under a new name has no type, so that with type checking
  it is not given to anybody.\<close>

lemma text_has_no_type:
  assumes "boost_contract lib" and "m_typechecking s" and "om_wf (m_variables s)" and "om_lookup key (m_type_info s) = None"
  shows "Has key (put_text lib key t s) \<and> fst (Get_value lib key (b_typeid lib v) (put_text lib key t s)) = Ok None"
proof -
  have "b_typeid lib v \<noteq> []" using assms(1) by (simp add: boost_contract_def)
  then show ?thesis
    using assms(2-) by (simp add: Has_def put_text_def Get_value_def type_fits_def om_lookup_insert Let_def)
qed

section \<open>Files of entries\<close>

text \<open>Every entry is set and saved; the reader visits entries by number.\<close>

definition save_all ::
    "'v boost_lib \<Rightarrow> string \<Rightarrow> (string omap \<times> string omap) list \<Rightarrow> files \<times> 'v boost_store \<Rightarrow> files \<times> 'v boost_store" where
  "save_all lib f es = fold (\<lambda>e (fs, s). Save lib f fs (set_maps e s)) es"

fun visit :: "'v boost_lib \<Rightarrow> files \<Rightarrow> nat list \<Rightarrow> 'v boost_store \<Rightarrow> 'v boost_store option" where
  "visit lib fs [] s = Some s"
| "visit lib fs (i # is) s =
     (case GetEntry lib fs (of_nat i) s of (Ok True, t) \<Rightarrow> visit lib fs is t | _ \<Rightarrow> None)"

abbreviation written :: "bool \<Rightarrow> (string omap \<times> string omap) list \<Rightarrow> string omap list" where
  "written tc es \<equiv> concat (map (written_maps tc) es)"

definition as_read :: "bool \<Rightarrow> string omap \<times> string omap \<Rightarrow> string omap \<times> string omap" where
  "as_read tc e = (fst e, if tc then snd e else [])"

lemma read_written: "read_maps tc old (written_maps tc e @ rest) = (True, (fst e, if tc then snd e else snd old), rest)"
  by (simp add: read_maps_def written_maps_def)

lemma set_maps_simps [simp]:
  "m_variables (set_maps e s) = fst e" "m_type_info (set_maps e s) = snd e" "m_format (set_maps e s) = m_format s"
  "m_typechecking (set_maps e s) = m_typechecking s" "m_archiveheader (set_maps e s) = m_archiveheader s"
  "totalentries (set_maps e s) = totalentries s" "currententry (set_maps e s) = currententry s"
  "bs_arch (set_maps e s) = bs_arch s" "bs_oarch (set_maps e s) = bs_oarch s" "entryfile (set_maps e s) = entryfile s"
  "outfile (set_maps e s) = outfile s" "bs_Header (set_maps e s) = bs_Header s"
  by (simp_all add: set_maps_def)

text \<open>The store as reading leaves it: at entry \<open>e\<close>, the last of those read.\<close>

lemma read_entries_written:
  "bs_arch s = Some (written (m_typechecking s) xs @ rest) \<Longrightarrow> read_entries (length xs) i s =
    (Ok True, if xs = [] then s
      else (set_maps (as_read (m_typechecking s) (last xs)) (s\<lparr>bs_arch := Some rest\<rparr>))
        \<lparr>currententry := i + of_nat (length xs - 1)\<rparr>)"
proof (induction xs arbitrary: i s)
  case (Cons e xs)
  define t where "t = (set_maps (as_read (m_typechecking s) e)
    (s\<lparr>bs_arch := Some (written (m_typechecking s) xs @ rest)\<rparr>))\<lparr>currententry := i\<rparr>"
  have t: "bs_arch t = Some (written (m_typechecking t) xs @ rest)" by (simp add: t_def)
  have "read_entries (length (e # xs)) i s = read_entries (length xs) (i + 1) t"
    using Cons.prems read_written [of "m_typechecking s" "([], [])" e "written (m_typechecking s) xs @ rest"]
    by (simp add: t_def as_read_def set_maps_def)
  also have "\<dots> = (Ok True, if xs = [] then t
      else (set_maps (as_read (m_typechecking s) (last xs)) (t\<lparr>bs_arch := Some rest\<rparr>))\<lparr>currententry := i + 1 + of_nat (length xs - 1)\<rparr>)"
    using Cons.IH [OF t, of "i + 1"] by (simp add: t_def)
  finally show ?case
    by (cases xs) (simp_all add: t_def set_maps_def ac_simps)
qed simp

definition at_entry ::
    "'v boost_lib \<Rightarrow> files \<Rightarrow> string omap \<times> string omap \<Rightarrow> (string omap \<times> string omap) list \<Rightarrow> 'v boost_store \<Rightarrow> nat \<Rightarrow> bool" where
  "at_entry lib fs h es s k \<longleftrightarrow>
     m_format s = 2 \<and> m_archiveheader s = findheader lib 2 \<and> length es < 2 ^ 64
     \<and> totalentries s = of_nat (length es) \<and> k < length es \<and> currententry s = of_nat k
     \<and> bs_arch s = Some (written (m_typechecking s) (drop (Suc k) es))
     \<and> fs (entryfile s) = Some (False, written (m_typechecking s) (h # es))
     \<and> om_lookup ''TotalEntries'' (fst h) = Some (body lib False (b_ulong lib (of_nat (length es))))"

lemma Delete_all_simps [simp]:
  "m_format (Delete_all s) = m_format s" "m_typechecking (Delete_all s) = m_typechecking s"
  "m_archiveheader (Delete_all s) = m_archiveheader s" "totalentries (Delete_all s) = totalentries s"
  "currententry (Delete_all s) = currententry s" "bs_arch (Delete_all s) = bs_arch s" "entryfile (Delete_all s) = entryfile s"
  by (simp_all add: Delete_all_def)

lemma of_nat_u64_less: "\<lbrakk>m < 2 ^ 64; n < 2 ^ 64\<rbrakk> \<Longrightarrow> (of_nat m :: u64) < of_nat n \<longleftrightarrow> m < n"
  by (simp add: word_less_nat_alt unat_of_nat take_bit_nat_eq_self)

lemma of_nat_u64_eq: "\<lbrakk>m < 2 ^ 64; n < 2 ^ 64\<rbrakk> \<Longrightarrow> (of_nat m :: u64) = of_nat n \<longleftrightarrow> m = n"
  by (metis linorder_cases of_nat_u64_less order.irrefl)

lemma GetEntry_here: "at_entry lib fs h es s k \<Longrightarrow> GetEntry lib fs (of_nat k) s = (Ok True, s)"
  by (simp add: GetEntry_def at_entry_def of_nat_u64_less)

lemma GetEntry_forward:
  assumes "at_entry lib fs h es s k" and "k < i" and "i < length es"
  shows "\<exists>t. GetEntry lib fs (of_nat i) s = (Ok True, t) \<and> at_entry lib fs h es t i \<and> m_typechecking t = m_typechecking s
    \<and> (m_variables t, m_type_info t) = as_read (m_typechecking s) (es ! i)"
proof -
  have len: "length es < 2 ^ 64" using assms(1) by (simp add: at_entry_def)
  let ?xs = "take (i - k) (drop (Suc k) es)"
  have xs: "?xs \<noteq> []" "last ?xs = es ! i" "length ?xs = i - k"
    using assms(2,3) by (simp_all add: last_conv_nth)
  have d: "drop (Suc k) es = ?xs @ drop (Suc i) es"
    using append_take_drop_id [of "i - k" "drop (Suc k) es"] assms(2) by simp
  have n: "unat (of_nat i - (of_nat k :: u64)) = i - k"
    using assms(2,3) len by (simp add: unat_of_nat take_bit_nat_eq_self flip: of_nat_diff)
  have "GetEntry lib fs (of_nat i) s = read_entries (length ?xs) (of_nat k + 1) (Delete_all s)"
    using assms len n unfolding xs(3)
    by (simp add: GetEntry_def at_entry_def of_nat_u64_less of_nat_u64_eq)
  also have "\<dots> = (Ok True, (set_maps (as_read (m_typechecking s) (es ! i))
      ((Delete_all s)\<lparr>bs_arch := Some (written (m_typechecking s) (drop (Suc i) es))\<rparr>))
        \<lparr>currententry := of_nat k + 1 + of_nat (length ?xs - 1)\<rparr>)"
    using read_entries_written [of "Delete_all s" ?xs "written (m_typechecking s) (drop (Suc i) es)" "of_nat k + 1"]
      assms(1) xs d by (simp add: at_entry_def flip: map_append concat_append)
  also have "of_nat k + 1 + of_nat (length ?xs - 1) = (of_nat i :: u64)"
  proof -
    have "i = k + 1 + (length ?xs - 1)" using assms(2) xs(3) by simp
    then show ?thesis by (metis of_nat_1 of_nat_add)
  qed
  finally show ?thesis
    using assms(1,3) by (simp add: at_entry_def)
qed

lemma is_text_simps [simp]: "is_text 0 = False" "is_text 2 = False"
  by (simp_all add: is_text_def)

lemma findheader_binary: "findheader lib 2 = findheader lib 0"
  by (simp add: findheader_def)

lemma load_total:
  assumes "boost_contract lib" and "\<not> is_text (m_format s)" and "m_archiveheader s = findheader lib 0"
    and "om_lookup ''TotalEntries'' (m_variables s) = Some (body lib False (b_ulong lib n))"
  shows "load_value lib ''TotalEntries'' (b_typeid lib (b_ulong lib 0)) s = Some (b_ulong lib n)"
proof -
  have "b_typeid lib (b_ulong lib 0) = b_typeid lib (b_ulong lib n)"
    using assms(1) unfolding boost_contract_def by metis
  then show ?thesis
    using load_body [OF assms(1), of 0 "b_ulong lib n"] assms(2-4) by (simp add: load_value_def)
qed

text \<open>Without types, going back finds the number of entries in the header again.\<close>

lemma get_total_untyped:
  assumes "boost_contract lib" and "\<not> m_typechecking s" and "\<not> is_text (m_format s)" and "m_archiveheader s = findheader lib 0"
    and "om_lookup ''TotalEntries'' (m_variables s) = Some (body lib False (b_ulong lib n))"
  shows "get_total lib old s = (Ok n, touch_type ''TotalEntries'' s)"
proof -
  have "load_value lib ''TotalEntries'' ty (touch_type ''TotalEntries'' s) = load_value lib ''TotalEntries'' ty s" for ty
    by (simp add: load_value_def touch_type_def)
  then show ?thesis
    using assms load_total [OF assms(1,3-5)]
    by (simp add: get_total_def Get_value_def type_fits_def boost_contract_def)
qed

text \<open>With types it does not, as their map is empty at that moment.\<close>

lemma get_total_no_type:
  assumes "boost_contract lib" and "m_typechecking s" and "m_type_info s = []"
  shows "\<exists>t. get_total lib old s = (Ok old, (s\<lparr>m_type_info := t\<rparr>))"
proof -
  have ty: "b_typeid lib (b_ulong lib 0) \<noteq> []" using assms(1) by (simp add: boost_contract_def)
  show ?thesis
  proof (cases "om_lookup ''TotalEntries'' (m_variables s)")
    case None
    then show ?thesis by (intro exI [of _ "m_type_info s"]) (simp add: get_total_def Get_value_def)
  next
    case (Some a)
    then show ?thesis
      using ty assms(2,3) by (intro exI [of _ "[(''TotalEntries'', [])]"])
        (simp add: get_total_def Get_value_def type_fits_def touch_type_def om.lookup_empty)
  qed
qed

lemma GetEntry_back:
  assumes "at_entry lib fs h es s k" and "i < k" and "boost_contract lib" and "\<not> m_typechecking s"
  shows "\<exists>t. GetEntry lib fs (of_nat i) s = (Ok True, t) \<and> at_entry lib fs h es t i \<and> m_typechecking t = m_typechecking s
    \<and> (m_variables t, m_type_info t) = as_read (m_typechecking s) (es ! i)"
proof -
  have len: "length es < 2 ^ 64" "k < length es" using assms(1) by (simp_all add: at_entry_def)
  have u: "unat (of_nat i :: u64) = i" using assms(2) len by (simp add: unat_of_nat take_bit_nat_eq_self)
  define u where "u = set_maps (fst h, []) ((Delete_all s)\<lparr>bs_arch := Some (written False es)\<rparr>)"
  have total: "get_total lib (totalentries s) u = (Ok (of_nat (length es)), touch_type ''TotalEntries'' u)"
    using assms by (intro get_total_untyped) (simp_all add: u_def at_entry_def findheader_binary)
  define v where "v = (touch_type ''TotalEntries'' u)\<lparr>totalentries := of_nat (length es), currententry := 0\<rparr>"
  have stored: "fs (entryfile s) = Some (False, fst h # written False es)"
    using assms(1,4) by (simp add: at_entry_def written_maps_def)
  have lt: "of_nat i < totalentries s" "m_format s = 2" "of_nat i \<noteq> currententry s" "\<not> currententry s < of_nat i" "bs_arch s \<noteq> None"
    using assms len by (simp_all add: at_entry_def of_nat_u64_less of_nat_u64_eq)
  let ?xs = "take (Suc i) es"
  have xs: "?xs \<noteq> []" "last ?xs = es ! i" "length ?xs = Suc i"
    using assms(2) len by (auto simp: take_Suc_conv_app_nth)
  have "GetEntry lib fs (of_nat i) s = read_entries (length ?xs) 0 v"
    using lt stored total unfolding xs(3) u_def v_def
    by (auto simp: GetEntry_def u Let_def simp del: read_entries.simps)
  also have "\<dots> = (Ok True, (set_maps (as_read (m_typechecking v) (es ! i)) (v\<lparr>bs_arch := Some (written False (drop (Suc i) es))\<rparr>))
      \<lparr>currententry := 0 + of_nat (length ?xs - 1)\<rparr>)"
  proof -
    have "written False es = written False ?xs @ written False (drop (Suc i) es)"
      by (metis append_take_drop_id concat_append map_append)
    then have "bs_arch v = Some (written (m_typechecking v) ?xs @ written False (drop (Suc i) es))"
      using assms(4) by (simp add: v_def u_def touch_type_def)
    then show ?thesis using read_entries_written [of v ?xs "written False (drop (Suc i) es)" 0] xs(1,2) by simp
  qed
  finally show ?thesis
    using assms(1,2,4) xs(3) len by (simp add: at_entry_def v_def u_def touch_type_def)
qed

text \<open>With types every second map that is read is taken for the wrong one.\<close>

lemma written_shifted:
  "n \<le> length es \<Longrightarrow> t # written True es
    = written True (take n (zip (t # map snd es) (map fst es))) @ (t # map snd es) ! n # written True (drop n es)"
proof (induction n arbitrary: t es)
  case (Suc n)
  then obtain e es' where es: "es = e # es'" by (cases es) simp_all
  show ?case
    using Suc.IH [of es' "snd e"] Suc.prems by (simp add: es written_maps_def)
qed simp

text \<open>going back in a file of entries that was written with types reads the wrong maps: \<open>GetEntry\<close> of an earlier
  entry reports success, but the variables are then the names of the types of the entry before it (of
  the header for the first one), and the types are the variables asked for.\<close>
theorem going_back_reads_types:
  assumes "at_entry lib fs h es s k" and "i < k" and "boost_contract lib" and "m_typechecking s"
  shows "\<exists>t. GetEntry lib fs (of_nat i) s = (Ok True, t)
    \<and> m_variables t = snd ((h # es) ! i) \<and> m_type_info t = fst (es ! i)"
proof -
  have len: "length es < 2 ^ 64" "k < length es" using assms(1) by (simp_all add: at_entry_def)
  have u: "unat (of_nat i :: u64) = i" using assms(2) len by (simp add: unat_of_nat take_bit_nat_eq_self)
  define u where "u = set_maps (fst h, []) ((Delete_all s)\<lparr>bs_arch := Some (snd h # written True es)\<rparr>)"
  obtain ty where total: "get_total lib (totalentries s) u = (Ok (totalentries s), u\<lparr>m_type_info := ty\<rparr>)"
    using get_total_no_type [OF assms(3), of u] assms(4) by (auto simp: u_def)
  define v where "v = (u\<lparr>m_type_info := ty\<rparr>)\<lparr>totalentries := totalentries s, currententry := 0\<rparr>"
  have stored: "fs (entryfile s) = Some (False, fst h # snd h # written True es)"
    using assms(1,4) by (simp add: at_entry_def written_maps_def)
  have lt: "of_nat i < totalentries s" "m_format s = 2" "of_nat i \<noteq> currententry s" "\<not> currententry s < of_nat i" "bs_arch s \<noteq> None"
    using assms len by (simp_all add: at_entry_def of_nat_u64_less of_nat_u64_eq)
  let ?xs = "take (Suc i) (zip (snd h # map snd es) (map fst es))"
  have n: "length ?xs = Suc i" using assms(2) len by simp
  have l: "?xs \<noteq> []" "last ?xs = (snd ((h # es) ! i), fst (es ! i))"
  proof -
    show ne: "?xs \<noteq> []" using n by (metis length_0_conv nat.simps(3))
    have "(snd h # map snd es) ! i = snd ((h # es) ! i)" using assms(2) len by (cases i) simp_all
    then show "last ?xs = (snd ((h # es) ! i), fst (es ! i))"
      using assms(2) len unfolding last_conv_nth [OF ne] n by simp
  qed
  have "GetEntry lib fs (of_nat i) s = read_entries (length ?xs) 0 v"
    using lt stored total unfolding n u_def v_def
    by (auto simp: GetEntry_def u Let_def simp del: read_entries.simps)
  moreover have "bs_arch v = Some (written (m_typechecking v) ?xs @ (snd h # map snd es) ! Suc i # written True (drop (Suc i) es))"
    using written_shifted [of "Suc i" es "snd h"] assms(2,4) len by (simp add: v_def u_def)
  ultimately show ?thesis
    using read_entries_written [of v ?xs "(snd h # map snd es) ! Suc i # written True (drop (Suc i) es)" 0] l assms(4)
    by (simp add: as_read_def v_def u_def)
qed

section \<open>Writing the file\<close>

text \<open>A store that is writing.\<close>

definition writing :: "bool \<Rightarrow> string \<Rightarrow> (string omap \<times> string omap) list \<Rightarrow> 'v boost_store \<Rightarrow> bool" where
  "writing tc f es s \<longleftrightarrow>
     m_format s = 2 \<and> m_typechecking s = tc \<and> bs_Header s = ([], []) \<and> totalentries s = of_nat (length es)
     \<and> (if es = [] then bs_oarch s = None else outfile s = f \<and> bs_oarch s = Some (written tc es))"

lemma writing_new: "writing tc f [] (BoostStore_new lib tc 2 junk)"
  by (simp add: writing_def BoostStore_new_def)

lemma writing_Save:
  "writing tc f es s \<Longrightarrow> \<exists>t. Save lib f fs (set_maps e s) = (fs, t) \<and> writing tc f (es @ [e]) t"
  by (cases "es = []") (auto simp: writing_def Save_def written_maps_def set_maps_def)

lemma writing_all: "writing tc f es s \<Longrightarrow> \<exists>t. save_all lib f xs (fs, s) = (fs, t) \<and> writing tc f (es @ xs) t"
proof (induction xs arbitrary: es s)
  case (Cons e xs)
  obtain t where "Save lib f fs (set_maps e s) = (fs, t)" "writing tc f (es @ [e]) t"
    using writing_Save [OF Cons.prems] by blast
  then show ?case using Cons.IH [of "es @ [e]" t] by (simp add: save_all_def)
qed (simp add: save_all_def)

lemma writing_Close:
  assumes "writing tc f es s" and "es \<noteq> []"
  shows "\<exists>h t. Close lib fs s = (True, fs(f \<mapsto> (False, written tc (h # es))), t)
    \<and> om_wf (fst h) \<and> om_lookup ''TotalEntries'' (fst h) = Some (body lib False (b_ulong lib (of_nat (length es))))
    \<and> (tc \<longrightarrow> om_lookup ''TotalEntries'' (snd h) = Some (b_typeid lib (b_ulong lib 0)) \<or> \<not> boost_contract lib)"
proof -
  define hs where "hs = Set_value lib ''m_typechecking'' (b_bool lib tc) (Set_value lib ''m_format'' (b_int lib 2)
      (Set_value lib ''TotalEntries'' (b_ulong lib (of_nat (length es))) (header_store lib (s\<lparr>bs_arch := None\<rparr>))))"
  have "holds lib Map.empty (header_store lib (s\<lparr>bs_arch := None\<rparr>))"
    using assms(1) by (simp add: holds_def header_store_def writing_def om.lookup_empty om.wf_empty)
  then have h: "holds lib (Map.empty(''TotalEntries'' \<mapsto> b_ulong lib (of_nat (length es)), ''m_format'' \<mapsto> b_int lib 2,
      ''m_typechecking'' \<mapsto> b_bool lib tc)) hs"
    unfolding hs_def by (intro holds_Set)
  have m: "m_format hs = 0" "m_typechecking hs = tc"
    using assms(1) by (simp_all add: hs_def Set_value_def header_store_def writing_def)
  have "\<exists>t. Close lib fs s = (True, fs(f \<mapsto> (False, written tc ((m_variables hs, m_type_info hs) # es))), t)"
    using assms by (simp add: Close_def writing_def hs_def header_store_def Let_def)
  then show ?thesis
    using h m unfolding holds_def boost_contract_def by (intro exI [of _ "(m_variables hs, m_type_info hs)"]) auto
qed

text \<open>Opening the file puts a reader at the first entry.\<close>

lemma Initialise_entries_steps:
  assumes "read_maps (m_typechecking s) (bs_Header s) maps = (True, h, maps1)"
    and "get_total lib (totalentries s) (header_store lib (s\<lparr>entryfile := f, bs_Header := h, bs_arch := Some maps1\<rparr>)) = (Ok n, hs)"
    and "read_maps (m_typechecking s) ([], []) maps1 = (True, e, maps2)"
  shows "Initialise_entries lib f maps s = (Ok True, (set_maps e (s\<lparr>entryfile := f, bs_Header := (m_variables hs, m_type_info hs),
    totalentries := n, bs_arch := Some maps2\<rparr>))\<lparr>currententry := 0\<rparr>)"
  using assms by (simp add: Initialise_entries_def set_maps_def)

lemma read_first:
  assumes "boost_contract lib" and "es \<noteq> []" and "length es < 2 ^ 64"
    and "fs f = Some (False, written tc (h # es))"
    and "om_lookup ''TotalEntries'' (fst h) = Some (body lib False (b_ulong lib (of_nat (length es))))"
    and "tc \<longrightarrow> om_lookup ''TotalEntries'' (snd h) = Some (b_typeid lib (b_ulong lib 0))"
  shows "\<exists>r. Initialise_archive lib fs f (BoostStore_new lib tc 2 junk) = (Ok True, r) \<and> m_typechecking r = tc
    \<and> at_entry lib fs h es r 0 \<and> (m_variables r, m_type_info r) = as_read tc (es ! 0)"
proof -
  obtain e es' where es: "es = e # es'" using assms(2) by (cases es) simp_all
  obtain s where s: "s = BoostStore_new lib tc 2 junk" by simp
  have m: "m_format s = 2" "m_typechecking s = tc" "bs_Header s = ([], [])" "m_archiveheader s = findheader lib 2"
    by (simp_all add: BoostStore_new_def s)
  define r where "r = s\<lparr>entryfile := f, bs_Header := as_read tc h, bs_arch := Some (written tc es)\<rparr>"
  let ?hs = "header_store lib r"
  have hs: "get_total lib (totalentries s) ?hs = (Ok (of_nat (length es)), snd (get_total lib (totalentries s) ?hs))"
  proof -
    have load: "load_value lib ''TotalEntries'' (b_typeid lib (b_ulong lib 0)) ?hs = Some (b_ulong lib (of_nat (length es)))"
      using assms by (intro load_total) (simp_all add: header_store_def r_def as_read_def)
    moreover have "load_value lib ''TotalEntries'' ty (touch_type ''TotalEntries'' ?hs) = load_value lib ''TotalEntries'' ty ?hs" for ty
      by (simp add: load_value_def touch_type_def)
    moreover have "type_fits ''TotalEntries'' (b_typeid lib (b_ulong lib 0)) ?hs"
      using assms(6) m by (cases tc) (simp_all add: type_fits_def header_store_def r_def as_read_def)
    moreover have "om_lookup ''TotalEntries'' (m_variables ?hs) \<noteq> None"
      using assms(5) by (simp add: header_store_def r_def as_read_def)
    moreover have "b_of_ulong lib (b_ulong lib n) = n" for n using assms(1) by (simp add: boost_contract_def)
    ultimately show ?thesis by (auto simp: get_total_def Get_value_def Let_def)
  qed
  define hs where "hs = snd (get_total lib (totalentries s) ?hs)"
  have "read_maps tc ([], []) (written tc (h # es)) = (True, as_read tc h, written tc es)"
    "read_maps tc ([], []) (written tc es) = (True, as_read tc e, written tc es')"
    using read_written [of tc "([], [])" h "written tc es"] read_written [of tc "([], [])" e "written tc es'"]
    by (simp_all add: as_read_def es)
  then have "Initialise_entries lib f (written tc (h # es)) s = (Ok True, (set_maps (as_read tc e)
      (s\<lparr>entryfile := f, bs_Header := (m_variables hs, m_type_info hs), totalentries := of_nat (length es),
        bs_arch := Some (written tc es')\<rparr>))\<lparr>currententry := 0\<rparr>)"
    using hs m unfolding r_def hs_def by (intro Initialise_entries_steps) simp_all
  moreover have "Initialise_archive lib fs f s = Initialise_entries lib f (written tc (h # es)) s"
    using assms(4) m by (simp add: Initialise_archive_def)
  ultimately show ?thesis
    using assms(3-5) m unfolding s by (simp add: at_entry_def es as_read_def)
qed

lemma visit_reads:
  assumes "at_entry lib fs h es s k" and "boost_contract lib" and "\<forall>i \<in> set is. i < length es"
    and "m_typechecking s \<longrightarrow> sorted (k # is)" and "(m_variables s, m_type_info s) = as_read (m_typechecking s) (es ! k)"
  shows "\<exists>t. visit lib fs is s = Some t \<and> (m_variables t, m_type_info t) = as_read (m_typechecking s) (es ! last (k # is))"
  using assms
proof (induction "is" arbitrary: k s)
  case (Cons i "is")
  have "\<exists>t. GetEntry lib fs (of_nat i) s = (Ok True, t) \<and> at_entry lib fs h es t i \<and> m_typechecking t = m_typechecking s
      \<and> (m_variables t, m_type_info t) = as_read (m_typechecking s) (es ! i)"
    using Cons.prems GetEntry_here [of lib fs h es s k] GetEntry_forward [of lib fs h es s k i] GetEntry_back [of lib fs h es s k i]
    by (cases i k rule: linorder_cases) auto
  then obtain t where t: "GetEntry lib fs (of_nat i) s = (Ok True, t)" "at_entry lib fs h es t i" "m_typechecking t = m_typechecking s"
    "(m_variables t, m_type_info t) = as_read (m_typechecking s) (es ! i)" by blast
  have "m_typechecking t \<longrightarrow> sorted (i # is)" using Cons.prems(4) t(3) by simp
  then show ?case
    using Cons.IH [OF t(2) Cons.prems(2)] Cons.prems(3) t by simp
qed simp


section \<open>Examples\<close>

text \<open>A small library that fulfils the contract, and a store without content.\<close>

datatype demo_value = Text string | Number u64

fun demo_type :: "demo_value \<Rightarrow> string" where
  "demo_type (Text t) = ''string''"
| "demo_type (Number n) = ''ulong''"

fun demo_body :: "demo_value \<Rightarrow> string" where
  "demo_body (Text t) = t"
| "demo_body (Number n) = nat_str (unat n)"

definition demo_boost :: "demo_value boost_lib" where
  "demo_boost = \<lparr>b_typeid = demo_type,
     b_archive = (\<lambda>text v. replicate (header_length text) (CHR ''h'') @ demo_body v),
     b_load = (\<lambda>text ty t. let t = drop (header_length text) t in
       if ty = ''string'' then Some (Text t) else if ty = ''ulong'' then Some (Number (of_nat (read_digits 0 t))) else None),
     b_string = Text, b_int = Number \<circ> of_nat, b_bool = Number \<circ> of_bool, b_ulong = Number,
     b_of_ulong = (\<lambda>v. case v of Number n \<Rightarrow> n | Text t \<Rightarrow> 0)\<rparr>"

lemma demo_boost_contract: "boost_contract demo_boost"
proof -
  have "b_load demo_boost fmt (b_typeid demo_boost v) (b_archive demo_boost fmt v) = Some v" for fmt v
    by (cases v) (simp_all add: demo_boost_def read_nat_str)
  moreover have "b_typeid demo_boost v \<noteq> []" for v by (cases v) (simp_all add: demo_boost_def)
  ultimately show ?thesis unfolding boost_contract_def by (simp add: demo_boost_def)
qed

definition demo_store :: "demo_value boost_store" where
  "demo_store = \<lparr>m_typechecking = True, m_format = 0, m_archiveheader = [], m_variables = [], m_type_info = [], m_ptrs = [],
     bs_deleted = [], bs_objects = (\<lambda>_. None), currententry = 0, totalentries = 0, bs_Header = ([], []),
     entryfile = [], outfile = [], bs_arch = None, bs_oarch = None\<rparr>"

lemma store_is_typed_map_witness:
  "fst (Get_value demo_boost ''run'' ''ulong'' (Set_value demo_boost ''run'' (Number 5) (Set_value demo_boost ''run'' (Text ''x'')
    (BoostStore_new demo_boost True 0 demo_store)))) = Ok (Some (Number 5))"
  using store_is_typed_map [OF demo_boost_contract, where k = "''run''" and ty = "''ulong''" and format = 0
      and cs = "[CallSet ''run'' (Text ''x''), CallSet ''run'' (Number 5)]" and junk = demo_store]
  by (simp add: demo_boost_def)

lemma pointer_escapes_type_check_witness:
  "fst (Get_pointer demo_boost ''run'' ''ulong'' 9
    (Set_value demo_boost ''run'' (Number 5) (snd (Set_pointer demo_boost ''run'' 7 (Text ''x'') True demo_store)))) = Fault"
  using pointer_escapes_type_check [of demo_store "''run''" demo_boost "Text ''x''" "Number 5" 7 True 9]
  by (simp add: demo_store_def om_wf_def om_lookup_def demo_boost_def Let_def)

lemma going_back_reads_types_witness:
  "let fs = [''f'' \<mapsto> (False, [[(''TotalEntries'', ''2'')], [(''TotalEntries'', ''ulong'')], [(''x'', ''1'')], [(''x'', ''int'')],
      [(''x'', ''2'')], [(''x'', ''int'')]])];
    s = (BoostStore_new demo_boost True 2 demo_store)\<lparr>totalentries := 2, currententry := 1, entryfile := ''f'', bs_arch := Some []\<rparr>
   in \<exists>t. GetEntry demo_boost fs 0 s = (Ok True, t) \<and> m_variables t = [(''TotalEntries'', ''ulong'')] \<and> m_type_info t = [(''x'', ''1'')]"
proof -
  let ?fs = "[''f'' \<mapsto> (False, [[(''TotalEntries'', ''2'')], [(''TotalEntries'', ''ulong'')], [(''x'', ''1'')], [(''x'', ''int'')],
      [(''x'', ''2'')], [(''x'', ''int'')]])]"
  let ?s = "(BoostStore_new demo_boost True 2 demo_store)\<lparr>totalentries := 2, currententry := 1, entryfile := ''f'', bs_arch := Some []\<rparr>"
  let ?h = "([(''TotalEntries'', ''2'')], [(''TotalEntries'', ''ulong'')])"
  let ?es = "[([(''x'', ''1'')], [(''x'', ''int'')]), ([(''x'', ''2'')], [(''x'', ''int'')])]"
  have "nat_str 2 = ''2''" by (simp add: nat_str.simps char_of_def bit_0)
  then have "at_entry demo_boost ?fs ?h ?es ?s 1" and "m_typechecking ?s"
    by (simp_all add: at_entry_def BoostStore_new_def written_maps_def om_lookup_def body_def demo_boost_def)
  then show ?thesis
    using going_back_reads_types [OF _ _ demo_boost_contract, of ?fs ?h ?es ?s 1 0] by simp
qed


end
