(* ===== verification/DAQLogging.thy ===== *)
theory DAQLogging
  imports ServiceDiscovery
begin

text \<open>
  The logging of a tool chain (\<open>DAQLogging.cpp\<close>): two stream buffers, for \<open>cout\<close> and for \<open>cerr\<close>, whose
  \<open>sync\<close> writes what was printed to a file, to the screen and to the network, and the thread that
  multicasts what the buffers send it. The colours, \<open>red\<close> and \<open>plain\<close>, and the class \<open>Store\<close> are
  arguments; time stamps and outcomes of polls are too.
\<close>

section \<open>Stream buffers\<close>

text \<open>\<open>sb_str\<close> is what was printed since the last \<open>sync\<close>; \<open>sb_SendLog\<close> tells whether a function was set.\<close>

record stream_buf =
  sb_interactive :: bool
  sb_local :: bool
  sb_remote :: bool
  sb_error :: bool
  sb_messagelevel :: int
  sb_verbose :: int
  sb_service :: string
  sb_SendLog :: bool
  sb_str :: string

definition TDAQStreamBuf_new :: "string \<Rightarrow> bool \<Rightarrow> bool \<Rightarrow> bool \<Rightarrow> bool \<Rightarrow> stream_buf" where
  "TDAQStreamBuf_new service interactive local remote error =
     \<lparr>sb_interactive = interactive, sb_local = local, sb_remote = remote, sb_error = error,
      sb_messagelevel = (if error then 0 else 1), sb_verbose = (if error then 0 else 1),
      sb_service = service, sb_SendLog = False, sb_str = []\<rparr>"

text \<open>What one \<open>sync\<close> puts out: text for the file and the screen, a message for the thread, a call of
  \<open>SendLog\<close> with its four arguments.\<close>

record sync_output =
  to_file :: string
  to_screen :: string
  to_thread :: "string option"
  to_SendLog :: "(string \<times> int \<times> string \<times> nat) option"

definition level_text :: "stream_buf \<Rightarrow> string" where
  "level_text b = (if sb_error b then ''ERROR'' else int_str (sb_messagelevel b))"

definition in_red :: "string \<Rightarrow> string \<Rightarrow> stream_buf \<Rightarrow> string \<Rightarrow> string" where
  "in_red red plain b t = (if sb_error b then red @ t @ plain else t)"

text \<open>A message of the size of the text and one more, filled by \<open>snprintf\<close> with \<open>%s\<close>, which stops at the first
  zero of the text; \<open>junk\<close> is what the memory after it holds.\<close>

definition c_message :: "string \<Rightarrow> string \<Rightarrow> string" where
  "c_message line junk =
     (let t = takeWhile (\<lambda>c. c \<noteq> NUL) line in t @ NUL # take (length line - length t) junk)"

definition remote_line :: "stream_buf \<Rightarrow> string \<Rightarrow> string" where
  "remote_line b t =
     ''{'' @ sb_service b @ '':'' @ t @ ''} ['' @ int_str (sb_messagelevel b) @ '']: '' @ sb_str b"

definition sync :: "string \<Rightarrow> string \<Rightarrow> string \<Rightarrow> bool \<Rightarrow> string \<Rightarrow> stream_buf \<Rightarrow> sync_output \<times> stream_buf" where
  "sync red plain t pollout junk b =
     (let shown = (sb_interactive b \<or> sb_local b \<or> sb_remote b) \<and> sb_messagelevel b \<le> sb_verbose b \<and> sb_str b \<noteq> [];
          body = ''['' @ level_text b @ '']: '' @ sb_str b
      in (\<lparr>to_file = (if shown \<and> sb_local b then in_red red plain b (''{'' @ t @ ''} '' @ body) else []),
           to_screen = (if shown \<and> sb_interactive b then in_red red plain b body else []),
           to_thread = (if shown \<and> sb_remote b \<and> \<not> sb_SendLog b \<and> pollout then Some (c_message (remote_line b t) junk) else None),
           to_SendLog = (if shown \<and> sb_remote b \<and> sb_SendLog b then Some (t, sb_messagelevel b, sb_service b, 0) else None)\<rparr>,
          b\<lparr>sb_str := []\<rparr>))"

section \<open>The thread that multicasts\<close>

definition log_store :: "('o, 'u) sd_lib \<Rightarrow> string \<Rightarrow> string \<Rightarrow> string \<Rightarrow> 'o" where
  "log_store lib service time message =
     sd_set_text lib ''message'' message (sd_set_text lib ''severity'' ''logging''
       (sd_set_text lib ''device'' service (sd_set_text lib ''time'' time
         (sd_set_text lib ''topic'' ''logging'' (sd_empty lib)))))"

text \<open>The messages that arrive, each with the time; the datagrams given to \<open>sendto\<close>, and whether the thread still
  runs. \<open>Fault\<close>: a message without a terminating zero.\<close>

fun RemoteThread ::
    "('o, 'u) sd_lib \<Rightarrow> string \<Rightarrow> (string \<times> string) list \<Rightarrow> (unit, string list \<times> bool) cres" where
  "RemoteThread lib service [] = Ok ([], True)"
| "RemoteThread lib service ((message, time) # ms) =
     (case c_string message of
        None \<Rightarrow> Fault
      | Some t \<Rightarrow>
          if t = ''Quit'' then Ok ([], False)
          else cbind (RemoteThread lib service ms)
            (\<lambda>(ds, running). Ok ((sd_write lib (log_store lib service time t) @ [NUL]) # ds, running)))"

section \<open>The two buffers\<close>

text \<open>The files the buffers write to; without a split it is one file, that of the first.\<close>

record daq_logging =
  lg_buffer :: stream_buf
  lg_errbuffer :: stream_buf
  lg_split :: bool
  lg_file :: string
  lg_errfile :: string
  lg_screen :: string
  lg_queue :: "string list"
  lg_calls :: "(string \<times> int \<times> string \<times> nat) list"

definition DAQLogging_new :: "string \<Rightarrow> bool \<Rightarrow> bool \<Rightarrow> bool \<Rightarrow> bool \<Rightarrow> daq_logging" where
  "DAQLogging_new service interactive local remote split =
     \<lparr>lg_buffer = TDAQStreamBuf_new service interactive local remote False,
      lg_errbuffer = TDAQStreamBuf_new service interactive local remote True,
      lg_split = split, lg_file = [], lg_errfile = [], lg_screen = [], lg_queue = [], lg_calls = []\<rparr>"

definition SetSendLog :: "bool \<Rightarrow> daq_logging \<Rightarrow> daq_logging" where
  "SetSendLog given l =
     l\<lparr>lg_buffer := (lg_buffer l)\<lparr>sb_SendLog := given\<rparr>, lg_errbuffer := (lg_errbuffer l)\<lparr>sb_SendLog := given\<rparr>\<rparr>"

definition put_out :: "bool \<Rightarrow> sync_output \<Rightarrow> daq_logging \<Rightarrow> daq_logging" where
  "put_out err out l =
     (let l = (if err \<and> lg_split l then l\<lparr>lg_errfile := lg_errfile l @ to_file out\<rparr>
               else l\<lparr>lg_file := lg_file l @ to_file out\<rparr>)
      in l\<lparr>lg_screen := lg_screen l @ to_screen out,
           lg_queue := lg_queue l @ (case to_thread out of None \<Rightarrow> [] | Some m \<Rightarrow> [m]),
           lg_calls := lg_calls l @ (case to_SendLog out of None \<Rightarrow> [] | Some c \<Rightarrow> [c])\<rparr>)"

text \<open>Text printed to one of the streams at a level and synchronised; the levels are set by the base class.\<close>

record printed =
  pr_err :: bool
  pr_level :: int
  pr_verbose :: int
  pr_text :: string
  pr_time :: string
  pr_pollout :: bool
  pr_junk :: string

definition print_and_sync :: "string \<Rightarrow> string \<Rightarrow> printed \<Rightarrow> daq_logging \<Rightarrow> daq_logging" where
  "print_and_sync red plain p l =
     (let b = (if pr_err p then lg_errbuffer l else lg_buffer l);
          (out, b) = sync red plain (pr_time p) (pr_pollout p) (pr_junk p)
            (b\<lparr>sb_messagelevel := pr_level p, sb_verbose := pr_verbose p, sb_str := sb_str b @ pr_text p\<rparr>);
          l = put_out (pr_err p) out l
      in if pr_err p then l\<lparr>lg_errbuffer := b\<rparr> else l\<lparr>lg_buffer := b\<rparr>)"

text \<open>The destructor: the first buffer tells the thread to end.\<close>

definition DAQLogging_delete :: "daq_logging \<Rightarrow> daq_logging" where
  "DAQLogging_delete l =
     (if sb_remote (lg_buffer l) then l\<lparr>lg_queue := lg_queue l @ [''Quit'' @ [NUL]]\<rparr> else l)"

section \<open>Log lines arrive\<close>

lemma c_string_message: "c_string (c_message line junk) = Some (takeWhile (\<lambda>c. c \<noteq> NUL) line)"
proof -
  have "NUL \<notin> set (takeWhile (\<lambda>c. c \<noteq> NUL) line)" by (auto dest: set_takeWhileD)
  then show ?thesis unfolding c_message_def Let_def by (rule c_string_append)
qed

lemma RemoteThread_append:
  "\<lbrakk>RemoteThread lib service ms = Ok (ds, True)\<rbrakk>
    \<Longrightarrow> RemoteThread lib service (ms @ ns) = cbind (RemoteThread lib service ns) (\<lambda>(es, running). Ok (ds @ es, running))"
proof (induction lib service ms arbitrary: ds rule: RemoteThread.induct)
  case (1 lib service)
  then show ?case by (cases "RemoteThread lib service ns") auto
next
  case (2 lib service message time ms)
  then obtain t where t: "c_string message = Some t" "t \<noteq> ''Quit''"
    by (auto split: option.splits if_splits)
  then obtain es where es: "RemoteThread lib service ms = Ok (es, True)"
    "ds = (sd_write lib (log_store lib service time t) @ [NUL]) # es"
    using 2(2) by (auto simp: crun_simps)
  show ?case
    using 2(1) [OF t es(1)] t es(2) by (cases "RemoteThread lib service ns") auto
qed

text \<open>What is sent of a text, and the line it becomes.\<close>

definition forwarded :: "printed \<Rightarrow> bool" where
  "forwarded p \<longleftrightarrow> pr_level p \<le> pr_verbose p \<and> pr_text p \<noteq> [] \<and> pr_pollout p"

definition log_line :: "string \<Rightarrow> printed \<Rightarrow> string" where
  "log_line service p = takeWhile (\<lambda>c. c \<noteq> NUL)
     (''{'' @ service @ '':'' @ pr_time p @ ''} ['' @ int_str (pr_level p) @ '']: '' @ pr_text p)"

lemma log_line_not_Quit: "log_line service p \<noteq> ''Quit''"
  by (simp add: log_line_def NUL_def)

text \<open>Both buffers forward to the thread and hold no text.\<close>

definition remote_logging :: "string \<Rightarrow> daq_logging \<Rightarrow> bool" where
  "remote_logging service l \<longleftrightarrow>
     (\<forall>b \<in> {lg_buffer l, lg_errbuffer l}. sb_remote b \<and> \<not> sb_SendLog b \<and> sb_service b = service \<and> sb_str b = [])"

lemma print_forwards:
  assumes "remote_logging service l"
  shows "remote_logging service (print_and_sync red plain p l)
    \<and> (\<exists>ms. lg_queue (print_and_sync red plain p l) = lg_queue l @ ms
      \<and> map c_string ms = (if forwarded p then [Some (log_line service p)] else []))"
  using assms
  by (cases "pr_err p")
    (auto simp: remote_logging_def print_and_sync_def sync_def put_out_def forwarded_def Let_def
      c_string_message log_line_def remote_line_def)

lemma prints_forward:
  "remote_logging service l \<Longrightarrow> remote_logging service (fold (print_and_sync red plain) ps l)
    \<and> map c_string (lg_queue (fold (print_and_sync red plain) ps l))
      = map c_string (lg_queue l) @ map (\<lambda>p. Some (log_line service p)) (filter forwarded ps)"
proof (induction ps arbitrary: l)
  case (Cons p ps)
  define k where "k = print_and_sync red plain p l"
  have k: "remote_logging service k" "map c_string (lg_queue k)
      = map c_string (lg_queue l) @ (if forwarded p then [Some (log_line service p)] else [])"
    using print_forwards [OF Cons.prems, of red plain p] by (auto simp: k_def)
  show ?case using Cons.IH [OF k(1)] k(2) by (simp add: k_def [symmetric])
qed simp

lemma RemoteThread_texts:
  "\<lbrakk>map c_string ms = map Some ls @ [Some ''Quit'']; length ts = length ms; ''Quit'' \<notin> set ls\<rbrakk>
    \<Longrightarrow> RemoteThread lib service (zip ms ts)
      = Ok (map (\<lambda>(l, t). sd_write lib (log_store lib service t l) @ [NUL]) (zip ls ts), False)"
proof (induction ls arbitrary: ms ts)
  case Nil
  then obtain m t where "ms = [m]" "ts = [t]" by (cases ms; cases ts) auto
  then show ?case using Nil by simp
next
  case (Cons l ls)
  then obtain m ms' t ts' where "ms = m # ms'" "ts = t # ts'" by (cases ms; cases ts) auto
  then show ?case using Cons by auto
qed


text \<open>Once a function for sending is set, its calls have the time in place of the text.\<close>

lemma SendLog_gets_the_time:
  assumes "sb_remote b" and "sb_SendLog b" and "sb_messagelevel b \<le> sb_verbose b" and "sb_str b \<noteq> []"
  shows "to_SendLog (fst (sync red plain t pollout junk b)) = Some (t, sb_messagelevel b, sb_service b, 0)
    \<and> to_thread (fst (sync red plain t pollout junk b)) = None"
  using assms by (simp add: sync_def Let_def)

text \<open>An example, with a store that is written as its texts one after the other.\<close>

definition texts_lib :: "((string \<times> string) list, nat) sd_lib" where
  "texts_lib = \<lparr>sd_empty = [], sd_set_text = (\<lambda>k v s. s @ [(k, v)]), sd_set_int = (\<lambda>k i s. s), sd_set_bool = (\<lambda>k b s. s),
      sd_get = (\<lambda>k s. map_of s k), sd_get_bool = (\<lambda>k s. None), sd_erase = (\<lambda>k s. s), sd_parse = (\<lambda>t s. s),
      sd_write = (\<lambda>s. concat (map snd s)), sd_uuid_text = (\<lambda>u. []), sd_uuid_read = (\<lambda>t. None), sd_time = (\<lambda>t. None)\<rparr>"

definition one_print :: printed where
  "one_print = \<lparr>pr_err = True, pr_level = 0, pr_verbose = 0, pr_text = ''x'', pr_time = ''now'', pr_pollout = True, pr_junk = []\<rparr>"


end
