(* ===== verification/ToolDAQChain.thy ===== *)
theory ToolDAQChain
  imports DAQLogging
begin

text \<open>
  A chain of tools as a process (\<open>ToolDAQChain.cpp\<close>): its configuration, what is created from it, and the
  loop that executes commands sent over the network. The chain itself (\<open>ExecuteCommand\<close>, of the base
  library) is an argument, as are the class \<open>Store\<close>, the clock, the socket and the file with the UUID.
\<close>

section \<open>Configuration\<close>

text \<open>\<open>Get\<close> by the type of the variable it fills.\<close>

record chain_vars =
  get_text :: "string \<Rightarrow> string option"
  get_int :: "string \<Rightarrow> int option"
  get_bool :: "string \<Rightarrow> bool option"
  get_texts :: "string \<Rightarrow> string list option"
  get_ints :: "string \<Rightarrow> int list option"

record chain_config =
  cc_UUID_path :: string
  cc_verbose :: int
  cc_errorlevel :: int
  cc_remoteport :: int
  cc_recover :: bool
  cc_log_interactive :: bool
  cc_log_local :: bool
  cc_log_split_files :: bool
  cc_log_local_path :: string
  cc_log_remote :: bool
  cc_log_address :: string
  cc_log_port :: int
  cc_multicastaddress :: "string list"
  cc_multicastport :: "int list"
  cc_service :: string
  cc_pub_sec :: int
  cc_kick_sec :: int
  cc_backend_services :: bool
  cc_inline :: int
  cc_interactive :: bool
  cc_remote :: u16

definition log_path :: "chain_vars \<Rightarrow> string \<Rightarrow> string" where
  "log_path vars now =
     (let path = got (get_text vars ''log_local_path'') ''./log'' in
      if got (get_bool vars ''log_append_time'') False then path @ ''.'' @ now else path)"

definition list_or_one :: "'a list option \<Rightarrow> 'a option \<Rightarrow> 'a \<Rightarrow> 'a list" where
  "list_or_one many one fallback =
     (case many of Some l \<Rightarrow> l | None \<Rightarrow> [got one fallback])"

text \<open>\<open>Remote\<close> is read into 16 bits.\<close>

definition read_config :: "chain_vars \<Rightarrow> string \<Rightarrow> chain_config" where
  "read_config vars now =
     \<lparr>cc_UUID_path = got (get_text vars ''UUID_path'') ''/dev/random'',
      cc_verbose = got (get_int vars ''verbose'') 9,
      cc_errorlevel = got (get_int vars ''error_level'') 2,
      cc_remoteport = got (get_int vars ''remote_port'') 24004,
      cc_recover = got (get_bool vars ''attempt_recover'') False,
      cc_log_interactive = got (get_bool vars ''log_interactive'') True,
      cc_log_local = got (get_bool vars ''log_local'') False,
      cc_log_split_files = got (get_bool vars ''log_split_files'') False,
      cc_log_local_path = log_path vars now,
      cc_log_remote = got (get_bool vars ''log_remote'') False,
      cc_log_address = got (get_text vars ''log_address'') ''239.192.1.1'',
      cc_log_port = got (get_int vars ''log_port'') 5001,
      cc_multicastaddress = list_or_one (get_texts vars ''service_discovery_address'')
        (get_text vars ''service_discovery_address'') ''239.192.1.1'',
      cc_multicastport = list_or_one (get_ints vars ''service_discovery_port'')
        (get_int vars ''service_discovery_port'') 5000,
      cc_service = got (get_text vars ''service_name'') ''ToolDAQ_Service'',
      cc_pub_sec = got (get_int vars ''service_publish_sec'') 5,
      cc_kick_sec = got (get_int vars ''service_kick_sec'') 60,
      cc_backend_services = got (get_bool vars ''use_backend_services'') False,
      cc_inline = got (get_int vars ''Inline'') 0,
      cc_interactive = got (get_bool vars ''Interactive'') False,
      cc_remote = of_int (got (get_int vars ''Remote'') 0)\<rparr>"

text \<open>The constructor with explicit arguments; the members it does not set are those of \<open>junk\<close>.\<close>

definition explicit_config ::
    "int \<Rightarrow> int \<Rightarrow> string \<Rightarrow> bool \<Rightarrow> bool \<Rightarrow> string \<Rightarrow> bool \<Rightarrow> string \<Rightarrow> int \<Rightarrow> bool \<Rightarrow> int \<Rightarrow> int \<Rightarrow> chain_config \<Rightarrow> chain_config" where
  "explicit_config verbose errorlevel service interactive local log_local_path remote log_address log_port
     split_output_files pub_sec kick_sec junk =
     junk\<lparr>cc_verbose := verbose, cc_errorlevel := errorlevel, cc_service := service, cc_log_interactive := interactive,
       cc_log_local := local, cc_log_local_path := log_local_path, cc_log_remote := remote, cc_log_address := log_address,
       cc_log_port := log_port, cc_log_split_files := split_output_files, cc_pub_sec := pub_sec, cc_kick_sec := kick_sec\<rparr>"

text \<open>The arguments of the process, as they are put into the variables.\<close>

definition argument_vars :: "string list \<Rightarrow> (string \<times> string) list" where
  "argument_vars argv =
     (''argc'', int_str (int (length argv))) # map (\<lambda>(i, a). (CHR ''$'' # nat_str i, a)) (enumerate 0 argv)"

section \<open>What is created\<close>

text \<open>The service discovery and the logger, by the arguments of their constructors; \<open>written_UUID\<close> is the file that
  is made when there was none.\<close>

record 'u chain_parts =
  chain_UUID :: 'u
  written_UUID :: "(string \<times> 'u) option"
  chain_logging :: daq_logging
  sd_send :: bool
  sd_receive :: bool
  sd_remoteport :: int
  sd_addresses :: "string list"
  sd_ports :: "int list"
  sd_service :: string
  sd_pubsec :: int
  sd_kicksec :: int
  chain_services :: bool

definition Init_chain :: "chain_config \<Rightarrow> 'u option \<Rightarrow> 'u \<Rightarrow> 'u chain_parts" where
  "Init_chain c stored random =
     \<lparr>chain_UUID = got stored random,
      written_UUID = (if stored = None then Some (cc_UUID_path c, random) else None),
      chain_logging = SetSendLog (cc_backend_services c)
        (DAQLogging_new (cc_service c) (cc_log_interactive c) (cc_log_local c) (cc_log_remote c) (cc_log_split_files c)),
      sd_send = (0 \<le> cc_pub_sec c), sd_receive = (0 \<le> cc_kick_sec c),
      sd_remoteport = (if 0 < cc_inline c \<or> cc_interactive c then 0 else cc_remoteport c),
      sd_addresses = cc_multicastaddress c, sd_ports = cc_multicastport c, sd_service = cc_service c,
      sd_pubsec = cc_pub_sec c, sd_kicksec = cc_kick_sec c, chain_services = cc_backend_services c\<rparr>"

datatype chain_mode = ModeExit | ModeInline | ModeInteractive | ModeRemote bool | ModeNone

definition chosen_mode :: "bool \<Rightarrow> chain_config \<Rightarrow> chain_mode" where
  "chosen_mode tools_loaded c =
     (if \<not> tools_loaded then ModeExit
      else if cc_inline c \<noteq> 0 then ModeInline
      else if cc_interactive c then ModeInteractive
      else if cc_remote c \<noteq> 0 then ModeRemote (cc_remote c = 2)
      else ModeNone)"

section \<open>Remote control\<close>

definition request_command :: "('o, 'u) sd_lib \<Rightarrow> string \<Rightarrow> string" where
  "request_command lib t =
     (let rr = sd_parse lib t (sd_empty lib) in
      if got (sd_get lib ''msg_type'' rr) [] = ''Command'' then got (sd_get lib ''msg_value'' rr) [] else ''NULL'')"

text \<open>The names in the list of commands, from its 20th character on, and the buttons made of them.\<close>

fun split_names :: "string \<Rightarrow> string \<Rightarrow> string list" where
  "split_names tmp [] = []"
| "split_names tmp (c # cs) =
     (let tmp = (if c \<noteq> CHR '','' \<and> c \<noteq> CHR '' '' then tmp @ [c] else tmp) in
      if c = CHR '','' \<or> cs = [] then tmp # split_names [] cs else split_names tmp cs)"

definition button :: "string \<Rightarrow> string" where
  "button name =
     ''{'' @ [CHR 0x22] @ ''name'' @ [CHR 0x22] @ '':'' @ [CHR 0x22] @ name @ [CHR 0x22] @ '',''
     @ [CHR 0x22] @ ''type'' @ [CHR 0x22] @ '':'' @ [CHR 0x22] @ ''BUTTON'' @ [CHR 0x22] @ ''}''"

definition command_buttons :: "string \<Rightarrow> string" where
  "command_buttons text = ''['' @ join_comma (map button (split_names [] (drop 20 text))) @ '']''"

text \<open>The reply; \<open>destring\<close> is \<open>Destring\<close>, which marks a value as not quoted.\<close>

definition reply_store ::
    "('o, 'u) sd_lib \<Rightarrow> (string \<Rightarrow> 'o \<Rightarrow> 'o) \<Rightarrow> 'u \<Rightarrow> int \<Rightarrow> string \<Rightarrow> string \<Rightarrow> string \<Rightarrow> 'o" where
  "reply_store lib destring uuid msg_id time t result =
     (let bb = sd_set_text lib ''msg_value'' result (sd_set_text lib ''msg_type'' ''Command Reply''
                 (sd_set_text lib ''msg_time'' time (sd_set_int lib ''msg_id'' msg_id
                   (sd_set_text lib ''uuid'' (sd_uuid_text lib uuid) (sd_empty lib)))));
          var1 = got (sd_get lib ''var1'' (sd_parse lib t (sd_empty lib))) []
      in if request_command lib t = ''?'' \<and> var1 = ''JSON'' then
           destring ''msg_value''
             (sd_set_text lib ''msg_value'' (command_buttons (got (sd_get lib ''msg_value'' bb) [])) bb)
         else bb)"

text \<open>The loop: the chain, the number of the last message, whether it still runs, whether the socket owes a reply,
  and the replies sent.\<close>

record 'c remote =
  rc_chain :: 'c
  rc_msg_id :: int
  rc_running :: bool
  rc_owes :: bool
  rc_sent :: "string list"

text \<open>One turn: the message received, if any, the time, whether the poll found the socket ready to send, and the
  memory behind the reply. A reply socket that owes a reply throws when it is asked to receive.\<close>

definition Remote_turn ::
    "('o, 'u) sd_lib \<Rightarrow> (string \<Rightarrow> 'o \<Rightarrow> 'o) \<Rightarrow> (string \<Rightarrow> 'c \<Rightarrow> string \<times> 'c) \<Rightarrow> 'u
      \<Rightarrow> string option \<Rightarrow> string \<Rightarrow> bool \<Rightarrow> string \<Rightarrow> 'c remote \<Rightarrow> (unit, 'c remote) cres" where
  "Remote_turn lib destring exec uuid message time pollout junk r =
     (if rc_owes r then Err ()
      else case message of
        None \<Rightarrow> Ok (r\<lparr>rc_chain := snd (exec [] (rc_chain r))\<rparr>)
      | Some m \<Rightarrow>
          (case c_string m of
             None \<Rightarrow> Fault
           | Some t \<Rightarrow>
               let command = request_command lib t;
                   r = r\<lparr>rc_msg_id := rc_msg_id r + 1\<rparr>;
                   (result, chain) = exec command (rc_chain r);
                   reply = sd_write lib (reply_store lib destring uuid (rc_msg_id r) time t result)
               in Ok (r\<lparr>rc_sent := (if pollout then rc_sent r @ [c_message reply junk] else rc_sent r),
                        rc_owes := \<not> pollout,
                        rc_running := (command \<noteq> ''Quit'' \<and> rc_running r),
                        rc_chain := snd (exec [] chain)\<rparr>)))"

fun Remote_loop ::
    "('o, 'u) sd_lib \<Rightarrow> (string \<Rightarrow> 'o \<Rightarrow> 'o) \<Rightarrow> (string \<Rightarrow> 'c \<Rightarrow> string \<times> 'c) \<Rightarrow> 'u
      \<Rightarrow> (string option \<times> string \<times> bool \<times> string) list \<Rightarrow> 'c remote \<Rightarrow> (unit, 'c remote) cres" where
  "Remote_loop lib destring exec uuid [] r = Ok r"
| "Remote_loop lib destring exec uuid ((message, time, pollout, junk) # es) r =
     (if \<not> rc_running r then Ok r
      else cbind (Remote_turn lib destring exec uuid message time pollout junk r) (Remote_loop lib destring exec uuid es))"

text \<open>\<open>Remote\<close> called with a port and addresses: what the service discovery is created with.\<close>

definition Remote_parts :: "chain_config \<Rightarrow> int \<Rightarrow> string list \<Rightarrow> int list \<Rightarrow> 'u chain_parts \<Rightarrow> 'u chain_parts" where
  "Remote_parts c portnum addresses ports p =
     p\<lparr>sd_send := 0 \<le> cc_pub_sec c, sd_receive := 0 \<le> cc_kick_sec c, sd_remoteport := portnum,
       sd_addresses := addresses, sd_ports := ports\<rparr>"

definition Remote_parts_one :: "chain_config \<Rightarrow> int \<Rightarrow> string \<Rightarrow> int \<Rightarrow> 'u chain_parts \<Rightarrow> 'u chain_parts" where
  "Remote_parts_one c portnum address port p = Remote_parts c portnum [address] [port] p"

section \<open>Requests are served\<close>

text \<open>What a chain answers to a sequence of requests: each command is executed, followed by the empty command, up
  to \<open>Quit\<close>; the replies carry consecutive numbers.\<close>

fun served ::
    "('o, 'u) sd_lib \<Rightarrow> (string \<Rightarrow> 'o \<Rightarrow> 'o) \<Rightarrow> (string \<Rightarrow> 'c \<Rightarrow> string \<times> 'c) \<Rightarrow> 'u \<Rightarrow> int
      \<Rightarrow> (string \<times> string) list \<Rightarrow> 'c \<Rightarrow> 'o list \<times> 'c" where
  "served lib destring exec uuid n [] c = ([], c)"
| "served lib destring exec uuid n ((t, time) # ts) c =
     (let (result, c) = exec (request_command lib t) c;
          c = snd (exec [] c);
          reply = reply_store lib destring uuid (n + 1) time t result
      in if request_command lib t = ''Quit'' then ([reply], c)
         else let (replies, c) = served lib destring exec uuid (n + 1) ts c in (reply # replies, c))"


text \<open>A reply the socket did not take within two seconds ends the process: the next receive throws.\<close>

lemma unsent_reply_ends_process:
  assumes "\<not> rc_owes r" and "c_string m = Some t"
  shows "\<exists>s. Remote_turn lib destring exec uuid (Some m) time False junk r = Ok s
    \<and> Remote_turn lib destring exec uuid message time' pollout junk' s = Err ()"
  using assms by (cases "exec (request_command lib t) (rc_chain r)") (auto simp: Remote_turn_def Let_def)

section \<open>Buttons\<close>

lemma split_names_word:
  "list_all (\<lambda>c. c \<noteq> CHR '','' \<and> c \<noteq> CHR '' '') w \<Longrightarrow> cs \<noteq> [] \<Longrightarrow> split_names tmp (w @ cs) = split_names (tmp @ w) cs"
  by (induction w arbitrary: tmp) (auto simp: Let_def)

lemma split_names_last:
  "list_all (\<lambda>c. c \<noteq> CHR '','' \<and> c \<noteq> CHR '' '') w \<Longrightarrow> w \<noteq> [] \<Longrightarrow> split_names tmp w = [tmp @ w]"
proof (induction w arbitrary: tmp)
  case (Cons c w)
  then show ?case by (cases w) (auto simp: Let_def)
qed simp

fun comma_list :: "string list \<Rightarrow> string" where
  "comma_list [] = []"
| "comma_list [w] = w"
| "comma_list (w # v # ws) = w @ '', '' @ comma_list (v # ws)"

lemma comma_list_nonempty: "\<forall>w \<in> set ws. w \<noteq> [] \<Longrightarrow> ws \<noteq> [] \<Longrightarrow> comma_list ws \<noteq> []"
  by (induction ws rule: comma_list.induct) auto

text \<open>the list of commands becomes one button each: of a text that has the names from its 20th character on,
  separated by a comma and a space, the reply to a query for JSON has exactly those names, in order.\<close>
theorem buttons_are_the_commands:
  assumes "length prefix = 20" and "\<forall>w \<in> set ws. w \<noteq> [] \<and> list_all (\<lambda>c. c \<noteq> CHR '','' \<and> c \<noteq> CHR '' '') w"
  shows "command_buttons (prefix @ comma_list ws) = ''['' @ join_comma (map button ws) @ '']''"
proof -
  have space: "split_names [] (CHR '' '' # cs) = split_names [] cs" if "cs \<noteq> []" for cs
    using that by (cases cs) (simp_all add: Let_def)
  have "split_names [] (comma_list ws) = ws" if "\<forall>w \<in> set ws. w \<noteq> [] \<and> list_all (\<lambda>c. c \<noteq> CHR '','' \<and> c \<noteq> CHR '' '') w" for ws
    using that
  proof (induction ws rule: comma_list.induct)
    case (2 w)
    then show ?case using split_names_last [of w "[]"] by simp
  next
    case (3 w v ws)
    have "comma_list (v # ws) \<noteq> []" using 3(2) by (intro comma_list_nonempty) auto
    then show ?case
      using 3 split_names_word [of w "'', '' @ comma_list (v # ws)" "[]"] space by (simp add: Let_def)
  qed simp
  then show ?thesis using assms by (simp add: command_buttons_def)
qed

section \<open>Examples\<close>

text \<open>A store that takes every text for a command, and a chain that counts what it executes.\<close>

definition command_lib :: "((string \<times> string) list, nat) sd_lib" where
  "command_lib = texts_lib\<lparr>sd_parse := (\<lambda>t s. [(''msg_type'', ''Command''), (''msg_value'', t)])\<rparr>"

definition counting :: "string \<Rightarrow> nat \<Rightarrow> string \<times> nat" where
  "counting cmd n = (cmd, if cmd = [] then n else Suc n)"


lemma buttons_are_the_commands_witness:
  "command_buttons (''Available commands: '' @ ''Start, Stop'') = ''['' @ button ''Start'' @ '','' @ button ''Stop'' @ '']''"
  using buttons_are_the_commands [of "''Available commands: ''" "[''Start'', ''Stop'']"] by simp

end
