(* ===== verification/RemoteControl.thy ===== *)
theory RemoteControl
  imports ToolDAQChain DAQUtilities ZstdHelpers
begin

text \<open>
  The console from which an operator lists the services that are heard and sends them commands and files
  (\<open>RemoteControl.cpp\<close>). What the service discovery, the sockets and the files of the operator do is an argument;
  one line typed is one turn.
\<close>

section \<open>Reading the line\<close>

text \<open>\<open>operator>>\<close> into an \<open>unsigned int\<close>: a negative number wraps, one that does not fit reads as the largest and
  fails the stream (\<open>Inl\<close>), as does what is not a number, which reads as 0.\<close>

definition read_u32 :: "string \<Rightarrow> u32 + u32 \<times> string" where
  "read_u32 text =
     (let t = dropWhile is_space text;
          (negative, t) = (case t of c # cs \<Rightarrow> if c = CHR ''-'' then (True, cs)
                             else if c = CHR ''+'' then (False, cs) else (False, t) | [] \<Rightarrow> (False, t));
          digits = takeWhile is_digit t;
          n = read_digits 0 digits
      in if digits = [] then Inl 0
         else if 2 ^ 32 \<le> n then Inl (- 1)
         else Inr (if negative then - of_nat n else of_nat n, dropWhile is_digit t))"

text \<open>The number of a service, the command and its argument; \<open>junk\<close> is what the number holds when the line ends
  before it. After a failed read the rest stays empty.\<close>

definition read_request :: "u32 \<Rightarrow> string \<Rightarrow> u32 \<times> string \<times> string" where
  "read_request junk t =
     (if dropWhile is_space t = [] then (junk, [], [])
      else case read_u32 t of
        Inl n \<Rightarrow> (n, [], [])
      | Inr (n, t) \<Rightarrow> let (Send, t) = read_word [] t; (var1, t) = read_word [] t in (n, Send, var1))"

definition read_group_request :: "string \<Rightarrow> string \<times> string \<times> string" where
  "read_group_request t =
     (let (ServiceName, t) = read_word [] t; (Send, t) = read_word [] t; (var1, t) = read_word [] t
      in (ServiceName, Send, var1))"

text \<open>\<open>find\<close> of a text in another.\<close>

fun contains :: "string \<Rightarrow> string \<Rightarrow> bool" where
  "contains sub [] \<longleftrightarrow> sub = []"
| "contains sub (c # cs) \<longleftrightarrow> take (length sub) (c # cs) = sub \<or> contains sub cs"

section \<open>The list of services\<close>

record 'o console =
  cs_services :: "'o list"
  cs_msg_id :: int
  cs_running :: bool

text \<open>The answer of the service discovery, whose first frame is read as an \<open>int\<close>.\<close>

definition read_list :: "frame list \<Rightarrow> string list option" where
  "read_list frames =
     (case frames of
        [] \<Rightarrow> None
      | (number, _) # _ \<Rightarrow> if 2 ^ 31 \<le> le_nat (bytes_of_string (take 4 number)) then Some [] else read_services frames)"

definition list_services :: "('o, 'u) sd_lib \<Rightarrow> string \<Rightarrow> frame list \<Rightarrow> 'o list option" where
  "list_services lib name frames =
     map_option (\<lambda>texts. filter (\<lambda>s. name = [] \<or> name = got (sd_get lib ''msg_value'' s) [])
         (map (\<lambda>t. sd_parse lib t (sd_empty lib)) texts))
       (read_list frames)"

text \<open>A line of the table: number, address, name, status and time.\<close>

definition table_row :: "('o, 'u) sd_lib \<Rightarrow> nat \<Rightarrow> 'o \<Rightarrow> string" where
  "table_row lib i s =
     (let v = \<lambda>k. got (sd_get lib k s) [] in
      ''['' @ nat_str i @ '']  '' @ v ''ip'' @ '' , '' @ v ''msg_value'' @ '' , '' @ v ''status'' @ '' , '' @ v ''msg_time'')"

section \<open>A command to one service\<close>

definition command_store :: "('o, 'u) sd_lib \<Rightarrow> 'u \<Rightarrow> int \<Rightarrow> string \<Rightarrow> string \<Rightarrow> string \<Rightarrow> 'o" where
  "command_store lib uuid msg_id time Send var1 =
     sd_set_text lib ''var1'' var1 (sd_set_text lib ''msg_value'' Send (sd_set_text lib ''msg_type'' ''Command''
       (sd_set_text lib ''msg_time'' time (sd_set_int lib ''msg_id'' msg_id
         (sd_set_text lib ''uuid'' (sd_uuid_text lib uuid) (sd_empty lib))))))"

definition command_endpoint :: "('o, 'u) sd_lib \<Rightarrow> 'o \<Rightarrow> string" where
  "command_endpoint lib s =
     ''tcp://'' @ got (sd_get lib ''ip'' s) [] @ '':'' @ got (sd_get lib ''remote_port'' s) []"

definition file_endpoint :: "('o, 'u) sd_lib \<Rightarrow> 'o \<Rightarrow> string" where
  "file_endpoint lib s = ''tcp://'' @ got (sd_get lib ''ip'' s) [] @ '':24001''"

text \<open>A file as parts of one message, each line but its end with a terminating zero, then an empty part. \<open>sent i\<close> is
  the outcome of the \<open>i\<close>-th send; the lines end at the first that fails. The second byte of the last part is
  not initialised. A file that cannot be opened has no lines.\<close>

fun line_parts :: "(nat \<Rightarrow> bool) \<Rightarrow> nat \<Rightarrow> string list \<Rightarrow> (string \<times> bool) list" where
  "line_parts sent i [] = []"
| "line_parts sent i (l # ls) =
     (if sent i then (c_message l [], True) # line_parts sent (Suc i) ls else [])"

definition send_file :: "(nat \<Rightarrow> bool) \<Rightarrow> char \<Rightarrow> string list option \<Rightarrow> (string \<times> bool) list" where
  "send_file sent junk file = line_parts sent 0 (got file []) @ [([NUL, junk], False)]"

text \<open>What is shown of the reply.\<close>

datatype shown = Timed_out | Not_decompressed string | Answer string | Unshown

definition read_reply :: "('o, 'u) sd_lib \<Rightarrow> decompress_fun option \<Rightarrow> string option \<Rightarrow> (unit, shown) cres" where
  "read_reply lib dctx reply =
     (case reply of
        None \<Rightarrow> Ok Timed_out
      | Some m \<Rightarrow>
          (case ZstdDecompress dctx m DEFAULT_MAX_DECOMPRESSED_SIZE of
             Ok (False, answer) \<Rightarrow> Ok (Not_decompressed answer)
           | Ok (True, answer) \<Rightarrow>
               let rr = sd_parse lib answer (sd_empty lib) in
               Ok (if got (sd_get lib ''msg_type'' rr) [] = ''Command Reply''
                   then Answer (got (sd_get lib ''msg_value'' rr) []) else Unshown)
           | _ \<Rightarrow> Fault))"

text \<open>A whole exchange: where the command goes and its bytes, the parts of the file and where they go, and what is
  shown. The socket throws (\<open>Err\<close>) when it is to receive without having sent.\<close>

record exchange_env =
  ev_time :: string
  ev_sent :: bool
  ev_file :: "string list option"
  ev_parts_sent :: "nat \<Rightarrow> bool"
  ev_junk :: char
  ev_reply :: "string option"

record exchange =
  ex_endpoint :: string
  ex_message :: string
  ex_file :: "(string \<times> (string \<times> bool) list) option"
  ex_shown :: shown

definition exchange_with ::
    "('o, 'u) sd_lib \<Rightarrow> decompress_fun option \<Rightarrow> 'u \<Rightarrow> int \<Rightarrow> string \<Rightarrow> string \<Rightarrow> exchange_env \<Rightarrow> 'o \<Rightarrow> (unit, exchange) cres" where
  "exchange_with lib dctx uuid msg_id Send var1 ev s =
     (if \<not> ev_sent ev then Err ()
      else cbind (read_reply lib dctx (ev_reply ev))
        (\<lambda>shown. Ok \<lparr>ex_endpoint = command_endpoint lib s,
           ex_message = c_message (sd_write lib (command_store lib uuid msg_id (ev_time ev) Send var1)) [],
           ex_file = (if Send = ''File'' then Some (file_endpoint lib s, send_file (ev_parts_sent ev) (ev_junk ev) (ev_file ev)) else None),
           ex_shown = shown\<rparr>))"

section \<open>One line\<close>

text \<open>A command to a group goes to every service that has the text in its name; each has its own number. A reply
  that times out or is not decompressed shows less than for a single service (\<open>group_shown\<close>).\<close>

definition group_shown :: "shown \<Rightarrow> shown" where
  "group_shown s = (case s of Timed_out \<Rightarrow> Unshown | Not_decompressed t \<Rightarrow> Not_decompressed [] | s \<Rightarrow> s)"

fun group_exchanges ::
    "('o, 'u) sd_lib \<Rightarrow> decompress_fun option \<Rightarrow> 'u \<Rightarrow> int \<Rightarrow> string \<Rightarrow> string \<Rightarrow> string \<Rightarrow> (nat \<Rightarrow> exchange_env) \<Rightarrow> nat
      \<Rightarrow> 'o list \<Rightarrow> (unit, exchange list \<times> int) cres" where
  "group_exchanges lib dctx uuid msg_id name Send var1 ev i [] = Ok ([], msg_id)"
| "group_exchanges lib dctx uuid msg_id name Send var1 ev i (s # ss) =
     (if contains name (got (sd_get lib ''msg_value'' s) []) then
        cbind (exchange_with lib dctx uuid (msg_id + 1) Send var1 (ev i) s)
          (\<lambda>e. cbind (group_exchanges lib dctx uuid (msg_id + 1) name Send var1 ev (Suc i) ss)
             (\<lambda>(es, n). Ok (e\<lparr>ex_shown := group_shown (ex_shown e)\<rparr> # es, n)))
      else group_exchanges lib dctx uuid msg_id name Send var1 ev (Suc i) ss)"

datatype console_output =
  Listed "string list" | Blocked | Quitting | Exchanged "exchange list" | Out_of_range | Not_valid

definition console_turn ::
    "('o, 'u) sd_lib \<Rightarrow> decompress_fun option \<Rightarrow> 'u \<Rightarrow> u32 \<Rightarrow> frame list \<Rightarrow> (nat \<Rightarrow> exchange_env) \<Rightarrow> string
      \<Rightarrow> 'o console \<Rightarrow> (unit, console_output \<times> 'o console) cres" where
  "console_turn lib dctx uuid junk frames ev line c =
     (let (Command, input) = read_word [] line in
      if Command = ''List'' then
        (case list_services lib (fst (read_word [] input)) frames of
           None \<Rightarrow> Ok (Blocked, c)
         | Some services \<Rightarrow>
             Ok (Listed (map (\<lambda>(i, s). table_row lib i s) (enumerate 0 services)), c\<lparr>cs_services := services\<rparr>))
      else if Command = ''Quit'' then Ok (Quitting, c\<lparr>cs_running := False\<rparr>)
      else if Command = ''Command'' then
        (let (ServiceNum, Send, var1) = read_request junk input in
         if unat ServiceNum < length (cs_services c) then
           cbind (exchange_with lib dctx uuid (cs_msg_id c + 1) Send var1 (ev (unat ServiceNum)) (cs_services c ! unat ServiceNum))
             (\<lambda>e. Ok (Exchanged [e], c\<lparr>cs_msg_id := cs_msg_id c + 1\<rparr>))
         else Ok (Out_of_range, c))
      else if Command = ''Group'' then
        (let (ServiceName, Send, var1) = read_group_request input in
         cbind (group_exchanges lib dctx uuid (cs_msg_id c) ServiceName Send var1 ev 0 (cs_services c))
           (\<lambda>(es, n). Ok (Exchanged es, c\<lparr>cs_msg_id := n\<rparr>)))
      else Ok (Not_valid, c))"

text \<open>The console reads until \<open>Quit\<close>; past the end of its input every line is empty.\<close>

fun console_loop ::
    "('o, 'u) sd_lib \<Rightarrow> decompress_fun option \<Rightarrow> 'u
      \<Rightarrow> (u32 \<times> frame list \<times> (nat \<Rightarrow> exchange_env) \<times> string) list \<Rightarrow> 'o console
      \<Rightarrow> (unit, console_output list \<times> 'o console) cres" where
  "console_loop lib dctx uuid [] c = Ok ([], c)"
| "console_loop lib dctx uuid ((junk, frames, ev, line) # es) c =
     (if \<not> cs_running c then Ok ([], c)
      else cbind (console_turn lib dctx uuid junk frames ev line c)
        (\<lambda>(out, c). cbind (console_loop lib dctx uuid es c) (\<lambda>(outs, c). Ok (out # outs, c))))"

section \<open>What the console does\<close>

lemma contains_iff_sublist: "contains sub t \<longleftrightarrow> (\<exists>p s. t = p @ sub @ s)"
proof (induction t)
  case (Cons c cs)
  have take: "take (length sub) (c # cs) = sub \<longleftrightarrow> (\<exists>s. c # cs = sub @ s)"
    by (metis append_eq_conv_conj append_take_drop_id)
  have "(\<exists>p s. c # cs = p @ sub @ s) \<longleftrightarrow> (\<exists>s. c # cs = sub @ s) \<or> (\<exists>p s. cs = p @ sub @ s)"
    by (auto simp: Cons_eq_append_conv)
  then show ?case by (simp only: contains.simps take Cons.IH)
qed auto

lemma contains_empty [simp]: "contains [] t" by (cases t) simp_all

lemma read_word_nothing: "dropWhile is_space t = [] \<Longrightarrow> read_word old t = (old, [])"
  by (simp add: read_word_def)

text \<open>A line that does not start with a number after \<open>Command\<close> sends the empty command to the first service.\<close>

lemma no_number_means_first:
  assumes "c \<noteq> CHR ''-''" "c \<noteq> CHR ''+''" "\<not> is_digit c" "\<not> is_space c"
  shows "read_request junk (CHR '' '' # c # cs) = (0, [], [])"
proof -
  have "is_space CHR '' ''" by (simp add: is_space_def)
  then show ?thesis using assms by (simp add: read_request_def read_u32_def)
qed

text \<open>At the end of the input the console goes on for ever, without sending anything.\<close>

lemma end_of_input_spins:
  assumes "cs_running c" and "\<forall>(junk, frames, ev, line) \<in> set es. line = []"
  shows "console_loop lib dctx uuid es c = Ok (replicate (length es) Not_valid, c)"
  using assms by (induction es) (auto simp: console_turn_def read_word_def)

lemma group_exchanges_targets:
  "group_exchanges lib dctx uuid msg_id name Send var1 ev i ss = Ok (es, n) \<Longrightarrow>
     map ex_endpoint es = map (command_endpoint lib) (filter (\<lambda>s. contains name (got (sd_get lib ''msg_value'' s) [])) ss)
     \<and> n = msg_id + int (length es)"
proof (induction ss arbitrary: msg_id i es n)
  case (Cons s ss)
  show ?case
  proof (cases "contains name (got (sd_get lib ''msg_value'' s) [])")
    case True
    obtain e fs where e: "exchange_with lib dctx uuid (msg_id + 1) Send var1 (ev i) s = Ok e"
      "group_exchanges lib dctx uuid (msg_id + 1) name Send var1 ev (Suc i) ss = Ok (fs, n)"
      "es = e\<lparr>ex_shown := group_shown (ex_shown e)\<rparr> # fs"
      using Cons.prems True by (auto simp: cbind_eq_Ok)
    have "ex_endpoint e = command_endpoint lib s"
      using e(1) by (auto simp: exchange_with_def cbind_eq_Ok split: if_splits)
    then show ?thesis using Cons.IH [OF e(2)] e(3) True by simp
  next
    case False
    then show ?thesis using Cons.IH [of msg_id "Suc i" es n] Cons.prems by simp
  qed
qed simp

end
