(* ===== verification/NodeDaemon.thy ===== *)
theory NodeDaemon
  imports ToolDAQChain
begin

text \<open>
  The daemon that starts and stops tool chains on a computer and receives files for it (\<open>NodeDaemon.cpp\<close>). What
  \<open>fork\<close>, \<open>kill\<close>, the sockets and the files of the computer do is an argument; the state records what the
  daemon did to them.
\<close>

section \<open>State\<close>

text \<open>Besides the variables of \<open>main\<close>: whether the reply socket owes a reply, the parts that wait at the socket for
  files, and the effects: files written, signals, programs started with their process, commands for the
  shell, and replies.\<close>

record node =
  nd_pids :: "int list"
  nd_msg_id :: int
  nd_run :: bool
  nd_owes :: bool
  nd_ftp :: "(string \<times> bool) list"
  nd_files :: "(string \<times> string) list"
  nd_signals :: "(int \<times> int) list"
  nd_started :: "(int \<times> string list) list"
  nd_system :: "string list"
  nd_sent :: "string list"

definition node_start :: node where
  "node_start = \<lparr>nd_pids = [], nd_msg_id = 0, nd_run = True, nd_owes = False, nd_ftp = [], nd_files = [], nd_signals = [],
     nd_started = [], nd_system = [], nd_sent = []\<rparr>"

definition node_service :: "string option \<Rightarrow> string" where
  "node_service argument = got argument [] @ '' Node Daemon''"

section \<open>Processes\<close>

text \<open>\<open>checks i\<close> says, for the process at index \<open>i\<close>, whether it is found before the first signal, before the second,
  and after it. The result is the signals sent and the processes kept.\<close>

function FStop_from :: "(nat \<Rightarrow> bool \<times> bool \<times> bool) \<Rightarrow> nat \<Rightarrow> int list \<Rightarrow> (int \<times> int) list \<times> int list" where
  "FStop_from checks i pids =
     (if i < length pids then
        let p = pids ! i;
            (before, then1, after) = checks i;
            signals = (if before then [(p, 15)] else []) @ (if then1 then [(p, 9)] else []);
            (others, kept) = FStop_from checks (Suc i) (if after then pids else take i pids @ drop (Suc i) pids)
        in (signals @ others, kept)
      else ([], pids))"
  by pat_completeness auto
termination by (relation "measure (\<lambda>(checks, i, pids). length pids - i)") auto

declare FStop_from.simps [simp del]

definition FStop :: "(nat \<Rightarrow> bool \<times> bool \<times> bool) \<Rightarrow> node \<Rightarrow> node" where
  "FStop checks n =
     (let (signals, kept) = FStop_from checks 0 (nd_pids n) in n\<lparr>nd_pids := kept, nd_signals := nd_signals n @ signals\<rparr>)"

text \<open>\<open>Stop\<close> is empty.\<close>

definition Stop_pids :: "node \<Rightarrow> node" where
  "Stop_pids n = n"

text \<open>What \<open>fork\<close> returned and, in the child, whether \<open>execl\<close> did. A process that exits or is replaced is \<open>Err\<close>; a child
  whose \<open>execl\<close> failed goes on as the daemon.\<close>

datatype fork_outcome = Fork_failed | Replaced | Exec_failed | Forked int

definition exec_args :: "string \<Rightarrow> string list" where
  "exec_args configfile = (if configfile = [] then [''./main''] else [''./main'', configfile])"

definition Start_chain :: "fork_outcome \<Rightarrow> string \<Rightarrow> node \<Rightarrow> (unit, string \<times> node) cres" where
  "Start_chain fork configfile n =
     (case fork of
        Fork_failed \<Rightarrow> Err ()
      | Replaced \<Rightarrow> Err ()
      | Exec_failed \<Rightarrow> Ok (''Uh-Oh! execl() failed!'', n)
      | Forked pid \<Rightarrow>
          Ok (''ToolChain Process created with pid '' @ int_str pid @ [CHR 0x0A],
              n\<lparr>nd_pids := nd_pids n @ [pid], nd_started := nd_started n @ [(pid, exec_args configfile)]\<rparr>))"

text \<open>The file of configurations to start at once; \<open>forks i\<close> is the outcome for line \<open>i\<close>.\<close>

fun autostart :: "(nat \<Rightarrow> fork_outcome) \<Rightarrow> nat \<Rightarrow> string list \<Rightarrow> node \<Rightarrow> (unit, node) cres" where
  "autostart forks i [] n = Ok n"
| "autostart forks i (line # ls) n =
     (if take 1 line = ''#'' then autostart forks (Suc i) ls n
      else cbind (Start_chain (forks i) line n) (\<lambda>(ret, n). autostart forks (Suc i) ls n))"

section \<open>Files\<close>

text \<open>A part goes to the file with a newline. Inserting an empty buffer sets the stream's fail bit, and a stream that
  has failed takes nothing more, the newline included.\<close>

definition put_part :: "string \<Rightarrow> string \<times> bool \<Rightarrow> string \<times> bool" where
  "put_part t out =
     (if snd out then out else if t = [] then (fst out, True) else (fst out @ t @ [CHR 0x0A], False))"

text \<open>Parts are taken until the last of a message, or until none comes for two minutes.\<close>

fun receive_parts :: "(string \<times> bool) list \<Rightarrow> string \<times> bool \<Rightarrow> (unit, (string \<times> bool) \<times> (string \<times> bool) list) cres" where
  "receive_parts [] out = Ok (out, [])"
| "receive_parts ((data, parts_follow) # q) out =
     (case c_string data of
        None \<Rightarrow> Fault
      | Some t \<Rightarrow> if parts_follow then receive_parts q (put_part t out) else Ok (put_part t out, q))"

definition receive_file :: "bool \<Rightarrow> string \<Rightarrow> node \<Rightarrow> (unit, node) cres" where
  "receive_file opens path n =
     (if \<not> opens then Ok n
      else cbind (receive_parts (nd_ftp n) ([], False))
        (\<lambda>(out, q). Ok (n\<lparr>nd_ftp := q, nd_files := nd_files n @ [(path, fst out)]\<rparr>)))"

section \<open>Commands\<close>

record turn_env =
  te_time :: string
  te_pollout :: bool
  te_junk :: string
  te_checks :: "nat \<Rightarrow> bool \<times> bool \<times> bool"
  te_checks_end :: "nat \<Rightarrow> bool \<times> bool \<times> bool"
  te_fork :: fork_outcome
  te_opens :: bool

definition node_command :: "turn_env \<Rightarrow> string \<Rightarrow> string \<Rightarrow> node \<Rightarrow> (unit, string \<times> node) cres" where
  "node_command te msg_value var1 n =
     (if msg_value = ''KILL'' then Ok (''Killing NodeDaemon'', n)
      else if msg_value = ''Reboot'' then Ok (''Rebooting Node'', n)
      else if msg_value = ''Status'' then Ok (''Online'', n)
      else if msg_value = ''?'' then
        Ok (''Available commands: Status, Stop, FStop, (Start / Create) Restart, File name, Build, KILL, Reboot '', n)
      else if msg_value = ''FStop'' then Ok (''Forcing ToolChain to Stop'', FStop (te_checks te) n)
      else if msg_value = ''Stop'' then Ok (''Stopping ToolChains'', Stop_pids n)
      else if msg_value = ''Start'' \<or> msg_value = ''Create'' then Start_chain (te_fork te) var1 n
      else if msg_value = ''Restart'' then
        cbind (Start_chain (te_fork te) [] (FStop (te_checks te) (Stop_pids n))) (\<lambda>(ret, n). Ok (''Restarting ToolChan'', n))
      else if msg_value = ''File'' then
        cbind (receive_file (te_opens te) var1 n) (\<lambda>n. Ok (''Receiving file'', n))
      else if msg_value = ''Build'' then
        Ok (''Building ToolChain'', n\<lparr>nd_system := nd_system n @ [''make clean; make'']\<rparr>)
      else Ok (''Command not recognised (Use ? to find valid commands)'', n))"

definition node_reply :: "('o, 'u) sd_lib \<Rightarrow> 'u \<Rightarrow> int \<Rightarrow> string \<Rightarrow> string \<Rightarrow> 'o" where
  "node_reply lib uuid msg_id time ret =
     sd_set_text lib ''msg_value'' ret (sd_set_text lib ''msg_type'' ''Command Reply''
       (sd_set_text lib ''msg_time'' time (sd_set_int lib ''msg_id'' msg_id
         (sd_set_text lib ''uuid'' (sd_uuid_text lib uuid) (sd_empty lib)))))"

definition node_ending :: "turn_env \<Rightarrow> string \<Rightarrow> node \<Rightarrow> node" where
  "node_ending te msg_value n =
     (if msg_value = ''KILL'' then (FStop (te_checks_end te) (Stop_pids n))\<lparr>nd_run := False\<rparr>
      else if msg_value = ''Reboot'' then
        (let n = FStop (te_checks_end te) (Stop_pids n) in n\<lparr>nd_system := nd_system n @ [''reboot --force'']\<rparr>)
      else n)"

definition node_turn :: "('o, 'u) sd_lib \<Rightarrow> 'u \<Rightarrow> turn_env \<Rightarrow> string \<Rightarrow> node \<Rightarrow> (unit, node) cres" where
  "node_turn lib uuid te message n =
     (if nd_owes n then Err ()
      else case c_string message of
        None \<Rightarrow> Fault
      | Some t \<Rightarrow>
          let bb = sd_parse lib t (sd_empty lib);
              msg_value = got (sd_get lib ''msg_value'' bb) [];
              var1 = got (sd_get lib ''var1'' bb) []
          in cbind (node_command te msg_value var1 n)
               (\<lambda>(ret, n). let n = n\<lparr>nd_msg_id := nd_msg_id n + 1\<rparr>;
                     reply = sd_write lib (node_reply lib uuid (nd_msg_id n) (te_time te) ret)
                 in Ok (node_ending te msg_value
                      (n\<lparr>nd_owes := \<not> te_pollout te,
                        nd_sent := (if te_pollout te then nd_sent n @ [c_message reply (te_junk te)] else nd_sent n)\<rparr>))))"

fun node_loop :: "('o, 'u) sd_lib \<Rightarrow> 'u \<Rightarrow> (turn_env \<times> string) list \<Rightarrow> node \<Rightarrow> (unit, node) cres" where
  "node_loop lib uuid [] n = Ok n"
| "node_loop lib uuid ((te, message) # es) n =
     (if \<not> nd_run n then Ok n else cbind (node_turn lib uuid te message n) (node_loop lib uuid es))"

section \<open>Stopping processes\<close>

text \<open>\<open>FStop\<close> over the list itself: the process after one that is erased is left alone.\<close>

fun FStop_walk :: "(nat \<Rightarrow> bool \<times> bool \<times> bool) \<Rightarrow> nat \<Rightarrow> int list \<Rightarrow> (int \<times> int) list \<times> int list" where
  "FStop_walk checks i [] = ([], [])"
| "FStop_walk checks i (p # ps) =
     (let (before, then1, after) = checks i;
          signals = (if before then [(p, 15)] else []) @ (if then1 then [(p, 9)] else []);
          (others, kept) =
            (if after then (let (s, k) = FStop_walk checks (Suc i) ps in (s, p # k))
             else case ps of [] \<Rightarrow> ([], [])
                  | q # qs \<Rightarrow> let (s, k) = FStop_walk checks (Suc i) qs in (s, q # k))
      in (signals @ others, kept))"

lemma FStop_from_walk:
  "FStop_from checks (length pre) (pre @ ps) = (let (s, k) = FStop_walk checks (length pre) ps in (s, pre @ k))"
proof (induction ps arbitrary: pre rule: length_induct)
  case (1 ps)
  show ?case
  proof (cases ps)
    case Nil
    then show ?thesis by (simp add: FStop_from.simps)
  next
    case (Cons p qs)
    obtain before then1 after where c: "checks (length pre) = (before, then1, after)" by (cases "checks (length pre)")
    have IH: "FStop_from checks (length pre') (pre' @ rs) = (let (s, k) = FStop_walk checks (length pre') rs in (s, pre' @ k))"
      if "length rs < length ps" for pre' rs
      using 1 that by blast
    have keep: "FStop_from checks (Suc (length pre)) (pre @ p # qs)
        = (let (s, k) = FStop_walk checks (Suc (length pre)) qs in (s, pre @ p # k))"
      using IH [of qs "pre @ [p]"] Cons by (simp split: prod.splits)
    have skip: "FStop_from checks (Suc (length pre)) (pre @ q # rs)
        = (let (s, k) = FStop_walk checks (Suc (length pre)) rs in (s, pre @ q # k))" if "qs = q # rs" for q rs
      using IH [of rs "pre @ [q]"] Cons that by (simp split: prod.splits)
    have last: "FStop_from checks (Suc (length pre)) pre = ([], pre)" by (simp add: FStop_from.simps)
    have unfold: "FStop_from checks (length pre) (pre @ p # qs) =
        (let (others, kept) = FStop_from checks (Suc (length pre)) (if after then pre @ p # qs else pre @ qs)
         in ((if before then [(p, 15)] else []) @ (if then1 then [(p, 9)] else []) @ others, kept))"
      using c by (subst FStop_from.simps) (simp split: prod.splits)
    show ?thesis
    proof (cases after)
      case True
      then show ?thesis using Cons c by (simp add: unfold keep split: prod.splits)
    next
      case False
      then show ?thesis using Cons c last skip unfold by (cases qs) (simp_all split: prod.splits)
    qed
  qed
qed

lemma FStop_is_walk: "FStop_from checks 0 pids = FStop_walk checks 0 pids"
  using FStop_from_walk [of checks "[]" pids] by (simp split: prod.splits)

lemma FStop_walk_sets:
  "FStop_walk checks i ps = (s, k) \<Longrightarrow> (\<forall>x \<in> set s. fst x \<in> set ps) \<and> set k \<subseteq> set ps"
proof (induction ps arbitrary: i s k rule: length_induct)
  case (1 ps)
  have IH: "(\<forall>x \<in> set s'. fst x \<in> set qs) \<and> set k' \<subseteq> set qs"
    if "length qs < length ps" "FStop_walk checks j qs = (s', k')" for qs j s' k'
    using 1(1) that by blast
  show ?case
  proof (cases ps)
    case (Cons p qs)
    obtain b t a where c: "checks i = (b, t, a)" by (cases "checks i")
    obtain s1 k1 where w1: "FStop_walk checks (Suc i) qs = (s1, k1)" by (cases "FStop_walk checks (Suc i) qs")
    obtain s2 k2 where w2: "FStop_walk checks (Suc i) (tl qs) = (s2, k2)" by (cases "FStop_walk checks (Suc i) (tl qs)")
    have "(\<forall>x \<in> set s1. fst x \<in> set qs) \<and> set k1 \<subseteq> set qs" using IH [OF _ w1] Cons by simp
    moreover have "qs \<noteq> [] \<Longrightarrow> (\<forall>x \<in> set s2. fst x \<in> set (tl qs)) \<and> set k2 \<subseteq> set (tl qs)"
      using IH [OF _ w2] Cons by simp
    ultimately show ?thesis
      using 1(2) Cons c w1 w2 by (cases a; cases qs) (auto split: if_splits)
  qed (use 1(2) in simp)
qed

lemma FStop_walk_append:
  "\<forall>j < length ps. snd (snd (checks (i + j))) \<Longrightarrow>
     \<exists>s'. FStop_walk checks i (ps @ qs) = (let (s, k) = FStop_walk checks (i + length ps) qs in (s' @ s, ps @ k))
       \<and> (\<forall>x \<in> set s'. fst x \<in> set ps)"
proof (induction ps arbitrary: i)
  case (Cons p ps)
  have "\<forall>j < length ps. snd (snd (checks (Suc i + j)))"
    using Cons.prems by (metis Suc_less_eq add_Suc_right add_Suc length_Cons)
  then obtain s' where s': "FStop_walk checks (Suc i) (ps @ qs)
      = (let (s, k) = FStop_walk checks (Suc i + length ps) qs in (s' @ s, ps @ k))" "(\<forall>x \<in> set s'. fst x \<in> set ps)"
    using Cons.IH by blast
  obtain b t where c: "checks i = (b, t, True)"
    using Cons.prems by (cases "checks i") (auto dest: spec [of _ 0])
  show ?case
    using s' c by (intro exI [of _ "((if b then [(p, 15)] else []) @ (if t then [(p, 9)] else [])) @ s'"])
      (auto split: prod.splits)
qed (auto split: prod.splits)

end
