(* ===== verification/RemoteControlProofs.thy ===== *)
theory RemoteControlProofs
  imports RemoteControl NodeDaemon DiscoveryExamples
begin

text \<open>
  The console together with the processes it talks to: a typed command is executed by a tool chain and its
  result shown, and a file arrives at a node daemon.
\<close>

section \<open>Reading what was typed\<close>

lemma read_u32_nat_str:
  assumes "n < 2 ^ 32" and "rest = [] \<or> \<not> is_digit (hd rest)"
  shows "read_u32 (nat_str n @ rest) = Inr (of_nat n, rest)"
proof -
  obtain c cs where d: "nat_str n = c # cs" by (cases "nat_str n") simp_all
  have "is_digit c" "list_all is_digit (nat_str n)" using nat_str_digits [of n] d by simp_all
  moreover have "takeWhile is_digit (nat_str n @ rest) = nat_str n" "dropWhile is_digit (nat_str n @ rest) = rest"
    using nat_str_digits [of n] assms(2) by (cases rest; simp add: list_all_iff)+
  ultimately show ?thesis
    using digit_not_space [of c] assms(1) d read_nat_str [of n]
    unfolding read_u32_def Let_def d append_Cons by simp
qed

definition command_line :: "nat \<Rightarrow> string \<Rightarrow> string \<Rightarrow> string" where
  "command_line i Send var1 = ''Command '' @ nat_str i @ CHR '' '' # Send @ CHR '' '' # var1"

lemma command_line_read:
  assumes "i < 2 ^ 32" and "one_word Send" and "one_word var1"
  shows "read_word [] (command_line i Send var1) = (''Command'', CHR '' '' # nat_str i @ CHR '' '' # Send @ CHR '' '' # var1)"
    and "read_request junk (CHR '' '' # nat_str i @ CHR '' '' # Send @ CHR '' '' # var1) = (of_nat i, Send, var1)"
proof -
  have "one_word ''Command''" by (simp add: one_word_def is_space_def)
  from read_word_word [OF this, of "CHR '' '' # nat_str i @ CHR '' '' # Send @ CHR '' '' # var1"]
  show "read_word [] (command_line i Send var1) = (''Command'', CHR '' '' # nat_str i @ CHR '' '' # Send @ CHR '' '' # var1)"
    by (simp add: command_line_def)
  have "\<not> is_digit CHR '' ''" by (simp add: is_digit_def)
  then have u: "read_u32 (CHR '' '' # nat_str i @ CHR '' '' # Send @ CHR '' '' # var1) = Inr (of_nat i, CHR '' '' # Send @ CHR '' '' # var1)"
    using read_u32_nat_str [OF assms(1), of "CHR '' '' # Send @ CHR '' '' # var1"] by (simp add: read_u32_def)
  show "read_request junk (CHR '' '' # nat_str i @ CHR '' '' # Send @ CHR '' '' # var1) = (of_nat i, Send, var1)"
    using assms(2,3) read_word_word [OF assms(3), of "[]"] dropWhile_space_number [of i "CHR '' '' # Send @ CHR '' '' # var1"]
    by (simp add: read_request_def u read_word_word del: dropWhile_eq_Nil_conv)
qed

lemma console_command:
  assumes "i < length (cs_services c)" and "length (cs_services c) \<le> 2 ^ 32" and "one_word Send" and "one_word var1"
  shows "console_turn lib dctx uuid junk frames ev (command_line i Send var1) c
    = cbind (exchange_with lib dctx uuid (cs_msg_id c + 1) Send var1 (ev i) (cs_services c ! i))
        (\<lambda>e. Ok (Exchanged [e], c\<lparr>cs_msg_id := cs_msg_id c + 1\<rparr>))"
proof -
  have i: "i < 2 ^ 32" using assms(1,2) by (rule less_le_trans)
  then have "unat (of_nat i :: u32) = i" by (simp add: unsigned_of_nat take_bit_nat_eq_self)
  then show ?thesis
    using assms(1) unfolding console_turn_def command_line_read [OF i assms(3,4)] Let_def prod.case
    by (simp add: command_line_read [OF i assms(3,4)])
qed

section \<open>The command arrives\<close>

lemma plain_texts [simp]:
  "plain_text ''uuid''" "plain_text ''msg_id''" "plain_text ''msg_time''" "plain_text ''msg_type''" "plain_text ''msg_value''"
  "plain_text ''var1''" "plain_text ''Command''" "plain_text ''Command Reply''"
  by (simp_all add: plain_text_def plain_char_def)

lemma plain_int_str: "plain_text (int_str i)"
  using plain_nat_str by (auto simp: int_str_def plain_text_def plain_char_def)

lemma command_store_get:
  assumes "sd_laws lib"
  shows "sd_get lib k (command_store lib uuid n time Send var1) =
    (if k = ''var1'' then Some var1 else if k = ''msg_value'' then Some Send else if k = ''msg_type'' then Some ''Command''
     else if k = ''msg_time'' then Some time else if k = ''msg_id'' then Some (int_str n)
     else if k = ''uuid'' then Some (sd_uuid_text lib uuid) else None)"
  by (simp add: command_store_def sd_lawsD [OF assms])

lemma command_store_plain:
  assumes "sd_laws lib" and "plain_text time" and "plain_text Send" and "plain_text var1"
  shows "plain_store lib (command_store lib uuid n time Send var1)"
  unfolding plain_store_def command_store_get [OF assms(1)]
  using assms(2-4) sd_lawsD(11) [OF assms(1)] plain_int_str by auto

lemma c_message_plain: "NUL \<notin> set t \<Longrightarrow> c_message t [] = t @ [NUL]"
proof -
  assume "NUL \<notin> set t"
  then have "takeWhile (\<lambda>c. c \<noteq> NUL) t = t" by (auto simp: takeWhile_eq_all_conv)
  then show ?thesis by (simp add: c_message_def)
qed

lemma command_received:
  assumes "sd_laws lib" and "plain_text time" and "plain_text Send" and "plain_text var1"
  shows "c_string (c_message (sd_write lib (command_store lib uuid n time Send var1)) [])
      = Some (sd_write lib (command_store lib uuid n time Send var1))"
    and "sd_get lib k (sd_parse lib (sd_write lib (command_store lib uuid n time Send var1)) (sd_empty lib))
      = sd_get lib k (command_store lib uuid n time Send var1)"
proof -
  have p: "plain_store lib (command_store lib uuid n time Send var1)" by (rule command_store_plain [OF assms])
  show "c_string (c_message (sd_write lib (command_store lib uuid n time Send var1)) [])
      = Some (sd_write lib (command_store lib uuid n time Send var1))"
    using sd_write_parse(3) [OF assms(1) p] by (simp add: c_message_plain c_string_terminated)
  show "sd_get lib k (sd_parse lib (sd_write lib (command_store lib uuid n time Send var1)) (sd_empty lib))
      = sd_get lib k (command_store lib uuid n time Send var1)"
    using sd_write_parse(1) [OF assms(1) p] by (simp add: sd_lawsD [OF assms(1)] split: option.split)
qed

section \<open>The reply arrives\<close>

text \<open>The reply is not compressed, and its terminating zero is given to the JSON parser with it, which must ignore
  it.\<close>

definition zero_ignored :: "('o, 'u) sd_lib \<Rightarrow> bool" where
  "zero_ignored lib \<longleftrightarrow>
     (\<forall>s t. plain_store lib s \<longrightarrow> sd_parse lib (sd_write lib s @ [NUL]) t = sd_parse lib (sd_write lib s) t)"

lemma object_not_compressed: "\<not> looks_compressed (CHR ''{'' # rest)"
  by (auto simp: looks_compressed_def ZSTD_MAGIC_BYTES_def bytes_of_string_def take_map)

lemma reply_is_read:
  assumes "sd_laws lib" and "zero_ignored lib" and "plain_store lib s"
    and "sd_get lib ''msg_type'' s = Some ''Command Reply''" and "sd_get lib ''msg_value'' s = Some v"
  shows "read_reply lib dctx (Some (c_message (sd_write lib s) [])) = Ok (Answer v)"
proof -
  obtain rest where w: "sd_write lib s = CHR ''{'' # rest" using sd_write_parse(2) [OF assms(1,3)] by blast
  have z: "sd_parse lib (CHR ''{'' # rest @ [NUL]) t = sd_parse lib (CHR ''{'' # rest) t" for t
    using assms(2,3) w unfolding zero_ignored_def by (metis append_Cons)
  have n: "NUL \<notin> set (CHR ''{'' # rest)" using sd_write_parse(3) [OF assms(1,3)] w by simp
  show ?thesis
    using sd_write_parse(1) [OF assms(1,3), of _ "sd_empty lib"] assms(4,5)
    by (simp add: read_reply_def w c_message_plain [OF n] ZstdDecompress_def object_not_compressed z)
qed

lemma reply_store_get:
  assumes "sd_laws lib" and "\<not> (request_command lib t = ''?'' \<and> got (sd_get lib ''var1'' (sd_parse lib t (sd_empty lib))) [] = ''JSON'')"
  shows "sd_get lib k (reply_store lib destring uuid n time t result) =
    (if k = ''msg_value'' then Some result else if k = ''msg_type'' then Some ''Command Reply''
     else if k = ''msg_time'' then Some time else if k = ''msg_id'' then Some (int_str n)
     else if k = ''uuid'' then Some (sd_uuid_text lib uuid) else None)"
proof -
  have "reply_store lib destring uuid n time t result
      = sd_set_text lib ''msg_value'' result (sd_set_text lib ''msg_type'' ''Command Reply''
          (sd_set_text lib ''msg_time'' time (sd_set_int lib ''msg_id'' n
            (sd_set_text lib ''uuid'' (sd_uuid_text lib uuid) (sd_empty lib)))))"
    unfolding reply_store_def Let_def by (rule if_not_P [OF assms(2)])
  then show ?thesis by (simp add: sd_lawsD [OF assms(1)])
qed


section \<open>A file arrives\<close>

definition lines_text :: "string list \<Rightarrow> string" where
  "lines_text ls = concat (map (\<lambda>l. l @ [CHR 0x0A]) ls)"

lemma receive_after_failure:
  assumes "\<forall>l \<in> set ls. NUL \<notin> set l" and "\<forall>k. sent k"
  shows "receive_parts (line_parts sent i ls @ ([NUL, junk], False) # q) (content, True) = Ok ((content, True), q)"
  using assms
proof (induction ls arbitrary: i)
  case Nil
  then show ?case using c_string_append [of "[]" "[junk]"] by (simp add: put_part_def)
next
  case (Cons l ls)
  then show ?case by (simp add: c_message_plain c_string_terminated put_part_def)
qed

lemma receive_lines:
  assumes "\<forall>l \<in> set ls. NUL \<notin> set l" and "\<forall>k. sent k"
  shows "receive_parts (line_parts sent i ls @ ([NUL, junk], False) # q) (content, False)
    = Ok ((content @ lines_text (takeWhile (\<lambda>l. l \<noteq> []) ls), True), q)"
  using assms
proof (induction ls arbitrary: i content)
  case Nil
  then show ?case using c_string_append [of "[]" "[junk]"] by (simp add: put_part_def lines_text_def)
next
  case (Cons l ls)
  have sent: "sent = (\<lambda>a. True)" using Cons.prems(2) by auto
  have "receive_parts (line_parts sent (Suc i) ls @ ([NUL, junk], False) # q) (content, True) = Ok ((content, True), q)"
    using Cons.prems by (intro receive_after_failure) auto
  then show ?case
    using Cons by (simp add: sent c_message_plain c_string_terminated put_part_def lines_text_def)
qed

text \<open>a file sent with \<open>File\<close> arrives up to its first empty line: when the parts the console sends wait at the
  daemon, the daemon that gets the console's command writes under the path exactly the lines before the
  first empty one, each with a newline, and takes all the parts; without an empty line that is the
  whole file.\<close>
theorem file_arrives_up_to_empty_line:
  assumes "sd_laws lib" and "i < length (cs_services c)" and "length (cs_services c) \<le> 2 ^ 32"
    and "one_word path" and "plain_text path" and "plain_text (ev_time (ev i))"
    and "console_turn lib dctx uuid junk frames ev (command_line i ''File'' path) c = Ok (Exchanged es, c')"
    and "ev_file (ev i) = Some ls" and "\<forall>k. ev_parts_sent (ev i) k" and "\<forall>l \<in> set ls. NUL \<notin> set l"
    and "\<not> nd_owes n" and "te_opens te"
  shows "\<exists>e endpoint parts n'. es = [e] \<and> ex_file e = Some (endpoint, parts)
    \<and> node_turn lib uuid' te (ex_message e) (n\<lparr>nd_ftp := parts\<rparr>) = Ok n'
    \<and> nd_files n' = nd_files n @ [(path, lines_text (takeWhile (\<lambda>l. l \<noteq> []) ls))] \<and> nd_ftp n' = []"
proof -
  have f: "one_word ''File''" "plain_text ''File''" by (simp_all add: one_word_def is_space_def plain_text_def plain_char_def)
  obtain e where e: "exchange_with lib dctx uuid (cs_msg_id c + 1) ''File'' path (ev i) (cs_services c ! i) = Ok e" "es = [e]"
    using assms(7) unfolding console_command [OF assms(2,3) f(1) assms(4)] by (auto simp: cbind_eq_Ok)
  let ?s = "command_store lib uuid (cs_msg_id c + 1) (ev_time (ev i)) ''File'' path"
  have m: "ex_message e = c_message (sd_write lib ?s) []"
    "ex_file e = Some (file_endpoint lib (cs_services c ! i), line_parts (ev_parts_sent (ev i)) 0 ls @ [([NUL, ev_junk (ev i)], False)])"
    using e(1) assms(8) by (auto simp: exchange_with_def send_file_def cbind_eq_Ok split: if_splits)
  note got = command_received(2) [OF assms(1,6) f(2) assms(5)] command_store_get [OF assms(1)]
  obtain n' where "node_turn lib uuid' te (ex_message e)
      (n\<lparr>nd_ftp := line_parts (ev_parts_sent (ev i)) 0 ls @ [([NUL, ev_junk (ev i)], False)]\<rparr>) = Ok n'"
    "nd_files n' = nd_files n @ [(path, lines_text (takeWhile (\<lambda>l. l \<noteq> []) ls))]" "nd_ftp n' = []"
    using assms(11,12) receive_lines [OF assms(10,9), of 0 "ev_junk (ev i)" "[]" "[]"]
    by (simp add: node_turn_def m(1) command_received(1) [OF assms(1,6) f(2) assms(5)] got node_command_def
      receive_file_def node_ending_def Let_def)
  then show ?thesis using e(2) m(2) by blast
qed

text \<open>The parts of a file that could not be opened stay at the socket, and become the next file.\<close>

lemma stale_parts_become_next_file:
  assumes "\<forall>l \<in> set ls. NUL \<notin> set l" and "\<forall>k. sent k" and "nd_ftp n = send_file sent junk (Some ls) @ parts"
  shows "receive_file False path1 n = Ok n"
    and "receive_file True path2 n
      = Ok (n\<lparr>nd_ftp := parts, nd_files := nd_files n @ [(path2, lines_text (takeWhile (\<lambda>l. l \<noteq> []) ls))]\<rparr>)"
  using receive_lines [OF assms(1,2), of 0 junk parts "[]"] assms(3)
  by (simp_all add: receive_file_def send_file_def)

section \<open>Stopping\<close>

text \<open>stopping passes over a process: when \<open>KILL\<close> finds that a process of its list has ended, every process before
  it being there, the one after it is sent no signal and stays listed while the daemon ends.\<close>
theorem stopping_passes_over_one:
  assumes "c_string message = Some t" and "sd_get lib ''msg_value'' (sd_parse lib t (sd_empty lib)) = Some ''KILL''"
    and "\<not> nd_owes n" and "nd_pids n = ps @ p # q # qs" and "q \<notin> set ps \<union> {p} \<union> set qs"
    and "\<forall>j < length ps. snd (snd (te_checks_end te j))" and "\<not> snd (snd (te_checks_end te (length ps)))"
  shows "\<exists>n'. node_turn lib uuid te message n = Ok n' \<and> \<not> nd_run n' \<and> q \<in> set (nd_pids n')
    \<and> (\<forall>k. (q, k) \<in> set (nd_signals n') \<longrightarrow> (q, k) \<in> set (nd_signals n))"
proof -
  obtain b1 t1 where c: "te_checks_end te (length ps) = (b1, t1, False)"
    using assms(7) by (cases "te_checks_end te (length ps)") auto
  obtain s k where w: "FStop_walk (te_checks_end te) (Suc (length ps)) qs = (s, k)"
    by (cases "FStop_walk (te_checks_end te) (Suc (length ps)) qs")
  obtain s' where s': "FStop_walk (te_checks_end te) 0 (ps @ p # q # qs)
      = (let (s, k) = FStop_walk (te_checks_end te) (length ps) (p # q # qs) in (s' @ s, ps @ k))"
    "\<forall>x \<in> set s'. fst x \<in> set ps"
    using FStop_walk_append [of ps "te_checks_end te" 0 "p # q # qs"] assms(6) by auto
  let ?sig = "(if b1 then [(p, 15)] else []) @ (if t1 then [(p, 9)] else []) @ s"
  have from_walk: "FStop_from (te_checks_end te) 0 (nd_pids n) = (s' @ ?sig, ps @ q # k)"
    using s'(1) w c by (simp add: FStop_is_walk assms(4))
  have "(q, x) \<notin> set (s' @ ?sig)" for x
    using s'(2) FStop_walk_sets [OF w] assms(5) by (auto split: if_splits)
  then show ?thesis
    using assms(1-3) from_walk
    by (auto simp: node_turn_def node_command_def node_ending_def FStop_def Stop_pids_def Let_def)
qed

section \<open>Examples\<close>

lemma quoted_end: "CHR 0x22 \<notin> set t \<Longrightarrow> quoted acc t = []"
  by (induction t arbitrary: acc) auto

lemma quoted_snoc: "c \<noteq> CHR 0x22 \<Longrightarrow> quoted acc (t @ [c]) = quoted acc t"
  by (induction t arbitrary: acc) auto

lemma demo_lib_zero_ignored: "zero_ignored demo_lib"
  by (auto simp: zero_ignored_def demo_write_def NUL_def quoted_snoc simp flip: append_assoc)

definition demo_console :: "(string \<times> string) list console" where
  "demo_console = \<lparr>cs_services = [[(''msg_value'', ''daq'')]], cs_msg_id = 4, cs_running = True\<rparr>"

definition demo_ev :: "string option \<Rightarrow> exchange_env" where
  "demo_ev reply = \<lparr>ev_time = ''T'', ev_sent = True, ev_file = Some [''ab'', [], ''c''], ev_parts_sent = (\<lambda>k. True), ev_junk = CHR ''x'',
     ev_reply = reply\<rparr>"

definition demo_remote :: "nat remote" where
  "demo_remote = \<lparr>rc_chain = 0, rc_msg_id = 0, rc_running = True, rc_owes = False, rc_sent = []\<rparr>"

lemma demo_words [simp]:
  "plain_text ''T''" "plain_text ''Start''" "plain_text ''x''" "one_word ''Start''" "one_word ''x''"
  by (simp_all add: plain_text_def plain_char_def one_word_def is_space_def)


definition demo_turn :: turn_env where
  "demo_turn = \<lparr>te_time = ''T'', te_pollout = True, te_junk = [], te_checks = (\<lambda>i. (False, False, False)),
     te_checks_end = (\<lambda>i. (False, False, False)), te_fork = Forked 9, te_opens = True\<rparr>"

lemma file_arrives_up_to_empty_line_witness:
  "\<exists>e endpoint parts n'. console_turn demo_lib None 7 0 [] (\<lambda>i. demo_ev None) (command_line 0 ''File'' ''x'') demo_console
       = Ok (Exchanged [e], demo_console\<lparr>cs_msg_id := 5\<rparr>)
     \<and> ex_file e = Some (endpoint, parts)
     \<and> node_turn demo_lib 8 demo_turn (ex_message e) (node_start\<lparr>nd_ftp := parts\<rparr>) = Ok n'
     \<and> nd_files n' = [(''x'', ''ab'' @ [CHR 0x0A])]"
proof -
  have h: "0 < length (cs_services demo_console)" "length (cs_services demo_console) \<le> 2 ^ 32" "cs_msg_id demo_console = 4"
    by (simp_all add: demo_console_def)
  have v: "ev_time (demo_ev None) = ''T''" "ev_file (demo_ev None) = Some [''ab'', [], ''c'']" "\<forall>k. ev_parts_sent (demo_ev None) k"
    by (simp_all add: demo_ev_def)
  have "one_word ''File''" by (simp add: one_word_def is_space_def)
  then obtain e where e: "console_turn demo_lib None 7 0 [] (\<lambda>i. demo_ev None) (command_line 0 ''File'' ''x'') demo_console
      = Ok (Exchanged [e], demo_console\<lparr>cs_msg_id := 5\<rparr>)"
    using console_command [OF h(1,2), of "''File''" "''x''" demo_lib None "7::nat" 0 "[]" "\<lambda>i. demo_ev None"] h(3)
    by (simp add: exchange_with_def read_reply_def demo_ev_def del: demo_lib_sels)
  have "\<exists>e' endpoint parts n'. [e] = [e'] \<and> ex_file e' = Some (endpoint, parts)
    \<and> node_turn demo_lib 8 demo_turn (ex_message e') (node_start\<lparr>nd_ftp := parts\<rparr>) = Ok n'
    \<and> nd_files n' = nd_files node_start @ [(''x'', lines_text (takeWhile (\<lambda>l. l \<noteq> []) [''ab'', [], ''c'']))] \<and> nd_ftp n' = []"
    by (rule file_arrives_up_to_empty_line [OF demo_lib_laws h(1,2) _ _ _ e])
      (simp_all add: v NUL_def node_start_def demo_turn_def)
  then show ?thesis using e by (auto simp: node_start_def lines_text_def)
qed

definition kill_lib :: "((string \<times> string) list, nat) sd_lib" where
  "kill_lib = texts_lib\<lparr>sd_parse := (\<lambda>t s. [(''msg_value'', t)])\<rparr>"

lemma stopping_passes_over_one_witness:
  "\<exists>n'. node_turn kill_lib 8 demo_turn (''KILL'' @ [NUL]) (node_start\<lparr>nd_pids := [1, 2]\<rparr>) = Ok n'
     \<and> \<not> nd_run n' \<and> 2 \<in> set (nd_pids n') \<and> nd_signals n' = []"
proof -
  let ?n = "node_start\<lparr>nd_pids := [1, 2]\<rparr>"
  have "c_string (''KILL'' @ [NUL]) = Some ''KILL''" by (rule c_string_terminated) (simp add: NUL_def)
  then have "\<exists>n'. node_turn kill_lib 8 demo_turn (''KILL'' @ [NUL]) ?n = Ok n' \<and> \<not> nd_run n' \<and> 2 \<in> set (nd_pids n')
    \<and> (\<forall>k. (2, k) \<in> set (nd_signals n') \<longrightarrow> (2, k) \<in> set (nd_signals ?n))"
    by (rule stopping_passes_over_one [where t = "''KILL''" and ps = "[]" and p = 1 and qs = "[]"])
      (simp_all add: kill_lib_def texts_lib_def node_start_def demo_turn_def)
  then obtain n' where n: "node_turn kill_lib 8 demo_turn (''KILL'' @ [NUL]) ?n = Ok n'" "\<not> nd_run n'" "2 \<in> set (nd_pids n')"
    by blast
  have "nd_signals n' = []"
    using n(1) c_string_terminated [of "''KILL''"] by (auto simp: node_turn_def node_command_def node_ending_def FStop_def Stop_pids_def
      FStop_is_walk kill_lib_def texts_lib_def node_start_def demo_turn_def NUL_def Let_def)
  with n show ?thesis by blast
qed

end
