(* ===== verification/UserTools.thy ===== *)
theory UserTools
  imports DAQUtilities Simulation
begin

text \<open>
  The tools that come with the framework (\<open>src/UserTools\<close>): the factory, a tool that shows remote log lines, two
  that register a service, the template of a tool with a pool of threads, and the program that shows what
  a multicast socket receives (\<open>MCDebug.cpp\<close>). Variables of the configuration are a function; sockets
  that were polled ready do not fail.
\<close>

section \<open>The factory\<close>

datatype tool = DummyTool | Logger | ServiceAdd

definition Factory :: "string \<Rightarrow> tool option" where
  "Factory name =
     (let ret = None;
          ret = (if name = ''DummyTool'' then Some DummyTool else ret);
          ret = (if name = ''Logger'' then Some Logger else ret);
          ret = (if name = ''ServiceAdd'' then Some ServiceAdd else ret)
      in ret)"

text \<open>The configuration a process starts from.\<close>

definition main_conffile :: "string list \<Rightarrow> string" where
  "main_conffile argv = (if length argv = 1 then ''configfiles/Dummy/ToolChainConfig'' else argv ! 1)"

section \<open>Tools that register a service\<close>

text \<open>\<open>snprintf\<close> into a message of \<open>n\<close> bytes, at most one more than the text has: \<open>n - 1\<close> characters and a zero.\<close>

definition snprintf_message :: "nat \<Rightarrow> string \<Rightarrow> string" where
  "snprintf_message n t = (if n = 0 then [] else take (n - 1) t @ [NUL])"

text \<open>The first message is made one byte too short.\<close>

definition ServiceAdd_text :: "('o, 'u) sd_lib \<Rightarrow> 'u \<Rightarrow> string" where
  "ServiceAdd_text lib uuid = ''Add testservice '' @ sd_uuid_text lib uuid @ '' 1111 0''"

definition ServiceAdd_Initialise :: "('o, 'u) sd_lib \<Rightarrow> 'u \<Rightarrow> string" where
  "ServiceAdd_Initialise lib uuid =
     (let test = ServiceAdd_text lib uuid in snprintf_message (length test) test)"

definition ServiceAdd_Finalise :: string where
  "ServiceAdd_Finalise = (let test = ''Delete testservice '' in snprintf_message (length test + 1) test)"

text \<open>The template: a socket of its own, and the registration of the helper class. \<open>sent\<close> is the outcome of its
  send. The results are what the tool returns, the endpoint bound, and the message.\<close>

definition MyToolServiceAdd_Initialise ::
    "('o, 'u) sd_lib \<Rightarrow> (string \<Rightarrow> u32 option) \<Rightarrow> 'u \<Rightarrow> bool \<Rightarrow> bool \<times> string \<times> string" where
  "MyToolServiceAdd_Initialise lib get_var uuid sent =
     (let port = got (get_var ''Port'') 5555;
          text = AddService_text lib ''MyService'' uuid port False
      in (sent, ''tcp://*:'' @ nat_str (unat port), snprintf_message (length text + 1) text))"

definition MyToolServiceAdd_Finalise :: "bool \<Rightarrow> bool \<times> string" where
  "MyToolServiceAdd_Finalise sent =
     (let text = RemoveService_text ''MyService'' in (sent, snprintf_message (length text + 1) text))"

section \<open>A tool that shows log lines\<close>

definition Logger_endpoint :: "int \<Rightarrow> string" where
  "Logger_endpoint log_port = ''tcp://*:'' @ int_str log_port"

text \<open>What is put into the log: the message, and the text of it. \<open>None\<close> is a read past the message.\<close>

definition Logger_Execute :: "('o, 'u) sd_lib \<Rightarrow> string option \<Rightarrow> string list option" where
  "Logger_Execute lib message =
     (case message of
        None \<Rightarrow> Some []
      | Some m \<Rightarrow>
          map_option (\<lambda>text. let bb = sd_parse lib text (sd_empty lib)
              in [text, got (sd_get lib ''msg_value'' bb) []])
            (c_string m))"

section \<open>A tool with a pool of threads\<close>

record multi_thread =
  m_freethreads :: int
  mt_threads :: "string list" \<comment> \<open>the names of the threads, in the order of their arguments\<close>

definition MyToolZMQMultiThread_Initialise :: "(string \<Rightarrow> int option) \<Rightarrow> multi_thread" where
  "MyToolZMQMultiThread_Initialise get_var =
     (let threadcount = got (get_var ''Threads'') 4
      in \<lparr>m_freethreads = threadcount, mt_threads = map (\<lambda>i. CHR ''T'' # nat_str i) [0..<nat threadcount]\<rparr>)"

definition greeting :: string where
  "greeting = snprintf_message 3 ''HI''"

definition hello :: string where
  "hello = snprintf_message 6 ''hello''"

text \<open>A turn takes at most one reply, then gives out at most one task. The results: what is logged, whether a task
  was sent, and the tool.\<close>

definition take_reply :: "string option \<Rightarrow> multi_thread \<Rightarrow> (string list \<times> multi_thread) option" where
  "take_reply reply s =
     (case reply of
        None \<Rightarrow> Some ([], s)
      | Some m \<Rightarrow> map_option (\<lambda>t. ([''reply = '' @ t], s\<lparr>m_freethreads := m_freethreads s + 1\<rparr>)) (c_string m))"

definition give_task :: "bool \<Rightarrow> multi_thread \<Rightarrow> string option \<times> multi_thread" where
  "give_task writable s =
     (if writable \<and> 0 < m_freethreads s then (Some greeting, s\<lparr>m_freethreads := m_freethreads s - 1\<rparr>) else (None, s))"

definition MyToolZMQMultiThread_Execute ::
    "string option \<Rightarrow> bool \<Rightarrow> multi_thread \<Rightarrow> (string list \<times> string option \<times> multi_thread) option" where
  "MyToolZMQMultiThread_Execute reply writable s =
     map_option (\<lambda>(log, s).
         let (task, s) = give_task writable s
         in (log @ [''free threads='' @ int_str (m_freethreads s) @ '':'' @ nat_str (length (mt_threads s))], task, s))
       (take_reply reply s)"

text \<open>One turn of a thread: the task it was sent, if any, and whether its socket becomes ready in time. Out comes
  the reply; a reply that cannot be sent is dropped.\<close>

definition MyToolZMQMultiThread_Thread :: "string option \<Rightarrow> bool \<Rightarrow> string option option" where
  "MyToolZMQMultiThread_Thread task writable =
     (case task of
        None \<Rightarrow> Some None
      | Some m \<Rightarrow> map_option (\<lambda>_. if writable then Some hello else None) (c_string m))"

definition MyToolZMQMultiThread_Finalise :: "multi_thread \<Rightarrow> multi_thread" where
  "MyToolZMQMultiThread_Finalise s = s\<lparr>mt_threads := []\<rparr>"

section \<open>The pool in operation\<close>

text \<open>The tool, the tasks on their way to each thread, what each thread works on, the replies on their way, and the
  number of replies that were dropped.\<close>

record pool =
  po_tool :: multi_thread
  po_inbox :: "string list list"
  po_work :: "string option list"
  po_replies :: "string list"
  po_lost :: nat

definition pool_start :: "multi_thread \<Rightarrow> pool" where
  "pool_start s =
     \<lparr>po_tool = s, po_inbox = map (\<lambda>_. []) (mt_threads s), po_work = map (\<lambda>_. None) (mt_threads s),
      po_replies = [], po_lost = 0\<rparr>"

definition deliver :: "nat \<Rightarrow> string option \<Rightarrow> string list list \<Rightarrow> string list list" where
  "deliver k task inbox = (case task of None \<Rightarrow> inbox | Some m \<Rightarrow> inbox[k := inbox ! k @ [m]])"

text \<open>Steps in any order: a turn of the tool, whose task goes to some thread; a thread takes a task; a thread ends
  its work, with or without a reply.\<close>

inductive pool_step :: "pool \<Rightarrow> pool \<Rightarrow> bool" where
  Turn: "\<lbrakk>MyToolZMQMultiThread_Execute reply writable (po_tool p) = Some (log, task, s);
      po_replies p = (case reply of None \<Rightarrow> rest | Some r \<Rightarrow> r # rest); task \<noteq> None \<longrightarrow> k < length (po_inbox p)\<rbrakk>
    \<Longrightarrow> pool_step p (p\<lparr>po_tool := s, po_replies := rest, po_inbox := deliver k task (po_inbox p)\<rparr>)"
| Take: "\<lbrakk>k < length (po_inbox p); k < length (po_work p); po_inbox p ! k = m # ms; po_work p ! k = None\<rbrakk>
    \<Longrightarrow> pool_step p (p\<lparr>po_inbox := (po_inbox p)[k := ms], po_work := (po_work p)[k := Some m]\<rparr>)"
| End: "\<lbrakk>k < length (po_work p); po_work p ! k = Some m; MyToolZMQMultiThread_Thread (Some m) writable = Some reply\<rbrakk>
    \<Longrightarrow> pool_step p (p\<lparr>po_work := (po_work p)[k := None],
          po_replies := po_replies p @ (case reply of None \<Rightarrow> [] | Some r \<Rightarrow> [r]),
          po_lost := po_lost p + of_bool (reply = None)\<rparr>)"

inductive_cases pool_stepE: "pool_step p p'"

section \<open>The multicast viewer\<close>

text \<open>One datagram: what is printed, \<open>None\<close> for a read past the buffer, and the buffer, of which the datagram
  overwrites the front.\<close>

definition viewer_turn :: "string \<times> string \<Rightarrow> string \<Rightarrow> string option option \<times> string" where
  "viewer_turn input buffer =
     (let (ip, datagram) = input; message = take 512 datagram @ drop (length datagram) buffer
      in (if datagram \<noteq> [] \<and> hd message = CHR ''{''
          then Some (map_option (\<lambda>t. ip @ '': message = '' @ [CHR 0x22] @ t @ [CHR 0x22, CHR 0x0A]) (c_string message))
          else None,
          message))"

text \<open>Over many datagrams; \<open>None\<close> as soon as the buffer is left.\<close>

fun viewer_loop :: "(string \<times> string) list \<Rightarrow> string \<Rightarrow> string list option" where
  "viewer_loop [] buffer = Some []"
| "viewer_loop (d # ds) buffer =
     (case viewer_turn d buffer of
        (None, b) \<Rightarrow> viewer_loop ds b
      | (Some None, b) \<Rightarrow> None
      | (Some (Some line), b) \<Rightarrow> map_option (\<lambda>ls. line # ls) (viewer_loop ds b))"

end
