(* ===== verification/UserToolsProofs.thy ===== *)
theory UserToolsProofs
  imports UserTools DiscoveryExamples
begin

text \<open>
  The tools of the framework at work: which threads of a pool are free, in every interleaving of the tool and its
  threads; what the publisher makes of the registrations; and what the multicast viewer shows.
\<close>

section \<open>Counting threads\<close>

text \<open>What the pool promises, as a specification: threads that are free, tasks that are out, and threads that are
  lost.\<close>

inductive count_step :: "int \<times> nat \<times> nat \<Rightarrow> int \<times> nat \<times> nat \<Rightarrow> bool" where
  Give: "0 < f \<Longrightarrow> count_step (f, n, l) (f - 1, Suc n, l)"
| Back: "count_step (f, Suc n, l) (f + 1, n, l)"
| Lose: "count_step (f, Suc n, l) (f, n, Suc l)"

definition outstanding :: "pool \<Rightarrow> nat" where
  "outstanding p = sum_list (map length (po_inbox p))
     + sum_list (map (\<lambda>w. of_bool (w \<noteq> None)) (po_work p)) + length (po_replies p)"

definition pool_count :: "pool \<Rightarrow> int \<times> nat \<times> nat" where
  "pool_count p = (m_freethreads (po_tool p), outstanding p, po_lost p)"

text \<open>Every message has its terminating zero, and there is one place per thread.\<close>

definition pool_ok :: "pool \<Rightarrow> bool" where
  "pool_ok p \<longleftrightarrow> length (po_inbox p) = length (po_work p)
     \<and> (\<forall>ms \<in> set (po_inbox p). \<forall>m \<in> set ms. NUL \<in> set m)
     \<and> (\<forall>m. Some m \<in> set (po_work p) \<longrightarrow> NUL \<in> set m)
     \<and> (\<forall>m \<in> set (po_replies p). NUL \<in> set m)"

lemma c_string_exists: "(\<exists>t. c_string m = Some t) \<longleftrightarrow> NUL \<in> set m"
  by (simp add: c_string_def)

lemma greeting_terminated [simp]: "NUL \<in> set greeting" "NUL \<in> set hello"
  by (simp_all add: greeting_def hello_def snprintf_message_def)

lemma sum_list_move:
  fixes f :: "'a \<Rightarrow> nat"
  assumes "k < length xs"
  shows "sum_list (map f (xs[k := y])) + f (xs ! k) = sum_list (map f xs) + f y"
proof -
  have "f (xs ! k) \<le> sum_list (map f xs)" using assms by (intro member_le_sum_list) auto
  then show ?thesis using assms by (simp add: map_update sum_list_update)
qed

lemma take_reply_eq:
  "take_reply reply s = Some (log, s')
     \<longleftrightarrow> (reply = None \<and> log = [] \<and> s' = s)
       \<or> (\<exists>m t. reply = Some m \<and> c_string m = Some t \<and> log = [''reply = '' @ t] \<and> s' = s\<lparr>m_freethreads := m_freethreads s + 1\<rparr>)"
  by (auto simp: take_reply_def split: option.splits)

lemma Execute_eq:
  "MyToolZMQMultiThread_Execute reply writable s = Some (log, task, s')
     \<longleftrightarrow> (\<exists>l r. take_reply reply s = Some (l, r) \<and> give_task writable r = (task, s')
          \<and> log = l @ [''free threads='' @ int_str (m_freethreads s') @ '':'' @ nat_str (length (mt_threads s'))])"
proof (cases "take_reply reply s")
  case (Some lr)
  obtain l r where "lr = (l, r)" by (cases lr)
  then show ?thesis using Some
    by (cases "give_task writable r") (auto simp: MyToolZMQMultiThread_Execute_def)
qed (simp add: MyToolZMQMultiThread_Execute_def)

lemma sum_list_deliver:
  "\<lbrakk>k < length inbox\<rbrakk> \<Longrightarrow> sum_list (map length (deliver k (Some m) inbox)) = Suc (sum_list (map length inbox))"
  using sum_list_move [of k inbox length "inbox ! k @ [m]"] by (simp add: deliver_def)

text \<open>A turn takes a reply back, then gives a task out.\<close>

lemma turn_counts:
  assumes "MyToolZMQMultiThread_Execute reply writable (po_tool p) = Some (log, task, s)"
    and "po_replies p = (case reply of None \<Rightarrow> rest | Some r \<Rightarrow> r # rest)" and "task \<noteq> None \<longrightarrow> k < length (po_inbox p)"
  shows "count_step\<^sup>*\<^sup>* (pool_count p) (pool_count (p\<lparr>po_tool := s, po_replies := rest, po_inbox := deliver k task (po_inbox p)\<rparr>))"
proof -
  obtain l r where r: "take_reply reply (po_tool p) = Some (l, r)" "give_task writable r = (task, s)"
    using assms(1) by (auto simp: Execute_eq)
  let ?q = "p\<lparr>po_tool := r, po_replies := rest\<rparr>"
  have "count_step\<^sup>*\<^sup>* (pool_count p) (pool_count ?q)"
    using r(1) assms(2) Back [of "m_freethreads (po_tool p)" "outstanding ?q" "po_lost p"]
    by (auto simp: take_reply_eq pool_count_def outstanding_def)
  moreover have "count_step\<^sup>*\<^sup>* (pool_count ?q) 
      (pool_count (p\<lparr>po_tool := s, po_replies := rest, po_inbox := deliver k task (po_inbox p)\<rparr>))"
  proof (cases "writable \<and> 0 < m_freethreads r")
    case True
    then have "task = Some greeting" "s = r\<lparr>m_freethreads := m_freethreads r - 1\<rparr>" using r(2) by (auto simp: give_task_def)
    then show ?thesis
      using True Give [of "m_freethreads r" "outstanding ?q" "po_lost p"] assms(3)
      by (auto simp: pool_count_def outstanding_def sum_list_deliver)
  next
    case False
    then have "task = None" "s = r" using r(2) by (auto simp: give_task_def)
    then show ?thesis by (simp add: pool_count_def outstanding_def deliver_def)
  qed
  ultimately show ?thesis by (rule rtranclp_trans)
qed

lemma step_counts:
  assumes "pool_ok p" and "pool_step p p'"
  shows "count_step\<^sup>*\<^sup>* (pool_count p) (pool_count p')"
  using assms(2)
proof cases
  case (Turn reply writable log task s rest k)
  then show ?thesis using turn_counts by simp
next
  case (Take k m ms)
  have "sum_list (map length ((po_inbox p)[k := ms])) + 1 = sum_list (map length (po_inbox p))"
    using sum_list_move [OF Take(2), of length ms] Take(4) by simp
  moreover have "sum_list (map (\<lambda>w. of_bool (w \<noteq> None)) ((po_work p)[k := Some m]))
      = sum_list (map (\<lambda>w. of_bool (w \<noteq> None)) (po_work p)) + (1 :: nat)"
    using sum_list_move [OF Take(3), of "\<lambda>w. of_bool (w \<noteq> None)" "Some m"] Take(5) by simp
  ultimately have "pool_count p' = pool_count p" by (simp add: Take(1) pool_count_def outstanding_def)
  then show ?thesis by simp
next
  case (End k m writable reply)
  have "sum_list (map (\<lambda>w. of_bool (w \<noteq> None)) (po_work p)) = Suc (sum_list (map (\<lambda>w. of_bool (w \<noteq> None)) ((po_work p)[k := None])))"
    using sum_list_move [OF End(2), of "\<lambda>w. of_bool (w \<noteq> None)" None] End(3) by simp
  then show ?thesis
    using Lose [of "m_freethreads (po_tool p)" "outstanding p'" "po_lost p"]
    by (cases reply) (auto simp: End(1) pool_count_def outstanding_def)
qed

lemma in_set_update: "x \<in> set (xs[k := y]) \<Longrightarrow> x \<in> set xs \<or> x = y"
  by (metis in_mono insertE set_update_subset_insert)

lemma step_pool_ok:
  assumes "pool_ok p" and "pool_step p p'"
  shows "pool_ok p'"
  using assms(2)
proof cases
  case (Turn reply writable log task s rest k)
  have "task \<in> {None, Some greeting}" using Turn(2) by (auto simp: Execute_eq give_task_def split: if_splits)
  moreover have "set rest \<subseteq> set (po_replies p)" using Turn(3) by (cases reply) auto
  moreover have "NUL \<in> set m" if "k < length (po_inbox p)" "m \<in> set (po_inbox p ! k)" for m
    using assms(1) that nth_mem [of k "po_inbox p"] by (auto simp: pool_ok_def)
  ultimately show ?thesis
    using assms(1) Turn(4) by (auto simp: Turn(1) pool_ok_def deliver_def dest!: in_set_update)
next
  case (Take k m ms)
  have "m # ms \<in> set (po_inbox p)" using Take(2,4) by (metis nth_mem)
  then show ?thesis using assms(1) by (fastforce simp: Take(1) pool_ok_def dest: in_set_update)
next
  case (End k m writable reply)
  have "reply \<in> {None, Some hello}" using End(4) by (auto simp: MyToolZMQMultiThread_Thread_def split: if_splits)
  then show ?thesis using assms(1) by (fastforce simp: End(1) pool_ok_def dest: in_set_update)
qed

interpretation pool_sim: simulation pool_step "count_step\<^sup>*\<^sup>*" pool_count pool_ok
proof
  show "pool_ok c'" if "pool_ok c" "pool_step c c'" for c c' by (rule step_pool_ok [OF that])
  show "count_step\<^sup>*\<^sup>* (pool_count c) (pool_count c') \<or> pool_count c' = pool_count c" if "pool_ok c" "pool_step c c'" for c c'
    using step_counts [OF that] ..
qed

definition counts_to :: "int \<Rightarrow> int \<times> nat \<times> nat \<Rightarrow> bool" where
  "counts_to n c = (case c of (f, out, l) \<Rightarrow> 0 \<le> f \<and> f + int out + int l = n)"

lemma count_steps_keep: "count_step\<^sup>*\<^sup>* c c' \<Longrightarrow> counts_to n c \<Longrightarrow> counts_to n c'"
  by (induction rule: rtranclp_induct) (auto simp: counts_to_def elim!: count_step.cases)

lemma pool_start_ok: "pool_ok (pool_start s)"
  by (auto simp: pool_ok_def pool_start_def)

lemma pool_start_count: "pool_count (pool_start s) = (m_freethreads s, 0, 0)"
  by (simp add: pool_count_def pool_start_def outstanding_def comp_def)

lemma reached_counts:
  assumes "pool_step\<^sup>*\<^sup>* (pool_start s) p" and "0 \<le> m_freethreads s"
  shows "pool_ok p" "0 \<le> m_freethreads (po_tool p)"
    "m_freethreads (po_tool p) + int (outstanding p) + int (po_lost p) = m_freethreads s"
proof -
  have "counts_to (m_freethreads s) (pool_count (pool_start s))" using assms(2) by (simp add: pool_start_count counts_to_def)
  then have "counts_to (m_freethreads s) (pool_count p)"
    using pool_sim.steps_refine [OF assms(1) pool_start_ok] count_steps_keep by (simp add: rtranclp_idemp)
  then show "0 \<le> m_freethreads (po_tool p)" "m_freethreads (po_tool p) + int (outstanding p) + int (po_lost p) = m_freethreads s"
    by (simp_all add: counts_to_def pool_count_def)
  show "pool_ok p" by (rule pool_sim.steps_inv [OF assms(1) pool_start_ok])
qed

section \<open>A pool serves as long as a thread is left\<close>

text \<open>The number of steps that bring a task back.\<close>

lemma reply_frees:
  assumes "pool_ok p" and "po_replies p = r # rs" and "0 \<le> m_freethreads (po_tool p)"
  shows "\<exists>p'. pool_step\<^sup>*\<^sup>* p p' \<and> 0 < m_freethreads (po_tool p')"
proof -
  obtain t where "c_string r = Some t" using assms(1,2) by (auto simp: pool_ok_def simp flip: c_string_exists)
  then obtain log where "MyToolZMQMultiThread_Execute (Some r) False (po_tool p)
      = Some (log, None, po_tool p\<lparr>m_freethreads := m_freethreads (po_tool p) + 1\<rparr>)"
    by (simp add: Execute_eq take_reply_eq give_task_def)
  from Turn [OF this, of rs 0] assms(2,3) show ?thesis by (intro exI conjI r_into_rtranclp) (assumption | simp)+
qed

lemma work_frees:
  assumes "pool_ok p" and "k < length (po_work p)" and "po_work p ! k = Some m" and "0 \<le> m_freethreads (po_tool p)"
  shows "\<exists>p'. pool_step\<^sup>*\<^sup>* p p' \<and> 0 < m_freethreads (po_tool p')"
proof -
  have "Some m \<in> set (po_work p)" using assms(2,3) by (metis nth_mem)
  then obtain t where "c_string m = Some t" using assms(1) by (auto simp: pool_ok_def simp flip: c_string_exists)
  then have "MyToolZMQMultiThread_Thread (Some m) True = Some (Some hello)" by (simp add: MyToolZMQMultiThread_Thread_def)
  from End [OF assms(2,3) this] obtain q where q: "pool_step p q" "po_replies q = po_replies p @ [hello]" "po_tool q = po_tool p"
    by fastforce
  then have "po_replies q \<noteq> []" by simp
  then obtain r rs where "po_replies q = r # rs" by (meson list.exhaust)
  then show ?thesis
    using reply_frees [OF step_pool_ok [OF assms(1) q(1)]] q(1,3) assms(4) by (metis converse_rtranclp_into_rtranclp)
qed

lemma inbox_frees:
  assumes "pool_ok p" and "k < length (po_inbox p)" and "po_inbox p ! k \<noteq> []" and "0 \<le> m_freethreads (po_tool p)"
  shows "\<exists>p'. pool_step\<^sup>*\<^sup>* p p' \<and> 0 < m_freethreads (po_tool p')"
proof (cases "po_work p ! k")
  case None
  obtain m ms where "po_inbox p ! k = m # ms" using assms(3) by (cases "po_inbox p ! k") auto
  moreover have k: "k < length (po_work p)" using assms(1,2) by (simp add: pool_ok_def)
  ultimately obtain q where q: "pool_step p q" "po_work q = (po_work p)[k := Some m]" "po_tool q = po_tool p"
    using Take [OF assms(2) k] None by fastforce
  then show ?thesis
    using work_frees [OF step_pool_ok [OF assms(1) q(1)], of k m] k assms(4) by (auto intro: converse_rtranclp_into_rtranclp)
next
  case (Some m)
  then show ?thesis using work_frees [OF assms(1), of k m] assms by (simp add: pool_ok_def)
qed

lemma outstanding_frees:
  assumes "pool_ok p" and "0 < outstanding p" and "0 \<le> m_freethreads (po_tool p)"
  shows "\<exists>p'. pool_step\<^sup>*\<^sup>* p p' \<and> 0 < m_freethreads (po_tool p')"
proof -
  consider "po_replies p \<noteq> []" | ms where "ms \<in> set (po_inbox p)" "ms \<noteq> []" | m where "Some m \<in> set (po_work p)"
  proof -
    have "outstanding p = 0" if "po_replies p = []" "\<forall>ms \<in> set (po_inbox p). ms = []" "\<forall>m. Some m \<notin> set (po_work p)"
      using that by (auto simp: outstanding_def) (metis option.exhaust)
    then show thesis using assms(2) that by auto
  qed
  then show ?thesis
  proof cases
    case 1
    then show ?thesis using reply_frees [OF assms(1) _ assms(3)] by (cases "po_replies p") auto
  next
    case 2
    then show ?thesis using inbox_frees [OF assms(1) _ _ assms(3)] by (metis in_set_conv_nth)
  next
    case 3
    then show ?thesis using work_frees [OF assms(1) _ _ assms(3)] by (metis in_set_conv_nth)
  qed
qed

text \<open>C32: a pool of threads: in every order of the turns of the tool and of its threads, the number of free threads the
  tool keeps is exact, never negative and never more than there are, no message is read past its end, and a
  task can be given out again, after some more turns, exactly as long as not every thread has lost a reply: a
  thread whose reply was dropped is never used again, and when the last is lost the tool stays idle.\<close>
theorem free_threads_exact:
  assumes "got (get_var ''Threads'') 4 = int n"
    and "pool_step\<^sup>*\<^sup>* (pool_start (MyToolZMQMultiThread_Initialise get_var)) p"
  shows "m_freethreads (po_tool p) = int n - int (outstanding p) - int (po_lost p) \<and> 0 \<le> m_freethreads (po_tool p)
    \<and> (\<forall>r \<in> set (po_replies p). \<forall>writable s. MyToolZMQMultiThread_Execute (Some r) writable s \<noteq> None)
    \<and> ((\<exists>p'. pool_step\<^sup>*\<^sup>* p p' \<and> 0 < m_freethreads (po_tool p')) \<longleftrightarrow> po_lost p < n)"
proof -
  let ?s = "MyToolZMQMultiThread_Initialise get_var"
  have n: "m_freethreads ?s = int n" using assms(1) by (simp add: MyToolZMQMultiThread_Initialise_def Let_def)
  note start = reached_counts [of ?s, unfolded n]
  note at = start [OF assms(2)]
  have "MyToolZMQMultiThread_Execute (Some r) writable s \<noteq> None" if "r \<in> set (po_replies p)" for r writable s
    using at(1) that c_string_exists [of r]
    by (auto simp: MyToolZMQMultiThread_Execute_def take_reply_def pool_ok_def)
  moreover have "\<exists>p'. pool_step\<^sup>*\<^sup>* p p' \<and> 0 < m_freethreads (po_tool p')" if "po_lost p < n"
  proof (cases "outstanding p = 0")
    case True
    then show ?thesis using at(3) that by (intro exI [of _ p]) simp
  next
    case False
    then show ?thesis using outstanding_frees [OF at(1)] at(2) by simp
  qed
  moreover have "po_lost p < n" if "pool_step\<^sup>*\<^sup>* p p'" "0 < m_freethreads (po_tool p')" for p'
  proof -
    have "po_lost p \<le> po_lost p'" using that(1) by (induction rule: rtranclp_induct) (auto elim!: pool_stepE)
    then show ?thesis using start(3) [OF rtranclp_trans [OF assms(2) that(1)]] that(2) by simp
  qed
  ultimately show ?thesis using at(2,3) by auto
qed

text \<open>One thread, which is given a task.\<close>

definition one_thread :: pool where
  "one_thread = pool_start (MyToolZMQMultiThread_Initialise (\<lambda>_. Some 1))"

lemma free_threads_exact_witness:
  "\<exists>p. pool_step\<^sup>*\<^sup>* one_thread p \<and> m_freethreads (po_tool p) = 0 \<and> outstanding p = 1
     \<and> (\<exists>p'. pool_step\<^sup>*\<^sup>* p p' \<and> 0 < m_freethreads (po_tool p'))"
proof -
  let ?t = "po_tool one_thread" and ?p = "one_thread\<lparr>po_tool := po_tool one_thread\<lparr>m_freethreads := 0\<rparr>, po_replies := [], po_inbox := [[greeting]]\<rparr>"
  have one: "m_freethreads ?t = 1" "po_inbox one_thread = [[]]" "po_replies one_thread = []" "po_work one_thread = [None]" "po_lost one_thread = 0"
    by (simp_all add: one_thread_def pool_start_def MyToolZMQMultiThread_Initialise_def)
  obtain log where "MyToolZMQMultiThread_Execute None True ?t = Some (log, Some greeting, ?t\<lparr>m_freethreads := 0\<rparr>)"
    using one by (simp add: Execute_eq take_reply_eq give_task_def)
  from Turn [OF this, of "[]" 0] have "pool_step one_thread ?p" using one by (simp add: deliver_def)
  then have steps: "pool_step\<^sup>*\<^sup>* one_thread ?p" by blast
  have "outstanding ?p = 1" "po_lost ?p = 0" using one by (simp_all add: outstanding_def)
  then show ?thesis
    using free_threads_exact [of "\<lambda>_. Some 1" 1 ?p] steps unfolding one_thread_def [symmetric] by auto
qed

section \<open>Registrations\<close>

lemma c_string_snprintf: "NUL \<notin> set t \<Longrightarrow> c_string (snprintf_message (length t + 1) t) = Some t"
  by (simp add: snprintf_message_def c_string_terminated)

lemma c_string_snprintf_short:
  assumes "NUL \<notin> set t" and "t \<noteq> []"
  shows "c_string (snprintf_message (length t) t) = Some (butlast t)"
proof -
  have "snprintf_message (length t) t = butlast t @ [NUL]" using assms(2) by (simp add: snprintf_message_def butlast_conv_take)
  moreover have "NUL \<notin> set (butlast t)" using assms(1) by (meson in_set_butlastD)
  ultimately show ?thesis by (simp add: c_string_terminated)
qed

lemma plain_no_NUL: "plain_text t \<Longrightarrow> NUL \<notin> set t"
  using plain_textD by blast

lemma uuid_no_NUL: "sd_laws lib \<Longrightarrow> NUL \<notin> set (sd_uuid_text lib uuid)"
  by (rule plain_no_NUL) (simp add: sd_lawsD)

lemma nat_str_no_NUL: "NUL \<notin> set (nat_str n)"
  using nat_str_digits [of n] by (auto simp: list_all_iff is_digit_def NUL_def)

lemma port_1111: "nat_str 1111 = ''1111''"
proof -
  have "(of_char CHR ''1'' :: nat) = 49" by simp
  then have "char_of (49 :: nat) = CHR ''1''" by (metis char_of_char)
  then show ?thesis by (simp add: nat_str.simps)
qed

lemma parse_without_flag:
  assumes "sd_laws lib" and "one_word cmd" and "one_word name" and "int n < 2 ^ 31"
  shows "parse_command lib junk (cmd @ CHR '' '' # name @ CHR '' '' # sd_uuid_text lib uuid @ CHR '' '' # nat_str n @ '' '')
    = \<lparr>co_command = cmd, co_service = name, co_uuid = uuid, co_port = int n, co_statusquery = co_statusquery junk\<rparr>"
proof -
  have [simp]: "\<not> is_digit CHR '' ''" by (simp add: is_digit_def)
  obtain c cs where c: "nat_str n = c # cs" "\<not> is_space c"
    using one_word_nat_str [of n] by (cases "nat_str n") (simp_all add: one_word_def)
  show ?thesis
    unfolding parse_command_def Let_def
    using assms read_int_nat_str [OF assms(4), of "'' ''"] by (simp add: read_word_word sd_lawsD c)
qed

text \<open>The last digit is cut off, and the flag is not read.\<close>

lemma ServiceAdd_parsed:
  assumes "sd_laws lib"
  shows "parse_command lib junk (butlast (ServiceAdd_text lib uuid))
    = \<lparr>co_command = ''Add'', co_service = ''testservice'', co_uuid = uuid, co_port = 1111, co_statusquery = co_statusquery junk\<rparr>"
proof -
  have t: "butlast (ServiceAdd_text lib uuid)
      = ''Add'' @ CHR '' '' # ''testservice'' @ CHR '' '' # sd_uuid_text lib uuid @ CHR '' '' # nat_str 1111 @ '' ''"
    by (simp add: ServiceAdd_text_def butlast_append port_1111)
  have w: "one_word ''testservice''" by (simp add: one_word_def is_space_def)
  have "int 1111 < 2 ^ 31" by simp
  from parse_without_flag [OF assms one_words(1) w this, of junk uuid] show ?thesis unfolding t by simp
qed

text \<open>the tool that registers a test service: its message is one byte too short, so the publisher reads everything
  but the flag and publishes the service with whatever its variable for the flag held; the message at the end takes
  exactly that service away again. Neither message is read past its end.\<close>
theorem test_service_flag_undefined:
  fixes junk junk' :: "'u command"
  assumes "sd_laws lib" and "sd_uuid_read lib [] = None"
    and "\<forall>s \<in> set (PubServices p). got (sd_get lib ''msg_value'' s) [] \<noteq> ''testservice''"
  shows "\<exists>t t' p'. c_string (ServiceAdd_Initialise lib uuid) = Some t \<and> publisher_command lib junk t p = p'
    \<and> (\<exists>s. PubServices p' = PubServices p @ [s] \<and> sd_get lib ''msg_value'' s = Some ''testservice''
        \<and> sd_get lib ''remote_port'' s = Some (int_str 1111) \<and> sd_get_bool lib ''status_query'' s = Some (co_statusquery junk))
    \<and> c_string ServiceAdd_Finalise = Some t' \<and> publisher_command lib junk' t' p' = p"
proof -
  let ?t = "butlast (ServiceAdd_text lib uuid)" and ?s = "new_service lib ''testservice'' 1111 (co_statusquery junk) uuid"
  let ?p = "p\<lparr>PubServices := PubServices p @ [?s]\<rparr>"
  have w: "one_word ''testservice''" by (simp add: one_word_def is_space_def)
  have "NUL \<notin> set (ServiceAdd_text lib uuid)" using uuid_no_NUL [OF assms(1)] by (simp add: ServiceAdd_text_def NUL_def)
  then have t: "c_string (ServiceAdd_Initialise lib uuid) = Some ?t"
    unfolding ServiceAdd_Initialise_def Let_def by (rule c_string_snprintf_short) (simp add: ServiceAdd_text_def)
  have p: "publisher_command lib junk ?t p = ?p"
    using ServiceAdd_parsed [OF assms(1)] by (simp add: publisher_command_def Let_def)
  have t': "c_string ServiceAdd_Finalise = Some (RemoveService_text ''testservice'')"
    unfolding ServiceAdd_Finalise_def Let_def RemoveService_text_def
    using c_string_snprintf [of "''Delete testservice ''"] by (simp add: NUL_def)
  have "publisher_command lib junk' (RemoveService_text ''testservice'') ?p = p"
    unfolding RemoveService_effect [OF w assms(2)] by (simp add: remove_first_none [OF assms(3)] new_service_get [OF assms(1)])
  then show ?thesis using t p t' new_service_get [OF assms(1)] by auto
qed

lemma test_service_flag_undefined_witness:
  "\<exists>s. PubServices (publisher_command demo_lib \<lparr>co_command = [], co_service = [], co_uuid = 0, co_port = 0, co_statusquery = True\<rparr>
        (the (c_string (ServiceAdd_Initialise demo_lib 7))) \<lparr>PubServices = [], pub_msg_id = 0, pub_running = True\<rparr>) = [s]
     \<and> sd_get_bool demo_lib ''status_query'' s = Some True"
proof -
  let ?p = "\<lparr>PubServices = [], pub_msg_id = 0, pub_running = True\<rparr> :: (string \<times> string) list publisher"
  let ?junk = "\<lparr>co_command = [], co_service = [], co_uuid = 0, co_port = 0, co_statusquery = True\<rparr> :: nat command"
  have "sd_uuid_read demo_lib [] = None" by simp
  have "\<forall>s \<in> set (PubServices ?p). got (sd_get demo_lib ''msg_value'' s) [] \<noteq> ''testservice''" by simp
  from test_service_flag_undefined [OF demo_lib_laws \<open>sd_uuid_read demo_lib [] = None\<close> this, of 7 ?junk ?junk]
  obtain t s where t: "c_string (ServiceAdd_Initialise demo_lib 7) = Some t"
    "PubServices (publisher_command demo_lib ?junk t ?p) = PubServices ?p @ [s]"
    "sd_get_bool demo_lib ''status_query'' s = Some (co_statusquery ?junk)"
    by blast
  then show ?thesis unfolding t(1) option.sel t(2) by (intro exI [of _ s]) (simp del: demo_lib_sels)
qed

text \<open>The template registers what it is configured for, as \<open>AddService\<close> does.\<close>

lemma template_registers:
  assumes "sd_laws lib" and "got (get_var ''Port'') 5555 = port" and "unat port < 2 ^ 31"
  shows "\<exists>text. MyToolServiceAdd_Initialise lib get_var uuid sent
      = (sent, ''tcp://*:'' @ nat_str (unat port), snprintf_message (length text + 1) text)
    \<and> c_string (snprintf_message (length text + 1) text) = Some text
    \<and> publisher_command lib junk text p
      = p\<lparr>PubServices := PubServices p @ [new_service lib ''MyService'' (int (unat port)) False uuid]\<rparr>"
proof -
  let ?text = "AddService_text lib ''MyService'' uuid port False"
  have w: "one_word ''MyService''" by (simp add: one_word_def is_space_def)
  have "NUL \<notin> set ?text" using uuid_no_NUL [OF assms(1)] nat_str_no_NUL by (simp add: AddService_text_def NUL_def)
  then show ?thesis
    using AddService_effect [OF assms(1) w assms(3), of junk uuid False p] assms(2)
    by (intro exI [of _ ?text]) (simp add: MyToolServiceAdd_Initialise_def c_string_snprintf Let_def del: One_nat_def)
qed

section \<open>What the viewer shows\<close>

definition viewer_line :: "string \<Rightarrow> string \<Rightarrow> string" where
  "viewer_line ip t = ip @ '': message = '' @ [CHR 0x22] @ t @ [CHR 0x22, CHR 0x0A]"

lemma viewer_terminated:
  assumes "t = CHR ''{'' # rest" and "NUL \<notin> set t" and "length buffer = 512"
  shows "viewer_turn (ip, t @ [NUL]) buffer
    = (if 512 \<le> length t then (Some None, take 512 t) else (Some (Some (viewer_line ip t)), t @ NUL # drop (Suc (length t)) buffer))"
proof (cases "512 \<le> length t")
  case True
  then have "take 512 (t @ [NUL]) @ drop (length (t @ [NUL])) buffer = take 512 t" using assms(3) by simp
  moreover have "c_string (take 512 t) = None" using assms(2) by (auto simp: c_string_def dest: in_set_takeD)
  moreover have "hd (take 512 t) = CHR ''{''" using assms(1) by (simp add: hd_conv_nth)
  ultimately show ?thesis using True by (simp only: viewer_turn_def Let_def prod.case) simp
next
  case False
  then have "take 512 (t @ [NUL]) @ drop (length (t @ [NUL])) buffer = t @ NUL # drop (Suc (length t)) buffer" by simp
  then show ?thesis
    using False assms(1) c_string_append [OF assms(2), of "drop (Suc (length t)) buffer"]
    by (simp only: viewer_turn_def Let_def prod.case) (simp add: viewer_line_def)
qed

text \<open>A message without its zero is shown with the end of what was there before.\<close>

lemma viewer_stale:
  assumes "t = CHR ''{'' # rest" and "NUL \<notin> set t" and "length buffer = 512" and "length t < 512"
    and "u = CHR ''{'' # rest'" and "NUL \<notin> set u" and "length u \<le> length t"
  shows "fst (viewer_turn (ip, u) (snd (viewer_turn (ip, t @ [NUL]) buffer)))
    = Some (Some (viewer_line ip (u @ drop (length u) t)))"
proof -
  let ?b = "t @ NUL # drop (Suc (length t)) buffer"
  have "take 512 u @ drop (length u) ?b = (u @ drop (length u) t) @ NUL # drop (Suc (length t)) buffer"
    using assms(4,7) by simp
  moreover have "NUL \<notin> set (u @ drop (length u) t)" using assms(2,6) by (auto dest: in_set_dropD)
  moreover have "snd (viewer_turn (ip, t @ [NUL]) buffer) = ?b" using viewer_terminated [OF assms(1-3)] assms(4) by simp
  ultimately show ?thesis
    using assms(5) c_string_append [of "u @ drop (length u) t" "drop (Suc (length t)) buffer"]
    by (simp only: viewer_turn_def Let_def prod.case) (simp add: viewer_line_def)
qed

text \<open>What a publisher sends is shown as it is, datagram by datagram, as long as every text fits the buffer with its
  zero.\<close>

lemma viewer_shows:
  assumes "sd_laws lib" and "\<forall>s \<in> set ss. plain_store lib s \<and> length (sd_write lib s) < 512" and "length buffer = 512"
  shows "viewer_loop (map (\<lambda>s. (ip, sd_write lib s @ [NUL])) ss) buffer = Some (map (\<lambda>s. viewer_line ip (sd_write lib s)) ss)"
  using assms(2,3)
proof (induction ss arbitrary: buffer)
  case (Cons s ss)
  obtain rest where "sd_write lib s = CHR ''{'' # rest" "NUL \<notin> set (sd_write lib s)"
    using Cons.prems(1) assms(1) by (auto simp: sd_laws_def)
  from viewer_terminated [OF this Cons.prems(2)] Cons.prems Cons.IH show ?case by simp
qed simp

lemma viewer_shows_round:
  assumes "sd_laws lib" and "publisher_round lib now outcome p = (ds, p')" and "\<forall>j. outcome j \<noteq> Interrupted"
    and "\<forall>s \<in> set (PubServices p'). plain_store lib s \<and> length (sd_write lib s) < 512" and "length buffer = 512"
  shows "viewer_loop (map (Pair ip) ds) buffer = Some (map (\<lambda>s. viewer_line ip (sd_write lib s)) (PubServices p'))"
proof -
  obtain ts n where ts: "publish_all lib now outcome 0 (pub_msg_id p) (PubServices p) = (ts, ds, n)" "PubServices p' = ts"
    using assms(2) by (auto simp: publisher_round_def split: prod.splits)
  have "map (Pair ip) ds = map (\<lambda>s. (ip, sd_write lib s @ [NUL])) ts"
    using publish_all_sent [OF ts(1) assms(3)] by simp
  then show ?thesis using viewer_shows [OF assms(1) _ assms(5)] assms(4) ts(2) by simp
qed

end
