(* ===== verification/Spec2Isabelle.thy ===== *)
theory Spec2Isabelle
  imports BackendRefinement BackendLifecycle ServicesBufferProofs ServicesLocks ServicesQueries
    SlowControlAlerts ServicesConfig DiscoveryLifecycle DAQPointers Zstd_Hash Zstd_SeqTables Zstd_HuffmanCodes SocketManagerProofs BoostStoreProofs
    RemoteControlProofs UserToolsProofs
begin

text \<open>
  A model of the services of the ToolDAQ framework, with the properties that make them correct.

  \<^bold>\<open>The program.\<close> A data acquisition process (a chain of user tools) talks to the rest of an
  experiment through the class \<open>Services\<close> (\<open>src/src/ServiceDiscovery/Services.cpp\<close>). Logs, monitoring
  data and alarms are buffered and multicast in batches; configurations, calibrations and plots are
  stored in and read from a database by commands. Both use \<open>ServicesBackend\<close>
  (\<open>ServicesBackend.cpp\<close>): multicast sockets for the former, and for the latter a pair of ZeroMQ
  sockets served by a background thread, with a promise for the sending and one for the response
  of every call. Large messages are compressed by \<open>zstd_helpers.cpp\<close> over the bundled library
  \<open>zstd.c\<close>. \<open>SlowControlCollection\<close> holds the controls (\<open>SlowControlElement\<close>) an operator can read and
  set remotely, and dispatches the alerts of the run control.

  \<^bold>\<open>Theories.\<close>
  \<^item> \<open>Prelude\<close>: machine integers, byte strings, little-endian numbers, results of C routines
    (\<open>cres\<close>: a value, an error code, or a read outside a buffer), decimal text.
  \<^item> \<open>Zstd_Errors\<close>, \<open>Zstd_Frame\<close>, \<open>Zstd_Walk\<close>: of \<open>zstd.c\<close>, the error codes and \<open>ZSTD_compressBound\<close>; reading
    and writing frame headers, blocks and skippable frames; the loops over blocks and frames that find sizes.
    \<open>Zstd_Hash\<close>: the checksum of a frame, of a whole buffer and in pieces. \<open>Zstd_Bitstream\<close>,
    \<open>Zstd_BitstreamProofs\<close>: the streams of bit fields the entropy coders write forward and read backward.
    \<open>Zstd_FSE\<close>: the entropy coder FSE, its tables, coding and decoding; \<open>Zstd_FSESpread\<close>: how symbols are spread over
    the states; \<open>Zstd_FSETables\<close>: what the two tables promise each other (locale \<open>coding_tables\<close>);
    \<open>Zstd_FSEProofs\<close>: coding and decoding under that promise. \<open>Zstd_SeqTables\<close>: the tables of the codes of sequences.
    \<open>Zstd_FSECounts\<close>, \<open>Zstd_FSENormalize\<close>: from a histogram to counts that fill a table; \<open>Zstd_NCount\<close>: the header that
    holds them; \<open>Zstd_NCountProofs\<close>, \<open>Zstd_NCountReads\<close>: the header as a list of fields, written and read.
    \<open>Zstd_Weights\<close>: the header of a Huffman table, its weights, and the codes; \<open>Zstd_WeightsProofs\<close>: compressing the
    weights; \<open>Zstd_HuffmanHeader\<close>: the header written and read; \<open>Zstd_HuffmanCodes\<close>: the codes a table gets from its lengths.
  \<^item> \<open>ZstdHelpers\<close>: \<open>ZstdCompress\<close> and \<open>ZstdDecompress\<close>. The two library calls are arguments under the
    contract \<open>codec_contract\<close>.
  \<^item> \<open>ServicesBackend\<close>: commands, \<open>SendMulticast\<close> (locale \<open>multicast\<close>), the two turns of the background
    thread and a whole call (\<open>DoCommand\<close>, \<open>SendCommand\<close>); \<open>BackendLifecycle\<close>: start, monitoring and stop;
    \<open>BackendProtocol\<close>: any number of calls interleaved with the background thread as a step relation;
    \<open>BackendRefinement\<close>: what the calls promise, as a specification the protocol refines (locale \<open>simulation\<close>
    of theory \<open>Simulation\<close>).
  \<^item> \<open>ServicesText\<close>: \<open>TimeStringFromUnixMs\<close> and \<open>JsonEscape\<close> with their readers; \<open>ServicesBuffers\<close>,
    \<open>ServicesBufferProofs\<close>: the three buffers and their batches; \<open>ServicesLocks\<close>: the order in which their
    mutexes are taken; \<open>ServicesQueries\<close>: commands and queries (locale \<open>command_channel\<close>).
  \<^item> \<open>OrderedMap\<close> (locale \<open>dictionary\<close>): \<open>std::map\<close> with text keys; \<open>SlowControlElement\<close>,
    \<open>SlowControlCollection\<close>: the controls; \<open>SlowControlProofs\<close>, \<open>SlowControlAlerts\<close>: their properties (the
    locales \<open>scc_invariant\<close> and \<open>scc_map_invariant\<close> carry an invariant through all operations).
  \<^item> \<open>ServicesConfig\<close>: the rest of \<open>Services\<close>: loading the configuration of a run, the functions behind
    alerts and controls, start and stop of the whole.
  \<^item> \<open>ServiceDiscovery\<close>, \<open>DAQUtilities\<close>: beacons, the list of remote services, and how tools register,
    find and connect; \<open>DiscoveryProofs\<close>, \<open>DiscoveryConnections\<close>, \<open>DiscoveryExamples\<close>: their properties.
    \<open>DiscoveryLifecycle\<close>: construction, sockets, loops, the router that carries answers, and the end; \<open>DAQPointers\<close>:
    pointers sent as text, and proxies.
  \<^item> \<open>SocketManager\<close>, \<open>SocketManagerProofs\<close>: the thread that receives and sends multipart messages for a tool
    (\<open>SocketManager.cpp\<close>), and the options of sockets.
  \<^item> \<open>BoostStore\<close>, \<open>BoostStoreProofs\<close>: the store of variables of any type, with pointers, files and
    sequences of entries (\<open>BoostStore.h\<close>, \<open>BoostStore.cpp\<close>); the archives of Boost are an argument under the
    contract \<open>boost_contract\<close>.
  \<^item> \<open>DAQLogging\<close>, \<open>ToolDAQChain\<close>: the logging of a process, and the process itself: its configuration, what is
    created from it, and the loop that executes commands from the network.
  \<^item> \<open>RemoteControl\<close>, \<open>NodeDaemon\<close>, \<open>RemoteControlProofs\<close>: the operator's console and the daemon that starts and
    stops processes and receives files, and what passes between them and a tool chain.
  \<^item> \<open>UserTools\<close>, \<open>UserToolsProofs\<close>: the tools that come with the framework, with a pool of threads as a step
    relation (refined to a counter by \<open>simulation\<close>), and the viewer of multicast messages (\<open>MCDebug.cpp\<close>).

  \<^bold>\<open>Conventions.\<close> A class is a record, a method a function from the record to its results and the record
  after it. What sockets, ZeroMQ, the operating system, the clock and the class \<open>Store\<close> (of another
  repository) do is an argument: an outcome, a record of operations, or a function. Functions of the
  user are arguments too and may change everything their caller can reach. A null dereference or a
  read outside a buffer is a value (\<open>Fault\<close>, or a flag of the state), so that their absence is proved
  and their presence is shown. The wrap-around of counters is that of the machine words.

  \<^bold>\<open>What is shown.\<close> Calls and responses: a response reaches the call that asked, commands leave in order,
  an answered call succeeds, what a call that gave up leaves behind. Multicast: what is sent expands
  to the message. Buffers: nothing accepted is lost or invented, byte counts are exact and bounded,
  duplicates are merged, repeated alarms are sent once; a deadlock between two of the senders, and
  its absence without one of them. Text: time strings and escaped text read back. Frames: headers
  read back what was written, no read leaves the buffer, the loops end. Queries: versions and data
  returned are those the database answered. Controls: the map stays well formed in every use, limits
  hold, requests have the effect they report, the state views agree, alerts arrive and drive the
  configuration state. Protocol: every run of the calls is a run of the specification. Configuration: what
  a run loads is what it was told to load. Discovery: a registered service is published, heard and
  connected to once; the list of services is current. Socket manager: every message taken is handed
  over once, replies leave in order with their flags. Store of variables: a typed map, and entries read
  back from files. Logging and remote control: lines arrive, requests are executed once in order, a
  typed command reaches its process and the result its operator, and a file arrives up to its first
  empty line. Checksum: pieces give the checksum of the whole. Bit streams: fields come
  back last first. Entropy coder: counts are normalized to exactly the size of the table, and their header reads
  back; symbols have exactly the states of their counts, and what is coded is decoded; the predefined tables are the ones
  the code would build. Huffman tables: their codes are complete prefix codes, and a table reads back from its header. Tools: free threads are counted exactly. Where the code falls short of what it
  means to do, the theorem says so exactly (a deadlock, times compared without hours, a process that is
  passed over, types not restored).

  \<^bold>\<open>Bounds and fuel.\<close> The walks over frames recurse on the bytes left and need no fuel. \<open>Unpack\<close> has a
  depth bound: the length of the text and one more is enough (\<open>Unpack_terminates\<close>).

  \<^bold>\<open>Not modelled.\<close> Log and error output; the waiting itself (polls and timed mutexes are outcomes);
  the compressed block formats, the streams of the Huffman coder and the match finders of \<open>zstd.c\<close>; the tool \<open>DummyTool\<close>, an
  example of logging; destructors that only free memory.
\<close>

end
